(* ===== verification/Prelude.thy ===== *)
theory Prelude
  imports Complex_Main "HOL-Library.AList" "HOL-Library.List_Lexorder" "HOL-Library.Char_ord"
begin

text \<open>
  What the components share: JavaScript values for data the code types as \<open>unknown\<close>, objects
  as association lists in insertion order, the array and set idioms of the code, and the
  generic locale for an operation that keeps an invariant.

  A string is a list of characters, one per UTF-16 unit; \<open>.sort()\<close> on strings is the
  lexicographic order of their units, which is the order of \<open>HOL-Library.List_Lexorder\<close>.
  A finite number is a rational; the two infinities and NaN are values of their own, and the two
  zeros are one. A \<open>Record<string, T>\<close> is read through its own properties only: keys are
  never names such as \<open>constructor\<close> that every JavaScript object inherits.
\<close>

named_theorems wf_intros \<open>rules that establish well-formedness of a workspace state\<close>
named_theorems ws_simps \<open>unfoldings and field equations of the workspace operations\<close>

subsection \<open>JavaScript values\<close>

datatype jnum = JFin rat | JNaN | JInf bool

datatype jsval =
    JUndef
  | JNull
  | JBool bool
  | JNum jnum
  | JStr string
  | JArr "jsval list"
  | JObj "(string \<times> jsval) list"

type_synonym jsobj = "(string \<times> jsval) list"

text \<open>Reading a property of a value: missing properties and non-objects give \<open>undefined\<close>.\<close>

definition oget :: "jsobj \<Rightarrow> string \<Rightarrow> jsval" where
  "oget ob k = (case map_of ob k of None \<Rightarrow> JUndef | Some v \<Rightarrow> v)"

fun jget :: "jsval \<Rightarrow> string \<Rightarrow> jsval" where
  "jget (JObj ob) k = oget ob k"
| "jget _ k = JUndef"

definition okeys :: "jsobj \<Rightarrow> string list" where
  "okeys ob = map fst ob"

text \<open>\<open>{ ...a, ...b }\<close>: later properties win, keys keep their first position.\<close>

fun spread :: "jsobj \<Rightarrow> jsobj \<Rightarrow> jsobj" where
  "spread a [] = a"
| "spread a ((k, v) # b) = spread (AList.update k v a) b"

fun obj_of :: "jsval \<Rightarrow> jsobj" where
  "obj_of (JObj ob) = ob"
| "obj_of _ = []"

fun isRecord :: "jsval \<Rightarrow> bool" where
  "isRecord (JObj _) = True"
| "isRecord _ = False"

fun isNonEmptyString :: "jsval \<Rightarrow> bool" where
  "isNonEmptyString (JStr s) = (s \<noteq> [])"
| "isNonEmptyString _ = False"

fun isFiniteNumber :: "jsval \<Rightarrow> bool" where
  "isFiniteNumber (JNum (JFin _)) = True"
| "isFiniteNumber _ = False"

fun isString :: "jsval \<Rightarrow> bool" where
  "isString (JStr _) = True"
| "isString _ = False"

fun isBool :: "jsval \<Rightarrow> bool" where
  "isBool (JBool _) = True"
| "isBool _ = False"

fun isArray :: "jsval \<Rightarrow> bool" where
  "isArray (JArr _) = True"
| "isArray _ = False"

fun str_of :: "jsval \<Rightarrow> string" where
  "str_of (JStr s) = s"
| "str_of _ = []"

fun arr_of :: "jsval \<Rightarrow> jsval list" where
  "arr_of (JArr xs) = xs"
| "arr_of _ = []"

fun rat_of :: "jsval \<Rightarrow> rat" where
  "rat_of (JNum (JFin r)) = r"
| "rat_of _ = 0"

text \<open>\<open>Math.round\<close> and the clamp the layout code uses.\<close>

definition math_round :: "rat \<Rightarrow> int" where
  "math_round x = \<lfloor>x + 1 / 2\<rfloor>"

definition clamp_round :: "int \<Rightarrow> int \<Rightarrow> rat \<Rightarrow> int" where
  "clamp_round lo hi x = math_round (min (of_int hi) (max (of_int lo) x))"

lemma math_round_of_int [simp]: "math_round (of_int n) = n"
  by (simp add: math_round_def) linarith

lemma math_round_mono: "x \<le> y \<Longrightarrow> math_round x \<le> math_round y"
  by (simp add: math_round_def floor_mono)

lemma clamp_round_bounds: "lo \<le> hi \<Longrightarrow> lo \<le> clamp_round lo hi x \<and> clamp_round lo hi x \<le> hi"
  unfolding clamp_round_def
  by (metis math_round_mono math_round_of_int max.cobounded1 min.bounded_iff min.cobounded1 of_int_le_iff)

text \<open>\<open>value === undefined || guard(value)\<close>\<close>

definition optional :: "jsval \<Rightarrow> (jsval \<Rightarrow> bool) \<Rightarrow> bool" where
  "optional v guard \<longleftrightarrow> v = JUndef \<or> guard v"

text \<open>
  What \<open>JSON.stringify\<close> keeps of a value: properties whose value is undefined are dropped,
  undefined array members and the non-finite numbers become null. Two values have the same JSON
  text exactly when these normal forms, property order included, are equal.
\<close>

fun json_norm :: "jsval \<Rightarrow> jsval" where
  "json_norm (JNum (JFin r)) = JNum (JFin r)"
| "json_norm (JNum _) = JNull"
| "json_norm (JArr xs) = JArr (map (\<lambda>x. if json_norm x = JUndef then JNull else json_norm x) xs)"
| "json_norm (JObj ob) = JObj (filter (\<lambda>(k, v). v \<noteq> JUndef) (map (\<lambda>(k, v). (k, json_norm v)) ob))"
| "json_norm v = v"

definition same_json :: "jsval \<Rightarrow> jsval \<Rightarrow> bool" where
  "same_json a b \<longleftrightarrow> json_norm a = json_norm b"

text \<open>
  \<open>===\<close> between a stored value and one out of a command's arguments: primitives by value
  (NaN differs from itself), objects and arrays by identity, and an object of the arguments is
  never the stored object.
\<close>

fun strict_eq_fresh :: "jsval \<Rightarrow> jsval \<Rightarrow> bool" where
  "strict_eq_fresh (JNum JNaN) _ = False"
| "strict_eq_fresh (JArr _) _ = False"
| "strict_eq_fresh (JObj _) _ = False"
| "strict_eq_fresh a b = (a = b)"

subsection \<open>Arrays and sets\<close>

text \<open>\<open>[...new Set(xs)]\<close>: the first occurrence of each member, in order.\<close>

fun uniq :: "'a list \<Rightarrow> 'a list" where
  "uniq [] = []"
| "uniq (x # xs) = x # filter (\<lambda>y. y \<noteq> x) (uniq xs)"

lemma set_uniq [simp]: "set (uniq xs) = set xs"
  by (induction xs) auto

lemma distinct_uniq [simp]: "distinct (uniq xs)"
  by (induction xs) auto

lemma uniq_distinct [simp]: "distinct xs \<Longrightarrow> uniq xs = xs"
proof (induction xs)
  case (Cons x xs)
  then show ?case by (auto simp: filter_id_conv)
qed simp

text \<open>\<open>xs.indexOf(x)\<close>, with \<open>None\<close> for -1.\<close>

fun index_of :: "'a list \<Rightarrow> 'a \<Rightarrow> nat option" where
  "index_of [] x = None"
| "index_of (y # ys) x = (if y = x then Some 0 else map_option Suc (index_of ys x))"

lemma index_of_None [simp]: "index_of xs x = None \<longleftrightarrow> x \<notin> set xs"
  by (induction xs) auto

lemma index_of_Some_nth: "index_of xs x = Some i \<Longrightarrow> i < length xs \<and> xs ! i = x"
  by (induction xs arbitrary: i) (auto split: if_splits)

definition head_opt :: "'a list \<Rightarrow> 'a option" where
  "head_opt xs = (case xs of [] \<Rightarrow> None | x # _ \<Rightarrow> Some x)"

definition last_opt :: "'a list \<Rightarrow> 'a option" where
  "last_opt xs = (if xs = [] then None else Some (last xs))"

lemma head_opt_Some: "head_opt xs = Some x \<Longrightarrow> x \<in> set xs"
  by (auto simp: head_opt_def split: list.splits)

lemma last_opt_Some: "last_opt xs = Some x \<Longrightarrow> x \<in> set xs"
  by (auto simp: last_opt_def split: if_splits)

lemma head_opt_None [simp]: "head_opt xs = None \<longleftrightarrow> xs = []"
  by (auto simp: head_opt_def split: list.splits)

lemma last_opt_None [simp]: "last_opt xs = None \<longleftrightarrow> xs = []"
  by (auto simp: last_opt_def)

text \<open>\<open>s.split(c)\<close> for a one-character separator: never the empty array.\<close>

fun split_on :: "char \<Rightarrow> string \<Rightarrow> string list" where
  "split_on c [] = [[]]"
| "split_on c (x # xs) =
     (if x = c then [] # split_on c xs
      else (case split_on c xs of [] \<Rightarrow> [[x]] | p # ps \<Rightarrow> (x # p) # ps))"

text \<open>\<open>xs.join(sep)\<close>\<close>

fun join_with :: "string \<Rightarrow> string list \<Rightarrow> string" where
  "join_with sep [] = []"
| "join_with sep [x] = x"
| "join_with sep (x # y # ys) = x @ sep @ join_with sep (y # ys)"

lemma split_on_nonempty [simp]: "split_on c s \<noteq> []"
  by (induction s) (auto split: list.splits)

lemma join_with_Cons: "join_with sep ((x # p) # ps) = x # join_with sep (p # ps)"
  by (cases ps) auto

lemma join_split [simp]: "join_with [c] (split_on c s) = s"
proof (induction s)
  case (Cons x xs)
  show ?case
  proof (cases "split_on c xs")
    case Nil
    then show ?thesis by simp
  next
    case (Cons p ps)
    with Cons.IH show ?thesis by (auto simp: join_with_Cons)
  qed
qed simp

lemma split_on_no_sep: "c \<notin> set s \<Longrightarrow> split_on c s = [s]"
  by (induction s) auto

lemma split_on_append: "c \<notin> set s \<Longrightarrow> split_on c (s @ c # t) = s # split_on c t"
  by (induction s) auto

lemma split_join:
  "xs \<noteq> [] \<Longrightarrow> \<forall>x\<in>set xs. c \<notin> set x \<Longrightarrow> split_on c (join_with [c] xs) = xs"
  by (induction "[c]" xs rule: join_with.induct) (auto simp: split_on_no_sep split_on_append)

text \<open>
  \<open>[...xs.slice(0, at), x, ...xs.slice(at)]\<close> where \<open>at\<close> is an \<open>indexOf\<close>: -1 counts from the end, which puts
  \<open>x\<close> before the last element.
\<close>

definition insert_at :: "nat \<Rightarrow> 'a \<Rightarrow> 'a list \<Rightarrow> 'a list" where
  "insert_at n x xs = take n xs @ x # drop n xs"

definition insert_before :: "'a \<Rightarrow> 'a \<Rightarrow> 'a list \<Rightarrow> 'a list" where
  "insert_before b x xs =
     (case index_of xs b of Some i \<Rightarrow> insert_at i x xs | None \<Rightarrow> insert_at (length xs - 1) x xs)"

lemma set_insert_at [simp]: "set (insert_at n x xs) = insert x (set xs)"
  by (metis append_take_drop_id insert_at_def list.simps(15) set_append Un_insert_right)

lemma distinct_insert_at [simp]: "distinct (insert_at n x xs) \<longleftrightarrow> x \<notin> set xs \<and> distinct xs"
proof -
  obtain as bs where "xs = as @ bs" "take n xs = as" "drop n xs = bs"
    by (metis append_take_drop_id)
  then show ?thesis by (auto simp: insert_at_def)
qed

lemma filter_insert_at [simp]:
  assumes "x \<notin> set xs"
  shows "filter (\<lambda>y. y \<noteq> x) (insert_at n x xs) = xs"
proof -
  obtain as bs where s: "xs = as @ bs" "take n xs = as" "drop n xs = bs"
    by (metis append_take_drop_id)
  with assms have "filter (\<lambda>y. y \<noteq> x) as = as" "filter (\<lambda>y. y \<noteq> x) bs = bs"
    by (auto intro!: filter_True)
  with s show ?thesis by (simp add: insert_at_def)
qed

lemma set_insert_before [simp]: "set (insert_before b x xs) = insert x (set xs)"
  by (simp add: insert_before_def split: option.splits)

lemma distinct_insert_before [simp]:
  "distinct (insert_before b x xs) \<longleftrightarrow> x \<notin> set xs \<and> distinct xs"
  by (simp add: insert_before_def split: option.splits)

lemma filter_insert_before [simp]:
  "x \<notin> set xs \<Longrightarrow> filter (\<lambda>y. y \<noteq> x) (insert_before b x xs) = xs"
  by (simp add: insert_before_def split: option.splits)

subsection \<open>Association lists as JavaScript records\<close>

lemma map_of_update [simp]: "map_of (AList.update k v al) = (map_of al)(k \<mapsto> v)"
  by (rule update_conv')

lemma map_of_delete [simp]: "map_of (AList.delete k al) = (map_of al)(k := None)"
  by (rule delete_conv')

lemma keys_update: "fst ` set (AList.update k v al) = insert k (fst ` set al)"
  by (metis dom_map_of_conv_image_fst dom_fun_upd map_of_update option.distinct(1))

lemma dom_map_of_keys: "dom (map_of al) = set (map fst al)"
  by (simp add: dom_map_of_conv_image_fst)

lemma map_of_filter_key:
  "map_of (filter (\<lambda>(k, v). P k) al) = (\<lambda>k. if P k then map_of al k else None)"
  by (induction al) auto

subsection \<open>Reference identity\<close>

text \<open>
  The workspace code returns the object it was given when nothing changed and compares
  references to find out. An operation on an object therefore returns whether it built a new
  one, together with the object.
\<close>

type_synonym 'a refd = "bool \<times> 'a"

definition same_ref :: "'a \<Rightarrow> 'a refd" where
  "same_ref s = (False, s)"

definition new_ref :: "'a \<Rightarrow> 'a refd" where
  "new_ref s = (True, s)"

definition and_then :: "'a refd \<Rightarrow> ('a \<Rightarrow> 'a refd) \<Rightarrow> 'a refd" where
  "and_then x f = (let (b, s) = x; (b', s') = f s in (b \<or> b', s'))"

lemma and_then_simps [simp]:
  "and_then (b, s) f = (b \<or> fst (f s), snd (f s))"
  "and_then (same_ref s) f = f s"
  "and_then (new_ref s) f = (True, snd (f s))"
  by (simp_all add: and_then_def same_ref_def new_ref_def split: prod.splits)

lemma ref_simps [simp]:
  "fst (same_ref s) = False" "snd (same_ref s) = s"
  "fst (new_ref s) = True" "snd (new_ref s) = s"
  by (simp_all add: same_ref_def new_ref_def)

lemma snd_and_then: "snd (and_then x f) = snd (f (snd x))"
  by (cases x) simp

subsection \<open>Operations that keep an invariant\<close>

text \<open>
  The interface of a component as its callers see it: a state, its operations as inputs of one
  step function, and the invariant that every step keeps from its precondition.
\<close>

locale invariant_machine =
  fixes step :: "'s \<Rightarrow> 'i \<Rightarrow> 's"
    and ok :: "'s \<Rightarrow> 'i \<Rightarrow> bool"
    and inv :: "'s \<Rightarrow> bool"
  assumes step_inv: "inv s \<Longrightarrow> ok s i \<Longrightarrow> inv (step s i)"
begin

text \<open>A run all of whose inputs meet the precondition of the state they arrive in.\<close>

fun run_ok :: "'s \<Rightarrow> 'i list \<Rightarrow> bool" where
  "run_ok s [] = True"
| "run_ok s (i # is) = (ok s i \<and> run_ok (step s i) is)"

lemma run_inv: "inv s \<Longrightarrow> run_ok s is \<Longrightarrow> inv (foldl step s is)"
  by (induction "is" arbitrary: s) (auto intro: step_inv)

lemma run_inv_prefix: "inv s \<Longrightarrow> run_ok s (is @ js) \<Longrightarrow> inv (foldl step s is)"
proof (induction "is" arbitrary: s)
  case (Cons i "is")
  then show ?case by (auto intro: step_inv)
qed simp

end

end
