(* ===== verification/WsTypes.thy ===== *)
theory WsTypes
  imports Prelude
begin

text \<open>
  The workspace's data (\<open>packages/contract/src/workspace/types.ts\<close>): tab records, the
  workspace state, the commands and their results, and the hooks the reducer is given.
  A field the source marks optional is an \<open>option\<close>; what it types as \<open>unknown\<close>, and the
  tab ui, which commands merge as a plain object, are JavaScript values.
\<close>

subsection \<open>Kinds\<close>

definition WORKSPACE_KINDS :: "string list" where
  "WORKSPACE_KINDS =
     [''task'', ''team_member'', ''work_session'', ''chat'', ''doc'', ''artifact'', ''drawing'',
      ''collection'', ''story'', ''form'', ''file'', ''pull_request'', ''project'', ''skill'',
      ''tool'', ''channel'', ''graph'', ''loop'', ''memory'', ''spell'', ''message'',
      ''voice_channel'', ''member'', ''interaction_profile'', ''commit'', ''worktree'',
      ''container'', ''mcp_server'', ''credential'', ''space_link'', ''server'', ''style'']"

definition isCustomKind :: "string \<Rightarrow> bool" where
  "isCustomKind kind \<longleftrightarrow> take 2 kind = ''c:'' \<and> length kind > 2 \<and> kind \<noteq> ''c:*''"

definition isKindName :: "string \<Rightarrow> bool" where
  "isKindName kind \<longleftrightarrow> kind \<in> set WORKSPACE_KINDS \<or> isCustomKind kind"

definition isWorkspaceKind :: "jsval \<Rightarrow> bool" where
  "isWorkspaceKind v = (case v of JStr kind \<Rightarrow> isKindName kind | _ \<Rightarrow> False)"

subsection \<open>Scope, tabs, presentation\<close>

datatype tab_scope = Mixed "string list" | ByType "string list"

definition TAB_SUBVIEWS :: "string list" where
  "TAB_SUBVIEWS = [''entity'', ''connections'', ''messages'']"

definition SIDE_SECTIONS :: "string list" where
  "SIDE_SECTIONS = [''chat'', ''messages'', ''links'']"

record entity_tab =
  et_id :: string
  et_kind :: string
  et_entityId :: string
  et_ui :: jsobj

record draft_tab =
  dt_id :: string
  dt_kind :: string
  dt_draftId :: string
  dt_dirty :: bool
  dt_submitting :: bool
  dt_ordinal :: nat

record chooser_tab =
  ct_id :: string
  ct_query :: string

record file_tab =
  ft_id :: string
  ft_projectId :: string
  ft_path :: string
  ft_preview :: bool

datatype tab =
    EntityTab entity_tab
  | DraftTab draft_tab
  | ChooserTab chooser_tab
  | FileTab file_tab

primrec tab_id :: "tab \<Rightarrow> string" where
  "tab_id (EntityTab t) = et_id t"
| "tab_id (DraftTab t) = dt_id t"
| "tab_id (ChooserTab t) = ct_id t"
| "tab_id (FileTab t) = ft_id t"

definition FILE_TAB_PATH_MAX :: nat where
  "FILE_TAB_PATH_MAX = 4096"

definition isFileTabProjectId :: "jsval \<Rightarrow> bool" where
  "isFileTabProjectId v = (case v of JStr s \<Rightarrow> s \<noteq> [] \<and> length s \<le> 200 | _ \<Rightarrow> False)"

text \<open>\<open>/^[A-Za-z]:/\<close>\<close>

definition hasDrive :: "string \<Rightarrow> bool" where
  "hasDrive s = (case s of
      c # d # _ \<Rightarrow> (let n = of_char c :: nat in 65 \<le> n \<and> n \<le> 90 \<or> 97 \<le> n \<and> n \<le> 122) \<and> d = CHR '':''
    | _ \<Rightarrow> False)"

definition isPathString :: "string \<Rightarrow> bool" where
  "isPathString s \<longleftrightarrow>
     s \<noteq> [] \<and> length s \<le> FILE_TAB_PATH_MAX \<and> CHR 0x00 \<notin> set s \<and>
     hd s \<noteq> CHR 0x5C \<and> hd s \<noteq> CHR ''/'' \<and> \<not> hasDrive s \<and>
     (\<forall>part \<in> set (split_on (CHR ''/'') s). part \<noteq> [] \<and> part \<noteq> ''.'' \<and> part \<noteq> ''..'')"

definition isFileTabPath :: "jsval \<Rightarrow> bool" where
  "isFileTabPath v = (case v of JStr s \<Rightarrow> isPathString s | _ \<Rightarrow> False)"

record browser_kind_state =
  bk_query :: string
  bk_filters :: jsval
  bk_scrollTop :: jnum

record browser_state =
  bs_kind :: string
  bs_perKind :: "(string \<times> browser_kind_state) list"

datatype presentation = Start | ShowTab string

record layout_state =
  l_expanded :: bool
  l_browserWidth :: int
  l_chatWidth :: int

record bounds = b_min :: int  b_max :: int  b_initial :: int

text \<open>\<open>LAYOUT_BOUNDS\<close>\<close>

definition BROWSER_BOUNDS :: bounds where
  "BROWSER_BOUNDS = \<lparr>b_min = 240, b_max = 480, b_initial = 300\<rparr>"

definition CHAT_BOUNDS :: bounds where
  "CHAT_BOUNDS = \<lparr>b_min = 320, b_max = 640, b_initial = 380\<rparr>"

record rail_prefs =
  r_pins :: "string list"
  r_open :: "(string \<times> bool) list"
  r_expanded :: bool
  r_lifted :: "string list option"

subsection \<open>Commands\<close>

datatype source =
    Click | Keyboard | Palette | Deeplink | Restore | History | System | Remote
  | OtherSource string

definition LOCAL_SOURCES :: "source list" where
  "LOCAL_SOURCES = [Click, Keyboard, Palette, Deeplink, Restore, History, System]"

definition ACCEPTED_SOURCES :: "source list" where
  "ACCEPTED_SOURCES = LOCAL_SOURCES @ [Remote]"

definition UI_SOURCES :: "source list" where
  "UI_SOURCES = [Click, Keyboard]"

text \<open>The names of \<open>COMMAND_NAMES\<close>, and any other name an envelope may carry.\<close>

datatype command_name =
    CInspect | CBrowserSet | CTabScopeSet | CTabsOpen | CTabsActivate | CTabsClose
  | CTabsCloseVisible | CTabsMove | CTabsSetUi | CDraftsOpen | CDraftsMarkDirty | CDraftsBind
  | CChooserOpen | CLayoutSet | CInteractionsResolve | CDialogsOpen | CDialogsClose | CViewSet
  | CRailSet | CFilesOpen
  | OtherCommand string

definition COMMAND_NAMES :: "command_name list" where
  "COMMAND_NAMES =
     [CInspect, CBrowserSet, CTabScopeSet, CTabsOpen, CTabsActivate, CTabsClose,
      CTabsCloseVisible, CTabsMove, CTabsSetUi, CDraftsOpen, CDraftsMarkDirty, CDraftsBind,
      CChooserOpen, CLayoutSet, CInteractionsResolve, CDialogsOpen, CDialogsClose, CViewSet,
      CRailSet, CFilesOpen]"

record envelope =
  command :: command_name
  args :: jsval
  source :: source
  expectedRevision :: "jnum option"

datatype interaction_choice = AddType | UseMixed | Cancel | Discard | Keep
datatype interaction_reason = ScopeChoiceRequired | UnsavedChanges

record pending_interaction =
  p_id :: string
  p_reason :: interaction_reason
  p_command :: envelope
  p_choices :: "interaction_choice list"
  p_targetKind :: "string option"
  p_tabIds :: "string list option"
  p_revisionAtRequest :: nat
  p_closeTabIds :: "string list option"
  p_draftRevisions :: "(string \<times> nat) list option"

definition DIALOG_IDS :: "string list" where
  "DIALOG_IDS = [''palette'', ''prompts'', ''agentTools'', ''newSpace'', ''addServer'']"

subsection \<open>The state\<close>

record wstate =
  revision :: nat
  spaceId :: string
  viewerId :: string
  windowId :: string
  orderedTabIds :: "string list"
  tabs :: "(string \<times> tab) list"
  presentation :: presentation
  scope :: tab_scope
  recency :: "string list"
  rememberedActive :: "(string \<times> string) list"
  layout :: layout_state
  browserMain :: browser_state
  pending :: "pending_interaction option"
  scopeRepair :: "string list option"
  rail :: "rail_prefs option"

definition tab_at :: "wstate \<Rightarrow> string \<Rightarrow> tab option" where
  "tab_at s tid = map_of (tabs s) tid"

definition put_tab :: "string \<Rightarrow> tab \<Rightarrow> wstate \<Rightarrow> wstate" where
  "put_tab tid t s = s\<lparr>tabs := AList.update tid t (tabs s)\<rparr>"

subsection \<open>Results\<close>

datatype status = Applied | NoOp | RequiresUserChoice | Rejected | Conflict
datatype outcome = Created | Reused | Focused

datatype reason =
    InvalidArguments | UnsupportedKind | PermissionDenied | NeedsChoice interaction_reason
  | RevisionConflict | EntityUnavailable | Busy | UserTyping | ViewUnavailable
  | UnsupportedDialog | DialogUnavailable | NotRendered | TabLimit | WorkspaceNotFound
  | WorkspaceSwitched | WorkspaceMismatch | NotActive | WorkspacePinRequired

datatype tab_row =
    EntityRow string string string
  | DraftRow string string bool
  | FileRow string string string bool
  | ChooserRow string

record inspection =
  i_revision :: nat
  i_presentation :: presentation
  i_visibleTabIds :: "string list"
  i_orderedTabIds :: "tab_row list"
  i_scope :: tab_scope
  i_browserKind :: string
  i_layout :: layout_state
  i_pending :: "(string \<times> interaction_reason \<times> interaction_choice list \<times> string option \<times> string list option) option"

record result =
  res_status :: status
  res_revision :: nat
  res_tabId :: "string option"
  res_outcome :: "outcome option"
  res_reason :: "reason option"
  res_pendingId :: "string option"
  res_choices :: "interaction_choice list option"
  res_inspection :: "inspection option"
  res_dialogId :: "string option"
  res_dialogOpen :: "bool option"

definition plain_result :: "status \<Rightarrow> nat \<Rightarrow> result" where
  "plain_result st n =
     \<lparr>res_status = st, res_revision = n, res_tabId = None, res_outcome = None, res_reason = None,
      res_pendingId = None, res_choices = None, res_inspection = None, res_dialogId = None,
      res_dialogOpen = None\<rparr>"

text \<open>
  Post-commit side effects: what the \<open>after\<close> thunks call. The toast carries its text and, when
  it offers Open, the entity its action opens.
\<close>

datatype effect =
    DeleteDraft string
  | FocusDraft string
  | Toast string "(string \<times> string) option"

text \<open>
  \<open>WorkspaceHooks\<close>, as the reducer reads them during one command. \<open>newId\<close> is a supply
  of ids indexed by how many were taken; the reducer threads that number.
\<close>

record hooks =
  draftRevision :: "string \<Rightarrow> nat"
  captureUi :: "string \<Rightarrow> jsobj option"
  canCreate :: "string \<Rightarrow> bool"
  newId :: "nat \<Rightarrow> string"
  openDialogHook :: "string \<Rightarrow> result"
  closeDialogHook :: "string \<Rightarrow> result"
  showWorkspaceHook :: result
  viewMounted :: bool
  userTyping :: bool

lemma tab_at_put_tab [simp]: "tab_at (put_tab tid t s) x = (if x = tid then Some t else tab_at s x)"
  by (simp add: tab_at_def put_tab_def)

lemma put_tab_fields [simp]:
  "orderedTabIds (put_tab tid t s) = orderedTabIds s" "presentation (put_tab tid t s) = presentation s"
  "scope (put_tab tid t s) = scope s" "recency (put_tab tid t s) = recency s"
  "rememberedActive (put_tab tid t s) = rememberedActive s" "layout (put_tab tid t s) = layout s"
  "pending (put_tab tid t s) = pending s" "revision (put_tab tid t s) = revision s"
  "rail (put_tab tid t s) = rail s" "scopeRepair (put_tab tid t s) = scopeRepair s"
  "browserMain (put_tab tid t s) = browserMain s"
  by (simp_all add: put_tab_def)

lemma tab_at_cong: "tabs s = tabs s' \<Longrightarrow> tab_at s = tab_at s'"
  by (simp add: tab_at_def fun_eq_iff)

end
