(* ===== verification/WsShared.thy ===== *)
theory WsShared
  imports WsTypes
begin

text \<open>
  The derived reads of \<open>workspace/selectors.ts\<close> and the state helpers every command family
  shares (\<open>workspace/commands/shared.ts\<close>): activation, the fallback after a scope change,
  tab removal, the chooser swap and the position after the active tab.
\<close>

subsection \<open>Selectors\<close>

definition scopeKey :: "tab_scope \<Rightarrow> string" where
  "scopeKey sc = (case sc of Mixed _ \<Rightarrow> ''mixed'' | ByType ids \<Rightarrow> ''byType:'' @ join_with '','' (sort ids))"

definition kindInScope :: "tab_scope \<Rightarrow> string \<Rightarrow> bool" where
  "kindInScope sc kind = (case sc of Mixed _ \<Rightarrow> True | ByType ids \<Rightarrow> kind \<in> set ids)"

definition isEligible :: "tab_scope \<Rightarrow> tab \<Rightarrow> bool" where
  "isEligible sc t = (case t of
      ChooserTab _ \<Rightarrow> True
    | FileTab _ \<Rightarrow> True
    | EntityTab e \<Rightarrow> kindInScope sc (et_kind e)
    | DraftTab d \<Rightarrow> kindInScope sc (dt_kind d))"

definition eligibleIds :: "wstate \<Rightarrow> string list \<Rightarrow> string list" where
  "eligibleIds s ids =
     filter (\<lambda>i. case tab_at s i of None \<Rightarrow> False | Some t \<Rightarrow> isEligible (scope s) t) ids"

definition visibleTabIds :: "wstate \<Rightarrow> string list" where
  "visibleTabIds s =
     filter (\<lambda>i. case tab_at s i of None \<Rightarrow> False | Some t \<Rightarrow> isEligible (scope s) t) (orderedTabIds s)"

definition visibleTabs :: "wstate \<Rightarrow> tab list" where
  "visibleTabs s = List.map_filter (tab_at s) (visibleTabIds s)"

definition activeTabId :: "wstate \<Rightarrow> string option" where
  "activeTabId s = (case presentation s of ShowTab i \<Rightarrow> Some i | Start \<Rightarrow> None)"

definition activeTab :: "wstate \<Rightarrow> tab option" where
  "activeTab s = (case activeTabId s of
      None \<Rightarrow> None | Some i \<Rightarrow> if i = [] then None else tab_at s i)"

definition activeEntityId :: "wstate \<Rightarrow> string option" where
  "activeEntityId s = (case activeTab s of Some (EntityTab e) \<Rightarrow> Some (et_entityId e) | _ \<Rightarrow> None)"

fun findEntityIn :: "wstate \<Rightarrow> string \<Rightarrow> string \<Rightarrow> string list \<Rightarrow> entity_tab option" where
  "findEntityIn s kind entityId [] = None"
| "findEntityIn s kind entityId (i # is) =
     (case tab_at s i of
        Some (EntityTab e) \<Rightarrow>
          if et_kind e = kind \<and> et_entityId e = entityId then Some e
          else findEntityIn s kind entityId is
      | _ \<Rightarrow> findEntityIn s kind entityId is)"

definition findEntityTab :: "wstate \<Rightarrow> string \<Rightarrow> string \<Rightarrow> entity_tab option" where
  "findEntityTab s kind entityId = findEntityIn s kind entityId (orderedTabIds s)"

fun findFileIn :: "wstate \<Rightarrow> (file_tab \<Rightarrow> bool) \<Rightarrow> string list \<Rightarrow> file_tab option" where
  "findFileIn s p [] = None"
| "findFileIn s p (i # is) =
     (case tab_at s i of
        Some (FileTab f) \<Rightarrow> if p f then Some f else findFileIn s p is
      | _ \<Rightarrow> findFileIn s p is)"

definition findFileTab :: "wstate \<Rightarrow> string \<Rightarrow> string \<Rightarrow> file_tab option" where
  "findFileTab s projectId path =
     findFileIn s (\<lambda>f. ft_projectId f = projectId \<and> ft_path f = path) (orderedTabIds s)"

definition findPreviewFileTab :: "wstate \<Rightarrow> file_tab option" where
  "findPreviewFileTab s = findFileIn s ft_preview (orderedTabIds s)"

definition selectedKinds :: "tab_scope \<Rightarrow> string list" where
  "selectedKinds sc = (case sc of ByType ids \<Rightarrow> ids | Mixed _ \<Rightarrow> [])"

definition tab_row_of :: "wstate \<Rightarrow> string \<Rightarrow> tab_row list" where
  "tab_row_of s i = (case tab_at s i of
      None \<Rightarrow> []
    | Some (EntityTab e) \<Rightarrow> [EntityRow i (et_kind e) (et_entityId e)]
    | Some (DraftTab d) \<Rightarrow> [DraftRow i (dt_kind d) (dt_dirty d)]
    | Some (FileTab f) \<Rightarrow> [FileRow i (ft_projectId f) (ft_path f) (ft_preview f)]
    | Some (ChooserTab _) \<Rightarrow> [ChooserRow i])"

definition inspect :: "wstate \<Rightarrow> inspection" where
  "inspect s =
     \<lparr>i_revision = revision s, i_presentation = presentation s,
      i_visibleTabIds = visibleTabIds s,
      i_orderedTabIds = concat (map (tab_row_of s) (orderedTabIds s)),
      i_scope = scope s, i_browserKind = bs_kind (browserMain s), i_layout = layout s,
      i_pending = map_option (\<lambda>p. (p_id p, p_reason p, p_choices p,
          (case p_targetKind p of Some k \<Rightarrow> if k = [] then None else Some k | None \<Rightarrow> None),
          p_tabIds p)) (pending s)\<rparr>"

subsection \<open>Activation\<close>

text \<open>\<open>captureOutgoing\<close>: the tab records with the outgoing entity tab's live ui merged in.\<close>

definition captureOutgoing :: "wstate \<Rightarrow> hooks \<Rightarrow> (string \<times> tab) list" where
  "captureOutgoing s h = (case presentation s of
      Start \<Rightarrow> tabs s
    | ShowTab active \<Rightarrow>
        (case tab_at s active of
           Some (EntityTab e) \<Rightarrow>
             (case captureUi h (et_id e) of
                None \<Rightarrow> tabs s
              | Some captured \<Rightarrow>
                  if okeys captured = [] then tabs s
                  else AList.update (et_id e) (EntityTab (e\<lparr>et_ui := spread (et_ui e) captured\<rparr>)) (tabs s))
         | _ \<Rightarrow> tabs s))"

definition activate :: "wstate \<Rightarrow> string \<Rightarrow> hooks \<Rightarrow> wstate refd" where
  "activate s tid h =
     (if presentation s = ShowTab tid then same_ref s
      else new_ref (s\<lparr>tabs := captureOutgoing s h,
                      presentation := ShowTab tid,
                      recency := tid # filter (\<lambda>i. i \<noteq> tid) (recency s),
                      rememberedActive := AList.update (scopeKey (scope s)) tid (rememberedActive s)\<rparr>))"

definition showStart :: "wstate \<Rightarrow> hooks \<Rightarrow> wstate refd" where
  "showStart s h =
     (if presentation s = Start then same_ref s
      else new_ref (s\<lparr>tabs := captureOutgoing s h, presentation := Start\<rparr>))"

text \<open>
  The pick after a scope change. A remembered id that is the empty string is falsy without being
  nullish: the chain of \<open>??\<close> stops there and the start surface shows.
\<close>

definition scope_pick :: "wstate \<Rightarrow> string option" where
  "scope_pick s =
     (case map_of (rememberedActive s) (scopeKey (scope s)) of
        Some r \<Rightarrow>
          if r = [] then Some []
          else (case head_opt (eligibleIds s [r]) of
                  Some i \<Rightarrow> Some i
                | None \<Rightarrow>
                    (case head_opt (eligibleIds s (recency s)) of
                       Some i \<Rightarrow> Some i
                     | None \<Rightarrow> head_opt (eligibleIds s (orderedTabIds s))))
      | None \<Rightarrow>
          (case head_opt (eligibleIds s (recency s)) of
             Some i \<Rightarrow> Some i
           | None \<Rightarrow> head_opt (eligibleIds s (orderedTabIds s))))"

definition activate_pick :: "wstate \<Rightarrow> string option \<Rightarrow> hooks \<Rightarrow> wstate refd" where
  "activate_pick s pick h = (case pick of
      Some i \<Rightarrow> if i = [] then showStart s h else activate s i h
    | None \<Rightarrow> showStart s h)"

definition resolveAfterScopeChange :: "wstate \<Rightarrow> hooks \<Rightarrow> wstate refd" where
  "resolveAfterScopeChange s h = (case presentation s of
      Start \<Rightarrow> same_ref s
    | ShowTab active \<Rightarrow>
        (case tab_at s active of
           Some t \<Rightarrow>
             if isEligible (scope s) t
             then new_ref (s\<lparr>rememberedActive := AList.update (scopeKey (scope s)) (tab_id t) (rememberedActive s)\<rparr>)
             else activate_pick s (scope_pick s) h
         | None \<Rightarrow> activate_pick s (scope_pick s) h))"

subsection \<open>Removal\<close>

definition doomed_ids :: "wstate \<Rightarrow> string list \<Rightarrow> string list" where
  "doomed_ids s ids = filter (\<lambda>i. tab_at s i \<noteq> None) ids"

definition draft_deletions :: "wstate \<Rightarrow> string list \<Rightarrow> effect list" where
  "draft_deletions s doomed =
     concat (map (\<lambda>(i, t). if i \<in> set doomed then (case t of DraftTab d \<Rightarrow> [DeleteDraft (dt_draftId d)] | _ \<Rightarrow> []) else [])
       (tabs s))"

definition drop_tabs :: "wstate \<Rightarrow> string list \<Rightarrow> wstate" where
  "drop_tabs s doomed =
     s\<lparr>tabs := filter (\<lambda>(i, t). i \<notin> set doomed) (tabs s),
       orderedTabIds := filter (\<lambda>i. i \<notin> set doomed) (orderedTabIds s),
       recency := filter (\<lambda>i. i \<notin> set doomed) (recency s),
       rememberedActive := filter (\<lambda>(key, i). i \<notin> set doomed) (rememberedActive s)\<rparr>"

text \<open>The nearest eligible survivor to the right of the closed tab in the old order, else to its left.\<close>

definition survivor :: "wstate \<Rightarrow> wstate \<Rightarrow> string list \<Rightarrow> string \<Rightarrow> string option" where
  "survivor s dropped doomed active =
     (let order = orderedTabIds s;
          right = (case index_of order active of None \<Rightarrow> order | Some i \<Rightarrow> drop (Suc i) order);
          left = (case index_of order active of None \<Rightarrow> [] | Some i \<Rightarrow> take i order);
          survivors = (\<lambda>l. eligibleIds dropped (filter (\<lambda>i. i \<notin> set doomed) l))
      in case head_opt (survivors right) of Some i \<Rightarrow> Some i | None \<Rightarrow> last_opt (survivors left))"

definition removeTabs :: "wstate \<Rightarrow> string list \<Rightarrow> hooks \<Rightarrow> wstate refd \<times> effect list" where
  "removeTabs s ids h =
     (let doomed = doomed_ids s ids in
      if doomed = [] then (same_ref s, [])
      else
        let dropped = drop_tabs s doomed;
            after = draft_deletions s doomed
        in (case presentation s of
              Start \<Rightarrow> (new_ref dropped, after)
            | ShowTab active \<Rightarrow>
                if active \<in> set doomed then
                  let started = dropped\<lparr>presentation := Start\<rparr> in
                  (case survivor s dropped doomed active of
                     None \<Rightarrow> (new_ref started, after)
                   | Some i \<Rightarrow>
                       if i = [] then (new_ref started, after)
                       else (new_ref (snd (activate started i h)), after))
                else (new_ref dropped, after)))"

definition is_chooser :: "wstate \<Rightarrow> string \<Rightarrow> bool" where
  "is_chooser s i = (case tab_at s i of Some (ChooserTab _) \<Rightarrow> True | _ \<Rightarrow> False)"

definition replaceChooser :: "wstate \<Rightarrow> jsval \<Rightarrow> string \<Rightarrow> bool \<Rightarrow> hooks \<Rightarrow> wstate refd" where
  "replaceChooser s chooserId tid takePosition h = (case chooserId of
      JStr c \<Rightarrow>
        if c = tid \<or> \<not> is_chooser s c then same_ref s
        else
          let s1 = (if takePosition
                    then s\<lparr>orderedTabIds := insert_before c tid (filter (\<lambda>i. i \<noteq> tid) (orderedTabIds s))\<rparr>
                    else s)
          in (takePosition \<or> fst (fst (removeTabs s1 [c] h)), snd (fst (removeTabs s1 [c] h)))
    | _ \<Rightarrow> same_ref s)"

definition afterActive :: "wstate \<Rightarrow> string \<Rightarrow> string list" where
  "afterActive s tid =
     (let order = orderedTabIds s; rest = filter (\<lambda>i. i \<noteq> tid) order in
      case activeTabId s of
        None \<Rightarrow> rest @ [tid]
      | Some active \<Rightarrow>
          if active = tid then order
          else (case index_of rest active of
                  None \<Rightarrow> rest @ [tid]
                | Some i \<Rightarrow> insert_at (Suc i) tid rest))"

end
