(* ===== verification/WsTabs.thy ===== *)
theory WsTabs
  imports WsShared
begin

text \<open>
  The planner vocabulary and the commands on tabs, scope and chooser:
  \<open>commands/shared.ts\<close> (plans), \<open>commands/tabs.ts\<close>, \<open>commands/scope.ts\<close>,
  \<open>commands/panels.ts\<close> and \<open>commands/files.ts\<close>. A planner takes the state, the envelope,
  the hooks and the number of ids already taken; it gives its plan and the ids taken after it.
\<close>

subsection \<open>Plans\<close>

record choice_request =
  c_reason :: interaction_reason
  c_choices :: "interaction_choice list"
  c_targetKind :: "string option"
  c_tabIds :: "string list option"
  c_closeTabIds :: "string list option"
  c_draftRevisions :: "(string \<times> nat) list option"

record commit_result =
  cr_tabId :: "string option"
  cr_outcome :: "outcome option"
  cr_status :: status

datatype plan =
    Reject reason
  | Choice choice_request
  | Commit "wstate refd" commit_result bool "effect list"
  | Replay wstate envelope "effect list"
  | PInspect
  | External result

definition plain_commit :: "wstate refd \<Rightarrow> plan" where
  "plain_commit nx = Commit nx \<lparr>cr_tabId = None, cr_outcome = None, cr_status = Applied\<rparr> True []"

definition commit_tab :: "wstate refd \<Rightarrow> string \<Rightarrow> outcome option \<Rightarrow> effect list \<Rightarrow> plan" where
  "commit_tab nx tid oc after = Commit nx \<lparr>cr_tabId = Some tid, cr_outcome = oc, cr_status = Applied\<rparr> True after"

definition no_op_commit :: "wstate \<Rightarrow> plan" where
  "no_op_commit s = Commit (same_ref s) \<lparr>cr_tabId = None, cr_outcome = None, cr_status = NoOp\<rparr> True []"

definition scope_choice :: "string \<Rightarrow> plan" where
  "scope_choice kind = Choice \<lparr>c_reason = ScopeChoiceRequired, c_choices = [AddType, UseMixed, Cancel],
     c_targetKind = Some kind, c_tabIds = None, c_closeTabIds = None, c_draftRevisions = None\<rparr>"

text \<open>\<open>next.every((id, i) => id === prev[i])\<close>\<close>

definition every_same :: "string list \<Rightarrow> string list \<Rightarrow> bool" where
  "every_same new old \<longleftrightarrow> length new \<le> length old \<and> take (length new) old = new"

abbreviation arg :: "envelope \<Rightarrow> string \<Rightarrow> jsval" where
  "arg env k \<equiv> jget (args env) k"

subsection \<open>Guards of \<open>tabs.ts\<close>\<close>

definition isTrail :: "jsval \<Rightarrow> bool" where
  "isTrail v = (case v of
      JArr cs \<Rightarrow> (\<forall>c \<in> set cs. isRecord c \<and> isNonEmptyString (jget c ''entityId'')
                    \<and> isNonEmptyString (jget c ''kind'') \<and> isString (jget c ''title''))
    | _ \<Rightarrow> False)"

definition isSubview :: "jsval \<Rightarrow> bool" where
  "isSubview v = (case v of JStr s \<Rightarrow> s \<in> set TAB_SUBVIEWS | _ \<Rightarrow> False)"

definition isSection :: "jsval \<Rightarrow> bool" where
  "isSection v = (case v of JStr s \<Rightarrow> s \<in> set SIDE_SECTIONS | _ \<Rightarrow> False)"

definition isChatPatch :: "jsval \<Rightarrow> bool" where
  "isChatPatch chat \<longleftrightarrow> isRecord chat \<and> isBool (jget chat ''open'')
     \<and> optional (jget chat ''width'') isFiniteNumber
     \<and> optional (jget chat ''threadId'') isString
     \<and> optional (jget chat ''section'') isSection"

definition isUiPatch :: "jsval \<Rightarrow> bool" where
  "isUiPatch v \<longleftrightarrow> isRecord v
     \<and> optional (jget v ''subview'') isSubview
     \<and> optional (jget v ''scrollTop'') isFiniteNumber
     \<and> optional (jget v ''trail'') isTrail
     \<and> optional (jget v ''chat'') isChatPatch"

definition DIRECT_OPEN_SOURCES :: "source list" where
  "DIRECT_OPEN_SOURCES = [Click, Keyboard, Palette, Deeplink]"

subsection \<open>\<open>workspace.tabs.open\<close>\<close>

text \<open>The ui of an existing tab an open touches; the flag is whether it is rebuilt at all.\<close>

definition open_ui :: "jsobj \<Rightarrow> jsval \<Rightarrow> jsval \<Rightarrow> bool \<Rightarrow> jsobj refd" where
  "open_ui ui trail subview clearTrail =
     (let dropTrail = clearTrail \<and> oget ui ''trail'' \<noteq> JUndef;
          setTrail = trail \<noteq> JUndef \<and> \<not> clearTrail
      in if setTrail \<or> subview \<noteq> JUndef \<or> dropTrail
         then new_ref
           (spread (spread (if clearTrail then AList.delete ''trail'' ui else ui)
              (if subview \<noteq> JUndef then [(''subview'', subview)] else []))
              (if setTrail then [(''trail'', trail)] else []))
         else same_ref ui)"

definition open_args_ok :: "envelope \<Rightarrow> bool" where
  "open_args_ok env \<longleftrightarrow>
     optional (arg env ''activate'') isBool \<and> optional (arg env ''trail'') isTrail
     \<and> optional (arg env ''subview'') isSubview \<and> optional (arg env ''replaceTabId'') isNonEmptyString"

definition open_existing :: "wstate \<Rightarrow> entity_tab \<Rightarrow> envelope \<Rightarrow> bool \<Rightarrow> hooks \<Rightarrow> wstate refd" where
  "open_existing s e env clearTrail h =
     (let ui = open_ui (et_ui e) (arg env ''trail'') (arg env ''subview'') clearTrail;
          n1 = (if fst ui then new_ref (put_tab (et_id e) (EntityTab (e\<lparr>et_ui := snd ui\<rparr>)) s) else same_ref s);
          n2 = (if arg env ''activate'' \<noteq> JBool False then and_then n1 (\<lambda>s. activate s (et_id e) h) else n1)
      in and_then n2 (\<lambda>s. replaceChooser s (arg env ''replaceTabId'') (et_id e) False h))"

definition open_new :: "wstate \<Rightarrow> string \<Rightarrow> string \<Rightarrow> string \<Rightarrow> envelope \<Rightarrow> bool \<Rightarrow> hooks \<Rightarrow> wstate refd" where
  "open_new s tid kind entityId env clearTrail h =
     (let ui = spread [(''subview'', if arg env ''subview'' = JUndef then JStr ''entity'' else arg env ''subview'')]
                 (if arg env ''trail'' \<noteq> JUndef \<and> \<not> clearTrail then [(''trail'', arg env ''trail'')] else []);
          rec = EntityTab \<lparr>et_id = tid, et_kind = kind, et_entityId = entityId, et_ui = ui\<rparr>;
          shouldActivate = arg env ''activate'' \<noteq> JBool False;
          s1 = (put_tab tid rec s)\<lparr>orderedTabIds := afterActive s tid,
                 recency := (if shouldActivate then recency s else recency s @ [tid])\<rparr>;
          n2 = (if shouldActivate then and_then (new_ref s1) (\<lambda>s. activate s tid h) else new_ref s1)
      in and_then n2 (\<lambda>s. replaceChooser s (arg env ''replaceTabId'') tid True h))"

definition open_clears_trail :: "envelope \<Rightarrow> bool" where
  "open_clears_trail env =
     (if arg env ''trail'' \<noteq> JUndef then arr_of (arg env ''trail'') = []
      else source env \<in> set DIRECT_OPEN_SOURCES)"

definition open_tab :: "wstate \<Rightarrow> envelope \<Rightarrow> hooks \<Rightarrow> nat \<Rightarrow> plan \<times> nat" where
  "open_tab s env h n =
     (if \<not> isRecord (args env) \<or> \<not> isNonEmptyString (arg env ''entityId'') \<or> \<not> isNonEmptyString (arg env ''kind'')
      then (Reject InvalidArguments, n)
      else if \<not> isWorkspaceKind (arg env ''kind'') then (Reject UnsupportedKind, n)
      else if \<not> open_args_ok env then (Reject InvalidArguments, n)
      else
        let kind = str_of (arg env ''kind''); entityId = str_of (arg env ''entityId'');
            clearTrail = open_clears_trail env
        in if \<not> kindInScope (scope s) kind then (scope_choice kind, n)
           else (case findEntityTab s kind entityId of
               Some e \<Rightarrow>
                 if isEligible (scope s) (EntityTab e) then
                   let nx = open_existing s e env clearTrail h
                   in (Commit nx \<lparr>cr_tabId = Some (et_id e), cr_outcome = Some Focused,
                         cr_status = (if fst nx then Applied else NoOp)\<rparr> True [], n)
                 else (commit_tab (open_new s (newId h n) kind entityId env clearTrail h)
                         (newId h n) (Some Created) [], Suc n)
             | None \<Rightarrow> (commit_tab (open_new s (newId h n) kind entityId env clearTrail h)
                         (newId h n) (Some Created) [], Suc n)))"

subsection \<open>\<open>activate\<close>, \<open>close\<close>, \<open>closeVisible\<close>, \<open>move\<close>, \<open>setUi\<close>\<close>

definition activateTab :: "wstate \<Rightarrow> envelope \<Rightarrow> hooks \<Rightarrow> plan" where
  "activateTab s env h =
     (if \<not> isRecord (args env) \<or> \<not> isNonEmptyString (arg env ''tabId'') then Reject InvalidArguments
      else (case tab_at s (str_of (arg env ''tabId'')) of
          None \<Rightarrow> Reject InvalidArguments
        | Some t \<Rightarrow>
            if \<not> isEligible (scope s) t then Reject InvalidArguments
            else commit_tab (activate s (tab_id t) h) (tab_id t) (Some Focused) []))"

definition close_tab :: "wstate \<Rightarrow> envelope \<Rightarrow> hooks \<Rightarrow> plan" where
  "close_tab s env h =
     (if \<not> isRecord (args env) \<or> \<not> isNonEmptyString (arg env ''tabId'') then Reject InvalidArguments
      else if \<not> optional (arg env ''discard'') isBool then Reject InvalidArguments
      else (case tab_at s (str_of (arg env ''tabId'')) of
          None \<Rightarrow> no_op_commit s
        | Some t \<Rightarrow>
            let discard = (arg env ''discard'' = JBool True \<and> source env \<in> set UI_SOURCES);
                removal = (let r = removeTabs s [tab_id t] h in commit_tab (fst r) (tab_id t) None (snd r))
            in (case t of
                  DraftTab d \<Rightarrow>
                    if dt_dirty d \<and> \<not> discard then
                      Choice \<lparr>c_reason = UnsavedChanges, c_choices = [Discard, Keep],
                        c_targetKind = Some (dt_kind d), c_tabIds = Some [dt_id d],
                        c_closeTabIds = Some [dt_id d],
                        c_draftRevisions = Some [(dt_id d, draftRevision h (dt_draftId d))]\<rparr>
                    else removal
                | _ \<Rightarrow> removal)))"

definition is_dirty_draft :: "wstate \<Rightarrow> string \<Rightarrow> bool" where
  "is_dirty_draft s i = (case tab_at s i of Some (DraftTab d) \<Rightarrow> dt_dirty d | _ \<Rightarrow> False)"

definition draft_revisions :: "wstate \<Rightarrow> hooks \<Rightarrow> string list \<Rightarrow> (string \<times> nat) list" where
  "draft_revisions s h ids =
     foldl (\<lambda>m i. case tab_at s i of Some (DraftTab d) \<Rightarrow> AList.update i (draftRevision h (dt_draftId d)) m | _ \<Rightarrow> m)
       [] ids"

definition closeVisible :: "wstate \<Rightarrow> envelope \<Rightarrow> hooks \<Rightarrow> plan" where
  "closeVisible s env h =
     (let a = (if args env = JUndef \<or> args env = JNull then JObj [] else args env) in
      if \<not> isRecord a then Reject InvalidArguments
      else if \<not> optional (jget a ''except'') isNonEmptyString then Reject InvalidArguments
      else
        let captured = filter (\<lambda>i. JStr i \<noteq> jget a ''except'') (visibleTabIds s);
            dirty = filter (is_dirty_draft s) captured
        in if captured = [] then no_op_commit s
           else if dirty \<noteq> [] then
             Choice \<lparr>c_reason = UnsavedChanges, c_choices = [Discard, Keep], c_targetKind = None,
               c_tabIds = Some dirty, c_closeTabIds = Some captured,
               c_draftRevisions = Some (draft_revisions s h dirty)\<rparr>
           else (let r = removeTabs s captured h in
             Commit (fst r) \<lparr>cr_tabId = None, cr_outcome = None, cr_status = Applied\<rparr> True (snd r)))"

definition move_tab :: "wstate \<Rightarrow> envelope \<Rightarrow> plan" where
  "move_tab s env =
     (if \<not> isRecord (args env) \<or> \<not> isNonEmptyString (arg env ''tabId'') then Reject InvalidArguments
      else if \<not> optional (arg env ''beforeTabId'') isNonEmptyString then Reject InvalidArguments
      else
        let tid = str_of (arg env ''tabId''); target = arg env ''beforeTabId'' in
        if tab_at s tid = None then Reject InvalidArguments
        else if target \<noteq> JUndef \<and> tab_at s (str_of target) = None then Reject InvalidArguments
        else if target = JStr tid
          then Commit (same_ref s) \<lparr>cr_tabId = Some tid, cr_outcome = None, cr_status = NoOp\<rparr> True []
        else
          let rest = filter (\<lambda>i. i \<noteq> tid) (orderedTabIds s);
              order = (if target = JUndef then rest @ [tid] else insert_before (str_of target) tid rest)
          in commit_tab (if every_same order (orderedTabIds s) then same_ref s
                         else new_ref (s\<lparr>orderedTabIds := order\<rparr>)) tid None [])"

definition merged_ui :: "jsobj \<Rightarrow> jsobj \<Rightarrow> jsobj" where
  "merged_ui ui patch =
     spread (spread ui patch)
       (case oget patch ''chat'' of
          JObj chat \<Rightarrow> [(''chat'', JObj (spread (obj_of (oget ui ''chat'')) chat))]
        | _ \<Rightarrow> [])"

definition ui_changed :: "jsobj \<Rightarrow> jsobj \<Rightarrow> bool" where
  "ui_changed new old \<longleftrightarrow> (\<exists>k \<in> set (okeys new). \<not> same_json (oget new k) (oget old k))"

definition setUi :: "wstate \<Rightarrow> envelope \<Rightarrow> plan" where
  "setUi s env =
     (if \<not> isRecord (args env) \<or> \<not> isNonEmptyString (arg env ''tabId'') \<or> \<not> isUiPatch (arg env ''patch'')
      then Reject InvalidArguments
      else (case tab_at s (str_of (arg env ''tabId'')) of
          Some (EntityTab e) \<Rightarrow>
            let patch = obj_of (arg env ''patch''); ui = merged_ui (et_ui e) patch in
            if \<not> ui_changed ui (et_ui e) then commit_tab (same_ref s) (et_id e) None []
            else Commit (new_ref (put_tab (et_id e) (EntityTab (e\<lparr>et_ui := ui\<rparr>)) s))
                   \<lparr>cr_tabId = Some (et_id e), cr_outcome = None, cr_status = Applied\<rparr>
                   (\<not> (\<forall>k \<in> set (okeys patch). k = ''scrollTop'')) []
        | _ \<Rightarrow> Reject InvalidArguments))"

end
