(* ===== verification/WsCommands.thy ===== *)
theory WsCommands
  imports WsTabs
begin

text \<open>
  The remaining command families: \<open>scope.ts\<close>, \<open>panels.ts\<close>, \<open>files.ts\<close>, \<open>browser.ts\<close>,
  \<open>layout.ts\<close>, \<open>rail.ts\<close>, \<open>drafts.ts\<close>, \<open>external.ts\<close> and \<open>interactions.ts\<close>.
\<close>

subsection \<open>\<open>workspace.tabScope.set\<close>\<close>

definition scope_ids :: "tab_scope \<Rightarrow> string list" where
  "scope_ids sc = (case sc of Mixed ids \<Rightarrow> ids | ByType ids \<Rightarrow> ids)"

definition sameScope :: "tab_scope \<Rightarrow> tab_scope \<Rightarrow> bool" where
  "sameScope a b \<longleftrightarrow>
     (case (a, b) of (Mixed _, Mixed _) \<Rightarrow> True | (ByType _, ByType _) \<Rightarrow> True | _ \<Rightarrow> False)
     \<and> join_with '','' (scope_ids a) = join_with '','' (scope_ids b)"

definition normalizeKinds :: "string list \<Rightarrow> string list" where
  "normalizeKinds ids = sort (uniq ids)"

datatype scope_request = ReqMixed | ReqByType "string list option"

text \<open>The scope a request asks for, or why it is refused.\<close>

definition requested_scope :: "tab_scope \<Rightarrow> scope_request \<Rightarrow> reason + tab_scope" where
  "requested_scope sc req = (case req of
      ReqMixed \<Rightarrow> Inr (Mixed (scope_ids sc))
    | ReqByType sel \<Rightarrow>
        let ids = (case sel of
              None \<Rightarrow> (case sc of Mixed lastIds \<Rightarrow> lastIds | ByType _ \<Rightarrow> [])
            | Some ids \<Rightarrow> if ids = [] then (case sc of Mixed lastIds \<Rightarrow> lastIds | ByType _ \<Rightarrow> []) else ids)
        in if ids = [] then Inl InvalidArguments
           else if \<not> list_all isKindName ids then Inl UnsupportedKind
           else Inr (ByType (normalizeKinds ids)))"

definition scope_next :: "wstate \<Rightarrow> tab_scope \<Rightarrow> hooks \<Rightarrow> wstate refd" where
  "scope_next s sc h =
     (let base = s\<lparr>scopeRepair := None\<rparr> in
      if sameScope sc (scope s) then (if scopeRepair s = None then same_ref s else new_ref base)
      else (True, snd (resolveAfterScopeChange (base\<lparr>scope := sc\<rparr>) h)))"

definition applyScope :: "wstate \<Rightarrow> scope_request \<Rightarrow> hooks \<Rightarrow> plan" where
  "applyScope s req h = (case requested_scope (scope s) req of
      Inl r \<Rightarrow> Reject r
    | Inr sc \<Rightarrow> plain_commit (scope_next s sc h))"

definition setScope :: "wstate \<Rightarrow> envelope \<Rightarrow> hooks \<Rightarrow> plan" where
  "setScope s env h =
     (if \<not> isRecord (args env) then Reject InvalidArguments
      else if arg env ''mode'' = JStr ''mixed'' then applyScope s ReqMixed h
      else if arg env ''mode'' \<noteq> JStr ''byType'' then Reject InvalidArguments
      else (case arg env ''selectedTypeIds'' of
          JUndef \<Rightarrow> applyScope s (ReqByType None) h
        | JArr ids \<Rightarrow>
            if list_all isString ids then applyScope s (ReqByType (Some (map str_of ids))) h
            else Reject InvalidArguments
        | _ \<Rightarrow> Reject InvalidArguments))"

subsection \<open>\<open>workspace.chooser.open\<close> and \<open>workspace.files.open\<close>\<close>

definition existing_chooser :: "wstate \<Rightarrow> chooser_tab option" where
  "existing_chooser s = head_opt (List.map_filter
     (\<lambda>i. case tab_at s i of Some (ChooserTab c) \<Rightarrow> Some c | _ \<Rightarrow> None) (orderedTabIds s))"

definition openChooser :: "wstate \<Rightarrow> hooks \<Rightarrow> nat \<Rightarrow> plan \<times> nat" where
  "openChooser s h n = (case existing_chooser s of
      Some c \<Rightarrow>
        let order = afterActive s (ct_id c);
            n1 = (if every_same order (orderedTabIds s) then same_ref s else new_ref (s\<lparr>orderedTabIds := order\<rparr>))
        in (commit_tab (and_then n1 (\<lambda>s. activate s (ct_id c) h)) (ct_id c) (Some Reused) [], n)
    | None \<Rightarrow>
        let tid = newId h n;
            s1 = (put_tab tid (ChooserTab \<lparr>ct_id = tid, ct_query = []\<rparr>) s)\<lparr>orderedTabIds := afterActive s tid\<rparr>
        in (commit_tab (and_then (new_ref s1) (\<lambda>s. activate s tid h)) tid (Some Created) [], Suc n))"

definition openFile :: "wstate \<Rightarrow> envelope \<Rightarrow> hooks \<Rightarrow> nat \<Rightarrow> plan \<times> nat" where
  "openFile s env h n =
     (if \<not> isRecord (args env) \<or> \<not> isFileTabProjectId (arg env ''projectId'') \<or> \<not> isFileTabPath (arg env ''path'')
      then (Reject InvalidArguments, n)
      else if \<not> optional (arg env ''preview'') isBool then (Reject InvalidArguments, n)
      else if \<not> optional (arg env ''activate'') isBool then (Reject InvalidArguments, n)
      else
        let projectId = str_of (arg env ''projectId''); path = str_of (arg env ''path'');
            preview = (arg env ''preview'' = JBool True);
            shouldActivate = (arg env ''activate'' \<noteq> JBool False)
        in (case findFileTab s projectId path of
            Some f \<Rightarrow>
              let n1 = (if \<not> preview \<and> ft_preview f
                        then new_ref (put_tab (ft_id f) (FileTab (f\<lparr>ft_preview := False\<rparr>)) s) else same_ref s);
                  n2 = (if shouldActivate then and_then n1 (\<lambda>s. activate s (ft_id f) h) else n1)
              in (Commit n2 \<lparr>cr_tabId = Some (ft_id f), cr_outcome = Some Focused,
                    cr_status = (if fst n2 then Applied else NoOp)\<rparr> True [], n)
          | None \<Rightarrow>
              let replaced = (if preview then findPreviewFileTab s else None);
                  tid = (case replaced of Some f \<Rightarrow> ft_id f | None \<Rightarrow> newId h n);
                  s1 = (put_tab tid (FileTab \<lparr>ft_id = tid, ft_projectId = projectId, ft_path = path, ft_preview = preview\<rparr>) s)
                         \<lparr>orderedTabIds := afterActive s tid,
                          recency := (if shouldActivate \<or> replaced \<noteq> None then recency s else recency s @ [tid])\<rparr>;
                  n2 = (if shouldActivate then and_then (new_ref s1) (\<lambda>s. activate s tid h) else new_ref s1)
              in (commit_tab n2 tid (Some (if replaced = None then Created else Reused)) [],
                  if replaced = None then Suc n else n)))"

subsection \<open>\<open>workspace.browser.set\<close>, \<open>layout.set\<close>, \<open>rail.set\<close>\<close>

definition EMPTY_BROWSER_KIND_STATE :: browser_kind_state where
  "EMPTY_BROWSER_KIND_STATE = \<lparr>bk_query = [], bk_filters = JNull, bk_scrollTop = JFin 0\<rparr>"

fun num_of :: "jsval \<Rightarrow> jnum" where
  "num_of (JNum x) = x"
| "num_of _ = JNaN"

definition has_key :: "jsval \<Rightarrow> string \<Rightarrow> bool" where
  "has_key v k = (k \<in> set (okeys (obj_of v)))"

definition setBrowser :: "wstate \<Rightarrow> envelope \<Rightarrow> plan" where
  "setBrowser s env =
     (if \<not> isRecord (args env) \<or> arg env ''browserId'' \<noteq> JStr ''main'' then Reject InvalidArguments
      else if arg env ''kind'' \<noteq> JUndef \<and> \<not> isWorkspaceKind (arg env ''kind'')
        then Reject (if isString (arg env ''kind'') then UnsupportedKind else InvalidArguments)
      else if \<not> optional (arg env ''query'') isString then Reject InvalidArguments
      else if \<not> optional (arg env ''scrollTop'') isFiniteNumber then Reject InvalidArguments
      else
        let prev = browserMain s;
            kind = (if arg env ''kind'' = JUndef then bs_kind prev else str_of (arg env ''kind''));
            current = (case map_of (bs_perKind prev) kind of None \<Rightarrow> EMPTY_BROWSER_KIND_STATE | Some c \<Rightarrow> c);
            nk = \<lparr>bk_query = (if arg env ''query'' = JUndef then bk_query current else str_of (arg env ''query'')),
                  bk_filters = (if has_key (args env) ''filters'' then arg env ''filters'' else bk_filters current),
                  bk_scrollTop = (if arg env ''scrollTop'' = JUndef then bk_scrollTop current else num_of (arg env ''scrollTop''))\<rparr>;
            kindChanged = (kind \<noteq> bs_kind prev);
            filtersChanged = (if has_key (args env) ''filters'' then \<not> strict_eq_fresh (arg env ''filters'') (bk_filters current)
                              else bk_filters current = JNum JNaN);
            stateChanged = (map_of (bs_perKind prev) kind = None \<or> bk_query nk \<noteq> bk_query current
                            \<or> filtersChanged \<or> bk_scrollTop nk \<noteq> bk_scrollTop current)
        in if \<not> kindChanged \<and> \<not> stateChanged then plain_commit (same_ref s)
           else Commit (new_ref (s\<lparr>browserMain := \<lparr>bs_kind = kind, bs_perKind = AList.update kind nk (bs_perKind prev)\<rparr>\<rparr>))
                  \<lparr>cr_tabId = None, cr_outcome = None, cr_status = Applied\<rparr>
                  (\<not> (\<not> kindChanged \<and> bk_query nk = bk_query current \<and> \<not> filtersChanged)) [])"

definition setLayout :: "wstate \<Rightarrow> envelope \<Rightarrow> plan" where
  "setLayout s env =
     (if \<not> isRecord (args env) then Reject InvalidArguments
      else if \<not> optional (arg env ''expanded'') isBool then Reject InvalidArguments
      else if \<not> optional (arg env ''browserWidth'') isFiniteNumber then Reject InvalidArguments
      else if \<not> optional (arg env ''chatWidth'') isFiniteNumber then Reject InvalidArguments
      else
        let prev = layout s;
            nl = \<lparr>l_expanded = (if arg env ''expanded'' = JUndef then l_expanded prev else arg env ''expanded'' = JBool True),
                  l_browserWidth = (if arg env ''browserWidth'' = JUndef then l_browserWidth prev
                    else clamp_round (b_min BROWSER_BOUNDS) (b_max BROWSER_BOUNDS) (rat_of (arg env ''browserWidth''))),
                  l_chatWidth = (if arg env ''chatWidth'' = JUndef then l_chatWidth prev
                    else clamp_round (b_min CHAT_BOUNDS) (b_max CHAT_BOUNDS) (rat_of (arg env ''chatWidth'')))\<rparr>
        in plain_commit (if nl = prev then same_ref s else new_ref (s\<lparr>layout := nl\<rparr>)))"

definition MAX_PINS :: nat where "MAX_PINS = 32"
definition MAX_SECTIONS :: nat where "MAX_SECTIONS = 64"

definition DEFAULT_RAIL :: rail_prefs where
  "DEFAULT_RAIL = \<lparr>r_pins = [''chat'', ''task'', ''work_session''], r_open = [], r_expanded = False, r_lifted = None\<rparr>"

definition kindList :: "jsval \<Rightarrow> bool" where
  "kindList v = (case v of
      JArr xs \<Rightarrow> length xs \<le> MAX_PINS \<and>
        (\<forall>p \<in> set xs. case p of JStr s \<Rightarrow> s \<noteq> [] \<and> length s \<le> 64 | _ \<Rightarrow> False)
    | _ \<Rightarrow> False)"

definition openSections :: "jsval \<Rightarrow> bool" where
  "openSections v = (case v of
      JObj ob \<Rightarrow> length (okeys ob) \<le> MAX_SECTIONS \<and> (\<forall>(k, b) \<in> set ob. isBool b)
    | _ \<Rightarrow> False)"

fun merge_open :: "(string \<times> bool) list \<Rightarrow> jsobj \<Rightarrow> (string \<times> bool) list" where
  "merge_open al [] = al"
| "merge_open al ((k, v) # kvs) = merge_open (AList.update k (v = JBool True) al) kvs"

definition setRail :: "wstate \<Rightarrow> envelope \<Rightarrow> plan" where
  "setRail s env =
     (if \<not> isRecord (args env) then Reject InvalidArguments
      else if \<not> optional (arg env ''pins'') kindList then Reject InvalidArguments
      else if \<not> optional (arg env ''lifted'') kindList then Reject InvalidArguments
      else if \<not> optional (arg env ''open'') openSections then Reject InvalidArguments
      else if \<not> optional (arg env ''expanded'') isBool then Reject InvalidArguments
      else
        let prev = (case rail s of None \<Rightarrow> DEFAULT_RAIL | Some r \<Rightarrow> r);
            pins = (if arg env ''pins'' = JUndef then r_pins prev else uniq (map str_of (arr_of (arg env ''pins''))));
            opn = (if arg env ''open'' = JUndef then r_open prev else merge_open (r_open prev) (obj_of (arg env ''open'')));
            expanded = (if arg env ''expanded'' = JUndef then r_expanded prev else arg env ''expanded'' = JBool True);
            lifted = (if arg env ''lifted'' = JUndef then r_lifted prev
                      else Some (uniq (map str_of (arr_of (arg env ''lifted'')))));
            nul = [CHR 0x00];
            same = (rail s \<noteq> None \<and> expanded = r_expanded prev
                    \<and> join_with nul pins = join_with nul (r_pins prev)
                    \<and> join_with nul (case lifted of None \<Rightarrow> [] | Some l \<Rightarrow> l)
                      = join_with nul (case r_lifted prev of None \<Rightarrow> [] | Some l \<Rightarrow> l)
                    \<and> opn = r_open prev)
        in plain_commit (if same then same_ref s
             else new_ref (s\<lparr>rail := Some \<lparr>r_pins = pins, r_open = opn, r_expanded = expanded, r_lifted = lifted\<rparr>\<rparr>)))"

subsection \<open>\<open>workspace.drafts.*\<close>\<close>

definition drafts_of_kind :: "wstate \<Rightarrow> string \<Rightarrow> draft_tab list" where
  "drafts_of_kind s kind = List.map_filter
     (\<lambda>i. case tab_at s i of Some (DraftTab d) \<Rightarrow> if dt_kind d = kind then Some d else None | _ \<Rightarrow> None)
     (orderedTabIds s)"

definition openDraft :: "wstate \<Rightarrow> envelope \<Rightarrow> hooks \<Rightarrow> nat \<Rightarrow> plan \<times> nat" where
  "openDraft s env h n =
     (if \<not> isRecord (args env) \<or> \<not> isNonEmptyString (arg env ''kind'') then (Reject InvalidArguments, n)
      else if \<not> optional (arg env ''replaceTabId'') isNonEmptyString then (Reject InvalidArguments, n)
      else if \<not> isWorkspaceKind (arg env ''kind'') \<or> \<not> canCreate h (str_of (arg env ''kind''))
        then (Reject UnsupportedKind, n)
      else
        let kind = str_of (arg env ''kind'') in
        if \<not> kindInScope (scope s) kind then (scope_choice kind, n)
        else
          let drafts = drafts_of_kind s kind in
          (case head_opt (filter (\<lambda>d. \<not> dt_dirty d \<and> \<not> dt_submitting d) drafts) of
             Some d \<Rightarrow>
               let order = afterActive s (dt_id d);
                   n1 = (if every_same order (orderedTabIds s) then same_ref s else new_ref (s\<lparr>orderedTabIds := order\<rparr>));
                   n2 = and_then n1 (\<lambda>s. activate s (dt_id d) h)
               in (commit_tab (and_then n2 (\<lambda>s. replaceChooser s (arg env ''replaceTabId'') (dt_id d) True h))
                     (dt_id d) (Some Reused) [FocusDraft (dt_id d)], n)
           | None \<Rightarrow>
               let tid = newId h n;
                   rec = DraftTab \<lparr>dt_id = tid, dt_kind = kind, dt_draftId = newId h (Suc n), dt_dirty = False,
                           dt_submitting = False, dt_ordinal = foldl (\<lambda>m d. max m (dt_ordinal d)) 0 drafts + 1\<rparr>;
                   s1 = (put_tab tid rec s)\<lparr>orderedTabIds := afterActive s tid\<rparr>;
                   n2 = and_then (new_ref s1) (\<lambda>s. activate s tid h)
               in (commit_tab (and_then n2 (\<lambda>s. replaceChooser s (arg env ''replaceTabId'') tid True h))
                     tid (Some Created) [], Suc (Suc n))))"

definition markDirty :: "wstate \<Rightarrow> envelope \<Rightarrow> plan" where
  "markDirty s env =
     (if \<not> isRecord (args env) \<or> \<not> isNonEmptyString (arg env ''tabId'') then Reject InvalidArguments
      else if \<not> optional (arg env ''dirty'') isBool then Reject InvalidArguments
      else if \<not> optional (arg env ''submitting'') isBool then Reject InvalidArguments
      else (case tab_at s (str_of (arg env ''tabId'')) of
          Some (DraftTab d) \<Rightarrow>
            let dirty = (if arg env ''dirty'' = JUndef then dt_dirty d else arg env ''dirty'' = JBool True);
                submitting = (if arg env ''submitting'' = JUndef then dt_submitting d else arg env ''submitting'' = JBool True)
            in if dirty = dt_dirty d \<and> submitting = dt_submitting d then commit_tab (same_ref s) (dt_id d) None []
               else commit_tab (new_ref (put_tab (dt_id d) (DraftTab (d\<lparr>dt_dirty := dirty, dt_submitting := submitting\<rparr>)) s))
                      (dt_id d) None []
        | _ \<Rightarrow> Reject InvalidArguments))"

text \<open>The state after a draft turned into an entity tab, and after a duplicate of it was dropped.\<close>

definition bound_record :: "draft_tab \<Rightarrow> string \<Rightarrow> entity_tab option \<Rightarrow> tab" where
  "bound_record d entityId duplicate =
     EntityTab \<lparr>et_id = dt_id d, et_kind = dt_kind d, et_entityId = entityId,
       et_ui = (case duplicate of Some e \<Rightarrow> et_ui e | None \<Rightarrow> [(''subview'', JStr ''entity'')])\<rparr>"

definition bind_state :: "wstate \<Rightarrow> draft_tab \<Rightarrow> string \<Rightarrow> wstate" where
  "bind_state s d entityId =
     (let duplicate = findEntityTab s (dt_kind d) entityId;
          s1 = put_tab (dt_id d) (bound_record d entityId duplicate) s
      in (case duplicate of
            None \<Rightarrow> s1
          | Some e \<Rightarrow>
              let dup = et_id e in
              s1\<lparr>tabs := AList.delete dup (tabs s1),
                 orderedTabIds := filter (\<lambda>i. i \<noteq> dup) (orderedTabIds s),
                 recency := uniq (map (\<lambda>i. if i = dup then dt_id d else i) (recency s)),
                 rememberedActive := map (\<lambda>(key, i). (key, if i = dup then dt_id d else i)) (rememberedActive s),
                 presentation := (if presentation s = ShowTab dup then ShowTab (dt_id d) else presentation s)\<rparr>))"

definition bind_draft :: "wstate \<Rightarrow> envelope \<Rightarrow> hooks \<Rightarrow> plan" where
  "bind_draft s env h =
     (if \<not> isRecord (args env) \<or> \<not> isNonEmptyString (arg env ''tabId'') \<or> \<not> isNonEmptyString (arg env ''entityId'')
      then Reject InvalidArguments
      else if \<not> optional (arg env ''kind'') isNonEmptyString then Reject InvalidArguments
      else if \<not> optional (arg env ''title'') isString then Reject InvalidArguments
      else
        let entityId = str_of (arg env ''entityId'') in
        (case tab_at s (str_of (arg env ''tabId'')) of
           None \<Rightarrow>
             let title = (if str_of (arg env ''title'') = [] then ''entity'' else str_of (arg env ''title''));
                 action = (if isWorkspaceKind (arg env ''kind'') then Some (str_of (arg env ''kind''), entityId) else None)
             in Commit (same_ref s) \<lparr>cr_tabId = None, cr_outcome = None, cr_status = Applied\<rparr> True
                  [Toast (''Created '' @ title) action]
         | Some (DraftTab d) \<Rightarrow>
             commit_tab (new_ref (bind_state s d entityId)) (dt_id d) None [DeleteDraft (dt_draftId d)]
         | Some t \<Rightarrow> commit_tab (same_ref s) (tab_id t) None []))"

subsection \<open>\<open>workspace.dialogs.*\<close> and \<open>workspace.view.set\<close>\<close>

definition dialogIdOf :: "jsval \<Rightarrow> string option" where
  "dialogIdOf a =
     (if \<not> isRecord a \<or> (\<exists>k \<in> set (okeys (obj_of a)). k \<noteq> ''dialogId'') then None
      else (case jget a ''dialogId'' of JStr i \<Rightarrow> if i \<in> set DIALOG_IDS then Some i else None | _ \<Rightarrow> None))"

definition openDialog :: "wstate \<Rightarrow> envelope \<Rightarrow> hooks \<Rightarrow> plan" where
  "openDialog s env h =
     (if \<not> isRecord (args env) \<or> \<not> isString (arg env ''dialogId'') then Reject InvalidArguments
      else (case dialogIdOf (args env) of
          None \<Rightarrow> Reject UnsupportedDialog
        | Some i \<Rightarrow> if pending s \<noteq> None then Reject Busy
                    else External (openDialogHook h i)))"

definition closeDialog :: "envelope \<Rightarrow> hooks \<Rightarrow> plan" where
  "closeDialog env h =
     (if \<not> isRecord (args env) \<or> \<not> isString (arg env ''dialogId'') then Reject InvalidArguments
      else (case dialogIdOf (args env) of
          None \<Rightarrow> Reject UnsupportedDialog
        | Some i \<Rightarrow> External (closeDialogHook h i)))"

definition setView :: "envelope \<Rightarrow> hooks \<Rightarrow> plan" where
  "setView env h =
     (if \<not> isRecord (args env) \<or> (\<exists>k \<in> set (okeys (obj_of (args env))). k \<noteq> ''view'') then Reject InvalidArguments
      else if arg env ''view'' \<noteq> JStr ''tabs'' then Reject ViewUnavailable
      else External (showWorkspaceHook h))"

subsection \<open>\<open>workspace.interactions.resolve\<close>\<close>

definition choice_of :: "jsval \<Rightarrow> interaction_choice option" where
  "choice_of v =
     (if v = JStr ''addType'' then Some AddType else if v = JStr ''useMixed'' then Some UseMixed
      else if v = JStr ''cancel'' then Some Cancel else if v = JStr ''discard'' then Some Discard
      else if v = JStr ''keep'' then Some Keep else None)"

text \<open>The drafts whose values changed after the prompt went up.\<close>

definition changed_drafts :: "wstate \<Rightarrow> pending_interaction \<Rightarrow> hooks \<Rightarrow> string list" where
  "changed_drafts s p h = List.map_filter
     (\<lambda>(i, r). case tab_at s i of
         Some (DraftTab d) \<Rightarrow> if draftRevision h (dt_draftId d) \<noteq> r then Some i else None
       | _ \<Rightarrow> None)
     (case p_draftRevisions p of None \<Rightarrow> [] | Some rs \<Rightarrow> rs)"

definition resolve :: "wstate \<Rightarrow> envelope \<Rightarrow> hooks \<Rightarrow> plan" where
  "resolve s env h =
     (if \<not> isRecord (args env) \<or> \<not> isNonEmptyString (arg env ''interactionId'') then Reject InvalidArguments
      else (case choice_of (arg env ''choice'') of
          None \<Rightarrow> Reject InvalidArguments
        | Some choice \<Rightarrow>
            (case pending s of
               None \<Rightarrow> Reject InvalidArguments
             | Some p \<Rightarrow>
                 if JStr (p_id p) \<noteq> arg env ''interactionId'' \<or> choice \<notin> set (p_choices p)
                 then Reject InvalidArguments
                 else
                   let cleared = s\<lparr>pending := None\<rparr> in
                   if choice = Cancel \<or> choice = Keep then plain_commit (new_ref cleared)
                   else if choice = Discard then
                     (let ids = filter (\<lambda>i. i \<notin> set (changed_drafts s p h))
                            (case p_closeTabIds p of Some ids \<Rightarrow> ids
                              | None \<Rightarrow> (case p_tabIds p of Some ids \<Rightarrow> ids | None \<Rightarrow> []));
                          r = removeTabs cleared ids h
                      in Commit (True, snd (fst r)) \<lparr>cr_tabId = None, cr_outcome = None, cr_status = Applied\<rparr> True (snd r))
                   else
                     (let req = (if choice = UseMixed then ReqMixed
                                 else (case scope s of
                                     Mixed _ \<Rightarrow> ReqMixed
                                   | ByType ids \<Rightarrow> ReqByType (Some (ids @
                                       (case p_targetKind p of Some k \<Rightarrow> if k = [] then [] else [k] | None \<Rightarrow> [])))))
                      in (case applyScope cleared req h of
                            Commit nx _ _ _ \<Rightarrow> Replay (snd nx) ((p_command p)\<lparr>expectedRevision := None\<rparr>) []
                          | other \<Rightarrow> other)))))"

end
