(* ===== verification/WsReduce.thy ===== *)
theory WsReduce
  imports WsCommands
begin

text \<open>
  The reducer (\<open>workspace/reduce.ts\<close>): validate the source, apply the remote policy, check the
  expected revision, plan, then commit or store a pending interaction. It is total; a resolved
  interaction replays its command through the same function, and the recursion ends because only
  a state with a pending interaction can replay and the replay starts from one without.
\<close>

definition PLANNERS :: "command_name \<Rightarrow> wstate \<Rightarrow> envelope \<Rightarrow> hooks \<Rightarrow> nat \<Rightarrow> plan \<times> nat" where
  "PLANNERS c s env h n = (case c of
      CInspect \<Rightarrow> (PInspect, n)
    | CBrowserSet \<Rightarrow> (setBrowser s env, n)
    | CTabScopeSet \<Rightarrow> (setScope s env h, n)
    | CTabsOpen \<Rightarrow> open_tab s env h n
    | CTabsActivate \<Rightarrow> (activateTab s env h, n)
    | CTabsClose \<Rightarrow> (close_tab s env h, n)
    | CTabsCloseVisible \<Rightarrow> (closeVisible s env h, n)
    | CTabsMove \<Rightarrow> (move_tab s env, n)
    | CTabsSetUi \<Rightarrow> (setUi s env, n)
    | CDraftsOpen \<Rightarrow> openDraft s env h n
    | CDraftsMarkDirty \<Rightarrow> (markDirty s env, n)
    | CDraftsBind \<Rightarrow> (bind_draft s env h, n)
    | CChooserOpen \<Rightarrow> openChooser s h n
    | CLayoutSet \<Rightarrow> (setLayout s env, n)
    | CInteractionsResolve \<Rightarrow> (resolve s env h, n)
    | CDialogsOpen \<Rightarrow> (openDialog s env h, n)
    | CDialogsClose \<Rightarrow> (closeDialog env h, n)
    | CViewSet \<Rightarrow> (setView env h, n)
    | CRailSet \<Rightarrow> (setRail s env, n)
    | CFilesOpen \<Rightarrow> openFile s env h n
    | OtherCommand _ \<Rightarrow> (Reject InvalidArguments, n))"

definition REMOTE_FORBIDDEN :: "command_name list" where
  "REMOTE_FORBIDDEN = [CInteractionsResolve, CDraftsBind, CDraftsMarkDirty, CRailSet]"

definition REMOTE_NEEDS_VIEW :: "command_name list" where
  "REMOTE_NEEDS_VIEW =
     filter (\<lambda>c. c \<notin> set [CInspect, CDialogsOpen, CDialogsClose, CViewSet]) COMMAND_NAMES"

definition WINDOW_ONLY_COMMANDS :: "command_name list" where
  "WINDOW_ONLY_COMMANDS =
     [CDialogsOpen, CDialogsClose, CViewSet, CTabsActivate, CChooserOpen, CInteractionsResolve]"

definition takesFocus :: "envelope \<Rightarrow> bool" where
  "takesFocus env = (case command env of
      CTabsOpen \<Rightarrow> arg env ''activate'' \<noteq> JBool False
    | CFilesOpen \<Rightarrow> arg env ''activate'' \<noteq> JBool False
    | CTabsActivate \<Rightarrow> True
    | CChooserOpen \<Rightarrow> True
    | CDraftsOpen \<Rightarrow> True
    | CDialogsOpen \<Rightarrow> True
    | CViewSet \<Rightarrow> True
    | _ \<Rightarrow> False)"

record ws_commit =
  wc_env :: envelope
  wc_prev :: wstate
  wc_next :: wstate
  wc_significant :: bool
  wc_result :: result
  wc_after :: "effect list"

record reduction =
  rd_state :: wstate
  rd_result :: result
  rd_commits :: "ws_commit list"

definition rejected :: "wstate \<Rightarrow> reason \<Rightarrow> reduction" where
  "rejected s r =
     \<lparr>rd_state = s, rd_result = (plain_result Rejected (revision s))\<lparr>res_reason := Some r\<rparr>, rd_commits = []\<rparr>"

text \<open>The inner \<open>commit\<close>: the revision moves when the state changed and the commit is significant.\<close>

definition commit_state :: "wstate \<Rightarrow> wstate refd \<Rightarrow> bool \<Rightarrow> wstate" where
  "commit_state prev nx significant =
     (if fst nx then (snd nx)\<lparr>revision := revision prev + (if significant then 1 else 0)\<rparr> else prev)"

definition commit :: "envelope \<Rightarrow> wstate \<Rightarrow> wstate refd \<Rightarrow> bool \<Rightarrow> result \<Rightarrow> effect list \<Rightarrow> reduction" where
  "commit env prev nx significant res after =
     (let final = commit_state prev nx significant;
          out = res\<lparr>res_status := (if res_status res = Applied \<and> \<not> fst nx then NoOp else res_status res),
                    res_revision := revision final\<rparr>
      in \<lparr>rd_state = final, rd_result = out,
          rd_commits = (if fst nx \<or> after \<noteq> [] then
            [\<lparr>wc_env = env, wc_prev = prev, wc_next = final, wc_significant = (fst nx \<and> significant),
              wc_result = out, wc_after = after\<rparr>] else [])\<rparr>)"

definition pending_of :: "choice_request \<Rightarrow> string \<Rightarrow> envelope \<Rightarrow> wstate \<Rightarrow> pending_interaction" where
  "pending_of c pid env s =
     \<lparr>p_id = pid, p_reason = c_reason c, p_command = env, p_choices = c_choices c,
      p_targetKind = c_targetKind c, p_tabIds = c_tabIds c, p_revisionAtRequest = revision s,
      p_closeTabIds = c_closeTabIds c, p_draftRevisions = c_draftRevisions c\<rparr>"

text \<open>Steps 0 to 2: why a command is refused before it plans.\<close>

definition refusal :: "wstate \<Rightarrow> envelope \<Rightarrow> hooks \<Rightarrow> bool \<Rightarrow> reason option" where
  "refusal s env h replay =
     (if source env \<notin> set ACCEPTED_SOURCES then Some PermissionDenied
      else if command env \<notin> set COMMAND_NAMES then Some InvalidArguments
      else if source env = Remote \<and> \<not> replay \<and> command env \<in> set REMOTE_FORBIDDEN then Some PermissionDenied
      else if source env = Remote \<and> \<not> replay \<and> command env \<in> set REMOTE_NEEDS_VIEW \<and> \<not> viewMounted h
        then Some ViewUnavailable
      else if source env = Remote \<and> \<not> replay \<and> takesFocus env \<and> userTyping h then Some UserTyping
      else if command env = CDraftsBind \<and> source env \<noteq> System then Some PermissionDenied
      else if command env = CInteractionsResolve \<and> source env \<notin> set UI_SOURCES then Some PermissionDenied
      else None)"

definition revision_conflict :: "wstate \<Rightarrow> envelope \<Rightarrow> bool" where
  "revision_conflict s env = (case expectedRevision env of
      None \<Rightarrow> False
    | Some r \<Rightarrow> r \<noteq> JFin (of_nat (revision s)))"

subsection \<open>Only a resolved interaction replays\<close>

lemma captureOutgoing_snd [simp]:
  "pending (snd (activate s i h)) = pending s"
  "pending (snd (showStart s h)) = pending s"
  by (simp_all add: activate_def showStart_def)

lemma resolveAfterScopeChange_pending [simp]: "pending (snd (resolveAfterScopeChange s h)) = pending s"
  by (simp add: resolveAfterScopeChange_def activate_pick_def split: presentation.splits option.splits)

lemma scope_next_pending [simp]: "pending (snd (scope_next s sc h)) = pending s"
  by (simp add: scope_next_def Let_def)

lemma applyScope_not_replay [simp]: "applyScope s req h \<noteq> Replay nx env' after"
  by (simp add: applyScope_def plain_commit_def split: sum.splits)

lemma applyScope_pending:
  "applyScope s req h = Commit nx cr sg after \<Longrightarrow> pending (snd nx) = pending s"
  by (auto simp: applyScope_def plain_commit_def split: sum.splits)

lemma resolve_replay:
  assumes "resolve s env h = Replay nx env' after"
  shows "pending s \<noteq> None \<and> pending nx = None \<and> after = []"
  using assms
  by (auto simp: resolve_def plain_commit_def Let_def dest!: applyScope_pending
      split: if_splits option.splits plan.splits)

lemma plan_constructors [simp]:
  "plain_commit nx \<noteq> Replay a b c" "commit_tab nx i oc af \<noteq> Replay a b c"
  "no_op_commit s \<noteq> Replay a b c" "scope_choice k \<noteq> Replay a b c"
  by (simp_all add: plain_commit_def commit_tab_def no_op_commit_def scope_choice_def)

lemma only_resolve_replays:
  assumes "fst (PLANNERS c s env h n) = Replay nx env' after"
  shows "c = CInteractionsResolve \<and> pending s \<noteq> None \<and> pending nx = None \<and> after = []"
proof (cases c)
  case CInteractionsResolve
  with assms show ?thesis by (auto simp: PLANNERS_def dest: resolve_replay)
next
  case CTabsOpen
  with assms show ?thesis by (auto simp: PLANNERS_def open_tab_def Let_def split: if_splits option.splits)
next
  case CDraftsOpen
  with assms show ?thesis by (auto simp: PLANNERS_def openDraft_def Let_def split: if_splits option.splits)
next
  case CFilesOpen
  with assms show ?thesis by (auto simp: PLANNERS_def openFile_def Let_def split: if_splits option.splits)
next
  case CChooserOpen
  with assms show ?thesis by (auto simp: PLANNERS_def openChooser_def Let_def split: if_splits option.splits)
next
  case CTabScopeSet
  with assms show ?thesis by (auto simp: PLANNERS_def setScope_def split: if_splits jsval.splits)
next
  case CTabsClose
  with assms show ?thesis by (auto simp: PLANNERS_def close_tab_def Let_def split: if_splits option.splits tab.splits)
next
  case CTabsCloseVisible
  with assms show ?thesis by (auto simp: PLANNERS_def closeVisible_def Let_def split: if_splits)
next
  case CTabsSetUi
  with assms show ?thesis by (auto simp: PLANNERS_def setUi_def Let_def split: if_splits option.splits tab.splits)
next
  case CDraftsBind
  with assms show ?thesis by (auto simp: PLANNERS_def bind_draft_def Let_def split: if_splits option.splits tab.splits)
next
  case CDraftsMarkDirty
  with assms show ?thesis by (auto simp: PLANNERS_def markDirty_def Let_def split: if_splits option.splits tab.splits)
next
  case CBrowserSet
  with assms show ?thesis by (auto simp: PLANNERS_def setBrowser_def Let_def split: if_splits)
qed (use assms in \<open>auto simp: PLANNERS_def activateTab_def move_tab_def setLayout_def setRail_def openDialog_def
      closeDialog_def setView_def Let_def split: if_splits option.splits\<close>)

subsection \<open>The reducer\<close>

function reduce :: "wstate \<Rightarrow> envelope \<Rightarrow> hooks \<Rightarrow> bool \<Rightarrow> nat \<Rightarrow> reduction \<times> nat" where
  "reduce s env h replay n =
     (case refusal s env h replay of
        Some r \<Rightarrow> (rejected s r, n)
      | None \<Rightarrow>
          if revision_conflict s env
          then (\<lparr>rd_state = s, rd_result = (plain_result Conflict (revision s))\<lparr>res_reason := Some RevisionConflict\<rparr>,
                 rd_commits = []\<rparr>, n)
          else (case PLANNERS (command env) s env h n of (plan, n') \<Rightarrow>
            (case plan of
               Reject r \<Rightarrow> (rejected s r, n')
             | PInspect \<Rightarrow>
                 (\<lparr>rd_state = s, rd_result = (plain_result NoOp (revision s))\<lparr>res_inspection := Some (inspect s)\<rparr>,
                   rd_commits = []\<rparr>, n')
             | External res \<Rightarrow>
                 (\<lparr>rd_state = s, rd_result = res\<lparr>res_revision := revision s\<rparr>, rd_commits = []\<rparr>, n')
             | Choice c \<Rightarrow>
                 if pending s \<noteq> None then (rejected s Busy, n')
                 else if replay then (rejected s (NeedsChoice (c_reason c)), n')
                 else
                   let p = pending_of c (newId h n') env s in
                   (commit env s (new_ref (s\<lparr>pending := Some p\<rparr>)) True
                      ((plain_result RequiresUserChoice 0)\<lparr>res_reason := Some (NeedsChoice (c_reason c)),
                         res_pendingId := Some (p_id p), res_choices := Some (p_choices p)\<rparr>) [], Suc n')
             | Commit nx cr significant after \<Rightarrow>
                 (commit env s nx significant
                    ((plain_result (cr_status cr) 0)\<lparr>res_tabId := cr_tabId cr, res_outcome := cr_outcome cr\<rparr>) after, n')
             | Replay nx env' after \<Rightarrow>
                 (let first = commit env s (new_ref nx) True (plain_result Applied 0) after;
                      second = reduce (rd_state first) env' h True n'
                  in (\<lparr>rd_state = rd_state (fst second), rd_result = rd_result (fst second),
                       rd_commits = rd_commits first @ rd_commits (fst second)\<rparr>, snd second)))))"
  by pat_completeness auto
termination
proof (relation "measure (\<lambda>(s, env, h, replay, n). if pending s = None then 0 else 1)", goal_cases)
  case (2 s env h replay n plan n' nx env' after first)
  then have "fst (PLANNERS (command env) s env h n) = Replay nx env' after" by (metis fst_conv)
  from only_resolve_replays [OF this] show ?case
    using 2 by (auto simp: commit_def commit_state_def Let_def)
qed simp

declare reduce.simps [simp del]

end
