(* ===== verification/WsInvariant.thy ===== *)
theory WsInvariant
  imports WsReduce
begin

text \<open>
  Well-formed workspace states and the lemmas that the shared helpers keep them: tab records keyed
  by their own id, the order and the records hold the same ids, recency and the remembered tabs
  name open tabs, the scope is normal, widths are in range, no two tabs show the same entity or
  file, at most one chooser and one preview, and the active tab is one the scope shows.
\<close>

datatype tab_key = EntityKey string string | FileKey string string | PreviewKey | ChooserKey

fun unique_keys :: "tab \<Rightarrow> tab_key set" where
  "unique_keys (EntityTab e) = {EntityKey (et_kind e) (et_entityId e)}"
| "unique_keys (DraftTab d) = {}"
| "unique_keys (ChooserTab c) = {ChooserKey}"
| "unique_keys (FileTab f) =
     insert (FileKey (ft_projectId f) (ft_path f)) (if ft_preview f then {PreviewKey} else {})"

fun tab_ok :: "tab \<Rightarrow> bool" where
  "tab_ok (EntityTab e) \<longleftrightarrow> isKindName (et_kind e) \<and> et_entityId e \<noteq> []"
| "tab_ok (DraftTab d) \<longleftrightarrow> isKindName (dt_kind d)"
| "tab_ok (ChooserTab c) \<longleftrightarrow> True"
| "tab_ok (FileTab f) \<longleftrightarrow> isFileTabProjectId (JStr (ft_projectId f)) \<and> isPathString (ft_path f)"

definition scope_ok :: "tab_scope \<Rightarrow> bool" where
  "scope_ok sc \<longleftrightarrow> sorted (scope_ids sc) \<and> distinct (scope_ids sc) \<and> list_all isKindName (scope_ids sc)
     \<and> (case sc of ByType ids \<Rightarrow> ids \<noteq> [] | Mixed _ \<Rightarrow> True)"

definition layout_ok :: "layout_state \<Rightarrow> bool" where
  "layout_ok l \<longleftrightarrow>
     b_min BROWSER_BOUNDS \<le> l_browserWidth l \<and> l_browserWidth l \<le> b_max BROWSER_BOUNDS
     \<and> b_min CHAT_BOUNDS \<le> l_chatWidth l \<and> l_chatWidth l \<le> b_max CHAT_BOUNDS"

definition keys_of :: "wstate \<Rightarrow> string list" where
  "keys_of s = map fst (tabs s)"

definition records_ok :: "wstate \<Rightarrow> bool" where
  "records_ok s \<longleftrightarrow> distinct (keys_of s)
     \<and> (\<forall>(i, t) \<in> set (tabs s). i \<noteq> [] \<and> tab_id t = i \<and> tab_ok t)"

definition order_ok :: "wstate \<Rightarrow> bool" where
  "order_ok s \<longleftrightarrow> distinct (orderedTabIds s) \<and> set (orderedTabIds s) = set (keys_of s)"

definition vals :: "(string \<times> string) list \<Rightarrow> string set" where
  "vals al = snd ` set al"

definition memory_ok :: "wstate \<Rightarrow> bool" where
  "memory_ok s \<longleftrightarrow> distinct (recency s) \<and> set (recency s) \<subseteq> set (keys_of s)
     \<and> vals (rememberedActive s) \<subseteq> set (keys_of s)"

definition no_duplicates :: "wstate \<Rightarrow> bool" where
  "no_duplicates s \<longleftrightarrow>
     (\<forall>(i, t) \<in> set (tabs s). \<forall>(j, u) \<in> set (tabs s). unique_keys t \<inter> unique_keys u \<noteq> {} \<longrightarrow> i = j)"

definition active_ok :: "wstate \<Rightarrow> bool" where
  "active_ok s \<longleftrightarrow> (case presentation s of
      Start \<Rightarrow> True
    | ShowTab i \<Rightarrow> (case tab_at s i of None \<Rightarrow> False | Some t \<Rightarrow> isEligible (scope s) t))"

definition wf_core :: "wstate \<Rightarrow> bool" where
  "wf_core s \<longleftrightarrow> records_ok s \<and> order_ok s \<and> memory_ok s \<and> no_duplicates s
     \<and> scope_ok (scope s) \<and> layout_ok (layout s)"

definition wf_state :: "wstate \<Rightarrow> bool" where
  "wf_state s \<longleftrightarrow> wf_core s \<and> active_ok s"

subsection \<open>Reading well-formedness through \<open>tab_at\<close>\<close>

lemma tab_at_map_of: "tab_at s = map_of (tabs s)"
  by (simp add: fun_eq_iff tab_at_def)

lemma dom_tab_at: "dom (tab_at s) = set (keys_of s)"
  by (simp add: tab_at_map_of keys_of_def dom_map_of_keys)

lemma tab_at_keys: "i \<in> set (keys_of s) \<longleftrightarrow> (\<exists>t. tab_at s i = Some t)"
  by (metis domIff dom_tab_at not_None_eq)

lemma tabs_tab_at: "distinct (keys_of s) \<Longrightarrow> (i, t) \<in> set (tabs s) \<longleftrightarrow> tab_at s i = Some t"
  by (auto simp: keys_of_def tab_at_def)

lemma ball_pairs: "(\<forall>(i, t) \<in> set xs. P i t) \<longleftrightarrow> (\<forall>i t. (i, t) \<in> set xs \<longrightarrow> P i t)"
  by auto

lemma records_ok_alt:
  "records_ok s \<longleftrightarrow> distinct (keys_of s) \<and> (\<forall>i t. tab_at s i = Some t \<longrightarrow> i \<noteq> [] \<and> tab_id t = i \<and> tab_ok t)"
  unfolding records_ok_def ball_pairs by (simp add: tabs_tab_at cong: conj_cong)

lemma no_duplicates_alt:
  "distinct (keys_of s) \<Longrightarrow> no_duplicates s \<longleftrightarrow>
     (\<forall>i j t u x. tab_at s i = Some t \<longrightarrow> tab_at s j = Some u \<longrightarrow> x \<in> unique_keys t \<longrightarrow> x \<in> unique_keys u \<longrightarrow> i = j)"
  unfolding no_duplicates_def ball_pairs by (simp add: tabs_tab_at) blast

text \<open>
  The condition on the tabs alone, over the map and the key list; every field of the state that
  it does not mention is free.
\<close>

definition wf_map :: "(string \<Rightarrow> tab option) \<Rightarrow> bool" where
  "wf_map m \<longleftrightarrow> (\<forall>i t. m i = Some t \<longrightarrow> i \<noteq> [] \<and> tab_id t = i \<and> tab_ok t)
     \<and> (\<forall>i j t u x. m i = Some t \<longrightarrow> m j = Some u \<longrightarrow> x \<in> unique_keys t \<longrightarrow> x \<in> unique_keys u \<longrightarrow> i = j)"

lemma wf_core_alt:
  "wf_core s \<longleftrightarrow> distinct (keys_of s) \<and> wf_map (tab_at s)
     \<and> distinct (orderedTabIds s) \<and> set (orderedTabIds s) = set (keys_of s)
     \<and> distinct (recency s) \<and> set (recency s) \<subseteq> set (keys_of s)
     \<and> vals (rememberedActive s) \<subseteq> set (keys_of s)
     \<and> scope_ok (scope s) \<and> layout_ok (layout s)"
proof (cases "distinct (keys_of s)")
  case True
  show ?thesis
    unfolding wf_core_def records_ok_alt order_ok_def memory_ok_def wf_map_def no_duplicates_alt [OF True]
    by argo
next
  case False
  then show ?thesis by (simp add: wf_core_def records_ok_def)
qed

lemma wf_coreD:
  assumes "wf_core s"
  shows "distinct (keys_of s)" "wf_map (tab_at s)" "distinct (orderedTabIds s)"
    "set (orderedTabIds s) = set (keys_of s)" "distinct (recency s)" "set (recency s) \<subseteq> set (keys_of s)"
    "vals (rememberedActive s) \<subseteq> set (keys_of s)" "scope_ok (scope s)" "layout_ok (layout s)"
  using assms by (simp_all add: wf_core_alt)

lemma wf_mapD:
  "wf_map m \<Longrightarrow> m i = Some t \<Longrightarrow> tab_id t = i"
  "wf_map m \<Longrightarrow> m i = Some t \<Longrightarrow> tab_ok t"
  "wf_map m \<Longrightarrow> m i = Some t \<Longrightarrow> i \<noteq> []"
  by (auto simp: wf_map_def)

lemma wf_map_unique:
  "wf_map m \<Longrightarrow> m i = Some t \<Longrightarrow> m j = Some u \<Longrightarrow> x \<in> unique_keys t \<Longrightarrow> x \<in> unique_keys u \<Longrightarrow> i = j"
  unfolding wf_map_def by blast

lemma wf_order_tab:
  "wf_core s \<Longrightarrow> i \<in> set (orderedTabIds s) \<longleftrightarrow> (\<exists>t. tab_at s i = Some t)"
  by (simp add: wf_coreD(4) tab_at_keys)

subsection \<open>Keys under the updates\<close>

lemma keys_of_cong: "tabs s = tabs s' \<Longrightarrow> keys_of s = keys_of s'"
  by (simp add: keys_of_def)

lemma keys_put_tab: "set (keys_of (put_tab i t s)) = insert i (set (keys_of s))"
  by (simp add: keys_of_def put_tab_def keys_update)

lemma distinct_keys_put_tab: "distinct (keys_of s) \<Longrightarrow> distinct (keys_of (put_tab i t s))"
  by (simp add: keys_of_def put_tab_def distinct_update)

lemma wf_map_upd:
  assumes m: "wf_map m" and t: "tab_id t = i" "i \<noteq> []" "tab_ok t"
    and clash: "\<And>j u x. m j = Some u \<Longrightarrow> j \<noteq> i \<Longrightarrow> x \<in> unique_keys t \<Longrightarrow> x \<notin> unique_keys u"
  shows "wf_map (\<lambda>x. if x = i then Some t else m x)"
  unfolding wf_map_def
proof (intro conjI allI impI)
  fix a b u v x
  assume "(if a = i then Some t else m a) = Some u" "(if b = i then Some t else m b) = Some v"
    and x: "x \<in> unique_keys u" "x \<in> unique_keys v"
  then show "a = b" using clash wf_map_unique [OF m _ _ x] by (auto split: if_splits)
qed (use t wf_mapD [OF m] in \<open>auto split: if_splits\<close>)

lemma wf_map_sub:
  assumes "wf_map m" "\<And>i t. m' i = Some t \<Longrightarrow> m i = Some t"
  shows "wf_map m'"
  unfolding wf_map_def using wf_mapD [OF assms(1) assms(2)] wf_map_unique [OF assms(1) assms(2) assms(2)]
  by blast

text \<open>A tab's ui is no part of well-formedness.\<close>

fun shape :: "tab \<Rightarrow> tab" where
  "shape (EntityTab e) = EntityTab (e\<lparr>et_ui := []\<rparr>)"
| "shape t = t"

lemma shape_facts:
  assumes "shape t = shape u"
  shows "tab_id t = tab_id u" "tab_ok t = tab_ok u" "unique_keys t = unique_keys u"
    "isEligible sc t = isEligible sc u"
proof -
  have id: "tab_id (shape v) = tab_id v" for v by (cases v) auto
  have ok: "tab_ok (shape v) = tab_ok v" for v by (cases v) auto
  have uk: "unique_keys (shape v) = unique_keys v" for v by (cases v) auto
  have el: "isEligible sc (shape v) = isEligible sc v" for v by (cases v) (auto simp: isEligible_def)
  show "tab_id t = tab_id u" "tab_ok t = tab_ok u" "unique_keys t = unique_keys u"
    "isEligible sc t = isEligible sc u"
    by (metis assms id, metis assms ok, metis assms uk, metis assms el)
qed

definition same_shape :: "(string \<Rightarrow> tab option) \<Rightarrow> (string \<Rightarrow> tab option) \<Rightarrow> bool" where
  "same_shape m m' \<longleftrightarrow> (\<forall>i. map_option shape (m i) = map_option shape (m' i))"

lemma same_shape_refl [simp]: "same_shape m m"
  by (simp add: same_shape_def)

lemma same_shapeD: "same_shape m m' \<Longrightarrow> m' i = Some t' \<Longrightarrow> \<exists>t. m i = Some t \<and> shape t = shape t'"
  unfolding same_shape_def by (metis map_option_eq_Some)

lemma same_shape_Some: "same_shape m m' \<Longrightarrow> m i = Some t \<Longrightarrow> \<exists>t'. m' i = Some t' \<and> shape t' = shape t"
  unfolding same_shape_def by (metis map_option_eq_Some)

lemma same_shape_dom: "same_shape m m' \<Longrightarrow> dom m' = dom m"
proof -
  assume sh: "same_shape m m'"
  have "m' i = None \<longleftrightarrow> m i = None" for i
    using sh unfolding same_shape_def by (metis option.map_disc_iff)
  then show ?thesis by (simp add: dom_def)
qed

lemma wf_map_shape: "same_shape m m' \<Longrightarrow> wf_map m \<Longrightarrow> wf_map m'"
proof -
  assume sh: "same_shape m m'" and m: "wf_map m"
  have pre: "\<exists>t. m i = Some t \<and> shape t = shape t'" if "m' i = Some t'" for i t'
    using same_shapeD [OF sh that] .
  have "i \<noteq> [] \<and> tab_id t' = i \<and> tab_ok t'" if "m' i = Some t'" for i t'
  proof -
    obtain t where t: "m i = Some t" "shape t = shape t'" using pre [OF \<open>m' i = Some t'\<close>] by blast
    then show ?thesis using wf_mapD [OF m t(1)] shape_facts(1,2) [OF t(2)] by simp
  qed
  moreover have "i = j" if mi: "m' i = Some t'" and mj: "m' j = Some u'"
    and x: "x \<in> unique_keys t'" "x \<in> unique_keys u'" for i j t' u' x
  proof -
    obtain t u where "m i = Some t" "m j = Some u" "shape t = shape t'" "shape u = shape u'"
      using pre [OF mi] pre [OF mj] by blast
    with x show ?thesis using wf_map_unique [OF m, of i t j u x] shape_facts(3) by metis
  qed
  ultimately show ?thesis unfolding wf_map_def by blast
qed

lemma isEligible_shape: "shape t = shape u \<Longrightarrow> isEligible sc t = isEligible sc u"
  by (rule shape_facts(4))

text \<open>The states two operations build agree on everything but uis and reach the same tabs.\<close>

lemma wf_core_shape:
  assumes "wf_core s" "same_shape (tab_at s) (tab_at s')" "distinct (keys_of s')"
    "orderedTabIds s' = orderedTabIds s" "scope_ok (scope s')" "layout_ok (layout s')"
    "distinct (recency s')" "set (recency s') \<subseteq> set (keys_of s)"
    "vals (rememberedActive s') \<subseteq> set (keys_of s)"
  shows "wf_core s'"
proof -
  have "set (keys_of s') = set (keys_of s)"
    using same_shape_dom [OF assms(2)] by (simp only: dom_tab_at)
  then show ?thesis
    unfolding wf_core_alt using assms(3-9) wf_coreD [OF assms(1)] wf_map_shape [OF assms(2)]
    by (intro conjI) simp_all
qed

subsection \<open>Capturing the outgoing ui\<close>

lemma captureOutgoing_shape:
  assumes "wf_core s"
  shows "same_shape (tab_at s) (map_of (captureOutgoing s h))"
    and "distinct (map fst (captureOutgoing s h))"
proof -
  have d: "distinct (map fst (tabs s))" using wf_coreD(1) [OF assms] by (simp add: keys_of_def)
  then show "distinct (map fst (captureOutgoing s h))"
    by (auto simp: captureOutgoing_def distinct_update split: presentation.splits option.splits tab.splits)
  have own: "tab_at s i = Some (EntityTab e) \<Longrightarrow> et_id e = i" for i e
    using wf_mapD(1) [OF wf_coreD(2) [OF assms]] by fastforce
  show "same_shape (tab_at s) (map_of (captureOutgoing s h))"
    using own by (auto simp: captureOutgoing_def same_shape_def tab_at_def
        split: presentation.splits option.splits tab.splits)
qed

lemma tab_at_tabs_update [simp]: "tab_at (s\<lparr>tabs := al\<rparr>) = map_of al"
  by (simp add: tab_at_def fun_eq_iff)

lemma tab_at_other [simp]:
  "tab_at (s\<lparr>presentation := p\<rparr>) = tab_at s" "tab_at (s\<lparr>recency := r\<rparr>) = tab_at s"
  "tab_at (s\<lparr>rememberedActive := ra\<rparr>) = tab_at s" "tab_at (s\<lparr>orderedTabIds := oi\<rparr>) = tab_at s"
  "tab_at (s\<lparr>scope := sc\<rparr>) = tab_at s" "tab_at (s\<lparr>layout := l\<rparr>) = tab_at s"
  "tab_at (s\<lparr>pending := pe\<rparr>) = tab_at s" "tab_at (s\<lparr>revision := re\<rparr>) = tab_at s"
  "tab_at (s\<lparr>scopeRepair := sr\<rparr>) = tab_at s" "tab_at (s\<lparr>rail := ra'\<rparr>) = tab_at s"
  "tab_at (s\<lparr>browserMain := bm\<rparr>) = tab_at s"
  by (simp_all add: tab_at_def fun_eq_iff)

lemma keys_of_other [simp]:
  "keys_of (s\<lparr>presentation := p\<rparr>) = keys_of s" "keys_of (s\<lparr>recency := r\<rparr>) = keys_of s"
  "keys_of (s\<lparr>rememberedActive := ra\<rparr>) = keys_of s" "keys_of (s\<lparr>orderedTabIds := oi\<rparr>) = keys_of s"
  "keys_of (s\<lparr>scope := sc\<rparr>) = keys_of s" "keys_of (s\<lparr>layout := l\<rparr>) = keys_of s"
  "keys_of (s\<lparr>pending := pe\<rparr>) = keys_of s" "keys_of (s\<lparr>revision := re\<rparr>) = keys_of s"
  "keys_of (s\<lparr>scopeRepair := sr\<rparr>) = keys_of s" "keys_of (s\<lparr>rail := ra'\<rparr>) = keys_of s"
  "keys_of (s\<lparr>browserMain := bm\<rparr>) = keys_of s"
  by (simp_all add: keys_of_def)

lemma keys_of_tabs [simp]: "keys_of (s\<lparr>tabs := al\<rparr>) = map fst al"
  by (simp add: keys_of_def)

lemma vals_update: "vals (AList.update k v al) \<subseteq> insert v (vals al)"
  unfolding vals_def by (induction al) auto

lemma vals_update_sub: "vals al \<subseteq> A \<Longrightarrow> v \<in> A \<Longrightarrow> vals (AList.update k v al) \<subseteq> A"
  using vals_update [of k v al] by blast

lemma vals_filter: "vals (filter (\<lambda>(k, i). i \<notin> D) al) = vals al - D"
  unfolding vals_def by force

lemma vals_map: "vals (map (\<lambda>(k, i). (k, f i)) al) = f ` vals al"
  unfolding vals_def by force

lemma active_ok_other [simp]:
  "active_ok (s\<lparr>recency := r\<rparr>) = active_ok s"
  "active_ok (s\<lparr>rememberedActive := ra\<rparr>) = active_ok s" "active_ok (s\<lparr>orderedTabIds := oi\<rparr>) = active_ok s"
  "active_ok (s\<lparr>layout := l\<rparr>) = active_ok s" "active_ok (s\<lparr>pending := pe\<rparr>) = active_ok s"
  "active_ok (s\<lparr>revision := re\<rparr>) = active_ok s" "active_ok (s\<lparr>scopeRepair := sr\<rparr>) = active_ok s"
  "active_ok (s\<lparr>rail := ra'\<rparr>) = active_ok s" "active_ok (s\<lparr>browserMain := bm\<rparr>) = active_ok s"
  "active_ok (s\<lparr>presentation := Start\<rparr>)"
  by (simp_all add: active_ok_def split: presentation.split option.split)

lemma wf_core_other [simp]:
  "wf_core (s\<lparr>presentation := p\<rparr>) = wf_core s" "wf_core (s\<lparr>pending := pe\<rparr>) = wf_core s"
  "wf_core (s\<lparr>revision := re\<rparr>) = wf_core s" "wf_core (s\<lparr>scopeRepair := sr\<rparr>) = wf_core s"
  "wf_core (s\<lparr>rail := ra'\<rparr>) = wf_core s" "wf_core (s\<lparr>browserMain := bm\<rparr>) = wf_core s"
  by (simp_all add: wf_core_alt)

lemma wf_other [simp]:
  "wf_state (s\<lparr>pending := pe\<rparr>) = wf_state s" "wf_state (s\<lparr>revision := re\<rparr>) = wf_state s"
  "wf_state (s\<lparr>scopeRepair := sr\<rparr>) = wf_state s" "wf_state (s\<lparr>rail := ra'\<rparr>) = wf_state s"
  "wf_state (s\<lparr>browserMain := bm\<rparr>) = wf_state s"
  by (simp_all add: wf_state_def)

subsection \<open>Activation keeps well-formedness\<close>

lemma capture_core:
  assumes "wf_core s"
  shows "wf_core (s\<lparr>tabs := captureOutgoing s h\<rparr>)"
  using wf_coreD [OF assms] captureOutgoing_shape [OF assms]
  by (intro wf_core_shape [OF assms]) auto

lemma keys_capture: "wf_core s \<Longrightarrow> set (map fst (captureOutgoing s h)) = set (keys_of s)"
  using same_shape_dom [OF captureOutgoing_shape(1) [of s h]] by (simp add: dom_tab_at dom_map_of_keys)

lemma activate_wf:
  assumes core: "wf_core s" and at: "tab_at s i = Some t" and el: "isEligible (scope s) t"
  shows "wf_state (snd (activate s i h))"
proof (cases "presentation s = ShowTab i")
  case True
  with assms show ?thesis by (simp add: activate_def wf_state_def active_ok_def)
next
  case False
  note c = wf_coreD [OF capture_core [OF core]]
  have ik: "i \<in> set (keys_of s)" using at by (auto simp: tab_at_keys)
  have core': "wf_core (snd (activate s i h))"
    using False ik wf_coreD [OF core] captureOutgoing_shape [OF core, of h]
    by (intro wf_core_shape [OF core]) (auto simp: activate_def dest!: subsetD [OF vals_update])
  obtain t' where "map_of (captureOutgoing s h) i = Some t'" "shape t' = shape t"
    using same_shape_Some [OF captureOutgoing_shape(1) [OF core] at] by blast
  with el have "active_ok (snd (activate s i h))"
    using False by (simp add: activate_def active_ok_def isEligible_shape [of t' t])
  with core' show ?thesis by (simp add: wf_state_def)
qed

lemma showStart_wf: "wf_core s \<Longrightarrow> wf_state (snd (showStart s h))"
  using capture_core [of s h] by (simp add: showStart_def wf_state_def) (simp add: active_ok_def)

lemma eligibleIds_sub:
  "i \<in> set (eligibleIds s ids) \<longleftrightarrow> i \<in> set ids \<and> (\<exists>t. tab_at s i = Some t \<and> isEligible (scope s) t)"
  by (auto simp: eligibleIds_def split: option.splits)

lemma scope_pick_eligible:
  assumes "scope_pick s = Some i" "i \<noteq> []"
  shows "\<exists>t. tab_at s i = Some t \<and> isEligible (scope s) t"
  using assms
  by (auto simp: scope_pick_def eligibleIds_sub split: option.splits if_splits dest!: head_opt_Some)

lemma activate_pick_wf:
  assumes "wf_core s" "\<And>i. pick = Some i \<Longrightarrow> i \<noteq> [] \<Longrightarrow> \<exists>t. tab_at s i = Some t \<and> isEligible (scope s) t"
  shows "wf_state (snd (activate_pick s pick h))"
  using assms by (auto simp: activate_pick_def showStart_wf split: option.splits intro: activate_wf)

text \<open>After a scope change the active tab is one the new scope shows, or the start surface is up.\<close>

lemma resolveAfterScopeChange_wf:
  assumes "wf_core s"
  shows "wf_state (snd (resolveAfterScopeChange s h))"
proof (cases "\<exists>i t. presentation s = ShowTab i \<and> tab_at s i = Some t \<and> isEligible (scope s) t")
  case True
  then obtain i t where it: "presentation s = ShowTab i" "tab_at s i = Some t" "isEligible (scope s) t"
    by blast
  have "tab_id t = i" using wf_mapD(1) [OF wf_coreD(2) [OF assms] it(2)] .
  moreover have "i \<in> set (keys_of s)" using it by (auto simp: tab_at_keys)
  ultimately have "wf_core (snd (resolveAfterScopeChange s h))"
    using wf_coreD [OF assms]
    using it by (intro wf_core_shape [OF assms]) (auto simp: resolveAfterScopeChange_def dest!: subsetD [OF vals_update])
  with it show ?thesis by (simp add: wf_state_def resolveAfterScopeChange_def active_ok_def)
next
  case False
  have pick: "wf_state (snd (activate_pick s (scope_pick s) h))"
    by (rule activate_pick_wf [OF assms]) (rule scope_pick_eligible)
  have start: "presentation s = Start \<Longrightarrow> wf_state s" using assms by (simp add: wf_state_def active_ok_def)
  from False show ?thesis
    using pick start by (auto simp: resolveAfterScopeChange_def split: presentation.splits option.splits)
qed

subsection \<open>Adding, replacing and dropping tabs\<close>

lemma add_tab_core:
  assumes core: "wf_core s" and t: "tab_id t = i" "i \<noteq> []" "tab_ok t"
    and clash: "\<And>j u x. tab_at s j = Some u \<Longrightarrow> j \<noteq> i \<Longrightarrow> x \<in> unique_keys t \<Longrightarrow> x \<notin> unique_keys u"
    and ord: "distinct oi" "set oi = insert i (set (orderedTabIds s))"
    and rec: "distinct re" "set re \<subseteq> insert i (set (recency s))"
  shows "wf_core ((put_tab i t s)\<lparr>orderedTabIds := oi, recency := re\<rparr>)"
proof -
  have "wf_map (\<lambda>x. if x = i then Some t else tab_at s x)"
    by (rule wf_map_upd [OF wf_coreD(2) [OF core] t]) (rule clash)
  moreover have "tab_at (put_tab i t s) = (\<lambda>x. if x = i then Some t else tab_at s x)"
    by (simp add: fun_eq_iff)
  ultimately show ?thesis
    using wf_coreD [OF core] ord rec keys_put_tab [of i t s] distinct_keys_put_tab [of s i t]
    by (auto simp: wf_core_alt)
qed

lemma replace_tab_core:
  assumes core: "wf_core s" and at: "tab_at s i = Some u0" and t: "tab_id t = i" "tab_ok t"
    and clash: "\<And>j u x. tab_at s j = Some u \<Longrightarrow> j \<noteq> i \<Longrightarrow> x \<in> unique_keys t \<Longrightarrow> x \<notin> unique_keys u"
  shows "wf_core (put_tab i t s)"
proof -
  have "i \<noteq> []" using wf_mapD(3) [OF wf_coreD(2) [OF core] at] .
  then have "wf_core ((put_tab i t s)\<lparr>orderedTabIds := orderedTabIds s, recency := recency s\<rparr>)"
    using assms wf_coreD [OF core] by (intro add_tab_core) (auto simp: tab_at_keys)
  then show ?thesis by (simp add: put_tab_def)
qed

lemma replace_tab_active:
  assumes "active_ok s" "tab_at s i = Some u0" "isEligible (scope s) u0 \<Longrightarrow> isEligible (scope s) t"
  shows "active_ok (put_tab i t s)"
  using assms by (auto simp: active_ok_def split: presentation.splits option.splits)

lemma put_same_shape_wf:
  assumes "wf_state s" "tab_at s i = Some u" "shape t = shape u"
  shows "wf_state (put_tab i t s)"
proof -
  have m: "wf_map (tab_at s)" using assms(1) by (simp add: wf_state_def wf_coreD(2))
  have "wf_core (put_tab i t s)"
  proof (rule replace_tab_core [OF _ assms(2)])
    show "wf_core s" using assms(1) by (simp add: wf_state_def)
    show "tab_id t = i" "tab_ok t"
      using wf_mapD(1,2) [OF m assms(2)] shape_facts [OF assms(3)] by auto
    show "x \<notin> unique_keys v" if "tab_at s j = Some v" "j \<noteq> i" "x \<in> unique_keys t" for j v x
      using that wf_map_unique [OF m assms(2)] shape_facts(3) [OF assms(3)] by blast
  qed
  with replace_tab_active [of s i u t] assms isEligible_shape [OF assms(3)] show ?thesis
    by (auto simp: wf_state_def)
qed

lemma reorder_wf:
  assumes "wf_state s" "distinct oi" "set oi = set (orderedTabIds s)"
  shows "wf_state (s\<lparr>orderedTabIds := oi\<rparr>)"
  using assms by (simp add: wf_state_def wf_core_alt)

lemma drop_tabs_tab_at: "tab_at (drop_tabs s ds) i = (if i \<in> set ds then None else tab_at s i)"
  by (simp add: drop_tabs_def tab_at_def map_of_filter_key)

lemma keys_drop_tabs: "set (keys_of (drop_tabs s ds)) = set (keys_of s) - set ds"
  by (auto simp: keys_of_def drop_tabs_def)

lemma drop_tabs_core:
  assumes "wf_core s"
  shows "wf_core (drop_tabs s ds)"
proof -
  have "distinct (keys_of (drop_tabs s ds))"
    using wf_coreD(1) [OF assms] by (simp add: keys_of_def drop_tabs_def distinct_map_filter)
  moreover have "wf_map (tab_at (drop_tabs s ds))"
    by (rule wf_map_sub [OF wf_coreD(2) [OF assms]]) (simp add: drop_tabs_tab_at split: if_splits)
  ultimately show ?thesis
    using wf_coreD [OF assms] keys_drop_tabs [of s ds]
    by (simp add: wf_core_alt) (auto simp: drop_tabs_def vals_filter)
qed

lemma survivor_eligible:
  assumes "survivor s d ds a = Some i"
  shows "\<exists>t. tab_at d i = Some t \<and> isEligible (scope d) t"
  using assms
  by (auto simp: survivor_def Let_def eligibleIds_sub split: option.splits
      dest!: head_opt_Some last_opt_Some)

lemma removeTabs_wf:
  assumes "wf_state s"
  shows "wf_state (snd (fst (removeTabs s ids h)))"
proof -
  define ds where "ds = doomed_ids s ids"
  have core: "wf_core (drop_tabs s ds)" using assms by (simp add: wf_state_def drop_tabs_core)
  have core1: "wf_core ((drop_tabs s ds)\<lparr>presentation := Start\<rparr>)" using core by simp
  have kept: "wf_state (drop_tabs s ds)" if "\<forall>a. presentation s = ShowTab a \<longrightarrow> a \<notin> set ds"
    using core assms that
    by (auto simp: wf_state_def active_ok_def drop_tabs_tab_at split: presentation.splits option.splits)
      (auto simp: drop_tabs_def)
  have start: "wf_state ((drop_tabs s ds)\<lparr>presentation := Start\<rparr>)"
    using core1 by (simp add: wf_state_def active_ok_def)
  have pick: "wf_state (snd (activate ((drop_tabs s ds)\<lparr>presentation := Start\<rparr>) i h))"
    if "survivor s (drop_tabs s ds) ds a = Some i" for a i
    using survivor_eligible [OF that] by (auto intro!: activate_wf [OF core1])
  show ?thesis
    using assms kept start pick
    by (auto simp: removeTabs_def Let_def ds_def [symmetric] split: presentation.splits option.splits)
qed

lemma replaceChooser_wf:
  assumes "wf_state s" "tab_at s i \<noteq> None"
  shows "wf_state (snd (replaceChooser s c i tp h))"
proof -
  have "set (insert_before b i (filter (\<lambda>j. j \<noteq> i) (orderedTabIds s))) = set (orderedTabIds s)" for b
    using assms wf_order_tab [of s i] by (auto simp: wf_state_def)
  moreover have "distinct (insert_before b i (filter (\<lambda>j. j \<noteq> i) (orderedTabIds s)))" for b
    using assms wf_coreD(3) [of s] by (auto simp: wf_state_def)
  ultimately show ?thesis
    using assms reorder_wf [OF assms(1)]
    by (auto simp: replaceChooser_def Let_def intro!: removeTabs_wf split: jsval.splits)
qed

lemma afterActive_set: "set (afterActive s i) = insert i (set (orderedTabIds s)) \<or> activeTabId s = Some i"
  by (auto simp: afterActive_def Let_def split: option.splits)

lemma afterActive_distinct: "distinct (orderedTabIds s) \<Longrightarrow> distinct (afterActive s i)"
  by (auto simp: afterActive_def Let_def split: option.splits)

lemma afterActive_new:
  assumes "wf_state s" "tab_at s i = None"
  shows "set (afterActive s i) = insert i (set (orderedTabIds s))" "distinct (afterActive s i)"
proof -
  have "activeTabId s \<noteq> Some i"
    using assms by (auto simp: wf_state_def active_ok_def activeTabId_def split: presentation.splits)
  then show "set (afterActive s i) = insert i (set (orderedTabIds s))" using afterActive_set by blast
  show "distinct (afterActive s i)" using assms wf_coreD(3) by (auto simp: wf_state_def afterActive_distinct)
qed

lemma afterActive_old:
  assumes "wf_state s" "tab_at s i \<noteq> None"
  shows "set (afterActive s i) = set (orderedTabIds s)" "distinct (afterActive s i)"
proof -
  have "i \<in> set (orderedTabIds s)" using assms by (auto simp: wf_state_def wf_order_tab)
  then show "set (afterActive s i) = set (orderedTabIds s)"
    using afterActive_set [of s i] by (auto simp: afterActive_def Let_def)
  show "distinct (afterActive s i)" using assms wf_coreD(3) by (auto simp: wf_state_def afterActive_distinct)
qed

end
