(* ===== verification/WsPreserve.thy ===== *)
theory WsPreserve
  imports WsInvariant
begin

text \<open>
  Every planner keeps a well-formed state well-formed and opens only tabs under ids it took from
  the supply; the reducer therefore does, for every command, source and interleaving.
\<close>

definition fresh_id :: "wstate \<Rightarrow> string \<Rightarrow> bool" where
  "fresh_id s i \<longleftrightarrow> i \<noteq> [] \<and> tab_at s i = None"

subsection \<open>The tabs an operation leaves\<close>

lemma keys_activate: "wf_core s \<Longrightarrow> set (keys_of (snd (activate s i h))) = set (keys_of s)"
  using keys_capture [of s h] by (simp add: activate_def)

lemma keys_showStart: "wf_core s \<Longrightarrow> set (keys_of (snd (showStart s h))) = set (keys_of s)"
  using keys_capture [of s h] by (simp add: showStart_def)

lemma keys_resolveAfterScopeChange:
  "wf_core s \<Longrightarrow> set (keys_of (snd (resolveAfterScopeChange s h))) = set (keys_of s)"
  by (auto simp: resolveAfterScopeChange_def activate_pick_def keys_activate keys_showStart
      split: presentation.splits option.splits)

lemma keys_removeTabs: "wf_state s \<Longrightarrow> set (keys_of (snd (fst (removeTabs s ids h)))) \<subseteq> set (keys_of s)"
  using drop_tabs_core [of s "doomed_ids s ids"] keys_drop_tabs [of s "doomed_ids s ids"]
  by (auto simp: wf_state_def removeTabs_def Let_def keys_activate split: presentation.splits option.splits)

lemma chooser_slot_wf:
  assumes "wf_state s" "tab_at s i \<noteq> None"
  shows "wf_state (s\<lparr>orderedTabIds := insert_before b i (filter (\<lambda>j. j \<noteq> i) (orderedTabIds s))\<rparr>)"
  using assms wf_order_tab [of s i] wf_coreD(3) [of s]
  by (intro reorder_wf) (auto simp: wf_state_def)

lemma keys_replaceChooser:
  assumes "wf_state s" "tab_at s i \<noteq> None"
  shows "set (keys_of (snd (replaceChooser s c i tp h))) \<subseteq> set (keys_of s)"
proof (cases c)
  case (JStr b)
  then show ?thesis
    using keys_removeTabs [OF chooser_slot_wf [OF assms, of b], of "[b]" h] keys_removeTabs [OF assms(1), of "[b]" h]
    by (simp add: replaceChooser_def Let_def)
qed (simp_all add: replaceChooser_def)

lemma tab_at_activate: "wf_core s \<Longrightarrow> tab_at (snd (activate s i h)) j = None \<longleftrightarrow> tab_at s j = None"
  using keys_activate [of s i h] by (metis domIff dom_tab_at)

subsection \<open>Finding tabs\<close>

lemma findEntityIn_Some:
  "findEntityIn s k e is = Some x \<Longrightarrow> \<exists>i. i \<in> set is \<and> tab_at s i = Some (EntityTab x) \<and> et_kind x = k \<and> et_entityId x = e"
  by (induction "is") (auto split: option.splits tab.splits if_splits)

lemma findEntityIn_None:
  "findEntityIn s k e is = None \<Longrightarrow> i \<in> set is \<Longrightarrow> tab_at s i = Some (EntityTab x) \<Longrightarrow> \<not> (et_kind x = k \<and> et_entityId x = e)"
  by (induction "is") (auto split: option.splits tab.splits if_splits)

lemma findFileIn_Some: "findFileIn s p is = Some f \<Longrightarrow> \<exists>i. i \<in> set is \<and> tab_at s i = Some (FileTab f) \<and> p f"
  by (induction "is") (auto split: option.splits tab.splits if_splits)

lemma findFileIn_None: "findFileIn s p is = None \<Longrightarrow> i \<in> set is \<Longrightarrow> tab_at s i = Some (FileTab f) \<Longrightarrow> \<not> p f"
  by (induction "is") (auto split: option.splits tab.splits if_splits)

lemma findEntityTab_Some:
  assumes "wf_core s" "findEntityTab s k e = Some x"
  shows "tab_at s (et_id x) = Some (EntityTab x)" "et_kind x = k" "et_entityId x = e"
proof -
  obtain i where i: "tab_at s i = Some (EntityTab x)" "et_kind x = k" "et_entityId x = e"
    using findEntityIn_Some assms(2) unfolding findEntityTab_def by blast
  moreover have "et_id x = i" using wf_mapD(1) [OF wf_coreD(2) [OF assms(1)] i(1)] by simp
  ultimately show "tab_at s (et_id x) = Some (EntityTab x)" "et_kind x = k" "et_entityId x = e"
    by simp_all
qed

lemma findEntityTab_None:
  assumes "wf_core s" "findEntityTab s k e = None" "tab_at s i = Some (EntityTab x)"
  shows "\<not> (et_kind x = k \<and> et_entityId x = e)"
  using assms findEntityIn_None [of s k e "orderedTabIds s" i x] wf_order_tab [OF assms(1), of i]
  by (auto simp: findEntityTab_def)

lemma found_file:
  assumes "wf_core s" "findFileIn s p (orderedTabIds s) = Some f"
  shows "tab_at s (ft_id f) = Some (FileTab f)" "p f"
proof -
  obtain i where i: "tab_at s i = Some (FileTab f)" "p f" using findFileIn_Some [OF assms(2)] by blast
  moreover have "ft_id f = i" using wf_mapD(1) [OF wf_coreD(2) [OF assms(1)] i(1)] by simp
  ultimately show "tab_at s (ft_id f) = Some (FileTab f)" "p f" by simp_all
qed

lemma no_file_found:
  assumes "wf_core s" "findFileIn s p (orderedTabIds s) = None" "tab_at s i = Some (FileTab f)"
  shows "\<not> p f"
  using assms findFileIn_None [of s p "orderedTabIds s" i f] wf_order_tab [OF assms(1), of i] by auto

subsection \<open>What a good plan is\<close>

text \<open>
  Its next state is well-formed, opens only ids taken from the supply, and never un-takes one.
\<close>

definition state_good :: "hooks \<Rightarrow> nat \<Rightarrow> nat \<Rightarrow> wstate \<Rightarrow> wstate \<Rightarrow> bool" where
  "state_good h n n' s s' \<longleftrightarrow>
     wf_state s' \<and> n \<le> n' \<and> set (keys_of s') \<subseteq> set (keys_of s) \<union> newId h ` {n..<n'}"

definition plan_good :: "hooks \<Rightarrow> nat \<Rightarrow> wstate \<Rightarrow> plan \<times> nat \<Rightarrow> bool" where
  "plan_good h n s pl \<longleftrightarrow> n \<le> snd pl \<and> (case fst pl of
      Commit nx _ _ _ \<Rightarrow> state_good h n (snd pl) s (snd nx)
    | Replay nx _ _ \<Rightarrow> state_good h n (snd pl) s nx
    | _ \<Rightarrow> True)"

lemma plan_good_intros [wf_intros]:
  "plan_good h n s (Reject r, n)" "plan_good h n s (Choice c, n)"
  "plan_good h n s (PInspect, n)" "plan_good h n s (External res, n)"
  "plan_good h n s (scope_choice k, n)"
  "state_good h n n' s (snd nx) \<Longrightarrow> plan_good h n s (Commit nx cr sg af, n')"
  "state_good h n n' s (snd nx) \<Longrightarrow> plan_good h n s (plain_commit nx, n')"
  "state_good h n n' s (snd nx) \<Longrightarrow> plan_good h n s (commit_tab nx i oc af, n')"
  "state_good h n n' s nx' \<Longrightarrow> plan_good h n s (Replay nx' env' af, n')"
  by (auto simp: plan_good_def scope_choice_def plain_commit_def commit_tab_def state_good_def)

lemma state_good_refl [wf_intros]: "wf_state s \<Longrightarrow> state_good h n n s s"
  by (simp add: state_good_def)

lemma no_op_good [wf_intros]: "wf_state s \<Longrightarrow> plan_good h n s (no_op_commit s, n)"
  by (simp add: no_op_commit_def plan_good_def state_good_def)

lemma state_good_same: "wf_state s' \<Longrightarrow> set (keys_of s') \<subseteq> set (keys_of s) \<Longrightarrow> state_good h n n s s'"
  by (auto simp: state_good_def)

lemma removal_good: "wf_state s \<Longrightarrow> state_good h n n s (snd (fst (removeTabs s ids h)))"
  by (simp add: state_good_same removeTabs_wf keys_removeTabs)

text \<open>The tail of every open: activate the tab when asked, then swap the chooser out.\<close>

lemma finish_open_good:
  assumes "wf_state s" "tab_at s i = Some t" "isEligible (scope s) t"
  shows "wf_state (snd (replaceChooser (if act then snd (activate s i h) else s) c i tp h))"
    and "set (keys_of (snd (replaceChooser (if act then snd (activate s i h) else s) c i tp h))) \<subseteq> set (keys_of s)"
proof -
  have core: "wf_core s" using assms(1) by (simp add: wf_state_def)
  have w: "wf_state (if act then snd (activate s i h) else s)"
    using assms activate_wf [OF core assms(2,3)] by simp
  have at: "tab_at (if act then snd (activate s i h) else s) i \<noteq> None"
    using assms(2) tab_at_activate [OF core, of i h i] by (auto simp del: not_None_eq)
  show "wf_state (snd (replaceChooser (if act then snd (activate s i h) else s) c i tp h))"
    by (rule replaceChooser_wf [OF w at])
  show "set (keys_of (snd (replaceChooser (if act then snd (activate s i h) else s) c i tp h))) \<subseteq> set (keys_of s)"
    using keys_replaceChooser [OF w at, of c tp h] keys_activate [OF core, of i h] by (auto split: if_splits)
qed

text \<open>Inserting the record of a new tab.\<close>

lemma add_tab_wf:
  assumes s: "wf_state s" and i: "fresh_id s i" and t: "tab_id t = i" "tab_ok t"
    and clash: "\<And>j u x. tab_at s j = Some u \<Longrightarrow> x \<in> unique_keys t \<Longrightarrow> x \<notin> unique_keys u"
  shows "wf_state ((put_tab i t s)\<lparr>orderedTabIds := afterActive s i\<rparr>)"
    and "wf_state ((put_tab i t s)\<lparr>orderedTabIds := afterActive s i, recency := recency s @ [i]\<rparr>)"
proof -
  have core: "wf_core s" using s by (simp add: wf_state_def)
  have ni: "tab_at s i = None" "i \<noteq> []" using i by (auto simp: fresh_id_def)
  have "i \<notin> set (recency s)" using ni wf_coreD(6) [OF core] tab_at_keys [of i s] by auto
  then have rec: "distinct (recency s @ [i])" using wf_coreD(5) [OF core] by simp
  have act: "active_ok (put_tab i t s)"
    using s ni by (auto simp: wf_state_def active_ok_def split: presentation.splits option.splits)
  have "wf_core ((put_tab i t s)\<lparr>orderedTabIds := afterActive s i, recency := re\<rparr>)"
    if "distinct re" "set re \<subseteq> insert i (set (recency s))" for re
    using add_tab_core [OF core t(1) ni(2) t(2) clash afterActive_new(2,1) [OF s ni(1)] that] by simp
  from this [of "recency s"] this [OF rec] wf_coreD(5) [OF core] act
  show "wf_state ((put_tab i t s)\<lparr>orderedTabIds := afterActive s i\<rparr>)"
    "wf_state ((put_tab i t s)\<lparr>orderedTabIds := afterActive s i, recency := recency s @ [i]\<rparr>)"
    by (auto simp: wf_state_def put_tab_def)
qed

lemma keys_added: "set (keys_of ((put_tab i t s)\<lparr>orderedTabIds := oi\<rparr>)) = insert i (set (keys_of s))"
  "set (keys_of ((put_tab i t s)\<lparr>orderedTabIds := oi, recency := re\<rparr>)) = insert i (set (keys_of s))"
  by (simp_all add: keys_put_tab)

subsection \<open>Opening tabs\<close>

lemma snd_if_act: "snd (if act then and_then n1 f else n1) = (if act then snd (f (snd n1)) else snd n1)"
  by (simp add: snd_and_then)

lemma scopes_kept:
  "scope (put_tab i t s) = scope s" "scope (s\<lparr>orderedTabIds := oi, recency := re\<rparr>) = scope s"
  by simp_all

lemma open_new_good:
  assumes s: "wf_state s" and f: "fresh_id s (newId h n)" and k: "isKindName kind" "e \<noteq> []"
    and sc: "kindInScope (scope s) kind" and none: "findEntityTab s kind e = None"
  shows "state_good h n (Suc n) s (snd (open_new s (newId h n) kind e env ct h))"
proof -
  define i where "i = newId h n"
  have core: "wf_core s" using s by (simp add: wf_state_def)
  define act where "act \<longleftrightarrow> arg env ''activate'' \<noteq> JBool False"
  define t where "t = EntityTab \<lparr>et_id = i, et_kind = kind, et_entityId = e,
    et_ui = spread [(''subview'', if arg env ''subview'' = JUndef then JStr ''entity'' else arg env ''subview'')]
                 (if arg env ''trail'' \<noteq> JUndef \<and> \<not> ct then [(''trail'', arg env ''trail'')] else [])\<rparr>"
  define s1 where "s1 = (put_tab i t s)\<lparr>orderedTabIds := afterActive s i,
                 recency := (if act then recency s else recency s @ [i])\<rparr>"
  have eq: "snd (open_new s i kind e env ct h) =
      snd (replaceChooser (if act then snd (activate s1 i h) else s1) (arg env ''replaceTabId'') i True h)"
    by (simp add: open_new_def Let_def snd_and_then s1_def t_def act_def)
  have clash: "x \<notin> unique_keys u" if "tab_at s j = Some u" "x \<in> unique_keys t" for j u x
    using that findEntityTab_None [OF core none, of j] by (cases u) (auto simp: t_def split: if_splits)
  have "wf_state s1"
    using add_tab_wf [OF s f [folded i_def], of t] clash k
    by (auto simp: s1_def t_def put_tab_def simp del: spread.simps)
  moreover have "tab_at s1 i = Some t" by (simp add: s1_def)
  moreover have "isEligible (scope s1) t" using sc by (simp add: s1_def isEligible_def t_def)
  ultimately have "wf_state (snd (open_new s i kind e env ct h))"
    "set (keys_of (snd (open_new s i kind e env ct h))) \<subseteq> set (keys_of s1)"
    unfolding eq by (rule finish_open_good)+
  then show ?thesis by (auto simp: state_good_def i_def [symmetric] s1_def keys_put_tab)
qed

lemma open_existing_good:
  assumes s: "wf_state s" and at: "tab_at s (et_id e) = Some (EntityTab e)" and el: "isEligible (scope s) (EntityTab e)"
  shows "state_good h n n s (snd (open_existing s e env ct h))"
proof -
  define ui where "ui = open_ui (et_ui e) (arg env ''trail'') (arg env ''subview'') ct"
  define s1 where "s1 = (if fst ui then put_tab (et_id e) (EntityTab (e\<lparr>et_ui := snd ui\<rparr>)) s else s)"
  define act where "act \<longleftrightarrow> arg env ''activate'' \<noteq> JBool False"
  have eq: "snd (open_existing s e env ct h) =
      snd (replaceChooser (if act then snd (activate s1 (et_id e) h) else s1) (arg env ''replaceTabId'') (et_id e) False h)"
    by (simp add: open_existing_def Let_def snd_and_then s1_def act_def ui_def)
  have w: "wf_state s1" using put_same_shape_wf [OF s at, of "EntityTab (e\<lparr>et_ui := snd ui\<rparr>)"] s
    by (simp add: s1_def)
  obtain t where t: "tab_at s1 (et_id e) = Some t" "shape t = shape (EntityTab e)"
    using at by (cases "fst ui") (auto simp: s1_def)
  have "isEligible (scope s1) t" using el isEligible_shape [OF t(2)] by (simp add: s1_def)
  from finish_open_good [OF w t(1) this] have "wf_state (snd (open_existing s e env ct h))"
    "set (keys_of (snd (open_existing s e env ct h))) \<subseteq> set (keys_of s1)"
    unfolding eq by blast+
  moreover have "set (keys_of s1) = set (keys_of s)"
    using at tab_at_keys [of "et_id e" s] by (auto simp: s1_def keys_put_tab)
  ultimately show ?thesis by (simp add: state_good_same)
qed

lemma open_tab_good:
  assumes s: "wf_state s" and f: "fresh_id s (newId h n)"
  shows "plan_good h n s (open_tab s env h n)"
proof -
  have core: "wf_core s" using s by (simp add: wf_state_def)
  define kind where "kind = str_of (arg env ''kind'')"
  define e where "e = str_of (arg env ''entityId'')"
  show ?thesis
  proof (cases "isRecord (args env) \<and> isNonEmptyString (arg env ''entityId'') \<and> isNonEmptyString (arg env ''kind'')
      \<and> isWorkspaceKind (arg env ''kind'') \<and> open_args_ok env \<and> kindInScope (scope s) kind")
    case False
    then show ?thesis by (auto simp: open_tab_def Let_def kind_def intro!: wf_intros)
  next
    case True
    have k: "isKindName kind" using True by (auto simp: kind_def isWorkspaceKind_def split: jsval.splits)
    have ne: "e \<noteq> []" using True by (cases "arg env ''entityId''") (auto simp: e_def)
    show ?thesis
    proof (cases "findEntityTab s kind e")
      case None
      with True open_new_good [OF s f k ne _ None] show ?thesis
        by (auto simp: open_tab_def Let_def kind_def [symmetric] e_def [symmetric] intro!: wf_intros)
    next
      case (Some x)
      note x = findEntityTab_Some [OF core Some]
      have el: "isEligible (scope s) (EntityTab x)" using True x(2) by (simp add: isEligible_def)
      with True Some open_existing_good [OF s x(1) el] show ?thesis
        by (auto simp: open_tab_def Let_def kind_def [symmetric] e_def [symmetric] intro!: wf_intros)
    qed
  qed
qed

lemma set_map_filter: "y \<in> set (List.map_filter f xs) \<longleftrightarrow> (\<exists>x \<in> set xs. f x = Some y)"
  by (force simp: List.map_filter_def)

lemma case_draft_Some:
  "(case ot of Some (DraftTab d) \<Rightarrow> f d | _ \<Rightarrow> None) = Some x \<longleftrightarrow> (\<exists>d. ot = Some (DraftTab d) \<and> f d = Some x)"
  by (auto split: option.split tab.split)

lemma head_map_filter:
  "head_opt (List.map_filter f xs) = Some y \<Longrightarrow> \<exists>x. x \<in> set xs \<and> f x = Some y"
  by (drule head_opt_Some) (auto simp: List.map_filter_def)

lemma map_filter_None: "List.map_filter f xs = [] \<Longrightarrow> x \<in> set xs \<Longrightarrow> f x = None"
  by (auto simp: List.map_filter_def filter_empty_conv)

lemma reorder_old_wf:
  assumes "wf_state s" "tab_at s i \<noteq> None"
  shows "wf_state (snd (if c then same_ref s else new_ref (s\<lparr>orderedTabIds := afterActive s i\<rparr>)))"
  using assms reorder_wf [OF assms(1) afterActive_old(2,1) [OF assms]] by simp

lemma openChooser_good:
  assumes s: "wf_state s" and f: "fresh_id s (newId h n)"
  shows "plan_good h n s (openChooser s h n)"
proof (cases "existing_chooser s")
  case (Some c)
  have core: "wf_core s" using s by (simp add: wf_state_def)
  obtain i where i: "tab_at s i = Some (ChooserTab c)"
    using Some unfolding existing_chooser_def
    by (auto dest!: head_map_filter split: option.splits tab.splits)
  have ci: "ct_id c = i" using wf_mapD(1) [OF wf_coreD(2) [OF core] i] by simp
  define s1 where "s1 = snd (if every_same (afterActive s i) (orderedTabIds s) then same_ref s
    else new_ref (s\<lparr>orderedTabIds := afterActive s i\<rparr>))"
  have w: "wf_state s1" unfolding s1_def using i by (intro reorder_old_wf [OF s]) simp
  have at: "tab_at s1 i = Some (ChooserTab c)" using i by (simp add: s1_def)
  have w2: "wf_state (snd (activate s1 i h))"
    using w at by (intro activate_wf) (auto simp: wf_state_def isEligible_def)
  have "set (keys_of (snd (activate s1 i h))) = set (keys_of s)"
    using w keys_activate [of s1 i h] by (simp add: wf_state_def) (simp add: s1_def)
  with w2 have "state_good h n n s (snd (activate s1 i h))" by (simp add: state_good_same)
  then show ?thesis
    unfolding openChooser_def Some Let_def option.case ci
    by (intro wf_intros) (simp only: snd_and_then s1_def)
next
  case None
  have core: "wf_core s" using s by (simp add: wf_state_def)
  define i where "i = newId h n"
  define t where "t = ChooserTab \<lparr>ct_id = i, ct_query = []\<rparr>"
  define s1 where "s1 = (put_tab i t s)\<lparr>orderedTabIds := afterActive s i\<rparr>"
  have clash: "x \<notin> unique_keys u" if u: "tab_at s j = Some u" and x: "x \<in> unique_keys t" for j u x
  proof
    assume "x \<in> unique_keys u"
    with x obtain c where c: "u = ChooserTab c" by (cases u) (auto simp: t_def split: if_splits)
    have "j \<in> set (orderedTabIds s)" using u wf_order_tab [OF core] by auto
    from map_filter_None [OF _ this, of "\<lambda>i. case tab_at s i of Some (ChooserTab c) \<Rightarrow> Some c | _ \<Rightarrow> None"] None
    show False using u c by (auto simp: existing_chooser_def)
  qed
  have w: "wf_state s1"
    using add_tab_wf(1) [OF s f [folded i_def], of t] clash by (auto simp: s1_def t_def)
  have at: "tab_at s1 i = Some t" by (simp add: s1_def)
  have w2: "wf_state (snd (activate s1 i h))"
    using w at by (intro activate_wf) (auto simp: wf_state_def isEligible_def t_def)
  have "set (keys_of (snd (activate s1 i h))) = insert i (set (keys_of s))"
    using w keys_activate [of s1 i h] by (simp add: wf_state_def) (simp add: s1_def keys_put_tab)
  with w2 have "state_good h n (Suc n) s (snd (activate s1 i h))" by (auto simp: state_good_def i_def)
  then show ?thesis
    unfolding openChooser_def None Let_def option.case i_def [symmetric] t_def [symmetric] s1_def [symmetric]
    by (intro wf_intros) (simp only: snd_and_then ref_simps)
qed

subsection \<open>Files and drafts\<close>

lemma activate_good:
  assumes "wf_state s1" "tab_at s1 i = Some t" "isEligible (scope s1) t"
    "set (keys_of s1) \<subseteq> set (keys_of s) \<union> newId h ` {n..<n'}" "n \<le> n'"
  shows "state_good h n n' s (if act then snd (activate s1 i h) else s1)"
proof -
  have core: "wf_core s1" using assms(1) by (simp add: wf_state_def)
  show ?thesis
    using assms(1,4,5) activate_wf [OF core assms(2,3), of h] keys_activate [OF core, of i h]
    by (simp add: state_good_def)
qed

lemma file_pin_wf:
  assumes s: "wf_state s" and at: "tab_at s (ft_id f) = Some (FileTab f)"
  shows "wf_state (put_tab (ft_id f) (FileTab (f\<lparr>ft_preview := False\<rparr>)) s)"
proof -
  have core: "wf_core s" using s by (simp add: wf_state_def)
  note m = wf_coreD(2) [OF core]
  have "wf_core (put_tab (ft_id f) (FileTab (f\<lparr>ft_preview := False\<rparr>)) s)"
    using wf_mapD(2) [OF m at] wf_map_unique [OF m at]
    by (intro replace_tab_core [OF core at]) auto
  moreover have "active_ok (put_tab (ft_id f) (FileTab (f\<lparr>ft_preview := False\<rparr>)) s)"
    using s by (intro replace_tab_active [OF _ at]) (auto simp: wf_state_def isEligible_def)
  ultimately show ?thesis by (simp add: wf_state_def)
qed

text \<open>A file shown in the place of the preview tab.\<close>

lemma file_replace_wf:
  assumes s: "wf_state s" and at: "tab_at s (ft_id f) = Some (FileTab f)" and pre: "ft_preview f"
    and ok: "tab_ok (FileTab g)" "ft_id g = ft_id f"
    and none: "findFileTab s (ft_projectId g) (ft_path g) = None"
  shows "wf_state ((put_tab (ft_id f) (FileTab g) s)\<lparr>orderedTabIds := afterActive s (ft_id f)\<rparr>)"
proof -
  have core: "wf_core s" using s by (simp add: wf_state_def)
  have none': "findFileIn s (\<lambda>x. ft_projectId x = ft_projectId g \<and> ft_path x = ft_path g) (orderedTabIds s) = None"
    using none by (simp add: findFileTab_def)
  have "wf_core (put_tab (ft_id f) (FileTab g) s)"
  proof (rule replace_tab_core [OF core at])
    show "tab_id (FileTab g) = ft_id f" "tab_ok (FileTab g)" using ok by simp_all
    show "x \<notin> unique_keys u" if u: "tab_at s j = Some u" "j \<noteq> ft_id f" "x \<in> unique_keys (FileTab g)" for j u x
    proof (cases u)
      case (FileTab k)
      have "\<not> (ft_projectId k = ft_projectId g \<and> ft_path k = ft_path g)"
        using no_file_found [OF core none'] u(1) FileTab by simp
      moreover have "\<not> ft_preview k"
        using wf_map_unique [OF wf_coreD(2) [OF core] at u(1), of PreviewKey] u(2) pre FileTab by auto
      ultimately show ?thesis using u(3) FileTab by (auto split: if_splits)
    qed (use u(3) in \<open>auto split: if_splits\<close>)
  qed
  moreover have "active_ok (put_tab (ft_id f) (FileTab g) s)"
    using s by (intro replace_tab_active [OF _ at]) (auto simp: wf_state_def isEligible_def)
  ultimately have "wf_state (put_tab (ft_id f) (FileTab g) s)" by (simp add: wf_state_def)
  from reorder_wf [OF this, of "afterActive s (ft_id f)"] afterActive_old [OF s, of "ft_id f"] at
  show ?thesis by simp
qed

lemma snd_if: "snd (if c then a else b) = (if c then snd a else snd b)"
  by simp

lemma recency_same:
  "(put_tab i t s)\<lparr>orderedTabIds := oi, recency := recency s\<rparr> = (put_tab i t s)\<lparr>orderedTabIds := oi\<rparr>"
  by (simp add: put_tab_def)

lemma openFile_good:
  assumes s: "wf_state s" and f: "fresh_id s (newId h n)"
  shows "plan_good h n s (openFile s env h n)"
proof -
  have core: "wf_core s" using s by (simp add: wf_state_def)
  define pr where "pr = str_of (arg env ''projectId'')"
  define pa where "pa = str_of (arg env ''path'')"
  define preview where "preview \<longleftrightarrow> arg env ''preview'' = JBool True"
  define act where "act \<longleftrightarrow> arg env ''activate'' \<noteq> JBool False"
  note defs = pr_def [symmetric] pa_def [symmetric] preview_def [symmetric] act_def [symmetric]
  show ?thesis
  proof (cases "isRecord (args env) \<and> isFileTabProjectId (arg env ''projectId'') \<and> isFileTabPath (arg env ''path'')
      \<and> optional (arg env ''preview'') isBool \<and> optional (arg env ''activate'') isBool")
    case False
    then show ?thesis by (auto simp: openFile_def intro!: wf_intros)
  next
    case True
    have ok: "isFileTabProjectId (JStr pr)" "isPathString pa"
      using True by (auto simp: pr_def pa_def isFileTabProjectId_def isFileTabPath_def split: jsval.splits)
    show ?thesis
    proof (cases "findFileTab s pr pa")
      case (Some x)
      have at: "tab_at s (ft_id x) = Some (FileTab x)"
        using found_file(1) [OF core] Some unfolding findFileTab_def by blast
      define s1 where "s1 = (if \<not> preview \<and> ft_preview x
        then put_tab (ft_id x) (FileTab (x\<lparr>ft_preview := False\<rparr>)) s else s)"
      have w: "wf_state s1" using file_pin_wf [OF s at] s by (simp add: s1_def)
      obtain t where t: "tab_at s1 (ft_id x) = Some t" "isEligible (scope s1) t"
        using at by (cases "\<not> preview \<and> ft_preview x") (auto simp: s1_def isEligible_def)
      have "set (keys_of s1) = set (keys_of s)"
        using at tab_at_keys [of "ft_id x" s] by (auto simp: s1_def keys_put_tab)
      then have "state_good h n n s (if act then snd (activate s1 (ft_id x) h) else s1)"
        by (intro activate_good [OF w t]) simp_all
      with True Some show ?thesis
        unfolding openFile_def Let_def defs
        by (simp add: snd_and_then snd_if s1_def plan_good_intros(6) if_distrib [of snd] cong: if_cong)
    next
      case None
      show ?thesis
      proof (cases "if preview then findPreviewFileTab s else None")
        case (Some x)
        define s1 where "s1 = (put_tab (ft_id x) (FileTab \<lparr>ft_id = ft_id x, ft_projectId = pr, ft_path = pa, ft_preview = preview\<rparr>) s)
          \<lparr>orderedTabIds := afterActive s (ft_id x)\<rparr>"
        have at: "tab_at s (ft_id x) = Some (FileTab x)" "ft_preview x"
          using found_file [OF core, of ft_preview x] Some by (auto simp: findPreviewFileTab_def split: if_splits)
        have w: "wf_state s1" unfolding s1_def
          by (rule file_replace_wf [OF s at]) (use ok None in simp_all)
        have "set (keys_of s1) = set (keys_of s)"
          using at tab_at_keys [of "ft_id x" s] by (auto simp: s1_def keys_put_tab)
        then have "state_good h n n s (if act then snd (activate s1 (ft_id x) h) else s1)"
          by (intro activate_good [OF w, where t = "FileTab \<lparr>ft_id = ft_id x, ft_projectId = pr, ft_path = pa, ft_preview = preview\<rparr>"])
            (simp_all add: s1_def isEligible_def)
        with True None Some show ?thesis
          unfolding openFile_def Let_def defs
          by (simp add: snd_and_then snd_if s1_def plan_good_intros(8) if_distrib [of snd] recency_same cong: if_cong)
      next
        case None': None
        define i where "i = newId h n"
        define t where "t = FileTab \<lparr>ft_id = i, ft_projectId = pr, ft_path = pa, ft_preview = preview\<rparr>"
        define s1 where "s1 = (put_tab i t s)
          \<lparr>orderedTabIds := afterActive s i, recency := (if act then recency s else recency s @ [i])\<rparr>"
        have clash: "x \<notin> unique_keys u" if u: "tab_at s j = Some u" "x \<in> unique_keys t" for j u x
        proof (cases u)
          case (FileTab k)
          have "\<not> (ft_projectId k = pr \<and> ft_path k = pa)"
            using no_file_found [OF core, of "\<lambda>x. ft_projectId x = pr \<and> ft_path x = pa"] u(1) FileTab None
            by (simp add: findFileTab_def)
          moreover have "preview \<Longrightarrow> \<not> ft_preview k"
            using no_file_found [OF core, of ft_preview] u(1) FileTab None'
            by (simp add: findPreviewFileTab_def)
          ultimately show ?thesis using u(2) FileTab by (auto simp: t_def split: if_splits)
        qed (use u(2) in \<open>auto simp: t_def split: if_splits\<close>)
        have w: "wf_state s1"
          using add_tab_wf [OF s f [folded i_def], of t] clash ok
          by (auto simp: s1_def t_def put_tab_def)
        have "state_good h n (Suc n) s (if act then snd (activate s1 i h) else s1)"
          by (intro activate_good [OF w, where t = t]) (auto simp: s1_def t_def isEligible_def keys_put_tab i_def)
        with True None None' show ?thesis
          unfolding openFile_def Let_def defs
          by (simp add: snd_and_then snd_if s1_def t_def i_def plan_good_intros(8) if_distrib [of snd] cong: if_cong)
      qed
    qed
  qed
qed

lemma openDraft_good:
  assumes s: "wf_state s" and f: "fresh_id s (newId h n)"
  shows "plan_good h n s (openDraft s env h n)"
proof -
  have core: "wf_core s" using s by (simp add: wf_state_def)
  define kind where "kind = str_of (arg env ''kind'')"
  show ?thesis
  proof (cases "isRecord (args env) \<and> isNonEmptyString (arg env ''kind'') \<and> optional (arg env ''replaceTabId'') isNonEmptyString
      \<and> isWorkspaceKind (arg env ''kind'') \<and> canCreate h kind \<and> kindInScope (scope s) kind")
    case False
    then show ?thesis by (auto simp: openDraft_def Let_def kind_def intro!: wf_intros)
  next
    case True
    have k: "isKindName kind" using True by (auto simp: kind_def isWorkspaceKind_def split: jsval.splits)
    define free where "free = head_opt (filter (\<lambda>d. \<not> dt_dirty d \<and> \<not> dt_submitting d) (drafts_of_kind s kind))"
    show ?thesis
    proof (cases free)
      case (Some d)
      then have "d \<in> set (drafts_of_kind s kind)" unfolding free_def by (auto dest!: head_opt_Some)
      then obtain i where i: "tab_at s i = Some (DraftTab d)" "dt_kind d = kind"
        unfolding drafts_of_kind_def set_map_filter case_draft_Some by (auto split: if_splits)
      have di: "dt_id d = i" using wf_mapD(1) [OF wf_coreD(2) [OF core] i(1)] by simp
      define s1 where "s1 = snd (if every_same (afterActive s i) (orderedTabIds s) then same_ref s
        else new_ref (s\<lparr>orderedTabIds := afterActive s i\<rparr>))"
      have w: "wf_state s1" unfolding s1_def using i by (intro reorder_old_wf [OF s]) simp
      have at: "tab_at s1 i = Some (DraftTab d)" using i by (simp add: s1_def)
      have el: "isEligible (scope s1) (DraftTab d)" using True i(2) by (simp add: s1_def isEligible_def)
      have sub: "set (keys_of s1) = set (keys_of s)" by (simp add: s1_def)
      have "state_good h n n s (snd (replaceChooser (snd (activate s1 i h)) (arg env ''replaceTabId'') i True h))"
        using finish_open_good [OF w at el, of True] sub by (intro state_good_same) simp_all
      with True Some di show ?thesis
        unfolding openDraft_def Let_def kind_def [symmetric] free_def [symmetric]
        by (cases "every_same (afterActive s i) (orderedTabIds s)")
          (simp_all add: snd_and_then s1_def plan_good_intros(8) del: and_then_simps(2,3))
    next
      case None
      define i where "i = newId h n"
      define t where "t = DraftTab \<lparr>dt_id = i, dt_kind = kind, dt_draftId = newId h (Suc n), dt_dirty = False,
        dt_submitting = False, dt_ordinal = foldl (\<lambda>m d. max m (dt_ordinal d)) 0 (drafts_of_kind s kind) + 1\<rparr>"
      define s1 where "s1 = (put_tab i t s)\<lparr>orderedTabIds := afterActive s i\<rparr>"
      have w: "wf_state s1"
        using add_tab_wf(1) [OF s f [folded i_def], of t] k by (simp add: s1_def t_def)
      have at: "tab_at s1 i = Some t" by (simp add: s1_def)
      have el: "isEligible (scope s1) t" using True by (simp add: s1_def isEligible_def t_def)
      have sub: "set (keys_of s1) \<subseteq> set (keys_of s) \<union> newId h ` {n..<Suc (Suc n)}"
        by (auto simp: s1_def keys_put_tab i_def)
      have "state_good h n (Suc (Suc n)) s (snd (replaceChooser (snd (activate s1 i h)) (arg env ''replaceTabId'') i True h))"
        using finish_open_good(1) [OF w at el, of True h "arg env ''replaceTabId''" True]
          subset_trans [OF finish_open_good(2) [OF w at el, of True h "arg env ''replaceTabId''" True] sub]
        by (simp add: state_good_def)
      with True None show ?thesis
        unfolding openDraft_def Let_def kind_def [symmetric] free_def [symmetric] i_def [symmetric] t_def [symmetric]
        by (simp add: snd_and_then s1_def plan_good_intros(8) del: and_then_simps(2,3))
    qed
  qed
qed

lemma draft_flags_wf:
  assumes s: "wf_state s" and at: "tab_at s i = Some (DraftTab d)"
    and d': "dt_id d' = dt_id d" "dt_kind d' = dt_kind d"
  shows "wf_state (put_tab i (DraftTab d') s)"
proof -
  have core: "wf_core s" using s by (simp add: wf_state_def)
  have "wf_core (put_tab i (DraftTab d') s)"
    using d' wf_mapD(1,2) [OF wf_coreD(2) [OF core] at] by (intro replace_tab_core [OF core at]) auto
  moreover have "active_ok (put_tab i (DraftTab d') s)"
    using d' s by (intro replace_tab_active [OF _ at]) (auto simp: wf_state_def isEligible_def)
  ultimately show ?thesis by (simp add: wf_state_def)
qed

lemma markDirty_good: "wf_state s \<Longrightarrow> plan_good h n s (markDirty s env, n)"
proof -
  assume s: "wf_state s"
  have own: "dt_id d = i" if "tab_at s i = Some (DraftTab d)" for i d
    using s wf_mapD(1) [of "tab_at s" i "DraftTab d"] that by (simp add: wf_state_def wf_coreD(2))
  have good: "state_good h n n s (put_tab (dt_id d) (DraftTab d') s)"
    if "tab_at s i = Some (DraftTab d)" "dt_id d' = dt_id d" "dt_kind d' = dt_kind d" for i d d'
    using draft_flags_wf [OF s that] own [OF that(1)] that(1) tab_at_keys [of i s]
    by (intro state_good_same) (auto simp: keys_put_tab)
  note good3 = good [of _ d "d\<lparr>dt_dirty := a, dt_submitting := b\<rparr>" for d a b, simplified]
    good [of _ d "d\<lparr>dt_dirty := a\<rparr>" for d a, simplified] good [of _ d "d\<lparr>dt_submitting := b\<rparr>" for d b, simplified]
  show ?thesis using s
    by (auto simp: markDirty_def Let_def intro!: wf_intros intro: good3 split: option.split tab.split)
qed

text \<open>The draft's record becomes the entity's tab, and an older tab on that entity goes.\<close>

lemma bind_state_wf:
  assumes s: "wf_state s" and at: "tab_at s i = Some (DraftTab d)" and e: "e \<noteq> []"
  shows "wf_state (bind_state s d e)" "set (keys_of (bind_state s d e)) \<subseteq> set (keys_of s)"
proof -
  have core: "wf_core s" using s by (simp add: wf_state_def)
  note c = wf_coreD [OF core]
  have di: "dt_id d = i" and kind: "isKindName (dt_kind d)" and ni: "i \<noteq> []"
    using wf_mapD [OF c(2) at] by simp_all
  define t where "t = bound_record d e (findEntityTab s (dt_kind d) e)"
  have t: "tab_id t = i" "tab_ok t" "unique_keys t = {EntityKey (dt_kind d) e}"
    using di kind e by (simp_all add: t_def bound_record_def)
  have elig: "isEligible sc t = isEligible sc (DraftTab d)" for sc
    by (simp add: t_def bound_record_def isEligible_def)
  have iK: "i \<in> set (keys_of s)" using at tab_at_keys [of i s] by simp
  show "wf_state (bind_state s d e)" "set (keys_of (bind_state s d e)) \<subseteq> set (keys_of s)"
  proof (atomize (full), cases "findEntityTab s (dt_kind d) e")
    case None
    have eq: "bind_state s d e = put_tab i t s" using None di by (simp add: bind_state_def Let_def t_def)
    have "wf_core (put_tab i t s)"
    proof (rule replace_tab_core [OF core at t(1,2)])
      show "x \<notin> unique_keys u" if "tab_at s j = Some u" "x \<in> unique_keys t" for j u x
      proof (cases u)
        case (EntityTab y)
        from findEntityTab_None [OF core None that(1) [unfolded EntityTab]] that(2) show ?thesis
          by (simp add: EntityTab t(3)) metis
      qed (use that(2) in \<open>simp_all add: t(3)\<close>)
    qed
    moreover have "active_ok (put_tab i t s)"
      using s by (intro replace_tab_active [OF _ at]) (simp_all add: wf_state_def elig)
    ultimately show "wf_state (bind_state s d e) \<and> set (keys_of (bind_state s d e)) \<subseteq> set (keys_of s)"
      using iK by (simp add: eq wf_state_def keys_put_tab)
  next
    case (Some y)
    define dup where "dup = et_id y"
    note y = findEntityTab_Some [OF core Some, folded dup_def]
    have ne: "dup \<noteq> i" using at y(1) by auto
    define s' where "s' = bind_state s d e"
    have ta: "tab_at s' j = (if j = dup then None else if j = i then Some t else tab_at s j)" for j
      using Some di by (simp add: s'_def bind_state_def Let_def t_def dup_def tab_at_def put_tab_def)
    have f: "orderedTabIds s' = filter (\<lambda>i. i \<noteq> dup) (orderedTabIds s)"
      "recency s' = uniq (map (\<lambda>j. if j = dup then i else j) (recency s))"
      "rememberedActive s' = map (\<lambda>(key, j). (key, if j = dup then i else j)) (rememberedActive s)"
      "presentation s' = (if presentation s = ShowTab dup then ShowTab i else presentation s)"
      "scope s' = scope s" "layout s' = layout s"
      using Some by (simp_all add: s'_def bind_state_def Let_def dup_def di cong: if_cong)
    have k: "set (keys_of s') = set (keys_of s) - {dup}"
      using ta ne iK by (auto simp: dom_tab_at [symmetric] tab_at_keys split: if_splits)
    have dk: "distinct (keys_of s')"
      using Some c(1) by (simp add: s'_def bind_state_def Let_def put_tab_def keys_of_def distinct_update distinct_delete)
    have m: "wf_map (tab_at s')"
    proof (rule wf_map_sub)
      show "wf_map (\<lambda>x. if x = i then Some t else (if x = dup then None else tab_at s x))"
      proof (rule wf_map_upd [OF _ t(1) ni t(2)])
        show "wf_map (\<lambda>x. if x = dup then None else tab_at s x)"
          by (rule wf_map_sub [OF c(2)]) (simp split: if_splits)
        show "x \<notin> unique_keys u"
          if "(if j = dup then None else tab_at s j) = Some u" "x \<in> unique_keys t" for j u x
          using that wf_map_unique [OF c(2) y(1), of j u x] t(3) y(2,3) by (auto split: if_splits)
      qed
    qed (use ta ne in \<open>auto split: if_splits\<close>)
    have core': "wf_core s'"
      using c dk m k iK ne by (auto simp: wf_core_alt f vals_map)
    have "active_ok s'"
    proof (cases "presentation s = ShowTab dup")
      case True
      have "isEligible sc (EntityTab y) = isEligible sc t" for sc
        using y(2) by (simp add: t_def bound_record_def isEligible_def)
      with True s y(1,2) ne show ?thesis
        by (auto simp: wf_state_def active_ok_def f ta)
    next
      case False
      with s at ne show ?thesis
        by (auto simp: wf_state_def active_ok_def f ta elig split: presentation.splits option.splits)
    qed
    with core' k show "wf_state (bind_state s d e) \<and> set (keys_of (bind_state s d e)) \<subseteq> set (keys_of s)"
      by (auto simp: wf_state_def s'_def [symmetric])
  qed
qed

lemma bind_draft_good: "wf_state s \<Longrightarrow> plan_good h n s (bind_draft s env h, n)"
proof -
  assume s: "wf_state s"
  define e where "e = str_of (arg env ''entityId'')"
  show ?thesis
  proof (cases "isNonEmptyString (arg env ''entityId'')")
    case True
    then have "e \<noteq> []" by (cases "arg env ''entityId''") (simp_all add: e_def)
    then have "state_good h n n s (bind_state s d e)" if "tab_at s i = Some (DraftTab d)" for i d
      using bind_state_wf [OF s that] by (simp add: state_good_same)
    then show ?thesis using s
      by (auto simp: bind_draft_def Let_def e_def [symmetric] intro!: wf_intros split: option.split tab.split)
  qed (simp add: bind_draft_def plan_good_intros)
qed

subsection \<open>Activating, closing, moving, painting\<close>

lemma activateTab_good: "wf_state s \<Longrightarrow> plan_good h n s (activateTab s env h, n)"
proof -
  assume s: "wf_state s"
  have core: "wf_core s" using s by (simp add: wf_state_def)
  have "state_good h n n s (snd (activate s (tab_id t) h))"
    if "tab_at s i = Some t" "isEligible (scope s) t" for i t
    using activate_wf [OF core that] wf_mapD(1) [OF wf_coreD(2) [OF core] that(1)] keys_activate [OF core]
    by (simp add: state_good_same)
  then show ?thesis by (auto simp: activateTab_def intro!: wf_intros split: option.split)
qed

lemma close_tab_good: "wf_state s \<Longrightarrow> plan_good h n s (close_tab s env h, n)"
  by (auto simp: close_tab_def Let_def intro!: wf_intros removal_good split: option.split tab.split)

lemma closeVisible_good: "wf_state s \<Longrightarrow> plan_good h n s (closeVisible s env h, n)"
  by (auto simp: closeVisible_def Let_def intro!: wf_intros removal_good)

lemma move_tab_good: "wf_state s \<Longrightarrow> plan_good h n s (move_tab s env, n)"
proof -
  assume s: "wf_state s"
  have core: "wf_core s" using s by (simp add: wf_state_def)
  have "state_good h n n s (s\<lparr>orderedTabIds := filter (\<lambda>i. i \<noteq> tid) (orderedTabIds s) @ [tid]\<rparr>)
      \<and> state_good h n n s (s\<lparr>orderedTabIds := insert_before b tid (filter (\<lambda>i. i \<noteq> tid) (orderedTabIds s))\<rparr>)"
    if "tab_at s tid = Some t" for tid t b
    using that wf_order_tab [OF core, of tid] wf_coreD(3) [OF core]
    by (auto intro!: state_good_same reorder_wf [OF s])
  then show ?thesis using s by (auto simp: move_tab_def Let_def intro!: wf_intros)
qed

lemma setUi_good: "wf_state s \<Longrightarrow> plan_good h n s (setUi s env, n)"
proof -
  assume s: "wf_state s"
  have core: "wf_core s" using s by (simp add: wf_state_def)
  have "state_good h n n s (put_tab (et_id e) (EntityTab (e\<lparr>et_ui := ui\<rparr>)) s)"
    if "tab_at s i = Some (EntityTab e)" for i e ui
    using put_same_shape_wf [OF s that, of "EntityTab (e\<lparr>et_ui := ui\<rparr>)"]
      wf_mapD(1) [OF wf_coreD(2) [OF core] that] that tab_at_keys [of i s]
    by (intro state_good_same) (auto simp: keys_put_tab)
  then show ?thesis using s
    by (auto simp: setUi_def Let_def intro!: wf_intros split: option.split tab.split)
qed

subsection \<open>Scope, browser, layout, rail\<close>

lemma list_all_set: "list_all P xs \<longleftrightarrow> (\<forall>x \<in> set xs. P x)"
  by (simp add: list_all_iff)

lemma sort_Nil: "sort xs = [] \<longleftrightarrow> xs = []"
  by (metis length_sort length_0_conv)

lemma uniq_Nil: "uniq xs = [] \<longleftrightarrow> xs = []"
  by (cases xs) simp_all

lemma plan_good_if:
  "plan_good h n s (a, n) \<Longrightarrow> plan_good h n s (b, n) \<Longrightarrow> plan_good h n s (if c then a else b, n)"
  "state_good h n n' s (snd x) \<Longrightarrow> state_good h n n' s (snd y) \<Longrightarrow> state_good h n n' s (snd (if c then x else y))"
  by simp_all

lemma requested_scope_ok:
  assumes "scope_ok sc" "requested_scope sc req = Inr sc'"
  shows "scope_ok sc'"
  using assms
  by (auto simp: requested_scope_def Let_def scope_ok_def scope_ids_def normalizeKinds_def list_all_set sort_Nil uniq_Nil
      split: scope_request.splits if_splits option.splits tab_scope.splits)

lemma scope_change_core: "wf_core s \<Longrightarrow> scope_ok sc \<Longrightarrow> wf_core (s\<lparr>scope := sc\<rparr>)"
  by (simp add: wf_core_alt)

lemma scope_next_good:
  assumes s: "wf_state s" and sc: "scope_ok sc"
  shows "state_good h n n s (snd (scope_next s sc h))"
proof -
  have "wf_core ((s\<lparr>scopeRepair := None\<rparr>)\<lparr>scope := sc\<rparr>)"
    using s by (intro scope_change_core [OF _ sc]) (simp add: wf_state_def)
  from resolveAfterScopeChange_wf [OF this, of h] keys_resolveAfterScopeChange [OF this, of h]
  have "state_good h n n s (snd (resolveAfterScopeChange (s\<lparr>scopeRepair := None, scope := sc\<rparr>) h))"
    by (intro state_good_same) simp_all
  moreover have "state_good h n n s (s\<lparr>scopeRepair := None\<rparr>)" using s by (intro state_good_same) simp_all
  moreover have "state_good h n n s s" using s by (rule state_good_refl)
  ultimately show ?thesis by (simp add: scope_next_def Let_def)
qed

lemma applyScope_good: "wf_state s \<Longrightarrow> plan_good h n s (applyScope s req h, n)"
  using requested_scope_ok [of "scope s" req] scope_next_good [of s]
  by (auto simp: applyScope_def wf_state_def wf_coreD(8) intro!: wf_intros split: sum.split)

lemma setScope_good: "wf_state s \<Longrightarrow> plan_good h n s (setScope s env h, n)"
  by (auto simp: setScope_def intro!: wf_intros applyScope_good split: jsval.split)

lemma setBrowser_good: "wf_state s \<Longrightarrow> plan_good h n s (setBrowser s env, n)"
  unfolding setBrowser_def Let_def by (intro plan_good_if wf_intros state_good_same) simp_all

lemma setRail_good: "wf_state s \<Longrightarrow> plan_good h n s (setRail s env, n)"
  unfolding setRail_def Let_def by (intro plan_good_if wf_intros state_good_same) simp_all

lemma layout_wf: "wf_state s \<Longrightarrow> layout_ok l \<Longrightarrow> wf_state (s\<lparr>layout := l\<rparr>)"
  by (simp add: wf_state_def wf_core_alt)

lemma setLayout_good: "wf_state s \<Longrightarrow> plan_good h n s (setLayout s env, n)"
proof -
  assume s: "wf_state s"
  have b: "b_min BROWSER_BOUNDS \<le> b_max BROWSER_BOUNDS" "b_min CHAT_BOUNDS \<le> b_max CHAT_BOUNDS"
    by (simp_all add: BROWSER_BOUNDS_def CHAT_BOUNDS_def)
  have "layout_ok (layout s)" using s wf_coreD(9) by (simp add: wf_state_def)
  then show ?thesis
    using s clamp_round_bounds [OF b(1)] clamp_round_bounds [OF b(2)]
    unfolding setLayout_def Let_def
    by (intro plan_good_if wf_intros state_good_same layout_wf) (simp_all add: layout_ok_def layout_wf)
qed

subsection \<open>Resolving and the whole reducer\<close>

lemma state_good_pending [simp]: "state_good h n n' (s\<lparr>pending := p\<rparr>) s' = state_good h n n' s s'"
  by (simp add: state_good_def)

lemma plan_good_pending [simp]: "plan_good h n (s\<lparr>pending := p\<rparr>) pl = plan_good h n s pl"
  by (simp add: plan_good_def split: plan.split)

lemma resolve_good:
  assumes s: "wf_state s"
  shows "plan_good h n s (resolve s env h, n)"
proof -
  have c: "wf_state (s\<lparr>pending := None\<rparr>)" using s by simp
  have keep: "state_good h n n s (s\<lparr>pending := None\<rparr>)" using c by (intro state_good_same) simp_all
  have discard: "state_good h n n s (snd (fst (removeTabs (s\<lparr>pending := None\<rparr>) ids h)))" for ids
    using removal_good [OF c, of h n ids] by simp
  have replay: "plan_good h n s
      (case applyScope (s\<lparr>pending := None\<rparr>) req h of
         Commit nx _ _ _ \<Rightarrow> Replay (snd nx) env' [] | other \<Rightarrow> other, n)" for req env'
    using applyScope_good [OF c, of h n req] by (auto simp: plan_good_def split: plan.split)
  show ?thesis
    unfolding resolve_def Let_def
    by (auto intro!: plan_good_if wf_intros keep discard replay split: option.split)
qed

text \<open>Every command plans well on a well-formed state whose next id is unused.\<close>

theorem PLANNERS_good:
  assumes "wf_state s" "fresh_id s (newId h n)"
  shows "plan_good h n s (PLANNERS c s env h n)"
  using assms
  by (cases c)
    (simp_all add: PLANNERS_def plan_good_intros setBrowser_good setScope_good open_tab_good activateTab_good
      close_tab_good closeVisible_good move_tab_good setUi_good openDraft_good markDirty_good bind_draft_good
      openChooser_good setLayout_good resolve_good setRail_good openFile_good,
     auto simp: openDialog_def closeDialog_def setView_def intro!: plan_good_if plan_good_intros split: option.split)

lemma commit_state_good:
  assumes "state_good h n n' s (snd nx)" "wf_state s"
  shows "state_good h n n' s (commit_state s nx sg)"
  using assms by (simp add: commit_state_def state_good_def)

lemma state_good_trans:
  "state_good h n n' s s1 \<Longrightarrow> state_good h n' n'' s1 s2 \<Longrightarrow> state_good h n n'' s s2"
  unfolding state_good_def
  by (auto simp: subset_iff image_iff) (meson atLeastLessThan_iff le_trans order_less_le_trans)

text \<open>The reducer, one equation for each way a command can go.\<close>

lemma reduce_refused: "refusal s env h replay = Some r \<Longrightarrow> reduce s env h replay n = (rejected s r, n)"
  by (subst reduce.simps) simp

lemma reduce_conflict:
  "refusal s env h replay = None \<Longrightarrow> revision_conflict s env \<Longrightarrow> reduce s env h replay n =
    (\<lparr>rd_state = s, rd_result = (plain_result Conflict (revision s))\<lparr>res_reason := Some RevisionConflict\<rparr>,
       rd_commits = []\<rparr>, n)"
  by (subst reduce.simps) simp

definition admitted :: "wstate \<Rightarrow> envelope \<Rightarrow> hooks \<Rightarrow> bool \<Rightarrow> nat \<Rightarrow> plan \<Rightarrow> nat \<Rightarrow> bool" where
  "admitted s env h replay n pl n' \<longleftrightarrow> refusal s env h replay = None \<and> \<not> revision_conflict s env
     \<and> PLANNERS (command env) s env h n = (pl, n')"

lemma reduce_Reject: "admitted s env h replay n (Reject r) n' \<Longrightarrow> reduce s env h replay n = (rejected s r, n')"
  by (subst reduce.simps) (simp add: admitted_def)

lemma reduce_PInspect: "admitted s env h replay n PInspect n' \<Longrightarrow> reduce s env h replay n =
    (\<lparr>rd_state = s, rd_result = (plain_result NoOp (revision s))\<lparr>res_inspection := Some (inspect s)\<rparr>,
       rd_commits = []\<rparr>, n')"
  by (subst reduce.simps) (simp add: admitted_def)

lemma reduce_External: "admitted s env h replay n (External res) n' \<Longrightarrow> reduce s env h replay n =
    (\<lparr>rd_state = s, rd_result = res\<lparr>res_revision := revision s\<rparr>, rd_commits = []\<rparr>, n')"
  by (subst reduce.simps) (simp add: admitted_def)

lemma reduce_Choice: "admitted s env h replay n (Choice c) n' \<Longrightarrow> reduce s env h replay n =
    (if pending s \<noteq> None then (rejected s Busy, n')
     else if replay then (rejected s (NeedsChoice (c_reason c)), n')
     else (commit env s (new_ref (s\<lparr>pending := Some (pending_of c (newId h n') env s)\<rparr>)) True
             ((plain_result RequiresUserChoice 0)\<lparr>res_reason := Some (NeedsChoice (c_reason c)),
                res_pendingId := Some (newId h n'), res_choices := Some (c_choices c)\<rparr>) [], Suc n'))"
  by (subst reduce.simps) (simp add: admitted_def Let_def pending_of_def)

lemma reduce_Commit: "admitted s env h replay n (Commit nx cr sg after) n' \<Longrightarrow> reduce s env h replay n =
    (commit env s nx sg ((plain_result (cr_status cr) 0)\<lparr>res_tabId := cr_tabId cr, res_outcome := cr_outcome cr\<rparr>) after, n')"
  by (subst reduce.simps) (simp add: admitted_def)

lemma reduce_Replay: "admitted s env h replay n (Replay nx env' after) n' \<Longrightarrow> reduce s env h replay n =
    (let first = commit env s (new_ref nx) True (plain_result Applied 0) after;
         second = reduce (rd_state first) env' h True n'
     in (\<lparr>rd_state = rd_state (fst second), rd_result = rd_result (fst second),
          rd_commits = rd_commits first @ rd_commits (fst second)\<rparr>, snd second))"
  by (subst reduce.simps) (simp add: admitted_def Let_def)

lemmas reduce_plans = reduce_Reject reduce_PInspect reduce_External reduce_Choice reduce_Commit

text \<open>
  A command is refused, conflicts, plans without replay, or resolves an interaction and replays
  the stored command from a state with none pending, which cannot replay again.
\<close>

lemma reduce_cases [case_names refused conflict plan replay]:
  assumes "\<And>r. refusal s env h replay = Some r \<Longrightarrow> thesis"
    and "refusal s env h replay = None \<Longrightarrow> revision_conflict s env \<Longrightarrow> thesis"
    and "\<And>pl n'. admitted s env h replay n pl n' \<Longrightarrow> (\<And>nx env' after. pl \<noteq> Replay nx env' after) \<Longrightarrow> thesis"
    and "\<And>nx env' n'. admitted s env h replay n (Replay nx env' []) n' \<Longrightarrow>
       command env = CInteractionsResolve \<Longrightarrow> pending s \<noteq> None \<Longrightarrow> pending nx = None \<Longrightarrow> thesis"
  shows thesis
proof (cases "refusal s env h replay")
  case None
  show ?thesis
  proof (cases "revision_conflict s env")
    case False
    obtain pl n' where pl: "PLANNERS (command env) s env h n = (pl, n')" by (cases "PLANNERS (command env) s env h n")
    with None False have adm: "admitted s env h replay n pl n'" by (simp add: admitted_def)
    show ?thesis
    proof (cases "\<exists>nx env' after. pl = Replay nx env' after")
      case True
      then obtain nx env' after where r: "pl = Replay nx env' after" by blast
      with only_resolve_replays [of "command env" s env h n nx env' after] pl adm show ?thesis
        by (intro assms(4)) auto
    qed (use assms(3) [OF adm] in blast)
  qed (use None assms(2) in blast)
qed (use assms(1) in blast)

lemma replay_state:
  "rd_state (commit env s (new_ref nx) True res after) = nx\<lparr>revision := revision s + 1\<rparr>"
  by (simp add: commit_def commit_state_def Let_def)

lemma admitted_good:
  assumes "wf_state s" "fresh_id s (newId h n)" "admitted s env h replay n pl n'"
  shows "plan_good h n s (pl, n')"
  using PLANNERS_good [OF assms(1,2), of "command env" env] assms(3) by (simp add: admitted_def)

definition supply_ok :: "hooks \<Rightarrow> nat \<Rightarrow> wstate \<Rightarrow> bool" where
  "supply_ok h n s \<longleftrightarrow> inj (newId h) \<and> (\<forall>k\<ge>n. fresh_id s (newId h k))"

lemma supply_step:
  assumes "supply_ok h n s" "state_good h n n' s s'"
  shows "supply_ok h n' s'"
proof -
  have inj: "inj (newId h)" using assms(1) by (simp add: supply_ok_def)
  have "fresh_id s' (newId h k)" if "n' \<le> k" for k
  proof -
    have "fresh_id s (newId h k)" using assms that by (auto simp: supply_ok_def state_good_def)
    then have ne: "newId h k \<noteq> []" "newId h k \<notin> set (keys_of s)"
      by (auto simp: fresh_id_def tab_at_keys)
    have "newId h k \<notin> newId h ` {n..<n'}" using inj that by (auto dest: injD)
    with ne assms(2) have "newId h k \<notin> set (keys_of s')" by (auto simp: state_good_def)
    with ne show ?thesis by (simp add: fresh_id_def tab_at_keys)
  qed
  with inj show ?thesis by (simp add: supply_ok_def)
qed

lemma reduce_plan_good:
  assumes s: "wf_state s" "fresh_id s (newId h n)" and adm: "admitted s env h replay n pl n'"
    and nr: "\<And>nx env' after. pl \<noteq> Replay nx env' after"
  shows "state_good h n (snd (reduce s env h replay n)) s (rd_state (fst (reduce s env h replay n)))"
proof -
  note good = admitted_good [OF s adm]
  then have le: "n \<le> n'" by (simp add: plan_good_def)
  have self: "state_good h n n' s s" "state_good h n (Suc n') s s" using s(1) le by (auto simp: state_good_def)
  show ?thesis
  proof (cases pl)
    case (Commit nx cr sg after)
    with good have "state_good h n n' s (commit_state s nx sg)"
      using commit_state_good [of h n n' s nx sg] s(1) by (simp add: plan_good_def)
    with adm Commit show ?thesis by (simp add: reduce_Commit commit_def Let_def)
  next
    case (Choice c)
    have "state_good h n (Suc n') s (commit_state s (new_ref (s\<lparr>pending := p\<rparr>)) True)" for p
      using s(1) self(2) by (auto simp: commit_state_def state_good_def)
    with adm Choice self show ?thesis by (simp add: reduce_Choice commit_def rejected_def Let_def)
  qed (use adm self nr in \<open>auto simp: reduce_plans rejected_def\<close>)
qed

theorem reduce_good:
  assumes "wf_state s" "supply_ok h n s"
  shows "state_good h n (snd (reduce s env h replay n)) s (rd_state (fst (reduce s env h replay n)))"
  using assms
proof (induction "if pending s = None then 0 else 1 :: nat" arbitrary: s env replay n rule: less_induct)
  case less
  have f: "fresh_id s (newId h n)" using less.prems by (simp add: supply_ok_def)
  show ?case
  proof (cases rule: reduce_cases [where s = s and env = env and h = h and replay = replay and n = n])
    case (replay nx env' n')
    define s1 where "s1 = nx\<lparr>revision := revision s + 1\<rparr>"
    have "state_good h n n' s s1"
      using admitted_good [OF less.prems(1) f replay(1)] by (simp add: plan_good_def s1_def state_good_def)
    moreover from this have "state_good h n' (snd (reduce s1 env' h True n')) s1 (rd_state (fst (reduce s1 env' h True n')))"
      using replay(3,4) supply_step [OF less.prems(2)]
      by (intro less.hyps) (auto simp: s1_def state_good_def)
    ultimately have "state_good h n (snd (reduce s1 env' h True n')) s (rd_state (fst (reduce s1 env' h True n')))"
      by (rule state_good_trans)
    with replay(1) show ?thesis by (simp add: reduce_Replay Let_def replay_state s1_def)
  qed (use less.prems f in \<open>auto simp: reduce_refused reduce_conflict rejected_def state_good_refl intro: reduce_plan_good\<close>)
qed

end
