(* ===== verification/WsDrafts.thy ===== *)
theory WsDrafts
  imports WsPreserve
begin

text \<open>
  What the commands leave alone: a draft tab survives every operation that does not name it, so a
  draft with unsaved changes is only lost to a user's own decision.
\<close>

definition own_ids :: "wstate \<Rightarrow> bool" where
  "own_ids s \<longleftrightarrow> (\<forall>i t. tab_at s i = Some t \<longrightarrow> tab_id t = i)"

definition has_draft :: "string \<Rightarrow> draft_tab \<Rightarrow> wstate \<Rightarrow> bool" where
  "has_draft i d s \<longleftrightarrow> own_ids s \<and> tab_at s i = Some (DraftTab d)"

named_theorems kept \<open>operations that keep a draft\<close>

lemma wf_own_ids: "wf_state s \<Longrightarrow> own_ids s"
  using wf_mapD(1) wf_coreD(2) unfolding own_ids_def wf_state_def by blast

lemma has_draft_other [simp]:
  "has_draft i d (s\<lparr>presentation := p\<rparr>) = has_draft i d s" "has_draft i d (s\<lparr>recency := r\<rparr>) = has_draft i d s"
  "has_draft i d (s\<lparr>rememberedActive := ra\<rparr>) = has_draft i d s" "has_draft i d (s\<lparr>orderedTabIds := oi\<rparr>) = has_draft i d s"
  "has_draft i d (s\<lparr>scope := sc\<rparr>) = has_draft i d s" "has_draft i d (s\<lparr>layout := l\<rparr>) = has_draft i d s"
  "has_draft i d (s\<lparr>pending := pe\<rparr>) = has_draft i d s" "has_draft i d (s\<lparr>revision := re\<rparr>) = has_draft i d s"
  "has_draft i d (s\<lparr>scopeRepair := sr\<rparr>) = has_draft i d s" "has_draft i d (s\<lparr>rail := ra'\<rparr>) = has_draft i d s"
  "has_draft i d (s\<lparr>browserMain := bm\<rparr>) = has_draft i d s"
  by (simp_all add: has_draft_def own_ids_def)

lemma has_draft_tab:
  assumes "has_draft i d s" "tab_at s j = Some t"
  shows "tab_id t = i \<Longrightarrow> t = DraftTab d" "tab_id t = j"
  using assms by (auto simp: has_draft_def own_ids_def)

lemma has_draft_neq:
  assumes "has_draft i d s"
  shows "tab_at s j = Some (EntityTab e) \<Longrightarrow> et_id e \<noteq> i" "tab_at s j = Some (FileTab f) \<Longrightarrow> ft_id f \<noteq> i"
    "tab_at s j = Some (ChooserTab c) \<Longrightarrow> ct_id c \<noteq> i" "tab_at s j = Some (DraftTab x) \<Longrightarrow> dt_id x = i \<Longrightarrow> x = d"
  using has_draft_tab(1) [OF assms, of j] by fastforce+

lemma has_draft_put [kept]:
  "has_draft i d s \<Longrightarrow> tab_id t = j \<Longrightarrow> j \<noteq> i \<Longrightarrow> has_draft i d (put_tab j t s)"
  by (auto simp: has_draft_def own_ids_def)

lemma has_draft_capture [kept]: "has_draft i d s \<Longrightarrow> has_draft i d (s\<lparr>tabs := captureOutgoing s h\<rparr>)"
proof -
  assume d: "has_draft i d s"
  have "has_draft i d (s\<lparr>tabs := AList.update (et_id e) (EntityTab (e\<lparr>et_ui := u\<rparr>)) (tabs s)\<rparr>)"
    if "tab_at s j = Some (EntityTab e)" for j e u
    using has_draft_put [OF d, of "EntityTab (e\<lparr>et_ui := u\<rparr>)" "et_id e"] has_draft_neq(1) [OF d that]
    by (simp add: put_tab_def)
  with d show ?thesis
    by (auto simp: captureOutgoing_def split: presentation.split option.split tab.split)
qed

lemma has_draft_tabs_cong: "tabs s = tabs s' \<Longrightarrow> has_draft i d s = has_draft i d s'"
  by (simp add: has_draft_def own_ids_def tab_at_def)

lemma has_draft_capture_with:
  "has_draft i d s \<Longrightarrow> tabs s' = captureOutgoing s h \<Longrightarrow> has_draft i d s'"
  using has_draft_capture [of i d s h] has_draft_tabs_cong [of s' "s\<lparr>tabs := captureOutgoing s h\<rparr>"] by simp

lemma has_draft_activate [kept]: "has_draft i d s \<Longrightarrow> has_draft i d (snd (activate s j h))"
  by (auto simp: activate_def intro: has_draft_capture_with)

lemma has_draft_showStart [kept]: "has_draft i d s \<Longrightarrow> has_draft i d (snd (showStart s h))"
  by (auto simp: showStart_def intro: has_draft_capture_with)

lemma has_draft_resolveAfterScopeChange [kept]:
  "has_draft i d s \<Longrightarrow> has_draft i d (snd (resolveAfterScopeChange s h))"
  by (auto simp: resolveAfterScopeChange_def activate_pick_def intro: has_draft_activate has_draft_showStart
      split: presentation.splits option.splits)

lemma has_draft_drop: "has_draft i d s \<Longrightarrow> i \<notin> set ds \<Longrightarrow> has_draft i d (drop_tabs s ds)"
  by (auto simp: has_draft_def own_ids_def drop_tabs_tab_at)

lemma has_draft_removeTabs [kept]:
  "has_draft i d s \<Longrightarrow> i \<notin> set ids \<Longrightarrow> has_draft i d (snd (fst (removeTabs s ids h)))"
  using has_draft_drop [of i d s "doomed_ids s ids"]
  by (auto simp: removeTabs_def Let_def doomed_ids_def intro!: has_draft_activate
      split: presentation.split option.split)

lemma has_draft_replaceChooser [kept]:
  assumes "has_draft i d s"
  shows "has_draft i d (snd (replaceChooser s c j tp h))"
proof (cases c)
  case (JStr b)
  have "b = i \<Longrightarrow> \<not> is_chooser s b" using assms by (simp add: has_draft_def is_chooser_def)
  with assms JStr show ?thesis
    by (auto simp: replaceChooser_def Let_def intro!: has_draft_removeTabs)
qed (use assms in \<open>simp_all add: replaceChooser_def\<close>)

subsection \<open>Plans that keep a draft\<close>

definition draft_kept :: "string \<Rightarrow> draft_tab \<Rightarrow> plan \<Rightarrow> bool" where
  "draft_kept i d pl \<longleftrightarrow> (case pl of
      Commit nx _ _ _ \<Rightarrow> has_draft i d (snd nx)
    | Replay nx _ _ \<Rightarrow> has_draft i d nx
    | _ \<Rightarrow> True)"

lemma draft_kept_simps [simp]:
  "draft_kept i d (Reject r)" "draft_kept i d (Choice c)" "draft_kept i d PInspect" "draft_kept i d (External res)"
  "draft_kept i d (scope_choice k)"
  "draft_kept i d (Commit nx cr sg af) = has_draft i d (snd nx)"
  "draft_kept i d (plain_commit nx) = has_draft i d (snd nx)"
  "draft_kept i d (commit_tab nx j oc af) = has_draft i d (snd nx)"
  "draft_kept i d (no_op_commit s) = has_draft i d s"
  "draft_kept i d (Replay s env' af) = has_draft i d s"
  by (simp_all add: draft_kept_def scope_choice_def plain_commit_def commit_tab_def no_op_commit_def)

lemma has_draft_if: "has_draft i d a \<Longrightarrow> has_draft i d b \<Longrightarrow> has_draft i d (if c then a else b)"
  "has_draft i d (snd x) \<Longrightarrow> has_draft i d (snd y) \<Longrightarrow> has_draft i d (snd (if c then x else y))"
  by simp_all

lemma open_tab_kept:
  assumes d: "has_draft i d s" and f: "fresh_id s (newId h n)"
  shows "draft_kept i d (fst (open_tab s env h n))"
proof -
  have ne: "newId h n \<noteq> i" using assms by (auto simp: has_draft_def fresh_id_def)
  have new: "has_draft i d (snd (open_new s (newId h n) k e env ct h))" for k e ct
    unfolding open_new_def Let_def
    using ne d by (auto simp: snd_and_then simp del: spread.simps intro!: kept)
  have old: "has_draft i d (snd (open_existing s x env ct h))" if fnd: "findEntityTab s k e = Some x" for x k e ct
  proof -
    obtain j where "tab_at s j = Some (EntityTab x)"
      using fnd findEntityIn_Some unfolding findEntityTab_def by blast
    then have "et_id x \<noteq> i" by (rule has_draft_neq(1) [OF d])
    then show ?thesis unfolding open_existing_def Let_def
      using d by (auto simp: snd_and_then intro!: kept)
  qed
  show ?thesis using new old by (simp add: open_tab_def Let_def split: option.split)
qed

lemma openFile_kept:
  assumes d: "has_draft i d s" and f: "fresh_id s (newId h n)"
  shows "draft_kept i d (fst (openFile s env h n))"
proof -
  have ne: "newId h n \<noteq> i" using assms by (auto simp: has_draft_def fresh_id_def)
  have found: "ft_id x \<noteq> i" if fnd: "findFileIn s p (orderedTabIds s) = Some x" for p x
  proof -
    obtain j where "tab_at s j = Some (FileTab x)" using findFileIn_Some [OF fnd] by blast
    then show ?thesis by (rule has_draft_neq(2) [OF d])
  qed
  have found': "findFileTab s p q = Some x \<Longrightarrow> ft_id x \<noteq> i" "findPreviewFileTab s = Some x \<Longrightarrow> ft_id x \<noteq> i" for p q x
    using found by (auto simp: findFileTab_def findPreviewFileTab_def)
  show ?thesis using ne found' d
    unfolding openFile_def Let_def
    by (auto simp: snd_and_then intro!: kept split: option.splits)
qed

lemma openChooser_kept:
  assumes d: "has_draft i d s" and f: "fresh_id s (newId h n)"
  shows "draft_kept i d (fst (openChooser s h n))"
proof -
  have ne: "newId h n \<noteq> i" using assms by (auto simp: has_draft_def fresh_id_def)
  then show ?thesis using d unfolding openChooser_def Let_def
    by (auto simp: snd_and_then intro!: kept split: option.split)
qed

lemma openDraft_kept:
  assumes d: "has_draft i d s" and f: "fresh_id s (newId h n)"
  shows "draft_kept i d (fst (openDraft s env h n))"
proof -
  have ne: "newId h n \<noteq> i" using assms by (auto simp: has_draft_def fresh_id_def)
  then show ?thesis using d unfolding openDraft_def Let_def
    by (auto simp: snd_and_then intro!: kept split: option.split)
qed

lemma setUi_kept: "has_draft i d s \<Longrightarrow> draft_kept i d (setUi s env)"
  by (auto simp: setUi_def Let_def intro!: has_draft_put dest: has_draft_neq(1) split: option.split tab.split)

lemma applyScope_kept: "has_draft i d s \<Longrightarrow> draft_kept i d (applyScope s req h)"
  by (auto simp: applyScope_def scope_next_def Let_def intro!: kept split: sum.split)

text \<open>The ways a user's own decision may drop or change a draft.\<close>

definition user_decides :: "envelope \<Rightarrow> bool" where
  "user_decides env \<longleftrightarrow> command env \<in> set [CInteractionsResolve, CDraftsBind, CDraftsMarkDirty]
     \<or> command env = CTabsClose \<and> source env \<in> set UI_SOURCES \<and> arg env ''discard'' = JBool True"

lemma PLANNERS_kept:
  assumes d: "has_draft i d s" and f: "fresh_id s (newId h n)" and dirty: "dt_dirty d"
    and u: "\<not> user_decides env"
  shows "draft_kept i d (fst (PLANNERS (command env) s env h n))"
proof (cases "command env")
  case CTabsClose
  with u have nd: "\<not> (arg env ''discard'' = JBool True \<and> source env \<in> set UI_SOURCES)"
    by (auto simp: user_decides_def)
  have gone: "has_draft i d (snd (fst (removeTabs s [tab_id t] h)))"
    if "tab_at s j = Some t" "t \<noteq> DraftTab d" for j t
    using has_draft_tab(1) [OF d that(1)] that(2) d by (auto intro!: has_draft_removeTabs)
  have "draft_kept i d (close_tab s env h)"
  proof (cases "tab_at s (str_of (arg env ''tabId''))")
    case (Some t)
    show ?thesis
    proof (cases "t = DraftTab d")
      case True
      with Some nd d dirty show ?thesis by (simp add: close_tab_def Let_def)
    next
      case False
      from gone [OF Some this] show ?thesis
        by (cases t) (simp_all add: close_tab_def Let_def Some)
    qed
  qed (use d in \<open>simp add: close_tab_def\<close>)
  with CTabsClose show ?thesis by (simp add: PLANNERS_def)
next
  case CTabsCloseVisible
  have "is_dirty_draft s i" using d dirty by (simp add: is_dirty_draft_def has_draft_def)
  then have "filter (is_dirty_draft s) ids = [] \<Longrightarrow> has_draft i d (snd (fst (removeTabs s ids h)))" for ids
    using has_draft_removeTabs [OF d, of ids h] by (auto simp: filter_empty_conv)
  then show ?thesis using d CTabsCloseVisible unfolding PLANNERS_def closeVisible_def Let_def
    by (simp del: filter_filter)
next
  case CTabsActivate
  then show ?thesis using d by (auto simp: PLANNERS_def activateTab_def intro!: kept split: option.split)
next
  case CTabScopeSet
  then show ?thesis using d by (auto simp: PLANNERS_def setScope_def applyScope_kept split: jsval.split)
next
  case CBrowserSet
  then show ?thesis using d by (simp add: PLANNERS_def setBrowser_def Let_def)
next
  case CLayoutSet
  then show ?thesis using d by (simp add: PLANNERS_def setLayout_def Let_def)
next
  case CRailSet
  then show ?thesis using d by (simp add: PLANNERS_def setRail_def Let_def)
next
  case CTabsMove
  then show ?thesis using d by (simp add: PLANNERS_def move_tab_def Let_def)
qed (use u d f in \<open>simp_all add: PLANNERS_def user_decides_def open_tab_kept openFile_kept openChooser_kept
      openDraft_kept setUi_kept openDialog_def closeDialog_def setView_def split: option.split\<close>)

text \<open>A draft with unsaved changes survives every command but a user's decision about it.\<close>

lemma dirty_draft_kept:
  assumes s: "wf_state s" "fresh_id s (newId h n)" and d: "tab_at s i = Some (DraftTab d)" "dt_dirty d"
    and u: "\<not> user_decides env"
  shows "tab_at (rd_state (fst (reduce s env h replay n))) i = Some (DraftTab d)"
proof -
  have hd: "has_draft i d s" using d wf_own_ids [OF s(1)] by (simp add: has_draft_def)
  show ?thesis
  proof (cases rule: reduce_cases [where s = s and env = env and h = h and replay = replay and n = n])
    case (plan pl n')
    have "draft_kept i d pl"
      using PLANNERS_kept [OF hd s(2) d(2) u] plan(1) by (simp add: admitted_def)
    then show ?thesis using plan d(1)
      by (cases pl) (auto simp: reduce_plans rejected_def commit_def commit_state_def Let_def has_draft_def)
  qed (use d u in \<open>auto simp: reduce_refused reduce_conflict rejected_def user_decides_def\<close>)
qed

end
