(* ===== verification/WsStored.thy ===== *)
theory WsStored
  imports WsPreserve
begin

text \<open>
  The stored workspace (\<open>workspace/stored.ts\<close>): the initial state, what the node keeps of a
  state, how a window lays its own presentation and scroll over a shared state, and the defensive
  copy of an untrusted state.
\<close>

definition WORKSPACE_TAB_HARD_CAP :: nat where
  "WORKSPACE_TAB_HARD_CAP = 50"

definition DEFAULT_BROWSER_KIND :: string where
  "DEFAULT_BROWSER_KIND = ''task''"

definition defaultWorkspaceState :: "string \<Rightarrow> string \<Rightarrow> string \<Rightarrow> wstate" where
  "defaultWorkspaceState sid viewer window =
     \<lparr>revision = 0, spaceId = sid, viewerId = viewer, windowId = window, orderedTabIds = [], tabs = [],
      presentation = Start, scope = Mixed [], recency = [], rememberedActive = [],
      layout = \<lparr>l_expanded = False, l_browserWidth = b_initial BROWSER_BOUNDS, l_chatWidth = b_initial CHAT_BOUNDS\<rparr>,
      browserMain = \<lparr>bs_kind = DEFAULT_BROWSER_KIND, bs_perKind = [(DEFAULT_BROWSER_KIND, EMPTY_BROWSER_KIND_STATE)]\<rparr>,
      pending = None, scopeRepair = None, rail = None\<rparr>"

subsection \<open>What the node keeps\<close>

definition untitled :: "jsval \<Rightarrow> jsval" where
  "untitled c = JObj (spread (obj_of c) [(''title'', JStr [])])"

definition stored_ui :: "jsobj \<Rightarrow> jsobj" where
  "stored_ui ui0 =
     (let ui = AList.delete ''scrollTop'' ui0 in
      case oget ui ''trail'' of
        JArr cs \<Rightarrow> spread ui [(''trail'', JArr (map untitled cs))]
      | _ \<Rightarrow> ui)"

definition stored_tab :: "tab \<Rightarrow> tab" where
  "stored_tab t = (case t of EntityTab e \<Rightarrow> EntityTab (e\<lparr>et_ui := stored_ui (et_ui e)\<rparr>) | _ \<Rightarrow> t)"

definition toStoredState :: "wstate \<Rightarrow> wstate" where
  "toStoredState s = s\<lparr>viewerId := [], windowId := [], tabs := map (\<lambda>(i, t). (i, stored_tab t)) (tabs s)\<rparr>"

subsection \<open>A window over the stored state\<close>

definition usable_in :: "wstate \<Rightarrow> string \<Rightarrow> bool" where
  "usable_in s i \<longleftrightarrow> i \<noteq> [] \<and> (case tab_at s i of None \<Rightarrow> False | Some t \<Rightarrow> isEligible (scope s) t)"

definition window_fallback :: "wstate \<Rightarrow> string \<Rightarrow> string list \<Rightarrow> presentation" where
  "window_fallback s w previousOrder = (case find (usable_in s) (recency s) of
      Some r \<Rightarrow> ShowTab r
    | None \<Rightarrow>
        let pos = (case index_of previousOrder w of None \<Rightarrow> 0 | Some i \<Rightarrow> i);
            visible = filter (usable_in s) (orderedTabIds s)
        in (case visible of
              [] \<Rightarrow> Start
            | v # _ \<Rightarrow>
                (case find (\<lambda>i. i \<in> set visible) (rev (take pos previousOrder)) of
                   Some b \<Rightarrow> ShowTab b
                 | None \<Rightarrow> ShowTab v)))"

definition windowPresentation :: "wstate \<Rightarrow> presentation \<Rightarrow> string list \<Rightarrow> presentation" where
  "windowPresentation s wanted previousOrder = (case wanted of
      Start \<Rightarrow> Start
    | ShowTab w \<Rightarrow>
        if usable_in s w then wanted
        else (case map_of (rememberedActive s) (scopeKey (scope s)) of
            Some r \<Rightarrow> if usable_in s r then ShowTab r else window_fallback s w previousOrder
          | None \<Rightarrow> window_fallback s w previousOrder))"

definition overlay_tab :: "wstate \<Rightarrow> string \<Rightarrow> tab \<Rightarrow> tab" where
  "overlay_tab loc i t = (case (t, tab_at loc i) of
      (EntityTab e, Some (EntityTab mine)) \<Rightarrow>
        if oget (et_ui mine) ''scrollTop'' \<noteq> JUndef
        then EntityTab (e\<lparr>et_ui := spread (et_ui e) [(''scrollTop'', oget (et_ui mine) ''scrollTop'')]\<rparr>)
        else t
    | _ \<Rightarrow> t)"

definition overlayWindow :: "wstate \<Rightarrow> wstate \<Rightarrow> wstate" where
  "overlayWindow stored loc =
     (let base = stored\<lparr>viewerId := viewerId loc, windowId := windowId loc,
                        tabs := map (\<lambda>(i, t). (i, overlay_tab loc i t)) (tabs stored)\<rparr>
      in base\<lparr>presentation := windowPresentation base (presentation loc) (orderedTabIds loc)\<rparr>)"

subsection \<open>Sanitizing an untrusted state\<close>

fun str_in :: "nat \<Rightarrow> jsval \<Rightarrow> bool" where
  "str_in m (JStr s) = (s \<noteq> [] \<and> length s \<le> m)"
| "str_in m _ = False"

definition clean_crumb :: "jsval \<Rightarrow> jsval" where
  "clean_crumb c = JObj [(''entityId'', jget c ''entityId''), (''kind'', jget c ''kind''), (''title'', JStr [])]"

definition clean_chat :: "jsval \<Rightarrow> jsobj" where
  "clean_chat chat =
     [(''open'', jget chat ''open'')]
     @ (if isFiniteNumber (jget chat ''width'') then [(''width'', jget chat ''width'')] else [])
     @ (if str_in 200 (jget chat ''threadId'') then [(''threadId'', jget chat ''threadId'')] else [])
     @ (if isSection (jget chat ''section'') then [(''section'', jget chat ''section'')] else [])"

definition clean_ui :: "jsval \<Rightarrow> jsobj" where
  "clean_ui ui =
     [(''subview'', if isSubview (jget ui ''subview'') then jget ui ''subview'' else JStr ''entity'')]
     @ (case jget ui ''trail'' of
          JArr cs \<Rightarrow> [(''trail'', JArr (take 20 (map clean_crumb
            (filter (\<lambda>c. isRecord c \<and> str_in 200 (jget c ''entityId'') \<and> isWorkspaceKind (jget c ''kind'')) cs))))]
        | _ \<Rightarrow> [])
     @ (if isRecord (jget ui ''chat'') \<and> isBool (jget (jget ui ''chat'') ''open'')
        then [(''chat'', JObj (clean_chat (jget ui ''chat'')))] else [])"

text \<open>\<open>num(v) && v >= lo ? Math.floor(v) : dflt\<close>\<close>

definition floor_or :: "nat \<Rightarrow> nat \<Rightarrow> jsval \<Rightarrow> nat" where
  "floor_or lo dflt v =
     (if isFiniteNumber v \<and> of_nat lo \<le> rat_of v then nat \<lfloor>rat_of v\<rfloor> else dflt)"

definition cleanTab :: "string \<Rightarrow> jsval \<Rightarrow> tab option" where
  "cleanTab i raw =
     (if \<not> isRecord raw \<or> jget raw ''id'' \<noteq> JStr i then None
      else if jget raw ''type'' = JStr ''chooser'' then
        Some (ChooserTab \<lparr>ct_id = i, ct_query = (if isString (jget raw ''query'') then take 200 (str_of (jget raw ''query'')) else [])\<rparr>)
      else if jget raw ''type'' = JStr ''file'' then
        (if \<not> isFileTabProjectId (jget raw ''projectId'') \<or> \<not> isFileTabPath (jget raw ''path'') then None
         else Some (FileTab \<lparr>ft_id = i, ft_projectId = str_of (jget raw ''projectId''), ft_path = str_of (jget raw ''path''),
                ft_preview = (jget raw ''preview'' = JBool True)\<rparr>))
      else if \<not> isWorkspaceKind (jget raw ''kind'') then None
      else if jget raw ''type'' = JStr ''draft'' then
        (if \<not> str_in 200 (jget raw ''draftId'') then None
         else Some (DraftTab \<lparr>dt_id = i, dt_kind = str_of (jget raw ''kind''), dt_draftId = str_of (jget raw ''draftId''),
                dt_dirty = (jget raw ''dirty'' = JBool True), dt_submitting = False,
                dt_ordinal = floor_or 1 1 (jget raw ''ordinal'')\<rparr>))
      else if jget raw ''type'' \<noteq> JStr ''entity'' \<or> \<not> str_in 200 (jget raw ''entityId'') then None
      else Some (EntityTab \<lparr>et_id = i, et_kind = str_of (jget raw ''kind''), et_entityId = str_of (jget raw ''entityId''),
             et_ui = clean_ui (jget raw ''ui'')\<rparr>))"

text \<open>\<open>[...new Set(xs.filter(isWorkspaceKind))].sort()\<close>\<close>

definition clean_kinds :: "jsval \<Rightarrow> string list" where
  "clean_kinds v = sort (uniq (map str_of (filter isWorkspaceKind (arr_of v))))"

definition cleanScope :: "jsval \<Rightarrow> tab_scope" where
  "cleanScope raw =
     (if jget raw ''mode'' = JStr ''byType'' \<and> clean_kinds (jget raw ''selectedTypeIds'') \<noteq> []
      then ByType (clean_kinds (jget raw ''selectedTypeIds''))
      else Mixed (clean_kinds (jget raw ''lastByTypeIds'')))"

text \<open>The loop over the raw order: ids kept so far with their tabs, in order.\<close>

definition clean_step :: "jsval \<Rightarrow> (string \<times> tab) list \<Rightarrow> jsval \<Rightarrow> (string \<times> tab) list" where
  "clean_step rawTabs kept v =
     (if \<not> str_in 64 v \<or> map_of kept (str_of v) \<noteq> None \<or> length kept \<ge> WORKSPACE_TAB_HARD_CAP then kept
      else (case cleanTab (str_of v) (jget rawTabs (str_of v)) of
          Some t \<Rightarrow> kept @ [(str_of v, t)]
        | None \<Rightarrow> kept))"

definition clean_tabs :: "jsval \<Rightarrow> jsval \<Rightarrow> (string \<times> tab) list" where
  "clean_tabs rawTabs rawOrder = foldl (clean_step rawTabs) [] (arr_of rawOrder)"

definition known_id :: "(string \<times> tab) list \<Rightarrow> jsval \<Rightarrow> bool" where
  "known_id kept v \<longleftrightarrow> isString v \<and> map_of kept (str_of v) \<noteq> None"

definition clean_width :: "bounds \<Rightarrow> jsval \<Rightarrow> int" where
  "clean_width b v = (if isFiniteNumber v then clamp_round (b_min b) (b_max b) (rat_of v) else b_initial b)"

definition clean_remembered :: "(string \<times> tab) list \<Rightarrow> jsval \<Rightarrow> (string \<times> string) list" where
  "clean_remembered kept v =
     map (\<lambda>(key, i). (key, str_of i)) (filter (\<lambda>(key, i). length key \<le> 300 \<and> known_id kept i) (obj_of v))"

definition clean_per_kind :: "jsval \<Rightarrow> (string \<times> browser_kind_state) list" where
  "clean_per_kind v = map (\<lambda>(kind, x).
       (kind, \<lparr>bk_query = (if isString (jget x ''query'') then take 500 (str_of (jget x ''query'')) else []),
               bk_filters = (if jget x ''filters'' = JUndef then JNull else jget x ''filters''),
               bk_scrollTop = (if isFiniteNumber (jget x ''scrollTop'') then JFin (max 0 (rat_of (jget x ''scrollTop''))) else JFin 0)\<rparr>))
     (filter (\<lambda>(kind, x). isKindName kind \<and> isRecord x) (obj_of v))"

definition clean_browser :: "jsval \<Rightarrow> browser_state" where
  "clean_browser raw =
     \<lparr>bs_kind = (if isWorkspaceKind (jget raw ''kind'') then str_of (jget raw ''kind'') else DEFAULT_BROWSER_KIND),
      bs_perKind = (if clean_per_kind (jget raw ''perKind'') \<noteq> [] then clean_per_kind (jget raw ''perKind'')
                    else [(DEFAULT_BROWSER_KIND, EMPTY_BROWSER_KIND_STATE)])\<rparr>"

definition clean_rail :: "jsval \<Rightarrow> rail_prefs" where
  "clean_rail raw =
     \<lparr>r_pins = (if isArray (jget raw ''pins'') then take 32 (map str_of (filter (str_in 64) (arr_of (jget raw ''pins''))))
                else r_pins DEFAULT_RAIL),
      r_open = take 64 (map (\<lambda>(k, v). (k, v = JBool True)) (filter (\<lambda>(k, v). isBool v) (obj_of (jget raw ''open'')))),
      r_expanded = (jget raw ''expanded'' = JBool True),
      r_lifted = (if isArray (jget raw ''lifted'')
                  then Some (take 32 (uniq (map str_of (filter (str_in 64) (arr_of (jget raw ''lifted''))))))
                  else None)\<rparr>"

definition sanitizeWorkspaceState :: "jsval \<Rightarrow> string \<Rightarrow> wstate option" where
  "sanitizeWorkspaceState raw sid =
     (if \<not> isRecord raw then None
      else
        let kept = clean_tabs (jget raw ''tabs'') (jget raw ''orderedTabIds'');
            pr = jget raw ''presentation'';
            lay = jget raw ''layout''
        in Some ((defaultWorkspaceState sid [] [])
             \<lparr>revision := floor_or 0 0 (jget raw ''revision''),
              orderedTabIds := map fst kept,
              tabs := kept,
              presentation := (if jget pr ''surface'' = JStr ''tab'' \<and> known_id kept (jget pr ''tabId'')
                               then ShowTab (str_of (jget pr ''tabId'')) else Start),
              scope := cleanScope (jget raw ''scope''),
              recency := uniq (map str_of (filter (known_id kept) (arr_of (jget raw ''recency'')))),
              rememberedActive := clean_remembered kept (jget raw ''rememberedActive''),
              layout := \<lparr>l_expanded = (jget lay ''expanded'' = JBool True),
                         l_browserWidth = clean_width BROWSER_BOUNDS (jget lay ''browserWidth''),
                         l_chatWidth = clean_width CHAT_BOUNDS (jget lay ''chatWidth'')\<rparr>,
              browserMain := clean_browser (jget (jget raw ''browsers'') ''main''),
              rail := (if isRecord (jget raw ''rail'') then Some (clean_rail (jget raw ''rail'')) else None)\<rparr>))"

subsection \<open>The initial state, stored states and windows are well-formed\<close>

lemma default_wf: "wf_state (defaultWorkspaceState sid v w)"
  by (simp add: wf_state_def wf_core_alt defaultWorkspaceState_def keys_of_def wf_map_def tab_at_def vals_def
      scope_ok_def scope_ids_def layout_ok_def BROWSER_BOUNDS_def CHAT_BOUNDS_def active_ok_def)

lemma default_supply: "inj (newId h) \<Longrightarrow> \<forall>k. newId h k \<noteq> [] \<Longrightarrow> supply_ok h n (defaultWorkspaceState sid v w)"
  by (simp add: supply_ok_def fresh_id_def tab_at_def defaultWorkspaceState_def)

lemma shape_stored_tab: "shape (stored_tab t) = shape t"
  by (cases t) (simp_all add: stored_tab_def)

lemma shape_overlay_tab: "shape (overlay_tab loc i t) = shape t"
  by (auto simp: overlay_tab_def split: tab.split option.split)

lemma map_of_map_key: "map_of (map (\<lambda>(i, t). (i, f i t)) al) i = map_option (f i) (map_of al i)"
  by (induction al) auto

text \<open>Rewriting every tab's ui and the window's own fields keeps the well-formedness of the core.\<close>

lemma rewrite_core:
  assumes core: "wf_core s" and f: "\<And>i t. shape (f i t) = shape t"
    and s': "tabs s' = map (\<lambda>(i, t). (i, f i t)) (tabs s)" "orderedTabIds s' = orderedTabIds s"
      "recency s' = recency s" "rememberedActive s' = rememberedActive s" "scope s' = scope s" "layout s' = layout s"
  shows "wf_core s'" "same_shape (tab_at s) (tab_at s')"
proof -
  show sh: "same_shape (tab_at s) (tab_at s')"
    by (simp add: same_shape_def tab_at_def s' map_of_map_key option.map_comp comp_def f cong: option.map_cong)
  have "keys_of s' = keys_of s" by (simp add: keys_of_def s' case_prod_beta comp_def)
  with wf_coreD [OF core] show "wf_core s'" by (intro wf_core_shape [OF core sh]) (simp_all add: s')
qed

lemma same_shape_eligible:
  assumes "same_shape m m'" "m i = Some t"
  obtains t' where "m' i = Some t'" "isEligible sc t' = isEligible sc t"
  using same_shape_Some [OF assms] isEligible_shape by metis

lemma toStored_wf:
  assumes s: "wf_state s"
  shows "wf_state (toStoredState s)"
proof -
  have core: "wf_core s" using s by (simp add: wf_state_def)
  note r = rewrite_core [OF core, of "\<lambda>_. stored_tab" "toStoredState s", OF shape_stored_tab]
  have "active_ok (toStoredState s)"
  proof (cases "presentation s")
    case (ShowTab i)
    then obtain t where "tab_at s i = Some t" "isEligible (scope s) t"
      using s by (auto simp: wf_state_def active_ok_def split: option.splits)
    moreover from this obtain t' where "tab_at (toStoredState s) i = Some t'" "isEligible (scope s) t' = isEligible (scope s) t"
      using same_shape_eligible [OF r(2), of i t] by (simp add: toStoredState_def) metis
    ultimately show ?thesis using ShowTab by (simp add: active_ok_def) (simp add: toStoredState_def)
  qed (simp add: active_ok_def toStoredState_def)
  moreover have "wf_core (toStoredState s)" by (rule r(1)) (simp_all add: toStoredState_def)
  ultimately show ?thesis by (simp add: wf_state_def)
qed

lemma find_holds: "find P xs = Some x \<Longrightarrow> P x \<and> x \<in> set xs"
  by (induction xs) (auto split: if_splits)

lemma window_fallback_usable: "window_fallback s w prev = ShowTab i \<Longrightarrow> usable_in s i"
proof (cases "find (usable_in s) (recency s)")
  case None
  define pos where "pos = (case index_of prev w of None \<Rightarrow> 0 | Some i \<Rightarrow> i)"
  assume fb: "window_fallback s w prev = ShowTab i"
  show ?thesis
  proof (cases "filter (usable_in s) (orderedTabIds s)")
    case (Cons v vs)
    have all: "\<forall>x \<in> set (filter (usable_in s) (orderedTabIds s)). usable_in s x" by simp
    have v: "usable_in s v" "\<And>x. x \<in> set (v # vs) \<Longrightarrow> usable_in s x"
      using all unfolding Cons by auto
    show ?thesis
    proof (cases "find (\<lambda>i. i \<in> set (v # vs)) (rev (take pos prev))")
      case None
      with fb \<open>find (usable_in s) (recency s) = None\<close> Cons v(1) show ?thesis
        by (simp add: window_fallback_def Let_def pos_def)
    next
      case (Some b)
      from find_holds [OF Some] v(2) have "usable_in s b" by blast
      with fb \<open>find (usable_in s) (recency s) = None\<close> Cons Some show ?thesis
        by (simp add: window_fallback_def Let_def pos_def)
    qed
  qed (use fb None in \<open>simp add: window_fallback_def Let_def\<close>)
qed (simp add: window_fallback_def find_holds)

lemma windowPresentation_usable: "windowPresentation s p prev = ShowTab i \<Longrightarrow> usable_in s i"
  by (auto simp: windowPresentation_def dest: window_fallback_usable split: presentation.splits if_splits option.splits)

lemma overlay_wf:
  assumes core: "wf_core stored"
  shows "wf_state (overlayWindow stored loc)"
proof -
  define base where "base = stored\<lparr>viewerId := viewerId loc, windowId := windowId loc,
    tabs := map (\<lambda>(i, t). (i, overlay_tab loc i t)) (tabs stored)\<rparr>"
  have eq: "overlayWindow stored loc =
      base\<lparr>presentation := windowPresentation base (presentation loc) (orderedTabIds loc)\<rparr>"
    by (simp add: overlayWindow_def base_def Let_def)
  have "wf_core base"
    by (rule rewrite_core(1) [OF core, of "overlay_tab loc"]) (simp_all add: shape_overlay_tab base_def)
  moreover have "active_ok (base\<lparr>presentation := windowPresentation base (presentation loc) (orderedTabIds loc)\<rparr>)"
    using windowPresentation_usable [of base "presentation loc" "orderedTabIds loc"]
    by (auto simp: active_ok_def usable_in_def split: presentation.split option.splits)
  ultimately show ?thesis by (simp add: wf_state_def eq)
qed

subsection \<open>Storing forgets exactly the window\<close>

lemma oget_delete: "oget (AList.delete k ob) k' = (if k' = k then JUndef else oget ob k')"
  by (simp add: oget_def)

lemma oget_update: "oget (AList.update k v ob) k' = (if k' = k then v else oget ob k')"
  by (simp add: oget_def)

lemma update_twice: "AList.update k v (AList.update k w al) = AList.update k v al"
  by (induction al) auto

lemma update_absent: "k \<notin> set (map fst al) \<Longrightarrow> AList.update k v al = al @ [(k, v)]"
  by (induction al) auto

lemma delete_update_same: "AList.delete k (AList.update k v al) = AList.delete k al"
  by (induction al) (auto simp: AList.delete_eq)

lemma delete_update_other: "k \<noteq> l \<Longrightarrow> AList.delete k (AList.update l v al) = AList.update l v (AList.delete k al)"
  by (induction al) (auto simp: AList.delete_eq)

lemma delete_twice: "AList.delete k (AList.delete k al) = AList.delete k al"
  by (simp add: AList.delete_eq)

lemma untitled_twice: "untitled (untitled c) = untitled c"
  by (simp add: untitled_def update_twice)

lemma stored_ui_idem: "stored_ui (stored_ui ui) = stored_ui ui"
proof (cases "oget (AList.delete ''scrollTop'' ui) ''trail''")
  case (JArr cs)
  then show ?thesis
    by (simp add: stored_ui_def Let_def delete_update_other delete_twice oget_update update_twice comp_def untitled_twice)
qed (simp_all add: stored_ui_def Let_def delete_twice)

lemma stored_ui_scroll: "stored_ui (spread ui [(''scrollTop'', v)]) = stored_ui ui"
  by (simp add: stored_ui_def Let_def delete_update_same)

lemma stored_tab_idem: "stored_tab (stored_tab t) = stored_tab t"
  by (cases t) (simp_all add: stored_tab_def stored_ui_idem)

lemma stored_overlay_tab: "stored_tab (overlay_tab loc i t) = stored_tab t"
  by (auto simp: overlay_tab_def stored_tab_def stored_ui_scroll simp del: spread.simps split: tab.split option.split)

lemma toStored_twice: "toStoredState (toStoredState s) = toStoredState s"
  by (simp add: toStoredState_def case_prod_beta comp_def stored_tab_idem)

lemma toStored_overlay:
  "toStoredState (overlayWindow s loc) = (toStoredState s)\<lparr>presentation := presentation (overlayWindow s loc)\<rparr>"
  by (simp add: toStoredState_def overlayWindow_def Let_def case_prod_beta comp_def stored_overlay_tab)

subsection \<open>What sanitizing guarantees\<close>

lemma cleanTab_ok:
  assumes "cleanTab i raw = Some t"
  shows "tab_id t = i" "tab_ok t"
proof -
  have k: "isWorkspaceKind v \<Longrightarrow> isKindName (str_of v)" for v by (simp add: isWorkspaceKind_def split: jsval.splits)
  have p: "isFileTabProjectId v \<Longrightarrow> isFileTabProjectId (JStr (str_of v))" for v
    by (simp add: isFileTabProjectId_def split: jsval.splits)
  have q: "isFileTabPath v \<Longrightarrow> isPathString (str_of v)" for v by (simp add: isFileTabPath_def split: jsval.splits)
  have e: "str_in m v \<Longrightarrow> str_of v \<noteq> []" for m v by (cases v) simp_all
  show "tab_id t = i" "tab_ok t"
    using assms k p q e by (auto simp: cleanTab_def simp del: str_in.simps split: if_splits)
qed

definition kept_ok :: "(string \<times> tab) list \<Rightarrow> bool" where
  "kept_ok kept \<longleftrightarrow> distinct (map fst kept) \<and> length kept \<le> WORKSPACE_TAB_HARD_CAP
     \<and> (\<forall>(i, t) \<in> set kept. i \<noteq> [] \<and> tab_id t = i \<and> tab_ok t)"

lemma clean_step_ok: "kept_ok kept \<Longrightarrow> kept_ok (clean_step rawTabs kept v)"
proof -
  assume k: "kept_ok kept"
  have e: "str_in m v \<Longrightarrow> str_of v \<noteq> []" for m by (cases v) simp_all
  show ?thesis
    using k e [of 64] cleanTab_ok [of "str_of v" "jget rawTabs (str_of v)"]
    by (auto simp: clean_step_def kept_ok_def map_of_eq_None_iff simp del: str_in.simps split: option.split)
qed

lemma clean_tabs_ok: "kept_ok (clean_tabs rawTabs rawOrder)"
proof -
  have "kept_ok kept \<Longrightarrow> kept_ok (foldl (clean_step rawTabs) kept vs)" for kept vs
    by (induction vs arbitrary: kept) (simp_all add: clean_step_ok)
  moreover have "kept_ok []" by (simp add: kept_ok_def)
  ultimately show ?thesis by (simp add: clean_tabs_def)
qed

lemma cleanScope_ok: "scope_ok (cleanScope raw)"
proof -
  have "list_all isKindName (clean_kinds v)" "sorted (clean_kinds v)" "distinct (clean_kinds v)" for v
    by (auto simp: clean_kinds_def list_all_iff isWorkspaceKind_def split: jsval.splits)
  then show ?thesis by (simp add: cleanScope_def scope_ok_def scope_ids_def)
qed

lemma clean_width_ok: "b_min b \<le> b_initial b \<Longrightarrow> b_initial b \<le> b_max b \<Longrightarrow> b_min b \<le> clean_width b v \<and> clean_width b v \<le> b_max b"
  using clamp_round_bounds [of "b_min b" "b_max b"] by (simp add: clean_width_def)

text \<open>
  A sanitized state meets every structural condition; only that no two tabs share an entity and
  that the active tab is visible are left to the overlay and to the commands.
\<close>

definition sane_state :: "wstate \<Rightarrow> bool" where
  "sane_state s \<longleftrightarrow> records_ok s \<and> order_ok s \<and> memory_ok s \<and> scope_ok (scope s) \<and> layout_ok (layout s)
     \<and> length (orderedTabIds s) \<le> WORKSPACE_TAB_HARD_CAP \<and> pending s = None
     \<and> (\<forall>i. presentation s = ShowTab i \<longrightarrow> tab_at s i \<noteq> None)"

lemma sanitize_sane:
  assumes "sanitizeWorkspaceState raw sid = Some s"
  shows "sane_state s" "spaceId s = sid"
proof -
  define kept where "kept = clean_tabs (jget raw ''tabs'') (jget raw ''orderedTabIds'')"
  have ok: "kept_ok kept" unfolding kept_def by (rule clean_tabs_ok)
  have known: "known_id kept v \<Longrightarrow> str_of v \<in> fst ` set kept" for v
    by (auto simp: known_id_def map_of_eq_None_iff)
  have f: "tabs s = kept" "orderedTabIds s = map fst kept" "pending s = None" "spaceId s = sid"
    "scope s = cleanScope (jget raw ''scope'')"
    "recency s = uniq (map str_of (filter (known_id kept) (arr_of (jget raw ''recency''))))"
    "rememberedActive s = clean_remembered kept (jget raw ''rememberedActive'')"
    "l_browserWidth (layout s) = clean_width BROWSER_BOUNDS (jget (jget raw ''layout'') ''browserWidth'')"
    "l_chatWidth (layout s) = clean_width CHAT_BOUNDS (jget (jget raw ''layout'') ''chatWidth'')"
    using assms by (auto simp: sanitizeWorkspaceState_def Let_def kept_def defaultWorkspaceState_def split: if_splits)
  have pr: "presentation s = ShowTab i \<Longrightarrow> tab_at s i \<noteq> None" for i
    using assms known
    by (auto simp: sanitizeWorkspaceState_def Let_def kept_def [symmetric] known_id_def f(1) tab_at_def
        split: if_splits)
  have "vals (clean_remembered kept v) \<subseteq> fst ` set kept" for v
    using known by (auto simp: vals_def clean_remembered_def)
  moreover have "layout_ok (layout s)"
    using clean_width_ok [of BROWSER_BOUNDS] clean_width_ok [of CHAT_BOUNDS]
    by (simp add: layout_ok_def f BROWSER_BOUNDS_def CHAT_BOUNDS_def)
  ultimately show "sane_state s"
    using ok known pr
    by (auto simp: sane_state_def records_ok_def order_ok_def memory_ok_def keys_of_def f cleanScope_ok kept_ok_def)
  show "spaceId s = sid" by (rule f(4))
qed

end
