(* ===== verification/WsProps.thy ===== *)
theory WsProps
  imports WsDrafts WsStored
begin

text \<open>
  The properties of the workspace runtime: every run keeps the state well-formed, revisions count
  the significant commits, what a remote caller can and cannot do, and what the single commands
  promise.
\<close>

subsection \<open>Runs\<close>

definition ws_step :: "wstate \<times> nat \<Rightarrow> envelope \<times> hooks \<Rightarrow> wstate \<times> nat" where
  "ws_step c i = (let r = reduce (fst c) (fst i) (snd i) False (snd c) in (rd_state (fst r), snd r))"

definition ws_ok :: "(nat \<Rightarrow> string) \<Rightarrow> wstate \<times> nat \<Rightarrow> envelope \<times> hooks \<Rightarrow> bool" where
  "ws_ok ids c i \<longleftrightarrow> newId (snd i) = ids"

definition ws_inv :: "(nat \<Rightarrow> string) \<Rightarrow> wstate \<times> nat \<Rightarrow> bool" where
  "ws_inv ids c \<longleftrightarrow> wf_state (fst c) \<and> inj ids \<and> (\<forall>k\<ge>snd c. fresh_id (fst c) (ids k))"

interpretation ws: invariant_machine ws_step "ws_ok ids" "ws_inv ids" for ids
proof
  fix c :: "wstate \<times> nat" and i :: "envelope \<times> hooks"
  assume inv: "ws_inv ids c" and ok: "ws_ok ids c i"
  define h where "h = snd i"
  have sup: "wf_state (fst c)" "supply_ok h (snd c) (fst c)"
    using inv ok by (auto simp: ws_inv_def ws_ok_def supply_ok_def h_def)
  from reduce_good [OF sup, of "fst i" False] supply_step [OF sup(2) reduce_good [OF sup, of "fst i" False]] ok
  show "ws_inv ids (ws_step c i)"
    by (simp add: ws_inv_def ws_step_def Let_def supply_ok_def h_def ws_ok_def state_good_def)
qed

lemma ws_run_ok: "\<forall>(env, h) \<in> set cmds. newId h = ids \<Longrightarrow> ws.run_ok ids c cmds"
  by (induction cmds arbitrary: c) (auto simp: ws_ok_def)

subsection \<open>Accounting\<close>

lemma commit_accounting:
  "revision (rd_state (commit env s nx sg res after))
     = revision s + length (filter wc_significant (rd_commits (commit env s nx sg res after)))"
  "length (rd_commits (commit env s nx sg res after)) \<le> 1"
  "res_revision (rd_result (commit env s nx sg res after)) = revision (rd_state (commit env s nx sg res after))"
  by (simp_all add: commit_def commit_state_def Let_def)

definition accounted :: "wstate \<Rightarrow> nat \<Rightarrow> reduction \<Rightarrow> bool" where
  "accounted s m r \<longleftrightarrow> revision (rd_state r) = revision s + length (filter wc_significant (rd_commits r))
     \<and> length (rd_commits r) \<le> m \<and> res_revision (rd_result r) = revision (rd_state r)"

lemma accounted_simps [simp]:
  "accounted s m (rejected s r)"
  "accounted s m \<lparr>rd_state = s, rd_result = (plain_result st (revision s))\<lparr>res_reason := rs\<rparr>, rd_commits = []\<rparr>"
  "accounted s m \<lparr>rd_state = s, rd_result = (plain_result st (revision s))\<lparr>res_inspection := ins\<rparr>, rd_commits = []\<rparr>"
  "accounted s m \<lparr>rd_state = s, rd_result = res\<lparr>res_revision := revision s\<rparr>, rd_commits = []\<rparr>"
  "0 < m \<Longrightarrow> accounted s m (commit env s nx sg res after)"
  using commit_accounting(2) [of env s nx sg res after]
  by (simp_all add: accounted_def rejected_def plain_result_def commit_accounting)

lemma plan_accounted:
  "admitted s env h replay n pl n' \<Longrightarrow> (\<And>nx env' after. pl \<noteq> Replay nx env' after)
     \<Longrightarrow> accounted s 1 (fst (reduce s env h replay n))"
  by (cases pl) (auto simp: reduce_plans)

lemma reduce_accounted:
  "accounted s (if pending s = None then 1 else 2) (fst (reduce s env h replay n))"
proof -
  have one: "accounted s 1 (fst (reduce s env h replay n))"
    if "pending s = None" for s env replay n
    by (cases rule: reduce_cases [where s = s and env = env and h = h and replay = replay and n = n])
      (use that in \<open>auto simp: reduce_refused reduce_conflict simp del: One_nat_def intro: plan_accounted\<close>)
  show ?thesis
  proof (cases rule: reduce_cases [where s = s and env = env and h = h and replay = replay and n = n])
    case (replay nx env' n')
    define s1 where "s1 = nx\<lparr>revision := revision s + 1\<rparr>"
    have s1: "rd_state (commit env s (new_ref nx) True (plain_result Applied 0) []) = s1" by (simp add: replay_state s1_def)
    have "accounted s1 1 (fst (reduce s1 env' h True n'))" using replay(4) by (intro one) (simp add: s1_def)
    with replay(1,3) show ?thesis
      by (simp add: reduce_Replay Let_def s1 accounted_def) (auto simp: s1_def commit_def Let_def new_ref_def)
  next
    case (plan pl n')
    then show ?thesis using plan_accounted [of s env h replay n pl n'] by (auto simp: accounted_def)
  qed (auto simp: reduce_refused reduce_conflict)
qed

subsection \<open>Fields a command leaves alone\<close>

lemma frame_activate [simp]: "rail (snd (activate s i h)) = rail s" "rail (snd (showStart s h)) = rail s"
  by (simp_all add: activate_def showStart_def)

lemma frame_scope [simp]: "rail (snd (resolveAfterScopeChange s h)) = rail s"
  by (simp add: resolveAfterScopeChange_def activate_pick_def split: presentation.splits option.splits)

lemma frame_drop [simp]: "rail (drop_tabs s ds) = rail s" "pending (drop_tabs s ds) = pending s"
  by (simp_all add: drop_tabs_def)

lemma frame_removeTabs [simp]:
  "rail (snd (fst (removeTabs s ids h))) = rail s" "pending (snd (fst (removeTabs s ids h))) = pending s"
  by (simp_all add: removeTabs_def Let_def split: presentation.splits option.splits)

lemma frame_replaceChooser [simp]:
  "rail (snd (replaceChooser s c i tp h)) = rail s" "pending (snd (replaceChooser s c i tp h)) = pending s"
  by (cases c; simp add: replaceChooser_def Let_def)+

lemma frame_if [simp]: "rail (snd (if c then x else y)) = (if c then rail (snd x) else rail (snd y))"
  "pending (snd (if c then x else y)) = (if c then pending (snd x) else pending (snd y))"
  by simp_all

definition same_frame :: "wstate \<Rightarrow> plan \<Rightarrow> bool" where
  "same_frame s pl \<longleftrightarrow> (case pl of
      Commit nx _ _ _ \<Rightarrow> pending (snd nx) = pending s \<and> rail (snd nx) = rail s | Replay _ _ _ \<Rightarrow> False | _ \<Rightarrow> True)"

lemma same_frame_simps [simp]:
  "same_frame s (Reject r)" "same_frame s (Choice c)" "same_frame s PInspect" "same_frame s (External res)"
  "same_frame s (scope_choice k)" "same_frame s (no_op_commit s)"
  "same_frame s (Commit nx cr sg af) \<longleftrightarrow> pending (snd nx) = pending s \<and> rail (snd nx) = rail s"
  "same_frame s (plain_commit nx) \<longleftrightarrow> pending (snd nx) = pending s \<and> rail (snd nx) = rail s"
  "same_frame s (commit_tab nx i oc af) \<longleftrightarrow> pending (snd nx) = pending s \<and> rail (snd nx) = rail s"
  by (simp_all add: same_frame_def scope_choice_def no_op_commit_def plain_commit_def commit_tab_def)

lemma frame_open: "same_frame s (fst (open_tab s env h n))"
  by (auto simp: open_tab_def open_new_def open_existing_def Let_def snd_and_then simp del: spread.simps
      split: option.splits)

lemma frame_files: "same_frame s (fst (openFile s env h n))"
  by (auto simp: openFile_def Let_def snd_and_then split: option.splits)

lemma frame_chooser: "same_frame s (fst (openChooser s h n))"
  by (auto simp: openChooser_def Let_def snd_and_then split: option.splits)

lemma frame_openDraft: "same_frame s (fst (openDraft s env h n))"
  by (auto simp: openDraft_def Let_def snd_and_then split: option.splits)

lemma frame_bind: "same_frame s (bind_draft s env h)"
  by (auto simp: bind_draft_def bind_state_def Let_def split: option.splits tab.splits)

lemma frame_setScope: "same_frame s (setScope s env h)"
  by (auto simp: setScope_def applyScope_def scope_next_def Let_def split: jsval.splits sum.splits)

lemma frame_close: "same_frame s (close_tab s env h)" "same_frame s (closeVisible s env h)"
  by (auto simp: close_tab_def closeVisible_def Let_def split: option.splits tab.splits)

lemma frame_tabs: "same_frame s (activateTab s env h)" "same_frame s (move_tab s env)" "same_frame s (setUi s env)"
  "same_frame s (markDirty s env)"
  by (auto simp: activateTab_def move_tab_def setUi_def markDirty_def Let_def split: option.splits tab.splits)

lemma frame_plain: "same_frame s (setBrowser s env)" "same_frame s (setLayout s env)"
  "same_frame s (openDialog s env h)" "same_frame s (closeDialog env h)" "same_frame s (setView env h)"
  by (auto simp: setBrowser_def setLayout_def openDialog_def closeDialog_def setView_def Let_def split: option.splits)

lemma PLANNERS_frame:
  "c \<noteq> CInteractionsResolve \<Longrightarrow> c \<noteq> CRailSet \<Longrightarrow> same_frame s (fst (PLANNERS c s env h n))"
  by (cases c) (simp_all add: PLANNERS_def frame_open frame_files frame_chooser frame_openDraft frame_bind frame_setScope
      frame_close frame_tabs frame_plain)

lemma reduce_frame:
  assumes "command env \<noteq> CInteractionsResolve" "command env \<noteq> CRailSet"
  shows "rail (rd_state (fst (reduce s env h replay n))) = rail s"
    "pending s = Some p \<Longrightarrow> pending (rd_state (fst (reduce s env h replay n))) = Some p"
proof -
  have "rail (rd_state (fst (reduce s env h replay n))) = rail s \<and>
      (pending s = Some p \<longrightarrow> pending (rd_state (fst (reduce s env h replay n))) = Some p)"
  proof (cases rule: reduce_cases [where s = s and env = env and h = h and replay = replay and n = n])
    case (plan pl n')
    have "same_frame s pl" using PLANNERS_frame [OF assms, of s env h n] plan(1) by (simp add: admitted_def)
    with plan show ?thesis
      by (cases pl) (auto simp: reduce_plans rejected_def commit_def commit_state_def Let_def)
  qed (use assms in \<open>auto simp: reduce_refused reduce_conflict rejected_def\<close>)
  then show "rail (rd_state (fst (reduce s env h replay n))) = rail s"
    "pending s = Some p \<Longrightarrow> pending (rd_state (fst (reduce s env h replay n))) = Some p" by simp_all
qed

subsection \<open>The tab an open leaves\<close>

definition has_entity :: "string \<Rightarrow> string \<Rightarrow> string \<Rightarrow> wstate \<Rightarrow> bool" where
  "has_entity i kind e s \<longleftrightarrow> own_ids s \<and>
     (\<exists>x. tab_at s i = Some (EntityTab x) \<and> et_kind x = kind \<and> et_entityId x = e)"

lemma has_entity_capture:
  assumes "has_entity i kind e s" "tabs s' = captureOutgoing s h"
  shows "has_entity i kind e s'"
proof -
  have c: "own_ids s \<Longrightarrow> own_ids (put_tab (et_id x) (EntityTab (x\<lparr>et_ui := u\<rparr>)) s)" for x u
    by (auto simp: own_ids_def)
  have o: "own_ids s \<Longrightarrow> tab_at s j = Some (EntityTab x) \<Longrightarrow> et_id x = j" for j x
    unfolding own_ids_def by fastforce
  have "has_entity i kind e (s\<lparr>tabs := captureOutgoing s h\<rparr>)"
  proof (cases "captureOutgoing s h = tabs s")
    case True
    then show ?thesis using assms(1) by (simp add: has_entity_def own_ids_def tab_at_def)
  next
    case False
    then obtain j x u where jx: "tab_at s j = Some (EntityTab x)"
      "captureOutgoing s h = AList.update (et_id x) (EntityTab (x\<lparr>et_ui := u\<rparr>)) (tabs s)"
      by (auto simp: captureOutgoing_def split: presentation.splits option.splits tab.splits if_splits)
    have own: "own_ids s" using assms(1) by (simp add: has_entity_def)
    have "s\<lparr>tabs := captureOutgoing s h\<rparr> = put_tab (et_id x) (EntityTab (x\<lparr>et_ui := u\<rparr>)) s"
      by (simp add: put_tab_def jx(2))
    with c [OF own] o [OF own jx(1)] assms(1) jx(1) show ?thesis
      by (auto simp: has_entity_def)
  qed
  with assms(2) show ?thesis by (simp add: has_entity_def own_ids_def tab_at_def)
qed

lemma has_entity_other [simp]:
  "has_entity i k e (s\<lparr>presentation := p\<rparr>) = has_entity i k e s" "has_entity i k e (s\<lparr>recency := r\<rparr>) = has_entity i k e s"
  "has_entity i k e (s\<lparr>orderedTabIds := oi\<rparr>) = has_entity i k e s"
  by (simp_all add: has_entity_def own_ids_def)

lemma has_entity_activate: "has_entity i k e s \<Longrightarrow> has_entity i k e (snd (activate s j h))"
  by (auto simp: activate_def intro: has_entity_capture)

lemma has_entity_drop: "has_entity i k e s \<Longrightarrow> i \<notin> set ds \<Longrightarrow> has_entity i k e (drop_tabs s ds)"
  by (auto simp: has_entity_def own_ids_def drop_tabs_tab_at)

lemma has_entity_replaceChooser: "has_entity i k e s \<Longrightarrow> has_entity i k e (snd (replaceChooser s c i tp h))"
proof -
  assume s: "has_entity i k e s"
  have "has_entity i k e (snd (fst (removeTabs s1 [b] h)))" if "has_entity i k e s1" "b \<noteq> i" for s1 b
    using has_entity_drop [OF that(1), of "doomed_ids s1 [b]"] that
    by (auto simp: removeTabs_def Let_def doomed_ids_def intro!: has_entity_activate split: presentation.split option.split)
  with s show ?thesis by (cases c) (auto simp: replaceChooser_def Let_def)
qed

lemma presentation_activate [simp]: "presentation (snd (activate s i h)) = ShowTab i"
  by (simp add: activate_def)

lemma presentation_replaceChooser:
  "presentation s = ShowTab i \<Longrightarrow> presentation (snd (replaceChooser s c i tp h)) = ShowTab i"
  by (cases c) (auto simp: replaceChooser_def Let_def removeTabs_def doomed_ids_def drop_tabs_def)

definition opened :: "envelope \<Rightarrow> string \<Rightarrow> string \<Rightarrow> string \<Rightarrow> wstate \<Rightarrow> bool" where
  "opened env i k e s \<longleftrightarrow> has_entity i k e s \<and> (arg env ''activate'' \<noteq> JBool False \<longrightarrow> presentation s = ShowTab i)"

lemma finish_opened:
  assumes "has_entity i k e s"
  shows "opened env i k e
    (snd (replaceChooser (if arg env ''activate'' \<noteq> JBool False then snd (activate s i h) else s) c i tp h))"
  using assms by (auto simp: opened_def intro: has_entity_replaceChooser has_entity_activate presentation_replaceChooser)

lemma open_new_opened:
  assumes "own_ids s"
  shows "opened env i kind e (snd (open_new s i kind e env ct h))"
proof -
  define act where "act \<longleftrightarrow> arg env ''activate'' \<noteq> JBool False"
  define t where "t = EntityTab \<lparr>et_id = i, et_kind = kind, et_entityId = e,
    et_ui = spread [(''subview'', if arg env ''subview'' = JUndef then JStr ''entity'' else arg env ''subview'')]
                 (if arg env ''trail'' \<noteq> JUndef \<and> \<not> ct then [(''trail'', arg env ''trail'')] else [])\<rparr>"
  define s1 where "s1 = (put_tab i t s)\<lparr>orderedTabIds := afterActive s i,
                 recency := (if act then recency s else recency s @ [i])\<rparr>"
  have eq: "snd (open_new s i kind e env ct h) =
      snd (replaceChooser (if act then snd (activate s1 i h) else s1) (arg env ''replaceTabId'') i True h)"
    by (simp add: open_new_def Let_def snd_and_then s1_def t_def act_def)
  have "has_entity i kind e s1" using assms by (auto simp: s1_def t_def has_entity_def own_ids_def)
  from finish_opened [OF this, of env h] show ?thesis unfolding eq act_def .
qed

lemma open_existing_opened:
  assumes o: "own_ids s" and at: "tab_at s (et_id x) = Some (EntityTab x)" "et_kind x = k" "et_entityId x = e"
  shows "opened env (et_id x) k e (snd (open_existing s x env ct h))"
proof -
  have "has_entity (et_id x) k e (snd (if c then new_ref (put_tab (et_id x) (EntityTab (x\<lparr>et_ui := u\<rparr>)) s) else same_ref s))" for c u
    using assms by (auto simp: has_entity_def own_ids_def)
  from finish_opened [OF this, where env = env and h = h] show ?thesis
    by (simp add: open_existing_def Let_def snd_and_then if_distrib [of snd] cong: if_cong)
qed

lemma open_tab_opened:
  assumes s: "wf_state s" and pl: "open_tab s env h n = (Commit nx cr sg af, n')"
  shows "\<exists>i. cr_tabId cr = Some i \<and> opened env i (str_of (arg env ''kind'')) (str_of (arg env ''entityId'')) (snd nx)"
proof -
  have core: "wf_core s" using s by (simp add: wf_state_def)
  have old: "opened env (et_id x) k e (snd (open_existing s x env ct h))" if "findEntityTab s k e = Some x" for x k e ct
    using findEntityTab_Some [OF core that] by (intro open_existing_opened [OF wf_own_ids [OF s]])
  show ?thesis
    using pl open_new_opened [OF wf_own_ids [OF s]] old
    by (auto simp: open_tab_def commit_tab_def scope_choice_def Let_def split: if_splits option.splits)
qed

lemma opened_found:
  assumes s: "wf_state s" and o: "opened env i k e s"
  shows "\<exists>x. findEntityTab s k e = Some x \<and> et_id x = i"
proof -
  have core: "wf_core s" using s by (simp add: wf_state_def)
  obtain y where y: "tab_at s i = Some (EntityTab y)" "et_kind y = k" "et_entityId y = e"
    using o by (auto simp: opened_def has_entity_def)
  show ?thesis
  proof (cases "findEntityTab s k e")
    case None
    from findEntityTab_None [OF core None y(1)] y show ?thesis by simp
  next
    case (Some x)
    note x = findEntityTab_Some [OF core Some]
    have "et_id x = i" using wf_map_unique [OF wf_coreD(2) [OF core] x(1) y(1)] x y by simp
    with Some show ?thesis by simp
  qed
qed

subsection \<open>What a removal leaves\<close>

lemma keys_removed:
  assumes "wf_state s"
  shows "set (keys_of (snd (fst (removeTabs s ids h)))) = set (keys_of s) - set ids"
proof -
  have d: "set (keys_of (drop_tabs s (doomed_ids s ids))) = set (keys_of s) - set ids"
    by (auto simp: keys_drop_tabs doomed_ids_def tab_at_keys)
  have core: "wf_core (drop_tabs s (doomed_ids s ids))" using assms by (simp add: wf_state_def drop_tabs_core)
  have "doomed_ids s ids = [] \<Longrightarrow> set (keys_of s) - set ids = set (keys_of s)"
    by (auto simp: doomed_ids_def tab_at_keys filter_empty_conv)
  with d core show ?thesis
    by (auto simp: removeTabs_def Let_def keys_activate split: presentation.splits option.splits)
qed

subsection \<open>Scope changes, closing, moving\<close>

lemma same_shape_activate: "wf_core s \<Longrightarrow> same_shape (tab_at s) (tab_at (snd (activate s i h)))"
  "wf_core s \<Longrightarrow> same_shape (tab_at s) (tab_at (snd (showStart s h)))"
  using captureOutgoing_shape(1) by (simp_all add: activate_def showStart_def)

lemma order_activate [simp]: "orderedTabIds (snd (activate s i h)) = orderedTabIds s"
  "orderedTabIds (snd (showStart s h)) = orderedTabIds s" "scope (snd (activate s i h)) = scope s"
  "scope (snd (showStart s h)) = scope s"
  by (simp_all add: activate_def showStart_def)

lemma resolveAfterScopeChange_keeps:
  assumes "wf_core s"
  shows "same_shape (tab_at s) (tab_at (snd (resolveAfterScopeChange s h)))"
    "orderedTabIds (snd (resolveAfterScopeChange s h)) = orderedTabIds s"
    "scope (snd (resolveAfterScopeChange s h)) = scope s"
  using same_shape_activate [OF assms]
  by (auto simp: resolveAfterScopeChange_def activate_pick_def split: presentation.splits option.splits)

lemma scope_next_keeps:
  assumes s: "wf_state s" and sc: "scope_ok sc"
  shows "same_shape (tab_at s) (tab_at (snd (scope_next s sc h)))"
    "orderedTabIds (snd (scope_next s sc h)) = orderedTabIds s" "sameScope sc (scope (snd (scope_next s sc h)))"
proof -
  have c: "wf_core (s\<lparr>scopeRepair := None, scope := sc\<rparr>)"
    using s sc scope_change_core [of "s\<lparr>scopeRepair := None\<rparr>" sc] by (simp add: wf_state_def)
  have "sameScope sc sc" by (simp add: sameScope_def split: tab_scope.split)
  then show "same_shape (tab_at s) (tab_at (snd (scope_next s sc h)))"
    "orderedTabIds (snd (scope_next s sc h)) = orderedTabIds s" "sameScope sc (scope (snd (scope_next s sc h)))"
    using resolveAfterScopeChange_keeps [OF c, of h] by (simp_all add: scope_next_def Let_def)
qed

text \<open>The abstract rule for the tab shown after the active one closes, over an order split at it.\<close>

definition nearest :: "string list \<Rightarrow> string list \<Rightarrow> string list \<Rightarrow> presentation" where
  "nearest visible left right = (case filter (\<lambda>i. i \<in> set visible) right of
      r # _ \<Rightarrow> ShowTab r
    | [] \<Rightarrow> (case rev (filter (\<lambda>i. i \<in> set visible) left) of l # _ \<Rightarrow> ShowTab l | [] \<Rightarrow> Start))"

lemma index_of_append: "a \<notin> set xs \<Longrightarrow> index_of (xs @ a # ys) a = Some (length xs)"
  by (induction xs) auto

lemma eligible_dropped:
  assumes "a \<notin> set ids" "set ids \<subseteq> set (orderedTabIds s)"
  shows "eligibleIds (drop_tabs s [a]) (filter (\<lambda>i. i \<notin> set [a]) ids) = filter (\<lambda>i. i \<in> set (visibleTabIds s)) ids"
proof -
  have "scope (drop_tabs s [a]) = scope s" by (simp add: drop_tabs_def)
  then show ?thesis using assms
    by (auto simp: eligibleIds_def visibleTabIds_def drop_tabs_tab_at filter_id_conv intro!: filter_cong split: option.splits)
qed

lemma removeTabs_nearest:
  assumes s: "wf_state s" and pr: "presentation s = ShowTab a" and ord: "orderedTabIds s = xs @ a # ys"
  shows "presentation (snd (fst (removeTabs s [a] h))) = nearest (visibleTabIds s) xs ys"
proof -
  have core: "wf_core s" using s by (simp add: wf_state_def)
  obtain t where t: "tab_at s a = Some t" using wf_order_tab [OF core, of a] ord by auto
  have d: "a \<notin> set xs" "a \<notin> set ys" using wf_coreD(3) [OF core] by (simp_all add: ord)
  have doomed: "doomed_ids s [a] = [a]" using t by (simp add: doomed_ids_def)
  define v where "v = (\<lambda>i. i \<in> set (visibleTabIds s))"
  have surv: "survivor s (drop_tabs s [a]) [a] a =
      (case head_opt (filter v ys) of Some i \<Rightarrow> Some i | None \<Rightarrow> last_opt (filter v xs))"
  proof -
    have "set xs \<subseteq> set (orderedTabIds s)" "set ys \<subseteq> set (orderedTabIds s)" by (auto simp: ord)
    from eligible_dropped [OF d(1) this(1)] eligible_dropped [OF d(2) this(2)]
    show ?thesis unfolding survivor_def Let_def ord v_def
      by (simp add: index_of_append [OF d(1)] cong: option.case_cong)
  qed
  have ne: "i \<noteq> []" if "v i" for i
    using that wf_mapD(3) [OF wf_coreD(2) [OF core]] by (auto simp: v_def visibleTabIds_def split: option.splits)
  show ?thesis
  proof (cases "filter v ys")
    case (Cons r rs)
    then have "v r" by (metis filter_eq_ConsD)
    with ne Cons show ?thesis
      by (simp add: removeTabs_def doomed Let_def pr surv head_opt_def nearest_def v_def)
  next
    case ys: Nil
    show ?thesis
    proof (cases "rev (filter v xs)")
      case Nil
      with ys show ?thesis
        by (simp add: removeTabs_def doomed Let_def pr surv head_opt_def last_opt_def nearest_def v_def)
    next
      case (Cons l ls)
      then have f: "filter v xs = rev ls @ [l]" by (metis rev.simps(2) rev_rev_ident)
      then have "v l" by (metis filter_set in_set_conv_decomp mem_Collect_eq set_filter)
      with ne ys f Cons show ?thesis
        by (simp add: removeTabs_def doomed Let_def pr surv head_opt_def last_opt_def nearest_def v_def)
    qed
  qed
qed

lemma every_same_length: "every_same new old \<Longrightarrow> length new = length old \<Longrightarrow> new = old"
  by (simp add: every_same_def)

lemma insert_before_at: "b \<in> set xs \<Longrightarrow> \<exists>as bs. insert_before b x xs = as @ x # b # bs"
proof -
  assume "b \<in> set xs"
  then obtain i where i: "index_of xs b = Some i" by (cases "index_of xs b") auto
  then have "drop i xs = b # drop (Suc i) xs" using index_of_Some_nth [OF i] by (metis Cons_nth_drop_Suc)
  with i have "insert_before b x xs = take i xs @ x # b # drop (Suc i) xs"
    by (simp add: insert_before_def insert_at_def)
  then show ?thesis by blast
qed

lemma filter_ne_len: "distinct xs \<Longrightarrow> x \<in> set xs \<Longrightarrow> length (filter (\<lambda>y. y \<noteq> x) xs) = length xs - 1"
proof (induction xs)
  case (Cons y ys)
  show ?case
  proof (cases "y = x")
    case True
    with Cons.prems have "filter (\<lambda>y. y \<noteq> x) ys = ys" by (auto simp: filter_id_conv)
    with True show ?thesis by simp
  next
    case False
    with Cons have "length (filter (\<lambda>y. y \<noteq> x) ys) = length ys - 1" "ys \<noteq> []" by auto
    with False show ?thesis by (cases ys) auto
  qed
qed simp

end
