(* ===== verification/WsTheorems.thy ===== *)
theory WsTheorems
  imports WsProps
begin

text \<open>
  The properties of the workspace runtime, each with a witness on a small concrete run.
\<close>

subsection \<open>Sample runs\<close>

definition sample_ids :: "nat \<Rightarrow> string" where
  "sample_ids n = replicate (Suc n) (CHR ''x'')"

definition sample_hooks :: hooks where
  "sample_hooks = \<lparr>draftRevision = (\<lambda>_. 3), captureUi = (\<lambda>_. None), canCreate = (\<lambda>_. True), newId = sample_ids,
     openDialogHook = (\<lambda>_. plain_result Applied 0), closeDialogHook = (\<lambda>_. plain_result Applied 0),
     showWorkspaceHook = plain_result Applied 0, viewMounted = True, userTyping = False\<rparr>"

definition cmd :: "command_name \<Rightarrow> jsobj \<Rightarrow> envelope" where
  "cmd c ob = \<lparr>command = c, args = JObj ob, source = Click, expectedRevision = None\<rparr>"

definition sample_open :: "string \<Rightarrow> envelope" where
  "sample_open e = cmd CTabsOpen [(''kind'', JStr ''task''), (''entityId'', JStr e)]"

definition sample_start :: wstate where
  "sample_start = defaultWorkspaceState ''s'' ''v'' ''w''"

definition sample_run :: "envelope list \<Rightarrow> wstate \<times> nat" where
  "sample_run envs = foldl ws_step (sample_start, 0) (map (\<lambda>env. (env, sample_hooks)) envs)"

lemma inj_sample_ids: "inj sample_ids"
  by (auto simp: inj_def sample_ids_def replicate_eq_replicate)

lemma sample_ids_nonempty: "sample_ids k \<noteq> []"
  by (simp add: sample_ids_def)

lemma sample_inv: "ws_inv sample_ids (sample_run envs)"
proof -
  have "ws_inv sample_ids (sample_start, 0)"
    by (simp add: ws_inv_def sample_start_def default_wf inj_sample_ids fresh_id_def sample_ids_nonempty tab_at_def)
      (simp add: defaultWorkspaceState_def)
  then show ?thesis unfolding sample_run_def
    by (rule ws.run_inv) (rule ws_run_ok, simp add: sample_hooks_def)
qed

lemma sample_good: "wf_state (fst (sample_run envs))" "supply_ok sample_hooks (snd (sample_run envs)) (fst (sample_run envs))"
  using sample_inv [of envs] by (simp_all add: ws_inv_def supply_ok_def sample_hooks_def)

subsection \<open>The runtime as a whole\<close>



text \<open>
  The revision counts the significant commits of a command exactly, a command commits at most
  once (twice when it resolves an interaction and replays its command), and the revision in its
  result is the revision of the state it leaves.
\<close>
theorem revision_counts_commits:
  "let r = fst (reduce s env h replay n)
   in revision (rd_state r) = revision s + length (filter wc_significant (rd_commits r))
      \<and> length (rd_commits r) \<le> (if pending s = None then 1 else 2)
      \<and> res_revision (rd_result r) = revision (rd_state r)"
  using reduce_accounted [of s env h replay n] by (simp add: accounted_def Let_def)

text \<open>
  C2: Optimistic concurrency: of two commands that expect the same revision, once the first has
  made a significant commit the second conflicts and changes nothing.
\<close>
theorem no_lost_update:
  assumes "reduce s env1 h1 False n = (r1, n1)" "\<exists>c \<in> set (rd_commits r1). wc_significant c"
    "expectedRevision env2 = Some (JFin (of_nat (revision s)))" "refusal (rd_state r1) env2 h2 False = None"
  shows "rd_state (fst (reduce (rd_state r1) env2 h2 False n2)) = rd_state r1
      \<and> rd_commits (fst (reduce (rd_state r1) env2 h2 False n2)) = []
      \<and> res_status (rd_result (fst (reduce (rd_state r1) env2 h2 False n2))) = Conflict"
proof -
  have "filter wc_significant (rd_commits r1) \<noteq> []" using assms(2) by (auto simp: filter_empty_conv)
  then have "0 < length (filter wc_significant (rd_commits r1))" by simp
  then have "revision s < revision (rd_state r1)"
    using reduce_accounted [of s env1 h1 False n] assms(1) unfolding accounted_def by simp
  then have "revision_conflict (rd_state r1) env2" using assms(3) by (simp add: revision_conflict_def)
  from reduce_conflict [OF assms(4) this] show ?thesis by (simp add: plain_result_def)
qed

lemma sample_first:
  "fst (reduce sample_start (sample_open ''a'') sample_hooks False 0) =
    (let t = EntityTab \<lparr>et_id = ''x'', et_kind = ''task'', et_entityId = ''a'', et_ui = [(''subview'', JStr ''entity'')]\<rparr>;
         s1 = sample_start\<lparr>revision := 1, orderedTabIds := [''x''], tabs := [(''x'', t)], presentation := ShowTab ''x'',
            recency := [''x''], rememberedActive := [(''mixed'', ''x'')]\<rparr>;
         res = (plain_result Applied 1)\<lparr>res_tabId := Some ''x'', res_outcome := Some Created\<rparr>
     in \<lparr>rd_state = s1, rd_result = res,
         rd_commits = [\<lparr>wc_env = sample_open ''a'', wc_prev = sample_start, wc_next = s1, wc_significant = True,
           wc_result = res, wc_after = []\<rparr>]\<rparr>)"
  by code_simp

theorem no_lost_update_witness:
  "res_status (rd_result (fst (reduce (rd_state (fst (reduce sample_start (sample_open ''a'') sample_hooks False 0)))
      ((sample_open ''b'')\<lparr>expectedRevision := Some (JFin 0)\<rparr>) sample_hooks False 1))) = Conflict"
proof -
  have c: "\<exists>c \<in> set (rd_commits (fst (reduce sample_start (sample_open ''a'') sample_hooks False 0))). wc_significant c"
    unfolding sample_first Let_def by simp
  have e: "expectedRevision ((sample_open ''b'')\<lparr>expectedRevision := Some (JFin 0)\<rparr>) = Some (JFin (of_nat (revision sample_start)))"
    by (simp add: sample_start_def defaultWorkspaceState_def)
  have r: "refusal (rd_state (fst (reduce sample_start (sample_open ''a'') sample_hooks False 0)))
      ((sample_open ''b'')\<lparr>expectedRevision := Some (JFin 0)\<rparr>) sample_hooks False = None"
    by code_simp
  from no_lost_update [OF _ c e r, where ?n2.0 = 1] show ?thesis by (metis prod.collapse)
qed

subsection \<open>What survives a command\<close>


definition draft_state :: wstate where
  "draft_state = fst (sample_run [cmd CDraftsOpen [(''kind'', JStr ''doc'')],
     cmd CDraftsMarkDirty [(''tabId'', JStr ''x''), (''dirty'', JBool True)], sample_open ''a''])"

definition draft_taken :: nat where
  "draft_taken = snd (sample_run [cmd CDraftsOpen [(''kind'', JStr ''doc'')],
     cmd CDraftsMarkDirty [(''tabId'', JStr ''x''), (''dirty'', JBool True)], sample_open ''a''])"

lemma draft_state_ok: "wf_state draft_state" "supply_ok sample_hooks draft_taken draft_state"
  unfolding draft_state_def draft_taken_def by (rule sample_good)+

definition sample_draft :: draft_tab where
  "sample_draft = \<lparr>dt_id = ''x'', dt_kind = ''doc'', dt_draftId = ''xx'', dt_dirty = True, dt_submitting = False, dt_ordinal = 1\<rparr>"

lemma draft_state_tab: "tab_at draft_state ''x'' = Some (DraftTab sample_draft)" "dt_dirty sample_draft"
  by code_simp+


text \<open>
  C4: A remote caller can neither lose unsaved changes, nor change the rail, nor answer or replace
  a pending interaction, and without a mounted view it changes nothing at all.
\<close>
theorem remote_command_limits:
  assumes "wf_state s" "supply_ok h n s" "source env = Remote"
  shows "(\<forall>i d. tab_at s i \<noteq> Some (DraftTab d) \<or> \<not> dt_dirty d
        \<or> tab_at (rd_state (fst (reduce s env h False n))) i = Some (DraftTab d))
    \<and> rail (rd_state (fst (reduce s env h False n))) = rail s
    \<and> (pending s = None \<or> pending (rd_state (fst (reduce s env h False n))) = pending s)
    \<and> (viewMounted h \<or> rd_state (fst (reduce s env h False n)) = s)"
proof (cases "command env \<in> set REMOTE_FORBIDDEN")
  case True
  with assms(3) have "refusal s env h False \<noteq> None" by (simp add: refusal_def)
  then obtain r where "refusal s env h False = Some r" by blast
  then show ?thesis by (simp add: reduce_refused rejected_def)
next
  case False
  then have c: "command env \<noteq> CInteractionsResolve" "command env \<noteq> CRailSet"
    "command env \<notin> set [CInteractionsResolve, CDraftsBind, CDraftsMarkDirty]" by (auto simp: REMOTE_FORBIDDEN_def)
  have keep: "tab_at (rd_state (fst (reduce s env h False n))) i = Some (DraftTab d)"
    if "tab_at s i = Some (DraftTab d)" "dt_dirty d" for i d
    using that c(3) assms by (intro dirty_draft_kept) (auto simp: supply_ok_def user_decides_def UI_SOURCES_def)
  have stay: "rd_state (fst (reduce s env h False n)) = s" if "\<not> viewMounted h"
  proof (cases rule: reduce_cases [where s = s and env = env and h = h and replay = False and n = n])
    case (plan pl n')
    then have "command env \<in> set [CInspect, CDialogsOpen, CDialogsClose, CViewSet]"
      using assms(3) that by (auto simp: admitted_def refusal_def REMOTE_NEEDS_VIEW_def split: if_splits)
    with plan(1) have "pl = PInspect \<or> (\<exists>r. pl = Reject r) \<or> (\<exists>res. pl = External res)"
      by (auto simp: admitted_def PLANNERS_def openDialog_def closeDialog_def setView_def
          split: if_splits option.splits)
    with plan(1) show ?thesis by (auto simp: reduce_plans rejected_def)
  qed (use c in \<open>auto simp: reduce_refused reduce_conflict rejected_def\<close>)
  show ?thesis
    using keep stay reduce_frame [OF c(1,2), where s = s and h = h and replay = False and n = n] by (cases "pending s") auto
qed

theorem remote_command_limits_witness:
  "rail (rd_state (fst (reduce draft_state ((cmd CTabsCloseVisible [])\<lparr>source := Remote\<rparr>) sample_hooks False draft_taken)))
     = rail draft_state"
  using remote_command_limits [OF draft_state_ok, of "(cmd CTabsCloseVisible [])\<lparr>source := Remote\<rparr>"] by simp

text \<open>
  When a prompt about unsaved changes is answered with discard, a draft whose values changed
  after the prompt went up stays open, and no tab closes that the prompt did not name.
\<close>
theorem discard_spares_edited_drafts:
  assumes "wf_state s" "command env = CInteractionsResolve" "arg env ''choice'' = JStr ''discard''"
    "pending s = Some p" "p_closeTabIds p = Some ids" "p_draftRevisions p = Some revs"
    "(i, r) \<in> set revs" "tab_at s i = Some (DraftTab d)" "draftRevision h (dt_draftId d) \<noteq> r"
  shows "tab_at (rd_state (fst (reduce s env h replay n))) i = Some (DraftTab d)
    \<and> set (keys_of s) \<subseteq> set (keys_of (rd_state (fst (reduce s env h replay n)))) \<union> set ids"
proof -
  have c: "choice_of (arg env ''choice'') = Some Discard" by (simp add: assms(3) choice_of_def)
  define kept where "kept = filter (\<lambda>i. i \<notin> set (changed_drafts s p h)) ids"
  have "i \<in> set (changed_drafts s p h)"
    unfolding changed_drafts_def set_map_filter using assms(6-9) by (auto intro!: bexI [of _ "(i, r)"])
  then have ik: "i \<notin> set kept" by (simp add: kept_def)
  have clear: "wf_state (s\<lparr>pending := None\<rparr>)" using assms(1) by simp
  have hd: "has_draft i d (s\<lparr>pending := None\<rparr>)" using wf_own_ids [OF assms(1)] assms(8) by (simp add: has_draft_def own_ids_def)
  define s' where "s' = snd (fst (removeTabs (s\<lparr>pending := None\<rparr>) kept h))"
  have keep: "tab_at s' i = Some (DraftTab d)"
    using has_draft_removeTabs [OF hd ik, of h] by (simp add: has_draft_def s'_def)
  have left: "set (keys_of s) \<subseteq> set (keys_of s') \<union> set ids"
    using keys_removed [OF clear, of kept h] by (auto simp: s'_def kept_def)
  show ?thesis
  proof (cases rule: reduce_cases [where s = s and env = env and h = h and replay = replay and n = n])
    case (plan pl n')
    then have pl: "pl = resolve s env h" by (simp add: admitted_def PLANNERS_def assms(2))
    have "(\<exists>r. pl = Reject r) \<or> (\<exists>cr sg af. pl = Commit (True, s') cr sg af)"
      unfolding pl resolve_def using c assms(4,5) by (auto simp: Let_def s'_def kept_def)
    with plan(1) keep left assms(8) show ?thesis
      by (auto simp: reduce_plans rejected_def commit_def commit_state_def Let_def)
  next
    case (replay nx env' n')
    then have "resolve s env h = Replay nx env' []" by (simp add: admitted_def PLANNERS_def assms(2))
    then show ?thesis using c assms(4) by (auto simp: resolve_def Let_def split: if_splits)
  qed (use assms(8) in \<open>auto simp: reduce_refused reduce_conflict rejected_def\<close>)
qed

definition prompt_state :: wstate where
  "prompt_state = fst (sample_run [cmd CDraftsOpen [(''kind'', JStr ''doc'')],
     cmd CDraftsMarkDirty [(''tabId'', JStr ''x''), (''dirty'', JBool True)], cmd CTabsClose [(''tabId'', JStr ''x'')]])"

definition prompt_answer :: envelope where
  "prompt_answer = cmd CInteractionsResolve [(''interactionId'', JStr ''xxx''), (''choice'', JStr ''discard'')]"

lemma prompt_pending: "pending prompt_state = Some (the (pending prompt_state))"
  "p_closeTabIds (the (pending prompt_state)) = Some [''x'']"
  "p_draftRevisions (the (pending prompt_state)) = Some [(''x'', 3)]"
  "tab_at prompt_state ''x'' = Some (DraftTab sample_draft)"
  by code_simp+

theorem discard_spares_edited_drafts_witness:
  "tab_at (rd_state (fst (reduce prompt_state prompt_answer (sample_hooks\<lparr>draftRevision := \<lambda>_. 4\<rparr>) False 3))) ''x''
     = Some (DraftTab sample_draft)"
proof -
  have a: "wf_state prompt_state" "command prompt_answer = CInteractionsResolve"
    "arg prompt_answer ''choice'' = JStr ''discard''" "(''x'', 3) \<in> set [(''x'', 3 :: nat)]"
    unfolding prompt_state_def by (rule sample_good) (simp_all add: prompt_answer_def cmd_def oget_def)
  show ?thesis
    by (rule discard_spares_edited_drafts [OF a(1-3) prompt_pending(1-3) a(4) prompt_pending(4), THEN conjunct1]) simp
qed

subsection \<open>Single commands\<close>

text \<open>
  After an open that was applied, the entity has exactly the tab the result names: looking it
  up finds that tab, and unless the caller asked not to activate it, it is the one on show.
\<close>
theorem open_then_found:
  assumes "wf_state s" "supply_ok h n s" "command env = CTabsOpen"
    "res_status (rd_result (fst (reduce s env h replay n))) = Applied"
  shows "\<exists>x. findEntityTab (rd_state (fst (reduce s env h replay n)))
          (str_of (arg env ''kind'')) (str_of (arg env ''entityId'')) = Some x
      \<and> res_tabId (rd_result (fst (reduce s env h replay n))) = Some (et_id x)
      \<and> (arg env ''activate'' = JBool False
         \<or> presentation (rd_state (fst (reduce s env h replay n))) = ShowTab (et_id x))"
proof -
  define r where "r = fst (reduce s env h replay n)"
  have wf: "wf_state (rd_state r)" using reduce_good [OF assms(1,2)] by (simp add: state_good_def r_def)
  show ?thesis
  proof (cases rule: reduce_cases [where s = s and env = env and h = h and replay = replay and n = n])
    case (plan pl n')
    then have pl: "open_tab s env h n = (pl, n')" by (simp add: admitted_def PLANNERS_def assms(3))
    have ext: "pl \<noteq> External res" for res using pl by (auto simp: open_tab_def commit_tab_def scope_choice_def Let_def split: if_splits option.splits)
    show ?thesis
    proof (cases pl)
      case (Commit nx cr sg af)
      from open_tab_opened [OF assms(1) pl [unfolded Commit]] obtain i where
        i: "cr_tabId cr = Some i" "opened env i (str_of (arg env ''kind'')) (str_of (arg env ''entityId'')) (snd nx)"
        by blast
      have r: "r = commit env s nx sg ((plain_result (cr_status cr) 0)\<lparr>res_tabId := cr_tabId cr, res_outcome := cr_outcome cr\<rparr>) af"
        using plan(1) Commit by (simp add: r_def reduce_Commit)
      have "fst nx" using assms(4) unfolding r_def [symmetric] r by (auto simp: commit_def Let_def split: if_splits)
      then have st: "rd_state r = (snd nx)\<lparr>revision := revision s + (if sg then 1 else 0)\<rparr>" and id: "res_tabId (rd_result r) = Some i"
        by (simp_all add: r commit_def commit_state_def Let_def i(1))
      have "opened env i (str_of (arg env ''kind'')) (str_of (arg env ''entityId'')) (rd_state r)"
        using i(2) by (simp add: st opened_def has_entity_def own_ids_def)
      from opened_found [OF wf this] id this show ?thesis
        unfolding r_def [symmetric] by (auto simp: opened_def)
    qed (use plan assms(4) ext in \<open>auto simp: reduce_plans rejected_def plain_result_def commit_def Let_def split: if_splits\<close>)
  qed (use assms(3,4) in \<open>auto simp: reduce_refused reduce_conflict rejected_def plain_result_def\<close>)
qed

theorem open_then_found_witness:
  "\<exists>x. findEntityTab (rd_state (fst (reduce draft_state (sample_open ''b'') sample_hooks False draft_taken))) ''task'' ''b'' = Some x"
proof -
  have "command (sample_open ''b'') = CTabsOpen" "str_of (arg (sample_open ''b'') ''kind'') = ''task''"
    "str_of (arg (sample_open ''b'') ''entityId'') = ''b''"
    "res_status (rd_result (fst (reduce draft_state (sample_open ''b'') sample_hooks False draft_taken))) = Applied"
    by code_simp+
  with open_then_found [OF draft_state_ok, of "sample_open ''b''" False] show ?thesis by auto
qed

text \<open>
  Setting the scope to kinds never opens, closes or reorders a tab: every tab keeps its place
  and its identity, the scope is the requested set in normal form, and the tab on show, if any, is
  one the new scope shows.
\<close>
theorem scope_change_keeps_tabs:
  assumes "wf_state s" "supply_ok h n s"
    "args env = JObj [(''mode'', JStr ''byType''), (''selectedTypeIds'', JArr (map JStr ids))]"
    "ids \<noteq> []" "list_all isKindName ids" "command env = CTabScopeSet" "source env \<in> set LOCAL_SOURCES"
    "expectedRevision env = None"
  shows "let s' = rd_state (fst (reduce s env h False n)) in
    sameScope (ByType (normalizeKinds ids)) (scope s') \<and> orderedTabIds s' = orderedTabIds s
    \<and> same_shape (tab_at s) (tab_at s')
    \<and> (presentation s' = Start \<or> (\<exists>i \<in> set (visibleTabIds s'). presentation s' = ShowTab i))"
proof -
  define sc where "sc = ByType (normalizeKinds ids)"
  define s' where "s' = rd_state (fst (reduce s env h False n))"
  have rq: "requested_scope (scope s) (ReqByType (Some ids)) = Inr sc"
    using assms(4,5) by (simp add: requested_scope_def sc_def)
  have "scope_ok (scope s)" using assms(1) by (simp add: wf_state_def wf_coreD(8))
  from requested_scope_ok [OF this rq] have sc: "scope_ok sc" .
  have plan: "setScope s env h = plain_commit (scope_next s sc h)"
    using assms(3) rq by (simp add: setScope_def oget_def applyScope_def list_all_set comp_def)
  have "refusal s env h False = None" "\<not> revision_conflict s env"
    using assms(6-8) by (auto simp: refusal_def ACCEPTED_SOURCES_def LOCAL_SOURCES_def COMMAND_NAMES_def revision_conflict_def)
  then have "admitted s env h False n (plain_commit (scope_next s sc h)) n"
    by (simp add: admitted_def PLANNERS_def assms(6) plan)
  from reduce_Commit [OF this [unfolded plain_commit_def]]
  have s': "s' = commit_state s (scope_next s sc h) True" by (simp add: s'_def commit_def Let_def)
  have unch: "fst (scope_next s sc h) \<or> snd (scope_next s sc h) = s"
    by (auto simp: scope_next_def Let_def)
  then obtain r where eq: "s' = (snd (scope_next s sc h))\<lparr>revision := r\<rparr>"
    unfolding s' commit_state_def by (cases "fst (scope_next s sc h)") (auto, metis wstate.unfold_congs(1) wstate.surjective wstate.update_convs(1))
  have keep: "same_shape (tab_at s) (tab_at s')" "orderedTabIds s' = orderedTabIds s" "sameScope sc (scope s')"
    using scope_next_keeps [OF assms(1) sc, of h] by (simp_all add: eq)
  have wf: "wf_state s'" using reduce_good [OF assms(1,2), of env False] by (simp add: state_good_def s'_def)
  then have core: "wf_core s'" by (simp add: wf_state_def)
  have "presentation s' = Start \<or> (\<exists>i \<in> set (visibleTabIds s'). presentation s' = ShowTab i)"
    using wf wf_order_tab [OF core]
    by (cases "presentation s'") (auto simp: wf_state_def active_ok_def visibleTabIds_def split: option.splits)
  with keep show ?thesis by (simp add: Let_def s'_def [symmetric] sc_def)
qed

theorem scope_change_keeps_tabs_witness:
  "sameScope (ByType [''doc'']) (scope (rd_state (fst (reduce draft_state
     (cmd CTabScopeSet [(''mode'', JStr ''byType''), (''selectedTypeIds'', JArr (map JStr [''doc'']))])
     sample_hooks False draft_taken))))"
proof -
  have "isKindName ''doc''" "normalizeKinds [''doc''] = [''doc'']" by code_simp+
  with scope_change_keeps_tabs [OF draft_state_ok, of
      "cmd CTabScopeSet [(''mode'', JStr ''byType''), (''selectedTypeIds'', JArr (map JStr [''doc'']))]" "[''doc'']"]
  show ?thesis by (simp add: cmd_def LOCAL_SOURCES_def Let_def)
qed

text \<open>
  Closing the tab on show puts up the nearest visible tab to its right in the tab order, else
  the nearest to its left, else the start surface.
\<close>
theorem close_shows_nearest:
  assumes "wf_state s" "presentation s = ShowTab a" "orderedTabIds s = xs @ a # ys"
    "command env = CTabsClose" "arg env ''tabId'' = JStr a"
    "res_status (rd_result (fst (reduce s env h replay n))) = Applied"
  shows "presentation (rd_state (fst (reduce s env h replay n))) = nearest (visibleTabIds s) xs ys
    \<and> tab_at (rd_state (fst (reduce s env h replay n))) a = None"
proof (cases rule: reduce_cases [where s = s and env = env and h = h and replay = replay and n = n])
  case (plan pl n')
  have core: "wf_core s" using assms(1) by (simp add: wf_state_def)
  obtain t where t: "tab_at s a = Some t" using wf_order_tab [OF core, of a] assms(3) by auto
  have id: "tab_id t = a" using wf_mapD(1) [OF wf_coreD(2) [OF core] t] .
  have pl: "pl = close_tab s env h" using plan(1) by (simp add: admitted_def PLANNERS_def assms(4))
  have cases: "(\<exists>r. pl = Reject r) \<or> (\<exists>c. pl = Choice c)
      \<or> pl = commit_tab (fst (removeTabs s [a] h)) a None (snd (removeTabs s [a] h))"
    unfolding pl close_tab_def using assms(5) t id by (cases t) (auto simp: Let_def)
  have gone: "tab_at (snd (fst (removeTabs s [a] h))) a = None"
    using keys_removed [OF assms(1), of "[a]" h] tab_at_keys [of a] by fastforce
  have new: "fst (fst (removeTabs s [a] h))"
    using t assms(2) by (auto simp: removeTabs_def Let_def doomed_ids_def split: option.split)
  have "pl = commit_tab (fst (removeTabs s [a] h)) a None (snd (removeTabs s [a] h))"
    using cases plan(1) assms(6)
    by (auto simp: reduce_plans rejected_def plain_result_def commit_def Let_def split: if_splits)
  with plan(1) gone new removeTabs_nearest [OF assms(1-3), of h] show ?thesis
    by (simp add: reduce_Commit commit_tab_def commit_def commit_state_def Let_def)
next
  case (replay nx env' n')
  then show ?thesis using assms(4) by simp
qed (use assms(6) in \<open>auto simp: reduce_refused reduce_conflict rejected_def plain_result_def\<close>)

definition three_tabs :: wstate where
  "three_tabs = fst (sample_run [sample_open ''a'', sample_open ''b'', sample_open ''c'',
     cmd CTabsActivate [(''tabId'', JStr ''xx'')]])"

theorem close_shows_nearest_witness:
  "presentation (rd_state (fst (reduce three_tabs (cmd CTabsClose [(''tabId'', JStr ''xx'')]) sample_hooks False 3))) = ShowTab ''xxx''"
proof -
  have "wf_state three_tabs" unfolding three_tabs_def by (rule sample_good)
  moreover have "presentation three_tabs = ShowTab ''xx''" "orderedTabIds three_tabs = [''x''] @ ''xx'' # [''xxx'']"
    "command (cmd CTabsClose [(''tabId'', JStr ''xx'')]) = CTabsClose"
    "arg (cmd CTabsClose [(''tabId'', JStr ''xx'')]) ''tabId'' = JStr ''xx''"
    "res_status (rd_result (fst (reduce three_tabs (cmd CTabsClose [(''tabId'', JStr ''xx'')]) sample_hooks False 3))) = Applied"
    "nearest (visibleTabIds three_tabs) [''x''] [''xxx''] = ShowTab ''xxx''"
    by code_simp+
  ultimately show ?thesis using close_shows_nearest by metis
qed

text \<open>
  Moving a tab before another puts it exactly there, keeps every other tab in its relative
  order and neither loses nor duplicates a tab.
\<close>
theorem move_places_before:
  assumes "wf_state s" "command env = CTabsMove" "arg env ''tabId'' = JStr i" "arg env ''beforeTabId'' = JStr b" "b \<noteq> i"
    "res_status (rd_result (fst (reduce s env h replay n))) \<in> {Applied, NoOp}"
  shows "let order = orderedTabIds (rd_state (fst (reduce s env h replay n))) in
    (\<exists>xs ys. order = xs @ i # b # ys) \<and> distinct order \<and> set order = set (orderedTabIds s)
    \<and> filter (\<lambda>j. j \<noteq> i) order = filter (\<lambda>j. j \<noteq> i) (orderedTabIds s)"
proof (cases rule: reduce_cases [where s = s and env = env and h = h and replay = replay and n = n])
  case (plan pl n')
  have core: "wf_core s" using assms(1) by (simp add: wf_state_def)
  note ord = wf_coreD(3) [OF core]
  define rest where "rest = filter (\<lambda>j. j \<noteq> i) (orderedTabIds s)"
  define new where "new = insert_before b i rest"
  have pl: "pl = move_tab s env" using plan(1) by (simp add: admitted_def PLANNERS_def assms(2))
  have "\<not> (\<exists>r. pl = Reject r)" using plan(1) assms(6) by (auto simp: reduce_plans rejected_def plain_result_def)
  then have tabs: "tab_at s i \<noteq> None" "tab_at s b \<noteq> None"
    and pl': "pl = commit_tab (if every_same new (orderedTabIds s) then same_ref s
        else new_ref (s\<lparr>orderedTabIds := new\<rparr>)) i None []"
    unfolding pl move_tab_def using assms(3-5) by (auto simp: Let_def new_def rest_def split: if_splits)
  have ib: "i \<in> set (orderedTabIds s)" "b \<in> set rest"
    using tabs wf_order_tab [OF core] assms(5) by (auto simp: rest_def)
  have set: "set new = set (orderedTabIds s)" "distinct new" "filter (\<lambda>j. j \<noteq> i) new = rest"
    using ib ord by (auto simp: new_def rest_def)
  have "length new = length (orderedTabIds s)" using distinct_card [OF ord] distinct_card [OF set(2)] set(1) by simp
  then have same: "every_same new (orderedTabIds s) \<Longrightarrow> orderedTabIds s = new"
    using every_same_length [of new "orderedTabIds s"] by simp
  have "orderedTabIds (rd_state (fst (reduce s env h replay n))) = new"
    using plan(1) same by (auto simp: pl' commit_tab_def reduce_Commit commit_def commit_state_def Let_def)
  with insert_before_at [OF ib(2), of i] set show ?thesis by (simp add: new_def rest_def)
next
  case (replay nx env' n')
  then show ?thesis using assms(2) by simp
qed (use assms(6) in \<open>auto simp: reduce_refused reduce_conflict rejected_def plain_result_def\<close>)

theorem move_places_before_witness:
  "orderedTabIds (rd_state (fst (reduce three_tabs
     (cmd CTabsMove [(''tabId'', JStr ''xxx''), (''beforeTabId'', JStr ''x'')]) sample_hooks False 3))) = [''xxx'', ''x'', ''xx'']
   \<and> set [''xxx'', ''x'', ''xx''] = set (orderedTabIds three_tabs)"
proof -
  have "wf_state three_tabs" unfolding three_tabs_def by (rule sample_good)
  moreover have "command (cmd CTabsMove [(''tabId'', JStr ''xxx''), (''beforeTabId'', JStr ''x'')]) = CTabsMove"
    "arg (cmd CTabsMove [(''tabId'', JStr ''xxx''), (''beforeTabId'', JStr ''x'')]) ''tabId'' = JStr ''xxx''"
    "arg (cmd CTabsMove [(''tabId'', JStr ''xxx''), (''beforeTabId'', JStr ''x'')]) ''beforeTabId'' = JStr ''x''"
    "''x'' \<noteq> ''xxx''"
    "res_status (rd_result (fst (reduce three_tabs (cmd CTabsMove [(''tabId'', JStr ''xxx''), (''beforeTabId'', JStr ''x'')])
      sample_hooks False 3))) \<in> {Applied, NoOp}"
    "orderedTabIds (rd_state (fst (reduce three_tabs (cmd CTabsMove [(''tabId'', JStr ''xxx''), (''beforeTabId'', JStr ''x'')])
      sample_hooks False 3))) = [''xxx'', ''x'', ''xx'']"
    by code_simp+
  ultimately show ?thesis using move_places_before unfolding Let_def by metis
qed

subsection \<open>The stored workspace\<close>

text \<open>
  What a window shows of any stored state whose tabs are in order is well-formed: when the
  shared change removed or hid the window's tab, the fallback finds one the scope shows, or start.
\<close>
theorem overlay_well_formed:
  assumes "wf_core stored"
  shows "wf_state (overlayWindow stored loc)"
  using assms by (rule overlay_wf)

theorem overlay_well_formed_witness:
  "wf_state (overlayWindow (three_tabs\<lparr>scope := ByType [''doc'']\<rparr>) draft_state)"
proof -
  have "wf_state three_tabs" unfolding three_tabs_def by (rule sample_good)
  moreover have "scope_ok (ByType [''doc''])" by code_simp
  ultimately have "wf_core (three_tabs\<lparr>scope := ByType [''doc'']\<rparr>)"
    by (simp add: wf_state_def scope_change_core)
  then show ?thesis by (rule overlay_well_formed)
qed

text \<open>
  Storing is a projection, and it forgets exactly the window: storing what a window shows
  gives back the stored state but for the tab the window had on show.
\<close>
theorem stored_round_trip:
  "toStoredState (toStoredState s) = toStoredState s
   \<and> toStoredState (overlayWindow (toStoredState s) loc)
     = (toStoredState s)\<lparr>presentation := presentation (overlayWindow (toStoredState s) loc)\<rparr>"
  by (simp add: toStored_twice toStored_overlay)


definition sample_import :: jsval where
  "sample_import = JObj [(''tabs'', JObj [(''a'', JObj [(''id'', JStr ''a''), (''type'', JStr ''entity''), (''kind'', JStr ''task''),
        (''entityId'', JStr ''e'')]), (''b'', JObj [(''id'', JStr ''c'')])]),
     (''orderedTabIds'', JArr [JStr ''a'', JStr ''b'', JStr ''a'', JNull]),
     (''presentation'', JObj [(''surface'', JStr ''tab''), (''tabId'', JStr ''a'')])]"


end
