(* ===== verification/OutputBuffer.thy ===== *)
theory OutputBuffer
  imports Bytes
begin

text \<open>
  The scrollback of a terminal (\<open>packages/execution/src/pty/OutputBuffer.ts\<close>): a bounded ring
  of the output chunks with a count of every byte produced, and the replay of what a client that
  reconnects at a byte offset has not seen.
\<close>


record slice =
  sl_base :: nat
  sl_gap :: nat
  sl_next :: nat
  sl_data :: "byte list"

record outbuf =
  ob_cap :: nat
  ob_chunks :: "byte list list"
  ob_buffered :: nat
  ob_produced :: nat

definition DEFAULT_CAP_BYTES :: nat where
  "DEFAULT_CAP_BYTES = 1024 * 1024"

definition new_outbuf :: "nat \<Rightarrow> outbuf" where
  "new_outbuf cap = \<lparr>ob_cap = cap, ob_chunks = [], ob_buffered = 0, ob_produced = 0\<rparr>"

definition totalBytes :: "outbuf \<Rightarrow> nat" where
  "totalBytes b = ob_produced b"

definition startOffset :: "outbuf \<Rightarrow> nat" where
  "startOffset b = ob_produced b - ob_buffered b"

text \<open>The eviction loop: oldest chunks go while the ring is over its cap, but never the only one.\<close>

fun evict :: "nat \<Rightarrow> byte list list \<Rightarrow> nat \<Rightarrow> byte list list \<times> nat" where
  "evict cap (c # d # cs) n = (if n > cap then evict cap (d # cs) (n - length c) else (c # d # cs, n))"
| "evict cap cs n = (cs, n)"

definition append_chunk :: "outbuf \<Rightarrow> byte list \<Rightarrow> outbuf" where
  "append_chunk b chunk =
     (if chunk = [] then b
      else (case evict (ob_cap b) (ob_chunks b @ [chunk]) (ob_buffered b + length chunk) of
          (cs, n) \<Rightarrow> b\<lparr>ob_chunks := cs, ob_buffered := n, ob_produced := ob_produced b + length chunk\<rparr>))"

fun slice_chunks :: "nat \<Rightarrow> byte list list \<Rightarrow> byte list list" where
  "slice_chunks skip [] = []"
| "slice_chunks skip (c # cs) =
     (if skip \<ge> length c then slice_chunks (skip - length c) cs
      else (if skip > 0 then drop skip c else c) # slice_chunks 0 cs)"

definition sliceFrom :: "outbuf \<Rightarrow> nat \<Rightarrow> byte list" where
  "sliceFrom b base = concat (slice_chunks (base - startOffset b) (ob_chunks b))"

text \<open>The requested offset, when it is usable: finite, not negative and not past the end.\<close>

definition resume_offset :: "outbuf \<Rightarrow> jnum \<Rightarrow> nat option" where
  "resume_offset b off = (case off of
      JFin r \<Rightarrow> if r < 0 \<or> \<lfloor>r\<rfloor> > int (totalBytes b) then None else Some (nat \<lfloor>r\<rfloor>)
    | _ \<Rightarrow> None)"

definition replayFrom :: "outbuf \<Rightarrow> jnum \<Rightarrow> slice" where
  "replayFrom b off =
     (let start = startOffset b;
          from = (case resume_offset b off of None \<Rightarrow> start | Some n \<Rightarrow> n);
          gap = (if from < start then start - from else 0);
          base = (if from < start then start else from)
      in \<lparr>sl_base = base, sl_gap = gap, sl_next = totalBytes b, sl_data = sliceFrom b base\<rparr>)"

subsection \<open>The stream the buffer stands for\<close>

text \<open>
  The buffer holds a stream: it has counted all of it and retains a suffix of it, in chunks that
  are not empty.
\<close>

definition holds_stream :: "outbuf \<Rightarrow> byte list \<Rightarrow> bool" where
  "holds_stream b xs \<longleftrightarrow> ob_produced b = length xs \<and> ob_buffered b = length (concat (ob_chunks b))
     \<and> ob_buffered b \<le> length xs \<and> concat (ob_chunks b) = drop (length xs - ob_buffered b) xs
     \<and> [] \<notin> set (ob_chunks b)"

lemma holds_streamD:
  assumes "holds_stream b xs"
  shows "ob_produced b = length xs" "length (concat (ob_chunks b)) = ob_buffered b" "ob_buffered b \<le> length xs"
    "concat (ob_chunks b) = drop (length xs - ob_buffered b) xs" "[] \<notin> set (ob_chunks b)"
    "startOffset b = length xs - ob_buffered b" "totalBytes b = length xs"
proof -
  from assms have c: "ob_produced b = length xs" "ob_buffered b = length (concat (ob_chunks b))" "ob_buffered b \<le> length xs"
    "concat (ob_chunks b) = drop (length xs - ob_buffered b) xs" "[] \<notin> set (ob_chunks b)"
    unfolding holds_stream_def by blast+
  show "ob_produced b = length xs" "length (concat (ob_chunks b)) = ob_buffered b" "ob_buffered b \<le> length xs"
    "concat (ob_chunks b) = drop (length xs - ob_buffered b) xs" "[] \<notin> set (ob_chunks b)"
    by (fact c(1), rule c(2) [symmetric], fact c(3), fact c(4), fact c(5))
  show "startOffset b = length xs - ob_buffered b" "totalBytes b = length xs"
    by (simp_all only: startOffset_def totalBytes_def c(1))
qed

lemma evict_suffix:
  "evict cap cs (length (concat cs)) = (cs', n) \<Longrightarrow>
     \<exists>pre. cs = pre @ cs' \<and> n = length (concat cs') \<and> (cs \<noteq> [] \<longrightarrow> cs' \<noteq> [] \<and> last cs' = last cs)
       \<and> (n \<le> cap \<or> length cs' \<le> 1)"
proof (induction cs arbitrary: cs' n rule: induct_list012)
  case (3 c d cs)
  show ?case
  proof (cases "length (concat (c # d # cs)) > cap")
    case True
    with 3(3) have "evict cap (d # cs) (length (concat (d # cs))) = (cs', n)" by simp
    from 3(2) [OF this] obtain pre where "d # cs = pre @ cs'" "n = length (concat cs')" "cs' \<noteq> []"
      "last cs' = last (d # cs)" "n \<le> cap \<or> length cs' \<le> 1" by auto
    then show ?thesis by (intro exI [of _ "c # pre"]) auto
  next
    case False
    with 3(3) show ?thesis by auto
  qed
qed auto

lemma holds_new: "holds_stream (new_outbuf cap) []"
  by (simp add: holds_stream_def new_outbuf_def)

lemma holds_append:
  assumes h: "holds_stream b xs"
  shows "holds_stream (append_chunk b c) (xs @ c)"
proof (cases "c = []")
  case False
  note hd = holds_streamD [OF h]
  define ring where "ring = ob_chunks b @ [c]"
  have all: "length (concat ring) = ob_buffered b + length c" by (simp only: ring_def concat_append length_append hd(2)) simp
  obtain cs n where ev: "evict (ob_cap b) ring (length (concat ring)) = (cs, n)"
    by (cases "evict (ob_cap b) ring (length (concat ring))")
  from evict_suffix [OF this] obtain pre where pre: "ring = pre @ cs" "n = length (concat cs)" by blast
  have sum: "length (concat pre) + n = ob_buffered b + length c" using all by (simp add: pre)
  have "concat ring = drop (length xs - ob_buffered b) (xs @ c)" by (simp only: ring_def concat_append hd(4)) simp
  then have "concat cs = drop (length (concat pre)) (drop (length xs - ob_buffered b) (xs @ c))"
    by (metis pre(1) append_eq_conv_conj concat_append)
  also have "\<dots> = drop (length (concat pre) + (length xs - ob_buffered b)) (xs @ c)" by (simp only: drop_drop)
  also have "length (concat pre) + (length xs - ob_buffered b) = length (xs @ c) - n"
    using sum hd(3) by simp
  finally have suffix: "concat cs = drop (length (xs @ c) - n) (xs @ c)" .
  have n: "n \<le> length (xs @ c)" using sum hd(3) by simp
  have "set ring = insert c (set (ob_chunks b))" by (simp add: ring_def)
  with hd(5) False pre(1) have nn: "[] \<notin> set cs" by (metis Un_iff insert_iff set_append)
  have eq: "append_chunk b c = b\<lparr>ob_chunks := cs, ob_buffered := n, ob_produced := ob_produced b + length c\<rparr>"
    using False ev [unfolded all] by (simp add: append_chunk_def ring_def)
  have f: "ob_chunks (append_chunk b c) = cs" "ob_buffered (append_chunk b c) = n"
    "ob_produced (append_chunk b c) = length (xs @ c)" unfolding eq by (simp_all add: hd(1))
  show ?thesis unfolding holds_stream_def f
    by (intro conjI refl pre(2) n suffix nn)
qed (use h in \<open>simp add: append_chunk_def\<close>)

lemma concat_slice: "concat (slice_chunks skip cs) = drop skip (concat cs)"
  by (induction cs arbitrary: skip) auto

lemma sliceFrom_stream:
  assumes "holds_stream b xs" "startOffset b \<le> base"
  shows "sliceFrom b base = drop base xs"
  using assms(2) holds_streamD(3) [OF assms(1)]
  by (simp add: sliceFrom_def concat_slice holds_streamD(4,6) [OF assms(1)])

lemma replay_fields:
  assumes h: "holds_stream b xs"
  shows "sl_data (replayFrom b off) = drop (sl_base (replayFrom b off)) xs"
    "sl_next (replayFrom b off) = length xs" "sl_base (replayFrom b off) \<le> length xs"
    "sl_base (replayFrom b off) + length (sl_data (replayFrom b off)) = sl_next (replayFrom b off)"
proof -
  have so: "startOffset b \<le> length xs" using h by (simp add: holds_streamD(6))
  have t: "totalBytes b = length xs" by (rule holds_streamD(7) [OF h])
  have le: "resume_offset b off = Some n \<Longrightarrow> n \<le> length xs" for n
    by (auto simp: resume_offset_def t nat_le_iff split: jnum.splits if_splits)
  show d: "sl_data (replayFrom b off) = drop (sl_base (replayFrom b off)) xs"
    by (auto simp: replayFrom_def Let_def intro!: sliceFrom_stream [OF h])
  show n: "sl_next (replayFrom b off) = length xs" by (simp add: replayFrom_def Let_def t)
  show bl: "sl_base (replayFrom b off) \<le> length xs"
    using so le by (auto simp: replayFrom_def Let_def split: option.splits)
  show "sl_base (replayFrom b off) + length (sl_data (replayFrom b off)) = sl_next (replayFrom b off)"
    using bl by (simp add: d n)
qed

lemma resume_nat: "n \<le> totalBytes b \<Longrightarrow> resume_offset b (JFin (of_nat n)) = Some n"
  by (simp add: resume_offset_def)

lemma replay_nat:
  "n \<le> totalBytes b \<Longrightarrow> sl_base (replayFrom b (JFin (of_nat n))) = max n (startOffset b)
     \<and> sl_gap (replayFrom b (JFin (of_nat n))) = startOffset b - n"
  by (simp add: replayFrom_def Let_def resume_nat max_def)

subsection \<open>The interface a viewer relies on\<close>

text \<open>
  A viewer counts the bytes it was sent: output arrives while it is attached, and attaching resumes
  at its offset. Its screen has a cell per byte, empty for a byte it was told is lost. An event is
  output, or attaching, or detaching.
\<close>

fun viewer_step :: "('s \<Rightarrow> 'b list \<Rightarrow> 's) \<Rightarrow> ('s \<Rightarrow> nat \<Rightarrow> nat \<times> nat \<times> 'b list)
    \<Rightarrow> 's \<times> nat \<times> 'b option list \<times> bool \<Rightarrow> 'b list + bool \<Rightarrow> 's \<times> nat \<times> 'b option list \<times> bool" where
  "viewer_step push resume (s, pos, screen, live) (Inl out) =
     (push s out, if live then pos + length out else pos, if live then screen @ map Some out else screen, live)"
| "viewer_step push resume (s, pos, screen, live) (Inr att) =
     (if att then (case resume s pos of (gap, end_pos, data) \<Rightarrow> (s, end_pos, screen @ replicate gap None @ map Some data, True))
      else (s, pos, screen, False))"

lemma viewer_attached: "snd (snd (snd (viewer_step push resume c (Inr True))))"
  by (cases c) (simp split: prod.split)

definition output_of :: "('b list + bool) list \<Rightarrow> 'b list" where
  "output_of evs = concat (map (\<lambda>ev. case ev of Inl out \<Rightarrow> out | Inr _ \<Rightarrow> []) evs)"

text \<open>
  A resumable stream: pushing extends what it stands for, and resuming at an offset the viewer has
  reached gives the rest of the stream after an announced gap.
\<close>

locale resumable =
  fixes push :: "'s \<Rightarrow> 'b list \<Rightarrow> 's"
    and resume :: "'s \<Rightarrow> nat \<Rightarrow> nat \<times> nat \<times> 'b list"
    and holds :: "'s \<Rightarrow> 'b list \<Rightarrow> bool"
  assumes holds_push: "holds s xs \<Longrightarrow> holds (push s c) (xs @ c)"
    and resume_rest: "holds s xs \<Longrightarrow> n \<le> length xs \<Longrightarrow> resume s n = (gap, end_pos, data) \<Longrightarrow>
      n + gap \<le> length xs \<and> end_pos = length xs \<and> data = drop (n + gap) xs"
begin

fun viewer_ok :: "'b list \<Rightarrow> 's \<times> nat \<times> 'b option list \<times> bool \<Rightarrow> bool" where
  "viewer_ok xs (s, pos, screen, live) \<longleftrightarrow> holds s xs \<and> pos = length screen \<and> pos \<le> length xs
     \<and> (live \<longrightarrow> pos = length xs) \<and> list_all2 (\<lambda>cell b. cell = None \<or> cell = Some b) screen (take pos xs)"

lemma viewer_step_ok:
  assumes "viewer_ok xs c"
  shows "viewer_ok (xs @ output_of [ev]) (viewer_step push resume c ev)"
proof -
  obtain s pos screen live where c: "c = (s, pos, screen, live)" by (cases c)
  have ok: "holds s xs" "pos = length screen" "pos \<le> length xs" "live \<longrightarrow> pos = length xs"
    "list_all2 (\<lambda>cell b. cell = None \<or> cell = Some b) screen (take pos xs)"
    using assms unfolding c viewer_ok.simps by blast+
  have some: "list_all2 (\<lambda>cell b. cell = None \<or> cell = Some b) (map Some ys) ys" for ys :: "'b list"
    by (simp add: list_all2_conv_all_nth)
  show ?thesis
  proof (cases ev)
    case (Inl out)
    with ok some [of out] show ?thesis
      by (auto simp: c output_of_def holds_push intro!: list_all2_appendI)
  next
    case (Inr att)
    show ?thesis
    proof (cases att)
      case True
      obtain gap end_pos data where r: "resume s pos = (gap, end_pos, data)" by (cases "resume s pos")
      note rr = resume_rest [OF ok(1) ok(3) r]
      have none: "list_all2 (\<lambda>cell b. cell = None \<or> cell = Some b) (replicate gap None) (take gap (drop pos xs))"
        using conjunct1 [OF rr] by (simp add: list_all2_conv_all_nth)
      have "xs = take pos xs @ take gap (drop pos xs) @ drop (pos + gap) xs"
        by (metis add.commute append_take_drop_id drop_drop)
      then have "list_all2 (\<lambda>cell b. cell = None \<or> cell = Some b)
          (screen @ replicate gap None @ map Some (drop (pos + gap) xs)) xs"
        using list_all2_appendI [OF ok(5) list_all2_appendI [OF none some [of "drop (pos + gap) xs"]]] by metis
      moreover from this have "length (screen @ replicate gap None @ map Some (drop (pos + gap) xs)) = length xs"
        by (rule list_all2_lengthD)
      moreover have "viewer_step push resume c ev = (s, end_pos, screen @ replicate gap None @ map Some data, True)"
        using Inr True r by (simp add: c)
      moreover have "output_of [ev] = []" using Inr by (simp add: output_of_def)
      ultimately show ?thesis using ok(1) rr by simp
    qed (use Inr ok in \<open>simp add: c output_of_def\<close>)
  qed
qed

lemma viewer_run_ok: "viewer_ok xs c \<Longrightarrow> viewer_ok (xs @ output_of evs) (foldl (viewer_step push resume) c evs)"
proof (induction evs arbitrary: xs c)
  case (Cons ev evs)
  have "output_of (ev # evs) = output_of [ev] @ output_of evs" by (simp add: output_of_def)
  then show ?case using Cons.IH [OF viewer_step_ok [OF Cons.prems, of ev]] by simp
qed (simp add: output_of_def)

end

definition resume_at :: "outbuf \<Rightarrow> nat \<Rightarrow> nat \<times> nat \<times> byte list" where
  "resume_at b n = (let r = replayFrom b (JFin (of_nat n)) in (sl_gap r, sl_next r, sl_data r))"

interpretation pty: resumable append_chunk resume_at holds_stream
proof
  fix b xs c
  assume "holds_stream b xs"
  then show "holds_stream (append_chunk b c) (xs @ c)" by (rule holds_append)
next
  fix b xs n gap end_pos data
  assume h: "holds_stream b xs" and n: "n \<le> length xs" and r: "resume_at b n = (gap, end_pos, data)"
  have t: "n \<le> totalBytes b" using n by (simp add: holds_streamD(7) [OF h])
  note f = replay_fields [OF h, of "JFin (of_nat n)"] replay_nat [OF t]
  have "startOffset b \<le> length xs" by (simp add: holds_streamD(6) [OF h])
  with n have "n + gap = sl_base (replayFrom b (JFin (of_nat n)))"
    using r f(5) by (auto simp: resume_at_def Let_def max_def)
  with r f show "n + gap \<le> length xs \<and> end_pos = length xs \<and> data = drop (n + gap) xs"
    by (auto simp: resume_at_def Let_def)
qed

subsection \<open>Properties\<close>

lemma holds_run: "holds_stream (foldl append_chunk (new_outbuf cap) cs) (concat cs)"
proof -
  have "holds_stream b xs \<Longrightarrow> holds_stream (foldl append_chunk b cs) (xs @ concat cs)" for b xs
    by (induction cs arbitrary: b xs) (simp, metis append_assoc concat.simps(2) foldl_Cons holds_append)
  from this [OF holds_new] show ?thesis by simp
qed


text \<open>
  A viewer that detaches and attaches again at any moments, resuming at its own offset, has one
  cell per byte of the stream after every attach: no byte twice, none skipped, and a cell is empty
  only where the replay announced a gap.
\<close>
theorem viewer_sees_stream:
  assumes "foldl (viewer_step append_chunk resume_at) (new_outbuf cap, 0, [], False) (evs @ [Inr True]) = (b, pos, screen, live)"
  shows "list_all2 (\<lambda>cell byte. cell = None \<or> cell = Some byte) screen (output_of evs)
    \<and> pos = length (output_of evs)"
proof -
  have start: "pty.viewer_ok [] (new_outbuf cap, 0, [], False)" by (simp add: holds_new)
  have out: "output_of (evs @ [Inr True]) = output_of evs" by (simp add: output_of_def)
  from pty.viewer_run_ok [OF start, of "evs @ [Inr True]"]
  have ok: "pty.viewer_ok (output_of evs) (b, pos, screen, live)" by (simp only: assms out append_Nil)
  have "live"
    using assms viewer_attached [of append_chunk resume_at "foldl (viewer_step append_chunk resume_at) (new_outbuf cap, 0, [], False) evs"]
    by simp
  with ok have "pos = length (output_of evs)"
    "list_all2 (\<lambda>cell byte. cell = None \<or> cell = Some byte) screen (take pos (output_of evs))"
    unfolding pty.viewer_ok.simps by blast+
  then show ?thesis by simp
qed

theorem viewer_sees_stream_witness:
  "list_all2 (\<lambda>cell byte. cell = None \<or> cell = Some byte) [None, None, Some (3::byte), Some 4] [1, 2, 3, 4]"
proof -
  define evs :: "(byte list + bool) list" where "evs = [Inl [1, 2], Inl [3, 4]]"
  have "foldl (viewer_step append_chunk resume_at) (new_outbuf 2, 0, [], False) (evs @ [Inr True])
      = (\<lparr>ob_cap = 2, ob_chunks = [[3, 4]], ob_buffered = 2, ob_produced = 4\<rparr>, 4, [None, None, Some 3, Some 4], True)"
    unfolding evs_def by code_simp
  from viewer_sees_stream [OF this] show ?thesis by (simp add: output_of_def evs_def)
qed

text \<open>
  The ring stays within its cap, except that the newest chunk is always kept whole, and what
  is lost to a viewer is exactly what was evicted: the gap is the distance from its offset to the
  first byte retained.
\<close>
theorem ring_is_bounded:
  assumes "n \<le> length (concat cs)"
  shows "let b = foldl append_chunk (new_outbuf cap) cs
    in (ob_buffered b \<le> cap \<or> length (ob_chunks b) = 1)
      \<and> sl_gap (replayFrom b (JFin (of_nat n))) = startOffset b - n
      \<and> ob_buffered b = length (concat (ob_chunks b))"
proof -
  define b where "b = foldl append_chunk (new_outbuf cap) cs"
  note h = holds_run [of cap cs, folded b_def]
  have one: "ob_buffered (append_chunk a c) \<le> ob_cap (append_chunk a c) \<or> length (ob_chunks (append_chunk a c)) = 1"
    if "ob_buffered a \<le> ob_cap a \<or> length (ob_chunks a) = 1" "holds_stream a xs" for a c xs
  proof (cases "c = []")
    case False
    have all: "ob_buffered a + length c = length (concat (ob_chunks a @ [c]))" by (simp add: holds_streamD(2) [OF that(2), symmetric] length_concat [symmetric])
    obtain ds m where ev: "evict (ob_cap a) (ob_chunks a @ [c]) (length (concat (ob_chunks a @ [c]))) = (ds, m)"
      by (cases "evict (ob_cap a) (ob_chunks a @ [c]) (length (concat (ob_chunks a @ [c])))")
    from evict_suffix [OF ev] have "ds \<noteq> []" "m \<le> ob_cap a \<or> length ds \<le> 1" by auto
    then have "m \<le> ob_cap a \<or> length ds = 1" by (cases ds) auto
    moreover have "append_chunk a c = a\<lparr>ob_chunks := ds, ob_buffered := m, ob_produced := ob_produced a + length c\<rparr>"
      using False ev by (simp add: append_chunk_def all)
    ultimately show ?thesis by simp
  qed (use that in \<open>simp add: append_chunk_def\<close>)
  have "ob_buffered (foldl append_chunk a cs) \<le> ob_cap (foldl append_chunk a cs)
      \<or> length (ob_chunks (foldl append_chunk a cs)) = 1"
    if "ob_buffered a \<le> ob_cap a \<or> length (ob_chunks a) = 1" "holds_stream a xs" for a xs
    using that by (induction cs arbitrary: a xs) (simp, metis foldl_Cons holds_append one)
  from this [OF _ holds_new, of cap] have "ob_buffered b \<le> ob_cap b \<or> length (ob_chunks b) = 1"
    by (simp add: b_def new_outbuf_def)
  moreover have "ob_cap (foldl append_chunk a cs) = ob_cap a" for a
    by (induction cs arbitrary: a) (simp_all add: append_chunk_def split: prod.split)
  then have "ob_cap b = cap" by (simp add: b_def new_outbuf_def)
  moreover have "n \<le> totalBytes b" using assms by (simp add: holds_streamD(7) [OF h])
  ultimately show ?thesis
    using replay_nat [of n b] holds_streamD(2) [OF h] by (simp add: Let_def b_def)
qed

theorem ring_is_bounded_witness:
  "sl_gap (replayFrom (foldl append_chunk (new_outbuf 2) [[1, 2], [3, 4 :: byte]]) (JFin (of_nat 1))) = 1"
proof -
  have "startOffset (foldl append_chunk (new_outbuf 2) [[1, 2], [3, 4 :: byte]]) = 2" by code_simp
  with ring_is_bounded [of 1 "[[1, 2], [3, 4 :: byte]]" 2] show ?thesis by (simp add: Let_def)
qed

end
