(* ===== verification/Streams.thy ===== *)
theory Streams
  imports Prelude
begin

text \<open>
  The small stream pieces of the execution package: the queue of one model turn
  (\<open>runtime/AsyncTurnQueue.ts\<close>), the line splitter with a bound on unfinished lines
  (\<open>runtime/BoundedLines.ts\<close>) and the waiter for prompt outcomes
  (\<open>pty/PromptSettlementWaiter.ts\<close>). A promise is the number it was created under; what it
  settled to is recorded in the state.
\<close>

subsection \<open>The turn queue\<close>

datatype 'a read_result = Item 'a | Done

record 'a turn_queue =
  tq_buffered :: "'a list"
  tq_readers :: "nat list"
  tq_ended :: bool
  tq_claimed :: bool
  tq_promises :: nat
  tq_settled :: "(nat \<times> 'a read_result) list"

definition new_queue :: "'a turn_queue" where
  "new_queue = \<lparr>tq_buffered = [], tq_readers = [], tq_ended = False, tq_claimed = False, tq_promises = 0, tq_settled = []\<rparr>"

definition tq_push :: "'a \<Rightarrow> 'a turn_queue \<Rightarrow> 'a turn_queue" where
  "tq_push item q =
     (if tq_ended q then q
      else (case tq_readers q of
          r # rs \<Rightarrow> q\<lparr>tq_readers := rs, tq_settled := tq_settled q @ [(r, Item item)]\<rparr>
        | [] \<Rightarrow> q\<lparr>tq_buffered := tq_buffered q @ [item]\<rparr>))"

definition tq_end :: "'a turn_queue \<Rightarrow> 'a turn_queue" where
  "tq_end q =
     (if tq_ended q then q
      else q\<lparr>tq_ended := True, tq_readers := [], tq_settled := tq_settled q @ map (\<lambda>r. (r, Done)) (tq_readers q)\<rparr>)"

text \<open>Claiming the iterator; the second claim throws.\<close>

definition tq_iterator :: "'a turn_queue \<Rightarrow> 'a turn_queue option" where
  "tq_iterator q = (if tq_claimed q then None else Some (q\<lparr>tq_claimed := True\<rparr>))"

definition tq_next :: "'a turn_queue \<Rightarrow> 'a turn_queue" where
  "tq_next q =
     (let p = tq_promises q; q1 = q\<lparr>tq_promises := Suc p\<rparr> in
      case tq_buffered q of
        x # xs \<Rightarrow> q1\<lparr>tq_buffered := xs, tq_settled := tq_settled q @ [(p, Item x)]\<rparr>
      | [] \<Rightarrow> if tq_ended q then q1\<lparr>tq_settled := tq_settled q @ [(p, Done)]\<rparr>
              else q1\<lparr>tq_readers := tq_readers q @ [p]\<rparr>)"

datatype 'a queue_op = Push 'a | End | Next

fun queue_step :: "'a turn_queue \<Rightarrow> 'a queue_op \<Rightarrow> 'a turn_queue" where
  "queue_step q (Push x) = tq_push x q"
| "queue_step q End = tq_end q"
| "queue_step q Next = tq_next q"

text \<open>What a run puts in before its end, how often it reads and whether it ended.\<close>

fun pushed :: "'a queue_op list \<Rightarrow> 'a list" where
  "pushed [] = []"
| "pushed (Push x # ops) = x # pushed ops"
| "pushed (End # ops) = []"
| "pushed (Next # ops) = pushed ops"

definition reads :: "'a queue_op list \<Rightarrow> nat" where
  "reads ops = length (filter (\<lambda>op. op = Next) ops)"

definition read_spec :: "'a list \<Rightarrow> bool \<Rightarrow> nat \<Rightarrow> nat \<Rightarrow> 'a read_result option" where
  "read_spec ins ended n k =
     (if k \<ge> n then None else if k < length ins then Some (Item (ins ! k)) else if ended then Some Done else None)"

definition queue_holds :: "'a list \<Rightarrow> bool \<Rightarrow> nat \<Rightarrow> 'a turn_queue \<Rightarrow> bool" where
  "queue_holds ins ended n q \<longleftrightarrow>
     tq_buffered q = drop n ins \<and> tq_readers q = (if ended then [] else [length ins..<n])
     \<and> tq_ended q = ended \<and> tq_promises q = n \<and> map_of (tq_settled q) = read_spec ins ended n"

lemma map_of_snoc: "map_of (al @ [(k, v)]) = (\<lambda>x. case map_of al x of Some w \<Rightarrow> Some w | None \<Rightarrow> if x = k then Some v else None)"
  by (simp add: map_add_def fun_eq_iff split: option.split)

lemma map_of_done: "map_of (map (\<lambda>r. (r, d)) rs) = (\<lambda>x. if x \<in> set rs then Some d else None)"
  by (induction rs) auto

lemma push_holds:
  assumes "queue_holds ins False n q"
  shows "queue_holds (ins @ [x]) False n (tq_push x q)"
proof (cases "length ins < n")
  case True
  then have "[length ins..<n] = length ins # [Suc (length ins)..<n]" by (rule upt_conv_Cons)
  with assms True show ?thesis
    by (auto simp: queue_holds_def tq_push_def map_of_snoc read_spec_def nth_append fun_eq_iff simp del: map_of_append
        split: option.split)
next
  case False
  with assms show ?thesis
    by (auto simp: queue_holds_def tq_push_def read_spec_def nth_append fun_eq_iff)
qed

lemma end_holds: "queue_holds ins False n q \<Longrightarrow> queue_holds ins True n (tq_end q)"
  by (auto simp: queue_holds_def tq_end_def map_of_done map_add_def read_spec_def fun_eq_iff split: option.split)

lemma next_holds:
  assumes "queue_holds ins ended n q"
  shows "queue_holds ins ended (Suc n) (tq_next q)"
proof (cases "n < length ins")
  case True
  then have "drop n ins = ins ! n # drop (Suc n) ins" by (simp add: Cons_nth_drop_Suc)
  with assms True show ?thesis
    by (auto simp: queue_holds_def tq_next_def Let_def map_of_snoc read_spec_def fun_eq_iff not_less_eq_eq simp del: map_of_append
        dest: le_antisym
        split: option.split)
next
  case False
  with assms show ?thesis
    by (auto simp: queue_holds_def tq_next_def Let_def map_of_snoc read_spec_def fun_eq_iff not_less_eq_eq simp del: map_of_append
        dest: le_antisym
        split: option.split)
qed

lemma ended_stays:
  "queue_holds ins True n q \<Longrightarrow> queue_holds ins True (n + reads ops) (foldl queue_step q ops)"
proof (induction ops arbitrary: n q)
  case (Cons op ops)
  show ?case
  proof (cases op)
    case Next
    with Cons.IH [OF next_holds [OF Cons.prems]] show ?thesis by (simp add: reads_def)
  qed (use Cons in \<open>auto simp: tq_push_def tq_end_def reads_def queue_holds_def\<close>)
qed (simp add: reads_def)

lemma run_holds:
  "queue_holds ins False n q \<Longrightarrow>
     queue_holds (ins @ pushed ops) (End \<in> set ops) (n + reads ops) (foldl queue_step q ops)"
proof (induction ops arbitrary: ins n q)
  case (Cons op ops)
  show ?case
  proof (cases op)
    case (Push x)
    with Cons.IH [OF push_holds [OF Cons.prems]] show ?thesis by (simp add: reads_def)
  next
    case End
    with ended_stays [OF end_holds [OF Cons.prems], of ops] show ?thesis by (simp add: reads_def)
  next
    case Next
    with Cons.IH [OF next_holds [OF Cons.prems]] show ?thesis by (simp add: reads_def)
  qed
qed (simp add: reads_def)

text \<open>
  C7: The queue is first in, first out under every interleaving of pushes, reads and the end: the
  k-th read settles to the k-th item pushed before the end, to done when there is none and the
  queue has ended, and stays open otherwise; nothing is lost, duplicated or settled twice.
\<close>
theorem turn_queue_fifo:
  "map_of (tq_settled (foldl queue_step new_queue ops)) k
     = read_spec (pushed ops) (End \<in> set ops) (reads ops) k"
proof -
  have "queue_holds [] False 0 (new_queue :: 'a turn_queue)"
    by (auto simp: queue_holds_def new_queue_def read_spec_def fun_eq_iff)
  from run_holds [OF this, of ops] show ?thesis by (simp add: queue_holds_def)
qed

subsection \<open>Bounded lines\<close>

datatype line_event = Line string | Overflow

record line_state =
  ls_pending :: string
  ls_closed :: bool

definition newline :: char where "newline = CHR 0x0A"

text \<open>\<open>pending.replace(/\r$/, '')\<close>\<close>

definition strip_cr :: "string \<Rightarrow> string" where
  "strip_cr s = (if s \<noteq> [] \<and> last s = CHR 0x0D then butlast s else s)"

text \<open>
  The loop of \<open>accept\<close> over the parts of a text; the flag says that the part follows a newline.
  The consumer may close the splitter while it handles a line: \<open>stop\<close> says on which.
\<close>

fun accept_parts :: "(string \<Rightarrow> bool) \<Rightarrow> nat \<Rightarrow> line_state \<Rightarrow> bool \<Rightarrow> string list \<Rightarrow> line_state \<times> line_event list" where
  "accept_parts stop m st after_newline [] = (st, [])"
| "accept_parts stop m st after_newline (part # parts) =
     (let line = strip_cr (ls_pending st);
          st1 = (if after_newline then \<lparr>ls_pending = [], ls_closed = ls_closed st \<or> stop line\<rparr> else st);
          out = (if after_newline then [Line line] else [])
      in if ls_closed st1 then (st1, out)
         else if length (ls_pending st1) + length part > m then (\<lparr>ls_pending = [], ls_closed = True\<rparr>, out @ [Overflow])
         else (let (st2, outs) = accept_parts stop m (st1\<lparr>ls_pending := ls_pending st1 @ part\<rparr>) True parts
               in (st2, out @ outs)))"

definition accept :: "(string \<Rightarrow> bool) \<Rightarrow> nat \<Rightarrow> line_state \<Rightarrow> string \<Rightarrow> line_state \<times> line_event list" where
  "accept stop m st str =
     (if ls_closed st then (st, []) else accept_parts stop m st False (split_on newline str))"

definition finish_lines :: "(string \<Rightarrow> bool) \<Rightarrow> nat \<Rightarrow> line_state \<Rightarrow> string \<Rightarrow> line_state \<times> line_event list" where
  "finish_lines stop m st tail_text =
     (let (st1, outs) = accept stop m st tail_text;
          closing = \<not> ls_closed st1 \<and> ls_pending st1 \<noteq> []
      in (\<lparr>ls_pending = [], ls_closed = ls_closed st1 \<or> closing \<and> stop (ls_pending st1)\<rparr>,
          outs @ (if closing then [Line (ls_pending st1)] else [])))"

definition open_lines :: line_state where
  "open_lines = \<lparr>ls_pending = [], ls_closed = False\<rparr>"

text \<open>Feeding texts one after the other, collecting the events.\<close>

fun feed_all :: "(line_state \<Rightarrow> 'c \<Rightarrow> line_state \<times> line_event list) \<Rightarrow> line_state \<Rightarrow> 'c list \<Rightarrow> line_state \<times> line_event list" where
  "feed_all f st [] = (st, [])"
| "feed_all f st (c # cs) = (let (st1, out) = f st c; (st2, outs) = feed_all f st1 cs in (st2, out @ outs))"

text \<open>The reference: one character at a time.\<close>

definition feed_char :: "(string \<Rightarrow> bool) \<Rightarrow> nat \<Rightarrow> line_state \<Rightarrow> char \<Rightarrow> line_state \<times> line_event list" where
  "feed_char stop m st c =
     (if ls_closed st then (st, [])
      else if c = newline then (\<lparr>ls_pending = [], ls_closed = stop (strip_cr (ls_pending st))\<rparr>, [Line (strip_cr (ls_pending st))])
      else if length (ls_pending st) + 1 > m then (\<lparr>ls_pending = [], ls_closed = True\<rparr>, [Overflow])
      else (st\<lparr>ls_pending := ls_pending st @ [c]\<rparr>, []))"

lemma feed_char_simps:
  "ls_closed st \<Longrightarrow> feed_char stop m st c = (st, [])"
  "\<not> ls_closed st \<Longrightarrow> feed_char stop m st newline =
     (\<lparr>ls_pending = [], ls_closed = stop (strip_cr (ls_pending st))\<rparr>, [Line (strip_cr (ls_pending st))])"
  "\<not> ls_closed st \<Longrightarrow> c \<noteq> newline \<Longrightarrow> feed_char stop m st c =
     (if length (ls_pending st) + 1 > m then (\<lparr>ls_pending = [], ls_closed = True\<rparr>, [Overflow])
      else (st\<lparr>ls_pending := ls_pending st @ [c]\<rparr>, []))"
  by (simp_all add: feed_char_def)

lemma feed_all_append:
  "feed_all f st (xs @ ys) = (let (st1, out) = feed_all f st xs; (st2, outs) = feed_all f st1 ys in (st2, out @ outs))"
  by (induction xs arbitrary: st) (simp_all split: prod.split)

lemma feed_closed: "ls_closed st \<Longrightarrow> feed_all (feed_char stop m) st cs = (st, [])"
  by (induction cs) (simp_all add: feed_char_simps)

lemma feed_part:
  assumes "newline \<notin> set part" "\<not> ls_closed st" "length (ls_pending st) \<le> m"
  shows "feed_all (feed_char stop m) st part =
    (if length (ls_pending st) + length part > m then (\<lparr>ls_pending = [], ls_closed = True\<rparr>, [Overflow])
     else (st\<lparr>ls_pending := ls_pending st @ part\<rparr>, []))"
  using assms
proof (induction part arbitrary: st)
  case (Cons c part)
  show ?case
  proof (cases "length (ls_pending st) + 1 > m")
    case True
    with Cons.prems show ?thesis by (auto simp: feed_char_simps feed_closed)
  next
    case False
    with Cons.prems have "feed_char stop m st c = (st\<lparr>ls_pending := ls_pending st @ [c]\<rparr>, [])"
      by (subst feed_char_simps(3)) auto
    with Cons.IH [of "st\<lparr>ls_pending := ls_pending st @ [c]\<rparr>"] Cons.prems False show ?thesis by auto
  qed
qed simp

lemma accept_parts_chars:
  assumes "\<forall>p \<in> set parts. newline \<notin> set p" "\<not> ls_closed st" "length (ls_pending st) \<le> m" "parts \<noteq> []"
  shows "accept_parts stop m st after_newline parts =
    feed_all (feed_char stop m) st ((if after_newline then [newline] else []) @ join_with [newline] parts)"
  using assms
proof (induction parts arbitrary: st after_newline)
  case (Cons p parts)
  define st1 where "st1 = (if after_newline then \<lparr>ls_pending = [], ls_closed = stop (strip_cr (ls_pending st))\<rparr> else st)"
  define out where "out = (if after_newline then [Line (strip_cr (ls_pending st))] else [])"
  define rest where "rest = (if parts = [] then [] else newline # join_with [newline] parts)"
  have join: "join_with [newline] (p # parts) = p @ rest" by (cases parts) (simp_all add: rest_def)
  have first: "feed_all (feed_char stop m) st (if after_newline then [newline] else []) = (st1, out)"
    using Cons.prems by (simp add: feed_char_simps st1_def out_def)
  have eq: "accept_parts stop m st after_newline (p # parts) =
      (if ls_closed st1 then (st1, out)
       else if length (ls_pending st1) + length p > m then (\<lparr>ls_pending = [], ls_closed = True\<rparr>, out @ [Overflow])
       else (let (st2, outs) = accept_parts stop m (st1\<lparr>ls_pending := ls_pending st1 @ p\<rparr>) True parts in (st2, out @ outs)))"
    using Cons.prems by (simp add: st1_def out_def Let_def)
  have len: "length (ls_pending st1) \<le> m" using Cons.prems by (simp add: st1_def)
  show ?case
  proof (cases "ls_closed st1")
    case True
    then show ?thesis by (simp add: eq feed_all_append first feed_closed del: accept_parts.simps)
  next
    case opn: False
    note part = feed_part [of p st1 m stop, OF _ opn len]
    show ?thesis
    proof (cases "length (ls_pending st1) + length p > m")
      case True
      with opn part Cons.prems show ?thesis
        by (simp add: eq join feed_all_append first feed_closed del: accept_parts.simps)
    next
      case False
      define st2 where "st2 = st1\<lparr>ls_pending := ls_pending st1 @ p\<rparr>"
      have "accept_parts stop m st2 True parts = feed_all (feed_char stop m) st2 rest"
      proof (cases "parts = []")
        case ne: False
        have "\<not> ls_closed st2" "length (ls_pending st2) \<le> m" using opn False by (simp_all add: st2_def)
        from Cons.IH [OF _ this ne, of True] Cons.prems(1) ne show ?thesis by (simp add: rest_def)
      qed (simp add: rest_def)
      with opn part False Cons.prems show ?thesis
        by (simp add: eq join feed_all_append first st2_def del: accept_parts.simps)
    qed
  qed
qed simp

lemma split_on_no_newline: "p \<in> set (split_on c s) \<Longrightarrow> c \<notin> set p"
  by (induction s arbitrary: p) (auto split: if_splits list.splits)

lemma accept_chars:
  "length (ls_pending st) \<le> m \<Longrightarrow> accept stop m st str = feed_all (feed_char stop m) st str"
  using accept_parts_chars [of "split_on newline str" st m stop False] split_on_no_newline
  by (auto simp: accept_def feed_closed)

lemma feed_char_bound: "length (ls_pending st) \<le> m \<Longrightarrow> feed_char stop m st c = (st', out) \<Longrightarrow> length (ls_pending st') \<le> m"
  by (auto simp: feed_char_def split: if_splits)

lemma feed_bound:
  "length (ls_pending st) \<le> m \<Longrightarrow> length (ls_pending (fst (feed_all (feed_char stop m) st cs))) \<le> m"
proof (induction cs arbitrary: st)
  case (Cons c cs)
  obtain st1 out where c: "feed_char stop m st c = (st1, out)" by (cases "feed_char stop m st c")
  from Cons.IH [OF feed_char_bound [OF Cons.prems c]] c show ?case by (simp add: case_prod_beta)
qed simp

lemma accept_all_chars:
  "length (ls_pending st) \<le> m \<Longrightarrow> feed_all (accept stop m) st txts = feed_all (feed_char stop m) st (concat txts)"
proof (induction txts arbitrary: st)
  case (Cons str txts)
  from Cons.IH [OF feed_bound [OF Cons.prems, of stop str]] Cons.prems show ?case
    by (simp add: accept_chars feed_all_append case_prod_beta Let_def)
qed simp

text \<open>
  However the stream is cut into chunks, the splitter reports the same events and ends in the
  same state, those of one character at a time, and it never holds more than the bound.
\<close>
theorem lines_ignore_chunking:
  "feed_all (accept stop m) open_lines texts = accept stop m open_lines (concat texts)
   \<and> accept stop m open_lines (concat texts) = feed_all (feed_char stop m) open_lines (concat texts)
   \<and> length (ls_pending (fst (feed_all (accept stop m) open_lines texts))) \<le> m"
  using accept_all_chars [of open_lines m stop texts] accept_chars [of open_lines m stop "concat texts"]
    feed_bound [of open_lines m stop "concat texts"]
  by (simp add: open_lines_def)

lemma accept_parts_after:
  assumes "\<forall>p \<in> set parts. length p \<le> m" "parts \<noteq> []" "\<not> ls_closed st"
  shows "accept_parts (\<lambda>_. False) m st True parts =
    (\<lparr>ls_pending = last parts, ls_closed = False\<rparr>,
     Line (strip_cr (ls_pending st)) # map (\<lambda>p. Line (strip_cr p)) (butlast parts))"
  using assms
proof (induction parts arbitrary: st)
  case (Cons p parts)
  then show ?case by (cases "parts = []") (simp_all add: Let_def)
qed simp

lemma accept_parts_lines:
  assumes "\<forall>p \<in> set parts. length p \<le> m" "parts \<noteq> []"
  shows "accept_parts (\<lambda>_. False) m open_lines False parts =
    (\<lparr>ls_pending = last parts, ls_closed = False\<rparr>, map (\<lambda>p. Line (strip_cr p)) (butlast parts))"
proof (cases parts)
  case (Cons p ps)
  then show ?thesis using assms accept_parts_after [of ps m "\<lparr>ls_pending = p, ls_closed = False\<rparr>"]
    by (cases "ps = []") (simp_all add: open_lines_def Let_def)
qed (use assms in simp)

text \<open>
  With lines within the bound and a consumer that stays, every line that a newline finished is
  reported, in order, once and without its carriage return, and what follows the last newline is
  kept for the next chunk, whatever the chunks.
\<close>
theorem lines_are_the_lines:
  assumes "\<forall>p \<in> set (split_on newline (concat texts)). length p \<le> m"
  shows "feed_all (accept (\<lambda>_. False) m) open_lines texts =
    (\<lparr>ls_pending = last (split_on newline (concat texts)), ls_closed = False\<rparr>,
     map (\<lambda>p. Line (strip_cr p)) (butlast (split_on newline (concat texts))))"
proof -
  define parts where "parts = split_on newline (concat texts)"
  have ne: "parts \<noteq> []" by (simp add: parts_def)
  have "accept (\<lambda>_. False) m open_lines (concat texts) = accept_parts (\<lambda>_. False) m open_lines False parts"
    by (simp add: accept_def open_lines_def parts_def)
  also have "\<dots> = (\<lparr>ls_pending = last parts, ls_closed = False\<rparr>, map (\<lambda>p. Line (strip_cr p)) (butlast parts))"
    using assms ne by (intro accept_parts_lines) (simp_all add: parts_def)
  finally show ?thesis
    using lines_ignore_chunking [of "\<lambda>_. False" m texts] by (simp add: parts_def)
qed

theorem lines_are_the_lines_witness:
  "feed_all (accept (\<lambda>_. False) 3) open_lines [''a'', [CHR 0x0D, CHR 0x0A], ''bc'', [CHR 0x0A, CHR ''d'']] =
    (\<lparr>ls_pending = ''d'', ls_closed = False\<rparr>, [Line ''a'', Line ''bc''])"
proof -
  have s: "split_on newline (concat [''a'', [CHR 0x0D, CHR 0x0A], ''bc'', [CHR 0x0A, CHR ''d'']])
      = [[CHR ''a'', CHR 0x0D], ''bc'', ''d'']" by code_simp
  have m: "map (\<lambda>p. Line (strip_cr p)) (butlast [[CHR ''a'', CHR 0x0D], ''bc'', ''d'']) = [Line ''a'', Line ''bc'']" by code_simp
  show ?thesis
    using lines_are_the_lines [of "[''a'', [CHR 0x0D, CHR 0x0A], ''bc'', [CHR 0x0A, CHR ''d'']]" 3, unfolded s m] by simp
qed

subsection \<open>Prompt settlements\<close>

datatype prompt_outcome = Delivered | Unknown

record waiter =
  w_pending :: "(string \<times> nat) list"
  w_promises :: nat
  w_settled :: "(nat \<times> prompt_outcome \<times> string option) list"

definition new_waiter :: waiter where
  "new_waiter = \<lparr>w_pending = [], w_promises = 0, w_settled = []\<rparr>"

definition awaitOutcome :: "string \<Rightarrow> waiter \<Rightarrow> waiter" where
  "awaitOutcome d w = w\<lparr>w_pending := AList.update d (w_promises w) (w_pending w), w_promises := Suc (w_promises w)\<rparr>"

definition settle :: "string \<Rightarrow> prompt_outcome \<Rightarrow> string option \<Rightarrow> waiter \<Rightarrow> waiter" where
  "settle d outcome rsn w = (case map_of (w_pending w) d of
      None \<Rightarrow> w
    | Some p \<Rightarrow> w\<lparr>w_pending := AList.delete d (w_pending w), w_settled := w_settled w @ [(p, outcome, rsn)]\<rparr>)"

definition cancel_wait :: "string \<Rightarrow> waiter \<Rightarrow> waiter" where
  "cancel_wait d w = w\<lparr>w_pending := AList.delete d (w_pending w)\<rparr>"

datatype wait_op = Await string | Settle string prompt_outcome "string option" | CancelWait string

fun wait_step :: "waiter \<Rightarrow> wait_op \<Rightarrow> waiter" where
  "wait_step w (Await d) = awaitOutcome d w"
| "wait_step w (Settle d out rsn) = settle d out rsn w"
| "wait_step w (CancelWait d) = cancel_wait d w"

fun delivery_of :: "wait_op \<Rightarrow> string" where
  "delivery_of (Await d) = d"
| "delivery_of (Settle d _ _) = d"
| "delivery_of (CancelWait d) = d"

text \<open>Promises are numbered in order, waited for under one delivery, and settle at most once.\<close>

definition waiter_ok :: "waiter \<Rightarrow> bool" where
  "waiter_ok w \<longleftrightarrow> distinct (map fst (w_settled w))
     \<and> (\<forall>p \<in> set (map fst (w_settled w)). p < w_promises w)
     \<and> (\<forall>d p. map_of (w_pending w) d = Some p \<longrightarrow> p < w_promises w \<and> p \<notin> set (map fst (w_settled w)))
     \<and> (\<forall>d e p. map_of (w_pending w) d = Some p \<longrightarrow> map_of (w_pending w) e = Some p \<longrightarrow> d = e)"

lemma wait_step_ok: "waiter_ok w \<Longrightarrow> waiter_ok (wait_step w op)"
proof (cases op)
  case (Await d)
  assume ok: "waiter_ok w"
  have lt: "p < w_promises w" "p \<notin> set (map fst (w_settled w))" if "map_of (w_pending w) e = Some p" for e p
    using ok that unfolding waiter_ok_def by blast+
  have old: "distinct (map fst (w_settled w))" "\<And>p. p \<in> set (map fst (w_settled w)) \<Longrightarrow> p < w_promises w"
    "\<And>a b p. map_of (w_pending w) a = Some p \<Longrightarrow> map_of (w_pending w) b = Some p \<Longrightarrow> a = b"
    using ok unfolding waiter_ok_def by blast+
  have new: "w_promises w \<notin> set (map fst (w_settled w))" using old(2) by blast
  have f: "w_settled (wait_step w op) = w_settled w" "w_promises (wait_step w op) = Suc (w_promises w)"
    "map_of (w_pending (wait_step w op)) = (map_of (w_pending w))(d \<mapsto> w_promises w)"
    by (simp_all add: Await awaitOutcome_def)
  show ?thesis unfolding waiter_ok_def f
  proof (intro conjI allI ballI impI)
    show "p < Suc (w_promises w)" if "p \<in> set (map fst (w_settled w))" for p using old(2) [OF that] by simp
    show "p < Suc (w_promises w)" "p \<notin> set (map fst (w_settled w))"
      if "((map_of (w_pending w))(d \<mapsto> w_promises w)) e = Some p" for e p
      using that lt new by (auto split: if_splits simp: less_SucI)
    show "a = b" if "((map_of (w_pending w))(d \<mapsto> w_promises w)) a = Some p"
      "((map_of (w_pending w))(d \<mapsto> w_promises w)) b = Some p" for a b p
      using that lt(1) [of a p] lt(1) [of b p] old(3) [of a p b] by (cases "a = d"; cases "b = d") auto
  qed (rule old(1))
next
  case (Settle d out rsn)
  assume ok: "waiter_ok w"
  show ?thesis
  proof (cases "map_of (w_pending w) d")
    case (Some p)
    have p: "p < w_promises w" "p \<notin> set (map fst (w_settled w))"
      using ok Some unfolding waiter_ok_def by blast+
    have only: "e = d" if "map_of (w_pending w) e = Some p" for e using ok Some that unfolding waiter_ok_def by blast
    have f: "map fst (w_settled (wait_step w op)) = map fst (w_settled w) @ [p]" "w_promises (wait_step w op) = w_promises w"
      "map_of (w_pending (wait_step w op)) = (map_of (w_pending w))(d := None)"
      by (simp_all add: Settle settle_def Some)
    show ?thesis unfolding waiter_ok_def f
    proof (intro conjI allI ballI impI)
      show "distinct (map fst (w_settled w) @ [p])" using ok p(2) unfolding waiter_ok_def by simp
      show "q < w_promises w" if "q \<in> set (map fst (w_settled w) @ [p])" for q
        using ok p(1) that unfolding waiter_ok_def by auto
      show "q < w_promises w" if "((map_of (w_pending w))(d := None)) e = Some q" for e q
        using ok that unfolding waiter_ok_def by (auto split: if_splits)
      show "q \<notin> set (map fst (w_settled w) @ [p])" if e: "((map_of (w_pending w))(d := None)) e = Some q" for e q
      proof -
        have "map_of (w_pending w) e = Some q" "e \<noteq> d" using e by (auto split: if_splits)
        moreover from this have "q \<noteq> p" using only by blast
        ultimately show ?thesis using ok unfolding waiter_ok_def by auto
      qed
      show "a = b" if "((map_of (w_pending w))(d := None)) a = Some q" "((map_of (w_pending w))(d := None)) b = Some q" for a b q
        using ok that unfolding waiter_ok_def by (metis fun_upd_apply option.distinct(1))
    qed
  qed (use ok Settle in \<open>simp add: settle_def\<close>)
next
  case (CancelWait d)
  assume ok: "waiter_ok w"
  have f: "w_settled (wait_step w op) = w_settled w" "w_promises (wait_step w op) = w_promises w"
    "map_of (w_pending (wait_step w op)) = (map_of (w_pending w))(d := None)"
    by (simp_all add: CancelWait cancel_wait_def)
  have sub: "map_of (w_pending w) e = Some p" if "((map_of (w_pending w))(d := None)) e = Some p" for e p
    using that by (simp split: if_splits)
  show ?thesis unfolding waiter_ok_def f
  proof (intro conjI allI ballI impI)
    show "distinct (map fst (w_settled w))" using ok unfolding waiter_ok_def by blast
    show "p < w_promises w" if "p \<in> set (map fst (w_settled w))" for p using ok that unfolding waiter_ok_def by blast
    show "p < w_promises w" "p \<notin> set (map fst (w_settled w))" if "((map_of (w_pending w))(d := None)) e = Some p" for e p
      using ok sub [OF that] unfolding waiter_ok_def by blast+
    show "a = b" if "((map_of (w_pending w))(d := None)) a = Some p" "((map_of (w_pending w))(d := None)) b = Some p" for a b p
      using ok sub [OF that(1)] sub [OF that(2)] unfolding waiter_ok_def by blast
  qed
qed

lemma wait_run_ok: "waiter_ok w \<Longrightarrow> waiter_ok (foldl wait_step w ops)"
  by (induction ops arbitrary: w) (simp_all add: wait_step_ok)

lemma new_waiter_ok: "waiter_ok new_waiter"
  by (simp add: waiter_ok_def new_waiter_def)

lemma wait_other: "delivery_of op \<noteq> d \<Longrightarrow> map_of (w_pending (wait_step w op)) d = map_of (w_pending w) d"
  by (cases op) (auto simp: awaitOutcome_def settle_def cancel_wait_def split: option.split)

lemma wait_others: "\<forall>op \<in> set ops. delivery_of op \<noteq> d \<Longrightarrow> map_of (w_pending (foldl wait_step w ops)) d = map_of (w_pending w) d"
  by (induction ops arbitrary: w) (simp_all add: wait_other)

text \<open>
  A wait registered before its delivery is reported always settles, with exactly the outcome
  reported, whatever happens to other deliveries in between, and no promise settles twice.
\<close>
theorem registered_wait_settles:
  assumes "\<forall>op \<in> set between. delivery_of op \<noteq> d"
  shows "let w0 = foldl wait_step new_waiter earlier;
             w = foldl wait_step w0 (Await d # between @ [Settle d outcome rsn])
         in (w_promises w0, outcome, rsn) \<in> set (w_settled w) \<and> distinct (map fst (w_settled w))
            \<and> map_of (w_pending w) d = None"
proof -
  define w0 where "w0 = foldl wait_step new_waiter earlier"
  define w1 where "w1 = foldl wait_step (awaitOutcome d w0) between"
  have p: "map_of (w_pending w1) d = Some (w_promises w0)"
    unfolding w1_def wait_others [OF assms] by (simp add: awaitOutcome_def)
  have "foldl wait_step w0 (Await d # between @ [Settle d outcome rsn]) = settle d outcome rsn w1"
    by (simp add: w1_def)
  moreover have "waiter_ok (foldl wait_step w0 (Await d # between @ [Settle d outcome rsn]))"
    unfolding w0_def by (intro wait_run_ok new_waiter_ok)
  ultimately show ?thesis using p
    by (simp add: Let_def w0_def [symmetric]) (simp add: waiter_ok_def settle_def)
qed

theorem registered_wait_settles_witness:
  "(1, Delivered, None) \<in> set (w_settled (foldl wait_step new_waiter
     [Await ''a'', Await ''b'', CancelWait ''a'', Settle ''b'' Delivered None]))"
proof -
  have "\<forall>op \<in> set [CancelWait ''a'']. delivery_of op \<noteq> ''b''" by simp
  from registered_wait_settles [OF this, of "[Await ''a'']" Delivered None] show ?thesis
    by (simp add: Let_def new_waiter_def awaitOutcome_def)
qed

end
