(* ===== verification/JsText.thy ===== *)
theory JsText
  imports Prelude
begin

text \<open>
  The string and number idioms of JavaScript that the parsers of the program share: prefixes,
  decimal numerals, white space, and \<open>Number(s)\<close> on a string. A finite number is exact, and a
  value that rounds past the largest double is an infinity.
\<close>

subsection \<open>Text\<close>

definition nl :: char where "nl = CHR 0x0A"

definition starts_with :: "string \<Rightarrow> string \<Rightarrow> bool" where
  "starts_with s p \<longleftrightarrow> take (length p) s = p"

definition strip_prefix :: "string \<Rightarrow> string \<Rightarrow> string option" where
  "strip_prefix p s = (if starts_with s p then Some (drop (length p) s) else None)"

definition is_digit :: "char \<Rightarrow> bool" where
  "is_digit c \<longleftrightarrow> (let n = of_char c :: nat in 48 \<le> n \<and> n \<le> 57)"

definition digit_char :: "nat \<Rightarrow> char" where
  "digit_char d = char_of (48 + d)"

fun show_nat :: "nat \<Rightarrow> string" where
  "show_nat n = (if n < 10 then [digit_char n] else show_nat (n div 10) @ [digit_char (n mod 10)])"

declare show_nat.simps [simp del]

definition read_nat :: "string \<Rightarrow> nat" where
  "read_nat ds = foldl (\<lambda>a c. 10 * a + (of_char c - 48)) 0 ds"

definition show_int :: "int \<Rightarrow> string" where
  "show_int i = (if i < 0 then CHR ''-'' # show_nat (nat (- i)) else show_nat (nat i))"

text \<open>\<open>s.indexOf(sub)\<close>\<close>

fun index_of_sub :: "string \<Rightarrow> string \<Rightarrow> nat option" where
  "index_of_sub sub [] = (if sub = [] then Some 0 else None)"
| "index_of_sub sub (c # cs) = (if starts_with (c # cs) sub then Some 0 else map_option Suc (index_of_sub sub cs))"

subsection \<open>White space and numbers\<close>

text \<open>White space is what \<open>trim\<close> and \<open>\s\<close> treat as such.\<close>

definition is_ws :: "char \<Rightarrow> bool" where
  "is_ws c \<longleftrightarrow> (let n = of_char c :: nat in (9 \<le> n \<and> n \<le> 13) \<or> n = 32 \<or> n = 160)"

definition trim :: "string \<Rightarrow> string" where
  "trim s = rev (dropWhile is_ws (rev (dropWhile is_ws s)))"

text \<open>\<open>s.split(/\s+/)\<close>\<close>

function split_ws :: "string \<Rightarrow> string list" where
  "split_ws s =
     (let w = takeWhile (\<lambda>c. \<not> is_ws c) s; r = dropWhile (\<lambda>c. \<not> is_ws c) s in
      if r = [] then [w] else w # split_ws (dropWhile is_ws r))"
  by pat_completeness auto
termination
proof (relation "measure length", simp)
  fix s r :: string
  assume rs: "r = dropWhile (\<lambda>c. \<not> is_ws c) s" and ne: "r \<noteq> []"
  from ne obtain c cs where r: "r = c # cs" by (cases r) auto
  then have c: "is_ws c" using hd_dropWhile [of "\<lambda>c. \<not> is_ws c" s] by (simp add: rs [symmetric])
  have "length (dropWhile is_ws r) < length r" using r c by (simp add: le_imp_less_Suc length_dropWhile_le)
  also have "length r \<le> length s" unfolding rs by (rule length_dropWhile_le)
  finally show "(dropWhile is_ws r, s) \<in> measure length" by simp
qed

declare split_ws.simps [simp del]

definition lower_char :: "char \<Rightarrow> char" where
  "lower_char c = (let n = of_char c :: nat in if 65 \<le> n \<and> n \<le> 90 then char_of (n + 32) else c)"

text \<open>Values past this bound round to infinity.\<close>

definition MAX_DOUBLE :: rat where
  "MAX_DOUBLE = 2 ^ 1024 - 2 ^ 970"

lemma MAX_DOUBLE_code [code]:
  "MAX_DOUBLE = of_int 179769313486231580793728971405303415079934132710037826936173778980444968292764750946649017977587207096330286416692887910946555547851940402630657488671505820681908902000708383676273854845817711531764475730270069855571366959622842914819860834936475292719074168444365510704342711559699508093042880177904174497792"
  by (simp add: MAX_DOUBLE_def)

definition to_double :: "rat \<Rightarrow> jnum" where
  "to_double r = (if r \<ge> MAX_DOUBLE then JInf True else if r \<le> - MAX_DOUBLE then JInf False else JFin r)"

definition digit_val :: "char \<Rightarrow> nat option" where
  "digit_val c = (let n = of_char (lower_char c) :: nat in
     if 48 \<le> n \<and> n \<le> 57 then Some (n - 48) else if 97 \<le> n \<and> n \<le> 102 then Some (n - 87) else None)"

text \<open>The digits of a \<open>0x\<close>, \<open>0o\<close> or \<open>0b\<close> literal.\<close>

fun radix_value :: "nat \<Rightarrow> nat \<Rightarrow> string \<Rightarrow> nat option" where
  "radix_value b acc [] = Some acc"
| "radix_value b acc (c # cs) = (case digit_val c of
      None \<Rightarrow> None | Some d \<Rightarrow> if d < b then radix_value b (b * acc + d) cs else None)"

definition exp_value :: "string \<Rightarrow> int option" where
  "exp_value s = (case s of
      [] \<Rightarrow> Some 0
    | c # r \<Rightarrow>
        if lower_char c \<noteq> CHR ''e'' then None
        else let neg = starts_with r ''-'';
                 ds = (if neg \<or> starts_with r ''+'' then drop 1 r else r)
             in if ds = [] \<or> \<not> list_all is_digit ds then None
                else Some (if neg then - int (read_nat ds) else int (read_nat ds)))"

definition dec_value :: "string \<Rightarrow> rat option" where
  "dec_value s =
     (let ip = takeWhile is_digit s; r = dropWhile is_digit s;
          dot = starts_with r ''.'';
          fp = (if dot then takeWhile is_digit (drop 1 r) else []);
          r' = (if dot then dropWhile is_digit (drop 1 r) else r)
      in if ip = [] \<and> fp = [] then None
         else (case exp_value r' of
             None \<Rightarrow> None
           | Some e \<Rightarrow> let k = e - int (length fp); m = of_nat (read_nat (ip @ fp)) in
               Some (if k \<ge> 0 then m * 10 ^ nat k else m / 10 ^ nat (- k))))"

text \<open>\<open>Number(s)\<close>: white space around is ignored, and the empty string is 0.\<close>

definition js_number :: "string \<Rightarrow> jnum" where
  "js_number s0 =
     (let s = trim s0; pre = map lower_char (take 2 s); ds = drop 2 s;
          radix = (\<lambda>b. if ds = [] then JNaN else (case radix_value b 0 ds of None \<Rightarrow> JNaN | Some n \<Rightarrow> to_double (of_nat n)))
      in if s = [] then JFin 0
         else if pre = ''0x'' then radix 16
         else if pre = ''0o'' then radix 8
         else if pre = ''0b'' then radix 2
         else let neg = starts_with s ''-'';
                  u = (if neg \<or> starts_with s ''+'' then drop 1 s else s)
              in if u = ''Infinity'' then JInf (\<not> neg)
                 else (case dec_value u of None \<Rightarrow> JNaN | Some r \<Rightarrow> to_double (if neg then - r else r)))"

definition is_integer_num :: "jnum \<Rightarrow> int option" where
  "is_integer_num x = (case x of JFin r \<Rightarrow> if of_int \<lfloor>r\<rfloor> = r then Some \<lfloor>r\<rfloor> else None | _ \<Rightarrow> None)"

subsection \<open>Numerals read back\<close>

lemma of_char_char_of [simp]: "n < 256 \<Longrightarrow> of_char (char_of n) = (n :: nat)"
  by (simp add: of_char_of take_bit_eq_mod)

lemma digit_char: "d < 10 \<Longrightarrow> is_digit (digit_char d) \<and> of_char (digit_char d) = 48 + d"
  by (simp add: is_digit_def digit_char_def Let_def)

lemma show_nat_digits: "\<forall>c \<in> set (show_nat n). is_digit c"
proof (induction n rule: show_nat.induct)
  case (1 n)
  have "is_digit (digit_char (n mod 10))" "n < 10 \<Longrightarrow> is_digit (digit_char n)" using digit_char by simp_all
  with 1 show ?case by (subst show_nat.simps) auto
qed

lemma show_nat_nonempty: "show_nat n \<noteq> []"
  by (subst show_nat.simps) simp

lemma read_show_nat: "read_nat (show_nat n) = n"
proof (induction n rule: show_nat.induct)
  case (1 n)
  show ?case
  proof (cases "n < 10")
    case True
    then show ?thesis using digit_char [of n] by (subst show_nat.simps) (simp add: read_nat_def)
  next
    case False
    then show ?thesis using 1 digit_char [of "n mod 10"] by (subst show_nat.simps) (simp add: read_nat_def)
  qed
qed

lemma takeWhile_digits: "takeWhile is_digit (show_nat n @ c # r) = show_nat n"
  "dropWhile is_digit (show_nat n @ c # r) = c # r" if "\<not> is_digit c"
  using that show_nat_digits by (simp_all add: takeWhile_append dropWhile_append)

lemma separators [simp]: "\<not> is_digit (CHR '','')" "\<not> is_digit (CHR '' '')" "\<not> is_digit (CHR ''-'')" "\<not> is_digit (CHR ''+'')" "\<not> is_digit (CHR ''@'')"
  by (simp_all add: is_digit_def)

lemma digit_not_ws: "is_digit c \<Longrightarrow> \<not> is_ws c"
  by (auto simp: is_digit_def is_ws_def Let_def)

lemma trim_no_ws: "\<forall>c \<in> set s. \<not> is_ws c \<Longrightarrow> trim s = s"
  by (metis (no_types, lifting) dropWhile_eq_self_iff hd_in_set set_rev trim_def rev_rev_ident rev_is_Nil_conv)

lemma read_nat_bound: "\<forall>c \<in> set s. is_digit c \<Longrightarrow> read_nat s < 10 ^ length s"
proof (induction s rule: rev_induct)
  case (snoc c s)
  then show ?case by (auto simp: read_nat_def is_digit_def Let_def)
qed (simp add: read_nat_def)

lemma lower_digit: "is_digit c \<Longrightarrow> lower_char c = c"
  by (simp add: is_digit_def lower_char_def Let_def)

lemma digits_takeWhile: "\<forall>c \<in> set s. is_digit c \<Longrightarrow> takeWhile is_digit s = s \<and> dropWhile is_digit s = []"
  by simp

lemma dec_value_digits: "\<forall>c \<in> set s. is_digit c \<Longrightarrow> s \<noteq> [] \<Longrightarrow> dec_value s = Some (of_nat (read_nat s))"
  by (simp add: dec_value_def exp_value_def digits_takeWhile starts_with_def)

lemma MAX_DOUBLE_big: "9007199254740992 < MAX_DOUBLE"
  by (simp add: MAX_DOUBLE_def)

lemma js_number_digits:
  assumes d: "\<forall>c \<in> set s. is_digit c" and "s \<noteq> []"
  shows "js_number s = to_double (of_nat (read_nat s))"
proof -
  have t: "trim s = s" using d digit_not_ws by (intro trim_no_ws) blast
  have "map lower_char (take 2 s) = take 2 s" using d lower_digit by (intro map_idI) (meson in_set_takeD)
  moreover have "CHR ''x'' \<notin> set s" "CHR ''o'' \<notin> set s" "CHR ''b'' \<notin> set s" "CHR ''I'' \<notin> set s"
    using d by (auto simp: is_digit_def)
  moreover have "set (take 2 s) \<subseteq> set s" by (rule set_take_subset)
  ultimately have p: "map lower_char (take 2 s) \<noteq> ''0x''" "map lower_char (take 2 s) \<noteq> ''0o''"
    "map lower_char (take 2 s) \<noteq> ''0b''" "s \<noteq> ''Infinity''" by auto
  have "hd s \<in> set s" using assms(2) by simp
  then have h: "\<not> starts_with s ''-''" "\<not> starts_with s ''+''"
    using d by (cases s; force simp: starts_with_def is_digit_def)+
  show ?thesis using p h assms by (simp add: js_number_def t Let_def dec_value_digits)
qed

lemma js_number_show: "n \<le> 9007199254740992 \<Longrightarrow> js_number (show_nat n) = JFin (of_nat n)"
proof -
  assume "n \<le> 9007199254740992"
  then have "(of_nat n :: rat) \<le> of_nat 9007199254740992" by (simp only: of_nat_le_iff)
  then have "of_nat n < MAX_DOUBLE" "- MAX_DOUBLE < of_nat n" using MAX_DOUBLE_big by (simp, simp add: less_le_trans [of _ 0])
  then show ?thesis using js_number_digits [OF show_nat_digits show_nat_nonempty, of n]
    by (simp add: read_show_nat to_double_def)
qed

lemma split_ws_words:
  "\<forall>w \<in> set (w0 # ws). \<forall>c \<in> set w. \<not> is_ws c \<Longrightarrow> \<forall>w \<in> set ws. w \<noteq> [] \<Longrightarrow> split_ws (join_with '' '' (w0 # ws)) = w0 # ws"
proof (induction ws arbitrary: w0)
  case Nil
  then show ?case by (subst split_ws.simps) simp
next
  case (Cons w ws)
  have ih: "split_ws (join_with '' '' (w # ws)) = w # ws" using Cons.prems by (intro Cons.IH) auto
  have sp: "is_ws (CHR '' '')" by (simp add: is_ws_def)
  obtain c w' where w: "w = c # w'" "\<not> is_ws c" using Cons.prems by (cases w) auto
  define rest where "rest = join_with '' '' (w # ws)"
  have rest: "dropWhile is_ws rest = rest" using w by (simp add: rest_def join_with_Cons)
  have "takeWhile (\<lambda>c. \<not> is_ws c) (w0 @ CHR '' '' # rest) = w0" "dropWhile (\<lambda>c. \<not> is_ws c) (w0 @ CHR '' '' # rest) = CHR '' '' # rest"
    using Cons.prems(1) sp by (simp_all add: takeWhile_append dropWhile_append)
  then have "split_ws (w0 @ CHR '' '' # rest) = w0 # split_ws rest"
    by (subst split_ws.simps) (simp add: sp rest)
  then show ?case using ih by (simp add: rest_def)
qed

end
