(* ===== verification/Hunks.thy ===== *)
theory Hunks
  imports JsText
begin

text \<open>
  Staging a subset of a file's changes (\<open>packages/execution/src/worktree/hunks.ts\<close>): parsing one
  file's unified diff, selecting hunks by index and rebuilding the patch. The hash of the digest is
  a parameter, over the concatenation of what is fed to it.
\<close>

record hunk =
  h_index :: nat
  h_oldStart :: nat
  h_oldCount :: nat
  h_newStart :: nat
  h_newCount :: nat
  h_heading :: string
  h_body :: "string list"
  h_text :: string

record parsed_diff =
  d_preamble :: "string list"
  d_hunks :: "hunk list"
  d_binary :: bool

datatype hunk_error = NotASingleFile | NoHunksSelected | HunkOutOfRange rat nat | BinaryFile

subsection \<open>Parsing\<close>

text \<open>\<open>(\d+)(?:,(\d+))?\<close>: the start, the count if written, and what is left.\<close>

definition read_range :: "string \<Rightarrow> (nat \<times> nat option \<times> string) option" where
  "read_range s =
     (let ds = takeWhile is_digit s; r = dropWhile is_digit s in
      if ds = [] then None
      else (case r of
          c # r1 \<Rightarrow>
            if c = CHR '','' \<and> takeWhile is_digit r1 \<noteq> []
            then Some (read_nat ds, Some (read_nat (takeWhile is_digit r1)), dropWhile is_digit r1)
            else Some (read_nat ds, None, r)
        | [] \<Rightarrow> Some (read_nat ds, None, r)))"

text \<open>\<open>HUNK_RE\<close>; a dot matches no line terminator.\<close>

definition hunk_header :: "string \<Rightarrow> (nat \<times> nat option \<times> nat \<times> nat option) option" where
  "hunk_header line =
     Option.bind (strip_prefix ''@@ -'' line) (\<lambda>s1.
     Option.bind (read_range s1) (\<lambda>(os, oc, s2).
     Option.bind (strip_prefix '' +'' s2) (\<lambda>s3.
     Option.bind (read_range s3) (\<lambda>(ns, nc, s4).
     Option.bind (strip_prefix '' @@'' s4) (\<lambda>suffix.
       if CHR 0x0A \<in> set suffix \<or> CHR 0x0D \<in> set suffix then None else Some (os, oc, ns, nc))))))"

record parse_state =
  ps_preamble :: "string list"
  ps_hunks :: "hunk list"
  ps_binary :: bool
  ps_seen :: bool

definition is_diff_line :: "string \<Rightarrow> bool" where
  "is_diff_line line \<longleftrightarrow> starts_with line ''diff --git ''"

definition new_hunk :: "nat \<Rightarrow> string \<Rightarrow> nat \<times> nat option \<times> nat \<times> nat option \<Rightarrow> hunk" where
  "new_hunk i line m = (case m of (os, oc, ns, nc) \<Rightarrow>
     \<lparr>h_index = i, h_oldStart = os, h_oldCount = (case oc of None \<Rightarrow> 1 | Some n \<Rightarrow> n),
      h_newStart = ns, h_newCount = (case nc of None \<Rightarrow> 1 | Some n \<Rightarrow> n),
      h_heading = line, h_body = [], h_text = []\<rparr>)"

definition push_body :: "string \<Rightarrow> hunk list \<Rightarrow> hunk list" where
  "push_body line hs = butlast hs @ [(last hs)\<lparr>h_body := h_body (last hs) @ [line]\<rparr>]"

definition parse_step :: "parse_state \<Rightarrow> string \<Rightarrow> hunk_error + parse_state" where
  "parse_step st line =
     (if is_diff_line line \<and> ps_seen st then Inl NotASingleFile
      else
        let st1 = (if is_diff_line line then st\<lparr>ps_seen := True\<rparr> else st);
            st2 = (if ps_hunks st1 = [] \<and> starts_with line ''Binary files '' then st1\<lparr>ps_binary := True\<rparr> else st1)
        in (case hunk_header line of
              Some m \<Rightarrow> Inr (st2\<lparr>ps_hunks := ps_hunks st2 @ [new_hunk (length (ps_hunks st2) + 1) line m]\<rparr>)
            | None \<Rightarrow>
                if ps_hunks st2 = [] then Inr (st2\<lparr>ps_preamble := ps_preamble st2 @ [line]\<rparr>)
                else Inr (st2\<lparr>ps_hunks := push_body line (ps_hunks st2)\<rparr>)))"

fun parse_lines :: "parse_state \<Rightarrow> string list \<Rightarrow> hunk_error + parse_state" where
  "parse_lines st [] = Inr st"
| "parse_lines st (line # lines) = (case parse_step st line of Inl e \<Rightarrow> Inl e | Inr st1 \<Rightarrow> parse_lines st1 lines)"

definition diff_lines :: "string \<Rightarrow> string list" where
  "diff_lines s = (let lines = split_on nl s in if last lines = [] then butlast lines else lines)"

definition with_text :: "hunk \<Rightarrow> hunk" where
  "with_text h = h\<lparr>h_text := join_with [nl] (h_heading h # h_body h) @ [nl]\<rparr>"

definition start_state :: parse_state where
  "start_state = \<lparr>ps_preamble = [], ps_hunks = [], ps_binary = False, ps_seen = False\<rparr>"

definition parseUnifiedDiff :: "string \<Rightarrow> hunk_error + parsed_diff" where
  "parseUnifiedDiff s = (case parse_lines start_state (diff_lines s) of
      Inl e \<Rightarrow> Inl e
    | Inr st \<Rightarrow> Inr \<lparr>d_preamble = ps_preamble st, d_hunks = map with_text (ps_hunks st), d_binary = ps_binary st\<rparr>)"

subsection \<open>Selecting and rebuilding\<close>

definition digestHunks :: "(string \<Rightarrow> string) \<Rightarrow> hunk list \<Rightarrow> string" where
  "digestHunks sha hs = ''sha256:'' @ sha (concat (map (\<lambda>h. join_with [nl] (h_body h) @ [CHR 0x00]) hs))"

fun select_sorted :: "hunk list \<Rightarrow> rat list \<Rightarrow> rat list \<Rightarrow> hunk list \<Rightarrow> hunk_error + hunk list" where
  "select_sorted hs [] seen out = Inr out"
| "select_sorted hs (i # is) seen out =
     (if of_int \<lfloor>i\<rfloor> \<noteq> i \<or> i < 1 \<or> i > of_nat (length hs) then Inl (HunkOutOfRange i (length hs))
      else if i \<in> set seen then select_sorted hs is seen out
      else select_sorted hs is (i # seen) (out @ [hs ! (nat \<lfloor>i\<rfloor> - 1)]))"

definition selectHunks :: "parsed_diff \<Rightarrow> rat list \<Rightarrow> hunk_error + hunk list" where
  "selectHunks d is = (if is = [] then Inl NoHunksSelected else select_sorted (d_hunks d) (sort is) [] [])"

definition heading_suffix :: "string \<Rightarrow> string" where
  "heading_suffix heading = (case index_of_sub '' @@'' heading of
      Some i \<Rightarrow> drop (i + 3) heading
    | None \<Rightarrow> drop 2 heading)"

definition subset_heading :: "hunk \<Rightarrow> int \<Rightarrow> string" where
  "subset_heading h delta =
     ''@@ -'' @ show_nat (h_oldStart h) @ '','' @ show_nat (h_oldCount h) @ '' +''
       @ show_int (int (h_oldStart h) + delta) @ '','' @ show_nat (h_newCount h) @ '' @@''
       @ heading_suffix (h_heading h)"

fun subset_parts :: "int \<Rightarrow> hunk list \<Rightarrow> string list" where
  "subset_parts delta [] = []"
| "subset_parts delta (h # hs) =
     (subset_heading h delta # h_body h) @ subset_parts (delta + int (h_newCount h) - int (h_oldCount h)) hs"

definition buildSubsetPatch :: "parsed_diff \<Rightarrow> hunk list \<Rightarrow> hunk_error + string" where
  "buildSubsetPatch d selected =
     (if d_binary d then Inl BinaryFile
      else if selected = [] then Inl NoHunksSelected
      else Inr (join_with [nl] (d_preamble d @ subset_parts 0 selected) @ [nl]))"

subsection \<open>Numbers and headings read back\<close>

lemma read_range_show: "\<not> is_digit c \<Longrightarrow> read_range (show_nat a @ CHR '','' # show_nat b @ c # r) = Some (a, Some b, c # r)"
  by (simp add: read_range_def takeWhile_digits show_nat_nonempty read_show_nat)

lemma header_show:
  "CHR 0x0A \<notin> set suffix \<Longrightarrow> CHR 0x0D \<notin> set suffix \<Longrightarrow>
   hunk_header (''@@ -'' @ show_nat a @ '','' @ show_nat b @ '' +'' @ show_nat c @ '','' @ show_nat d @ '' @@'' @ suffix)
     = Some (a, Some b, c, Some d)"
  by (simp add: hunk_header_def strip_prefix_def starts_with_def read_range_show)

lemma read_range_chars:
  assumes "read_range s = Some (a, b, r)"
  shows "set s \<subseteq> Collect is_digit \<union> {CHR '',''} \<union> set r"
proof -
  have w: "set u \<subseteq> Collect is_digit \<union> set (dropWhile is_digit u)" for u
  proof -
    have "set u = set (takeWhile is_digit u) \<union> set (dropWhile is_digit u)" by (metis set_append takeWhile_dropWhile_id)
    then show ?thesis using set_takeWhileD by fastforce
  qed
  have "set (dropWhile is_digit s) \<subseteq> Collect is_digit \<union> {CHR '',''} \<union> set r"
  proof (cases "dropWhile is_digit s")
    case (Cons c r1)
    have "r = dropWhile is_digit s \<or> c = CHR '','' \<and> r = dropWhile is_digit r1"
      using assms unfolding read_range_def Let_def Cons by (auto split: if_splits)
    with Cons w [of r1] show ?thesis by auto
  next
    case Nil
    then show ?thesis unfolding Nil by simp
  qed
  with w [of s] show ?thesis by blast
qed

lemma strip_prefix_chars: "strip_prefix p s = Some r \<Longrightarrow> s = p @ r"
  by (auto simp: strip_prefix_def starts_with_def split: if_splits) (metis append_take_drop_id)

lemma header_one_line:
  assumes "hunk_header line = Some m"
  shows "CHR 0x0A \<notin> set line" "CHR 0x0D \<notin> set line" "starts_with line ''@@ -''"
proof -
  obtain s1 os oc s2 s3 ns nc s4 suffix where h: "strip_prefix ''@@ -'' line = Some s1" "read_range s1 = Some (os, oc, s2)"
    "strip_prefix '' +'' s2 = Some s3" "read_range s3 = Some (ns, nc, s4)" "strip_prefix '' @@'' s4 = Some suffix"
    "CHR 0x0A \<notin> set suffix" "CHR 0x0D \<notin> set suffix"
    using assms by (auto simp: hunk_header_def bind_eq_Some_conv split: if_splits)
  have d: "\<not> is_digit (CHR 0x0A)" "\<not> is_digit (CHR 0x0D)" by (simp_all add: is_digit_def)
  note r1 = subsetD [OF read_range_chars [OF h(2)]] and r2 = subsetD [OF read_range_chars [OF h(4)]]
  have line: "line = ''@@ -'' @ s1" "s2 = '' +'' @ s3" "s4 = '' @@'' @ suffix"
    using h(1,3,5) by (auto dest!: strip_prefix_chars)
  show "CHR 0x0A \<notin> set line" "CHR 0x0D \<notin> set line"
    using r1 [of "CHR 0x0A"] r1 [of "CHR 0x0D"] r2 [of "CHR 0x0A"] r2 [of "CHR 0x0D"] d h(6,7)
    by (auto simp: line)
  show "starts_with line ''@@ -''" by (simp add: line starts_with_def)
qed

lemma heading_suffix_set: "set (heading_suffix s) \<subseteq> set s"
  by (auto simp: heading_suffix_def split: option.splits dest: in_set_dropD)

lemma header_subset:
  assumes "hunk_header (h_heading h) = Some m" "0 \<le> int (h_oldStart h) + delta"
  shows "hunk_header (subset_heading h delta)
    = Some (h_oldStart h, Some (h_oldCount h), nat (int (h_oldStart h) + delta), Some (h_newCount h))"
proof -
  have "CHR 0x0A \<notin> set (heading_suffix (h_heading h))" "CHR 0x0D \<notin> set (heading_suffix (h_heading h))"
    using header_one_line [OF assms(1)] heading_suffix_set by blast+
  from header_show [OF this] assms(2) show ?thesis by (simp add: subset_heading_def show_int_def)
qed

subsection \<open>What a parse guarantees\<close>

definition ndiff :: "string list \<Rightarrow> nat" where
  "ndiff ls = length (filter is_diff_line ls)"

definition body_line :: "string \<Rightarrow> bool" where
  "body_line line \<longleftrightarrow> hunk_header line = None \<and> nl \<notin> set line"

definition hunk_ok :: "hunk \<Rightarrow> bool" where
  "hunk_ok h \<longleftrightarrow> list_all body_line (h_body h) \<and> hunk_header (h_heading h) \<noteq> None"

definition parsed_lines_ok :: "string list \<Rightarrow> hunk list \<Rightarrow> bool" where
  "parsed_lines_ok pre hs \<longleftrightarrow> list_all body_line pre \<and> list_all hunk_ok hs"

lemma header_not_diff: "hunk_header line = Some m \<Longrightarrow> \<not> is_diff_line line \<and> \<not> starts_with line ''Binary files ''"
  using header_one_line(3) [of line m]
  by (cases line) (auto simp: is_diff_line_def starts_with_def)

lemma ndiff_simps [simp]: "ndiff [] = 0" "ndiff (l # ls) = (if is_diff_line l then 1 else 0) + ndiff ls"
  "ndiff (ls @ ms) = ndiff ls + ndiff ms"
  by (simp_all add: ndiff_def)

fun body_diffs :: "hunk list \<Rightarrow> nat" where
  "body_diffs [] = 0"
| "body_diffs (h # hs) = ndiff (h_body h) + body_diffs hs"

lemma body_diffs_append [simp]: "body_diffs (xs @ ys) = body_diffs xs + body_diffs ys"
  by (induction xs) auto

definition state_diffs :: "parse_state \<Rightarrow> nat" where
  "state_diffs st = ndiff (ps_preamble st) + body_diffs (ps_hunks st)"

definition st_ok :: "parse_state \<Rightarrow> bool" where
  "st_ok st \<longleftrightarrow> parsed_lines_ok (ps_preamble st) (ps_hunks st) \<and> state_diffs st = (if ps_seen st then 1 else 0)
     \<and> (ps_binary st \<longleftrightarrow> (\<exists>l \<in> set (ps_preamble st). starts_with l ''Binary files ''))
     \<and> map h_index (ps_hunks st) = [1..<Suc (length (ps_hunks st))]"

lemma push_body_facts:
  assumes "hs \<noteq> []"
  shows "body_diffs (push_body l hs) = body_diffs hs + ndiff [l]"
    "map h_index (push_body l hs) = map h_index hs" "length (push_body l hs) = length hs"
    "list_all hunk_ok hs \<Longrightarrow> body_line l \<Longrightarrow> list_all hunk_ok (push_body l hs)"
  using assms by (induction hs rule: rev_induct) (auto simp: push_body_def hunk_ok_def)

lemma parse_step_Inr:
  assumes "parse_step st line = Inr st'"
  shows "is_diff_line line \<Longrightarrow> \<not> ps_seen st" "ps_seen st' = (ps_seen st \<or> is_diff_line line)"
    "ps_preamble st' = ps_preamble st @ (if hunk_header line = None \<and> ps_hunks st = [] then [line] else [])"
    "ps_hunks st' = (case hunk_header line of Some m \<Rightarrow> ps_hunks st @ [new_hunk (length (ps_hunks st) + 1) line m]
        | None \<Rightarrow> if ps_hunks st = [] then [] else push_body line (ps_hunks st))"
    "ps_binary st' = (ps_binary st \<or> ps_hunks st = [] \<and> starts_with line ''Binary files '')"
  using assms by (auto simp: parse_step_def Let_def split: if_splits option.splits)

lemma parse_step_ok:
  assumes ok: "st_ok st" and nonl: "nl \<notin> set line" and step: "parse_step st line = Inr st'"
  shows "st_ok st'"
proof -
  note f = parse_step_Inr [OF step]
  have o: "parsed_lines_ok (ps_preamble st) (ps_hunks st)" "state_diffs st = (if ps_seen st then 1 else 0)"
    "ps_binary st \<longleftrightarrow> (\<exists>l \<in> set (ps_preamble st). starts_with l ''Binary files '')"
    "map h_index (ps_hunks st) = [1..<Suc (length (ps_hunks st))]" using ok unfolding st_ok_def by blast+
  have seen: "(if ps_seen st' then 1 else 0) = (if ps_seen st then 1 else 0 :: nat) + ndiff [line]"
    using f(1,2) by (cases "is_diff_line line") simp_all
  show ?thesis
  proof (cases "hunk_header line")
    case None
    then have b: "body_line line" using nonl by (simp add: body_line_def)
    show ?thesis
    proof (cases "ps_hunks st = []")
      case True
      with o seen b show ?thesis unfolding st_ok_def seen
        by (auto simp: f(3-5) None parsed_lines_ok_def state_diffs_def)
    next
      case False
      with o b push_body_facts [OF False, of line] show ?thesis unfolding st_ok_def seen
        by (simp add: f(3-5) None parsed_lines_ok_def state_diffs_def)
    qed
  next
    case (Some m)
    have n: "hunk_ok (new_hunk i line m)" "h_body (new_hunk i line m) = []" "h_index (new_hunk i line m) = i" for i
      using Some by (auto simp: hunk_ok_def new_hunk_def split: prod.splits)
    from o n header_not_diff [OF Some] show ?thesis unfolding st_ok_def seen
      by (simp add: f(3-5) Some parsed_lines_ok_def state_diffs_def)
  qed
qed

lemma parse_lines_ok: "st_ok st \<Longrightarrow> \<forall>l \<in> set ls. nl \<notin> set l \<Longrightarrow> parse_lines st ls = Inr st' \<Longrightarrow> st_ok st'"
  by (induction ls arbitrary: st) (auto split: sum.splits dest: parse_step_ok)

lemma diff_lines_no_newline: "l \<in> set (diff_lines s) \<Longrightarrow> nl \<notin> set l"
proof -
  have "c \<notin> set p" if "p \<in> set (split_on c s)" for c p s
    using that by (induction s arbitrary: p) (auto split: if_splits list.splits)
  then show "l \<in> set (diff_lines s) \<Longrightarrow> nl \<notin> set l"
    by (auto simp: diff_lines_def Let_def split: if_splits dest: in_set_butlastD)
qed

lemma parse_ok:
  assumes "parseUnifiedDiff s = Inr d"
  obtains st where "st_ok st" "d = \<lparr>d_preamble = ps_preamble st, d_hunks = map with_text (ps_hunks st), d_binary = ps_binary st\<rparr>"
proof -
  have "st_ok start_state" by (simp add: st_ok_def start_state_def parsed_lines_ok_def state_diffs_def)
  with assms that show thesis
    by (auto simp: parseUnifiedDiff_def dest: parse_lines_ok diff_lines_no_newline split: sum.splits)
qed

subsection \<open>Reading a rebuilt patch\<close>

lemma parse_lines_append:
  "parse_lines st (xs @ ys) = (case parse_lines st xs of Inl e \<Rightarrow> Inl e | Inr st1 \<Rightarrow> parse_lines st1 ys)"
  by (induction xs arbitrary: st) (auto split: sum.split)

lemma parse_preamble:
  assumes "ps_hunks st = []" "list_all body_line pre" "ndiff pre + (if ps_seen st then 1 else 0) \<le> 1"
    "\<forall>l \<in> set pre. \<not> starts_with l ''Binary files ''"
  shows "parse_lines st pre = Inr (st\<lparr>ps_preamble := ps_preamble st @ pre, ps_seen := ps_seen st \<or> 0 < ndiff pre\<rparr>)"
  using assms
proof (induction pre arbitrary: st)
  case (Cons l pre)
  define st1 where "st1 = st\<lparr>ps_preamble := ps_preamble st @ [l], ps_seen := ps_seen st \<or> is_diff_line l\<rparr>"
  have "parse_step st l = Inr st1"
    using Cons.prems by (auto simp: parse_step_def body_line_def Let_def st1_def split: if_splits)
  moreover have "parse_lines st1 pre = Inr (st1\<lparr>ps_preamble := ps_preamble st1 @ pre, ps_seen := ps_seen st1 \<or> 0 < ndiff pre\<rparr>)"
    using Cons.prems by (intro Cons.IH) (auto simp: st1_def split: if_splits)
  ultimately show ?case by (simp add: st1_def)
qed simp

lemma parse_body:
  assumes "ps_hunks st = hs @ [h]" "list_all body_line body" "ndiff body + (if ps_seen st then 1 else 0) \<le> 1"
  shows "parse_lines st body
    = Inr (st\<lparr>ps_hunks := hs @ [h\<lparr>h_body := h_body h @ body\<rparr>], ps_seen := ps_seen st \<or> 0 < ndiff body\<rparr>)"
  using assms
proof (induction body arbitrary: st h)
  case (Cons l body)
  define h1 where "h1 = h\<lparr>h_body := h_body h @ [l]\<rparr>"
  define st1 where "st1 = st\<lparr>ps_hunks := hs @ [h1], ps_seen := ps_seen st \<or> is_diff_line l\<rparr>"
  have "parse_step st l = Inr st1"
    using Cons.prems by (auto simp: parse_step_def body_line_def push_body_def Let_def st1_def h1_def split: if_splits)
  moreover have "parse_lines st1 body
      = Inr (st1\<lparr>ps_hunks := hs @ [h1\<lparr>h_body := h_body h1 @ body\<rparr>], ps_seen := ps_seen st1 \<or> 0 < ndiff body\<rparr>)"
    using Cons.prems by (intro Cons.IH) (auto simp: st1_def split: if_splits)
  ultimately show ?case by (simp add: st1_def h1_def)
qed simp

text \<open>The hunks a rebuilt patch stands for: the old side and the bodies as they were, the new side moved.\<close>

fun rebuilt :: "nat \<Rightarrow> int \<Rightarrow> hunk list \<Rightarrow> hunk list" where
  "rebuilt i delta [] = []"
| "rebuilt i delta (h # hs) =
     h\<lparr>h_index := i, h_newStart := nat (int (h_oldStart h) + delta), h_heading := subset_heading h delta, h_text := []\<rparr>
     # rebuilt (Suc i) (delta + int (h_newCount h) - int (h_oldCount h)) hs"

definition in_order :: "hunk list \<Rightarrow> bool" where
  "in_order hs \<longleftrightarrow> sorted_wrt (\<lambda>a b. h_oldStart a + h_oldCount a \<le> h_oldStart b) hs"

lemma parse_parts:
  assumes "list_all hunk_ok hs" "in_order hs" "\<forall>h \<in> set hs. 0 \<le> int (h_oldStart h) + delta"
    "body_diffs hs + (if ps_seen st then 1 else 0) \<le> 1"
  shows "parse_lines st (subset_parts delta hs)
    = Inr (st\<lparr>ps_hunks := ps_hunks st @ rebuilt (Suc (length (ps_hunks st))) delta hs,
              ps_seen := ps_seen st \<or> 0 < body_diffs hs\<rparr>)"
  using assms
proof (induction hs arbitrary: st delta)
  case (Cons h hs)
  obtain m where m: "hunk_header (h_heading h) = Some m" and body: "list_all body_line (h_body h)"
    using Cons.prems(1) by (auto simp: hunk_ok_def)
  have nonneg: "0 \<le> int (h_oldStart h) + delta" using Cons.prems(3) by simp
  note hd = header_subset [OF m nonneg]
  note nd = header_not_diff [OF hd]
  define h0 where "h0 = new_hunk (Suc (length (ps_hunks st))) (subset_heading h delta)
    (h_oldStart h, Some (h_oldCount h), nat (int (h_oldStart h) + delta), Some (h_newCount h))"
  define h1 where "h1 = h0\<lparr>h_body := h_body h0 @ h_body h\<rparr>"
  define st0 where "st0 = st\<lparr>ps_hunks := ps_hunks st @ [h0]\<rparr>"
  define st1 where "st1 = st0\<lparr>ps_hunks := ps_hunks st @ [h1], ps_seen := ps_seen st \<or> 0 < ndiff (h_body h)\<rparr>"
  have s0: "parse_step st (subset_heading h delta) = Inr st0"
    using nd by (simp add: parse_step_def hd Let_def st0_def h0_def)
  have s1: "parse_lines st0 (h_body h) = Inr st1"
    using parse_body [of st0 "ps_hunks st" h0 "h_body h"] body Cons.prems(4) by (simp add: st0_def st1_def h1_def)
  define delta' where "delta' = delta + int (h_newCount h) - int (h_oldCount h)"
  have later: "0 \<le> int (h_oldStart g) + delta'" if "g \<in> set hs" for g
  proof -
    have "h_oldStart h + h_oldCount h \<le> h_oldStart g" using Cons.prems(2) that by (simp add: in_order_def)
    then show ?thesis using nonneg by (simp add: delta'_def)
  qed
  have s2: "parse_lines st1 (subset_parts delta' hs)
      = Inr (st1\<lparr>ps_hunks := ps_hunks st1 @ rebuilt (Suc (length (ps_hunks st1))) delta' hs,
              ps_seen := ps_seen st1 \<or> 0 < body_diffs hs\<rparr>)"
    using Cons.prems later by (intro Cons.IH) (auto simp: in_order_def st1_def st0_def)
  have h1: "h1 = h\<lparr>h_index := Suc (length (ps_hunks st)), h_newStart := nat (int (h_oldStart h) + delta),
      h_heading := subset_heading h delta, h_text := []\<rparr>"
    by (simp add: h1_def h0_def new_hunk_def)
  have "parse_lines st (subset_parts delta (h # hs)) = parse_lines st1 (subset_parts delta' hs)"
    by (simp add: parse_lines_append s0 s1 delta'_def)
  also have "\<dots> = Inr (st\<lparr>ps_hunks := ps_hunks st @ rebuilt (Suc (length (ps_hunks st))) delta (h # hs),
              ps_seen := ps_seen st \<or> 0 < body_diffs (h # hs)\<rparr>)"
    unfolding s2 by (simp add: st1_def st0_def h1 delta'_def)
  finally show ?case .
qed simp

lemma diff_lines_join:
  assumes "ls \<noteq> []" "\<forall>l \<in> set ls. nl \<notin> set l"
  shows "diff_lines (join_with [nl] ls @ [nl]) = ls"
proof -
  have "join_with [nl] (ls @ [[]]) = join_with [nl] ls @ [nl]"
    using assms(1) by (induction "[nl]" ls rule: join_with.induct) simp_all
  then have "split_on nl (join_with [nl] ls @ [nl]) = ls @ [[]]"
    using split_join [of "ls @ [[]]" nl] assms by auto
  then show ?thesis by (simp add: diff_lines_def)
qed

subsection \<open>Selecting\<close>

definition index_ok :: "nat \<Rightarrow> rat \<Rightarrow> bool" where
  "index_ok n i \<longleftrightarrow> of_int \<lfloor>i\<rfloor> = i \<and> 1 \<le> i \<and> i \<le> of_nat n"

lemma select_sorted_ok:
  "list_all (index_ok (length hs)) is \<Longrightarrow>
   select_sorted hs is seen out = Inr (out @ map (\<lambda>i. hs ! (nat \<lfloor>i\<rfloor> - 1)) (filter (\<lambda>i. i \<notin> set seen) (uniq is)))"
proof (induction "is" arbitrary: seen out)
  case (Cons i "is")
  have ok: "\<not> (of_int \<lfloor>i\<rfloor> \<noteq> i \<or> i < 1 \<or> i > of_nat (length hs))" using Cons.prems by (auto simp: index_ok_def)
  have f: "filter (\<lambda>x. x \<notin> set (i # seen)) xs = filter (\<lambda>x. x \<notin> set seen) (filter (\<lambda>x. x \<noteq> i) xs)" for xs
    by (simp add: conj_commute)
  have g: "i \<in> set seen \<Longrightarrow> filter (\<lambda>x. x \<notin> set seen) (filter (\<lambda>x. x \<noteq> i) xs) = filter (\<lambda>x. x \<notin> set seen) xs" for xs
    by (auto intro: filter_cong)
  show ?case
  proof (cases "i \<in> set seen")
    case True
    with Cons ok show ?thesis by (simp add: g del: filter_filter)
  next
    case False
    with Cons.IH [of "i # seen"] Cons.prems ok show ?thesis by (simp add: conj_commute)
  qed
qed simp

lemma select_sorted_bad:
  "\<not> list_all (index_ok (length hs)) is \<Longrightarrow> \<exists>e. select_sorted hs is seen out = Inl e"
  by (induction "is" arbitrary: seen out) (auto simp: index_ok_def)

lemma sorted_filter_le: "sorted xs \<Longrightarrow> sorted (filter P (xs :: 'a :: linorder list))"
  using sorted_filter [of "\<lambda>x. x" xs P] by simp

lemma sorted_uniq: "sorted (xs :: 'a :: linorder list) \<Longrightarrow> sorted (uniq xs)"
  by (induction xs) (auto simp: sorted_filter_le)

lemma positions_sorted:
  assumes ok: "list_all (index_ok n) is"
  shows "uniq (sort is) = map (\<lambda>k. of_nat (Suc k)) (filter (\<lambda>k. of_nat (Suc k) \<in> set is) [0..<n])"
proof (rule sorted_distinct_set_unique)
  show "sorted (uniq (sort is))" "distinct (uniq (sort is))" by (simp_all add: sorted_uniq)
  show "sorted (map (\<lambda>k. of_nat (Suc k) :: rat) (filter (\<lambda>k. of_nat (Suc k) \<in> set is) [0..<n]))"
    by (rule sorted_map_mono) (auto simp: sorted_filter_le monotone_on_def)
  show "distinct (map (\<lambda>k. of_nat (Suc k) :: rat) (filter (\<lambda>k. of_nat (Suc k) \<in> set is) [0..<n]))"
    by (auto simp: distinct_map inj_on_def)
  have "\<exists>k < n. i = of_nat (Suc k)" if "i \<in> set is" for i
  proof -
    have i: "of_int \<lfloor>i\<rfloor> = i" "1 \<le> i" "i \<le> of_nat n" using ok that by (auto simp: list_all_iff index_ok_def)
    then have "1 \<le> \<lfloor>i\<rfloor>" by (simp add: le_floor_iff)
    then have "i = of_nat (Suc (nat \<lfloor>i\<rfloor> - 1))" using i(1) by (metis Suc_pred' of_int_of_nat_eq int_nat_eq nat_0_iff not_gr_zero le_numeral_extra(2) linorder_not_le order_less_le_trans zero_less_nat_eq zero_less_one le_less)
    moreover from this i(3) have "nat \<lfloor>i\<rfloor> - 1 < n" by (metis Suc_le_eq of_nat_le_iff)
    ultimately show ?thesis by blast
  qed
  then show "set (uniq (sort is)) = set (map (\<lambda>k. of_nat (Suc k)) (filter (\<lambda>k. of_nat (Suc k) \<in> set is) [0..<n]))"
    by auto
qed

lemma select_hunks_spec:
  "is \<noteq> [] \<Longrightarrow> list_all (index_ok (length (d_hunks d))) is \<Longrightarrow>
   selectHunks d is = Inr (map (\<lambda>k. d_hunks d ! k) (filter (\<lambda>k. of_nat (Suc k) \<in> set is) [0..<length (d_hunks d)]))"
proof -
  assume ne: "is \<noteq> []" and ok: "list_all (index_ok (length (d_hunks d))) is"
  have n: "nat (1 + int x) = Suc x" for x by simp
  have "list_all (index_ok (length (d_hunks d))) (sort is)" using ok by (simp add: list_all_iff)
  from select_sorted_ok [OF this, of "[]" "[]"] ne positions_sorted [OF ok] show ?thesis
    by (simp add: selectHunks_def comp_def n)
qed

subsection \<open>Properties\<close>

lemma selection_refused:
  assumes "\<not> (is \<noteq> [] \<and> list_all (index_ok (length (d_hunks d))) is)"
  shows "\<exists>e. selectHunks d is = Inl e"
proof (cases "is = []")
  case False
  with assms have "\<not> list_all (index_ok (length (d_hunks d))) (sort is)" by (simp add: list_all_iff)
  from select_sorted_bad [OF this] False show ?thesis by (simp add: selectHunks_def)
qed (simp add: selectHunks_def)

lemma selection_exact:
  "selectHunks d is = Inr hs \<Longrightarrow>
     hs = map (\<lambda>k. d_hunks d ! k) (filter (\<lambda>k. of_nat (Suc k) \<in> set is) [0..<length (d_hunks d)])"
  using selection_refused [of "is" d]
  by (cases "is \<noteq> [] \<and> list_all (index_ok (length (d_hunks d))) is") (auto simp: select_hunks_spec)

text \<open>
  A selection is exact: indices that all name hunks give those hunks once each in file order,
  whatever the order and repetitions of the request, and one index that names none refuses the
  whole request.
\<close>
theorem selection_is_exact:
  "case selectHunks d is of
     Inr hs \<Rightarrow> is \<noteq> [] \<and> list_all (index_ok (length (d_hunks d))) is
       \<and> hs = map (\<lambda>k. d_hunks d ! k) (filter (\<lambda>k. of_nat (Suc k) \<in> set is) [0..<length (d_hunks d)])
   | Inl _ \<Rightarrow> \<not> (is \<noteq> [] \<and> list_all (index_ok (length (d_hunks d))) is)"
  using selection_refused [of "is" d] select_hunks_spec [of "is" d]
  by (cases "is \<noteq> [] \<and> list_all (index_ok (length (d_hunks d))) is") auto

lemma ok_with_text: "list_all hunk_ok (map with_text hs) = list_all hunk_ok hs" "in_order (map with_text hs) = in_order hs"
  "body_diffs (map with_text hs) = body_diffs hs"
proof -
  show "list_all hunk_ok (map with_text hs) = list_all hunk_ok hs"
    by (simp add: list_all_iff hunk_ok_def with_text_def)
  show "in_order (map with_text hs) = in_order hs" by (simp add: in_order_def sorted_wrt_map with_text_def)
  show "body_diffs (map with_text hs) = body_diffs hs" by (induction hs) (simp_all add: with_text_def)
qed

lemma body_diffs_sub: "body_diffs (map (\<lambda>k. hs ! k) (filter P [0..<length hs])) \<le> body_diffs hs"
proof (induction hs rule: rev_induct)
  case (snoc h hs)
  have "map (\<lambda>k. (hs @ [h]) ! k) (filter P [0..<length hs]) = map (\<lambda>k. hs ! k) (filter P [0..<length hs])"
    by (auto simp: nth_append)
  then have "map (\<lambda>k. (hs @ [h]) ! k) (filter P [0..<length (hs @ [h])])
      = map (\<lambda>k. hs ! k) (filter P [0..<length hs]) @ (if P (length hs) then [h] else [])" by simp
  with snoc show ?case by (simp only: body_diffs_append) simp
qed simp

lemma in_order_sub: "in_order hs \<Longrightarrow> in_order (map (\<lambda>k. hs ! k) (filter P [0..<length hs]))"
proof -
  assume "in_order hs"
  then have "sorted_wrt (\<lambda>a b. h_oldStart (hs ! a) + h_oldCount (hs ! a) \<le> h_oldStart (hs ! b)) [0..<length hs]"
    by (auto simp: in_order_def sorted_wrt_iff_nth_less)
  then show ?thesis by (simp add: in_order_def sorted_wrt_map sorted_wrt_filter)
qed

lemma parts_one_line: "list_all hunk_ok hs \<Longrightarrow> \<forall>l \<in> set (subset_parts delta hs). nl \<notin> set l"
proof (induction hs arbitrary: delta)
  case (Cons h hs)
  then obtain m where m: "hunk_header (h_heading h) = Some m" by (auto simp: hunk_ok_def)
  have digits: "nl \<notin> set (show_nat n)" for n using show_nat_digits [of n] by (auto simp: nl_def is_digit_def)
  have "nl \<notin> set (heading_suffix (h_heading h))"
    using header_one_line(1) [OF m] heading_suffix_set by (auto simp: nl_def)
  then have "nl \<notin> set (subset_heading h delta)" using digits by (auto simp: subset_heading_def show_int_def nl_def)
  with Cons show ?case by (auto simp: hunk_ok_def body_line_def list_all_iff)
qed simp

lemma rebuilt_bodies: "map h_body (rebuilt i delta hs) = map h_body hs"
  by (induction hs arbitrary: i delta) simp_all

lemma digest_of_bodies:
  assumes "map h_body hs = map h_body hs'"
  shows "digestHunks sha hs = digestHunks sha hs'"
proof -
  have "digestHunks sha gs = ''sha256:'' @ sha (concat (map (\<lambda>b. join_with [nl] b @ [CHR 0x00]) (map h_body gs)))" for gs
    by (simp add: digestHunks_def comp_def)
  then show ?thesis by (simp only: assms)
qed

text \<open>
  C8: The rebuilt patch of any selection reads back as exactly the selected hunks: same bodies and
  old side in file order, the new side moved by the selected hunks before it, and the same
  preamble. So what git is given has the digest of what was shown when the hunks were chosen.
\<close>
theorem rebuilt_patch_reads_back:
  assumes "parseUnifiedDiff s = Inr d" "in_order (d_hunks d)" "selectHunks d is = Inr selected"
    "buildSubsetPatch d selected = Inr patch"
  shows "\<exists>d'. parseUnifiedDiff patch = Inr d' \<and> d_preamble d' = d_preamble d
    \<and> d_hunks d' = map with_text (rebuilt 1 0 selected) \<and> map h_body (d_hunks d') = map h_body selected
    \<and> digestHunks sha (d_hunks d') = digestHunks sha selected"
proof -
  obtain st where st: "st_ok st" and d: "d = \<lparr>d_preamble = ps_preamble st, d_hunks = map with_text (ps_hunks st), d_binary = ps_binary st\<rparr>"
    by (rule parse_ok [OF assms(1)])
  have sel: "selected = map (\<lambda>k. d_hunks d ! k) (filter (\<lambda>k. of_nat (Suc k) \<in> set is) [0..<length (d_hunks d)])"
    by (rule selection_exact [OF assms(3)])
  have hs: "list_all hunk_ok (d_hunks d)" using st by (simp add: d ok_with_text st_ok_def parsed_lines_ok_def)
  have ok: "list_all hunk_ok selected" using hs by (auto simp: sel list_all_iff)
  have ord: "in_order selected" unfolding sel by (rule in_order_sub [OF assms(2)])
  have bd: "body_diffs selected \<le> body_diffs (ps_hunks st)"
    using body_diffs_sub [of "d_hunks d"] unfolding sel by (simp add: d ok_with_text)
  have one: "ndiff (ps_preamble st) + body_diffs (ps_hunks st) \<le> 1" using st by (simp add: st_ok_def state_diffs_def)
  have nb: "\<not> d_binary d" "selected \<noteq> []" and patch: "patch = join_with [nl] (d_preamble d @ subset_parts 0 selected) @ [nl]"
    using assms(4) by (auto simp: buildSubsetPatch_def split: if_splits)
  have bin: "\<forall>l \<in> set (ps_preamble st). \<not> starts_with l ''Binary files ''" using st nb(1) by (simp add: st_ok_def d)
  define st1 where "st1 = start_state\<lparr>ps_preamble := ps_preamble st, ps_seen := 0 < ndiff (ps_preamble st)\<rparr>"
  have pre: "parse_lines start_state (ps_preamble st) = Inr st1"
    using parse_preamble [of start_state "ps_preamble st"] st one bin
    by (simp add: start_state_def st_ok_def parsed_lines_ok_def st1_def)
  have parts: "parse_lines st1 (subset_parts 0 selected)
      = Inr (st1\<lparr>ps_hunks := rebuilt 1 0 selected, ps_seen := ps_seen st1 \<or> 0 < body_diffs selected\<rparr>)"
    using parse_parts [OF ok ord, of 0 st1] one bd by (simp add: st1_def start_state_def)
  have nonl: "\<forall>l \<in> set (d_preamble d @ subset_parts 0 selected). nl \<notin> set l"
    using parts_one_line [OF ok, of 0] st by (auto simp: d st_ok_def parsed_lines_ok_def body_line_def list_all_iff)
  have "subset_parts 0 selected \<noteq> []" using nb(2) by (cases selected) auto
  then have lines: "diff_lines patch = d_preamble d @ subset_parts 0 selected"
    unfolding patch using nonl by (intro diff_lines_join) auto
  have read: "parseUnifiedDiff patch = Inr \<lparr>d_preamble = d_preamble d, d_hunks = map with_text (rebuilt 1 0 selected),
      d_binary = False\<rparr>"
    using pre parts by (simp add: parseUnifiedDiff_def lines parse_lines_append d) (simp add: st1_def start_state_def)
  have body: "map h_body (map with_text (rebuilt 1 0 selected)) = map h_body selected"
    using rebuilt_bodies [of 1 0 selected] by (simp add: comp_def with_text_def)
  show ?thesis using read body digest_of_bodies [OF body] by simp
qed

definition sample_diff :: string where
  "sample_diff = join_with [nl] [''diff --git a/f b/f'', ''@@ -1,2 +1,3 @@'', '' a'', ''+b'', '' c'', ''@@ -9 +10 @@ fn'', ''-x'', ''+y''] @ [nl]"

theorem rebuilt_patch_reads_back_witness:
  "\<exists>d'. parseUnifiedDiff (join_with [nl] [''diff --git a/f b/f'', ''@@ -9,1 +9,1 @@ fn'', ''-x'', ''+y''] @ [nl]) = Inr d'
     \<and> map h_body (d_hunks d') = [[''-x'', ''+y'']]"
proof -
  define d where "d = \<lparr>d_preamble = [''diff --git a/f b/f''], d_hunks = map with_text
    [\<lparr>h_index = 1, h_oldStart = 1, h_oldCount = 2, h_newStart = 1, h_newCount = 3, h_heading = ''@@ -1,2 +1,3 @@'',
      h_body = ['' a'', ''+b'', '' c''], h_text = []\<rparr>,
     \<lparr>h_index = 2, h_oldStart = 9, h_oldCount = 1, h_newStart = 10, h_newCount = 1, h_heading = ''@@ -9 +10 @@ fn'',
      h_body = [''-x'', ''+y''], h_text = []\<rparr>], d_binary = False\<rparr>"
  have a: "parseUnifiedDiff sample_diff = Inr d" unfolding d_def by code_simp
  have b: "in_order (d_hunks d)" unfolding d_def by code_simp
  have c: "selectHunks d [2, 2] = Inr [d_hunks d ! 1]" unfolding d_def by code_simp
  have e: "buildSubsetPatch d [d_hunks d ! 1]
      = Inr (join_with [nl] [''diff --git a/f b/f'', ''@@ -9,1 +9,1 @@ fn'', ''-x'', ''+y''] @ [nl])"
    unfolding d_def by code_simp
  from rebuilt_patch_reads_back [OF a b c e] obtain d' where d': "parseUnifiedDiff (join_with [nl] [''diff --git a/f b/f'', ''@@ -9,1 +9,1 @@ fn'', ''-x'', ''+y''] @ [nl]) = Inr d'"
    "map h_body (d_hunks d') = map h_body [d_hunks d ! 1]" by blast
  moreover have "map h_body [d_hunks d ! 1] = [[''-x'', ''+y'']]" unfolding d_def by code_simp
  ultimately show ?thesis by metis
qed

text \<open>
  The new side of a hunk with an empty old side does not come out as git writes it: the only hunk
  of a new file, \<open>@@ -0,0 +1,2 @@\<close>, is rebuilt with a new start of 0.
\<close>
lemma new_file_heading:
  "subset_heading \<lparr>h_index = 1, h_oldStart = 0, h_oldCount = 0, h_newStart = 1, h_newCount = 2,
     h_heading = ''@@ -0,0 +1,2 @@'', h_body = [''+a'', ''+b''], h_text = []\<rparr> 0 = ''@@ -0,0 +0,2 @@''"
  by code_simp

end
