(* ===== verification/CronSchedule.thy ===== *)
theory CronSchedule
  imports JsText
begin

text \<open>
  The loop schedule grammar (\<open>packages/server/src/scheduler/schedule.ts\<close>): fixed intervals and
  five-field cron expressions, resolved to the next instant by stepping minutes. An instant is a
  time value in milliseconds since the epoch, \<open>None\<close> the time value of an invalid date; the UTC
  fields of a date are those of ECMAScript.
\<close>

subsection \<open>Dates\<close>

type_synonym date = "int option"

definition MS_PER_DAY :: int where "MS_PER_DAY = 86400000"

definition time_clip :: "int \<Rightarrow> date" where
  "time_clip t = (if \<bar>t\<bar> \<le> 8640000000000000 then Some t else None)"

definition day_of :: "int \<Rightarrow> int" where "day_of t = t div MS_PER_DAY"
definition hour_of :: "int \<Rightarrow> int" where "hour_of t = t mod MS_PER_DAY div 3600000"
definition minute_of :: "int \<Rightarrow> int" where "minute_of t = t mod 3600000 div 60000"
definition second_of :: "int \<Rightarrow> int" where "second_of t = t mod 60000 div 1000"
definition milli_of :: "int \<Rightarrow> int" where "milli_of t = t mod 1000"
definition weekday_of :: "int \<Rightarrow> int" where "weekday_of t = (day_of t + 4) mod 7"

definition make_date :: "int \<Rightarrow> int \<Rightarrow> int \<Rightarrow> int \<Rightarrow> int \<Rightarrow> int" where
  "make_date day h m s ms = day * MS_PER_DAY + (h * 3600000 + m * 60000 + s * 1000 + ms)"

definition day_from_year :: "int \<Rightarrow> int" where
  "day_from_year y = 365 * (y - 1970) + (y - 1969) div 4 - (y - 1901) div 100 + (y - 1601) div 400"

definition year_of_day :: "int \<Rightarrow> int" where
  "year_of_day d =
     (let y = 1970 + 400 * d div 146097 in
      if d < day_from_year y then y - 1 else if day_from_year (y + 1) \<le> d then y + 1 else y)"

definition leap_year :: "int \<Rightarrow> bool" where
  "leap_year y \<longleftrightarrow> y mod 4 = 0 \<and> (y mod 100 \<noteq> 0 \<or> y mod 400 = 0)"

definition month_lengths :: "int \<Rightarrow> int list" where
  "month_lengths y = [31, if leap_year y then 29 else 28, 31, 30, 31, 30, 31, 31, 30, 31, 30, 31]"

text \<open>The month (from 1) and day of the month of a day counted from the start of its year.\<close>

fun month_day :: "int list \<Rightarrow> int \<Rightarrow> int \<Rightarrow> int \<times> int" where
  "month_day [] m d = (m, d + 1)"
| "month_day (l # ls) m d = (if d < l then (m, d + 1) else month_day ls (m + 1) (d - l))"

definition month_date :: "int \<Rightarrow> int \<times> int" where
  "month_date t = (let d = day_of t; y = year_of_day d in month_day (month_lengths y) 1 (d - day_from_year y))"

definition setUTCSeconds00 :: "date \<Rightarrow> date" where
  "setUTCSeconds00 at' = Option.bind at' (\<lambda>t. time_clip (make_date (day_of t) (hour_of t) (minute_of t) 0 0))"

definition nextUTCMinute :: "date \<Rightarrow> date" where
  "nextUTCMinute at' = Option.bind at' (\<lambda>t. time_clip (make_date (day_of t) (hour_of t) (minute_of t + 1) (second_of t) (milli_of t)))"

subsection \<open>The grammar\<close>

datatype sched_error =
    EmptyPart | InvalidStep | InvalidValue | InvalidRange | OutOfRange | MatchesNothing
  | FieldCount nat | BadInterval

definition CRON_HORIZON_MINUTES :: nat where "CRON_HORIZON_MINUTES = 366 * 24 * 60"

definition UNIT_MS :: "char \<Rightarrow> int" where
  "UNIT_MS c = (if c = CHR ''m'' then 60000 else if c = CHR ''h'' then 60 * 60000 else 24 * 60 * 60000)"

text \<open>\<open>INTERVAL\<close>: the count and the unit letter.\<close>

definition interval_match :: "string \<Rightarrow> (nat \<times> char) option" where
  "interval_match s =
     (let r = drop 5 s; r1 = dropWhile is_ws r; ds = takeWhile is_digit r1;
          r2 = dropWhile is_ws (dropWhile is_digit r1)
      in if map lower_char (take 5 s) = ''every'' \<and> r1 \<noteq> r \<and> ds \<noteq> []
         then (case r2 of
             [u] \<Rightarrow> if lower_char u \<in> {CHR ''m'', CHR ''h'', CHR ''d''} then Some (read_nat ds, lower_char u) else None
           | _ \<Rightarrow> None)
         else None)"

definition CRON_BOUNDS :: "(int \<times> int) list" where
  "CRON_BOUNDS = [(0, 59), (0, 23), (1, 31), (1, 12), (0, 6)]"

function count_up :: "int \<Rightarrow> int \<Rightarrow> int \<Rightarrow> int list" where
  "count_up v e s = (if v > e \<or> s < 1 then [] else v # count_up (v + s) e s)"
  by pat_completeness auto
termination by (relation "measure (\<lambda>(v, e, s). nat (e + 1 - v))") auto

declare count_up.simps [simp del]

text \<open>The start and the end a part ranges over, given whether it has a step.\<close>

definition part_bounds :: "int \<Rightarrow> int \<Rightarrow> string \<Rightarrow> bool \<Rightarrow> sched_error + int \<times> int" where
  "part_bounds lo hi rangePart stepped =
     (if rangePart = ''*'' then Inr (lo, hi)
      else let bounds = split_on (CHR ''-'') rangePart in
        (case is_integer_num (js_number (bounds ! 0)) of
           None \<Rightarrow> Inl InvalidValue
         | Some first \<Rightarrow>
            (case (if length bounds > 1 then is_integer_num (js_number (bounds ! 1)) else Some first) of
               None \<Rightarrow> Inl InvalidRange
             | Some end' \<Rightarrow> Inr (first, if length bounds = 1 \<and> stepped then hi else end'))))"

definition expand_part :: "int \<Rightarrow> int \<Rightarrow> string \<Rightarrow> sched_error + int list" where
  "expand_part lo hi part =
     (let pieces = split_on (CHR ''/'') part; rangePart = pieces ! 0; stepped = length pieces > 1 in
      if rangePart = [] then Inl EmptyPart
      else (case (if stepped then is_integer_num (js_number (pieces ! 1)) else Some 1) of
          None \<Rightarrow> Inl InvalidStep
        | Some step \<Rightarrow>
            if step < 1 then Inl InvalidStep
            else (case part_bounds lo hi rangePart stepped of
                Inl e \<Rightarrow> Inl e
              | Inr (start, end') \<Rightarrow>
                  if start < lo \<or> end' > hi \<or> start > end' then Inl OutOfRange
                  else Inr (count_up start end' step))))"

fun expand_parts :: "int \<Rightarrow> int \<Rightarrow> int list \<Rightarrow> string list \<Rightarrow> sched_error + int list" where
  "expand_parts lo hi out [] = (if out = [] then Inl MatchesNothing else Inr out)"
| "expand_parts lo hi out (part # parts) = (case expand_part lo hi part of
      Inl e \<Rightarrow> Inl e
    | Inr vs \<Rightarrow> expand_parts lo hi (out @ filter (\<lambda>v. v \<notin> set out) vs) parts)"

definition expandField :: "string \<Rightarrow> nat \<Rightarrow> sched_error + int list" where
  "expandField field i = (case CRON_BOUNDS ! i of (lo, hi) \<Rightarrow> expand_parts lo hi [] (split_on (CHR '','') field))"

record cron_spec =
  cr_minute :: "int list"
  cr_hour :: "int list"
  cr_dom :: "int list"
  cr_month :: "int list"
  cr_dow :: "int list"
  cr_domRestricted :: bool
  cr_dowRestricted :: bool

definition parseCron :: "string \<Rightarrow> sched_error + cron_spec" where
  "parseCron expression =
     (case split_ws (trim expression) of
        [f0, f1, f2, f3, f4] \<Rightarrow>
          (case expandField f0 0 of Inl e \<Rightarrow> Inl e | Inr minute \<Rightarrow>
          (case expandField f1 1 of Inl e \<Rightarrow> Inl e | Inr hour \<Rightarrow>
          (case expandField f2 2 of Inl e \<Rightarrow> Inl e | Inr dom' \<Rightarrow>
          (case expandField f3 3 of Inl e \<Rightarrow> Inl e | Inr month \<Rightarrow>
          (case expandField f4 4 of Inl e \<Rightarrow> Inl e | Inr dow \<Rightarrow>
             Inr \<lparr>cr_minute = minute, cr_hour = hour, cr_dom = dom', cr_month = month, cr_dow = dow,
                  cr_domRestricted = (f2 \<noteq> ''*''), cr_dowRestricted = (f4 \<noteq> ''*'')\<rparr>)))))
      | fs \<Rightarrow> Inl (FieldCount (length fs)))"

definition matches :: "cron_spec \<Rightarrow> date \<Rightarrow> bool" where
  "matches spec at' = (case at' of None \<Rightarrow> False | Some t \<Rightarrow>
     if minute_of t \<notin> set (cr_minute spec) then False
     else if hour_of t \<notin> set (cr_hour spec) then False
     else if fst (month_date t) \<notin> set (cr_month spec) then False
     else let domHit = snd (month_date t) \<in> set (cr_dom spec); dowHit = weekday_of t \<in> set (cr_dow spec) in
       if cr_domRestricted spec \<and> cr_dowRestricted spec then domHit \<or> dowHit
       else if cr_domRestricted spec then domHit
       else if cr_dowRestricted spec then dowHit
       else True)"

fun cron_search :: "nat \<Rightarrow> cron_spec \<Rightarrow> date \<Rightarrow> date option" where
  "cron_search 0 spec cursor = None"
| "cron_search (Suc n) spec cursor = (if matches spec cursor then Some cursor else cron_search n spec (nextUTCMinute cursor))"

text \<open>The next firing: an error, or null, or a date.\<close>

definition nextRunAt :: "string \<Rightarrow> date \<Rightarrow> sched_error + date option" where
  "nextRunAt schedule from' =
     (case interval_match (trim schedule) of
        Some (n, u) \<Rightarrow>
          if n < 1 \<or> of_nat n \<ge> MAX_DOUBLE then Inl BadInterval
          else Inr (Some (Option.bind from' (\<lambda>t. time_clip (t + int n * UNIT_MS u))))
      | None \<Rightarrow>
          (case parseCron schedule of
             Inl e \<Rightarrow> Inl e
           | Inr spec \<Rightarrow> Inr (cron_search CRON_HORIZON_MINUTES spec (nextUTCMinute (setUTCSeconds00 from')))))"

definition assertValidSchedule :: "string \<Rightarrow> sched_error + unit" where
  "assertValidSchedule schedule =
     (if interval_match (trim schedule) \<noteq> None then Inr ()
      else (case parseCron schedule of Inl e \<Rightarrow> Inl e | Inr _ \<Rightarrow> Inr ()))"

subsection \<open>The calendar\<close>

lemma div_bounds: "0 < n \<Longrightarrow> n * (x div n) \<le> x \<and> x < n * (x div n) + n" for n x :: int
  using mult_div_mod_eq [of n x] pos_mod_bound [of n x] pos_mod_sign [of n x] by linarith

lemma div_succ:
  fixes n x :: int
  assumes "0 < n"
  shows "(x + 1) div n = x div n + (if (x + 1) mod n = 0 then 1 else 0)"
proof -
  have *: "(x + 1) div n = q" if "n * q \<le> x + 1" "x + 1 < n * q + n" for q
    using that assms by (intro int_div_pos_eq [where r = "x + 1 - n * q"]) auto
  note x = div_bounds [OF assms, of x]
  show ?thesis
  proof (cases "x + 1 = n * (x div n) + n")
    case True
    then have "x + 1 = n * (x div n + 1)" by (simp add: algebra_simps)
    with * [of "x div n + 1"] assms show ?thesis by (simp add: algebra_simps)
  next
    case False
    with x have e: "(x + 1) div n = x div n" by (intro *) auto
    have "(x + 1) mod n = x + 1 - n * (x div n)" using e minus_mult_div_eq_mod [of "x + 1" n] by simp
    moreover have "x + 1 - n * (x div n) \<noteq> 0" using x by linarith
    ultimately have "(x + 1) mod n \<noteq> 0" by simp
    with e show ?thesis by simp
  qed
qed

lemma day_from_year_step: "day_from_year (y + 1) = day_from_year y + (if leap_year y then 366 else 365)"
proof -
  have m: "(y - c) mod n = y mod n" if "c mod n = 0" for c n :: int
    using that by (metis mod_diff_right_eq diff_zero)
  have a: "(y - 1968) div 4 = (y - 1969) div 4 + (if y mod 4 = 0 then 1 else 0)"
    using div_succ [of 4 "y - 1969"] m [of 1968 4] by simp
  have b: "(y - 1900) div 100 = (y - 1901) div 100 + (if y mod 100 = 0 then 1 else 0)"
    using div_succ [of 100 "y - 1901"] m [of 1900 100] by simp
  have c: "(y - 1600) div 400 = (y - 1601) div 400 + (if y mod 400 = 0 then 1 else 0)"
    using div_succ [of 400 "y - 1601"] m [of 1600 400] by simp
  have i: "y mod 100 = 0 \<Longrightarrow> y mod 4 = 0" "y mod 400 = 0 \<Longrightarrow> y mod 100 = 0"
    using dvd_trans [of 4 100 y] dvd_trans [of 100 400 y] by (simp_all add: dvd_eq_mod_eq_0)
  have s: "y + 1 - 1969 = y - 1968" "y + 1 - 1901 = y - 1900" "y + 1 - 1601 = y - 1600" by simp_all
  have sum: "365 * (y + 1 - 1970) + (p + p') - (q + q') + (r + r') = 365 * (y - 1970) + p - q + r + 365 + p' - q' + r'"
    for p p' q q' r r' :: int by simp
  have "day_from_year (y + 1) = day_from_year y + 365 + (if y mod 4 = 0 then 1 else 0)
      - (if y mod 100 = 0 then 1 else 0) + (if y mod 400 = 0 then 1 else 0)"
    unfolding day_from_year_def s a b c by (rule sum)
  moreover have "(if y mod 4 = 0 then 1 else 0) - (if y mod 100 = 0 then 1 else 0) + (if y mod 400 = 0 then 1 else 0)
      = (if leap_year y then 1 else (0 :: int))"
    unfolding leap_year_def using i by (cases "y mod 4 = 0"; cases "y mod 100 = 0"; cases "y mod 400 = 0") simp_all
  ultimately show ?thesis by (cases "leap_year y") simp_all
qed

lemma day_from_year_mono: "x \<le> y \<Longrightarrow> day_from_year x \<le> day_from_year y"
proof (induction "nat (y - x)" arbitrary: y)
  case (Suc n)
  then have "day_from_year x \<le> day_from_year (y - 1)" by (intro Suc(1)) auto
  with day_from_year_step [of "y - 1"] show ?case by (auto split: if_splits)
qed auto

lemma year_of_day: "day_from_year (year_of_day d) \<le> d \<and> d < day_from_year (year_of_day d + 1)"
proof -
  define k where "k = 400 * d div 146097"
  have k: "146097 * k \<le> 400 * d" "400 * d < 146097 * k + 146097" unfolding k_def using div_bounds [of 146097 "400 * d"] by simp_all
  have b: "day_from_year (1970 + j) = 365 * j + (j + 1) div 4 - (j + 69) div 100 + (j + 369) div 400" for j
    by (simp add: day_from_year_def algebra_simps)
  have lo: "day_from_year (1970 + k - 1) \<le> d" using b [of "k - 1"] k div_bounds [of 4 k] div_bounds [of 100 "k + 68"] div_bounds [of 400 "k + 368"]
    by (simp add: algebra_simps)
  have hi: "d < day_from_year (1970 + k + 2)" using b [of "k + 2"] k div_bounds [of 4 "k + 3"] div_bounds [of 100 "k + 71"] div_bounds [of 400 "k + 371"]
    by (simp add: algebra_simps)
  have y: "year_of_day d = (if d < day_from_year (1970 + k) then 1970 + k - 1
      else if day_from_year (1970 + k + 1) \<le> d then 1970 + k + 1 else 1970 + k)"
    by (simp only: year_of_day_def Let_def k_def)
  show ?thesis unfolding y using lo hi by (auto simp: add.assoc)
qed

lemma year_of_day_eq:
  assumes "day_from_year y \<le> d" "d < day_from_year (y + 1)"
  shows "year_of_day d = y"
proof -
  have "\<not> year_of_day d + 1 \<le> y" "\<not> y + 1 \<le> year_of_day d"
    using year_of_day [of d] assms day_from_year_mono by (meson leD order_trans)+
  then show ?thesis by simp
qed

lemma time_split:
  "t = day_of t * MS_PER_DAY + t mod MS_PER_DAY"
  "t mod MS_PER_DAY = hour_of t * 3600000 + t mod 3600000"
  "t mod 3600000 = minute_of t * 60000 + t mod 60000"
  "t mod 60000 = second_of t * 1000 + milli_of t"
proof -
  have m: "t mod MS_PER_DAY mod 3600000 = t mod 3600000" "t mod 3600000 mod 60000 = t mod 60000" "t mod 60000 mod 1000 = t mod 1000"
    unfolding MS_PER_DAY_def by (rule mod_mod_cancel, simp)+
  show "t = day_of t * MS_PER_DAY + t mod MS_PER_DAY" unfolding day_of_def by (rule div_mult_mod_eq [symmetric])
  show "t mod MS_PER_DAY = hour_of t * 3600000 + t mod 3600000"
    unfolding hour_of_def m(1) [symmetric] by (rule div_mult_mod_eq [symmetric])
  show "t mod 3600000 = minute_of t * 60000 + t mod 60000"
    unfolding minute_of_def m(2) [symmetric] by (rule div_mult_mod_eq [symmetric])
  show "t mod 60000 = second_of t * 1000 + milli_of t"
    unfolding second_of_def milli_of_def m(3) [symmetric] by (rule div_mult_mod_eq [symmetric])
qed

lemma make_date_same: "make_date (day_of t) (hour_of t) (minute_of t + k) (second_of t) (milli_of t) = t + 60000 * k"
  using time_split [of t] unfolding make_date_def by (simp add: algebra_simps)

lemma make_date_floor: "make_date (day_of t) (hour_of t) (minute_of t) 0 0 = t - t mod 60000"
  using time_split [of t] unfolding make_date_def by (simp add: algebra_simps)

lemma nextUTCMinute_Some: "nextUTCMinute (Some t) = time_clip (t + 60000)"
  using make_date_same [of t 1] by (simp add: nextUTCMinute_def)

subsection \<open>What a field denotes\<close>

text \<open>The grammar as the comment of the code lists it, with its text and its meaning.\<close>

datatype cron_part = Every "nat option" | From nat "nat option" | Span nat nat "nat option"

definition step_text :: "nat option \<Rightarrow> string" where
  "step_text s = (case s of None \<Rightarrow> [] | Some n \<Rightarrow> CHR ''/'' # show_nat n)"

fun part_text :: "cron_part \<Rightarrow> string" where
  "part_text (Every s) = ''*'' @ step_text s"
| "part_text (From a s) = show_nat a @ step_text s"
| "part_text (Span a b s) = show_nat a @ CHR ''-'' # show_nat b @ step_text s"

definition step_of :: "nat option \<Rightarrow> int" where
  "step_of s = (case s of None \<Rightarrow> 1 | Some n \<Rightarrow> int n)"

fun part_means :: "int \<Rightarrow> int \<Rightarrow> cron_part \<Rightarrow> int \<Rightarrow> bool" where
  "part_means lo hi (Every s) v \<longleftrightarrow> lo \<le> v \<and> v \<le> hi \<and> step_of s dvd v - lo"
| "part_means lo hi (From a None) v \<longleftrightarrow> v = int a"
| "part_means lo hi (From a (Some n)) v \<longleftrightarrow> int a \<le> v \<and> v \<le> hi \<and> int n dvd v - int a"
| "part_means lo hi (Span a b s) v \<longleftrightarrow> int a \<le> v \<and> v \<le> int b \<and> step_of s dvd v - int a"

definition step_ok :: "nat option \<Rightarrow> bool" where
  "step_ok s = (case s of None \<Rightarrow> True | Some n \<Rightarrow> 0 < n \<and> n \<le> 9007199254740992)"

fun part_ok :: "int \<Rightarrow> int \<Rightarrow> cron_part \<Rightarrow> bool" where
  "part_ok lo hi (Every s) \<longleftrightarrow> step_ok s"
| "part_ok lo hi (From a s) \<longleftrightarrow> step_ok s \<and> lo \<le> int a \<and> int a \<le> hi"
| "part_ok lo hi (Span a b s) \<longleftrightarrow> step_ok s \<and> lo \<le> int a \<and> a \<le> b \<and> int b \<le> hi"

lemma set_count_up: "1 \<le> s \<Longrightarrow> set (count_up v e s) = {w. v \<le> w \<and> w \<le> e \<and> s dvd w - v}"
proof (induction v e s rule: count_up.induct)
  case (1 v e s)
  show ?case
  proof (cases "v > e")
    case False
    have "{w. v \<le> w \<and> w \<le> e \<and> s dvd w - v} = insert v {w. v + s \<le> w \<and> w \<le> e \<and> s dvd w - (v + s)}"
    proof (intro set_eqI)
      fix w
      have "s dvd w - v \<longleftrightarrow> s dvd w - (v + s)" by (metis diff_diff_eq dvd_minus_iff dvd_refl minus_diff_eq dvd_diff_right_iff)
      moreover have "v < w \<Longrightarrow> s dvd w - v \<Longrightarrow> v + s \<le> w" using zdvd_imp_le [of s "w - v"] by simp
      ultimately show "w \<in> {w. v \<le> w \<and> w \<le> e \<and> s dvd w - v} \<longleftrightarrow> w \<in> insert v {w. v + s \<le> w \<and> w \<le> e \<and> s dvd w - (v + s)}"
        using 1(2) False by (auto simp: order_le_less)
    qed
    moreover have "set (count_up (v + s) e s) = {w. v + s \<le> w \<and> w \<le> e \<and> s dvd w - (v + s)}" using 1 False by simp
    ultimately show ?thesis using 1(2) False by (subst count_up.simps) simp
  qed (use 1(2) in \<open>subst count_up.simps, auto\<close>)
qed

lemma integer_show: "n \<le> 9007199254740992 \<Longrightarrow> is_integer_num (js_number (show_nat n)) = Some (int n)"
  by (simp add: js_number_show is_integer_num_def)

lemma split_free: "c \<notin> set (show_nat n)" if "\<not> is_digit c"
  using show_nat_digits that by blast

lemma split_step:
  assumes "CHR ''/'' \<notin> set r"
  shows "split_on (CHR ''/'') (r @ step_text s) = r # (case s of None \<Rightarrow> [] | Some n \<Rightarrow> [show_nat n])"
  using assms split_on_append [of "CHR ''/''" r] split_on_no_sep [of "CHR ''/''"] split_free [of "CHR ''/''"]
  by (auto simp: step_text_def is_digit_def split: option.splits)

lemma nonslash: "CHR ''/'' \<notin> set (show_nat n)" "CHR ''-'' \<notin> set (show_nat n)" "CHR '','' \<notin> set (show_nat n)"
  "CHR ''*'' \<notin> set (show_nat n)"
  by (simp_all add: split_free is_digit_def)

lemma expand_range:
  assumes "part_bounds lo hi r (s \<noteq> None) = Inr (a, b)" "CHR ''/'' \<notin> set r" "r \<noteq> []"
    "lo \<le> a" "b \<le> hi" "a \<le> b" "step_ok s"
  shows "expand_part lo hi (r @ step_text s) = Inr (count_up a b (step_of s))"
  using assms by (auto simp: expand_part_def split_step step_ok_def step_of_def integer_show Let_def split: option.splits)

lemma expand_part_text:
  assumes ok: "part_ok lo hi p" and b: "0 \<le> lo" "lo \<le> hi" "hi \<le> 59"
  shows "\<exists>vs. expand_part lo hi (part_text p) = Inr vs \<and> vs \<noteq> [] \<and> set vs = {v. part_means lo hi p v}"
proof -
  have n: "show_nat n \<noteq> ''*''" for n using nonslash(4) [of n] by auto
  have i: "is_integer_num (js_number (show_nat n)) = Some (int n)" if "int n \<le> 59" for n
    using that by (intro integer_show) simp
  have fin: "\<exists>vs. expand_part lo hi (part_text p) = Inr vs \<and> vs \<noteq> [] \<and> set vs = {v. part_means lo hi p v}"
    if "part_text p = r @ step_text s" "part_bounds lo hi r (s \<noteq> None) = Inr (x, y)" "CHR ''/'' \<notin> set r" "r \<noteq> []"
      "lo \<le> x" "y \<le> hi" "x \<le> y" "step_ok s" "\<And>v. part_means lo hi p v \<longleftrightarrow> x \<le> v \<and> v \<le> y \<and> step_of s dvd v - x"
    for r s x y
  proof -
    have "1 \<le> step_of s" using that(8) by (auto simp: step_ok_def step_of_def split: option.splits)
    then have "set (count_up x y (step_of s)) = {v. part_means lo hi p v}" by (simp add: set_count_up that(9))
    moreover have "count_up x y (step_of s) \<noteq> []"
      using that(7) \<open>1 \<le> step_of s\<close> by (subst count_up.simps) simp
    ultimately show ?thesis using expand_range [OF that(2-8)] that(1) by auto
  qed
  show ?thesis
  proof (cases p)
    case (Every s)
    then show ?thesis using ok b by (intro fin [of "''*''" s lo hi]) (auto simp: part_bounds_def)
  next
    case (From a s)
    have "part_bounds lo hi (show_nat a) (s \<noteq> None) = Inr (int a, case s of None \<Rightarrow> int a | Some _ \<Rightarrow> hi)"
      using ok b n i [of a] by (auto simp: part_bounds_def From split_on_no_sep nonslash Let_def split: option.splits)
    then show ?thesis using ok b
      by (intro fin [of "show_nat a" s "int a" "case s of None \<Rightarrow> int a | Some _ \<Rightarrow> hi"])
        (auto simp: From nonslash show_nat_nonempty step_of_def split: option.splits)
  next
    case (Span a c s)
    have "show_nat a @ CHR ''-'' # show_nat c \<noteq> ''*''" using n nonslash(4) [of a] show_nat_nonempty [of a]
      by (cases "show_nat a") auto
    then have "part_bounds lo hi (show_nat a @ CHR ''-'' # show_nat c) (s \<noteq> None) = Inr (int a, int c)"
      using ok b i [of a] i [of c] by (auto simp: part_bounds_def Span split_on_append split_on_no_sep nonslash Let_def)
    then show ?thesis using ok b
      by (intro fin [of "show_nat a @ CHR ''-'' # show_nat c" s "int a" "int c"]) (auto simp: Span nonslash)
  qed
qed

definition field_text :: "cron_part list \<Rightarrow> string" where
  "field_text ps = join_with '','' (map part_text ps)"

definition field_ok :: "nat \<Rightarrow> cron_part list \<Rightarrow> bool" where
  "field_ok i ps \<longleftrightarrow> ps \<noteq> [] \<and> (case CRON_BOUNDS ! i of (lo, hi) \<Rightarrow> list_all (part_ok lo hi) ps)"

definition field_means :: "nat \<Rightarrow> cron_part list \<Rightarrow> int \<Rightarrow> bool" where
  "field_means i ps v \<longleftrightarrow> (case CRON_BOUNDS ! i of (lo, hi) \<Rightarrow> list_ex (\<lambda>p. part_means lo hi p v) ps)"

lemma part_text_free: "CHR '','' \<notin> set (part_text p)" "\<forall>c \<in> set (part_text p). \<not> is_ws c" "part_text p \<noteq> []"
proof -
  have "\<forall>c \<in> set (show_nat n). \<not> is_ws c" for n using show_nat_digits digit_not_ws by blast
  then show "\<forall>c \<in> set (part_text p). \<not> is_ws c"
    by (cases p) (auto simp: step_text_def is_ws_def split: option.splits)
  show "CHR '','' \<notin> set (part_text p)" "part_text p \<noteq> []"
    by (cases p; auto simp: step_text_def nonslash show_nat_nonempty split: option.splits)+
qed

lemma expand_parts_text:
  assumes "list_all (part_ok lo hi) ps" "0 \<le> lo" "lo \<le> hi" "hi \<le> 59" "out = [] \<longrightarrow> ps \<noteq> []"
  shows "\<exists>vs. expand_parts lo hi out (map part_text ps) = Inr vs \<and> set vs = set out \<union> {v. list_ex (\<lambda>p. part_means lo hi p v) ps}"
  using assms
proof (induction ps arbitrary: out)
  case (Cons p ps)
  obtain ws where ws: "expand_part lo hi (part_text p) = Inr ws" "ws \<noteq> []" "set ws = {v. part_means lo hi p v}"
    using expand_part_text [of lo hi p] Cons.prems by auto
  define out' where "out' = out @ filter (\<lambda>v. v \<notin> set out) ws"
  have "out' \<noteq> []" using ws(2) by (cases out) (auto simp: out'_def)
  then obtain vs where "expand_parts lo hi out' (map part_text ps) = Inr vs"
    "set vs = set out' \<union> {v. list_ex (\<lambda>p. part_means lo hi p v) ps}"
    using Cons.IH [of out'] Cons.prems by auto
  then show ?case using ws by (auto simp: out'_def)
qed auto

lemma expandField_text:
  assumes "field_ok i ps" "i < 5"
  shows "\<exists>vs. expandField (field_text ps) i = Inr vs \<and> set vs = {v. field_means i ps v}"
proof -
  obtain lo hi where b: "CRON_BOUNDS ! i = (lo, hi)" by (cases "CRON_BOUNDS ! i")
  have "CRON_BOUNDS ! i \<in> set CRON_BOUNDS" using assms(2) by (intro nth_mem) (simp add: CRON_BOUNDS_def)
  then have r: "0 \<le> lo" "lo \<le> hi" "hi \<le> 59" using b by (auto simp: CRON_BOUNDS_def)
  have ok: "list_all (part_ok lo hi) ps" "ps \<noteq> []" using assms(1) by (auto simp: field_ok_def b)
  have "split_on (CHR '','') (field_text ps) = map part_text ps"
    unfolding field_text_def using ok(2) part_text_free by (intro split_join) auto
  with expand_parts_text [OF ok(1) r, of "[]"] ok(2) show ?thesis
    by (simp add: expandField_def field_means_def b)
qed

subsection \<open>What an expression denotes\<close>

record cron =
  c_minute :: "cron_part list"
  c_hour :: "cron_part list"
  c_dom :: "cron_part list"
  c_month :: "cron_part list"
  c_dow :: "cron_part list"

definition cron_text :: "cron \<Rightarrow> string" where
  "cron_text c = join_with '' '' (map field_text [c_minute c, c_hour c, c_dom c, c_month c, c_dow c])"

definition cron_ok :: "cron \<Rightarrow> bool" where
  "cron_ok c \<longleftrightarrow> field_ok 0 (c_minute c) \<and> field_ok 1 (c_hour c) \<and> field_ok 2 (c_dom c) \<and> field_ok 3 (c_month c)
     \<and> field_ok 4 (c_dow c)"

text \<open>The day rule of POSIX: with both day fields restricted, either of them will do.\<close>

definition cron_due :: "cron \<Rightarrow> int \<Rightarrow> bool" where
  "cron_due c t \<longleftrightarrow> field_means 0 (c_minute c) (minute_of t) \<and> field_means 1 (c_hour c) (hour_of t)
     \<and> field_means 3 (c_month c) (fst (month_date t))
     \<and> (let dom' = field_means 2 (c_dom c) (snd (month_date t)); dow = field_means 4 (c_dow c) (weekday_of t) in
        if c_dom c = [Every None] \<and> c_dow c = [Every None] then True
        else if c_dom c = [Every None] then dow else if c_dow c = [Every None] then dom' else dom' \<or> dow)"

lemma field_text_star: "ps \<noteq> [] \<Longrightarrow> field_text ps = ''*'' \<longleftrightarrow> ps = [Every None]"
proof -
  have one: "part_text p = ''*'' \<longleftrightarrow> p = Every None" for p
  proof (cases p)
    case (From a s)
    have "CHR ''*'' \<notin> set (show_nat a)" "show_nat a \<noteq> []" by (rule nonslash show_nat_nonempty)+
    then show ?thesis by (cases "show_nat a") (auto simp: From)
  next
    case (Span a b s)
    have "CHR ''*'' \<notin> set (show_nat a)" "show_nat a \<noteq> []" by (rule nonslash show_nat_nonempty)+
    then show ?thesis by (cases "show_nat a") (auto simp: Span)
  qed (auto simp: step_text_def split: option.splits)
  assume "ps \<noteq> []"
  then show ?thesis
  proof (cases ps rule: remdups_adj.cases)
    case (3 p q rest)
    have "CHR '','' \<in> set (field_text ps)" by (simp add: field_text_def 3)
    then show ?thesis using 3 by auto
  qed (auto simp: field_text_def one)
qed

lemma field_text_words: "ps \<noteq> [] \<Longrightarrow> field_text ps \<noteq> [] \<and> (\<forall>c \<in> set (field_text ps). \<not> is_ws c)"
proof (induction ps rule: induct_list012)
  case (3 p q ps)
  then show ?case using part_text_free [of p] by (auto simp: field_text_def is_ws_def)
qed (use part_text_free in \<open>auto simp: field_text_def\<close>)

lemma trim_words:
  assumes "s \<noteq> []" "\<not> is_ws (hd s)" "\<not> is_ws (last s)"
  shows "trim s = s"
proof -
  have "dropWhile is_ws s = s" using assms by (cases s) auto
  moreover have "dropWhile is_ws (rev s) = rev s" using assms by (cases s rule: rev_cases) auto
  ultimately show ?thesis by (simp add: trim_def)
qed

lemma cron_text_trim:
  assumes "cron_ok c"
  shows "trim (cron_text c) = cron_text c" "split_ws (cron_text c) = map field_text [c_minute c, c_hour c, c_dom c, c_month c, c_dow c]"
proof -
  have f: "ps \<in> {c_minute c, c_hour c, c_dom c, c_month c, c_dow c} \<Longrightarrow> field_text ps \<noteq> [] \<and> (\<forall>x \<in> set (field_text ps). \<not> is_ws x)" for ps
    using assms by (intro field_text_words) (auto simp: cron_ok_def field_ok_def)
  then have "\<not> is_ws (hd (field_text (c_minute c)))" "\<not> is_ws (last (field_text (c_dow c)))" "field_text (c_minute c) \<noteq> []"
    "field_text (c_dow c) \<noteq> []" using f [of "c_minute c"] f [of "c_dow c"] by simp_all
  then show "trim (cron_text c) = cron_text c" by (intro trim_words) (simp_all add: cron_text_def)
  show "split_ws (cron_text c) = map field_text [c_minute c, c_hour c, c_dom c, c_month c, c_dow c]"
    unfolding cron_text_def list.map using f by (intro split_ws_words) auto
qed

definition spec_means :: "cron_spec \<Rightarrow> cron \<Rightarrow> bool" where
  "spec_means s c \<longleftrightarrow> set (cr_minute s) = {v. field_means 0 (c_minute c) v} \<and> set (cr_hour s) = {v. field_means 1 (c_hour c) v}
     \<and> set (cr_dom s) = {v. field_means 2 (c_dom c) v} \<and> set (cr_month s) = {v. field_means 3 (c_month c) v}
     \<and> set (cr_dow s) = {v. field_means 4 (c_dow c) v} \<and> cr_domRestricted s = (c_dom c \<noteq> [Every None])
     \<and> cr_dowRestricted s = (c_dow c \<noteq> [Every None])"

lemma parseCron_text:
  assumes "cron_ok c"
  shows "\<exists>s. parseCron (cron_text c) = Inr s \<and> spec_means s c"
proof -
  have ok: "field_ok 0 (c_minute c)" "field_ok 1 (c_hour c)" "field_ok 2 (c_dom c)" "field_ok 3 (c_month c)" "field_ok 4 (c_dow c)"
    using assms by (simp_all add: cron_ok_def)
  then have ne: "c_dom c \<noteq> []" "c_dow c \<noteq> []" by (simp_all add: field_ok_def)
  obtain a b d e f where "expandField (field_text (c_minute c)) 0 = Inr a \<and> set a = {v. field_means 0 (c_minute c) v}"
    "expandField (field_text (c_hour c)) 1 = Inr b \<and> set b = {v. field_means 1 (c_hour c) v}"
    "expandField (field_text (c_dom c)) 2 = Inr d \<and> set d = {v. field_means 2 (c_dom c) v}"
    "expandField (field_text (c_month c)) 3 = Inr e \<and> set e = {v. field_means 3 (c_month c) v}"
    "expandField (field_text (c_dow c)) 4 = Inr f \<and> set f = {v. field_means 4 (c_dow c) v}"
    using expandField_text [OF ok(1)] expandField_text [OF ok(2)] expandField_text [OF ok(3)] expandField_text [OF ok(4)]
      expandField_text [OF ok(5)] by auto
  then show ?thesis
    by (simp add: parseCron_def cron_text_trim [OF assms] spec_means_def field_text_star [OF ne(1)] field_text_star [OF ne(2)])
qed

lemma matches_due: "spec_means s c \<Longrightarrow> matches s (Some t) = cron_due c t"
  by (auto simp: matches_def cron_due_def spec_means_def Let_def)

lemma cron_not_interval:
  assumes "cron_ok c"
  shows "interval_match (cron_text c) = None"
proof -
  obtain p ps where m: "c_minute c = p # ps" using assms by (auto simp: cron_ok_def field_ok_def neq_Nil_conv)
  have "\<exists>ch r. part_text p = ch # r \<and> (is_digit ch \<or> ch = CHR ''*'')"
    using show_nat_digits show_nat_nonempty by (cases p; simp) (metis list.exhaust list.set_intros(1) append_Cons)+
  then obtain ch r where p: "part_text p = ch # r" "is_digit ch \<or> ch = CHR ''*''" by blast
  then have "\<exists>r. cron_text c = ch # r" by (cases ps) (auto simp: cron_text_def field_text_def m)
  moreover have "lower_char ch \<noteq> CHR ''e''" using p(2) lower_digit by (auto simp: is_digit_def lower_char_def)
  ultimately show ?thesis by (auto simp: interval_match_def Let_def)
qed

subsection \<open>The search\<close>

lemma search_spec:
  assumes "c mod 60000 = 0" "- 8640000000000000 \<le> c"
  shows "(\<exists>k < n. cron_search n spec (time_clip c) = Some (Some (c + 60000 * int k)) \<and> c + 60000 * int k \<le> 8640000000000000
           \<and> matches spec (Some (c + 60000 * int k)) \<and> (\<forall>j < k. \<not> matches spec (Some (c + 60000 * int j))))
       \<or> (cron_search n spec (time_clip c) = None
           \<and> (\<forall>k < n. c + 60000 * int k \<le> 8640000000000000 \<longrightarrow> \<not> matches spec (Some (c + 60000 * int k))))"
  (is "?P n c")
  using assms
proof (induction n arbitrary: c)
  case (Suc n)
  show ?case
  proof (cases "c \<le> 8640000000000000")
    case False
    have "cron_search m spec None = None" for m by (induction m) (simp_all add: matches_def nextUTCMinute_def)
    then show ?thesis using False Suc.prems(2) by (auto simp: time_clip_def)
  next
    case True
    then have c: "time_clip c = Some c" using Suc.prems(2) by (simp add: time_clip_def)
    show ?thesis
    proof (cases "matches spec (Some c)")
      case m: True
      show ?thesis using m True by (intro disjI1 exI [of _ 0]) (simp add: c)
    next
      case m: False
      have ih: "?P n (c + 60000)" using Suc.prems by (intro Suc.IH) auto
      have s: "cron_search (Suc n) spec (time_clip c) = cron_search n spec (time_clip (c + 60000))"
        using m by (simp add: c nextUTCMinute_Some)
      have e: "c + 60000 + 60000 * int k = c + 60000 * int (Suc k)" for k by simp
      have all: "(\<forall>j < Suc k. \<not> matches spec (Some (c + 60000 * int j)))
          \<longleftrightarrow> (\<forall>j < k. \<not> matches spec (Some (c + 60000 + 60000 * int j)))" for k
        using m unfolding e by (auto simp: less_Suc_eq_0_disj simp del: of_nat_Suc)
      from ih show ?thesis
      proof
        assume "\<exists>k < n. cron_search n spec (time_clip (c + 60000)) = Some (Some (c + 60000 + 60000 * int k))
          \<and> c + 60000 + 60000 * int k \<le> 8640000000000000 \<and> matches spec (Some (c + 60000 + 60000 * int k))
          \<and> (\<forall>j < k. \<not> matches spec (Some (c + 60000 + 60000 * int j)))"
        then obtain k where k: "k < n" "cron_search n spec (time_clip (c + 60000)) = Some (Some (c + 60000 + 60000 * int k))"
          "c + 60000 + 60000 * int k \<le> 8640000000000000" "matches spec (Some (c + 60000 + 60000 * int k))"
          "\<forall>j < Suc k. \<not> matches spec (Some (c + 60000 * int j))" unfolding all by blast
        then show ?thesis unfolding s by (intro disjI1 exI [of _ "Suc k"]) (simp add: add.assoc)
      next
        assume "cron_search n spec (time_clip (c + 60000)) = None \<and>
          (\<forall>k < n. c + 60000 + 60000 * int k \<le> 8640000000000000 \<longrightarrow> \<not> matches spec (Some (c + 60000 + 60000 * int k)))"
        then show ?thesis unfolding s using m by (auto simp: less_Suc_eq_0_disj add.assoc)
      qed
    qed
  qed
qed simp

text \<open>The instants an expression may fire at after \<open>t\<close>: the due minutes after it, up to the horizon.\<close>

definition cron_candidate :: "cron \<Rightarrow> int \<Rightarrow> int \<Rightarrow> bool" where
  "cron_candidate c t u \<longleftrightarrow> u mod 60000 = 0 \<and> t < u \<and> u - t \<le> 60000 * int CRON_HORIZON_MINUTES \<and> u \<le> 8640000000000000
     \<and> cron_due c u"

lemma candidate_minutes:
  "u mod 60000 = 0 \<and> t < u \<and> u - t \<le> 60000 * int n \<longleftrightarrow> (\<exists>k < n. u = t - t mod 60000 + 60000 + 60000 * int k)"
proof -
  define f where "f = t div 60000"
  have t: "t = 60000 * f + t mod 60000" "0 \<le> t mod 60000" "t mod 60000 < 60000" by (simp_all add: f_def)
  show ?thesis
  proof
    assume a: "u mod 60000 = 0 \<and> t < u \<and> u - t \<le> 60000 * int n"
    then obtain v where "u = 60000 * v" by auto
    with a t show "\<exists>k < n. u = t - t mod 60000 + 60000 + 60000 * int k"
      by (intro exI [of _ "nat (v - f - 1)"]) linarith
  next
    assume "\<exists>k < n. u = t - t mod 60000 + 60000 + 60000 * int k"
    then obtain k where k: "k < n" "u = t - t mod 60000 + 60000 + 60000 * int k" by blast
    then have "u = 60000 * f + 60000 + 60000 * int k" using t(1) by linarith
    then have "u = 60000 * (f + 1 + int k)" by simp
    then have "u mod 60000 = 0" by simp
    with k t show "u mod 60000 = 0 \<and> t < u \<and> u - t \<le> 60000 * int n" by linarith
  qed
qed

lemma cron_next:
  assumes ok: "cron_ok c" and t: "\<bar>t\<bar> \<le> 8640000000000000"
  shows "(\<exists>u. nextRunAt (cron_text c) (Some t) = Inr (Some (Some u)) \<and> cron_candidate c t u
            \<and> (\<forall>v. cron_candidate c t v \<longrightarrow> u \<le> v))
       \<or> (nextRunAt (cron_text c) (Some t) = Inr None \<and> (\<forall>v. \<not> cron_candidate c t v))"
proof -
  define c0 where "c0 = t - t mod 60000 + 60000"
  define n where "n = CRON_HORIZON_MINUTES"
  obtain s where s: "parseCron (cron_text c) = Inr s" "spec_means s c" using parseCron_text [OF ok] by blast
  have low: "- 8640000000000000 \<le> t - t mod 60000"
  proof -
    have "- 144000000000 \<le> t div 60000" using t div_bounds [of 60000 t] by linarith
    then show ?thesis using minus_mod_eq_mult_div [of t 60000] by linarith
  qed
  have "setUTCSeconds00 (Some t) = Some (t - t mod 60000)"
    using low t by (simp add: setUTCSeconds00_def make_date_floor time_clip_def abs_le_iff) linarith
  then have run: "nextRunAt (cron_text c) (Some t) = Inr (cron_search n s (time_clip c0))"
    by (simp add: nextRunAt_def cron_text_trim [OF ok] cron_not_interval [OF ok] s(1) nextUTCMinute_Some c0_def n_def)
  have cand: "cron_candidate c t u \<longleftrightarrow> (\<exists>k < n. u = c0 + 60000 * int k) \<and> u \<le> 8640000000000000 \<and> matches s (Some u)" for u
    using candidate_minutes [of u t n] by (auto simp: cron_candidate_def matches_due [OF s(2)] c0_def n_def)
  have "c0 mod 60000 = 0" "- 8640000000000000 \<le> c0" using low by (simp_all add: c0_def mod_add_eq minus_mod_eq_mult_div)
  from search_spec [OF this, of n s] show ?thesis
  proof
    assume "\<exists>k < n. cron_search n s (time_clip c0) = Some (Some (c0 + 60000 * int k)) \<and> c0 + 60000 * int k \<le> 8640000000000000
      \<and> matches s (Some (c0 + 60000 * int k)) \<and> (\<forall>j < k. \<not> matches s (Some (c0 + 60000 * int j)))"
    then obtain k where k: "k < n" "cron_search n s (time_clip c0) = Some (Some (c0 + 60000 * int k))"
      "c0 + 60000 * int k \<le> 8640000000000000" "matches s (Some (c0 + 60000 * int k))"
      "\<forall>j < k. \<not> matches s (Some (c0 + 60000 * int j))" by blast
    have "c0 + 60000 * int k \<le> v" if "cron_candidate c t v" for v
    proof -
      from that obtain j where "v = c0 + 60000 * int j" "matches s (Some v)" unfolding cand by blast
      with k(5) have "k \<le> j" by (meson not_le)
      then show ?thesis using \<open>v = _\<close> by simp
    qed
    then show ?thesis using k(1-4) unfolding run cand by blast
  next
    assume "cron_search n s (time_clip c0) = None
      \<and> (\<forall>k < n. c0 + 60000 * int k \<le> 8640000000000000 \<longrightarrow> \<not> matches s (Some (c0 + 60000 * int k)))"
    then show ?thesis unfolding run cand by blast
  qed
qed

text \<open>For any accepted schedule the next instant is later, and a cron instant is a whole minute.\<close>

lemma next_is_later:
  assumes run: "nextRunAt s (Some t) = Inr (Some (Some u))" and t: "\<bar>t\<bar> \<le> 8640000000000000"
  shows "t < u" "interval_match (trim s) = None \<Longrightarrow> u mod 60000 = 0"
proof -
  have "t < u \<and> (interval_match (trim s) = None \<longrightarrow> u mod 60000 = 0)"
  proof (cases "interval_match (trim s)")
    case (Some a)
    then obtain n c where a: "interval_match (trim s) = Some (n, c)" by (cases a) auto
    have "0 < UNIT_MS c" by (simp add: UNIT_MS_def)
    moreover have "0 < n" "u = t + int n * UNIT_MS c" using run by (auto simp: nextRunAt_def a time_clip_def split: if_splits)
    ultimately show ?thesis by (simp add: a)
  next
    case None
    then obtain sp where sp: "parseCron s = Inr sp" using run by (auto simp: nextRunAt_def split: sum.splits)
    define c0 where "c0 = t - t mod 60000 + 60000"
    have low: "- 8640000000000000 \<le> t - t mod 60000"
    proof -
      have "- 144000000000 \<le> t div 60000" using t div_bounds [of 60000 t] by linarith
      then show ?thesis using minus_mod_eq_mult_div [of t 60000] by linarith
    qed
    have c0: "c0 mod 60000 = 0" "- 8640000000000000 \<le> c0" using low by (simp_all add: c0_def mod_add_eq minus_mod_eq_mult_div)
    have "setUTCSeconds00 (Some t) = Some (t - t mod 60000)"
      using low t by (simp add: setUTCSeconds00_def make_date_floor time_clip_def abs_le_iff) linarith
    then have "cron_search CRON_HORIZON_MINUTES sp (time_clip c0) = Some (Some u)"
      using run by (simp add: nextRunAt_def None sp nextUTCMinute_Some c0_def)
    with search_spec [OF c0, of CRON_HORIZON_MINUTES sp] obtain k where "u = c0 + 60000 * int k" by auto
    then have "u mod 60000 = 0" using c0(1) by (simp add: mod_add_eq [symmetric])
    moreover have "t < u" using \<open>u = _\<close> pos_mod_bound [of 60000 t] by (simp add: c0_def)
    ultimately show ?thesis by simp
  qed
  then show "t < u" "interval_match (trim s) = None \<Longrightarrow> u mod 60000 = 0" by blast+
qed

subsection \<open>Leap days\<close>

lemma leap_day: "month_date t = (2, 29) \<Longrightarrow> leap_year (year_of_day (day_of t)) \<and> day_of t = day_from_year (year_of_day (day_of t)) + 59"
  by (simp add: month_date_def month_lengths_def Let_def split: if_splits)

lemma leap_day_gap:
  assumes "month_date t = (2, 29)" "month_date v = (2, 29)" "day_of t < day_of v"
  shows "day_of t + 366 < day_of v"
proof -
  define y z where yz: "y = year_of_day (day_of t)" "z = year_of_day (day_of v)"
  have l: "leap_year y" "day_of t = day_from_year y + 59" "leap_year z" "day_of v = day_from_year z + 59"
    using leap_day assms unfolding yz by blast+
  have "\<not> day_from_year z \<le> day_from_year y" using assms(3) l(2,4) by simp
  then have "y < z" using day_from_year_mono [of z y] by (meson not_le)
  moreover have "y mod 4 = 0" "z mod 4 = 0" using l by (simp_all add: leap_year_def)
  ultimately have "y + 1 + 1 \<le> z" by presburger
  then have "day_from_year (y + 1 + 1) \<le> day_from_year z" by (rule day_from_year_mono)
  moreover have "day_from_year (y + 1 + 1) = day_from_year y + 366 + (if leap_year (y + 1) then 366 else 365)"
    unfolding day_from_year_step using l(1) by simp
  ultimately show ?thesis using l by (auto split: if_splits)
qed

definition leap_cron :: cron where
  "leap_cron = \<lparr>c_minute = [From 0 None], c_hour = [From 0 None], c_dom = [From 29 None], c_month = [From 2 None], c_dow = [Every None]\<rparr>"

lemma leap_day_null:
  assumes t: "\<bar>t\<bar> \<le> 8640000000000000" and d: "month_date t = (2, 29)"
  shows "nextRunAt ''0 0 29 2 *'' (Some t) = Inr None"
proof -
  have ok: "cron_ok leap_cron" "cron_text leap_cron = ''0 0 29 2 *''" by code_simp+
  have "\<not> cron_candidate leap_cron t v" for v
  proof
    assume c: "cron_candidate leap_cron t v"
    have "fst (month_date v) = 2" "snd (month_date v) = 29" "hour_of v = 0" "minute_of v = 0"
      using c by (simp_all add: cron_candidate_def cron_due_def leap_cron_def field_means_def CRON_BOUNDS_def)
    then have v: "month_date v = (2, 29)" "hour_of v = 0" "minute_of v = 0" by (simp_all add: prod_eq_iff)
    then have "v = day_of v * MS_PER_DAY" using time_split [of v] c by (simp add: cron_candidate_def)
    moreover have "day_of t * MS_PER_DAY \<le> t" "t < v" "v - t \<le> 60000 * int CRON_HORIZON_MINUTES"
      using div_bounds [of MS_PER_DAY t] c by (simp_all add: day_of_def MS_PER_DAY_def cron_candidate_def)
    ultimately have "day_of t < day_of v" "day_of v \<le> day_of t + 366"
      using div_bounds [of MS_PER_DAY t] by (simp_all add: MS_PER_DAY_def day_of_def CRON_HORIZON_MINUTES_def)
    with leap_day_gap [OF d v(1)] show False by simp
  qed
  with cron_next [OF ok(1) t] show ?thesis unfolding ok(2) by blast
qed

subsection \<open>The properties\<close>


definition weekday_cron :: cron where
  "weekday_cron = \<lparr>c_minute = [From 30 None], c_hour = [From 9 None], c_dom = [Every None], c_month = [Every None],
     c_dow = [Span 1 5 None]\<rparr>"


text \<open>
  Whatever schedule is accepted, the next firing it gives is strictly later than the instant it
  was asked from; a firing by a cron expression is a whole minute.
\<close>
theorem schedule_progresses:
  assumes "nextRunAt s (Some t) = Inr (Some (Some u))" "\<bar>t\<bar> \<le> 8640000000000000"
  shows "t < u \<and> (u mod 60000 = 0 \<or> interval_match (trim s) \<noteq> None)"
  using next_is_later [OF assms] by blast

theorem schedule_progresses_witness: "(0 :: int) < 300000"
proof -
  have "nextRunAt '' every 5M '' (Some 0) = Inr (Some (Some 300000))" by code_simp
  from schedule_progresses [OF this] show ?thesis by simp
qed

text \<open>
  Validation and evaluation refuse the same schedules, for the same reason, except for an interval
  whose count is no positive number: that one passes validation and has no next firing.
\<close>
theorem validation_misses_zero:
  "nextRunAt s from' = Inl e \<longleftrightarrow> assertValidSchedule s = Inl e
     \<or> (e = BadInterval \<and> (case interval_match (trim s) of Some (n, _) \<Rightarrow> n < 1 \<or> of_nat n \<ge> MAX_DOUBLE | None \<Rightarrow> False))"
proof (cases "interval_match (trim s)")
  case None
  then show ?thesis by (cases "parseCron s") (simp_all add: nextRunAt_def assertValidSchedule_def)
next
  case (Some a)
  then show ?thesis by (cases a) (auto simp: nextRunAt_def assertValidSchedule_def)
qed

lemma zero_interval:
  "assertValidSchedule ''every 0m'' = Inr () \<and> nextRunAt ''every 0m'' (Some t) = Inl BadInterval"
proof -
  have "interval_match (trim ''every 0m'') = Some (0, CHR ''m'')" by code_simp
  then show ?thesis by (simp add: assertValidSchedule_def nextRunAt_def)
qed

end
