(* ===== verification/Scheduler.thy ===== *)
theory Scheduler
  imports Prelude
begin

text \<open>
  The job runner of the server (\<open>packages/server/src/scheduler/scheduler.ts\<close>). The event loop is
  part of the state: the timeouts that are pending, the runs in flight with the abort signal each
  was given, and the continuations that re-arm a job after its timer run. An event is one call of
  the scheduler or one thing the event loop does; time and randomness are arguments of the events.
\<close>

record scheduled_job =
  sj_name :: string
  sj_intervalMs :: jnum
  sj_jitterRatio :: "rat option"
  sj_runOnStart :: bool
  sj_timeoutMs :: "rat option"
  sj_quietSkips :: bool

record 'o job_record =
  jr_job :: scheduled_job
  jr_timer :: "nat option"
  jr_running :: bool
  jr_lastRunAt :: "int option"
  jr_lastOutcome :: "'o option"
  jr_lastError :: "string option"
  jr_runs :: nat
  jr_failures :: nat
  jr_overruns :: nat
  jr_nextRunAt :: "rat option"

record scheduler_options =
  so_defaultJitterRatio :: "rat option"
  so_startupDelayMs :: "rat option"

datatype trigger = ByTimer | Manual

text \<open>A run in flight: the stop signal it listens to is the one of the start it ran under.\<close>

record flight =
  fl_id :: nat
  fl_name :: string
  fl_trigger :: trigger
  fl_firedAt :: int
  fl_stop :: "nat option"
  fl_timeoutMs :: rat
  fl_aborted :: bool

record 'o scheduler =
  sc_jobs :: "(string \<times> 'o job_record) list"
  sc_defaultJitterRatio :: rat
  sc_startupDelayMs :: rat
  sc_started :: bool
  sc_stopping :: "nat option"
  sc_timers :: "(nat \<times> string) list"
  sc_flights :: "flight list"
  sc_rearms :: "string list"
  sc_fresh :: nat

definition DEFAULT_JOB_TIMEOUT_MS :: rat where "DEFAULT_JOB_TIMEOUT_MS = 5 * 60000"
definition DEFAULT_JITTER_RATIO :: rat where "DEFAULT_JITTER_RATIO = 1 / 10"
definition DEFAULT_STARTUP_DELAY_MS :: rat where "DEFAULT_STARTUP_DELAY_MS = 5000"

definition new_scheduler :: "scheduler_options \<Rightarrow> 'o scheduler" where
  "new_scheduler opts = \<lparr>sc_jobs = [],
     sc_defaultJitterRatio = (case so_defaultJitterRatio opts of None \<Rightarrow> DEFAULT_JITTER_RATIO | Some r \<Rightarrow> r),
     sc_startupDelayMs = (case so_startupDelayMs opts of None \<Rightarrow> DEFAULT_STARTUP_DELAY_MS | Some d \<Rightarrow> d),
     sc_started = False, sc_stopping = None, sc_timers = [], sc_flights = [], sc_rearms = [], sc_fresh = 0\<rparr>"

definition job_at :: "'o scheduler \<Rightarrow> string \<Rightarrow> 'o job_record option" where
  "job_at s name = map_of (sc_jobs s) name"

definition upd_job :: "string \<Rightarrow> ('o job_record \<Rightarrow> 'o job_record) \<Rightarrow> 'o scheduler \<Rightarrow> 'o scheduler" where
  "upd_job name f s = s\<lparr>sc_jobs := map (\<lambda>(k, r). (k, if k = name then f r else r)) (sc_jobs s)\<rparr>"

definition jobNames :: "'o scheduler \<Rightarrow> string list" where
  "jobNames s = map fst (sc_jobs s)"

definition interval_of :: "scheduled_job \<Rightarrow> rat" where
  "interval_of j = rat_of (JNum (sj_intervalMs j))"

text \<open>The base delay, give or take the jitter, never negative; \<open>rnd\<close> is the random number drawn.\<close>

definition nextDelay :: "'o scheduler \<Rightarrow> scheduled_job \<Rightarrow> rat \<Rightarrow> rat \<Rightarrow> rat" where
  "nextDelay s job base rnd =
     (let ratio = (case sj_jitterRatio job of None \<Rightarrow> sc_defaultJitterRatio s | Some r \<Rightarrow> r) in
      if ratio \<le> 0 then base
      else let spread = base * min ratio (99 / 100) in
        max 0 (of_int (math_round (base + (rnd * 2 - 1) * spread))))"

definition arm :: "string \<Rightarrow> rat option \<Rightarrow> int \<Rightarrow> rat \<Rightarrow> 'o scheduler \<Rightarrow> 'o scheduler" where
  "arm name base now rnd s = (case job_at s name of
      None \<Rightarrow> s
    | Some rec \<Rightarrow>
        if \<not> sc_started s then s
        else
          let base' = (case base of Some b \<Rightarrow> b | None \<Rightarrow>
                if jr_runs rec = 0 \<and> sj_runOnStart (jr_job rec) then sc_startupDelayMs s else interval_of (jr_job rec));
              delay = nextDelay s (jr_job rec) base' rnd
          in upd_job name (\<lambda>r. r\<lparr>jr_timer := Some (sc_fresh s), jr_nextRunAt := Some (of_int now + delay)\<rparr>)
               (s\<lparr>sc_timers := filter (\<lambda>t. jr_timer rec \<noteq> Some (fst t)) (sc_timers s) @ [(sc_fresh s, name)],
                  sc_fresh := Suc (sc_fresh s)\<rparr>))"

datatype register_error = AlreadyRegistered string | NeedsPositiveInterval string

definition register :: "scheduled_job \<Rightarrow> int \<Rightarrow> rat \<Rightarrow> 'o scheduler \<Rightarrow> register_error + 'o scheduler" where
  "register job now rnd s =
     (if job_at s (sj_name job) \<noteq> None then Inl (AlreadyRegistered (sj_name job))
      else if \<not> isFiniteNumber (JNum (sj_intervalMs job)) \<or> interval_of job \<le> 0 then Inl (NeedsPositiveInterval (sj_name job))
      else
        let s1 = s\<lparr>sc_jobs := sc_jobs s @ [(sj_name job,
              \<lparr>jr_job = job, jr_timer = None, jr_running = False, jr_lastRunAt = None, jr_lastOutcome = None,
               jr_lastError = None, jr_runs = 0, jr_failures = 0, jr_overruns = 0, jr_nextRunAt = None\<rparr>)]\<rparr>
        in Inr (if sc_started s1 then arm (sj_name job) None now rnd s1 else s1))"

text \<open>Registration stops at the first job that is refused; the ones before it stay.\<close>

fun registerAll :: "scheduled_job list \<Rightarrow> int \<Rightarrow> (string \<Rightarrow> rat) \<Rightarrow> 'o scheduler \<Rightarrow> register_error option \<times> 'o scheduler" where
  "registerAll [] now rnd s = (None, s)"
| "registerAll (j # js) now rnd s = (case register j now (rnd (sj_name j)) s of
      Inl e \<Rightarrow> (Some e, s)
    | Inr s1 \<Rightarrow> registerAll js now rnd s1)"

definition start :: "int \<Rightarrow> (string \<Rightarrow> rat) \<Rightarrow> 'o scheduler \<Rightarrow> 'o scheduler" where
  "start now rnd s =
     (if sc_started s then s
      else fold (\<lambda>name. arm name None now (rnd name)) (jobNames s)
             (s\<lparr>sc_started := True, sc_stopping := Some (sc_fresh s), sc_fresh := Suc (sc_fresh s)\<rparr>))"

text \<open>Stopping: the runs of this start are aborted and every timeout is cleared.\<close>

definition stop :: "'o scheduler \<Rightarrow> 'o scheduler" where
  "stop s =
     (if \<not> sc_started s then s
      else s\<lparr>sc_started := False, sc_stopping := None,
             sc_flights := map (\<lambda>f. if fl_stop f \<noteq> None \<and> fl_stop f = sc_stopping s then f\<lparr>fl_aborted := True\<rparr> else f) (sc_flights s),
             sc_timers := filter (\<lambda>t. \<not> list_ex (\<lambda>(k, r). jr_timer r = Some (fst t)) (sc_jobs s)) (sc_timers s),
             sc_jobs := map (\<lambda>(k, r). (k, r\<lparr>jr_timer := None, jr_nextRunAt := None\<rparr>)) (sc_jobs s)\<rparr>)"

text \<open>The start of \<open>execute\<close>: an overrun is counted, otherwise the lock is taken and the job called.\<close>

definition begin_run :: "string \<Rightarrow> trigger \<Rightarrow> int \<Rightarrow> 'o scheduler \<Rightarrow> bool \<times> 'o scheduler" where
  "begin_run name trig now s = (case job_at s name of
      None \<Rightarrow> (False, s)
    | Some rec \<Rightarrow>
        if jr_running rec then (False, upd_job name (\<lambda>r. r\<lparr>jr_overruns := jr_overruns r + 1\<rparr>) s)
        else (True, upd_job name (\<lambda>r. r\<lparr>jr_running := True\<rparr>)
               (s\<lparr>sc_flights := sc_flights s @ [\<lparr>fl_id = sc_fresh s, fl_name = name, fl_trigger = trig, fl_firedAt = now,
                    fl_stop = sc_stopping s,
                    fl_timeoutMs = (case sj_timeoutMs (jr_job rec) of None \<Rightarrow> DEFAULT_JOB_TIMEOUT_MS | Some d \<Rightarrow> d),
                    fl_aborted = False\<rparr>],
                  sc_fresh := Suc (sc_fresh s)\<rparr>)))"

text \<open>The end of \<open>execute\<close>, when the job resolves or throws.\<close>

definition settled_record :: "flight \<Rightarrow> string + 'o \<Rightarrow> 'o job_record \<Rightarrow> 'o job_record" where
  "settled_record f outcome r = (case outcome of
      Inr v \<Rightarrow> r\<lparr>jr_runs := jr_runs r + 1, jr_lastRunAt := Some (fl_firedAt f), jr_lastOutcome := Some v,
                 jr_lastError := None, jr_running := False\<rparr>
    | Inl e \<Rightarrow> r\<lparr>jr_runs := jr_runs r + 1, jr_failures := jr_failures r + 1, jr_lastRunAt := Some (fl_firedAt f),
                 jr_lastError := Some e, jr_running := False\<rparr>)"

definition end_run :: "flight \<Rightarrow> string + 'o \<Rightarrow> 'o scheduler \<Rightarrow> 'o scheduler" where
  "end_run f outcome s = upd_job (fl_name f) (settled_record f outcome)
     (s\<lparr>sc_flights := filter (\<lambda>g. fl_id g \<noteq> fl_id f) (sc_flights s),
        sc_rearms := (if fl_trigger f = ByTimer then sc_rearms s @ [fl_name f] else sc_rearms s)\<rparr>)"

datatype 'o sched_event =
    Register scheduled_job int rat
  | Start int "string \<Rightarrow> rat"
  | Stop
  | RunNow string int
  | TimerFires nat int
  | TimesOut nat
  | Settles nat "string + 'o"
  | Rearms string int rat

text \<open>
  One event. A timer run that did not begin settles at once, which leaves its re-arming pending;
  a timeout aborts the signal of a run that is still in flight.
\<close>

definition sched_step :: "'o scheduler \<Rightarrow> 'o sched_event \<Rightarrow> 'o scheduler" where
  "sched_step s ev = (case ev of
      Register job now rnd \<Rightarrow> (case register job now rnd s of Inl _ \<Rightarrow> s | Inr s1 \<Rightarrow> s1)
    | Start now rnd \<Rightarrow> start now rnd s
    | Stop \<Rightarrow> stop s
    | RunNow name now \<Rightarrow> snd (begin_run name Manual now s)
    | TimerFires t now \<Rightarrow> (case map_of (sc_timers s) t of
          None \<Rightarrow> s
        | Some name \<Rightarrow>
            (case begin_run name ByTimer now (s\<lparr>sc_timers := filter (\<lambda>x. fst x \<noteq> t) (sc_timers s)\<rparr>) of
              (begun, s1) \<Rightarrow> if begun then s1 else s1\<lparr>sc_rearms := sc_rearms s1 @ [name]\<rparr>))
    | TimesOut i \<Rightarrow> s\<lparr>sc_flights := map (\<lambda>f. if fl_id f = i then f\<lparr>fl_aborted := True\<rparr> else f) (sc_flights s)\<rparr>
    | Settles i outcome \<Rightarrow> (case find (\<lambda>f. fl_id f = i) (sc_flights s) of None \<Rightarrow> s | Some f \<Rightarrow> end_run f outcome s)
    | Rearms name now rnd \<Rightarrow> if name \<in> set (sc_rearms s) then arm name None now rnd (s\<lparr>sc_rearms := remove1 name (sc_rearms s)\<rparr>) else s)"

record 'o job_status =
  js_name :: string
  js_running :: bool
  js_intervalMs :: rat
  js_lastRunAt :: "int option"
  js_lastOutcome :: "'o option"
  js_lastError :: "string option"
  js_runs :: nat
  js_failures :: nat
  js_overruns :: nat
  js_nextRunAt :: "rat option"

definition sched_status :: "'o scheduler \<Rightarrow> bool \<times> 'o job_status list" where
  "sched_status s = (sc_started s, map (\<lambda>(k, r). \<lparr>js_name = sj_name (jr_job r), js_running = jr_running r,
     js_intervalMs = interval_of (jr_job r), js_lastRunAt = jr_lastRunAt r, js_lastOutcome = jr_lastOutcome r,
     js_lastError = jr_lastError r, js_runs = jr_runs r, js_failures = jr_failures r, js_overruns = jr_overruns r,
     js_nextRunAt = jr_nextRunAt r\<rparr>) (sc_jobs s))"

subsection \<open>The invariant\<close>

definition flights_of :: "'o scheduler \<Rightarrow> string \<Rightarrow> flight list" where
  "flights_of s name = filter (\<lambda>f. fl_name f = name) (sc_flights s)"

definition timers_of :: "'o scheduler \<Rightarrow> string \<Rightarrow> (nat \<times> string) list" where
  "timers_of s name = filter (\<lambda>t. snd t = name) (sc_timers s)"

definition registry_ok :: "'o scheduler \<Rightarrow> bool" where
  "registry_ok s \<longleftrightarrow> distinct (map fst (sc_jobs s)) \<and> (\<forall>(k, r) \<in> set (sc_jobs s). sj_name (jr_job r) = k \<and> 0 < interval_of (jr_job r))"

text \<open>Every pending timeout is the one its job holds, and no two jobs hold the same.\<close>

definition handles_ok :: "'o scheduler \<Rightarrow> bool" where
  "handles_ok s \<longleftrightarrow> (\<forall>k r t. job_at s k = Some r \<longrightarrow> jr_timer r = Some t \<longrightarrow>
     t < sc_fresh s \<and> (\<forall>k' r'. job_at s k' = Some r' \<longrightarrow> jr_timer r' = Some t \<longrightarrow> k' = k))"

definition timers_ok :: "'o scheduler \<Rightarrow> bool" where
  "timers_ok s \<longleftrightarrow> distinct (map fst (sc_timers s))
     \<and> (\<forall>t name. (t, name) \<in> set (sc_timers s) \<longrightarrow> (\<exists>r. job_at s name = Some r \<and> jr_timer r = Some t))
     \<and> (\<not> sc_started s \<longrightarrow> sc_timers s = [])"

definition lock_ok :: "'o scheduler \<Rightarrow> bool" where
  "lock_ok s \<longleftrightarrow> distinct (map fl_id (sc_flights s)) \<and> (\<forall>f \<in> set (sc_flights s). fl_id f < sc_fresh s)
     \<and> (\<forall>name. length (flights_of s name) = (case job_at s name of Some r \<Rightarrow> if jr_running r then 1 else 0 | None \<Rightarrow> 0))"

text \<open>While started, every job has a timeout pending, or a timer run in flight, or its re-arming ahead.\<close>

definition will_fire :: "'o scheduler \<Rightarrow> string \<Rightarrow> bool" where
  "will_fire s name \<longleftrightarrow> timers_of s name \<noteq> [] \<or> list_ex (\<lambda>f. fl_trigger f = ByTimer) (flights_of s name) \<or> name \<in> set (sc_rearms s)"

definition alive :: "'o scheduler \<Rightarrow> bool" where
  "alive s \<longleftrightarrow> (sc_started s \<longrightarrow> (\<forall>name \<in> set (jobNames s). will_fire s name))"

definition sched_inv :: "'o scheduler \<Rightarrow> bool" where
  "sched_inv s \<longleftrightarrow> registry_ok s \<and> handles_ok s \<and> timers_ok s \<and> lock_ok s \<and> alive s"

definition core_ok :: "'o scheduler \<Rightarrow> bool" where
  "core_ok s \<longleftrightarrow> registry_ok s \<and> handles_ok s \<and> timers_ok s \<and> lock_ok s"

lemma sched_inv_core: "sched_inv s \<longleftrightarrow> core_ok s \<and> alive s"
  by (auto simp: sched_inv_def core_ok_def)

named_theorems sched_simps \<open>fields of the scheduler after an operation\<close>

lemma upd_job_fields [sched_simps, simp]:
  "sc_started (upd_job n f s) = sc_started s" "sc_stopping (upd_job n f s) = sc_stopping s" "sc_timers (upd_job n f s) = sc_timers s"
  "sc_flights (upd_job n f s) = sc_flights s" "sc_rearms (upd_job n f s) = sc_rearms s" "sc_fresh (upd_job n f s) = sc_fresh s"
  "sc_startupDelayMs (upd_job n f s) = sc_startupDelayMs s" "sc_defaultJitterRatio (upd_job n f s) = sc_defaultJitterRatio s"
  by (simp_all add: upd_job_def)

lemma jobNames_upd [simp]: "jobNames (upd_job n f s) = jobNames s"
  by (simp add: jobNames_def upd_job_def comp_def case_prod_beta)

lemma job_at_upd [simp]: "job_at (upd_job n f s) m = (if m = n then map_option f (job_at s m) else job_at s m)"
proof -
  have "map_of (map (\<lambda>(k, r). (k, if k = n then f r else r)) al) m = (if m = n then map_option f (map_of al m) else map_of al m)"
    for al :: "(string \<times> 'a job_record) list" by (induction al) auto
  then show ?thesis by (simp add: job_at_def upd_job_def)
qed

lemma job_at_names: "job_at s n \<noteq> None \<longleftrightarrow> n \<in> set (jobNames s)"
  by (simp add: job_at_def jobNames_def map_of_eq_None_iff)

lemma registry_upd:
  "registry_ok s \<Longrightarrow> (\<And>r. jr_job (f r) = jr_job r) \<Longrightarrow> registry_ok (upd_job n f s)"
  by (auto simp: registry_ok_def upd_job_def comp_def case_prod_beta split: if_splits)

lemma flights_upd [simp]: "flights_of (upd_job n f s) m = flights_of s m" "timers_of (upd_job n f s) m = timers_of s m"
  "will_fire (upd_job n f s) m = will_fire s m"
  by (simp_all add: flights_of_def timers_of_def will_fire_def)

text \<open>Updating anything but the timer handle and the lock of a job keeps the core.\<close>

lemma core_upd:
  assumes "core_ok s" "\<And>r. jr_job (f r) = jr_job r" "\<And>r. jr_timer (f r) = jr_timer r" "\<And>r. jr_running (f r) = jr_running r"
  shows "core_ok (upd_job n f s)"
proof -
  have h: "handles_ok s" "timers_ok s" "lock_ok s" "registry_ok s" using assms(1) by (simp_all add: core_ok_def)
  have "handles_ok (upd_job n f s)"
    using h(1) assms(3) unfolding handles_ok_def by (auto split: if_splits)
  moreover have "timers_ok (upd_job n f s)" using h(2) assms(3) by (fastforce simp: timers_ok_def)
  moreover have "lock_ok (upd_job n f s)"
    using h(3) assms(4) unfolding lock_ok_def by (auto split: option.splits)
  ultimately show ?thesis using registry_upd [OF h(4) assms(2)] by (simp add: core_ok_def)
qed

subsection \<open>Arming\<close>

lemma arm_unarmed: "job_at s n = None \<or> \<not> sc_started s \<Longrightarrow> arm n b now rnd s = s"
  by (auto simp: arm_def split: option.splits)

lemma arm_armed:
  assumes "job_at s n = Some rec" "sc_started s"
  shows "\<exists>due. arm n b now rnd s = upd_job n (\<lambda>r. r\<lparr>jr_timer := Some (sc_fresh s), jr_nextRunAt := Some due\<rparr>)
           (s\<lparr>sc_timers := filter (\<lambda>t. jr_timer rec \<noteq> Some (fst t)) (sc_timers s) @ [(sc_fresh s, n)], sc_fresh := Suc (sc_fresh s)\<rparr>)"
  using assms by (simp add: arm_def Let_def) blast

lemma arm_fields [simp]:
  "sc_started (arm n b now rnd s) = sc_started s" "jobNames (arm n b now rnd s) = jobNames s"
  "sc_rearms (arm n b now rnd s) = sc_rearms s" "sc_flights (arm n b now rnd s) = sc_flights s"
  "flights_of (arm n b now rnd s) m = flights_of s m"
  by (auto simp: arm_def Let_def flights_of_def jobNames_def upd_job_def comp_def case_prod_beta split: option.splits)

lemma arm_core:
  assumes c: "core_ok s"
  shows "core_ok (arm n b now rnd s)"
proof (cases "job_at s n = None \<or> \<not> sc_started s")
  case False
  then obtain rec where rec: "job_at s n = Some rec" "sc_started s" by auto
  from arm_armed [OF this] obtain due where arm: "arm n b now rnd s
    = upd_job n (\<lambda>r. r\<lparr>jr_timer := Some (sc_fresh s), jr_nextRunAt := Some due\<rparr>)
        (s\<lparr>sc_timers := filter (\<lambda>t. jr_timer rec \<noteq> Some (fst t)) (sc_timers s) @ [(sc_fresh s, n)], sc_fresh := Suc (sc_fresh s)\<rparr>)"
    (is "_ = upd_job n ?f ?s1") by blast
  have h: "handles_ok s" "timers_ok s" "lock_ok s" "registry_ok s" using c by (simp_all add: core_ok_def)
  have j: "job_at ?s1 = job_at s" "flights_of ?s1 = flights_of s" by (simp_all add: job_at_def flights_of_def fun_eq_iff)
  have r: "registry_ok (upd_job n ?f ?s1)" using h(4) by (intro registry_upd) (simp_all add: registry_ok_def)
  have nf: "jr_timer r \<noteq> Some (sc_fresh s)" if "job_at s k = Some r" for k r
    using h(1) that unfolding handles_ok_def by blast
  have "handles_ok (upd_job n ?f ?s1)"
    unfolding handles_ok_def using h(1) [unfolded handles_ok_def] nf by (auto simp: j less_Suc_eq split: if_splits)
  moreover have "timers_ok (upd_job n ?f ?s1)"
  proof -
    have t: "\<And>t m. (t, m) \<in> set (sc_timers s) \<Longrightarrow> \<exists>r. job_at s m = Some r \<and> jr_timer r = Some t" "distinct (map fst (sc_timers s))"
      using h(2) by (auto simp: timers_ok_def)
    then have fresh: "\<And>t m. (t, m) \<in> set (sc_timers s) \<Longrightarrow> t < sc_fresh s" using h(1) unfolding handles_ok_def by blast
    have "distinct (map fst (filter (\<lambda>t. jr_timer rec \<noteq> Some (fst t)) (sc_timers s)))" by (rule distinct_map_filter) (rule t(2))
    moreover have "sc_fresh s \<notin> fst ` set (sc_timers s)" using fresh by fastforce
    ultimately show ?thesis using t(1) rec by (fastforce simp: timers_ok_def j)
  qed
  moreover have "lock_ok (upd_job n ?f ?s1)" using h(3) unfolding lock_ok_def by (auto simp: j less_Suc_eq split: option.splits)
  ultimately show ?thesis using r unfolding arm by (simp add: core_ok_def)
qed (simp add: arm_unarmed c)

lemma arm_will_fire: "sc_started s \<Longrightarrow> n \<in> set (jobNames s) \<Longrightarrow> will_fire (arm n b now rnd s) n"
proof -
  assume s: "sc_started s" "n \<in> set (jobNames s)"
  then obtain rec where "job_at s n = Some rec" using job_at_names by blast
  from arm_armed [OF this s(1), of b now rnd] show ?thesis by (auto simp: will_fire_def timers_of_def)
qed

lemma arm_will_fire_other:
  assumes "core_ok s" "will_fire s m"
  shows "will_fire (arm n b now rnd s) m"
proof (cases "m = n \<and> n \<in> set (jobNames s) \<and> sc_started s")
  case True
  then show ?thesis by (simp add: arm_will_fire)
next
  case False
  show ?thesis
  proof (cases "job_at s n = None \<or> \<not> sc_started s")
    case True
    then show ?thesis using assms(2) by (simp add: arm_unarmed)
  next
    case armed: False
    then obtain rec where rec: "job_at s n = Some rec" "sc_started s" by auto
    then have "m \<noteq> n" using False job_at_names [of s n] by auto
    have h: "handles_ok s" "timers_ok s" using assms(1) by (simp_all add: core_ok_def)
    have keep: "jr_timer rec \<noteq> Some t" if "(t, m) \<in> set (sc_timers s)" for t
    proof
      assume "jr_timer rec = Some t"
      moreover obtain r where "job_at s m = Some r" "jr_timer r = Some t" using h(2) \<open>(t, m) \<in> _\<close> by (auto simp: timers_ok_def)
      ultimately show False using h(1) rec(1) \<open>m \<noteq> n\<close> unfolding handles_ok_def by blast
    qed
    from arm_armed [OF rec, of b now rnd] obtain due where
      "arm n b now rnd s = upd_job n (\<lambda>r. r\<lparr>jr_timer := Some (sc_fresh s), jr_nextRunAt := Some due\<rparr>)
         (s\<lparr>sc_timers := filter (\<lambda>t. jr_timer rec \<noteq> Some (fst t)) (sc_timers s) @ [(sc_fresh s, n)], sc_fresh := Suc (sc_fresh s)\<rparr>)"
      by blast
    then have a: "sc_timers (arm n b now rnd s) = filter (\<lambda>t. jr_timer rec \<noteq> Some (fst t)) (sc_timers s) @ [(sc_fresh s, n)]" by simp
    have "timers_of s m \<noteq> [] \<Longrightarrow> timers_of (arm n b now rnd s) m \<noteq> []"
      unfolding timers_of_def a using keep by (fastforce simp: filter_empty_conv)
    then show ?thesis using assms(2) by (auto simp: will_fire_def)
  qed
qed

subsection \<open>Every event keeps the invariant\<close>

lemma alive_arms:
  assumes "core_ok s" "\<forall>m \<in> set (jobNames s). m \<in> set ns \<or> will_fire s m"
  shows "core_ok (fold (\<lambda>n. arm n None now (rnd n)) ns s)
     \<and> (sc_started s \<longrightarrow> (\<forall>m \<in> set (jobNames s). will_fire (fold (\<lambda>n. arm n None now (rnd n)) ns s) m))"
  using assms
proof (induction ns arbitrary: s)
  case (Cons n ns)
  let ?s = "arm n None now (rnd n) s"
  show ?case
  proof (cases "sc_started s")
    case True
    have "\<forall>m \<in> set (jobNames ?s). m \<in> set ns \<or> will_fire ?s m"
      using Cons.prems True arm_will_fire arm_will_fire_other by (fastforce simp del: flights_upd)
    from Cons.IH [OF arm_core [OF Cons.prems(1)] this] show ?thesis by simp
  next
    case False
    then have "?s = s" by (simp add: arm_unarmed)
    moreover have "fold (\<lambda>n. arm n None now (rnd n)) ns s = s" for ns using False by (induction ns) (simp_all add: arm_unarmed)
    ultimately show ?thesis using False Cons.prems(1) by simp
  qed
qed simp

lemma fold_arm_fields [simp]:
  "sc_started (fold (\<lambda>n. arm n None now (rnd n)) ns s) = sc_started s"
  "jobNames (fold (\<lambda>n. arm n None now (rnd n)) ns s) = jobNames s"
  by (induction ns arbitrary: s) simp_all

lemma arm_inv: "core_ok s \<Longrightarrow> \<forall>m \<in> set (jobNames s). m = n \<or> \<not> sc_started s \<or> will_fire s m \<Longrightarrow> sched_inv (arm n None now rnd s)"
  using alive_arms [of s "[n]" now "\<lambda>_. rnd"] arm_core [of s n None now rnd]
  by (cases "sc_started s") (auto simp: sched_inv_core alive_def)

lemma core_fields:
  assumes "core_ok s" "sc_jobs s' = sc_jobs s" "sc_timers s' = sc_timers s" "sc_flights s' = sc_flights s" "sc_fresh s \<le> sc_fresh s'"
    "sc_started s' \<or> sc_timers s' = []"
  shows "core_ok s'"
proof -
  have j: "job_at s' = job_at s" "flights_of s' = flights_of s" using assms by (simp_all add: job_at_def flights_of_def fun_eq_iff)
  have h: "handles_ok s" "timers_ok s" "lock_ok s" "registry_ok s" using assms(1) by (simp_all add: core_ok_def)
  have "handles_ok s'" using h(1) assms(5) unfolding handles_ok_def j by (meson less_le_trans)
  moreover have "timers_ok s'" using h(2) assms(3,6) by (auto simp: timers_ok_def j)
  moreover have "lock_ok s'" using h(3) assms(4,5) unfolding lock_ok_def j by force
  moreover have "registry_ok s'" using h(4) assms(2) by (simp add: registry_ok_def)
  ultimately show ?thesis by (simp add: core_ok_def)
qed

lemma start_inv: "sched_inv s \<Longrightarrow> sched_inv (start now rnd s)"
proof -
  assume i: "sched_inv s"
  show ?thesis
  proof (cases "sc_started s")
    case False
    define s1 where "s1 = s\<lparr>sc_started := True, sc_stopping := Some (sc_fresh s), sc_fresh := Suc (sc_fresh s)\<rparr>"
    define s2 where "s2 = fold (\<lambda>n. arm n None now (rnd n)) (jobNames s) s1"
    have "sc_timers s = []" using i False by (simp add: sched_inv_def timers_ok_def)
    moreover have "core_ok s" using i by (simp add: sched_inv_core)
    ultimately have c: "core_ok s1" by (intro core_fields [where s = s and s' = s1]) (simp_all add: s1_def)
    have n: "jobNames s1 = jobNames s" "sc_started s1" by (simp_all add: jobNames_def s1_def)
    have "\<forall>m \<in> set (jobNames s1). m \<in> set (jobNames s) \<or> will_fire s1 m" unfolding n by blast
    note a = alive_arms [OF c this, where now = now and rnd = rnd, folded s2_def, unfolded n]
    have "jobNames s2 = jobNames s" unfolding s2_def fold_arm_fields n ..
    with a n(2) have "sched_inv s2" unfolding sched_inv_core alive_def by simp
    moreover have "start now rnd s = s2" using False by (simp add: start_def s2_def s1_def)
    ultimately show ?thesis by simp
  qed (simp add: start_def i)
qed

lemma stop_inv: "sched_inv s \<Longrightarrow> sched_inv (stop s)"
proof -
  assume i: "sched_inv s"
  then have h: "handles_ok s" "timers_ok s" "lock_ok s" "registry_ok s" by (simp_all add: sched_inv_def)
  show ?thesis
  proof (cases "sc_started s")
    case True
    have j: "job_at (stop s) k = map_option (\<lambda>r. r\<lparr>jr_timer := None, jr_nextRunAt := None\<rparr>) (job_at s k)" for k
    proof -
      have "map_of (map (\<lambda>(k, r). (k, r\<lparr>jr_timer := None, jr_nextRunAt := None\<rparr>)) al) k
        = map_option (\<lambda>r. r\<lparr>jr_timer := None, jr_nextRunAt := None\<rparr>) (map_of al k)" for al :: "(string \<times> 'a job_record) list"
        by (induction al) auto
      then show ?thesis using True by (simp add: job_at_def stop_def)
    qed
    have "list_ex (\<lambda>(k, r). jr_timer r = Some t) (sc_jobs s)" if "(t, m) \<in> set (sc_timers s)" for t m
      using h(2) that by (fastforce simp: timers_ok_def job_at_def list_ex_iff dest: map_of_SomeD)
    then have t: "sc_timers (stop s) = []" using True by (auto simp: stop_def filter_empty_conv)
    define ab where "ab = (\<lambda>f :: flight. if fl_stop f \<noteq> None \<and> fl_stop f = sc_stopping s then f\<lparr>fl_aborted := True\<rparr> else f)"
    have ab: "fl_id (ab f) = fl_id f" "fl_name (ab f) = fl_name f" for f by (simp_all add: ab_def)
    have fl: "sc_flights (stop s) = map ab (sc_flights s)" using True by (simp add: stop_def ab_def)
    have f: "map fl_id (sc_flights (stop s)) = map fl_id (sc_flights s)" "fl_id ` set (sc_flights (stop s)) = fl_id ` set (sc_flights s)"
      by (simp_all add: fl comp_def ab image_image)
    have l: "length (flights_of (stop s) m) = length (flights_of s m)" for m
      by (simp add: flights_of_def fl filter_map comp_def ab)
    have ids: "(\<forall>f \<in> set (sc_flights (stop s)). fl_id f < sc_fresh s) \<longleftrightarrow> (\<forall>f \<in> set (sc_flights s). fl_id f < sc_fresh s)"
      using f(2) by (metis (mono_tags, lifting) image_iff)
    have "registry_ok (stop s)" using h(4) True by (auto simp: registry_ok_def stop_def comp_def case_prod_beta)
    moreover have "handles_ok (stop s)" by (auto simp: handles_ok_def j)
    moreover have "timers_ok (stop s)" by (simp add: timers_ok_def t)
    moreover have "sc_fresh (stop s) = sc_fresh s" using True by (simp add: stop_def)
    then have "lock_ok (stop s)" using h(3) f(1) l unfolding lock_ok_def j by (auto simp: ids split: option.splits)
    ultimately show ?thesis using True by (simp add: sched_inv_def alive_def stop_def)
  qed (simp add: stop_def i)
qed

lemma register_inv:
  assumes i: "sched_inv s" and r: "register job now rnd s = Inr s'"
  shows "sched_inv s'"
proof -
  define rec where "rec = \<lparr>jr_job = job, jr_timer = None, jr_running = False, jr_lastRunAt = None, jr_lastOutcome = None :: 'a option,
    jr_lastError = None, jr_runs = 0, jr_failures = 0, jr_overruns = 0, jr_nextRunAt = None\<rparr>"
  define n where "n = sj_name job"
  define s1 where "s1 = s\<lparr>sc_jobs := sc_jobs s @ [(n, rec)]\<rparr>"
  have new: "job_at s n = None" "0 < interval_of job" and s': "s' = (if sc_started s1 then arm n None now rnd s1 else s1)"
    using r by (auto simp: register_def n_def s1_def rec_def Let_def split: if_splits)
  have j: "job_at s1 m = (if m = n then Some rec else job_at s m)" for m
    using new(1) by (simp add: job_at_def s1_def map_add_def split: option.splits)
  have f: "sc_timers s1 = sc_timers s" "sc_flights s1 = sc_flights s" "sc_fresh s1 = sc_fresh s" "sc_started s1 = sc_started s"
    "sc_rearms s1 = sc_rearms s" "jobNames s1 = jobNames s @ [n]" "flights_of s1 = flights_of s" "timers_of s1 = timers_of s"
    by (simp_all add: s1_def jobNames_def flights_of_def timers_of_def fun_eq_iff)
  have h: "handles_ok s" "timers_ok s" "lock_ok s" "registry_ok s" "alive s" using i by (simp_all add: sched_inv_def)
  have nf: "flights_of s n = []" using h(3) new(1) unfolding lock_ok_def by (metis length_0_conv option.simps(4))
  have nm: "n \<notin> set (map fst (sc_jobs s))" using new(1) by (simp add: job_at_def map_of_eq_None_iff)
  have "handles_ok s1" using h(1) unfolding handles_ok_def j f by (auto simp: rec_def split: if_splits)
  moreover have "timers_ok s1" using h(2) new(1) unfolding timers_ok_def j f by fastforce
  moreover have "lock_ok s1" using h(3) nf unfolding lock_ok_def j f by (auto simp: rec_def new(1))
  moreover have "registry_ok s1" using h(4) nm new(2) by (auto simp: registry_ok_def s1_def rec_def n_def)
  ultimately have c: "core_ok s1" by (simp add: core_ok_def)
  have "\<forall>m \<in> set (jobNames s1). m = n \<or> \<not> sc_started s1 \<or> will_fire s1 m"
    using h(5) unfolding alive_def f will_fire_def by auto
  with arm_inv [OF c this] c show ?thesis by (simp add: s' sched_inv_core alive_def)
qed

lemma begin_run_inv:
  assumes c: "core_ok s" and b: "begin_run n trig now s = (begun, s')"
  shows "core_ok s'" "sc_started s' = sc_started s" "jobNames s' = jobNames s"
    "\<And>m. will_fire s m \<Longrightarrow> will_fire s' m" "begun \<Longrightarrow> trig = ByTimer \<Longrightarrow> will_fire s' n"
proof -
  have h: "handles_ok s" "timers_ok s" "lock_ok s" "registry_ok s" using c by (simp_all add: core_ok_def)
  have "core_ok s' \<and> sc_started s' = sc_started s \<and> jobNames s' = jobNames s \<and> (\<forall>m. will_fire s m \<longrightarrow> will_fire s' m)
    \<and> (begun \<longrightarrow> trig = ByTimer \<longrightarrow> will_fire s' n)"
  proof (cases "\<exists>rec. job_at s n = Some rec \<and> \<not> jr_running rec")
    case False
    then have "\<not> begun \<and> (s' = s \<or> s' = upd_job n (\<lambda>r. r\<lparr>jr_overruns := jr_overruns r + 1\<rparr>) s)"
      using b by (auto simp: begin_run_def split: option.splits if_splits)
    moreover have "core_ok (upd_job n (\<lambda>r. r\<lparr>jr_overruns := jr_overruns r + 1\<rparr>) s)" using c by (intro core_upd) simp_all
    ultimately show ?thesis using c by auto
  next
    case True
    then obtain rec where rec: "job_at s n = Some rec" "\<not> jr_running rec" by blast
    define fl where "fl = \<lparr>fl_id = sc_fresh s, fl_name = n, fl_trigger = trig, fl_firedAt = now, fl_stop = sc_stopping s,
      fl_timeoutMs = (case sj_timeoutMs (jr_job rec) of None \<Rightarrow> DEFAULT_JOB_TIMEOUT_MS | Some d \<Rightarrow> d), fl_aborted = False\<rparr>"
    define s1 where "s1 = s\<lparr>sc_flights := sc_flights s @ [fl], sc_fresh := Suc (sc_fresh s)\<rparr>"
    have s': "s' = upd_job n (\<lambda>r. r\<lparr>jr_running := True\<rparr>) s1" "begun"
      using b rec by (auto simp: begin_run_def fl_def s1_def)
    have j: "job_at s1 = job_at s" by (simp add: s1_def job_at_def fun_eq_iff)
    have f: "flights_of s1 m = flights_of s m @ (if m = n then [fl] else [])" "timers_of s1 m = timers_of s m"
      "sc_timers s1 = sc_timers s" "sc_fresh s1 = Suc (sc_fresh s)" "sc_started s1 = sc_started s" "sc_rearms s1 = sc_rearms s"
      "jobNames s1 = jobNames s" "sc_flights s1 = sc_flights s @ [fl]" for m
      by (simp_all add: flights_of_def timers_of_def s1_def jobNames_def fl_def)
    have "registry_ok s'" unfolding s'(1) using h(4) by (intro registry_upd) (simp_all add: registry_ok_def s1_def)
    moreover have "handles_ok s'" unfolding s'(1) handles_ok_def upd_job_fields job_at_upd j f
      using h(1) [unfolded handles_ok_def] rec(1) by (auto simp: less_Suc_eq split: if_splits)
    moreover have "timers_ok s'" unfolding s'(1) timers_ok_def upd_job_fields job_at_upd j f
      using h(2) [unfolded timers_ok_def] by fastforce
    moreover have "lock_ok s'" unfolding s'(1) lock_ok_def upd_job_fields flights_upd job_at_upd j f
      using h(3) [unfolded lock_ok_def] rec by (auto simp: fl_def less_Suc_eq split: option.splits)
    moreover have "will_fire s m \<Longrightarrow> will_fire s' m" for m unfolding s'(1) flights_upd will_fire_def f by (auto simp: f)
    moreover have "trig = ByTimer \<Longrightarrow> will_fire s' n" unfolding s'(1) flights_upd will_fire_def f by (simp add: fl_def)
    ultimately show ?thesis by (simp add: core_ok_def s'(1) f)
  qed
  then show "core_ok s'" "sc_started s' = sc_started s" "jobNames s' = jobNames s"
    "\<And>m. will_fire s m \<Longrightarrow> will_fire s' m" "begun \<Longrightarrow> trig = ByTimer \<Longrightarrow> will_fire s' n" by blast+
qed

lemma run_now_inv: "sched_inv s \<Longrightarrow> sched_inv (snd (begin_run n trig now s))"
  using begin_run_inv [of s n trig now "fst (begin_run n trig now s)" "snd (begin_run n trig now s)"]
  by (simp add: sched_inv_core alive_def)

lemma timer_fires_inv:
  assumes i: "sched_inv s" and t: "map_of (sc_timers s) t = Some n"
    and b: "begin_run n ByTimer now (s\<lparr>sc_timers := filter (\<lambda>x. fst x \<noteq> t) (sc_timers s)\<rparr>) = (begun, s')"
  shows "sched_inv (if begun then s' else s'\<lparr>sc_rearms := sc_rearms s' @ [n]\<rparr>)"
proof -
  define s1 where "s1 = s\<lparr>sc_timers := filter (\<lambda>x. fst x \<noteq> t) (sc_timers s)\<rparr>"
  have h: "handles_ok s" "timers_ok s" "lock_ok s" "registry_ok s" "alive s" using i by (simp_all add: sched_inv_def)
  have j: "job_at s1 = job_at s" "flights_of s1 = flights_of s" "jobNames s1 = jobNames s" "sc_started s1 = sc_started s"
    by (simp_all add: s1_def job_at_def flights_of_def jobNames_def fun_eq_iff)
  have only: "m = n" if "(t, m) \<in> set (sc_timers s)" for m
    using h(2) t that by (metis Some_eq_map_of_iff option.inject timers_ok_def)
  have "timers_ok s1" using h(2) unfolding timers_ok_def j by (auto simp: s1_def distinct_map_filter)
  moreover have "handles_ok s1" "lock_ok s1" "registry_ok s1"
    using h unfolding handles_ok_def lock_ok_def registry_ok_def j by (simp_all add: s1_def)
  ultimately have c: "core_ok s1" by (simp add: core_ok_def)
  have w: "will_fire s m \<Longrightarrow> m \<noteq> n \<Longrightarrow> will_fire s1 m" for m
    using only unfolding will_fire_def j by (fastforce simp: s1_def timers_of_def filter_empty_conv)
  note b = begin_run_inv [OF c b [folded s1_def]]
  define s2 where "s2 = (if begun then s' else s'\<lparr>sc_rearms := sc_rearms s' @ [n]\<rparr>)"
  have s2: "core_ok s2" using b(1) by (cases begun) (auto simp: s2_def core_ok_def registry_ok_def handles_ok_def timers_ok_def lock_ok_def job_at_def flights_of_def)
  have "will_fire s' m \<Longrightarrow> will_fire s2 m" for m by (auto simp: s2_def will_fire_def timers_of_def flights_of_def)
  moreover have "will_fire s2 n" using b(5) by (cases begun) (simp_all add: s2_def will_fire_def)
  moreover have "sc_started s2 = sc_started s" "jobNames s2 = jobNames s" using b(2,3) j by (simp_all add: s2_def jobNames_def)
  ultimately have "alive s2" using h(5) w b(4) unfolding alive_def by metis
  with s2 show ?thesis by (simp add: sched_inv_core s2_def)
qed

lemma same_flights:
  assumes i: "sched_inv s" and g: "\<And>f. fl_id (g f) = fl_id f" "\<And>f. fl_name (g f) = fl_name f" "\<And>f. fl_trigger (g f) = fl_trigger f"
  shows "sched_inv (s\<lparr>sc_flights := map g (sc_flights s)\<rparr>)"
proof -
  define s' where "s' = s\<lparr>sc_flights := map g (sc_flights s)\<rparr>"
  have j: "job_at s' = job_at s" "timers_of s' = timers_of s" "jobNames s' = jobNames s" "flights_of s' m = map g (flights_of s m)"
    "sc_timers s' = sc_timers s" "sc_fresh s' = sc_fresh s" "sc_started s' = sc_started s" "sc_rearms s' = sc_rearms s"
    "sc_flights s' = map g (sc_flights s)" "sc_jobs s' = sc_jobs s" for m
    by (simp_all add: s'_def job_at_def timers_of_def jobNames_def flights_of_def fun_eq_iff filter_map comp_def g)
  show ?thesis using i unfolding sched_inv_def registry_ok_def handles_ok_def timers_ok_def lock_ok_def alive_def will_fire_def
    s'_def [symmetric] j by (simp add: comp_def g list_ex_iff)
qed

lemma end_run_inv:
  assumes i: "sched_inv s" and f: "f \<in> set (sc_flights s)"
  shows "sched_inv (end_run f outcome s)"
proof -
  define g where "g = settled_record f outcome"
  have g: "jr_job (g r) = jr_job r" "jr_timer (g r) = jr_timer r" "\<not> jr_running (g r)" for r
    by (simp_all add: g_def settled_record_def split: sum.split)
  define s1 where "s1 = s\<lparr>sc_flights := filter (\<lambda>h. fl_id h \<noteq> fl_id f) (sc_flights s),
    sc_rearms := (if fl_trigger f = ByTimer then sc_rearms s @ [fl_name f] else sc_rearms s)\<rparr>"
  have e: "end_run f outcome s = upd_job (fl_name f) g s1"
    by (simp add: end_run_def s1_def g_def)
  have h: "handles_ok s" "timers_ok s" "lock_ok s" "registry_ok s" "alive s" using i by (simp_all add: sched_inv_def)
  have j: "job_at s1 = job_at s" "timers_of s1 = timers_of s" "jobNames s1 = jobNames s" "sc_timers s1 = sc_timers s"
    "sc_fresh s1 = sc_fresh s" "sc_started s1 = sc_started s"
    "sc_flights s1 = filter (\<lambda>h. fl_id h \<noteq> fl_id f) (sc_flights s)"
    "flights_of s1 m = filter (\<lambda>h. fl_id h \<noteq> fl_id f) (flights_of s m)" for m
    by (simp_all add: s1_def job_at_def timers_of_def jobNames_def flights_of_def fun_eq_iff conj_commute)
  have one: "h = f" if "h \<in> set (sc_flights s)" "fl_id h = fl_id f" for h
    using h(3) f that unfolding lock_ok_def by (metis distinct_map inj_onD)
  have own: "flights_of s (fl_name f) = [f]" "\<exists>r. job_at s (fl_name f) = Some r \<and> jr_running r"
  proof -
    have "f \<in> set (flights_of s (fl_name f))" using f by (simp add: flights_of_def)
    moreover have "length (flights_of s (fl_name f)) = (case job_at s (fl_name f) of Some r \<Rightarrow> if jr_running r then 1 else 0 | None \<Rightarrow> 0)"
      using h(3) unfolding lock_ok_def by blast
    ultimately show "flights_of s (fl_name f) = [f]" "\<exists>r. job_at s (fl_name f) = Some r \<and> jr_running r"
      by (auto simp: length_Suc_conv split: option.splits if_splits)
  qed
  have oth: "flights_of s1 m = (if m = fl_name f then [] else flights_of s m)" for m
  proof (cases "m = fl_name f")
    case False
    then have "\<forall>h \<in> set (flights_of s m). fl_id h \<noteq> fl_id f" using one by (auto simp: flights_of_def)
    then have "filter (\<lambda>h. fl_id h \<noteq> fl_id f) (flights_of s m) = flights_of s m" by (rule filter_True)
    with False show ?thesis by (simp only: j if_False)
  qed (simp add: j own)
  have "registry_ok (upd_job (fl_name f) g s1)" using h(4) by (intro registry_upd g) (simp add: registry_ok_def s1_def)
  moreover have "handles_ok (upd_job (fl_name f) g s1)" unfolding handles_ok_def upd_job_fields job_at_upd j
    using h(1) [unfolded handles_ok_def] by (auto simp: g split: if_splits)
  moreover have "timers_ok (upd_job (fl_name f) g s1)" unfolding timers_ok_def upd_job_fields job_at_upd j
    using h(2) [unfolded timers_ok_def] by (fastforce simp: g)
  moreover have "lock_ok (upd_job (fl_name f) g s1)"
    using h(3) own(2) unfolding lock_ok_def upd_job_fields flights_upd job_at_upd oth unfolding j
    by (auto simp: distinct_map_filter g split: option.splits)
  moreover have "will_fire s m \<Longrightarrow> will_fire s1 m" for m
    unfolding will_fire_def oth unfolding j by (auto simp: s1_def own)
  then have "alive (upd_job (fl_name f) g s1)" using h(5) by (auto simp: alive_def j)
  ultimately show ?thesis by (simp add: e sched_inv_def)
qed

lemma rearms_inv:
  assumes i: "sched_inv s"
  shows "sched_inv (arm n None now rnd (s\<lparr>sc_rearms := remove1 n (sc_rearms s)\<rparr>))"
proof (rule arm_inv)
  show "core_ok (s\<lparr>sc_rearms := remove1 n (sc_rearms s)\<rparr>)"
    using i by (intro core_fields [where s = s and s' = "s\<lparr>sc_rearms := remove1 n (sc_rearms s)\<rparr>"])
      (auto simp: sched_inv_core core_ok_def timers_ok_def)
  show "\<forall>m \<in> set (jobNames (s\<lparr>sc_rearms := remove1 n (sc_rearms s)\<rparr>)).
      m = n \<or> \<not> sc_started (s\<lparr>sc_rearms := remove1 n (sc_rearms s)\<rparr>) \<or> will_fire (s\<lparr>sc_rearms := remove1 n (sc_rearms s)\<rparr>) m"
    using i by (auto simp: sched_inv_def alive_def will_fire_def jobNames_def timers_of_def flights_of_def)
qed

lemma sched_step_inv: "sched_inv s \<Longrightarrow> sched_inv (sched_step s ev)"
proof (cases ev)
  case (Register job now rnd)
  then show "sched_inv s \<Longrightarrow> ?thesis" by (auto simp: sched_step_def register_inv split: sum.split)
next
  case (TimerFires t now)
  assume i: "sched_inv s"
  show ?thesis
  proof (cases "map_of (sc_timers s) t")
    case None
    then show ?thesis using i by (simp add: sched_step_def TimerFires)
  next
    case (Some n)
    obtain begun s' where b: "begin_run n ByTimer now (s\<lparr>sc_timers := filter (\<lambda>x. fst x \<noteq> t) (sc_timers s)\<rparr>) = (begun, s')"
      by (cases "begin_run n ByTimer now (s\<lparr>sc_timers := filter (\<lambda>x. fst x \<noteq> t) (sc_timers s)\<rparr>)")
    from timer_fires_inv [OF i Some b] show ?thesis by (simp add: sched_step_def TimerFires Some b)
  qed
next
  case (Settles i outcome)
  then show "sched_inv s \<Longrightarrow> ?thesis"
    by (auto simp: sched_step_def find_Some_iff in_set_conv_nth intro!: end_run_inv split: option.split)
qed (auto simp: sched_step_def start_inv stop_inv run_now_inv rearms_inv intro!: same_flights)

interpretation runner: invariant_machine sched_step "\<lambda>_ _. True" sched_inv
  by unfold_locales (rule sched_step_inv)

lemma run_ok_trivial: "runner.run_ok s evs"
  by (induction evs arbitrary: s) auto

lemma new_scheduler_inv: "sched_inv (new_scheduler opts)"
  by (simp add: new_scheduler_def sched_inv_def registry_ok_def handles_ok_def timers_ok_def lock_ok_def alive_def job_at_def flights_of_def)

lemma runs_inv: "sched_inv (foldl sched_step (new_scheduler opts) evs)"
  by (rule runner.run_inv [OF new_scheduler_inv run_ok_trivial])

subsection \<open>Nothing overlaps, nothing is dropped\<close>

text \<open>What a job has been asked for so far: its runs, its overruns and the run in flight.\<close>

definition tally :: "'o scheduler \<Rightarrow> string \<Rightarrow> nat" where
  "tally s name = (case job_at s name of None \<Rightarrow> 0
     | Some r \<Rightarrow> jr_runs r + jr_overruns r + (if jr_running r then 1 else 0))"

definition attempts :: "'o scheduler \<Rightarrow> 'o sched_event \<Rightarrow> string \<Rightarrow> nat" where
  "attempts s ev name = (case ev of
      RunNow n now \<Rightarrow> if n = name \<and> job_at s n \<noteq> None then 1 else 0
    | TimerFires t now \<Rightarrow> if map_of (sc_timers s) t = Some name then 1 else 0
    | _ \<Rightarrow> 0)"

fun attempts_in :: "'o scheduler \<Rightarrow> 'o sched_event list \<Rightarrow> string \<Rightarrow> nat" where
  "attempts_in s [] name = 0"
| "attempts_in s (ev # evs) name = attempts s ev name + attempts_in (sched_step s ev) evs name"

lemma tally_eq: "job_at s = job_at s' \<Longrightarrow> tally s n = tally s' n"
  by (simp add: tally_def)

lemma tally_upd:
  "(\<And>r. jr_runs (g r) + jr_overruns (g r) + (if jr_running (g r) then 1 else 0)
      = jr_runs r + jr_overruns r + (if jr_running r then 1 else 0)) \<Longrightarrow> tally (upd_job m g s) n = tally s n"
  by (auto simp: tally_def split: option.splits)

lemma tally_arm: "tally (arm m b now rnd s) n = tally s n"
proof (cases "job_at s m = None \<or> \<not> sc_started s")
  case False
  then obtain rec where "job_at s m = Some rec" "sc_started s" by auto
  from arm_armed [OF this, of b now rnd] obtain due where "arm m b now rnd s
    = upd_job m (\<lambda>r. r\<lparr>jr_timer := Some (sc_fresh s), jr_nextRunAt := Some due\<rparr>)
        (s\<lparr>sc_timers := filter (\<lambda>t. jr_timer rec \<noteq> Some (fst t)) (sc_timers s) @ [(sc_fresh s, m)], sc_fresh := Suc (sc_fresh s)\<rparr>)"
    by blast
  then show ?thesis by (simp add: tally_upd) (simp add: tally_def job_at_def)
qed (simp add: arm_unarmed)

lemma tally_begin: "tally (snd (begin_run m trig now s)) n = tally s n + (if m = n \<and> job_at s m \<noteq> None then 1 else 0)"
  by (auto simp: begin_run_def tally_def split: option.split) (auto simp: job_at_def)

lemma tally_step:
  assumes i: "sched_inv s"
  shows "tally (sched_step s ev) n = tally s n + attempts s ev n"
proof (cases ev)
  case (Register job now rnd)
  have "tally s' n = tally s n" if "register job now rnd s = Inr s'" for s'
    using that by (auto simp: register_def tally_arm Let_def split: if_splits) (auto simp: tally_def job_at_def map_add_def split: option.splits)
  then show ?thesis by (auto simp: sched_step_def Register attempts_def split: sum.split)
next
  case (Start now rnd)
  have "tally (fold (\<lambda>m. arm m None now (rnd m)) ms s1) n = tally s1 n" for ms and s1 :: "'a scheduler"
    by (induction ms arbitrary: s1) (simp_all add: tally_arm)
  then show ?thesis by (simp add: sched_step_def Start attempts_def start_def) (simp add: tally_def job_at_def)
next
  case Stop
  have "map_of (map (\<lambda>(k, r). (k, r\<lparr>jr_timer := None, jr_nextRunAt := None\<rparr>)) al) n
    = map_option (\<lambda>r. r\<lparr>jr_timer := None, jr_nextRunAt := None\<rparr>) (map_of al n)" for al :: "(string \<times> 'a job_record) list"
    by (induction al) auto
  then show ?thesis by (auto simp: sched_step_def Stop attempts_def stop_def tally_def job_at_def split: option.split)
next
  case (RunNow m now)
  then show ?thesis by (simp add: sched_step_def tally_begin attempts_def)
next
  case (TimerFires t now)
  show ?thesis
  proof (cases "map_of (sc_timers s) t")
    case None
    then show ?thesis by (simp add: sched_step_def TimerFires attempts_def)
  next
    case (Some m)
    define s1 where "s1 = s\<lparr>sc_timers := filter (\<lambda>x. fst x \<noteq> t) (sc_timers s)\<rparr>"
    have j: "job_at s1 = job_at s" by (simp add: s1_def job_at_def fun_eq_iff)
    have "(t, m) \<in> set (sc_timers s)" using Some by (rule map_of_SomeD)
    then have reg: "job_at s m \<noteq> None" using i by (auto simp: sched_inv_def timers_ok_def)
    obtain begun s2 where b: "begin_run m ByTimer now s1 = (begun, s2)" by (cases "begin_run m ByTimer now s1")
    have "tally s2 n = tally s n + (if m = n then 1 else 0)"
      using tally_begin [of m ByTimer now s1 n] reg j tally_eq [OF j] by (simp add: b)
    moreover have "tally (s2\<lparr>sc_rearms := sc_rearms s2 @ [m]\<rparr>) n = tally s2 n" by (simp add: tally_def job_at_def)
    moreover have "sched_step s ev = (if begun then s2 else s2\<lparr>sc_rearms := sc_rearms s2 @ [m]\<rparr>)"
      by (simp add: sched_step_def TimerFires Some s1_def [symmetric] b)
    moreover have "attempts s ev n = (if m = n then 1 else 0)" by (simp add: attempts_def TimerFires Some)
    ultimately show ?thesis by (cases begun) simp_all
  qed
next
  case (TimesOut k)
  then show ?thesis by (simp add: sched_step_def attempts_def) (simp add: tally_def job_at_def)
next
  case (Settles k outcome)
  show ?thesis
  proof (cases "find (\<lambda>f. fl_id f = k) (sc_flights s)")
    case None
    then show ?thesis by (simp add: sched_step_def Settles attempts_def)
  next
    case (Some f)
    then have f: "f \<in> set (sc_flights s)" by (auto simp: find_Some_iff)
    then have "f \<in> set (flights_of s (fl_name f))" by (simp add: flights_of_def)
    then have ne: "flights_of s (fl_name f) \<noteq> []" by auto
    have "length (flights_of s (fl_name f)) = (case job_at s (fl_name f) of Some r \<Rightarrow> if jr_running r then 1 else 0 | None \<Rightarrow> 0)"
      using i unfolding sched_inv_def lock_ok_def by blast
    then obtain r where "job_at s (fl_name f) = Some r" "jr_running r"
      using ne by (auto split: option.splits if_splits)
    moreover have "job_at (s\<lparr>sc_flights := fs, sc_rearms := rs\<rparr>) = job_at s" for fs rs by (simp add: job_at_def fun_eq_iff)
    ultimately have "tally (end_run f outcome s) n = tally s n"
      by (auto simp: tally_def end_run_def settled_record_def split: sum.split option.split)
    then show ?thesis using Some by (simp add: sched_step_def Settles attempts_def)
  qed
next
  case (Rearms m now rnd)
  have "tally (s\<lparr>sc_rearms := remove1 m (sc_rearms s)\<rparr>) n = tally s n" by (simp add: tally_def job_at_def)
  then show ?thesis by (simp add: sched_step_def Rearms attempts_def tally_arm)
qed

lemma tally_runs: "sched_inv s \<Longrightarrow> tally (foldl sched_step s evs) n = tally s n + attempts_in s evs n"
  by (induction evs arbitrary: s) (simp_all add: tally_step sched_step_inv)

lemma one_timer: "timers_ok (s :: 'o scheduler) \<Longrightarrow> length (timers_of s n) \<le> 1"
proof -
  assume t: "timers_ok s"
  obtain r :: "'o job_record" where r: "\<forall>x \<in> set (timers_of s n). x = (the (jr_timer r), n)"
  proof (cases "job_at s n")
    case None
    then have "timers_of s n = []" using t by (fastforce simp: timers_ok_def timers_of_def filter_empty_conv)
    then show ?thesis using that by simp
  next
    case (Some r)
    then show ?thesis using t by (intro that [of r]) (fastforce simp: timers_ok_def timers_of_def)
  qed
  have "distinct (timers_of s n)" using t by (auto simp: timers_ok_def timers_of_def distinct_map)
  moreover have "set (timers_of s n) \<subseteq> {(the (jr_timer r), n)}" using r by blast
  ultimately show ?thesis by (metis card_mono card.empty card_insert_disjoint distinct_card empty_iff finite.emptyI finite.insertI One_nat_def)
qed

text \<open>
  C10: However calls, timeouts, settling jobs, stops and restarts interleave, a job has at most one
  run in flight, it is marked running exactly then, and at most one timeout is pending for it; and
  while the scheduler is stopped none is.
\<close>
theorem runs_never_overlap:
  "let s = foldl sched_step (new_scheduler opts) evs in
     length (flights_of s name) = (case job_at s name of Some r \<Rightarrow> if jr_running r then 1 else 0 | None \<Rightarrow> 0)
     \<and> length (timers_of s name) \<le> 1 \<and> (sc_started s \<or> sc_timers s = [])"
  using runs_inv [of opts evs] one_timer [of "foldl sched_step (new_scheduler opts) evs" name]
  by (auto simp: Let_def sched_inv_def lock_ok_def timers_ok_def)

text \<open>
  C11: While the scheduler is started no job is lost: each registered job has a timeout pending, or a
  timer run in flight, or its re-arming ahead.
\<close>
theorem jobs_keep_firing:
  assumes "sc_started (foldl sched_step (new_scheduler opts) evs)" "name \<in> set (jobNames (foldl sched_step (new_scheduler opts) evs))"
  shows "will_fire (foldl sched_step (new_scheduler opts) evs) name"
  using assms runs_inv [of opts evs] by (simp add: sched_inv_def alive_def)

definition sample_job :: scheduled_job where
  "sample_job = \<lparr>sj_name = ''backup'', sj_intervalMs = JFin 1000, sj_jitterRatio = Some 0, sj_runOnStart = False,
     sj_timeoutMs = None, sj_quietSkips = False\<rparr>"

definition sample_events :: "string sched_event list" where
  "sample_events = [Register sample_job 0 0, Start 0 (\<lambda>_. 0), TimerFires 1 1000, Stop, RunNow ''backup'' 1001, Start 1002 (\<lambda>_. 0),
     Settles 2 (Inl ''boom''), Rearms ''backup'' 1003 0]"

definition sample_options :: scheduler_options where
  "sample_options = \<lparr>so_defaultJitterRatio = None, so_startupDelayMs = None\<rparr>"

theorem jobs_keep_firing_witness:
  "will_fire (foldl sched_step (new_scheduler sample_options) sample_events) ''backup''"
  by (rule jobs_keep_firing; code_simp)

text \<open>
  No attempt to run a job is dropped silently: the runs, the overruns and the run in flight of a
  job add up to the timer firings and manual calls it has had.
\<close>
theorem attempts_accounted:
  "tally (foldl sched_step (new_scheduler opts) evs) name = attempts_in (new_scheduler opts) evs name"
proof -
  have "tally (new_scheduler opts) name = 0" by (simp add: tally_def job_at_def new_scheduler_def)
  with tally_runs [OF new_scheduler_inv, of opts evs name] show ?thesis by simp
qed

text \<open>
  The delay to the next firing is never negative and is off its base by at most the jitter,
  which is capped below the whole base, and the rounding.
\<close>
theorem delay_within_jitter:
  assumes "0 \<le> base" "0 \<le> rnd" "rnd \<le> 1" "sj_jitterRatio job = Some r" "0 \<le> r"
  shows "0 \<le> nextDelay s job base rnd \<and> \<bar>nextDelay s job base rnd - base\<bar> \<le> base * min r (99 / 100) + 1 / 2"
proof (cases "r = 0")
  case True
  then show ?thesis using assms by (simp add: nextDelay_def)
next
  case False
  define sp where "sp = base * min r (99 / 100)"
  define x where "x = base + (rnd * 2 - 1) * sp"
  have sp: "0 \<le> sp" using assms by (simp add: sp_def)
  have "sp \<le> base * 1" unfolding sp_def using assms(1) by (intro mult_left_mono) auto
  moreover have "(rnd * 2 - 1) * sp \<le> 1 * sp" "- 1 * sp \<le> (rnd * 2 - 1) * sp"
    using assms(2,3) sp by (intro mult_right_mono; simp)+
  ultimately have x: "\<bar>x - base\<bar> \<le> sp" "0 \<le> x" unfolding x_def by (simp_all add: abs_le_iff)
  have m: "of_int (math_round x) \<le> x + 1 / 2" "x - 1 / 2 \<le> of_int (math_round x)" "0 \<le> math_round x"
    using x(2) unfolding math_round_def by linarith+
  have "nextDelay s job base rnd = max 0 (of_int (math_round x))"
    using False assms(4,5) by (simp add: nextDelay_def Let_def x_def sp_def)
  then have "nextDelay s job base rnd = of_int (math_round x)" using m(3) by simp
  then show ?thesis using m x(1) unfolding sp_def [symmetric] by (simp add: abs_le_iff)
qed

theorem delay_within_jitter_witness:
  "0 \<le> nextDelay (new_scheduler sample_options :: string scheduler) sample_job 1000 (1 / 4)
     \<and> \<bar>nextDelay (new_scheduler sample_options :: string scheduler) sample_job 1000 (1 / 4) - 1000\<bar> \<le> 1000 * min 0 (99 / 100) + 1 / 2"
  by (rule delay_within_jitter) (simp_all add: sample_job_def)

end
