(* ===== verification/LoopsJob.thy ===== *)
theory LoopsJob
  imports CronSchedule Scheduler
begin

text \<open>
  The loop executor (\<open>packages/server/src/scheduler/jobs/loops.ts\<close>): one tick of the job that fires
  the due loops. The port, the database and the abort signal are parameters; what the tick does to
  the world is the list of its effects in order.
\<close>

record due_loop =
  dl_entityId :: string
  dl_spaceId :: string
  dl_title :: string
  dl_schedule :: string
  dl_teamMemberId :: "string option"
  dl_subjectId :: "string option"
  dl_prompt :: string
  dl_config :: "jsobj option"
  dl_version :: nat

text \<open>
  The executor port and the queries. A call that throws gives its message; the signal is asked once
  before each loop, \<open>lp_aborted k\<close> being what it says before the \<open>k\<close>-th.
\<close>

record 'c loop_world =
  lp_claimsFor :: "string \<Rightarrow> string + 'c"
  lp_due :: "'c \<Rightarrow> nat \<Rightarrow> string + due_loop list"
  lp_liveSessionIds :: "string list"
  lp_triggered :: "'c \<Rightarrow> string \<Rightarrow> string list \<Rightarrow> string + string list"
  lp_fire :: "due_loop \<Rightarrow> 'c \<Rightarrow> date \<Rightarrow> string + unit"
  lp_aborted :: "nat \<Rightarrow> bool"

datatype run_error = NeverMatches string | BadSchedule sched_error | PreviousLive | FireFailed string

text \<open>
  The effects: a firing asked of the port, and an \<open>update_loop\<close> call with the version it was read at,
  the next run, whether the next run is to be cleared, and the error or its absence.
\<close>

datatype loop_effect =
    Fired string date
  | UpdateLoop string nat date bool "run_error option"

record tick_counts =
  tc_fired :: nat
  tc_skipped :: nat
  tc_failed :: nat

datatype loops_outcome = NoneDue | Ticked nat tick_counts

definition loops_job :: "rat option \<Rightarrow> scheduled_job" where
  "loops_job intervalMs = \<lparr>sj_name = ''loops.execute-due'',
     sj_intervalMs = JFin (case intervalMs of None \<Rightarrow> 60000 | Some ms \<Rightarrow> ms), sj_jitterRatio = Some (5 / 100),
     sj_runOnStart = False, sj_timeoutMs = Some (10 * 60000), sj_quietSkips = False\<rparr>"

text \<open>
  Recording a run. An invalid date is an object, and turning it into a string throws inside the
  transaction, whose errors are swallowed: then nothing is written.
\<close>

definition recordRun :: "due_loop \<Rightarrow> date option \<Rightarrow> run_error option \<Rightarrow> loop_effect list" where
  "recordRun l advance err = (case advance of
      Some None \<Rightarrow> []
    | Some (Some t) \<Rightarrow> [UpdateLoop (dl_entityId l) (dl_version l) (Some t) False err]
    | None \<Rightarrow> [UpdateLoop (dl_entityId l) (dl_version l) None True err])"

definition hasLiveFiring :: "'c loop_world \<Rightarrow> 'c \<Rightarrow> string \<Rightarrow> string + bool" where
  "hasLiveFiring w claims loopId =
     (if lp_liveSessionIds w = [] then Inr False
      else (case lp_triggered w claims loopId (lp_liveSessionIds w) of Inl e \<Rightarrow> Inl e | Inr rs \<Rightarrow> Inr (rs \<noteq> [])))"

definition schedule_of :: "due_loop \<Rightarrow> date \<Rightarrow> date option \<times> run_error option" where
  "schedule_of l firedAt = (case nextRunAt (dl_schedule l) firedAt of
      Inr (Some d) \<Rightarrow> (Some d, None)
    | Inr None \<Rightarrow> (None, Some (NeverMatches (dl_schedule l)))
    | Inl e \<Rightarrow> (None, Some (BadSchedule e)))"

definition run_loop :: "'c loop_world \<Rightarrow> date \<Rightarrow> due_loop \<Rightarrow> tick_counts \<Rightarrow> (string + tick_counts) \<times> loop_effect list" where
  "run_loop w firedAt l c =
     (case lp_claimsFor w (dl_spaceId l) of
        Inl e \<Rightarrow> (Inl e, [])
      | Inr claims \<Rightarrow>
          (case schedule_of l firedAt of (advance, scheduleError) \<Rightarrow>
            (case hasLiveFiring w claims (dl_entityId l) of
               Inl e \<Rightarrow> (Inl e, [])
             | Inr live \<Rightarrow>
                 if live then (Inr (c\<lparr>tc_skipped := tc_skipped c + 1\<rparr>), recordRun l advance (Some PreviousLive))
                 else if scheduleError \<noteq> None then (Inr (c\<lparr>tc_failed := tc_failed c + 1\<rparr>), recordRun l None scheduleError)
                 else (case lp_fire w l claims firedAt of
                     Inr _ \<Rightarrow> (Inr (c\<lparr>tc_fired := tc_fired c + 1\<rparr>), Fired (dl_entityId l) firedAt # recordRun l advance None)
                   | Inl e \<Rightarrow> (Inr (c\<lparr>tc_failed := tc_failed c + 1\<rparr>),
                       Fired (dl_entityId l) firedAt # recordRun l advance (Some (FireFailed e)))))))"

fun run_due :: "'c loop_world \<Rightarrow> date \<Rightarrow> nat \<Rightarrow> due_loop list \<Rightarrow> tick_counts \<Rightarrow> (string + tick_counts) \<times> loop_effect list" where
  "run_due w firedAt k [] c = (Inr c, [])"
| "run_due w firedAt k (l # ls) c =
     (if lp_aborted w k then (Inr c, [])
      else (case run_loop w firedAt l c of
          (Inl e, es) \<Rightarrow> (Inl e, es)
        | (Inr c1, es) \<Rightarrow> (case run_due w firedAt (k + 1) ls c1 of (r, es') \<Rightarrow> (r, es @ es'))))"

definition no_counts :: tick_counts where
  "no_counts = \<lparr>tc_fired = 0, tc_skipped = 0, tc_failed = 0\<rparr>"

definition run_loops :: "'c loop_world \<Rightarrow> nat option \<Rightarrow> date \<Rightarrow> (string + loops_outcome) \<times> loop_effect list" where
  "run_loops w maxPerTick firedAt =
     (case lp_claimsFor w [] of
        Inl e \<Rightarrow> (Inl e, [])
      | Inr claims \<Rightarrow>
          (case lp_due w claims (case maxPerTick of None \<Rightarrow> 25 | Some n \<Rightarrow> n) of
             Inl e \<Rightarrow> (Inl e, [])
           | Inr due \<Rightarrow>
               if due = [] then (Inr NoneDue, [])
               else (case run_due w firedAt 0 due no_counts of
                   (Inl e, es) \<Rightarrow> (Inl e, es)
                 | (Inr c, es) \<Rightarrow> (Inr (Ticked (length due) c), es))))"

subsection \<open>What a tick may do\<close>

text \<open>
  What the tick may write about a loop: firing only what is due by its schedule and not still
  running, and a next run that is the schedule's.
\<close>

definition effect_ok :: "'c loop_world \<Rightarrow> date \<Rightarrow> due_loop list \<Rightarrow> loop_effect \<Rightarrow> bool" where
  "effect_ok w firedAt due ef = (case ef of
      Fired i d \<Rightarrow> d = firedAt \<and> list_ex (\<lambda>l. dl_entityId l = i \<and> snd (schedule_of l firedAt) = None
        \<and> (case lp_claimsFor w (dl_spaceId l) of Inr claims \<Rightarrow> hasLiveFiring w claims i = Inr False | Inl _ \<Rightarrow> False)) due
    | UpdateLoop i v at' clear err \<Rightarrow> list_ex (\<lambda>l. dl_entityId l = i \<and> dl_version l = v
        \<and> (case at' of Some t \<Rightarrow> nextRunAt (dl_schedule l) firedAt = Inr (Some (Some t)) \<and> \<not> clear
            | None \<Rightarrow> clear \<and> (\<forall>d. nextRunAt (dl_schedule l) firedAt \<noteq> Inr (Some d)))) due)"

lemma schedule_cases:
  assumes "schedule_of l firedAt = (adv, err)"
  obtains (runs) d where "adv = Some d" "err = None" "nextRunAt (dl_schedule l) firedAt = Inr (Some d)"
  | (refused) e where "adv = None" "err = Some e" "\<forall>d. nextRunAt (dl_schedule l) firedAt \<noteq> Inr (Some d)"
  using assms by (cases "nextRunAt (dl_schedule l) firedAt") (auto simp: schedule_of_def split: option.splits)

lemma record_ok:
  assumes "schedule_of l firedAt = (adv, err)" "ef \<in> set (recordRun l adv e)"
  shows "effect_ok w firedAt [l] ef"
  using assms(1)
proof (cases rule: schedule_cases)
  case (runs d)
  then show ?thesis using assms(2) by (cases d) (simp_all add: recordRun_def effect_ok_def)
next
  case (refused e)
  then show ?thesis using assms(2) by (simp add: recordRun_def effect_ok_def)
qed

lemma recordRun_no_fire: "Fired i d \<notin> set (recordRun l adv e)"
  by (auto simp: recordRun_def split: option.splits)

lemma run_loop_cases:
  assumes "run_loop w firedAt l c = (r, es)" "schedule_of l firedAt = (adv, err)"
  obtains (threw) e where "r = Inl e" "es = []"
  | (skipped) "r = Inr (c\<lparr>tc_skipped := tc_skipped c + 1\<rparr>)" "es = recordRun l adv (Some PreviousLive)"
  | (bad) "r = Inr (c\<lparr>tc_failed := tc_failed c + 1\<rparr>)" "err \<noteq> None" "es = recordRun l None err"
  | (fired) claims e c' where "r = Inr c'" "c' = c\<lparr>tc_fired := tc_fired c + 1\<rparr> \<or> c' = c\<lparr>tc_failed := tc_failed c + 1\<rparr>" "err = None"
      "lp_claimsFor w (dl_spaceId l) = Inr claims" "hasLiveFiring w claims (dl_entityId l) = Inr False"
      "es = Fired (dl_entityId l) firedAt # recordRun l adv e"
proof (cases "lp_claimsFor w (dl_spaceId l)")
  case (Inr claims)
  show thesis
  proof (cases "hasLiveFiring w claims (dl_entityId l)")
    case live: (Inr live)
    show thesis
    proof (cases "live \<or> err \<noteq> None")
      case True
      then show thesis using assms Inr live skipped bad by (auto simp: run_loop_def split: if_splits)
    next
      case False
      then show thesis using assms Inr live fired [OF _ _ _ Inr]
        by (cases "lp_fire w l claims firedAt") (auto simp: run_loop_def)
    qed
  qed (use assms Inr threw in \<open>auto simp: run_loop_def\<close>)
qed (use assms threw in \<open>auto simp: run_loop_def\<close>)

lemma run_loop_ok:
  assumes r: "run_loop w firedAt l c = (r, es)"
  shows "\<forall>ef \<in> set es. effect_ok w firedAt [l] ef"
    "\<And>c'. r = Inr c' \<Longrightarrow> tc_fired c' + tc_skipped c' + tc_failed c' = Suc (tc_fired c + tc_skipped c + tc_failed c)"
proof -
  obtain adv err where s: "schedule_of l firedAt = (adv, err)" by (cases "schedule_of l firedAt")
  note rec = record_ok [OF s]
  from r s show "\<forall>ef \<in> set es. effect_ok w firedAt [l] ef"
  proof (cases rule: run_loop_cases)
    case bad
    with s have "adv = None" by (elim schedule_cases) auto
    with bad rec show ?thesis by auto
  next
    case (fired claims e c')
    have "effect_ok w firedAt [l] (Fired (dl_entityId l) firedAt)" using fired s by (simp add: effect_ok_def)
    with fired rec show ?thesis by auto
  qed (use rec in auto)
  show "tc_fired c' + tc_skipped c' + tc_failed c' = Suc (tc_fired c + tc_skipped c + tc_failed c)" if "r = Inr c'" for c'
    using r s by (cases rule: run_loop_cases) (use that in auto)
qed

lemma effect_ok_mono: "effect_ok w f ls ef \<Longrightarrow> set ls \<subseteq> set ls' \<Longrightarrow> effect_ok w f ls' ef"
  by (cases ef) (fastforce simp: effect_ok_def list_ex_iff)+

lemma run_due_ok:
  assumes "run_due w firedAt k ls c = (r, es)"
  shows "\<forall>ef \<in> set es. effect_ok w firedAt ls ef"
  using assms
proof (induction ls arbitrary: k c r es)
  case (Cons l ls)
  show ?case
  proof (cases "lp_aborted w k")
    case False
    obtain r1 es1 where 1: "run_loop w firedAt l c = (r1, es1)" by (cases "run_loop w firedAt l c")
    have e1: "\<forall>ef \<in> set es1. effect_ok w firedAt (l # ls) ef"
      using run_loop_ok(1) [OF 1] effect_ok_mono [of w firedAt "[l]" _ "l # ls"] by auto
    show ?thesis
    proof (cases r1)
      case (Inr c1)
      obtain r2 es2 where 2: "run_due w firedAt (k + 1) ls c1 = (r2, es2)" by (cases "run_due w firedAt (k + 1) ls c1")
      have "\<forall>ef \<in> set es2. effect_ok w firedAt (l # ls) ef"
        using Cons.IH [OF 2] effect_ok_mono [of w firedAt ls _ "l # ls"] by auto
      then show ?thesis using Cons.prems e1 False 1 2 Inr by auto
    qed (use Cons.prems e1 False 1 in auto)
  qed (use Cons.prems in auto)
qed simp

lemma run_due_counts:
  assumes "run_due w firedAt k ls c = (Inr c', es)"
  shows "tc_fired c' + tc_skipped c' + tc_failed c' \<le> tc_fired c + tc_skipped c + tc_failed c + length ls
     \<and> ((\<forall>j. \<not> lp_aborted w j) \<longrightarrow> tc_fired c' + tc_skipped c' + tc_failed c' = tc_fired c + tc_skipped c + tc_failed c + length ls)"
  using assms
proof (induction ls arbitrary: k c es)
  case (Cons l ls)
  show ?case
  proof (cases "lp_aborted w k")
    case False
    then obtain c1 es1 es2 where "run_loop w firedAt l c = (Inr c1, es1)" "run_due w firedAt (k + 1) ls c1 = (Inr c', es2)"
      using Cons.prems by (auto split: prod.splits sum.splits)
    then show ?thesis using run_loop_ok(2) Cons.IH by fastforce
  qed (use Cons.prems in auto)
qed simp

lemma run_loops_due:
  assumes "run_loops w m firedAt = (r, es)"
  obtains "es = []" | claims due res where "lp_claimsFor w [] = Inr claims"
      "lp_due w claims (case m of None \<Rightarrow> 25 | Some n \<Rightarrow> n) = Inr due" "run_due w firedAt 0 due no_counts = (res, es)"
  using assms by (auto simp: run_loops_def split: sum.splits if_splits prod.splits)

text \<open>
  C12: Everything a tick does concerns a due loop: it fires a loop only when its schedule has a next
  instant and no earlier firing is live, and it writes only that instant, at the version it read,
  clearing the next run exactly when the schedule gives none.
\<close>
theorem tick_effects:
  assumes "lp_claimsFor w [] = Inr claims" "lp_due w claims (case m of None \<Rightarrow> 25 | Some n \<Rightarrow> n) = Inr due"
  shows "list_all (effect_ok w firedAt due) (snd (run_loops w m firedAt))"
proof -
  obtain r es where r: "run_loops w m firedAt = (r, es)" by (cases "run_loops w m firedAt")
  then show ?thesis
  proof (cases rule: run_loops_due)
    case (2 claims' due' res)
    then have "due' = due" using assms by simp
    with run_due_ok [OF 2(3)] r show ?thesis by (simp add: list_all_iff)
  qed (simp add: r)
qed

definition one_loop :: "string \<Rightarrow> due_loop" where
  "one_loop schedule = \<lparr>dl_entityId = ''l1'', dl_spaceId = ''s1'', dl_title = ''t'', dl_schedule = schedule, dl_teamMemberId = None,
     dl_subjectId = None, dl_prompt = ''p'', dl_config = None, dl_version = 7\<rparr>"

definition world_with :: "due_loop list \<Rightarrow> unit loop_world" where
  "world_with due = \<lparr>lp_claimsFor = (\<lambda>_. Inr ()), lp_due = (\<lambda>_ _. Inr due), lp_liveSessionIds = [],
     lp_triggered = (\<lambda>_ _ _. Inr []), lp_fire = (\<lambda>_ _ _. Inr ()), lp_aborted = (\<lambda>_. False)\<rparr>"

theorem tick_effects_witness:
  "list_all (effect_ok (world_with [one_loop ''every 5m'']) (Some 0) [one_loop ''every 5m''])
     [Fired ''l1'' (Some 0), UpdateLoop ''l1'' 7 (Some 300000) False None]"
proof -
  have "snd (run_loops (world_with [one_loop ''every 5m'']) None (Some 0))
    = [Fired ''l1'' (Some 0), UpdateLoop ''l1'' 7 (Some 300000) False None]" by code_simp
  then show ?thesis
    using tick_effects [of "world_with [one_loop ''every 5m'']" "()" None "[one_loop ''every 5m'']" "Some 0"]
    by (simp add: world_with_def)
qed

text \<open>
  A loop scheduled for the leap day is never fired: on that day its next instant lies past the
  horizon of the search, so the tick that should fire it reports that the schedule never matches and
  clears the next run, although the same expression is due again at the next leap day.
\<close>
theorem leap_day_loop_is_lost:
  assumes "\<bar>t\<bar> \<le> 8640000000000000" "month_date t = (2, 29)" "lp_claimsFor w (dl_spaceId l) = Inr claims"
    "hasLiveFiring w claims (dl_entityId l) = Inr False" "dl_schedule l = ''0 0 29 2 *''"
  shows "run_loop w (Some t) l c = (Inr (c\<lparr>tc_failed := tc_failed c + 1\<rparr>),
     [UpdateLoop (dl_entityId l) (dl_version l) None True (Some (NeverMatches (dl_schedule l)))])"
  using assms leap_day_null [OF assms(1,2)] by (simp add: run_loop_def schedule_of_def recordRun_def)

theorem leap_day_loop_is_lost_witness:
  "run_loop (world_with []) (Some 1709164800000) (one_loop ''0 0 29 2 *'') no_counts
     = (Inr (no_counts\<lparr>tc_failed := 1\<rparr>), [UpdateLoop ''l1'' 7 None True (Some (NeverMatches ''0 0 29 2 *''))])
   \<and> cron_due leap_cron 1709164800000"
proof -
  have "\<bar>1709164800000 :: int\<bar> \<le> 8640000000000000" "month_date 1709164800000 = (2, 29)" by code_simp+
  from leap_day_loop_is_lost [OF this, of "world_with []" "one_loop ''0 0 29 2 *''" "()" no_counts]
  have "run_loop (world_with []) (Some 1709164800000) (one_loop ''0 0 29 2 *'') no_counts
    = (Inr (no_counts\<lparr>tc_failed := 1\<rparr>), [UpdateLoop ''l1'' 7 None True (Some (NeverMatches ''0 0 29 2 *''))])"
    by (simp add: world_with_def hasLiveFiring_def one_loop_def no_counts_def)
  moreover have "cron_due leap_cron 1709164800000" by code_simp
  ultimately show ?thesis by blast
qed

end
