(* ===== verification/WsFrame.thy ===== *)
theory WsFrame
  imports Bytes
begin

text \<open>
  The WebSocket frame codec (\<open>packages/server/src/events/ws-frame.ts\<close>): the encoder of the server's
  frames and the streaming decoder of the client's, with reassembly of fragments.
\<close>

datatype opcode = OpContinuation | OpText | OpBinary | OpClose | OpPing | OpPong

fun OPCODE :: "opcode \<Rightarrow> byte" where
  "OPCODE OpContinuation = 0x0"
| "OPCODE OpText = 0x1"
| "OPCODE OpBinary = 0x2"
| "OPCODE OpClose = 0x8"
| "OPCODE OpPing = 0x9"
| "OPCODE OpPong = 0xA"

definition MAX_PAYLOAD_BYTES :: nat where "MAX_PAYLOAD_BYTES = 1024 * 1024"

datatype close_code = Normal | GoingAway | ProtocolError | PolicyViolation | MessageTooBig | InternalError

fun CLOSE_CODE :: "close_code \<Rightarrow> nat" where
  "CLOSE_CODE Normal = 1000"
| "CLOSE_CODE GoingAway = 1001"
| "CLOSE_CODE ProtocolError = 1002"
| "CLOSE_CODE PolicyViolation = 1008"
| "CLOSE_CODE MessageTooBig = 1009"
| "CLOSE_CODE InternalError = 1011"

datatype frame_fault =
    RsvBits | ReservedOpcode byte | PayloadExceeds nat | FragmentedControl | ControlTooLong | NotMasked
  | ContinuationWithoutMessage | NewFrameInMessage | MessageExceeds

text \<open>A \<open>FrameProtocolError\<close>: what is wrong and the code to close with.\<close>

type_synonym frame_error = "frame_fault \<times> close_code"

record decoded_frame =
  df_opcode :: opcode
  df_payload :: "byte list"

definition opcode_of :: "byte \<Rightarrow> opcode option" where
  "opcode_of op =
     (if op = 0x0 then Some OpContinuation else if op = 0x1 then Some OpText else if op = 0x2 then Some OpBinary
      else if op = 0x8 then Some OpClose else if op = 0x9 then Some OpPing else if op = 0xA then Some OpPong else None)"

fun isControl :: "opcode \<Rightarrow> bool" where
  "isControl OpClose = True"
| "isControl OpPing = True"
| "isControl OpPong = True"
| "isControl _ = False"

subsection \<open>Encoding\<close>

definition frame_head :: "opcode \<Rightarrow> nat \<Rightarrow> byte list" where
  "frame_head op len =
     (if len < 126 then [0x80 OR OPCODE op, of_nat len]
      else if len < 0x10000 then [0x80 OR OPCODE op, 126] @ be_bytes 2 len
      else [0x80 OR OPCODE op, 127] @ be_bytes 8 len)"

definition encodeFrame :: "opcode \<Rightarrow> byte list \<Rightarrow> byte list" where
  "encodeFrame op payload = frame_head op (length payload) @ payload"

definition encodeTextFrame :: "(string \<Rightarrow> byte list) \<Rightarrow> string \<Rightarrow> byte list" where
  "encodeTextFrame utf8 s = encodeFrame OpText (utf8 s)"

text \<open>The reason is given as its UTF-8 bytes; a code that does not fit two bytes throws.\<close>

definition encodeCloseFrame :: "nat \<Rightarrow> byte list \<Rightarrow> byte list option" where
  "encodeCloseFrame code reason =
     (if code > 0xFFFF then None else Some (encodeFrame OpClose (be_bytes 2 code @ take 123 reason)))"

definition decodeClosePayload :: "byte list \<Rightarrow> nat \<times> byte list" where
  "decodeClosePayload payload =
     (if length payload < 2 then (CLOSE_CODE Normal, []) else (be_value (take 2 payload), drop 2 payload))"

subsection \<open>Decoding\<close>

record decoder =
  fd_maxPayloadBytes :: nat
  fd_buf :: "byte list"
  fd_fragmentOpcode :: "opcode option"
  fd_fragments :: "byte list list"
  fd_fragmentLength :: nat

definition new_decoder :: "nat \<Rightarrow> decoder" where
  "new_decoder limit = \<lparr>fd_maxPayloadBytes = limit, fd_buf = [], fd_fragmentOpcode = None, fd_fragments = [], fd_fragmentLength = 0\<rparr>"

definition resetFragments :: "decoder \<Rightarrow> decoder" where
  "resetFragments d = d\<lparr>fd_fragmentOpcode := None, fd_fragments := [], fd_fragmentLength := 0\<rparr>"

definition appendFragment :: "byte list \<Rightarrow> decoder \<Rightarrow> frame_error + decoder" where
  "appendFragment payload d =
     (if fd_fragmentLength d + length payload > fd_maxPayloadBytes d then Inl (MessageExceeds, MessageTooBig)
      else Inr (d\<lparr>fd_fragments := fd_fragments d @ [payload], fd_fragmentLength := fd_fragmentLength d + length payload\<rparr>))"

fun unmask :: "byte list \<Rightarrow> nat \<Rightarrow> byte list \<Rightarrow> byte list" where
  "unmask key i [] = []"
| "unmask key i (b # bs) = (b XOR key ! (i mod 4)) # unmask key (i + 1) bs"

text \<open>The frame at the front of the buffer: more bytes needed, a fragment consumed, or a frame.\<close>

datatype parsed = NeedMore | Partial decoder | Complete decoded_frame decoder | Failed frame_error

text \<open>The length of the payload and where the mask key starts, once the length bytes are there.\<close>

definition frame_length :: "nat \<Rightarrow> byte list \<Rightarrow> frame_error + (nat \<times> nat) option" where
  "frame_length limit buf =
     (let len7 = unat (buf ! 1 AND 0x7F) in
      if len7 < 126 then Inr (Some (len7, 2))
      else if len7 = 126 then (if length buf < 4 then Inr None else Inr (Some (be_value (take 2 (drop 2 buf)), 4)))
      else if length buf < 10 then Inr None
      else (let big = be_value (take 8 (drop 2 buf)) in
        if big > limit then Inl (PayloadExceeds big, MessageTooBig) else Inr (Some (big, 10))))"

text \<open>What becomes of a whole frame, its bytes taken off the buffer.\<close>

definition accept_frame :: "bool \<Rightarrow> opcode \<Rightarrow> byte list \<Rightarrow> decoder \<Rightarrow> parsed" where
  "accept_frame fin op payload d =
     (if isControl op then Complete \<lparr>df_opcode = op, df_payload = payload\<rparr> d
      else if op = OpContinuation then
        (case fd_fragmentOpcode d of
           None \<Rightarrow> Failed (ContinuationWithoutMessage, ProtocolError)
         | Some message \<Rightarrow>
             (case appendFragment payload d of
                Inl e \<Rightarrow> Failed e
              | Inr d1 \<Rightarrow>
                  if \<not> fin then Partial d1
                  else Complete \<lparr>df_opcode = message, df_payload = concat (fd_fragments d1)\<rparr> (resetFragments d1)))
      else if fd_fragmentOpcode d \<noteq> None then Failed (NewFrameInMessage, ProtocolError)
      else if fin then Complete \<lparr>df_opcode = op, df_payload = payload\<rparr> d
      else (case appendFragment payload (d\<lparr>fd_fragmentOpcode := Some op\<rparr>) of
          Inl e \<Rightarrow> Failed e
        | Inr d1 \<Rightarrow> Partial d1))"

definition parseOne :: "decoder \<Rightarrow> parsed" where
  "parseOne d =
     (let buf = fd_buf d in
      if length buf < 2 then NeedMore
      else
        let b0 = buf ! 0; b1 = buf ! 1; fin = (b0 AND 0x80 \<noteq> 0) in
        if b0 AND 0x70 \<noteq> 0 then Failed (RsvBits, ProtocolError)
        else (case opcode_of (b0 AND 0x0F) of
            None \<Rightarrow> Failed (ReservedOpcode (b0 AND 0x0F), ProtocolError)
          | Some op \<Rightarrow>
              (case frame_length (fd_maxPayloadBytes d) buf of
                 Inl e \<Rightarrow> Failed e
               | Inr None \<Rightarrow> NeedMore
               | Inr (Some (len, offset)) \<Rightarrow>
                   if len > fd_maxPayloadBytes d then Failed (PayloadExceeds len, MessageTooBig)
                   else if isControl op \<and> \<not> fin then Failed (FragmentedControl, ProtocolError)
                   else if isControl op \<and> len > 125 then Failed (ControlTooLong, ProtocolError)
                   else if b1 AND 0x80 = 0 then Failed (NotMasked, ProtocolError)
                   else if length buf < offset + 4 then NeedMore
                   else if length buf < offset + 4 + len then NeedMore
                   else accept_frame fin op
                          (unmask (take 4 (drop offset buf)) 0 (take len (drop (offset + 4) buf)))
                          (d\<lparr>fd_buf := drop (offset + 4 + len) buf\<rparr>))))"

lemma accept_frame_buf:
  "accept_frame fin op p d = Partial d1 \<Longrightarrow> fd_buf d1 = fd_buf d"
  "accept_frame fin op p d = Complete f d1 \<Longrightarrow> fd_buf d1 = fd_buf d"
  by (auto simp: accept_frame_def appendFragment_def resetFragments_def split: if_splits option.splits)

lemma parseOne_shrinks:
  "parseOne d = Partial d1 \<or> parseOne d = Complete f d1 \<Longrightarrow> length (fd_buf d1) < length (fd_buf d)"
  by (auto simp: parseOne_def Let_def dest!: accept_frame_buf split: if_splits option.splits sum.splits)

text \<open>The parse loop over everything buffered; the frames before a fault are lost with it.\<close>

function drain :: "decoder \<Rightarrow> frame_error + decoder \<times> decoded_frame list" where
  "drain d = (case parseOne d of
      NeedMore \<Rightarrow> Inr (d, [])
    | Failed e \<Rightarrow> Inl e
    | Partial d1 \<Rightarrow> drain d1
    | Complete f d1 \<Rightarrow> (case drain d1 of Inl e \<Rightarrow> Inl e | Inr (d2, fs) \<Rightarrow> Inr (d2, f # fs)))"
  by pat_completeness auto
termination by (relation "measure (\<lambda>d. length (fd_buf d))") (auto intro: parseOne_shrinks)

declare drain.simps [simp del]

definition push_bytes :: "decoder \<Rightarrow> byte list \<Rightarrow> frame_error + decoder \<times> decoded_frame list" where
  "push_bytes d chunk = drain (d\<lparr>fd_buf := fd_buf d @ chunk\<rparr>)"

fun push_all :: "decoder \<Rightarrow> byte list list \<Rightarrow> frame_error + decoder \<times> decoded_frame list" where
  "push_all d [] = Inr (d, [])"
| "push_all d (c # cs) = (case push_bytes d c of
      Inl e \<Rightarrow> Inl e
    | Inr (d1, fs) \<Rightarrow> (case push_all d1 cs of Inl e \<Rightarrow> Inl e | Inr (d2, gs) \<Rightarrow> Inr (d2, fs @ gs)))"

subsection \<open>Chunks do not matter\<close>

definition more :: "byte list \<Rightarrow> decoder \<Rightarrow> decoder" where
  "more ys d = d\<lparr>fd_buf := fd_buf d @ ys\<rparr>"

fun more_parsed :: "byte list \<Rightarrow> parsed \<Rightarrow> parsed" where
  "more_parsed ys NeedMore = NeedMore"
| "more_parsed ys (Partial d) = Partial (more ys d)"
| "more_parsed ys (Complete f d) = Complete f (more ys d)"
| "more_parsed ys (Failed e) = Failed e"

lemma more_simps [simp]:
  "fd_buf (more ys d) = fd_buf d @ ys" "fd_maxPayloadBytes (more ys d) = fd_maxPayloadBytes d"
  "more ys (more xs d) = more (xs @ ys) d" "more [] d = d"
  by (simp_all add: more_def)

lemma accept_frame_more: "accept_frame fin op p (more ys d) = more_parsed ys (accept_frame fin op p d)"
  by (auto simp: accept_frame_def appendFragment_def resetFragments_def more_def split: option.splits)

lemma frame_length_more:
  "2 \<le> length buf \<Longrightarrow> frame_length limit buf \<noteq> Inr None \<Longrightarrow> frame_length limit (buf @ ys) = frame_length limit buf"
  by (auto simp: frame_length_def Let_def nth_append split: if_splits)

lemma frame_length_offset: "frame_length limit buf = Inr (Some (len, offset)) \<Longrightarrow> offset \<le> 10 \<and> offset \<le> length buf \<or> length buf < 2"
  by (auto simp: frame_length_def Let_def split: if_splits)

lemma parseOne_more:
  assumes "parseOne d \<noteq> NeedMore"
  shows "parseOne (more ys d) = more_parsed ys (parseOne d)"
proof -
  have two: "2 \<le> length (fd_buf d)" using assms by (simp add: parseOne_def Let_def split: if_splits)
  have nth: "(fd_buf d @ ys) ! 0 = fd_buf d ! 0" "(fd_buf d @ ys) ! 1 = fd_buf d ! 1"
    using two by (simp_all add: nth_append del: One_nat_def) auto
  show ?thesis
  proof (cases "fd_buf d ! 0 AND 0x70 \<noteq> 0 \<or> opcode_of (fd_buf d ! 0 AND 0x0F) = None")
    case True
    then show ?thesis using two nth by (auto simp: parseOne_def Let_def)
  next
    case False
    then obtain op where op: "fd_buf d ! 0 AND 0x70 = 0" "opcode_of (fd_buf d ! 0 AND 0x0F) = Some op" by auto
    have fl: "frame_length (fd_maxPayloadBytes d) (fd_buf d) \<noteq> Inr None"
      using assms two op by (auto simp: parseOne_def Let_def)
    note more = frame_length_more [OF two fl, of ys]
    show ?thesis
    proof (cases "frame_length (fd_maxPayloadBytes d) (fd_buf d)")
      case (Inl e)
      then show ?thesis using two nth op more by (simp add: parseOne_def Let_def)
    next
      case (Inr r)
      with fl obtain len offset where r: "frame_length (fd_maxPayloadBytes d) (fd_buf d) = Inr (Some (len, offset))"
        by (cases r) auto
      have upd: "(more ys d)\<lparr>fd_buf := drop (offset + 4 + len) (fd_buf d) @ ys\<rparr> = more ys (d\<lparr>fd_buf := drop (offset + 4 + len) (fd_buf d)\<rparr>)"
        by (simp add: more_def)
      show ?thesis using two nth op more assms
        by (simp add: parseOne_def Let_def r upd accept_frame_more split: if_splits)
    qed
  qed
qed

lemma drain_more:
  "drain (more ys d) = (case drain d of
     Inl e \<Rightarrow> Inl e
   | Inr (d1, fs) \<Rightarrow> (case drain (more ys d1) of Inl e \<Rightarrow> Inl e | Inr (d2, gs) \<Rightarrow> Inr (d2, fs @ gs)))"
proof (induction d rule: drain.induct)
  case (1 d)
  show ?case
  proof (cases "parseOne d")
    case NeedMore
    then have "drain d = Inr (d, [])" by (subst drain.simps) simp
    then show ?thesis by (simp split: sum.split)
  next
    case (Partial d1)
    have "parseOne (more ys d) = Partial (more ys d1)" using parseOne_more [of d ys] Partial by simp
    then have "drain (more ys d) = drain (more ys d1)" by (subst drain.simps) simp
    moreover have "drain d = drain d1" using Partial by (subst drain.simps) simp
    ultimately show ?thesis using 1(1) [OF Partial] by simp
  next
    case (Complete f d1)
    have "parseOne (more ys d) = Complete f (more ys d1)" using parseOne_more [of d ys] Complete by simp
    then have "drain (more ys d) = (case drain (more ys d1) of Inl e \<Rightarrow> Inl e | Inr (d2, fs) \<Rightarrow> Inr (d2, f # fs))"
      by (subst drain.simps) simp
    moreover have "drain d = (case drain d1 of Inl e \<Rightarrow> Inl e | Inr (d2, fs) \<Rightarrow> Inr (d2, f # fs))"
      using Complete by (subst drain.simps) simp
    ultimately show ?thesis using 1(2) [OF Complete] by (simp split: sum.splits prod.splits)
  next
    case (Failed e)
    have "parseOne (more ys d) = Failed e" using parseOne_more [of d ys] Failed by simp
    then have "drain (more ys d) = Inl e" by (subst drain.simps) simp
    moreover have "drain d = Inl e" using Failed by (subst drain.simps) simp
    ultimately show ?thesis by simp
  qed
qed

lemma drain_stuck: "drain d = Inr (d1, fs) \<Longrightarrow> parseOne d1 = NeedMore"
proof (induction d arbitrary: fs rule: drain.induct)
  case (1 d)
  have s: "drain d = (case parseOne d of NeedMore \<Rightarrow> Inr (d, []) | Failed e \<Rightarrow> Inl e | Partial d1 \<Rightarrow> drain d1
      | Complete f d1 \<Rightarrow> (case drain d1 of Inl e \<Rightarrow> Inl e | Inr (d2, fs) \<Rightarrow> Inr (d2, f # fs)))"
    by (subst drain.simps) simp
  show ?case
  proof (cases "parseOne d")
    case (Partial d2)
    with 1(3) s have "drain d2 = Inr (d1, fs)" by simp
    with 1(1) [OF Partial] show ?thesis by blast
  next
    case (Complete f d2)
    with 1(3) s obtain gs where "drain d2 = Inr (d1, gs)" by (auto split: sum.splits)
    with 1(2) [OF Complete] show ?thesis by blast
  qed (use 1(3) s in auto)
qed

lemma push_all_concat: "parseOne d = NeedMore \<Longrightarrow> push_all d cs = push_bytes d (concat cs)"
proof (induction cs arbitrary: d)
  case Nil
  then show ?case by (simp add: push_bytes_def drain.simps)
next
  case (Cons c cs)
  have p: "push_bytes d xs = drain (more xs d)" for xs d by (simp add: push_bytes_def more_def)
  have "drain (more (concat (c # cs)) d) = drain (more (concat cs) (more c d))" by simp
  also have "\<dots> = (case drain (more c d) of Inl e \<Rightarrow> Inl e
    | Inr (d1, fs) \<Rightarrow> (case drain (more (concat cs) d1) of Inl e \<Rightarrow> Inl e | Inr (d2, gs) \<Rightarrow> Inr (d2, fs @ gs)))"
    by (rule drain_more)
  finally have "drain (more (concat (c # cs)) d) = \<dots>" .
  moreover have "push_all d1 cs = drain (more (concat cs) d1)" if "drain (more c d) = Inr (d1, fs)" for d1 fs
    using Cons.IH [OF drain_stuck [OF that]] by (simp add: p)
  ultimately show ?case by (auto simp: p split: sum.splits prod.splits)
qed

lemma new_needs_more: "parseOne (new_decoder limit) = NeedMore"
  by (simp add: parseOne_def new_decoder_def)

subsection \<open>Memory\<close>

definition decoder_ok :: "decoder \<Rightarrow> bool" where
  "decoder_ok d \<longleftrightarrow> fd_fragmentLength d = length (concat (fd_fragments d)) \<and> fd_fragmentLength d \<le> fd_maxPayloadBytes d"

definition frame_ok :: "nat \<Rightarrow> decoded_frame \<Rightarrow> bool" where
  "frame_ok limit f \<longleftrightarrow> df_opcode f \<noteq> OpContinuation \<and> length (df_payload f) \<le> limit
     \<and> (isControl (df_opcode f) \<longrightarrow> length (df_payload f) \<le> 125)"

definition message_opcode :: "decoder \<Rightarrow> bool" where
  "message_opcode d \<longleftrightarrow> (case fd_fragmentOpcode d of None \<Rightarrow> True | Some op \<Rightarrow> op = OpText \<or> op = OpBinary)"

fun parsed_ok :: "nat \<Rightarrow> parsed \<Rightarrow> bool" where
  "parsed_ok limit (Partial d) \<longleftrightarrow> decoder_ok d \<and> message_opcode d \<and> fd_maxPayloadBytes d = limit"
| "parsed_ok limit (Complete f d) \<longleftrightarrow> frame_ok limit f \<and> decoder_ok d \<and> message_opcode d \<and> fd_maxPayloadBytes d = limit"
| "parsed_ok limit _ = True"

lemma length_unmask [simp]: "length (unmask key i bs) = length bs"
  by (induction bs arbitrary: i) auto

lemma accept_frame_ok:
  assumes "decoder_ok d" "message_opcode d" "length p \<le> fd_maxPayloadBytes d" "isControl op \<longrightarrow> length p \<le> 125"
  shows "parsed_ok (fd_maxPayloadBytes d) (accept_frame fin op p d)"
proof (cases "isControl op \<or> op = OpContinuation")
  case True
  then show ?thesis using assms
    by (auto simp: accept_frame_def appendFragment_def resetFragments_def decoder_ok_def frame_ok_def message_opcode_def
        split: option.splits)
next
  case False
  then have "op = OpText \<or> op = OpBinary" by (cases op) auto
  then show ?thesis using assms
    by (auto simp: accept_frame_def appendFragment_def decoder_ok_def frame_ok_def message_opcode_def)
qed

lemma parseOne_ok:
  assumes "decoder_ok d" "message_opcode d"
  shows "parsed_ok (fd_maxPayloadBytes d) (parseOne d)"
proof -
  have "parsed_ok (fd_maxPayloadBytes (d\<lparr>fd_buf := rest\<rparr>)) (accept_frame fin op p (d\<lparr>fd_buf := rest\<rparr>))"
    if "length p \<le> fd_maxPayloadBytes d" "isControl op \<longrightarrow> length p \<le> 125" for fin op p rest
    using assms that by (intro accept_frame_ok) (simp_all add: decoder_ok_def message_opcode_def)
  then show ?thesis
    by (auto simp: parseOne_def Let_def split: option.splits sum.splits)
qed

lemma drain_ok:
  "drain d = Inr (d1, fs) \<Longrightarrow> decoder_ok d \<Longrightarrow> message_opcode d \<Longrightarrow>
     decoder_ok d1 \<and> message_opcode d1 \<and> fd_maxPayloadBytes d1 = fd_maxPayloadBytes d \<and> list_all (frame_ok (fd_maxPayloadBytes d)) fs"
proof (induction d arbitrary: fs rule: drain.induct)
  case (1 d)
  have s: "drain d = (case parseOne d of NeedMore \<Rightarrow> Inr (d, []) | Failed e \<Rightarrow> Inl e | Partial d1 \<Rightarrow> drain d1
      | Complete f d1 \<Rightarrow> (case drain d1 of Inl e \<Rightarrow> Inl e | Inr (d2, fs) \<Rightarrow> Inr (d2, f # fs)))"
    by (subst drain.simps) simp
  note ok = parseOne_ok [OF 1(4,5)]
  show ?case
  proof (cases "parseOne d")
    case (Partial d2)
    with 1(3) s have "drain d2 = Inr (d1, fs)" by simp
    with 1(1) [OF Partial this] ok Partial show ?thesis by simp
  next
    case (Complete f d2)
    with 1(3) s obtain gs where "drain d2 = Inr (d1, gs)" "fs = f # gs" by (auto split: sum.splits)
    with 1(2) [OF Complete this(1)] ok Complete show ?thesis by simp
  qed (use 1(3-5) s in auto)
qed

lemma need_more_short:
  assumes "parseOne d = NeedMore"
  shows "length (fd_buf d) \<le> fd_maxPayloadBytes d + 13"
proof -
  have "accept_frame fin op p e \<noteq> NeedMore" for fin op p e
    by (auto simp: accept_frame_def split: option.splits sum.splits)
  moreover have "frame_length (fd_maxPayloadBytes d) (fd_buf d) = Inr None \<Longrightarrow> length (fd_buf d) < 10"
    by (auto simp: frame_length_def Let_def split: if_splits)
  moreover have "frame_length (fd_maxPayloadBytes d) (fd_buf d) = Inr (Some (len, offset)) \<Longrightarrow> offset \<le> 10" for len offset
    by (auto simp: frame_length_def Let_def split: if_splits)
  ultimately show ?thesis using assms
    by (fastforce simp: parseOne_def Let_def split: if_splits option.splits sum.splits)
qed

subsection \<open>A client's frames\<close>

text \<open>
  A frame as a client sends it (RFC 6455): the server's encoding with the mask bit set, the mask key
  after the length, and the payload masked; without the final bit when it is a fragment.
\<close>

definition client_frame :: "bool \<Rightarrow> opcode \<Rightarrow> byte list \<Rightarrow> byte list \<Rightarrow> byte list" where
  "client_frame fin op key payload =
     (let h = frame_head op (length payload) in
      (if fin then h ! 0 else h ! 0 AND 0x7F) # (h ! 1 OR 0x80) # drop 2 h @ key @ unmask key 0 payload)"

lemma unmask_twice: "unmask key i (unmask key i bs) = bs"
  by (induction bs arbitrary: i) (auto simp: xor.assoc)

lemma first_byte:
  "(if fin then 0x80 OR OPCODE op else (0x80 OR OPCODE op) AND 0x7F) AND 0x70 = 0"
  "opcode_of ((if fin then 0x80 OR OPCODE op else (0x80 OR OPCODE op) AND 0x7F) AND 0x0F) = Some op"
  "(if fin then 0x80 OR OPCODE op else (0x80 OR OPCODE op) AND 0x7F) AND 0x80 \<noteq> 0 \<longleftrightarrow> fin"
  by (cases op; cases fin; simp add: opcode_of_def)+

lemma second_byte: "b AND 0x7F = b \<Longrightarrow> (b OR 0x80) AND 0x7F = b \<and> (b OR 0x80) AND 0x80 \<noteq> 0" for b :: byte
  by (rule mp [OF all_bytes [of "\<lambda>b. b AND 0x7F = b \<longrightarrow> (b OR 0x80) AND 0x7F = b \<and> (b OR 0x80) AND 0x80 \<noteq> 0"]]) code_simp

lemma small_byte: "n < 128 \<Longrightarrow> (of_nat n :: byte) AND 0x7F = of_nat n"
proof -
  have "list_all (\<lambda>n. (of_nat n :: byte) AND 0x7F = of_nat n) [0..<128]" by code_simp
  then show "n < 128 \<Longrightarrow> ?thesis" by (simp add: list_all_iff)
qed

lemma frame_head_shape:
  "frame_head op n = (0x80 OR OPCODE op) # (if n < 126 then [of_nat n] else if n < 0x10000 then 126 # be_bytes 2 n else 127 # be_bytes 8 n)"
  by (simp add: frame_head_def)

lemma client_length:
  fixes op :: opcode
  assumes "n < 2 ^ 64" "n \<le> limit"
  defines "ext \<equiv> drop 2 (frame_head op n)"
  shows "frame_length limit (first # (frame_head op n ! 1 OR 0x80) # ext @ rest) = Inr (Some (n, 2 + length ext))"
    "(frame_head op n ! 1 OR 0x80) AND 0x80 \<noteq> 0"
proof -
  have b: "(frame_head op n ! 1) AND 0x7F = frame_head op n ! 1"
  proof (cases "n < 126")
    case True
    then show ?thesis using small_byte [of n] by (simp add: frame_head_def)
  qed (simp add: frame_head_def)
  have "unat (frame_head op n ! 1) = (if n < 126 then n else if n < 0x10000 then 126 else 127)"
    by (simp add: frame_head_def unat_byte)
  with second_byte [OF b] have u: "unat ((frame_head op n ! 1 OR 0x80) AND 0x7F) = (if n < 126 then n else if n < 0x10000 then 126 else 127)"
    "(frame_head op n ! 1 OR 0x80) AND 0x80 \<noteq> 0" by simp_all
  show "(frame_head op n ! 1 OR 0x80) AND 0x80 \<noteq> 0" by (rule u(2))
  have v: "be_value (be_bytes 2 n) = n" if "n < 0x10000" using be_value_bytes [of n 2] that by simp
  have w: "be_value (be_bytes 8 n) = n" using be_value_bytes [of n 8] assms(1) by simp
  have e: "ext = (if n < 126 then [] else if n < 0x10000 then be_bytes 2 n else be_bytes 8 n)"
    by (simp add: ext_def frame_head_def)
  define h1 where "h1 = (frame_head op n ! 1 OR 0x80)"
  have "unat (h1 AND 0x7F) = (if n < 126 then n else if n < 0x10000 then 126 else 127)" using u(1) by (simp add: h1_def)
  then have "frame_length limit (first # h1 # ext @ rest) = Inr (Some (n, 2 + length ext))"
    using v w assms(2) unfolding frame_length_def e by (simp add: Let_def)
  then show "frame_length limit (first # (frame_head op n ! 1 OR 0x80) # ext @ rest) = Inr (Some (n, 2 + length ext))"
    by (simp add: h1_def)
qed

lemma parse_client_frame:
  assumes "fd_buf d = client_frame fin op key p @ rest" "length key = 4" "length p < 2 ^ 64" "length p \<le> fd_maxPayloadBytes d"
    "isControl op \<longrightarrow> fin \<and> length p \<le> 125"
  shows "parseOne d = accept_frame fin op p (d\<lparr>fd_buf := rest\<rparr>)"
proof -
  define h where "h = frame_head op (length p)"
  define ext where "ext = drop 2 h"
  define b0 where "b0 = (if fin then 0x80 OR OPCODE op else (0x80 OR OPCODE op) AND 0x7F)"
  define h1 where "h1 = (h ! 1 OR 0x80)"
  have h0: "h ! 0 = 0x80 OR OPCODE op" by (simp add: h_def frame_head_shape)
  have buf: "fd_buf d = b0 # h1 # ext @ key @ unmask key 0 p @ rest"
    by (simp only: assms(1) client_frame_def Let_def h_def [symmetric] ext_def b0_def h1_def h0 append_Cons append_assoc)
  have len: "frame_length (fd_maxPayloadBytes d) (fd_buf d) = Inr (Some (length p, 2 + length ext))" "h1 AND 0x80 \<noteq> 0"
    using client_length(1) [OF assms(3,4), where op = op and first = b0 and rest = "key @ unmask key 0 p @ rest"]
      client_length(2) [OF assms(3,4), of op] unfolding buf h_def ext_def h1_def by simp_all
  have b: "b0 AND 0x70 = 0" "opcode_of (b0 AND 0x0F) = Some op" "(b0 AND 0x80 \<noteq> 0) = fin"
    using first_byte [of fin op] unfolding b0_def by auto
  define front where "front = b0 # h1 # ext @ key"
  have front: "fd_buf d = front @ unmask key 0 p @ rest" "length front = 2 + length ext + 4"
    using assms(2) by (simp_all add: buf front_def)
  have key: "take 4 (drop (2 + length ext) (fd_buf d)) = key" using assms(2) by (simp add: buf)
  have body: "take (length p) (drop (2 + length ext + 4) (fd_buf d)) = unmask key 0 p"
    "drop (2 + length ext + 4 + length p) (fd_buf d) = rest" unfolding front(2) [symmetric] front(1) by simp_all
  have l: "\<not> length (fd_buf d) < 2" "\<not> length (fd_buf d) < 2 + length ext + 4" "\<not> length (fd_buf d) < 2 + length ext + 4 + length p"
    using assms(2) by (simp_all add: buf)
  have nth: "fd_buf d ! 0 = b0" "fd_buf d ! 1 = h1" by (simp_all add: buf)
  define off where "off = 2 + length ext"
  note facts = l [folded off_def] len [folded off_def] key [folded off_def] body [folded off_def]
  show ?thesis unfolding parseOne_def Let_def nth
    using facts b assms(4,5) by (auto simp: unmask_twice)
qed

text \<open>A message in fragments: before each fragment any control frames, then its key and its payload.\<close>

type_synonym piece = "(opcode \<times> byte list \<times> byte list) list \<times> byte list \<times> byte list"

definition control_bytes :: "(opcode \<times> byte list \<times> byte list) list \<Rightarrow> byte list" where
  "control_bytes cs = concat (map (\<lambda>(op, key, p). client_frame True op key p) cs)"

fun wire :: "opcode \<Rightarrow> piece list \<Rightarrow> byte list" where
  "wire op [] = []"
| "wire op ((cs, key, p) # ps) = control_bytes cs @ client_frame (ps = []) op key p @ wire OpContinuation ps"

definition piece_ok :: "nat \<Rightarrow> piece \<Rightarrow> bool" where
  "piece_ok limit x = (case x of (cs, key, p) \<Rightarrow> length key = 4
     \<and> list_all (\<lambda>(op, key, p). isControl op \<and> length key = 4 \<and> length p \<le> 125 \<and> length p \<le> limit) cs)"

definition payload_of :: "piece list \<Rightarrow> byte list" where
  "payload_of ps = concat (map (\<lambda>(cs, key, p). p) ps)"

definition controls_of :: "piece list \<Rightarrow> decoded_frame list" where
  "controls_of ps = map (\<lambda>(op, key, p). \<lparr>df_opcode = op, df_payload = p\<rparr>) (concat (map fst ps))"

lemma drain_Complete: "parseOne d = Complete f d1 \<Longrightarrow> drain d1 = Inr (d2, fs) \<Longrightarrow> drain d = Inr (d2, f # fs)"
  by (subst drain.simps) simp

lemma drain_controls:
  assumes "list_all (\<lambda>(op, key, p). isControl op \<and> length key = 4 \<and> length p \<le> 125 \<and> length p \<le> fd_maxPayloadBytes d) cs"
    "drain (d\<lparr>fd_buf := rest\<rparr>) = Inr (d2, fs)"
  shows "drain (d\<lparr>fd_buf := control_bytes cs @ rest\<rparr>) = Inr (d2, map (\<lambda>(op, key, p). \<lparr>df_opcode = op, df_payload = p\<rparr>) cs @ fs)"
  using assms
proof (induction cs)
  case (Cons c cs)
  obtain op key p where c: "c = (op, key, p)" by (cases c)
  have ok: "isControl op" "length key = 4" "length p \<le> 125" "length p \<le> fd_maxPayloadBytes d" using Cons.prems(1) by (simp_all add: c)
  have "control_bytes (c # cs) = client_frame True op key p @ control_bytes cs" by (simp add: control_bytes_def c)
  then have "parseOne (d\<lparr>fd_buf := control_bytes (c # cs) @ rest\<rparr>) = accept_frame True op p (d\<lparr>fd_buf := control_bytes cs @ rest\<rparr>)"
    using parse_client_frame [of "d\<lparr>fd_buf := control_bytes (c # cs) @ rest\<rparr>" True op key p "control_bytes cs @ rest"] ok by simp
  also have "\<dots> = Complete \<lparr>df_opcode = op, df_payload = p\<rparr> (d\<lparr>fd_buf := control_bytes cs @ rest\<rparr>)"
    using ok(1) by (simp add: accept_frame_def)
  finally show ?case using drain_Complete Cons by (simp add: c)
qed (simp add: control_bytes_def)

lemma drain_Partial: "parseOne d = Partial d1 \<Longrightarrow> drain d = drain d1"
  by (subst drain.simps) simp

lemma payload_simps: "payload_of [] = []" "payload_of ((cs, key, p) # ps) = p @ payload_of ps"
  "controls_of [] = []" "controls_of ((cs, key, p) # ps) = map (\<lambda>(op, key, p). \<lparr>df_opcode = op, df_payload = p\<rparr>) cs @ controls_of ps"
  by (simp_all add: payload_of_def controls_of_def)

lemma drain_pieces:
  assumes "ps \<noteq> []" "list_all (piece_ok (fd_maxPayloadBytes d)) ps" "fd_fragmentOpcode d = Some m"
    "fd_fragmentLength d = length (concat (fd_fragments d))"
    "fd_fragmentLength d + length (payload_of ps) \<le> fd_maxPayloadBytes d" "fd_maxPayloadBytes d < 2 ^ 64"
  shows "drain (d\<lparr>fd_buf := wire OpContinuation ps\<rparr>)
     = Inr (new_decoder (fd_maxPayloadBytes d), controls_of ps @ [\<lparr>df_opcode = m, df_payload = concat (fd_fragments d) @ payload_of ps\<rparr>])"
  using assms
proof (induction ps arbitrary: d)
  case (Cons x ps)
  obtain cs key p where x: "x = (cs, key, p)" by (cases x)
  define fin where "fin = (ps = [])"
  have ok: "length key = 4" "length p < 2 ^ 64" "length p \<le> fd_maxPayloadBytes d"
    "fd_fragmentLength d + length p \<le> fd_maxPayloadBytes d"
    using Cons.prems by (simp_all add: x piece_ok_def payload_simps)
  have cok: "list_all (\<lambda>(op, key, p). isControl op \<and> length key = 4 \<and> length p \<le> 125 \<and> length p \<le> fd_maxPayloadBytes d) cs"
    using Cons.prems(2) by (simp add: x piece_ok_def)
  define d1 where "d1 = d\<lparr>fd_fragments := fd_fragments d @ [p], fd_fragmentLength := fd_fragmentLength d + length p\<rparr>"
  have "parseOne (d\<lparr>fd_buf := client_frame fin OpContinuation key p @ wire OpContinuation ps\<rparr>)
      = accept_frame fin OpContinuation p (d\<lparr>fd_buf := wire OpContinuation ps\<rparr>)"
    using parse_client_frame [of "d\<lparr>fd_buf := client_frame fin OpContinuation key p @ wire OpContinuation ps\<rparr>" fin OpContinuation key p] ok
    by simp
  also have "\<dots> = (if fin then Complete \<lparr>df_opcode = m, df_payload = concat (fd_fragments d) @ p\<rparr> (resetFragments (d\<lparr>fd_buf := []\<rparr>))
      else Partial (d1\<lparr>fd_buf := wire OpContinuation ps\<rparr>))"
    using Cons.prems(3) ok(4) by (simp add: accept_frame_def appendFragment_def d1_def fin_def resetFragments_def)
  finally have step: "parseOne (d\<lparr>fd_buf := client_frame fin OpContinuation key p @ wire OpContinuation ps\<rparr>) = \<dots>" .
  have "drain (d\<lparr>fd_buf := client_frame fin OpContinuation key p @ wire OpContinuation ps\<rparr>)
      = Inr (new_decoder (fd_maxPayloadBytes d), controls_of ps @ [\<lparr>df_opcode = m, df_payload = concat (fd_fragments d) @ p @ payload_of ps\<rparr>])"
  proof (cases fin)
    case True
    have "drain (new_decoder (fd_maxPayloadBytes d)) = Inr (new_decoder (fd_maxPayloadBytes d), [])"
      by (subst drain.simps) (simp add: new_needs_more)
    moreover have "resetFragments (d\<lparr>fd_buf := []\<rparr>) = new_decoder (fd_maxPayloadBytes d)"
      by (simp add: resetFragments_def new_decoder_def)
    ultimately show ?thesis using step True drain_Complete by (simp add: fin_def payload_simps)
  next
    case False
    have d1: "fd_maxPayloadBytes d1 = fd_maxPayloadBytes d" "fd_fragmentOpcode d1 = Some m" "concat (fd_fragments d1) = concat (fd_fragments d) @ p"
      "fd_fragmentLength d1 = length (concat (fd_fragments d1))"
      using Cons.prems(3,4) by (simp_all add: d1_def)
    have "drain (d1\<lparr>fd_buf := wire OpContinuation ps\<rparr>)
      = Inr (new_decoder (fd_maxPayloadBytes d1), controls_of ps @ [\<lparr>df_opcode = m, df_payload = concat (fd_fragments d1) @ payload_of ps\<rparr>])"
      using False Cons.prems(2,5,6) d1 by (intro Cons.IH) (simp_all add: fin_def x payload_simps d1_def)
    then show ?thesis using step False by (simp add: drain_Partial d1)
  qed
  from drain_controls [OF cok this] show ?case by (simp add: x fin_def payload_simps)
qed simp

text \<open>A whole message, from its first frame on.\<close>

lemma drain_message:
  assumes "ps \<noteq> []" "list_all (piece_ok limit) ps" "op = OpText \<or> op = OpBinary" "length (payload_of ps) \<le> limit" "limit < 2 ^ 64"
  shows "push_bytes (new_decoder limit) (wire op ps)
     = Inr (new_decoder limit, controls_of ps @ [\<lparr>df_opcode = op, df_payload = payload_of ps\<rparr>])"
proof -
  obtain cs key p qs where ps: "ps = (cs, key, p) # qs" using assms(1) by (cases ps) auto
  define d where "d = new_decoder limit"
  have d: "fd_maxPayloadBytes d = limit" "fd_fragmentOpcode d = None" "fd_fragments d = []" "fd_fragmentLength d = 0" "fd_buf d = []"
    by (simp_all add: d_def new_decoder_def)
  define fin where "fin = (qs = [])"
  have ok: "length key = 4" "length p < 2 ^ 64" "length p \<le> limit" using assms by (simp_all add: ps piece_ok_def payload_simps)
  have cok: "list_all (\<lambda>(op, key, p). isControl op \<and> length key = 4 \<and> length p \<le> 125 \<and> length p \<le> fd_maxPayloadBytes d) cs"
    using assms(2) by (simp add: ps piece_ok_def d)
  have nc: "\<not> isControl op" "op \<noteq> OpContinuation" using assms(3) by auto
  define d1 where "d1 = d\<lparr>fd_fragmentOpcode := Some op, fd_fragments := [p], fd_fragmentLength := length p\<rparr>"
  have step: "parseOne (d\<lparr>fd_buf := client_frame fin op key p @ wire OpContinuation qs\<rparr>)
      = (if fin then Complete \<lparr>df_opcode = op, df_payload = p\<rparr> (d\<lparr>fd_buf := wire OpContinuation qs\<rparr>)
         else Partial (d1\<lparr>fd_buf := wire OpContinuation qs\<rparr>))"
    using parse_client_frame [of "d\<lparr>fd_buf := client_frame fin op key p @ wire OpContinuation qs\<rparr>" fin op key p] ok nc
    by (simp add: d accept_frame_def appendFragment_def d1_def)
  have "drain (d\<lparr>fd_buf := client_frame fin op key p @ wire OpContinuation qs\<rparr>)
      = Inr (d, controls_of qs @ [\<lparr>df_opcode = op, df_payload = p @ payload_of qs\<rparr>])"
  proof (cases fin)
    case True
    have "drain d = Inr (d, [])" by (subst drain.simps) (simp add: d_def new_needs_more)
    moreover have "d\<lparr>fd_buf := []\<rparr> = d" by (simp add: d_def new_decoder_def)
    ultimately show ?thesis using step True drain_Complete by (simp add: fin_def payload_simps)
  next
    case False
    have "drain (d1\<lparr>fd_buf := wire OpContinuation qs\<rparr>)
      = Inr (new_decoder (fd_maxPayloadBytes d1), controls_of qs @ [\<lparr>df_opcode = op, df_payload = concat (fd_fragments d1) @ payload_of qs\<rparr>])"
      using False assms by (intro drain_pieces) (simp_all add: fin_def ps payload_simps d1_def d)
    moreover have "new_decoder (fd_maxPayloadBytes d1) = d" using d(1) by (simp add: d1_def) (simp add: d_def)
    ultimately show ?thesis using step False by (simp add: drain_Partial d1_def)
  qed
  from drain_controls [OF cok this] have "drain (d\<lparr>fd_buf := wire op ps\<rparr>)
      = Inr (d, controls_of ps @ [\<lparr>df_opcode = op, df_payload = payload_of ps\<rparr>])"
    by (simp add: ps fin_def payload_simps)
  then show ?thesis by (simp add: push_bytes_def d_def [symmetric] d)
qed

subsection \<open>The properties\<close>


text \<open>
  C14: A message a client sends in any number of masked fragments, with control frames between them,
  cut into any chunks, is delivered whole: its opcode, the fragments' payloads in order, after the
  control frames; and the decoder is back where it started.
\<close>
theorem fragmented_message_arrives:
  assumes "ps \<noteq> []" "list_all (piece_ok limit) ps" "op = OpText \<or> op = OpBinary" "length (payload_of ps) \<le> limit" "limit < 2 ^ 64"
    "concat cs = wire op ps"
  shows "push_all (new_decoder limit) cs
     = Inr (new_decoder limit, controls_of ps @ [\<lparr>df_opcode = op, df_payload = payload_of ps\<rparr>])"
  using drain_message [OF assms(1-5)] push_all_concat [OF new_needs_more, of limit cs] assms(6) by simp

theorem fragmented_message_arrives_witness:
  "push_all (new_decoder 16) [[0x01, 0x82, 1, 2, 3], [4, 0x49, 0x6B, 0x89, 0x80, 0, 0, 0, 0, 0x80, 0x81, 9, 9], [9, 9, 0x28]]
     = Inr (new_decoder 16, [\<lparr>df_opcode = OpPing, df_payload = []\<rparr>, \<lparr>df_opcode = OpText, df_payload = [0x48, 0x69, 0x21]\<rparr>])"
proof -
  define ps :: "piece list" where "ps = [([], [1, 2, 3, 4], [0x48, 0x69]), ([(OpPing, [0, 0, 0, 0], [])], [9, 9, 9, 9], [0x21])]"
  have "ps \<noteq> []" "list_all (piece_ok 16) ps" "length (payload_of ps) \<le> 16" unfolding ps_def by code_simp+
  moreover have "concat [[0x01, 0x82, 1, 2, 3], [4, 0x49, 0x6B, 0x89, 0x80, 0, 0, 0, 0, 0x80, 0x81, 9, 9], [9, 9, 0x28]] = wire OpText ps"
    unfolding ps_def by code_simp
  ultimately have "push_all (new_decoder 16) [[0x01, 0x82, 1, 2, 3], [4, 0x49, 0x6B, 0x89, 0x80, 0, 0, 0, 0, 0x80, 0x81, 9, 9], [9, 9, 0x28]]
     = Inr (new_decoder 16, controls_of ps @ [\<lparr>df_opcode = OpText, df_payload = payload_of ps\<rparr>])"
    by (intro fragmented_message_arrives) simp_all
  moreover have "controls_of ps = [\<lparr>df_opcode = OpPing, df_payload = []\<rparr>]" "payload_of ps = [0x48, 0x69, 0x21]"
    unfolding ps_def by code_simp+
  ultimately show ?thesis by simp
qed

text \<open>
  C15: However a client lies about lengths, a decoder that has not failed holds less than one frame
  over the limit in its buffer and at most the limit in fragments, and what it delivers respects the
  limit, control frames their own.
\<close>
theorem decoder_memory_bounded:
  assumes "push_all (new_decoder limit) cs = Inr (d, fs)"
  shows "length (fd_buf d) \<le> limit + 13 \<and> length (concat (fd_fragments d)) \<le> limit \<and> list_all (frame_ok limit) fs"
proof -
  define d0 where "d0 = (new_decoder limit)\<lparr>fd_buf := concat cs\<rparr>"
  have "drain d0 = Inr (d, fs)" using assms push_all_concat [OF new_needs_more, of limit cs]
    by (simp add: push_bytes_def d0_def new_decoder_def)
  moreover have "decoder_ok d0" "message_opcode d0" "fd_maxPayloadBytes d0 = limit"
    by (simp_all add: d0_def new_decoder_def decoder_ok_def message_opcode_def)
  ultimately have "decoder_ok d" "fd_maxPayloadBytes d = limit" "list_all (frame_ok limit) fs" "parseOne d = NeedMore"
    using drain_ok [of d0 d fs] drain_stuck by simp_all
  then show ?thesis using need_more_short [of d] by (simp add: decoder_ok_def)
qed

theorem decoder_memory_bounded_witness:
  "length (fd_buf ((new_decoder 16)\<lparr>fd_buf := [0x81, 0x83, 1]\<rparr>)) \<le> 16 + 13"
proof -
  have "push_all (new_decoder 16) [[0x81], [0x83, 1]] = Inr ((new_decoder 16)\<lparr>fd_buf := [0x81, 0x83, 1]\<rparr>, [])" by code_simp
  from decoder_memory_bounded [OF this] show ?thesis by blast
qed

text \<open>The payload of a close frame reads back, the reason cut to what a control frame can carry.\<close>

lemma close_frame_reads_back:
  assumes "code \<le> 0xFFFF"
  shows "\<exists>p. encodeCloseFrame code reason = Some (encodeFrame OpClose p) \<and> length p \<le> 125
     \<and> decodeClosePayload p = (code, take 123 reason)"
  using assms be_value_bytes [of code 2]
  by (intro exI [of _ "be_bytes 2 code @ take 123 reason"]) (auto simp: encodeCloseFrame_def decodeClosePayload_def)

end
