(* ===== verification/Connection.thy ===== *)
theory Connection
  imports WsFrame Prelude
begin

text \<open>
  One WebSocket connection (\<open>packages/server/src/events/ws-connection.ts\<close>) as a machine whose inputs
  are what the event loop calls: bytes that arrive, sends and closes by the rest of the server, the
  three timers, and the socket's own events. What it does to the socket and whom it tells is its
  trace. The socket's queue and answers, the clock and the reactions of the message handlers are an
  environment, asked in turn: its fields take the number of the question. A timer is a flag that
  says whether it is set. A handler may send and close while it runs.
\<close>

datatype conn_state = ConnOpen | ConnClosing | ConnClosed

datatype write_result = Flowing | Full | WriteThrows

datatype conn_effect =
    Wrote "byte list"
  | EndedSocket
  | DestroyedSocket
  | Delivered int "byte list"
  | ToldClosed nat "byte list"

datatype reaction = ReSend "byte list" | ReClose close_code "byte list"

record conn_options =
  co_missedPongLimit :: nat
  co_maxBufferedBytes :: nat
  co_maxControlBytes :: nat
  co_maxMessagesPerWindow :: nat
  co_messageWindowMs :: int

definition DEFAULT_MISSED_PONG_LIMIT :: nat where "DEFAULT_MISSED_PONG_LIMIT = 2"
definition DEFAULT_WS_MAX_BUFFERED_BYTES :: nat where "DEFAULT_WS_MAX_BUFFERED_BYTES = 1024 * 1024"
definition DEFAULT_WS_MAX_CONTROL_BYTES :: nat where "DEFAULT_WS_MAX_CONTROL_BYTES = 64 * 1024"

definition default_conn_options :: conn_options where
  "default_conn_options = \<lparr>co_missedPongLimit = DEFAULT_MISSED_PONG_LIMIT, co_maxBufferedBytes = DEFAULT_WS_MAX_BUFFERED_BYTES,
     co_maxControlBytes = DEFAULT_WS_MAX_CONTROL_BYTES, co_maxMessagesPerWindow = 200, co_messageWindowMs = 10000\<rparr>"

record conn_env =
  ce_queued :: "nat \<Rightarrow> nat"
  ce_write :: "nat \<Rightarrow> write_result"
  ce_now :: "nat \<Rightarrow> int"
  ce_react :: "nat \<Rightarrow> byte list \<Rightarrow> reaction list"
  ce_faultText :: "frame_fault \<Rightarrow> byte list"

record connection =
  cn_state :: conn_state
  cn_decoder :: decoder
  cn_missedPongs :: nat
  cn_heartbeat :: bool
  cn_idle :: bool
  cn_absolute :: bool
  cn_closeCode :: nat
  cn_closeReason :: "byte list"
  cn_rateWindowStartedAt :: int
  cn_rateMessages :: nat
  cn_asked :: nat
  cn_trace :: "conn_effect list"

definition new_connection :: "conn_env \<Rightarrow> conn_options \<Rightarrow> connection" where
  "new_connection e opts = \<lparr>cn_state = ConnOpen, cn_decoder = new_decoder (co_maxControlBytes opts), cn_missedPongs = 0,
     cn_heartbeat = True, cn_idle = True, cn_absolute = True, cn_closeCode = CLOSE_CODE Normal, cn_closeReason = [],
     cn_rateWindowStartedAt = ce_now e 0, cn_rateMessages = 0, cn_asked = 1, cn_trace = []\<rparr>"

definition did :: "conn_effect \<Rightarrow> connection \<Rightarrow> connection" where
  "did f c = c\<lparr>cn_trace := cn_trace c @ [f]\<rparr>"

definition asked :: "connection \<Rightarrow> connection" where
  "asked c = c\<lparr>cn_asked := Suc (cn_asked c)\<rparr>"

definition stopHeartbeat :: "connection \<Rightarrow> connection" where
  "stopHeartbeat c = c\<lparr>cn_heartbeat := False\<rparr>"

definition stopLifetimeTimers :: "connection \<Rightarrow> connection" where
  "stopLifetimeTimers c = c\<lparr>cn_idle := False, cn_absolute := False\<rparr>"

definition touchIdle :: "connection \<Rightarrow> connection" where
  "touchIdle c = c\<lparr>cn_idle := True\<rparr>"

text \<open>The codes closed with all fit the two bytes of a close frame.\<close>

definition write_close_frame :: "nat \<Rightarrow> byte list \<Rightarrow> connection \<Rightarrow> connection" where
  "write_close_frame code reason c = (case encodeCloseFrame code reason of Some b \<Rightarrow> did (Wrote b) c | None \<Rightarrow> c)"

definition close_conn :: "nat \<Rightarrow> byte list \<Rightarrow> connection \<Rightarrow> connection" where
  "close_conn code reason c =
     (if cn_state c \<noteq> ConnOpen then c
      else did EndedSocket (write_close_frame code reason
        (stopLifetimeTimers (stopHeartbeat (c\<lparr>cn_state := ConnClosing, cn_closeCode := code, cn_closeReason := reason\<rparr>)))))"

definition finish :: "nat \<Rightarrow> byte list \<Rightarrow> connection \<Rightarrow> connection" where
  "finish code reason c =
     (if cn_state c = ConnClosed then c
      else did (ToldClosed code reason) (stopLifetimeTimers (stopHeartbeat (c\<lparr>cn_state := ConnClosed\<rparr>))))"

definition destroy_conn :: "connection \<Rightarrow> connection" where
  "destroy_conn c = (let c' = did DestroyedSocket (stopHeartbeat c) in finish (cn_closeCode c') (cn_closeReason c') c')"

definition close_and_destroy :: "close_code \<Rightarrow> byte list \<Rightarrow> connection \<Rightarrow> connection" where
  "close_and_destroy code reason c = destroy_conn (close_conn (CLOSE_CODE code) reason c)"

definition ascii :: "string \<Rightarrow> byte list" where
  "ascii s = map (\<lambda>ch. of_nat (of_char ch)) s"

text \<open>The write that respects the socket's queue: whether the frame went out.\<close>

definition writeBounded :: "conn_env \<Rightarrow> conn_options \<Rightarrow> byte list \<Rightarrow> connection \<Rightarrow> bool \<times> connection" where
  "writeBounded e opts frame c =
     (if ce_queued e (cn_asked c) + length frame > co_maxBufferedBytes opts then
        (False, close_and_destroy PolicyViolation (ascii ''slow consumer'') (asked c))
      else (case ce_write e (cn_asked c) of
          Flowing \<Rightarrow> (True, did (Wrote frame) (asked c))
        | Full \<Rightarrow> (False, close_and_destroy PolicyViolation (ascii ''slow consumer'') (did (Wrote frame) (asked c)))
        | WriteThrows \<Rightarrow> (False, destroy_conn (asked c))))"

definition send_text :: "conn_env \<Rightarrow> conn_options \<Rightarrow> byte list \<Rightarrow> connection \<Rightarrow> connection" where
  "send_text e opts payload c =
     (if cn_state c \<noteq> ConnOpen then c
      else (case writeBounded e opts (encodeFrame OpText payload) c of (sent, c') \<Rightarrow> if sent then touchIdle c' else c'))"

definition consumeRate :: "conn_env \<Rightarrow> conn_options \<Rightarrow> connection \<Rightarrow> bool \<times> connection" where
  "consumeRate e opts c =
     (let now = ce_now e (cn_asked c);
          c1 = asked c;
          c2 = (if now - cn_rateWindowStartedAt c1 \<ge> co_messageWindowMs opts
                then c1\<lparr>cn_rateWindowStartedAt := now, cn_rateMessages := 0\<rparr> else c1);
          c3 = c2\<lparr>cn_rateMessages := cn_rateMessages c2 + 1\<rparr>
      in (cn_rateMessages c3 \<le> co_maxMessagesPerWindow opts, c3))"

definition react :: "conn_env \<Rightarrow> conn_options \<Rightarrow> connection \<Rightarrow> reaction \<Rightarrow> connection" where
  "react e opts c r = (case r of ReSend payload \<Rightarrow> send_text e opts payload c | ReClose code reason \<Rightarrow> close_conn (CLOSE_CODE code) reason c)"

definition deliver :: "conn_env \<Rightarrow> conn_options \<Rightarrow> int \<Rightarrow> byte list \<Rightarrow> connection \<Rightarrow> connection" where
  "deliver e opts now payload c =
     foldl (react e opts) (asked (did (Delivered now payload) c)) (ce_react e (cn_asked c) payload)"

fun on_frames :: "conn_env \<Rightarrow> conn_options \<Rightarrow> connection \<Rightarrow> decoded_frame list \<Rightarrow> connection" where
  "on_frames e opts c [] = c"
| "on_frames e opts c (f # fs) = (case df_opcode f of
     OpText \<Rightarrow>
       if length (df_payload f) > co_maxControlBytes opts then close_and_destroy MessageTooBig (ascii ''control message too large'') c
       else (case consumeRate e opts c of (ok, c1) \<Rightarrow>
         if \<not> ok then close_and_destroy PolicyViolation (ascii ''message rate exceeded'') c1
         else on_frames e opts (deliver e opts (ce_now e (cn_asked c)) (df_payload f) (touchIdle c1)) fs)
   | OpBinary \<Rightarrow> close_conn (CLOSE_CODE PolicyViolation) (ascii ''binary frames are not accepted'') c
   | OpPing \<Rightarrow> on_frames e opts (if cn_state c = ConnOpen then did (Wrote (encodeFrame OpPong (df_payload f))) c else c) fs
   | OpPong \<Rightarrow> on_frames e opts (c\<lparr>cn_missedPongs := 0\<rparr>) fs
   | OpClose \<Rightarrow> (case decodeClosePayload (df_payload f) of (code, reason) \<Rightarrow>
       destroy_conn (if cn_state c = ConnOpen then
         write_close_frame code reason (stopHeartbeat (c\<lparr>cn_state := ConnClosing, cn_closeCode := code, cn_closeReason := reason\<rparr>)) else c))
   | OpContinuation \<Rightarrow> on_frames e opts c fs)"

definition onData :: "conn_env \<Rightarrow> conn_options \<Rightarrow> byte list \<Rightarrow> connection \<Rightarrow> connection" where
  "onData e opts chunk c =
     (if cn_state c = ConnClosed then c
      else (case push_bytes (cn_decoder c) chunk of
          Inl (fault, code) \<Rightarrow> close_and_destroy code (ce_faultText e fault) c
        | Inr (d, frames) \<Rightarrow> on_frames e opts (c\<lparr>cn_decoder := d\<rparr>) frames))"

definition heartbeat_fires :: "conn_options \<Rightarrow> connection \<Rightarrow> connection" where
  "heartbeat_fires opts c =
     (if \<not> cn_heartbeat c \<or> cn_state c \<noteq> ConnOpen then c
      else if cn_missedPongs c \<ge> co_missedPongLimit opts then close_and_destroy GoingAway (ascii ''heartbeat timeout'') c
      else did (Wrote (encodeFrame OpPing [])) (c\<lparr>cn_missedPongs := cn_missedPongs c + 1\<rparr>))"

definition idle_fires :: "connection \<Rightarrow> connection" where
  "idle_fires c = (if cn_idle c then close_and_destroy GoingAway (ascii ''idle timeout'') (c\<lparr>cn_idle := False\<rparr>) else c)"

definition absolute_fires :: "connection \<Rightarrow> connection" where
  "absolute_fires c = (if cn_absolute c then close_and_destroy GoingAway (ascii ''absolute timeout'') (c\<lparr>cn_absolute := False\<rparr>) else c)"

datatype conn_event =
    DataArrives "byte list"
  | SendText "byte list"
  | CloseNow close_code "byte list"
  | HeartbeatFires
  | IdleFires
  | AbsoluteFires
  | SocketErrored
  | SocketClosed

fun conn_step :: "conn_env \<Rightarrow> conn_options \<Rightarrow> connection \<Rightarrow> conn_event \<Rightarrow> connection" where
  "conn_step e opts c (DataArrives chunk) = onData e opts chunk c"
| "conn_step e opts c (SendText payload) = send_text e opts payload c"
| "conn_step e opts c (CloseNow code reason) = close_conn (CLOSE_CODE code) reason c"
| "conn_step e opts c HeartbeatFires = heartbeat_fires opts c"
| "conn_step e opts c IdleFires = idle_fires c"
| "conn_step e opts c AbsoluteFires = absolute_fires c"
| "conn_step e opts c SocketErrored = finish (CLOSE_CODE InternalError) (ascii ''socket error'') c"
| "conn_step e opts c SocketClosed = finish (cn_closeCode c) (cn_closeReason c) c"

subsection \<open>The life of a connection\<close>

definition writes :: "conn_effect list \<Rightarrow> byte list list" where
  "writes tr = List.map_filter (\<lambda>f. case f of Wrote b \<Rightarrow> Some b | _ \<Rightarrow> None) tr"

definition told :: "conn_effect list \<Rightarrow> nat" where
  "told tr = length (filter (\<lambda>f. case f of ToldClosed _ _ \<Rightarrow> True | _ \<Rightarrow> False) tr)"

definition gave_up :: "conn_effect list \<Rightarrow> bool" where
  "gave_up tr = list_ex (\<lambda>f. case f of EndedSocket \<Rightarrow> True | DestroyedSocket \<Rightarrow> True | ToldClosed _ _ \<Rightarrow> True | _ \<Rightarrow> False) tr"

lemma trace_append [simp]:
  "writes (tr @ us) = writes tr @ writes us"
  "told (tr @ us) = told tr + told us"
  "gave_up (tr @ us) \<longleftrightarrow> gave_up tr \<or> gave_up us"
  by (simp_all add: writes_def told_def gave_up_def List.map_filter_def)

lemma trace_Cons [simp]:
  "writes (f # us) = (case f of Wrote b \<Rightarrow> [b] | _ \<Rightarrow> []) @ writes us"
  "told (f # us) = (case f of ToldClosed _ _ \<Rightarrow> 1 | _ \<Rightarrow> 0) + told us"
  "gave_up (f # us) \<longleftrightarrow> (case f of EndedSocket \<Rightarrow> True | DestroyedSocket \<Rightarrow> True | ToldClosed _ _ \<Rightarrow> True | _ \<Rightarrow> False) \<or> gave_up us"
  by (auto simp: writes_def told_def gave_up_def List.map_filter_def split: conn_effect.splits)

lemma trace_Nil [simp]: "writes [] = []" "told [] = 0" "\<not> gave_up []"
  by (simp_all add: writes_def told_def gave_up_def List.map_filter_def)

text \<open>
  The invariant: the close handlers have been told exactly once when the connection is closed and
  not before; while it is open all three timers are set and the socket was not given up; once closed
  neither the heartbeat nor the absolute timer is set.
\<close>

definition conn_inv :: "connection \<Rightarrow> bool" where
  "conn_inv c \<longleftrightarrow> told (cn_trace c) = (if cn_state c = ConnClosed then 1 else 0)
     \<and> (cn_state c = ConnOpen \<longrightarrow> cn_heartbeat c \<and> cn_idle c \<and> cn_absolute c \<and> \<not> gave_up (cn_trace c))
     \<and> (cn_state c = ConnClosed \<longrightarrow> \<not> cn_heartbeat c \<and> \<not> cn_absolute c)"

text \<open>One way only: a connection that is not open never writes again and never opens again.\<close>

definition one_way :: "connection \<Rightarrow> connection \<Rightarrow> bool" where
  "one_way c c' \<longleftrightarrow> (conn_inv c \<longrightarrow> conn_inv c')
     \<and> (cn_state c \<noteq> ConnOpen \<longrightarrow> cn_state c' \<noteq> ConnOpen \<and> writes (cn_trace c') = writes (cn_trace c))
     \<and> (cn_state c = ConnClosed \<longrightarrow> cn_state c' = ConnClosed)"

named_theorems conn_simps \<open>the primitive changes of a connection\<close>

declare did_def [conn_simps] asked_def [conn_simps] stopHeartbeat_def [conn_simps] stopLifetimeTimers_def [conn_simps] touchIdle_def [conn_simps]

lemma one_way_refl [simp]: "one_way c c"
  by (simp add: one_way_def)

lemma one_way_trans: "one_way c c' \<Longrightarrow> one_way c' c'' \<Longrightarrow> one_way c c''"
  by (auto simp: one_way_def)

lemma one_way_close: "one_way c (close_conn code reason c)"
  by (auto simp: one_way_def conn_inv_def close_conn_def write_close_frame_def conn_simps split: option.splits)

lemma one_way_finish: "one_way c (finish code reason c)"
  by (auto simp: one_way_def conn_inv_def finish_def conn_simps)

lemma one_way_destroy: "one_way c (destroy_conn c)"
  by (auto simp: one_way_def conn_inv_def destroy_conn_def finish_def conn_simps Let_def)

lemma destroy_closes: "cn_state (destroy_conn c) = ConnClosed"
  by (auto simp: destroy_conn_def finish_def conn_simps Let_def)

lemma one_way_close_destroy: "one_way c (close_and_destroy code reason c)"
  unfolding close_and_destroy_def by (rule one_way_trans [OF one_way_close one_way_destroy])

lemma one_way_asked: "one_way c (asked c)"
  by (auto simp: one_way_def conn_inv_def conn_simps)

lemma one_way_wrote: "cn_state c = ConnOpen \<Longrightarrow> one_way c (did (Wrote b) c)"
  by (auto simp: one_way_def conn_inv_def conn_simps)

lemma one_way_touch: "one_way c (touchIdle c)"
  by (auto simp: one_way_def conn_inv_def conn_simps)

lemma one_way_delivered: "one_way c (did (Delivered t b) c)"
  by (auto simp: one_way_def conn_inv_def conn_simps)

lemma one_way_fields:
  "one_way c (c\<lparr>cn_missedPongs := n\<rparr>)" "one_way c (c\<lparr>cn_decoder := d\<rparr>)" "one_way c (c\<lparr>cn_rateMessages := n\<rparr>)"
  "one_way c (c\<lparr>cn_rateWindowStartedAt := t, cn_rateMessages := n\<rparr>)"
  by (auto simp: one_way_def conn_inv_def)

lemmas one_ways = one_way_close one_way_finish one_way_destroy one_way_close_destroy one_way_asked one_way_touch one_way_delivered one_way_fields

lemma asked_state [simp]: "cn_state (asked c) = cn_state c"
  by (simp add: asked_def)

lemma one_way_writeBounded: "cn_state c = ConnOpen \<Longrightarrow> one_way c (snd (writeBounded e opts frame c))"
  unfolding writeBounded_def
  by (auto split: write_result.split intro: one_way_trans [OF one_way_asked one_way_close_destroy]
      one_way_trans [OF one_way_asked one_way_destroy] one_way_trans [OF one_way_asked one_way_wrote]
      one_way_trans [OF one_way_asked one_way_trans [OF one_way_wrote one_way_close_destroy]])

lemma one_way_send: "one_way c (send_text e opts payload c)"
proof (cases "cn_state c = ConnOpen")
  case True
  obtain ok c' where w: "writeBounded e opts (encodeFrame OpText payload) c = (ok, c')" by fastforce
  then have "one_way c c'" using one_way_writeBounded [OF True, of e opts "encodeFrame OpText payload"] by simp
  with True w show ?thesis by (auto simp: send_text_def intro: one_way_trans [OF _ one_way_touch])
qed (simp add: send_text_def)

lemma one_way_react: "one_way c (react e opts c r)"
  by (cases r) (simp_all add: react_def one_way_send one_way_close)

lemma one_way_reacts: "one_way c (foldl (react e opts) c rs)"
  by (induction rs arbitrary: c) (auto intro: one_way_trans [OF one_way_react])

lemma one_way_deliver: "one_way c (deliver e opts t payload c)"
  unfolding deliver_def
  by (rule one_way_trans [OF one_way_delivered one_way_trans [OF one_way_asked one_way_reacts]])

lemma one_way_rate: "one_way c (snd (consumeRate e opts c))"
  unfolding consumeRate_def Let_def
  by (auto intro!: one_way_trans [OF one_way_asked] one_way_trans [OF one_way_fields(4) one_way_fields(3)] one_way_fields)

lemma one_way_peer_close:
  "one_way c (destroy_conn (if cn_state c = ConnOpen then
     write_close_frame code reason (stopHeartbeat (c\<lparr>cn_state := ConnClosing, cn_closeCode := code, cn_closeReason := reason\<rparr>)) else c))"
  by (auto simp: one_way_def conn_inv_def destroy_conn_def finish_def write_close_frame_def conn_simps Let_def split: option.splits)

lemma one_way_frames: "one_way c (on_frames e opts c fs)"
proof (induction fs arbitrary: c)
  case (Cons f fs)
  show ?case
  proof (cases "df_opcode f")
    case OpText
    obtain ok c1 where r: "consumeRate e opts c = (ok, c1)" by fastforce
    then have "one_way c c1" using one_way_rate [of c e opts] by simp
    with OpText r show ?thesis
      by (auto simp: one_way_close_destroy intro: one_way_trans [OF _ one_way_close_destroy]
          one_way_trans [OF _ one_way_trans [OF one_way_touch one_way_trans [OF one_way_deliver Cons]]])
  next
    case OpPing
    then show ?thesis using Cons one_way_trans [OF one_way_wrote Cons] by auto
  next
    case OpPong
    then show ?thesis using one_way_trans [OF one_way_fields(1) Cons] by auto
  next
    case OpClose
    then show ?thesis using one_way_peer_close by (auto split: prod.splits)
  next
    case OpBinary
    then show ?thesis using one_way_close by auto
  next
    case OpContinuation
    then show ?thesis using Cons by auto
  qed
qed simp

lemma one_way_step: "one_way c (conn_step e opts c ev)"
proof (cases ev)
  case (DataArrives chunk)
  then show ?thesis
    by (auto simp: onData_def one_way_close_destroy intro: one_way_trans [OF one_way_fields(2) one_way_frames] split: sum.splits)
next
  case HeartbeatFires
  then show ?thesis
    by (auto simp: heartbeat_fires_def one_way_close_destroy intro!: one_way_trans [OF one_way_fields(1) one_way_wrote])
next
  case IdleFires
  then show ?thesis
    by (auto simp: idle_fires_def close_and_destroy_def one_way_def conn_inv_def destroy_conn_def close_conn_def write_close_frame_def finish_def conn_simps Let_def split: option.splits)
next
  case AbsoluteFires
  then show ?thesis
    by (auto simp: absolute_fires_def close_and_destroy_def one_way_def conn_inv_def destroy_conn_def close_conn_def write_close_frame_def finish_def conn_simps Let_def split: option.splits)
qed (simp_all add: one_way_send one_way_close one_way_finish)

lemma one_way_run: "one_way c (foldl (conn_step e opts) c evs)"
  by (induction evs arbitrary: c) (auto intro: one_way_trans [OF one_way_step])

interpretation conn: invariant_machine "conn_step e opts" "\<lambda>_ _. True" conn_inv for e opts
  by unfold_locales (use one_way_step in \<open>auto simp: one_way_def\<close>)

lemma new_connection_inv: "conn_inv (new_connection e opts)"
  by (simp add: conn_inv_def new_connection_def)

text \<open>
  C17: Whatever arrives, is sent, times out or fails, and in whatever order, the close handlers of a
  connection are told exactly once, when it closes. While it is open its heartbeat and both lifetime
  timers are set and the socket has not been given up; once it is not, it never opens again and not
  one more byte is written.
\<close>
theorem connection_closes_once:
  "let c = foldl (conn_step e opts) (new_connection e opts) evs; c' = foldl (conn_step e opts) c evs' in
     told (cn_trace c) = (if cn_state c = ConnClosed then 1 else 0) \<and>
     (if cn_state c = ConnOpen then cn_heartbeat c \<and> cn_idle c \<and> cn_absolute c \<and> \<not> gave_up (cn_trace c)
      else cn_state c' \<noteq> ConnOpen \<and> writes (cn_trace c') = writes (cn_trace c))"
proof -
  have "conn_inv (foldl (conn_step e opts) (new_connection e opts) evs)"
    using one_way_run [of "new_connection e opts" e opts evs] new_connection_inv by (simp add: one_way_def)
  then show ?thesis
    using one_way_run [of "foldl (conn_step e opts) (new_connection e opts) evs" e opts evs']
    by (simp add: Let_def conn_inv_def one_way_def)
qed

subsection \<open>A peer that is silent\<close>

fun no_bytes :: "conn_event \<Rightarrow> bool" where
  "no_bytes (DataArrives _) = False"
| "no_bytes _ = True"

lemma send_keeps_missed: "cn_state (send_text e opts p c) = ConnOpen \<Longrightarrow> cn_missedPongs (send_text e opts p c) = cn_missedPongs c"
  by (auto simp: send_text_def writeBounded_def close_and_destroy_def destroy_closes conn_simps split: write_result.splits prod.splits if_splits)

lemma silent_step:
  assumes "conn_inv c" "no_bytes ev" "cn_state (conn_step e opts c ev) = ConnOpen"
  shows "cn_missedPongs (conn_step e opts c ev) = cn_missedPongs c + (if ev = HeartbeatFires then 1 else 0)
     \<and> (ev = HeartbeatFires \<longrightarrow> cn_missedPongs c < co_missedPongLimit opts)"
proof -
  have o: "cn_state c = ConnOpen"
    using assms(3) one_way_step [of c e opts ev] by (auto simp: one_way_def)
  then have h: "cn_heartbeat c" using assms(1) by (simp add: conn_inv_def)
  from assms(2,3) o h show ?thesis
    by (cases ev) (auto simp: heartbeat_fires_def idle_fires_def absolute_fires_def close_and_destroy_def destroy_closes close_conn_def
        finish_def send_keeps_missed conn_simps write_close_frame_def split: if_splits option.splits)
qed

lemma silent_run:
  assumes "conn_inv c" "list_all no_bytes evs" "cn_state (foldl (conn_step e opts) c evs) = ConnOpen"
  shows "cn_missedPongs (foldl (conn_step e opts) c evs) = cn_missedPongs c + length (filter (\<lambda>ev. ev = HeartbeatFires) evs)
     \<and> (HeartbeatFires \<in> set evs \<longrightarrow> cn_missedPongs (foldl (conn_step e opts) c evs) \<le> co_missedPongLimit opts)"
  using assms
proof (induction evs arbitrary: c)
  case (Cons ev evs)
  let ?c = "conn_step e opts c ev"
  have i: "conn_inv ?c" using Cons.prems(1) one_way_step [of c e opts ev] by (simp add: one_way_def)
  have o: "cn_state ?c = ConnOpen"
    using Cons.prems(3) one_way_run [of ?c e opts evs] by (auto simp: one_way_def)
  from Cons.prems have p: "no_bytes ev" "list_all no_bytes evs" by simp_all
  note s = silent_step [OF Cons.prems(1) p(1) o] and r = Cons.IH [OF i p(2)]
  show ?case
  proof (cases "HeartbeatFires \<in> set evs")
    case True
    with s r Cons.prems(3) show ?thesis by auto
  next
    case False
    then have "filter (\<lambda>ev. ev = HeartbeatFires) evs = []" by (auto simp: filter_empty_conv)
    with False s r Cons.prems(3) show ?thesis by auto
  qed
qed simp


definition calm_env :: conn_env where
  "calm_env = \<lparr>ce_queued = (\<lambda>_. 0), ce_write = (\<lambda>_. Flowing), ce_now = int, ce_react = (\<lambda>_ _. []), ce_faultText = (\<lambda>_. [])\<rparr>"


subsection \<open>The rate of messages\<close>

definition deliveries :: "conn_effect list \<Rightarrow> int list" where
  "deliveries tr = List.map_filter (\<lambda>f. case f of Delivered t _ \<Rightarrow> Some t | _ \<Rightarrow> None) tr"

lemma deliveries_append [simp]: "deliveries (tr @ us) = deliveries tr @ deliveries us"
  by (simp add: deliveries_def List.map_filter_def)

lemma deliveries_Cons [simp]: "deliveries (f # us) = (case f of Delivered t _ \<Rightarrow> [t] | _ \<Rightarrow> []) @ deliveries us"
  by (simp add: deliveries_def List.map_filter_def split: conn_effect.splits)

lemma deliveries_Nil [simp]: "deliveries [] = []"
  by (simp add: deliveries_def List.map_filter_def)

text \<open>What everything but the count of messages leaves alone.\<close>

definition same_rate :: "connection \<Rightarrow> connection \<Rightarrow> bool" where
  "same_rate c c' \<longleftrightarrow> cn_rateWindowStartedAt c' = cn_rateWindowStartedAt c \<and> cn_rateMessages c' = cn_rateMessages c
     \<and> deliveries (cn_trace c') = deliveries (cn_trace c) \<and> cn_asked c \<le> cn_asked c'"

lemma same_rate_refl [simp]: "same_rate c c"
  by (simp add: same_rate_def)

lemma same_rate_trans: "same_rate c c' \<Longrightarrow> same_rate c' c'' \<Longrightarrow> same_rate c c''"
  by (simp add: same_rate_def)

lemma same_rate_closing:
  "same_rate c (close_conn code reason c)" "same_rate c (finish code reason c)" "same_rate c (destroy_conn c)" "same_rate c (close_and_destroy cc reason c)"
proof -
  show a: "same_rate c (close_conn code reason c)" for c code
    by (auto simp: same_rate_def close_conn_def write_close_frame_def conn_simps split: option.splits)
  show "same_rate c (finish code reason c)"
    by (auto simp: same_rate_def finish_def conn_simps)
  show b: "same_rate c (destroy_conn c)" for c
    by (auto simp: same_rate_def destroy_conn_def finish_def conn_simps Let_def)
  show "same_rate c (close_and_destroy cc reason c)"
    unfolding close_and_destroy_def by (rule same_rate_trans [OF a b])
qed

lemma same_rate_small:
  "same_rate c (asked c)" "same_rate c (touchIdle c)" "same_rate c (did (Wrote b) c)" "same_rate c (c\<lparr>cn_missedPongs := n\<rparr>)" "same_rate c (c\<lparr>cn_decoder := d\<rparr>)"
  by (auto simp: same_rate_def conn_simps)

lemma same_rate_send: "same_rate c (send_text e opts p c)"
  unfolding send_text_def writeBounded_def
  by (auto split: write_result.splits prod.splits if_splits intro: same_rate_trans [OF same_rate_small(1) same_rate_closing(4)]
      same_rate_trans [OF same_rate_small(1) same_rate_closing(3)]
      same_rate_trans [OF same_rate_small(1) same_rate_trans [OF same_rate_small(3) same_rate_closing(4)]]
      same_rate_trans [OF same_rate_small(1) same_rate_trans [OF same_rate_small(3) same_rate_small(2)]])

lemma same_rate_reacts: "same_rate c (foldl (react e opts) c rs)"
proof (induction rs arbitrary: c)
  case (Cons r rs)
  have "same_rate c (react e opts c r)" by (cases r) (simp_all add: react_def same_rate_send same_rate_closing)
  from same_rate_trans [OF this Cons] show ?case by simp
qed simp

text \<open>The windows of a run: each with its start, and the times of the messages counted in it.\<close>

type_synonym rate_window = "int \<times> int list"

definition windows_ok :: "int \<Rightarrow> nat \<Rightarrow> rate_window list \<Rightarrow> bool" where
  "windows_ok len limit gs \<longleftrightarrow> sorted_wrt (\<lambda>g h. fst g + len \<le> fst h) gs
     \<and> (\<forall>(s, ts) \<in> set gs. length ts \<le> limit \<and> (\<forall>t \<in> set ts. s \<le> t \<and> t < s + len))"

definition in_span :: "int \<Rightarrow> int \<Rightarrow> int list \<Rightarrow> nat" where
  "in_span a len ts = length (filter (\<lambda>t. a \<le> t \<and> t < a + len) ts)"

lemma in_span_append [simp]: "in_span a len (xs @ ys) = in_span a len xs + in_span a len ys"
  by (simp add: in_span_def)

lemma in_span_le: "in_span a len xs \<le> length xs"
  by (simp add: in_span_def)

lemma in_span_late: "\<forall>t \<in> set xs. a + len \<le> t \<Longrightarrow> in_span a len xs = 0"
  by (force simp: in_span_def filter_empty_conv)

lemma in_span_early: "\<forall>t \<in> set xs. t < a \<Longrightarrow> in_span a len xs = 0"
  by (force simp: in_span_def filter_empty_conv)

lemma windows_late:
  assumes "windows_ok len limit gs" "\<forall>g \<in> set gs. a + len \<le> fst g"
  shows "in_span a len (concat (map snd gs)) = 0"
  using assms by (intro in_span_late) (fastforce simp: windows_ok_def)

lemma windows_after:
  assumes "windows_ok len limit gs" "\<forall>g \<in> set gs. a \<le> fst g"
  shows "in_span a len (concat (map snd gs)) \<le> limit"
proof (cases gs)
  case (Cons g hs)
  have w: "windows_ok len limit hs" using assms(1) Cons by (auto simp: windows_ok_def)
  have "\<forall>h \<in> set hs. a + len \<le> fst h" using assms Cons by (fastforce simp: windows_ok_def)
  from windows_late [OF w this] have "in_span a len (concat (map snd gs)) = in_span a len (snd g)" using Cons by simp
  also have "\<dots> \<le> length (snd g)" by (rule in_span_le)
  also have "\<dots> \<le> limit" using assms(1) Cons by (cases g) (auto simp: windows_ok_def)
  finally show ?thesis .
qed (simp add: in_span_def)

lemma windows_bound: "windows_ok len limit gs \<Longrightarrow> in_span a len (concat (map snd gs)) \<le> 2 * limit"
proof (induction gs)
  case (Cons g gs)
  have w: "windows_ok len limit gs" using Cons.prems by (auto simp: windows_ok_def)
  have l: "length (snd g) \<le> limit" using Cons.prems by (cases g) (auto simp: windows_ok_def)
  show ?case
  proof (cases "fst g + len \<le> a")
    case True
    have "\<forall>t \<in> set (snd g). t < a" using Cons.prems True by (cases g) (fastforce simp: windows_ok_def)
    from in_span_early [OF this] Cons.IH [OF w] show ?thesis by simp
  next
    case False
    have "\<forall>h \<in> set gs. a \<le> fst h" using Cons.prems False by (fastforce simp: windows_ok_def)
    from windows_after [OF w this] in_span_le [of a len "snd g"] l show ?thesis by simp
  qed
qed (simp add: in_span_def)

definition rate_inv :: "conn_env \<Rightarrow> conn_options \<Rightarrow> connection \<Rightarrow> bool" where
  "rate_inv e opts c \<longleftrightarrow> (\<exists>gs ts j. windows_ok (co_messageWindowMs opts) (co_maxMessagesPerWindow opts) (gs @ [(cn_rateWindowStartedAt c, ts)])
     \<and> deliveries (cn_trace c) = concat (map snd gs) @ ts \<and> length ts \<le> cn_rateMessages c
     \<and> j < cn_asked c \<and> cn_rateWindowStartedAt c = ce_now e j)"

lemma rate_inv_same: "rate_inv e opts c \<Longrightarrow> same_rate c c' \<Longrightarrow> rate_inv e opts c'"
  unfolding rate_inv_def same_rate_def by (metis less_le_trans)

lemma windows_next:
  assumes "windows_ok len limit (gs @ [(s, ts)])" "s + len \<le> now" "0 < len"
  shows "windows_ok len limit ((gs @ [(s, ts)]) @ [(now, [])])"
  using assms by (fastforce simp: windows_ok_def sorted_wrt_append)

lemma windows_count:
  assumes "windows_ok len limit (gs @ [(s, ts)])" "s \<le> now" "now < s + len" "length ts < limit"
  shows "windows_ok len limit (gs @ [(s, ts @ [now])])"
  using assms by (auto simp: windows_ok_def sorted_wrt_append)

lemma consume_rate_inv:
  assumes m: "mono (ce_now e)" and w: "0 < co_messageWindowMs opts" and i: "rate_inv e opts c"
    and r: "consumeRate e opts c = (ok, c1)"
  shows "rate_inv e opts c1 \<and> (ok \<longrightarrow> same_rate c1 c2 \<longrightarrow> rate_inv e opts (did (Delivered (ce_now e (cn_asked c)) p) c2))"
proof -
  let ?now = "ce_now e (cn_asked c)"
  let ?W = "co_messageWindowMs opts" and ?L = "co_maxMessagesPerWindow opts" and ?s = "cn_rateWindowStartedAt c"
  from i obtain gs ts j where g: "windows_ok ?W ?L (gs @ [(?s, ts)])" "deliveries (cn_trace c) = concat (map snd gs) @ ts"
      "length ts \<le> cn_rateMessages c" "j < cn_asked c" "?s = ce_now e j"
    unfolding rate_inv_def by blast
  have s: "?s \<le> ?now" using g(4,5) monoD [OF m, of j "cn_asked c"] by simp
  show ?thesis
  proof (cases "?W \<le> ?now - ?s")
    case True
    then have n: "windows_ok ?W ?L ((gs @ [(?s, ts)]) @ [(?now, [])])" using windows_next [OF g(1) _ w] by simp
    have c1: "cn_rateWindowStartedAt c1 = ?now" "cn_rateMessages c1 = 1" "cn_asked c1 = Suc (cn_asked c)"
        "cn_trace c1 = cn_trace c" "ok \<longleftrightarrow> 1 \<le> ?L"
      using r True by (auto simp: consumeRate_def Let_def asked_def)
    have "rate_inv e opts c1"
      unfolding rate_inv_def by (rule exI [of _ "gs @ [(?s, ts)]"], rule exI [of _ "[]"], rule exI [of _ "cn_asked c"]) (use n c1 g in simp)
    moreover have "rate_inv e opts (did (Delivered ?now p) c2)" if ok "same_rate c1 c2"
      unfolding rate_inv_def
      by (rule exI [of _ "gs @ [(?s, ts)]"], rule exI [of _ "[?now]"], rule exI [of _ "cn_asked c"])
        (use windows_count [OF n, of ?now] w that c1 g in \<open>auto simp: same_rate_def did_def\<close>)
    ultimately show ?thesis by blast
  next
    case False
    have c1: "cn_rateWindowStartedAt c1 = ?s" "cn_rateMessages c1 = Suc (cn_rateMessages c)" "cn_asked c1 = Suc (cn_asked c)"
        "cn_trace c1 = cn_trace c" "ok \<longleftrightarrow> Suc (cn_rateMessages c) \<le> ?L"
      using r False by (auto simp: consumeRate_def Let_def asked_def)
    have "rate_inv e opts c1"
      unfolding rate_inv_def by (rule exI [of _ gs], rule exI [of _ ts], rule exI [of _ j]) (use c1 g in simp)
    moreover have "rate_inv e opts (did (Delivered ?now p) c2)" if ok "same_rate c1 c2"
      unfolding rate_inv_def
      by (rule exI [of _ gs], rule exI [of _ "ts @ [?now]"], rule exI [of _ j])
        (use windows_count [OF g(1), of ?now] s False that c1 g in \<open>auto simp: same_rate_def did_def\<close>)
    ultimately show ?thesis by blast
  qed
qed

lemma frames_rate:
  assumes m: "mono (ce_now e)" and w: "0 < co_messageWindowMs opts"
  shows "rate_inv e opts c \<Longrightarrow> rate_inv e opts (on_frames e opts c fs)"
proof (induction fs arbitrary: c)
  case (Cons f fs)
  show ?case
  proof (cases "df_opcode f")
    case OpText
    obtain ok c1 where r: "consumeRate e opts c = (ok, c1)" by fastforce
    note i = consume_rate_inv [OF m w Cons.prems r]
    have d: "rate_inv e opts (deliver e opts (ce_now e (cn_asked c)) (df_payload f) (touchIdle c1))" if ok
      unfolding deliver_def
      by (rule rate_inv_same [OF i [THEN conjunct2, rule_format, OF that same_rate_small(2)]])
        (rule same_rate_trans [OF same_rate_small(1) same_rate_reacts])
    show ?thesis
      using OpText r i Cons.IH [OF d] Cons.prems
      by (auto intro: rate_inv_same [OF _ same_rate_closing(4)])
  next
    case OpPing
    then show ?thesis using Cons.IH Cons.prems rate_inv_same [OF _ same_rate_small(3)] by auto
  next
    case OpPong
    then show ?thesis using Cons.IH [OF rate_inv_same [OF Cons.prems same_rate_small(4)]] by simp
  next
    case OpClose
    have "same_rate c (destroy_conn (if cn_state c = ConnOpen then
       write_close_frame code reason (stopHeartbeat (c\<lparr>cn_state := ConnClosing, cn_closeCode := code, cn_closeReason := reason\<rparr>)) else c))" for code reason
      by (auto simp: same_rate_def destroy_conn_def finish_def write_close_frame_def conn_simps Let_def split: option.splits)
    with OpClose Cons.prems show ?thesis by (auto intro: rate_inv_same split: prod.splits)
  next
    case OpBinary
    then show ?thesis using rate_inv_same [OF Cons.prems same_rate_closing(1)] by simp
  next
    case OpContinuation
    then show ?thesis using Cons by simp
  qed
qed simp

lemma step_rate:
  assumes mw: "mono (ce_now e)" "0 < co_messageWindowMs opts"
  shows "rate_inv e opts c \<Longrightarrow> rate_inv e opts (conn_step e opts c ev)"
proof (cases ev)
  case (DataArrives chunk)
  assume i: "rate_inv e opts c"
  then show ?thesis
    using DataArrives frames_rate [OF mw rate_inv_same [OF i same_rate_small(5)]] rate_inv_same [OF i same_rate_closing(4)]
    by (auto simp: onData_def split: sum.splits)
next
  case HeartbeatFires
  assume i: "rate_inv e opts c"
  then show ?thesis
    using HeartbeatFires rate_inv_same [OF i same_rate_closing(4)] rate_inv_same [OF i same_rate_trans [OF same_rate_small(4) same_rate_small(3)]]
    by (auto simp: heartbeat_fires_def)
next
  case IdleFires
  assume i: "rate_inv e opts c"
  have "same_rate c (c\<lparr>cn_idle := False\<rparr>)" by (simp add: same_rate_def)
  from rate_inv_same [OF i same_rate_trans [OF this same_rate_closing(4)]] i IdleFires show ?thesis by (auto simp: idle_fires_def)
next
  case AbsoluteFires
  assume i: "rate_inv e opts c"
  have "same_rate c (c\<lparr>cn_absolute := False\<rparr>)" by (simp add: same_rate_def)
  from rate_inv_same [OF i same_rate_trans [OF this same_rate_closing(4)]] i AbsoluteFires show ?thesis by (auto simp: absolute_fires_def)
qed (auto intro: rate_inv_same same_rate_send same_rate_closing)

lemma run_rate:
  assumes "mono (ce_now e)" "0 < co_messageWindowMs opts"
  shows "rate_inv e opts c \<Longrightarrow> rate_inv e opts (foldl (conn_step e opts) c evs)"
  by (induction evs arbitrary: c) (auto intro: step_rate [OF assms])

lemma new_connection_rate: "rate_inv e opts (new_connection e opts)"
  unfolding rate_inv_def
  by (rule exI [of _ "[]"], rule exI [of _ "[]"], rule exI [of _ 0]) (simp add: new_connection_def windows_ok_def)

text \<open>
  C19: The rate of messages is limited: with a clock that does not go back, no span as long as a rate
  window, wherever it starts, holds more than twice as many delivered messages as a window may.
\<close>
theorem message_rate_is_limited:
  assumes "mono (ce_now e)" "0 < co_messageWindowMs opts"
  shows "in_span a (co_messageWindowMs opts) (deliveries (cn_trace (foldl (conn_step e opts) (new_connection e opts) evs)))
     \<le> 2 * co_maxMessagesPerWindow opts"
proof -
  from run_rate [OF assms new_connection_rate] obtain gs ts s where
      "windows_ok (co_messageWindowMs opts) (co_maxMessagesPerWindow opts) (gs @ [(s, ts)])"
      "deliveries (cn_trace (foldl (conn_step e opts) (new_connection e opts) evs)) = concat (map snd gs) @ ts"
    unfolding rate_inv_def by blast
  with windows_bound [OF this(1), of a] show ?thesis by simp
qed

theorem message_rate_is_limited_witness:
  "in_span 0 10000 (deliveries (cn_trace (foldl (conn_step calm_env default_conn_options) (new_connection calm_env default_conn_options)
     [DataArrives (client_frame True OpText [0, 0, 0, 0] [7])]))) \<le> 2 * 200"
  using message_rate_is_limited [of calm_env default_conn_options 0 "[DataArrives (client_frame True OpText [0, 0, 0, 0] [7])]"]
  by (simp add: calm_env_def default_conn_options_def mono_def)

text \<open>
  The loop over the frames of one chunk does not ask for the state: a message is delivered in
  whatever state the handler of the one before it, in answering a slow consumer say, has left the
  connection, and the idle timer is set again.
\<close>

lemma delivered_in_any_state:
  assumes "df_opcode f = OpText" "length (df_payload f) \<le> co_maxControlBytes opts" "fst (consumeRate e opts c)" "ce_react e = (\<lambda>_ _. [])"
  shows "Delivered (ce_now e (cn_asked c)) (df_payload f) \<in> set (cn_trace (on_frames e opts c [f])) \<and> cn_idle (on_frames e opts c [f])"
  using assms by (cases "consumeRate e opts c") (simp add: deliver_def conn_simps)

end
