(* ===== verification/Simulation.thy ===== *)
theory Simulation
  imports Prelude
begin

text \<open>
  Components that implement an abstract machine: every step keeps the invariant and is matched by a
  step of the specification, so a whole run is.
\<close>

locale simulation = invariant_machine step ok inv
  for step :: "'s \<Rightarrow> 'i \<Rightarrow> 's" and ok :: "'s \<Rightarrow> 'i \<Rightarrow> bool" and inv :: "'s \<Rightarrow> bool" +
  fixes spec_step :: "'a \<Rightarrow> 'i \<Rightarrow> 'a"
    and abs_of :: "'s \<Rightarrow> 'a"
  assumes step_abs: "inv s \<Longrightarrow> ok s i \<Longrightarrow> abs_of (step s i) = spec_step (abs_of s) i"
begin

lemma run_abs: "inv s \<Longrightarrow> run_ok s is \<Longrightarrow> abs_of (foldl step s is) = foldl spec_step (abs_of s) is"
  by (induction "is" arbitrary: s) (simp_all add: step_abs step_inv)

lemma run_abs_inv: "inv s \<Longrightarrow> run_ok s is \<Longrightarrow> inv (foldl step s is) \<and> abs_of (foldl step s is) = foldl spec_step (abs_of s) is"
  using run_abs run_inv by blast

end

text \<open>A trace each of whose entries is in order after those before it.\<close>

fun checked :: "('m list \<Rightarrow> 'm \<Rightarrow> bool) \<Rightarrow> 'm list \<Rightarrow> 'm list \<Rightarrow> bool" where
  "checked ok past [] = True"
| "checked ok past (m # ms) = (ok past m \<and> checked ok (past @ [m]) ms)"

lemma checked_append [simp]: "checked ok past (ms @ ns) \<longleftrightarrow> checked ok past ms \<and> checked ok (past @ ms) ns"
  by (induction ms arbitrary: past) auto

text \<open>A JavaScript set: insertion order, no duplicates.\<close>

definition set_add :: "'a \<Rightarrow> 'a list \<Rightarrow> 'a list" where
  "set_add x xs = (if x \<in> set xs then xs else xs @ [x])"

definition set_delete :: "'a \<Rightarrow> 'a list \<Rightarrow> 'a list" where
  "set_delete x xs = filter (\<lambda>y. y \<noteq> x) xs"

lemma set_add_set [simp]: "set (set_add x xs) = insert x (set xs)"
  by (auto simp: set_add_def)

lemma set_delete_set [simp]: "set (set_delete x xs) = set xs - {x}"
  by (auto simp: set_delete_def)

lemma set_add_distinct [simp]: "distinct (set_add x xs) \<longleftrightarrow> distinct xs"
  by (auto simp: set_add_def)

lemma set_delete_distinct [simp]: "distinct xs \<Longrightarrow> distinct (set_delete x xs)"
  by (simp add: set_delete_def)

lemma set_add_not_Nil [simp]: "set_add x xs \<noteq> []"
  by (auto simp: set_add_def)

lemma set_delete_Nil: "set_delete x xs = [] \<longleftrightarrow> set xs \<subseteq> {x}"
  by (auto simp: set_delete_def filter_empty_conv)

lemma delete_id: "map_of al k = None \<Longrightarrow> AList.delete k al = al"
  by (induction al) (auto split: if_splits)

lemma distinct_keys_update: "distinct (map fst al) \<Longrightarrow> distinct (map fst (AList.update k v al))"
  by (rule distinct_update)

lemma distinct_keys_delete: "distinct (map fst al) \<Longrightarrow> distinct (map fst (AList.delete k al))"
  by (rule distinct_delete)

end
