(* ===== verification/Subscriptions.thy ===== *)
theory Subscriptions
  imports Simulation
begin

text \<open>
  Who receives what (\<open>packages/server/src/events/subscriptions.ts\<close>): the connections, the spaces each
  is subscribed to, the reverse index from spaces, and the two fan-outs. Whether a sink is open and
  whether a write to it succeeds are parameters, by connection id.
\<close>

record subscription_state =
  ss_spaces :: "string list"
  ss_presence :: bool

record registry =
  rg_byConnId :: "(string \<times> subscription_state) list"
  rg_bySpace :: "(string \<times> string list) list"

definition new_registry :: registry where
  "new_registry = \<lparr>rg_byConnId = [], rg_bySpace = []\<rparr>"

definition conn_at :: "registry \<Rightarrow> string \<Rightarrow> subscription_state option" where
  "conn_at r c = map_of (rg_byConnId r) c"

definition members_at :: "registry \<Rightarrow> string \<Rightarrow> string list option" where
  "members_at r s = map_of (rg_bySpace r) s"

definition add_conn :: "string \<Rightarrow> registry \<Rightarrow> registry" where
  "add_conn c r =
     (if conn_at r c \<noteq> None then r
      else r\<lparr>rg_byConnId := AList.update c \<lparr>ss_spaces = [], ss_presence = False\<rparr> (rg_byConnId r)\<rparr>)"

definition detach :: "string \<Rightarrow> string \<Rightarrow> registry \<Rightarrow> registry" where
  "detach c s r = (case members_at r s of
      None \<Rightarrow> r
    | Some members \<Rightarrow>
        let members' = set_delete c members in
        if members' = [] then r\<lparr>rg_bySpace := AList.delete s (rg_bySpace r)\<rparr>
        else r\<lparr>rg_bySpace := AList.update s members' (rg_bySpace r)\<rparr>)"

definition remove_conn :: "string \<Rightarrow> registry \<Rightarrow> registry" where
  "remove_conn c r = (case conn_at r c of
      None \<Rightarrow> r
    | Some st \<Rightarrow>
        let r1 = fold (detach c) (ss_spaces st) r
        in r1\<lparr>rg_byConnId := AList.delete c (rg_byConnId r1)\<rparr>)"

definition subscribe :: "string \<Rightarrow> string \<Rightarrow> registry \<Rightarrow> registry" where
  "subscribe c s r = (case conn_at r c of
      None \<Rightarrow> r
    | Some st \<Rightarrow>
        let members = (case members_at r s of None \<Rightarrow> [] | Some ms \<Rightarrow> ms)
        in r\<lparr>rg_byConnId := AList.update c (st\<lparr>ss_spaces := set_add s (ss_spaces st)\<rparr>) (rg_byConnId r),
             rg_bySpace := AList.update s (set_add c members) (rg_bySpace r)\<rparr>)"

definition unsubscribe :: "string \<Rightarrow> string \<Rightarrow> registry \<Rightarrow> registry" where
  "unsubscribe c s r = (case conn_at r c of
      None \<Rightarrow> r
    | Some st \<Rightarrow>
        detach c s (r\<lparr>rg_byConnId := AList.update c (st\<lparr>ss_spaces := set_delete s (ss_spaces st)\<rparr>) (rg_byConnId r)\<rparr>))"

definition subscribePresence :: "string \<Rightarrow> bool \<Rightarrow> registry \<Rightarrow> registry" where
  "subscribePresence c on r = (case conn_at r c of
      None \<Rightarrow> r
    | Some st \<Rightarrow> r\<lparr>rg_byConnId := AList.update c (st\<lparr>ss_presence := on\<rparr>) (rg_byConnId r)\<rparr>)"

definition connectionsFor :: "(string \<Rightarrow> bool) \<Rightarrow> registry \<Rightarrow> string \<Rightarrow> string list" where
  "connectionsFor isOpen r s = (case members_at r s of
      None \<Rightarrow> []
    | Some ms \<Rightarrow> filter (\<lambda>c. conn_at r c \<noteq> None \<and> isOpen c) ms)"

definition presenceConnectionsFor :: "(string \<Rightarrow> bool) \<Rightarrow> registry \<Rightarrow> string \<Rightarrow> string list" where
  "presenceConnectionsFor isOpen r s = (case members_at r s of
      None \<Rightarrow> []
    | Some ms \<Rightarrow> filter (\<lambda>c. case conn_at r c of Some st \<Rightarrow> ss_presence st \<and> isOpen c | None \<Rightarrow> False) ms)"

definition spacesFor :: "registry \<Rightarrow> string \<Rightarrow> string list" where
  "spacesFor r c = (case conn_at r c of None \<Rightarrow> [] | Some st \<Rightarrow> ss_spaces st)"

definition has_conn :: "registry \<Rightarrow> string \<Rightarrow> bool" where
  "has_conn r c \<longleftrightarrow> conn_at r c \<noteq> None"

definition registry_size :: "registry \<Rightarrow> nat" where
  "registry_size r = length (rg_byConnId r)"

definition sinks :: "registry \<Rightarrow> string list" where
  "sinks r = map fst (rg_byConnId r)"

text \<open>A fan-out: the writes that succeeded and their number; a failed write does not stop the rest.\<close>

definition fanOutDurable :: "(string \<Rightarrow> bool) \<Rightarrow> (string \<Rightarrow> bool) \<Rightarrow> registry \<Rightarrow> string \<Rightarrow> nat \<times> string list" where
  "fanOutDurable isOpen sends r s = (let sent = filter sends (connectionsFor isOpen r s) in (length sent, sent))"

definition fanOutPresence :: "(string \<Rightarrow> bool) \<Rightarrow> (string \<Rightarrow> bool) \<Rightarrow> registry \<Rightarrow> string \<Rightarrow> nat \<times> string list" where
  "fanOutPresence isOpen sends r s = (let sent = filter sends (presenceConnectionsFor isOpen r s) in (length sent, sent))"

datatype registry_op =
    Add string | Remove string | Subscribe string string | Unsubscribe string string | Presence string bool

fun registry_step :: "registry \<Rightarrow> registry_op \<Rightarrow> registry" where
  "registry_step r (Add c) = add_conn c r"
| "registry_step r (Remove c) = remove_conn c r"
| "registry_step r (Subscribe c s) = subscribe c s r"
| "registry_step r (Unsubscribe c s) = unsubscribe c s r"
| "registry_step r (Presence c on) = subscribePresence c on r"

subsection \<open>The specification\<close>

text \<open>Connections, the pairs of a connection and a space it wants, and the connections with presence.\<close>

record subscription_spec =
  sp_conns :: "string set"
  sp_subs :: "(string \<times> string) set"
  sp_presence :: "string set"

fun spec_step :: "subscription_spec \<Rightarrow> registry_op \<Rightarrow> subscription_spec" where
  "spec_step a (Add c) = a\<lparr>sp_conns := insert c (sp_conns a)\<rparr>"
| "spec_step a (Remove c) = a\<lparr>sp_conns := sp_conns a - {c}, sp_subs := {(d, s) \<in> sp_subs a. d \<noteq> c}, sp_presence := sp_presence a - {c}\<rparr>"
| "spec_step a (Subscribe c s) = (if c \<in> sp_conns a then a\<lparr>sp_subs := insert (c, s) (sp_subs a)\<rparr> else a)"
| "spec_step a (Unsubscribe c s) = (if c \<in> sp_conns a then a\<lparr>sp_subs := sp_subs a - {(c, s)}\<rparr> else a)"
| "spec_step a (Presence c on) =
     (if c \<in> sp_conns a then a\<lparr>sp_presence := (if on then insert c (sp_presence a) else sp_presence a - {c})\<rparr> else a)"

definition registry_abs :: "registry \<Rightarrow> subscription_spec" where
  "registry_abs r = \<lparr>sp_conns = {c. conn_at r c \<noteq> None},
     sp_subs = {(c, s). \<exists>st. conn_at r c = Some st \<and> s \<in> set (ss_spaces st)},
     sp_presence = {c. \<exists>st. conn_at r c = Some st \<and> ss_presence st}\<rparr>"

text \<open>The reverse index is exact: a space lists just the connections that want it, once each.\<close>

definition registry_inv :: "registry \<Rightarrow> bool" where
  "registry_inv r \<longleftrightarrow> (\<forall>c st. conn_at r c = Some st \<longrightarrow> distinct (ss_spaces st))
     \<and> (\<forall>s ms. members_at r s = Some ms \<longrightarrow> distinct ms \<and> ms \<noteq> [])
     \<and> (\<forall>c s. (\<exists>ms. members_at r s = Some ms \<and> c \<in> set ms) \<longleftrightarrow> (\<exists>st. conn_at r c = Some st \<and> s \<in> set (ss_spaces st)))"

definition wants :: "registry \<Rightarrow> string \<Rightarrow> string \<Rightarrow> bool" where
  "wants r c s \<longleftrightarrow> (\<exists>ms. members_at r s = Some ms \<and> c \<in> set ms)"

lemma detach_simps:
  "rg_byConnId (detach c s r) = rg_byConnId r" "conn_at (detach c s r) = conn_at r"
  by (simp_all add: detach_def conn_at_def Let_def fun_eq_iff split: option.splits)

lemma members_detach:
  "members_at (detach c s r) s' = (if s' = s then (case members_at r s of None \<Rightarrow> None
      | Some ms \<Rightarrow> if set_delete c ms = [] then None else Some (set_delete c ms)) else members_at r s')"
  by (auto simp: detach_def members_at_def Let_def split: option.splits)

lemma wants_detach: "wants (detach c s r) d s' \<longleftrightarrow> wants r d s' \<and> \<not> (d = c \<and> s' = s)"
  by (auto simp: wants_def members_detach set_delete_Nil split: option.splits if_splits)

definition sets_ok :: "registry \<Rightarrow> bool" where
  "sets_ok r \<longleftrightarrow> (\<forall>s ms. members_at r s = Some ms \<longrightarrow> distinct ms \<and> ms \<noteq> [])"

lemma sets_ok_detach: "sets_ok r \<Longrightarrow> sets_ok (detach c s r)"
  by (auto simp: sets_ok_def members_detach split: option.splits if_splits)

lemma fold_detach:
  "conn_at (fold (detach c) ss r) = conn_at r"
  "sets_ok r \<Longrightarrow> sets_ok (fold (detach c) ss r)"
  "wants (fold (detach c) ss r) d s \<longleftrightarrow> wants r d s \<and> \<not> (d = c \<and> s \<in> set ss)"
  by (induction ss arbitrary: r) (auto simp: detach_simps sets_ok_detach wants_detach)

lemma registry_inv_alt:
  "registry_inv r \<longleftrightarrow> (\<forall>c st. conn_at r c = Some st \<longrightarrow> distinct (ss_spaces st)) \<and> sets_ok r
     \<and> (\<forall>c s. wants r c s \<longleftrightarrow> (\<exists>st. conn_at r c = Some st \<and> s \<in> set (ss_spaces st)))"
  by (simp add: registry_inv_def sets_ok_def wants_def)

lemma conn_update: "conn_at (r\<lparr>rg_byConnId := AList.update c st (rg_byConnId r)\<rparr>) d = (if d = c then Some st else conn_at r d)"
  "conn_at (r\<lparr>rg_byConnId := AList.delete c (rg_byConnId r)\<rparr>) d = (if d = c then None else conn_at r d)"
  by (auto simp: conn_at_def)

lemma registry_step_ok:
  assumes i: "registry_inv r"
  shows "registry_inv (registry_step r op) \<and> registry_abs (registry_step r op) = spec_step (registry_abs r) op"
proof -
  have d: "\<And>c st. conn_at r c = Some st \<Longrightarrow> distinct (ss_spaces st)" and so: "sets_ok r"
    and w: "\<And>c s. wants r c s \<longleftrightarrow> (\<exists>st. conn_at r c = Some st \<and> s \<in> set (ss_spaces st))"
    using i by (auto simp: registry_inv_alt)
  have mem: "members_at (q\<lparr>rg_byConnId := cs\<rparr>) = members_at q" "wants (q\<lparr>rg_byConnId := cs\<rparr>) = wants q"
    "sets_ok (q\<lparr>rg_byConnId := cs\<rparr>) = sets_ok q" for cs and q :: registry
    by (simp_all add: members_at_def wants_def sets_ok_def fun_eq_iff)
  show ?thesis
  proof (cases op)
    case (Add c)
    show ?thesis
    proof (cases "conn_at r c")
      case None
      define r1 where "r1 = r\<lparr>rg_byConnId := AList.update c \<lparr>ss_spaces = [], ss_presence = False\<rparr> (rg_byConnId r)\<rparr>"
      have r1: "conn_at r1 e = (if e = c then Some \<lparr>ss_spaces = [], ss_presence = False\<rparr> else conn_at r e)" for e
        by (simp add: r1_def conn_update)
      have "wants r1 = wants r" "sets_ok r1" using so by (simp_all add: r1_def mem)
      then have "registry_inv r1" using d None by (auto simp: registry_inv_alt r1 w)
      moreover have "registry_abs r1 = spec_step (registry_abs r) op" using None by (auto simp: registry_abs_def r1 Add split: if_splits)
      ultimately show ?thesis using None by (simp add: Add add_conn_def r1_def)
    next
      case (Some st)
      then show ?thesis using i by (auto simp: Add add_conn_def registry_abs_def)
    qed
  next
    case (Remove c)
    show ?thesis
    proof (cases "conn_at r c")
      case None
      then show ?thesis using i by (auto simp: Remove remove_conn_def registry_abs_def)
    next
      case (Some st)
      define r1 where "r1 = fold (detach c) (ss_spaces st) r"
      define r2 where "r2 = r1\<lparr>rg_byConnId := AList.delete c (rg_byConnId r1)\<rparr>"
      have r2: "conn_at r2 e = (if e = c then None else conn_at r e)" for e
        by (simp add: r2_def conn_update r1_def fold_detach)
      have "wants r2 e s \<longleftrightarrow> wants r e s \<and> \<not> (e = c \<and> s \<in> set (ss_spaces st))" for e s
        unfolding r2_def mem r1_def by (rule fold_detach)
      moreover have "sets_ok r2" unfolding r2_def mem r1_def by (rule fold_detach(2) [OF so])
      ultimately have "registry_inv r2" using d Some by (auto simp: registry_inv_alt r2 w)
      moreover have "registry_abs r2 = spec_step (registry_abs r) op" by (auto simp: registry_abs_def r2 Remove split: if_splits)
      ultimately show ?thesis using Some by (simp add: Remove remove_conn_def r2_def r1_def Let_def)
    qed
  next
    case (Subscribe c s)
    show ?thesis
    proof (cases "conn_at r c")
      case None
      then show ?thesis using i by (auto simp: Subscribe subscribe_def registry_abs_def)
    next
      case (Some st)
      define members where "members = (case members_at r s of None \<Rightarrow> [] | Some ms \<Rightarrow> ms)"
      define r1 where "r1 = r\<lparr>rg_byConnId := AList.update c (st\<lparr>ss_spaces := set_add s (ss_spaces st)\<rparr>) (rg_byConnId r),
        rg_bySpace := AList.update s (set_add c members) (rg_bySpace r)\<rparr>"
      have r1: "conn_at r1 e = (if e = c then Some (st\<lparr>ss_spaces := set_add s (ss_spaces st)\<rparr>) else conn_at r e)"
        "members_at r1 t = (if t = s then Some (set_add c members) else members_at r t)" for e t
        by (simp_all add: r1_def conn_at_def members_at_def)
      have m: "distinct members" "e \<in> set members \<longleftrightarrow> wants r e s" for e
        using so by (cases "members_at r s"; simp add: members_def sets_ok_def wants_def)+
      have "wants r1 e t \<longleftrightarrow> wants r e t \<or> (e = c \<and> t = s)" for e t using m(2) by (auto simp: wants_def r1)
      moreover have "sets_ok r1" using so m(1) by (auto simp: sets_ok_def r1)
      ultimately have "registry_inv r1" using d Some by (auto simp: registry_inv_alt r1 w)
      moreover have "registry_abs r1 = spec_step (registry_abs r) op" using Some by (auto simp: registry_abs_def r1 Subscribe split: if_splits)
      ultimately show ?thesis using Some by (simp add: Subscribe subscribe_def r1_def members_def Let_def)
    qed
  next
    case (Unsubscribe c s)
    show ?thesis
    proof (cases "conn_at r c")
      case None
      then show ?thesis using i by (auto simp: Unsubscribe unsubscribe_def registry_abs_def)
    next
      case (Some st)
      define r0 where "r0 = r\<lparr>rg_byConnId := AList.update c (st\<lparr>ss_spaces := set_delete s (ss_spaces st)\<rparr>) (rg_byConnId r)\<rparr>"
      define r1 where "r1 = detach c s r0"
      have r1: "conn_at r1 e = (if e = c then Some (st\<lparr>ss_spaces := set_delete s (ss_spaces st)\<rparr>) else conn_at r e)" for e
        by (simp add: r1_def detach_simps r0_def conn_update)
      have "wants r1 e t \<longleftrightarrow> wants r e t \<and> \<not> (e = c \<and> t = s)" for e t by (simp add: r1_def wants_detach r0_def mem)
      moreover have "sets_ok r1" using so sets_ok_detach [of r0 c s] by (simp add: r1_def r0_def mem)
      ultimately have "registry_inv r1" using d Some by (auto simp: registry_inv_alt r1 w)
      moreover have "registry_abs r1 = spec_step (registry_abs r) op" using Some by (auto simp: registry_abs_def r1 Unsubscribe split: if_splits)
      ultimately show ?thesis using Some by (simp add: Unsubscribe unsubscribe_def r1_def r0_def)
    qed
  next
    case (Presence c on)
    show ?thesis
    proof (cases "conn_at r c")
      case None
      then show ?thesis using i by (auto simp: Presence subscribePresence_def registry_abs_def)
    next
      case (Some st)
      define r1 where "r1 = r\<lparr>rg_byConnId := AList.update c (st\<lparr>ss_presence := on\<rparr>) (rg_byConnId r)\<rparr>"
      have r1: "conn_at r1 e = (if e = c then Some (st\<lparr>ss_presence := on\<rparr>) else conn_at r e)" for e
        by (simp add: r1_def conn_update)
      have "wants r1 = wants r" "sets_ok r1" using so by (simp_all add: r1_def mem)
      then have "registry_inv r1" using d Some by (auto simp: registry_inv_alt r1 w)
      moreover have "registry_abs r1 = spec_step (registry_abs r) op" using Some by (auto simp: registry_abs_def r1 Presence split: if_splits)
      ultimately show ?thesis using Some by (simp add: Presence subscribePresence_def r1_def)
    qed
  qed
qed

interpretation subs: simulation registry_step "\<lambda>_ _. True" registry_inv spec_step registry_abs
  by unfold_locales (use registry_step_ok in blast)+

definition spec_run :: "registry_op list \<Rightarrow> subscription_spec" where
  "spec_run ops = foldl spec_step \<lparr>sp_conns = {}, sp_subs = {}, sp_presence = {}\<rparr> ops"

lemma registry_runs:
  "registry_inv (foldl registry_step new_registry ops) \<and> registry_abs (foldl registry_step new_registry ops) = spec_run ops"
proof -
  have n: "registry_inv new_registry" "registry_abs new_registry = \<lparr>sp_conns = {}, sp_subs = {}, sp_presence = {}\<rparr>"
    by (simp_all add: new_registry_def registry_inv_def registry_abs_def conn_at_def members_at_def)
  have "subs.run_ok r ops" for r by (induction ops arbitrary: r) auto
  from subs.run_abs_inv [OF n(1) this] show ?thesis by (simp add: n spec_run_def)
qed

text \<open>
  C16: After any calls, an event of a space goes to just the open connections that are subscribed to
  it, once each, and a presence event to just those of them that asked for presence.
\<close>
theorem fan_out_exact:
  "let r = foldl registry_step new_registry ops in
     distinct (connectionsFor isOpen r space) \<and> distinct (presenceConnectionsFor isOpen r space)
     \<and> set (connectionsFor isOpen r space) = {c. (c, space) \<in> sp_subs (spec_run ops) \<and> isOpen c}
     \<and> set (presenceConnectionsFor isOpen r space)
         = {c. (c, space) \<in> sp_subs (spec_run ops) \<and> c \<in> sp_presence (spec_run ops) \<and> isOpen c}"
proof -
  define r where "r = foldl registry_step new_registry ops"
  have i: "registry_inv r" and a: "registry_abs r = spec_run ops" using registry_runs by (simp_all add: r_def)
  have s: "(c, s) \<in> sp_subs (spec_run ops) \<longleftrightarrow> wants r c s" for c s
    using i unfolding a [symmetric] by (simp add: registry_abs_def registry_inv_alt)
  have p: "c \<in> sp_presence (spec_run ops) \<longleftrightarrow> (\<exists>st. conn_at r c = Some st \<and> ss_presence st)" for c
    unfolding a [symmetric] by (simp add: registry_abs_def)
  have c: "members_at r s = Some ms \<Longrightarrow> c \<in> set ms \<Longrightarrow> \<exists>st. conn_at r c = Some st" for c s ms
    using i unfolding registry_inv_def by blast
  have d: "members_at r space = Some ms \<Longrightarrow> distinct ms" for ms using i by (simp add: registry_inv_def)
  show ?thesis unfolding r_def [symmetric] Let_def
    using d c by (auto simp: s p connectionsFor_def presenceConnectionsFor_def wants_def split: option.splits)
qed

text \<open>What a fan-out counts is what it wrote, and a failed write costs no one else the event.\<close>

lemma fan_out_counts:
  "fst (fanOutDurable isOpen sends r s) = length (snd (fanOutDurable isOpen sends r s))"
  "set (snd (fanOutDurable isOpen sends r s)) = {c \<in> set (connectionsFor isOpen r s). sends c}"
  "set (snd (fanOutPresence isOpen sends r s)) \<subseteq> set (snd (fanOutDurable isOpen sends r s))"
  by (auto simp: fanOutDurable_def fanOutPresence_def Let_def connectionsFor_def presenceConnectionsFor_def split: option.splits)

end
