(* ===== verification/Presence.thy ===== *)
theory Presence
  imports Simulation
begin

text \<open>
  The ephemeral side of events: the presence store (\<open>packages/server/src/events/presence.ts\<close>) and the
  counter of the presence channel (\<open>seq.ts\<close>). Times are milliseconds.
\<close>

subsection \<open>The store\<close>

record assertion =
  as_spaceId :: string
  as_entityId :: string
  as_connId :: string
  as_identityId :: "string option"
  as_viewing :: bool
  as_typing :: bool

record entry =
  en_identityId :: "string option"
  en_viewing :: bool
  en_typing :: bool
  en_at :: int

record presence_at =
  pa_viewers :: "string list"
  pa_typing :: "string list"
  pa_updatedAt :: int

text \<open>The composite key; its separator is a NUL, which no id holds.\<close>

definition keyOf :: "string \<Rightarrow> string \<Rightarrow> string" where
  "keyOf spaceId entityId = spaceId @ CHR 0x00 # entityId"

record presence_store =
  pr_byEntity :: "(string \<times> (string \<times> entry) list) list"
  pr_byConn :: "(string \<times> string list) list"
  pr_staleAfterMs :: int

definition DEFAULT_PRESENCE_STALE_MS :: int where "DEFAULT_PRESENCE_STALE_MS = 60000"

definition new_presence :: "int option \<Rightarrow> presence_store" where
  "new_presence stale = \<lparr>pr_byEntity = [], pr_byConn = [],
     pr_staleAfterMs = (case stale of None \<Rightarrow> DEFAULT_PRESENCE_STALE_MS | Some ms \<Rightarrow> ms)\<rparr>"

definition entries_at :: "presence_store \<Rightarrow> string \<Rightarrow> (string \<times> entry) list option" where
  "entries_at p k = map_of (pr_byEntity p) k"

definition keys_at :: "presence_store \<Rightarrow> string \<Rightarrow> string list option" where
  "keys_at p c = map_of (pr_byConn p) c"

text \<open>Taking a connection out of an entity's entries, and the entity out when none is left.\<close>

definition drop_entry :: "string \<Rightarrow> string \<Rightarrow> presence_store \<Rightarrow> presence_store" where
  "drop_entry c k p = (case entries_at p k of
      None \<Rightarrow> p
    | Some es \<Rightarrow>
        let es' = AList.delete c es in
        if es' = [] then p\<lparr>pr_byEntity := AList.delete k (pr_byEntity p)\<rparr>
        else p\<lparr>pr_byEntity := AList.update k es' (pr_byEntity p)\<rparr>)"

definition set_presence :: "int \<Rightarrow> assertion \<Rightarrow> presence_store \<Rightarrow> presence_store" where
  "set_presence now a p =
     (let k = keyOf (as_spaceId a) (as_entityId a); c = as_connId a in
      if \<not> as_viewing a \<and> \<not> as_typing a then
        (let p1 = drop_entry c k p in
         case keys_at p1 c of
           None \<Rightarrow> p1
         | Some ks \<Rightarrow> p1\<lparr>pr_byConn := AList.update c (set_delete k ks) (pr_byConn p1)\<rparr>)
      else
        let es = (case entries_at p k of None \<Rightarrow> [] | Some es \<Rightarrow> es);
            ks = (case keys_at p c of None \<Rightarrow> [] | Some ks \<Rightarrow> ks)
        in p\<lparr>pr_byEntity := AList.update k (AList.update c
               \<lparr>en_identityId = as_identityId a, en_viewing = as_viewing a, en_typing = as_typing a, en_at = now\<rparr> es) (pr_byEntity p),
             pr_byConn := AList.update c (set_add k ks) (pr_byConn p)\<rparr>)"

text \<open>
  Reading an entity, which also deletes the stale entries of that entity; the entity itself stays
  even when none is left. The time of the latest assertion, or the epoch.
\<close>

fun read_entries :: "int \<Rightarrow> (string \<times> entry) list \<Rightarrow> string list \<Rightarrow> string list \<Rightarrow> int \<Rightarrow> presence_at" where
  "read_entries cutoff [] viewers typing latest = \<lparr>pa_viewers = viewers, pa_typing = typing, pa_updatedAt = latest\<rparr>"
| "read_entries cutoff ((c, e) # es) viewers typing latest =
     (if en_at e < cutoff then read_entries cutoff es viewers typing latest
      else (case en_identityId e of
          None \<Rightarrow> read_entries cutoff es viewers typing latest
        | Some i \<Rightarrow> read_entries cutoff es (if en_viewing e then set_add i viewers else viewers)
              (if en_typing e then set_add i typing else typing) (if en_at e > latest then en_at e else latest)))"

definition presence_of :: "int \<Rightarrow> string \<Rightarrow> string \<Rightarrow> presence_store \<Rightarrow> presence_at \<times> presence_store" where
  "presence_of now spaceId entityId p =
     (let k = keyOf spaceId entityId in
      case entries_at p k of
        None \<Rightarrow> (\<lparr>pa_viewers = [], pa_typing = [], pa_updatedAt = 0\<rparr>, p)
      | Some es \<Rightarrow>
          let cutoff = now - pr_staleAfterMs p in
          (read_entries cutoff es [] [] 0,
           p\<lparr>pr_byEntity := AList.update k (filter (\<lambda>(c, e). \<not> en_at e < cutoff) es) (pr_byEntity p)\<rparr>))"

definition dropConnection :: "string \<Rightarrow> presence_store \<Rightarrow> presence_store" where
  "dropConnection c p = (case keys_at p c of
      None \<Rightarrow> p
    | Some ks \<Rightarrow> let p1 = fold (drop_entry c) ks p in p1\<lparr>pr_byConn := AList.delete c (pr_byConn p1)\<rparr>)"

datatype presence_op = SetPresence int assertion | ReadPresence int string string | DropConnection string

fun presence_step :: "presence_store \<Rightarrow> presence_op \<Rightarrow> presence_store" where
  "presence_step p (SetPresence now a) = set_presence now a p"
| "presence_step p (ReadPresence now s e) = snd (presence_of now s e p)"
| "presence_step p (DropConnection c) = dropConnection c p"

subsection \<open>The channel counter\<close>

type_synonym counters = "(string \<times> nat) list"

definition next_seq :: "string \<Rightarrow> counters \<Rightarrow> nat \<times> counters" where
  "next_seq spaceId cs = (let v = (case map_of cs spaceId of None \<Rightarrow> 0 | Some n \<Rightarrow> n) + 1 in (v, AList.update spaceId v cs))"

definition peek_seq :: "string \<Rightarrow> counters \<Rightarrow> nat" where
  "peek_seq spaceId cs = (case map_of cs spaceId of None \<Rightarrow> 0 | Some n \<Rightarrow> n)"

subsection \<open>Invariant and specification\<close>

text \<open>
  The back index of a connection covers every key it has an entry at, so that a close finds them all;
  no entity lists a connection twice.
\<close>

definition entry_at :: "presence_store \<Rightarrow> string \<Rightarrow> string \<Rightarrow> entry option" where
  "entry_at p k c = (case entries_at p k of None \<Rightarrow> None | Some es \<Rightarrow> map_of es c)"

definition presence_inv :: "presence_store \<Rightarrow> bool" where
  "presence_inv p \<longleftrightarrow> (\<forall>k es. entries_at p k = Some es \<longrightarrow> distinct (map fst es))
     \<and> (\<forall>k c e. entry_at p k c = Some e \<longrightarrow> (\<exists>ks. keys_at p c = Some ks \<and> k \<in> set ks))"

text \<open>The specification: who asserted what last, at which key.\<close>

type_synonym presence_spec = "string \<times> string \<Rightarrow> entry option"

definition presence_abs :: "presence_store \<Rightarrow> presence_spec" where
  "presence_abs p = (\<lambda>(k, c). entry_at p k c)"

lemma entry_drop: "entry_at (drop_entry c k p) k' c' = (if k' = k \<and> c' = c then None else entry_at p k' c')"
proof (cases "entries_at p k")
  case None
  then show ?thesis by (auto simp: drop_entry_def entry_at_def)
next
  case (Some es)
  show ?thesis
  proof (cases "AList.delete c es = []")
    case True
    then have "map_of es d = None" if "d \<noteq> c" for d using that map_of_delete [of c es] by (metis fun_upd_other map_of.simps(1))
    then show ?thesis using Some True by (auto simp: drop_entry_def entry_at_def entries_at_def Let_def split: option.splits)
  next
    case False
    then show ?thesis using Some by (auto simp: drop_entry_def entry_at_def entries_at_def Let_def split: option.splits)
  qed
qed

lemma drop_other: "pr_byConn (drop_entry c k p) = pr_byConn p" "keys_at (drop_entry c k p) = keys_at p"
  "pr_staleAfterMs (drop_entry c k p) = pr_staleAfterMs p"
  by (auto simp: drop_entry_def keys_at_def Let_def split: option.splits)

definition lists_ok :: "presence_store \<Rightarrow> bool" where
  "lists_ok p \<longleftrightarrow> (\<forall>k es. entries_at p k = Some es \<longrightarrow> distinct (map fst es))"

lemma lists_drop: "lists_ok p \<Longrightarrow> lists_ok (drop_entry c k p)"
  by (auto simp: lists_ok_def drop_entry_def entries_at_def Let_def distinct_keys_delete split: option.splits if_splits)

lemma fold_drop:
  "entry_at (fold (drop_entry c) ks p) k c' = (if c' = c \<and> k \<in> set ks then None else entry_at p k c')"
  "keys_at (fold (drop_entry c) ks p) = keys_at p" "pr_byConn (fold (drop_entry c) ks p) = pr_byConn p"
  "lists_ok p \<Longrightarrow> lists_ok (fold (drop_entry c) ks p)"
  by (induction ks arbitrary: p) (auto simp: entry_drop drop_other lists_drop)

fun spec_op :: "int \<Rightarrow> presence_spec \<Rightarrow> presence_op \<Rightarrow> presence_spec" where
  "spec_op stale a (SetPresence now x) = a((keyOf (as_spaceId x) (as_entityId x), as_connId x) :=
     (if as_viewing x \<or> as_typing x
      then Some \<lparr>en_identityId = as_identityId x, en_viewing = as_viewing x, en_typing = as_typing x, en_at = now\<rparr> else None))"
| "spec_op stale a (ReadPresence now s e) = (\<lambda>(k, c). if k = keyOf s e then
     (case a (k, c) of Some x \<Rightarrow> if en_at x < now - stale then None else Some x | None \<Rightarrow> None) else a (k, c))"
| "spec_op stale a (DropConnection c) = (\<lambda>(k, d). if d = c then None else a (k, d))"

lemma presence_inv_alt:
  "presence_inv p \<longleftrightarrow> lists_ok p \<and> (\<forall>k c e. entry_at p k c = Some e \<longrightarrow> (\<exists>ks. keys_at p c = Some ks \<and> k \<in> set ks))"
  by (simp add: presence_inv_def lists_ok_def)

lemma byConn_only: "entry_at (p\<lparr>pr_byConn := x\<rparr>) = entry_at p" "lists_ok (p\<lparr>pr_byConn := x\<rparr>) = lists_ok p"
  by (simp_all add: entry_at_def entries_at_def lists_ok_def fun_eq_iff)

lemma set_presence_ok:
  assumes i: "presence_inv p"
  shows "presence_inv (set_presence now x p) \<and> presence_abs (set_presence now x p) = spec_op stale (presence_abs p) (SetPresence now x)"
proof -
  have lo: "lists_ok p" and cover: "\<And>k c e. entry_at p k c = Some e \<Longrightarrow> \<exists>ks. keys_at p c = Some ks \<and> k \<in> set ks"
    using i by (auto simp: presence_inv_alt)
  define k where "k = keyOf (as_spaceId x) (as_entityId x)"
  define c where "c = as_connId x"
  define p' where "p' = set_presence now x p"
  show ?thesis
  proof (cases "as_viewing x \<or> as_typing x")
    case False
    define p1 where "p1 = drop_entry c k p"
    have p': "p' = (case keys_at p1 c of None \<Rightarrow> p1 | Some ks \<Rightarrow> p1\<lparr>pr_byConn := AList.update c (set_delete k ks) (pr_byConn p1)\<rparr>)"
      using False unfolding p'_def set_presence_def k_def c_def p1_def Let_def by simp
    have e: "entry_at p' k' c' = (if k' = k \<and> c' = c then None else entry_at p k' c')" for k' c'
      by (simp add: p' p1_def entry_drop byConn_only split: option.split)
    have l: "lists_ok p'" using lists_drop [OF lo, of c k] by (simp add: p' p1_def byConn_only split: option.split)
    have ks: "keys_at p' c' = (if c' = c then map_option (set_delete k) (keys_at p c) else keys_at p c')" for c'
      by (auto simp: p' p1_def drop_other keys_at_def split: option.split)
    have "presence_inv p'" using l cover by (fastforce simp: presence_inv_alt e ks split: if_splits)
    moreover have "presence_abs p' = spec_op stale (presence_abs p) (SetPresence now x)"
      using False by (auto simp: presence_abs_def fun_eq_iff e k_def c_def)
    ultimately show ?thesis by (simp add: p'_def)
  next
    case True
    define en where "en = \<lparr>en_identityId = as_identityId x, en_viewing = as_viewing x, en_typing = as_typing x, en_at = now\<rparr>"
    define es where "es = (case entries_at p k of None \<Rightarrow> [] | Some es \<Rightarrow> es)"
    define kl where "kl = (case keys_at p c of None \<Rightarrow> [] | Some ks \<Rightarrow> ks)"
    have p': "p' = p\<lparr>pr_byEntity := AList.update k (AList.update c en es) (pr_byEntity p), pr_byConn := AList.update c (set_add k kl) (pr_byConn p)\<rparr>"
      using True by (auto simp: p'_def set_presence_def k_def c_def en_def es_def kl_def Let_def)
    have es: "distinct (map fst es)" "map_of es d = entry_at p k d" for d
      using lo by (auto simp: es_def lists_ok_def entry_at_def split: option.split)
    have e: "entry_at p' k' c' = (if k' = k \<and> c' = c then Some en else entry_at p k' c')" for k' c'
      using es(2) by (simp add: p' entry_at_def entries_at_def)
    have l: "lists_ok p'" using lo es(1) by (auto simp: p' lists_ok_def entries_at_def distinct_keys_update split: if_splits)
    have ks: "keys_at p' c' = (if c' = c then Some (set_add k kl) else keys_at p c')" for c' by (simp add: p' keys_at_def)
    have "presence_inv p'" using l cover by (fastforce simp: presence_inv_alt e ks kl_def split: if_splits)
    moreover have "presence_abs p' = spec_op stale (presence_abs p) (SetPresence now x)"
      using True by (auto simp: presence_abs_def fun_eq_iff e k_def c_def en_def)
    ultimately show ?thesis by (simp add: p'_def)
  qed
qed

lemma map_of_filter_entry:
  "distinct (map fst al) \<Longrightarrow> map_of (filter (\<lambda>(c, e). P e) al) c = (case map_of al c of Some e \<Rightarrow> if P e then Some e else None | None \<Rightarrow> None)"
  by (induction al) (auto simp: map_of_eq_None_iff [symmetric] split: option.split)

lemma read_presence_ok:
  assumes i: "presence_inv p"
  shows "presence_inv (snd (presence_of now s e p))
    \<and> presence_abs (snd (presence_of now s e p)) = spec_op (pr_staleAfterMs p) (presence_abs p) (ReadPresence now s e)"
proof (cases "entries_at p (keyOf s e)")
  case None
  then show ?thesis using i by (auto simp: presence_of_def presence_abs_def entry_at_def fun_eq_iff split: option.split)
next
  case (Some es)
  define cut where "cut = now - pr_staleAfterMs p"
  define p' where "p' = p\<lparr>pr_byEntity := AList.update (keyOf s e) (filter (\<lambda>(c, e). \<not> en_at e < cut) es) (pr_byEntity p)\<rparr>"
  have d: "distinct (map fst es)" using i Some by (simp add: presence_inv_def)
  have e': "entry_at p' k c = (if k = keyOf s e then (case entry_at p k c of Some x \<Rightarrow> if en_at x < cut then None else Some x | None \<Rightarrow> None)
      else entry_at p k c)" for k c
    using map_of_filter_entry [OF d, of "\<lambda>e. \<not> en_at e < cut" c] Some by (auto simp: p'_def entry_at_def entries_at_def split: option.split)
  have "lists_ok p'" using i Some by (auto simp: presence_inv_alt lists_ok_def p'_def entries_at_def distinct_map_filter split: if_splits)
  moreover have "keys_at p' = keys_at p" by (simp add: p'_def keys_at_def fun_eq_iff)
  ultimately have "presence_inv p'" using i by (auto simp: presence_inv_alt e' split: if_splits option.splits)
  moreover have "presence_abs p' = spec_op (pr_staleAfterMs p) (presence_abs p) (ReadPresence now s e)"
    by (auto simp: presence_abs_def fun_eq_iff e' [unfolded cut_def])
  moreover have "snd (presence_of now s e p) = p'" by (simp add: presence_of_def Some p'_def cut_def Let_def)
  ultimately show ?thesis by simp
qed

lemma drop_connection_ok:
  assumes i: "presence_inv p"
  shows "presence_inv (dropConnection c p) \<and> presence_abs (dropConnection c p) = spec_op stale (presence_abs p) (DropConnection c)"
proof (cases "keys_at p c")
  case None
  then have "entry_at p k c = None" for k using i by (metis option.distinct(1) not_Some_eq presence_inv_alt)
  then show ?thesis using i None by (auto simp: dropConnection_def presence_abs_def fun_eq_iff)
next
  case (Some ks)
  define p1 where "p1 = fold (drop_entry c) ks p"
  define p' where "p' = p1\<lparr>pr_byConn := AList.delete c (pr_byConn p1)\<rparr>"
  have cov: "entry_at p k c = None \<or> k \<in> set ks" for k using i Some unfolding presence_inv_alt by fastforce
  have e: "entry_at p' k d = (if d = c then None else entry_at p k d)" for k d
  proof -
    have "entry_at p' k d = entry_at p1 k d" by (simp add: p'_def entry_at_def entries_at_def)
    then show ?thesis using fold_drop(1) [of c ks p k d] cov [of k] by (auto simp: p1_def)
  qed
  have k: "keys_at p' d = (if d = c then None else keys_at p d)" for d
    using fold_drop(3) [of c ks p] by (simp add: p'_def p1_def keys_at_def)
  have "lists_ok p'" using i fold_drop(4) [of p c ks] by (simp add: presence_inv_alt p'_def p1_def lists_ok_def entries_at_def)
  then have "presence_inv p'" using i by (auto simp: presence_inv_alt e k)
  moreover have "presence_abs p' = spec_op stale (presence_abs p) (DropConnection c)" by (auto simp: presence_abs_def fun_eq_iff e)
  ultimately show ?thesis by (simp add: dropConnection_def Some p'_def p1_def Let_def)
qed

lemma stale_kept: "pr_staleAfterMs (presence_step p op) = pr_staleAfterMs p"
proof -
  have "pr_staleAfterMs (fold (drop_entry c) ks q) = pr_staleAfterMs q" for c ks q
    by (induction ks arbitrary: q) (simp_all add: drop_other)
  then show ?thesis
    by (cases op) (auto simp: set_presence_def presence_of_def dropConnection_def drop_other Let_def split: option.splits)
qed

lemma presence_step_ok:
  "presence_inv p \<Longrightarrow> presence_inv (presence_step p op)
     \<and> presence_abs (presence_step p op) = spec_op (pr_staleAfterMs p) (presence_abs p) op"
  by (cases op) (simp_all add: set_presence_ok read_presence_ok drop_connection_ok del: spec_op.simps)

text \<open>A run, against the specification.\<close>

lemma presence_runs:
  "presence_inv p \<Longrightarrow> presence_inv (foldl presence_step p ops)
     \<and> presence_abs (foldl presence_step p ops) = foldl (spec_op (pr_staleAfterMs p)) (presence_abs p) ops"
  by (induction ops arbitrary: p) (simp_all add: presence_step_ok stale_kept)

lemma run_stale: "pr_staleAfterMs (foldl presence_step p ops) = pr_staleAfterMs p"
  by (induction ops arbitrary: p) (simp_all add: stale_kept)

lemma new_presence_ok: "presence_inv (new_presence stale)" "presence_abs (new_presence stale) = (\<lambda>_. None)"
  by (auto simp: new_presence_def presence_inv_def presence_abs_def entries_at_def entry_at_def fun_eq_iff)

definition fresh :: "int \<Rightarrow> entry \<Rightarrow> bool" where
  "fresh cutoff e \<longleftrightarrow> cutoff \<le> en_at e"

lemma read_viewers:
  "set (pa_viewers (read_entries cutoff es vs ts l)) = set vs \<union> {i. \<exists>(c, e) \<in> set es. fresh cutoff e \<and> en_identityId e = Some i \<and> en_viewing e}"
proof (induction cutoff es vs ts l rule: read_entries.induct)
  case (2 cutoff c e es vs ts l)
  then show ?case by (cases "en_at e < cutoff"; cases "en_identityId e") (simp_all add: fresh_def, auto)
qed simp

lemma read_typing:
  "set (pa_typing (read_entries cutoff es vs ts l)) = set ts \<union> {i. \<exists>(c, e) \<in> set es. fresh cutoff e \<and> en_identityId e = Some i \<and> en_typing e}"
proof (induction cutoff es vs ts l rule: read_entries.induct)
  case (2 cutoff c e es vs ts l)
  then show ?case by (cases "en_at e < cutoff"; cases "en_identityId e") (simp_all add: fresh_def, auto)
qed simp

lemma read_distinct:
  "distinct vs \<Longrightarrow> distinct ts \<Longrightarrow> distinct (pa_viewers (read_entries cutoff es vs ts l)) \<and> distinct (pa_typing (read_entries cutoff es vs ts l))"
proof (induction cutoff es vs ts l rule: read_entries.induct)
  case (2 cutoff c e es vs ts l)
  then show ?case by (cases "en_at e < cutoff"; cases "en_identityId e") auto
qed simp

text \<open>The keys of two pairs of ids differ when no id holds a NUL.\<close>

lemma keyOf_inj:
  assumes "CHR 0x00 \<notin> set s" "CHR 0x00 \<notin> set s'" "keyOf s e = keyOf s' e'"
  shows "s = s' \<and> e = e'"
proof -
  have tw: "takeWhile (\<lambda>c. c \<noteq> CHR 0x00) (keyOf a b) = a" if "CHR 0x00 \<notin> set a" for a b
  proof -
    have "\<forall>c \<in> set a. c \<noteq> CHR 0x00" using that by metis
    then show ?thesis by (simp add: keyOf_def takeWhile_append)
  qed
  have "s = s'" using tw [OF assms(1), of e] tw [OF assms(2), of e'] assms(3) by simp
  with assms(3) show ?thesis by (simp add: keyOf_def)
qed


lemma close_leaves_no_trace:
  assumes "presence_inv p"
  shows "entry_at (dropConnection c p) k c = None" "keys_at (dropConnection c p) c = None"
proof -
  have "presence_abs (dropConnection c p) (k, c) = None" using drop_connection_ok [OF assms, where stale = 0] by simp
  then show "entry_at (dropConnection c p) k c = None" by (simp add: presence_abs_def)
  show "keys_at (dropConnection c p) c = None"
    by (auto simp: dropConnection_def Let_def keys_at_def split: option.splits)
qed

text \<open>The counter of a space: the n-th number it hands out is n, whatever other spaces do.\<close>

fun next_all :: "string list \<Rightarrow> counters \<Rightarrow> nat list \<times> counters" where
  "next_all [] cs = ([], cs)"
| "next_all (s # ss) cs = (case next_seq s cs of (v, cs1) \<Rightarrow> (case next_all ss cs1 of (vs, cs2) \<Rightarrow> (v # vs, cs2)))"

lemma peek_next: "peek_seq s (snd (next_seq t cs)) = (if s = t then Suc (peek_seq s cs) else peek_seq s cs)"
  "fst (next_seq t cs) = Suc (peek_seq t cs)"
  by (simp_all add: next_seq_def peek_seq_def Let_def)

lemma numbers_count_up:
  "map snd (filter (\<lambda>(t, v). t = s) (zip ss (fst (next_all ss cs)))) = [Suc (peek_seq s cs)..<Suc (peek_seq s cs + length (filter (\<lambda>t. t = s) ss))]"
proof (induction ss arbitrary: cs)
  case (Cons t ss)
  obtain v cs1 where n: "next_seq t cs = (v, cs1)" by (cases "next_seq t cs")
  then have v: "v = Suc (peek_seq t cs)" "peek_seq s cs1 = (if s = t then Suc (peek_seq s cs) else peek_seq s cs)"
    using peek_next(1) [of s t cs] peek_next(2) [of t cs] by simp_all
  obtain vs cs2 where a: "next_all ss cs1 = (vs, cs2)" by (cases "next_all ss cs1")
  define m where "m = length (filter (\<lambda>t. t = s) ss)"
  have ih: "map snd (filter (\<lambda>(t, v). t = s) (zip ss vs)) = [Suc (peek_seq s cs1)..<Suc (peek_seq s cs1 + m)]"
    using Cons.IH [of cs1] by (simp add: a m_def)
  have "[Suc (peek_seq s cs)..<Suc (peek_seq s cs + Suc m)] = Suc (peek_seq s cs) # [Suc (Suc (peek_seq s cs))..<Suc (Suc (peek_seq s cs) + m)]"
    by (simp add: upt_conv_Cons)
  moreover have "fst (next_all (t # ss) cs) = v # vs" by (simp add: n a)
  ultimately show ?case using ih v by (cases "t = s") (simp_all add: m_def [symmetric] del: upt.simps next_all.simps)
qed simp

end
