(* ===== verification/EventLog.thy ===== *)
theory EventLog
  imports JsText
begin

text \<open>
  Reading the durable log of events: the page that \<open>events.poll\<close>, a resume and the live pump read
  (\<open>packages/server/src/events/poll.ts\<close>), the parameters of the poll (\<open>handlers.ts\<close>), the counter of a
  space (\<open>seq.ts\<close>), what an event is about (\<open>subject-set.ts\<close>) and the gate of its index
  (\<open>subject-index.ts\<close>). The table is a list of rows. Which rows the caller's policy lets through and
  which of them the mapper can project are a view, a parameter; the database's own derivation of the
  subjects is taken to be its twin here, as a test of the repository pins.
\<close>

subsection \<open>What an event is about\<close>

definition EVENT_SUBJECT_KEYS :: "(string \<times> string list) list" where
  "EVENT_SUBJECT_KEYS = [
     (''entity.seen'', [''entityId'']),
     (''entity.upsert'', [''id'']),
     (''entity.deleted'', [''id'']),
     (''entity.activity_touched'', [''id'']),
     (''edge.upsert'', [''src_id'', ''dst_id'']),
     (''edge.deleted'', [''src_id'', ''dst_id'']),
     (''session.outcome_changed'', [''id'']),
     (''session.process_changed'', [''id'']),
     (''edge.ended'', [''src_id'', ''dst_id'']),
     (''message.created'', [''entity_id'', ''anchor_id'']),
     (''message.updated'', [''entity_id'', ''anchor_id'']),
     (''message.deleted'', [''entity_id'', ''anchor_id'']),
     (''counter.changed'', [''entity_id'']),
     (''activity.created'', [''entity_id'']),
     (''notification.created'', [''target_entity_id'']),
     (''notification.read'', [''target_entity_id'']),
     (''git.commit_recorded'', [''commitEntityId'']),
     (''git.pr_state_changed'', [''prEntityId'']),
     (''git.worktree_status_changed'', [''worktreeEntityId''])]"

definition is_hex :: "char \<Rightarrow> bool" where
  "is_hex c \<longleftrightarrow> digit_val c \<noteq> None"

text \<open>The five groups of a UUID, in either case.\<close>

fun hex_groups :: "nat list \<Rightarrow> string \<Rightarrow> bool" where
  "hex_groups [] s = (s = [])"
| "hex_groups [n] s = (length s = n \<and> list_all is_hex s)"
| "hex_groups (n # m # ns) s = (list_all is_hex (take n s) \<and> length (take n s) = n \<and> take 1 (drop n s) = ''-'' \<and> hex_groups (m # ns) (drop (n + 1) s))"

definition UUID_RE :: "string \<Rightarrow> bool" where
  "UUID_RE s = hex_groups [8, 4, 4, 4, 12] s"

definition toLowerCase :: "string \<Rightarrow> string" where
  "toLowerCase s = map lower_char s"

definition subjectIdsOf :: "string \<Rightarrow> jsobj \<Rightarrow> string list" where
  "subjectIdsOf eventType payload =
     (let keys = (case map_of EVENT_SUBJECT_KEYS eventType of None \<Rightarrow> [] | Some ks \<Rightarrow> ks);
          ids = map (toLowerCase \<circ> str_of) (filter (\<lambda>v. isString v \<and> UUID_RE (str_of v)) (map (oget payload) keys))
      in sort (remdups ids))"

subsection \<open>A page of the log\<close>

record event_row =
  ev_space :: string
  ev_seq :: nat
  ev_type :: string
  ev_payload :: jsobj

record log_view =
  lv_reads :: "event_row \<Rightarrow> bool"
  lv_maps :: "event_row \<Rightarrow> bool"

record event_page =
  pg_items :: "event_row list"
  pg_nextCursor :: nat
  pg_hasMore :: bool
  pg_examinedThrough :: nat

definition MAX_POLL_LIMIT :: nat where "MAX_POLL_LIMIT = 500"
definition DEFAULT_POLL_LIMIT :: nat where "DEFAULT_POLL_LIMIT = 200"

text \<open>The rows of a space after a cursor that the caller may read, by their number.\<close>

definition rows_after :: "log_view \<Rightarrow> event_row list \<Rightarrow> string \<Rightarrow> nat \<Rightarrow> event_row list" where
  "rows_after v table spaceId since = sort_key ev_seq (filter (\<lambda>r. ev_space r = spaceId \<and> since < ev_seq r \<and> lv_reads v r) table)"

definition about :: "string option \<Rightarrow> event_row \<Rightarrow> bool" where
  "about entityId r = (case entityId of None \<Rightarrow> True | Some e \<Rightarrow> e \<in> set (subjectIdsOf (ev_type r) (ev_payload r)))"

definition mapRows :: "log_view \<Rightarrow> event_row list \<Rightarrow> event_row list" where
  "mapRows v rows = filter (lv_maps v) rows"

definition page_since :: "log_view \<Rightarrow> event_row list \<Rightarrow> string \<Rightarrow> nat \<Rightarrow> nat \<Rightarrow> string option \<Rightarrow> event_page" where
  "page_since v table spaceId sinceSeq limit entityId =
     (let capped = min (max 1 limit) MAX_POLL_LIMIT;
          examined = take capped (rows_after v table spaceId sinceSeq);
          examinedThrough = (if examined = [] then sinceSeq else ev_seq (last examined));
          rows = filter (about entityId) examined
      in \<lparr>pg_items = mapRows v rows, pg_nextCursor = examinedThrough, pg_hasMore = (length examined = capped), pg_examinedThrough = examinedThrough\<rparr>)"

text \<open>The counter of a space: the number last given out, or nothing when there was no event.\<close>

definition latest :: "event_row list \<Rightarrow> string \<Rightarrow> nat option" where
  "latest table spaceId =
     (let seqs = map ev_seq (filter (\<lambda>r. ev_space r = spaceId) table) in if seqs = [] then None else Some (Max (set seqs)))"

subsection \<open>The parameters of a poll\<close>

datatype poll_error = InvalidCursor | InvalidInput | InvariantViolation

definition MAX_SAFE_INTEGER :: nat where "MAX_SAFE_INTEGER = 9007199254740991"

definition parseSince :: "string option \<Rightarrow> poll_error + nat" where
  "parseSince raw = (case raw of
      None \<Rightarrow> Inr 0
    | Some s \<Rightarrow>
        if s = [] then Inr 0
        else if \<not> list_all is_digit s then Inl InvalidCursor
        else if MAX_SAFE_INTEGER < read_nat s then Inl InvalidCursor
        else Inr (read_nat s))"

definition parseLimit :: "string option \<Rightarrow> poll_error + nat" where
  "parseLimit raw = (case raw of
      None \<Rightarrow> Inr DEFAULT_POLL_LIMIT
    | Some s \<Rightarrow>
        if s = [] then Inr DEFAULT_POLL_LIMIT
        else if \<not> list_all is_digit s then Inl InvalidInput
        else if read_nat s < 1 then Inl InvalidInput
        else Inr (read_nat s))"

definition parseEntity :: "string option \<Rightarrow> poll_error + string option" where
  "parseEntity raw = (case raw of
      None \<Rightarrow> Inr None
    | Some s \<Rightarrow> if s = [] then Inr None else if \<not> UUID_RE s then Inl InvalidInput else Inr (Some (toLowerCase s)))"

record poll_query =
  pq_since :: "string option"
  pq_limit :: "string option"
  pq_entity :: "string option"

text \<open>The arguments of the read are evaluated in the order of the call, after the entity.\<close>

definition events_poll :: "log_view \<Rightarrow> event_row list \<Rightarrow> string option \<Rightarrow> poll_query \<Rightarrow> poll_error + event_page" where
  "events_poll v table spaceId q =
     (case spaceId of
        None \<Rightarrow> Inl InvalidInput
      | Some sp \<Rightarrow>
          if sp = [] then Inl InvalidInput
          else (case parseEntity (pq_entity q) of
              Inl err \<Rightarrow> Inl err
            | Inr entity \<Rightarrow> (case parseSince (pq_since q) of
                  Inl err \<Rightarrow> Inl err
                | Inr since \<Rightarrow> (case parseLimit (pq_limit q) of
                      Inl err \<Rightarrow> Inl err
                    | Inr limit \<Rightarrow> Inr (page_since v table sp since limit entity)))))"

subsection \<open>The gate of the subject index\<close>

definition readIndexedFrom :: "jsval \<Rightarrow> poll_error + nat" where
  "readIndexedFrom raw =
     (let value = (case raw of JUndef \<Rightarrow> JFin 1 | JNull \<Rightarrow> JFin 1 | JNum x \<Rightarrow> x | JStr s \<Rightarrow> js_number s | _ \<Rightarrow> JNaN) in
      case is_integer_num value of
        None \<Rightarrow> Inl InvariantViolation
      | Some i \<Rightarrow> if int MAX_SAFE_INTEGER < \<bar>i\<bar> \<or> i < 1 then Inl InvariantViolation else Inr (nat i))"

definition minCoveredAfter :: "nat \<Rightarrow> nat" where
  "minCoveredAfter indexedFrom = nat (max (int indexedFrom - 1) 0)"

definition assertIndexCovers :: "nat \<Rightarrow> nat \<Rightarrow> poll_error + unit" where
  "assertIndexCovers after indexedFrom = (if minCoveredAfter indexedFrom \<le> after then Inr () else Inl InvalidCursor)"

definition gateSubjectIndex :: "jsval \<Rightarrow> nat \<Rightarrow> poll_error + nat" where
  "gateSubjectIndex raw after =
     (case readIndexedFrom raw of
        Inl err \<Rightarrow> Inl err
      | Inr indexedFrom \<Rightarrow> (case assertIndexCovers after indexedFrom of Inl err \<Rightarrow> Inl err | Inr u \<Rightarrow> Inr indexedFrom))"

subsection \<open>Pages and the rows they cover\<close>

text \<open>No two rows of a space have the same number.\<close>

definition seqs_ok :: "event_row list \<Rightarrow> bool" where
  "seqs_ok table \<longleftrightarrow> distinct (map (\<lambda>r. (ev_space r, ev_seq r)) table)"

lemma set_rows_after [simp]: "set (rows_after v table s k) = {r \<in> set table. ev_space r = s \<and> k < ev_seq r \<and> lv_reads v r}"
  by (auto simp: rows_after_def)

lemma seqs_inj: "seqs_ok table \<Longrightarrow> r \<in> set table \<Longrightarrow> q \<in> set table \<Longrightarrow> ev_space r = ev_space q \<Longrightarrow> ev_seq r = ev_seq q \<Longrightarrow> r = q"
  by (auto simp: seqs_ok_def distinct_map dest: inj_onD)

lemma rows_after_sorted:
  assumes "seqs_ok table"
  shows "sorted_wrt (<) (map ev_seq (rows_after v table s k))"
proof -
  have d: "distinct table" using assms by (simp add: seqs_ok_def distinct_map)
  have "inj_on ev_seq (set (rows_after v table s k))"
    by (rule inj_onI) (auto intro: seqs_inj [OF assms])
  then have "distinct (map ev_seq (rows_after v table s k))"
    using d by (simp add: distinct_map rows_after_def)
  then show ?thesis by (simp add: strict_sorted_iff rows_after_def)
qed

lemma rows_after_later: "k \<le> k' \<Longrightarrow> rows_after v table s k' = filter (\<lambda>r. k' < ev_seq r) (rows_after v table s k)"
  unfolding rows_after_def filter_sort filter_filter by (rule arg_cong [of _ _ "sort_key ev_seq"], rule filter_cong) auto

lemma filter_past_take:
  fixes f :: "'a \<Rightarrow> nat"
  assumes "sorted_wrt (<) (map f xs)" "0 < c" "xs \<noteq> []"
  shows "filter (\<lambda>x. f (last (take c xs)) < f x) xs = drop c xs"
  using assms
proof (induction xs arbitrary: c)
  case (Cons x xs)
  show ?case
  proof (cases "c = 1 \<or> xs = []")
    case True
    with Cons.prems show ?thesis by (cases c) (auto simp: filter_id_conv)
  next
    case False
    then obtain d where d: "c = Suc d" "0 < d" using Cons.prems by (cases c) auto
    with False have "last (take d xs) \<in> set xs" by (intro in_set_takeD [OF last_in_set]) simp
    then have "f x < f (last (take d xs))" using Cons.prems(1) by simp
    moreover have "take d xs \<noteq> []" using d False by simp
    moreover have "filter (\<lambda>x. f (last (take d xs)) < f x) xs = drop d xs"
      using Cons.prems(1) d(2) False by (intro Cons.IH) simp_all
    ultimately show ?thesis by (simp add: d(1))
  qed
qed simp

lemma page_rest:
  assumes "seqs_ok table" "0 < c" "take c (rows_after v table s k) \<noteq> []"
  shows "rows_after v table s (ev_seq (last (take c (rows_after v table s k)))) = drop c (rows_after v table s k)"
proof -
  let ?xs = "rows_after v table s k"
  have "last (take c ?xs) \<in> set ?xs" by (rule in_set_takeD [OF last_in_set [OF assms(3)]])
  then have "k \<le> ev_seq (last (take c ?xs))" by simp
  note later = rows_after_later [OF this, of v table s]
  have "?xs \<noteq> []" using assms(3) by auto
  from filter_past_take [OF rows_after_sorted [OF assms(1)] assms(2) this] show ?thesis by (rule trans [OF later])
qed

text \<open>A reader that asks again from the cursor it was given while there may be more.\<close>

fun poll_from :: "nat \<Rightarrow> log_view \<Rightarrow> event_row list \<Rightarrow> string \<Rightarrow> nat \<Rightarrow> nat \<Rightarrow> string option \<Rightarrow> event_row list option" where
  "poll_from 0 v table spaceId since limit entityId = None"
| "poll_from (Suc rounds) v table spaceId since limit entityId =
     (let page = page_since v table spaceId since limit entityId in
      if pg_hasMore page then map_option (\<lambda>more. pg_items page @ more) (poll_from rounds v table spaceId (pg_nextCursor page) limit entityId)
      else Some (pg_items page))"

lemma poll_from_rows:
  assumes "seqs_ok table"
  shows "length (rows_after v table s k) div min (max 1 limit) MAX_POLL_LIMIT < n
    \<Longrightarrow> poll_from n v table s k limit ent = Some (mapRows v (filter (about ent) (rows_after v table s k)))"
proof (induction n arbitrary: k)
  case (Suc n)
  define c where "c = min (max 1 limit) MAX_POLL_LIMIT"
  have c: "0 < c" by (simp add: c_def MAX_POLL_LIMIT_def)
  let ?xs = "rows_after v table s k"
  let ?p = "page_since v table s k limit ent"
  have items: "pg_items ?p = mapRows v (filter (about ent) (take c ?xs))" and more: "pg_hasMore ?p \<longleftrightarrow> length (take c ?xs) = c"
    by (simp_all add: page_since_def Let_def c_def)
  show ?case
  proof (cases "pg_hasMore ?p")
    case False
    with more have "take c ?xs = ?xs" by auto
    with False items show ?thesis by (simp add: Let_def)
  next
    case True
    with more c have ne: "take c ?xs \<noteq> []" and le: "c \<le> length ?xs" by auto
    have cur: "pg_nextCursor ?p = ev_seq (last (take c ?xs))" using ne by (simp only: page_since_def Let_def c_def event_page.simps if_False)
    have rest: "rows_after v table s (pg_nextCursor ?p) = drop c ?xs" unfolding cur by (rule page_rest [OF assms c ne])
    have "(length ?xs - c) div c < n"
      using Suc.prems le c unfolding c_def [symmetric] by (simp add: le_div_geq c)
    with Suc.IH [of "pg_nextCursor ?p"] rest
    have "poll_from n v table s (pg_nextCursor ?p) limit ent = Some (mapRows v (filter (about ent) (drop c ?xs)))"
      by (simp add: c_def)
    with True items show ?thesis
      by (simp add: Let_def mapRows_def flip: filter_append)
  qed
qed simp

text \<open>
  C34: Polling loses nothing and repeats nothing: a reader that follows the cursors it is given
  until there is no more gets, whatever limit and entity it asks with, exactly the rows after its
  cursor that it may read, that can be projected and that are about the entity, in order and each
  once, after no more rounds than there are full pages, and one.
\<close>
theorem polling_is_complete:
  assumes "seqs_ok table" "length (rows_after v table s since) div min (max 1 limit) MAX_POLL_LIMIT < rounds"
  shows "\<exists>items. poll_from rounds v table s since limit entity = Some items \<and> sorted_wrt (<) (map ev_seq items)
     \<and> set items = {r \<in> set table. ev_space r = s \<and> since < ev_seq r \<and> lv_reads v r \<and> lv_maps v r \<and> about entity r}"
proof (intro exI conjI)
  let ?xs = "rows_after v table s since"
  show "poll_from rounds v table s since limit entity = Some (mapRows v (filter (about entity) ?xs))"
    by (rule poll_from_rows [OF assms])
  show "sorted_wrt (<) (map ev_seq (mapRows v (filter (about entity) ?xs)))"
    using rows_after_sorted [OF assms(1), of v s since] by (simp add: mapRows_def sorted_wrt_map sorted_wrt_filter)
  show "set (mapRows v (filter (about entity) ?xs)) = {r \<in> set table. ev_space r = s \<and> since < ev_seq r \<and> lv_reads v r \<and> lv_maps v r \<and> about entity r}"
    by (auto simp: mapRows_def)
qed

definition sample_row :: "nat \<Rightarrow> event_row" where
  "sample_row n = \<lparr>ev_space = ''s'', ev_seq = n, ev_type = ''menu.updated'', ev_payload = []\<rparr>"

definition sample_view :: log_view where
  "sample_view = \<lparr>lv_reads = (\<lambda>r. ev_seq r \<noteq> 2), lv_maps = (\<lambda>r. ev_seq r \<noteq> 3)\<rparr>"

theorem polling_is_complete_witness:
  "\<exists>items. poll_from 2 sample_view [sample_row 1, sample_row 2, sample_row 3, sample_row 4] ''s'' 0 2 None = Some items
     \<and> sorted_wrt (<) (map ev_seq items)
     \<and> set items = {r \<in> set [sample_row 1, sample_row 2, sample_row 3, sample_row 4]. ev_space r = ''s'' \<and> 0 < ev_seq r
         \<and> lv_reads sample_view r \<and> lv_maps sample_view r \<and> about None r}"
  by (rule polling_is_complete)
    (simp_all add: seqs_ok_def sample_row_def sample_view_def rows_after_def MAX_POLL_LIMIT_def flip: One_nat_def numeral_3_eq_3)

subsection \<open>Parameters, subjects and the gate\<close>

text \<open>A cursor that is not a numeral is refused, never read as one; a limit is never less than one.\<close>

lemma parsed_poll:
  "parseSince (Some s) = Inr n \<Longrightarrow> s \<noteq> [] \<Longrightarrow> list_all is_digit s \<and> n = read_nat s \<and> n \<le> MAX_SAFE_INTEGER"
  "parseLimit raw = Inr m \<Longrightarrow> 1 \<le> m"
  by (auto simp: parseSince_def parseLimit_def DEFAULT_POLL_LIMIT_def split: option.splits if_splits)

lemma poll_answers:
  assumes "events_poll v table spaceId q = Inr page"
  shows "\<exists>s since limit ent. spaceId = Some s \<and> s \<noteq> [] \<and> parseSince (pq_since q) = Inr since \<and> parseLimit (pq_limit q) = Inr limit
     \<and> parseEntity (pq_entity q) = Inr ent \<and> page = page_since v table s since limit ent"
  using assms by (auto simp: events_poll_def split: option.splits sum.splits if_splits)

lemma toLowerCase_hex: "is_hex (lower_char c) = is_hex c" "lower_char (lower_char c) = lower_char c"
  by (simp_all add: is_hex_def digit_val_def lower_char_def Let_def)

text \<open>The subjects are distinct, in order, and each a lower-cased UUID out of the payload.\<close>

lemma subjects_sane:
  "sorted (subjectIdsOf t p)" "distinct (subjectIdsOf t p)"
  "i \<in> set (subjectIdsOf t p) \<Longrightarrow> \<exists>k s. oget p k = JStr s \<and> UUID_RE s \<and> i = toLowerCase s"
proof -
  show "sorted (subjectIdsOf t p)" "distinct (subjectIdsOf t p)" by (simp_all add: subjectIdsOf_def Let_def)
  assume "i \<in> set (subjectIdsOf t p)"
  then obtain k where "isString (oget p k)" "UUID_RE (str_of (oget p k))" "i = toLowerCase (str_of (oget p k))"
    by (auto simp: subjectIdsOf_def Let_def)
  then show "\<exists>k s. oget p k = JStr s \<and> UUID_RE s \<and> i = toLowerCase s" by (cases "oget p k") auto
qed

text \<open>
  The gate admits a cursor just when every row after it is indexed, and the cursor its refusal names
  is the least that is admitted.
\<close>

lemma gate_exact:
  assumes "readIndexedFrom raw = Inr n"
  shows "gateSubjectIndex raw a = Inr n \<longleftrightarrow> (\<forall>q. a < q \<longrightarrow> n \<le> q)"
    "gateSubjectIndex raw a \<noteq> Inr n \<longleftrightarrow> gateSubjectIndex raw a = Inl InvalidCursor"
    "gateSubjectIndex raw (minCoveredAfter n) = Inr n" "gateSubjectIndex raw a = Inr n \<longleftrightarrow> minCoveredAfter n \<le> a"
proof -
  show "gateSubjectIndex raw a = Inr n \<longleftrightarrow> (\<forall>q. a < q \<longrightarrow> n \<le> q)"
    using assms by (auto simp: gateSubjectIndex_def assertIndexCovers_def minCoveredAfter_def dest: spec [of _ "Suc a"])
qed (use assms in \<open>auto simp: gateSubjectIndex_def assertIndexCovers_def minCoveredAfter_def\<close>)

end
