(* ===== verification/EventFeed.thy ===== *)
theory EventFeed
  imports EventLog Subscriptions Presence
begin

text \<open>
  How events reach a socket: the control channel (\<open>packages/server/src/events/control.ts\<close>) and the live
  pump (\<open>pump.ts\<close>) over the durable log, the registry of subscriptions and the presence store, wired
  as \<open>main.ts\<close> and \<open>ws-server.ts\<close> do. The event loop is part of the model: a frame that is handled and
  a tick of the pump run up to their next \<open>await\<close> and then wait, as tasks and as a phase of the pump,
  and any other step may come in between. A step of the run says which wait is over and how: what the
  database answered, and after how many sends, if at all, the socket was closed as a slow consumer.
  The workspace frames of the channel belong to the workspace bridge and are not part of it.
\<close>

subsection \<open>State\<close>

text \<open>What the authorizer looks at of an identity; an absent space of the session is the empty string.\<close>

record request_identity =
  ri_bearer :: bool
  ri_sessionSpaceId :: string
  ri_human :: bool

datatype db_answer = Found | Nothing | Failed

definition isGateSession :: "request_identity \<Rightarrow> bool" where
  "isGateSession i \<longleftrightarrow> ri_bearer i \<and> ri_sessionSpaceId i = [] \<and> ri_human i"

definition canSubscribe :: "bool \<Rightarrow> request_identity \<Rightarrow> string \<Rightarrow> db_answer \<Rightarrow> bool" where
  "canSubscribe enforce i spaceId a =
     (if ri_sessionSpaceId i \<noteq> [] \<and> ri_sessionSpaceId i \<noteq> spaceId then False
      else if enforce \<and> isGateSession i then False
      else a = Found)"

text \<open>
  The environment: what the n-th read of the log lets a connection see, the identity of a connection,
  the identity its claims resolve to, whether sessions are confined to spaces, and the pump's batch.
\<close>

record feed_env =
  fe_view :: "nat \<Rightarrow> string \<Rightarrow> log_view"
  fe_identity :: "string \<Rightarrow> request_identity"
  fe_claims :: "string \<Rightarrow> string option"
  fe_enforce :: bool
  fe_batch :: nat

definition DEFAULT_PUMP_BATCH :: nat where "DEFAULT_PUMP_BATCH = 200"
definition MAX_RESUME_BATCH :: nat where "MAX_RESUME_BATCH = MAX_POLL_LIMIT"

datatype control_frame =
    FSubscribe "string list"
  | FUnsubscribe "string list"
  | FPresence bool
  | FResume string nat
  | FPresenceSet string string bool bool

text \<open>A frame that waits: for the authorizer, for the mark, for the log, for the claims, or to go on.\<close>

datatype control_task =
    SubscribeAsks string string "string list"
  | SubscribeMark string string "string list"
  | SubscribeSeeds string string "nat option" "string list"
  | ResumeAsks string string nat
  | ResumeReads string string nat
  | ResumeReplays string string nat event_page
  | PresenceAsks string string string bool bool
  | PresenceSets string string string bool bool

text \<open>
  A tick: idle, at the next of its sinks, at the next space of a sink, waiting for the log, or with a
  page in hand. It holds the cursor map it captured, by its number, and the cursor it read.
\<close>

datatype pump_phase =
    PumpIdle
  | PumpSinks "string list"
  | PumpSpaces string "string list" "string list"
  | PumpAsked string nat string nat "string list" "string list"
  | PumpAnswered string nat string nat event_page "string list" "string list"

text \<open>The trace: what was allowed, refused, sent and asserted, and where delivery (re)starts.\<close>

datatype feed_mark =
    Allowed string string
  | Refused string
  | Started string string nat
  | Sent string string nat
  | Asserted string string

record feed =
  fd_log :: "event_row list"
  fd_registry :: registry
  fd_presence :: presence_store
  fd_open :: "string list"
  fd_known :: "string list"
  fd_cursors :: "(string \<times> nat \<times> (string \<times> nat) list) list"
  fd_maps :: nat
  fd_timer :: bool
  fd_pump :: pump_phase
  fd_tasks :: "control_task list"
  fd_reads :: nat
  fd_trace :: "feed_mark list"

definition new_feed :: feed where
  "new_feed = \<lparr>fd_log = [], fd_registry = new_registry, fd_presence = new_presence None, fd_open = [], fd_known = [], fd_cursors = [],
     fd_maps = 0, fd_timer = False, fd_pump = PumpIdle, fd_tasks = [], fd_reads = 0, fd_trace = []\<rparr>"

definition mark :: "feed_mark \<Rightarrow> feed \<Rightarrow> feed" where
  "mark m f = f\<lparr>fd_trace := fd_trace f @ [m]\<rparr>"

subsection \<open>Connections and cursors\<close>

text \<open>The map of a connection, made when there is none; maps are numbered as they are made.\<close>

definition cursorsFor :: "string \<Rightarrow> feed \<Rightarrow> feed" where
  "cursorsFor c f = (case map_of (fd_cursors f) c of
      None \<Rightarrow> f\<lparr>fd_cursors := AList.update c (fd_maps f, []) (fd_cursors f), fd_maps := fd_maps f + 1\<rparr>
    | Some m \<Rightarrow> f)"

definition cursor_at :: "feed \<Rightarrow> string \<Rightarrow> string \<Rightarrow> nat option" where
  "cursor_at f c s = (case map_of (fd_cursors f) c of None \<Rightarrow> None | Some (g, m) \<Rightarrow> map_of m s)"

definition map_at :: "feed \<Rightarrow> string \<Rightarrow> nat option" where
  "map_at f c = map_option fst (map_of (fd_cursors f) c)"

definition seed :: "string \<Rightarrow> string \<Rightarrow> nat \<Rightarrow> feed \<Rightarrow> feed" where
  "seed c s k f = (let f1 = cursorsFor c f in case map_of (fd_cursors f1) c of
      None \<Rightarrow> f1
    | Some (g, m) \<Rightarrow> f1\<lparr>fd_cursors := AList.update c (g, AList.update s k m) (fd_cursors f1)\<rparr>)"

text \<open>Writing to a captured map, which nobody sees any more once the connection was forgotten.\<close>

definition set_captured :: "string \<Rightarrow> nat \<Rightarrow> string \<Rightarrow> nat \<Rightarrow> feed \<Rightarrow> feed" where
  "set_captured c g s k f = (case map_of (fd_cursors f) c of
      None \<Rightarrow> f
    | Some (g', m) \<Rightarrow> if g' = g then f\<lparr>fd_cursors := AList.update c (g, AList.update s k m) (fd_cursors f)\<rparr> else f)"

definition forget :: "string \<Rightarrow> feed \<Rightarrow> feed" where
  "forget c f = f\<lparr>fd_cursors := AList.delete c (fd_cursors f)\<rparr>"

text \<open>The ids of connections are random and never given out twice.\<close>

definition connects :: "string \<Rightarrow> feed \<Rightarrow> feed" where
  "connects c f = (if c \<in> set (fd_known f) then f
     else f\<lparr>fd_known := c # fd_known f, fd_open := c # fd_open f, fd_registry := add_conn c (fd_registry f)\<rparr>)"

definition shuts :: "string \<Rightarrow> feed \<Rightarrow> feed" where
  "shuts c f = f\<lparr>fd_open := filter (\<lambda>d. d \<noteq> c) (fd_open f)\<rparr>"

definition closes :: "string \<Rightarrow> feed \<Rightarrow> feed" where
  "closes c f = (if \<not> has_conn (fd_registry f) c then shuts c f
     else forget c ((shuts c f)\<lparr>fd_registry := remove_conn c (fd_registry f), fd_presence := dropConnection c (fd_presence f)\<rparr>))"

text \<open>
  Sending the events of a page while the sink is open. A send may close it, as a slow consumer;
  whether all events were taken in turn.
\<close>

fun send_all :: "string \<Rightarrow> string \<Rightarrow> event_row list \<Rightarrow> nat option \<Rightarrow> feed \<Rightarrow> bool \<times> feed" where
  "send_all c s [] kill f = (True, f)"
| "send_all c s (r # rs) kill f =
     (if c \<notin> set (fd_open f) then (False, f)
      else (let f1 = mark (Sent c s (ev_seq r)) f in
        case kill of
          None \<Rightarrow> send_all c s rs None f1
        | Some 0 \<Rightarrow> send_all c s rs None (closes c f1)
        | Some (Suc n) \<Rightarrow> send_all c s rs (Some n) f1))"

subsection \<open>The control channel\<close>

definition subscribe_next :: "string \<Rightarrow> string list \<Rightarrow> control_task list" where
  "subscribe_next c ss = (case ss of [] \<Rightarrow> [] | s # ss' \<Rightarrow> [SubscribeAsks c s ss'])"

text \<open>A frame as it arrives: what it does at once, and the task that waits. None is a malformed frame.\<close>

definition receives :: "string \<Rightarrow> control_frame option \<Rightarrow> feed \<Rightarrow> feed" where
  "receives c frame f = (case frame of
      None \<Rightarrow> mark (Refused c) f
    | Some (FSubscribe ss) \<Rightarrow> f\<lparr>fd_tasks := fd_tasks f @ subscribe_next c ss\<rparr>
    | Some (FUnsubscribe ss) \<Rightarrow> f\<lparr>fd_registry := fold (unsubscribe c) ss (fd_registry f)\<rparr>
    | Some (FPresence on) \<Rightarrow> f\<lparr>fd_registry := subscribePresence c on (fd_registry f)\<rparr>
    | Some (FResume s since) \<Rightarrow> f\<lparr>fd_tasks := fd_tasks f @ [ResumeAsks c s since]\<rparr>
    | Some (FPresenceSet s ent viewing typing) \<Rightarrow> f\<lparr>fd_tasks := fd_tasks f @ [PresenceAsks c s ent viewing typing]\<rparr>)"

definition authorized :: "feed_env \<Rightarrow> string \<Rightarrow> string \<Rightarrow> db_answer \<Rightarrow> bool" where
  "authorized e c s a = canSubscribe (fe_enforce e) (fe_identity e c) s a"

text \<open>A task goes on: the task that waits next, if any.\<close>

fun run_task :: "feed_env \<Rightarrow> db_answer \<Rightarrow> nat option \<Rightarrow> int \<Rightarrow> control_task \<Rightarrow> feed \<Rightarrow> control_task list \<times> feed" where
  "run_task e a kill now (SubscribeAsks c s ss) f =
     (if authorized e c s a
      then ([SubscribeMark c s ss], mark (Allowed c s) (f\<lparr>fd_registry := subscribe c s (fd_registry f)\<rparr>))
      else (subscribe_next c ss, mark (Refused c) f))"
| "run_task e a kill now (SubscribeMark c s ss) f = (case a of
      Found \<Rightarrow> ([SubscribeSeeds c s (latest (fd_log f) s) ss], f)
    | Nothing \<Rightarrow> ([SubscribeSeeds c s None ss], f)
    | Failed \<Rightarrow> ([], f))"
| "run_task e a kill now (SubscribeSeeds c s m ss) f =
     (subscribe_next c ss, case m of None \<Rightarrow> f | Some k \<Rightarrow> mark (Started c s k) (seed c s k f))"
| "run_task e a kill now (ResumeAsks c s since) f =
     (if authorized e c s a then ([ResumeReads c s since], mark (Allowed c s) f) else ([], mark (Refused c) f))"
| "run_task e a kill now (ResumeReads c s since) f =
     (if a = Found
      then ([ResumeReplays c s since (page_since (fe_view e (fd_reads f) c) (fd_log f) s since MAX_RESUME_BATCH None)], f\<lparr>fd_reads := fd_reads f + 1\<rparr>)
      else ([], f))"
| "run_task e a kill now (ResumeReplays c s since page) f =
     (case send_all c s (pg_items page) kill (mark (Started c s since) f) of
        (finished, f1) \<Rightarrow> ([], if finished then seed c s (pg_nextCursor page) f1 else f1))"
| "run_task e a kill now (PresenceAsks c s ent viewing typing) f =
     (if authorized e c s a then ([PresenceSets c s ent viewing typing], mark (Allowed c s) f) else ([], mark (Refused c) f))"
| "run_task e a kill now (PresenceSets c s ent viewing typing) f =
     (if a = Found
      then ([], mark (Asserted c s) (f\<lparr>fd_presence := set_presence now \<lparr>as_spaceId = s, as_entityId = ent, as_connId = c,
              as_identityId = fe_claims e c, as_viewing = viewing, as_typing = typing\<rparr> (fd_presence f)\<rparr>))
      else ([], f))"

definition task_runs :: "feed_env \<Rightarrow> nat \<Rightarrow> db_answer \<Rightarrow> nat option \<Rightarrow> int \<Rightarrow> feed \<Rightarrow> feed" where
  "task_runs e i a kill now f =
     (if i < length (fd_tasks f)
      then (case run_task e a kill now (fd_tasks f ! i) f of
          (ts, f1) \<Rightarrow> f1\<lparr>fd_tasks := take i (fd_tasks f) @ ts @ drop (Suc i) (fd_tasks f)\<rparr>)
      else f)"

subsection \<open>The pump\<close>

definition tick :: "feed \<Rightarrow> feed" where
  "tick f = (if fd_pump f \<noteq> PumpIdle then f else f\<lparr>fd_pump := PumpSinks (sinks (fd_registry f))\<rparr>)"

text \<open>One move of the loops of a tick. Without a cursor there is no live delivery.\<close>

definition pump_next :: "feed \<Rightarrow> feed" where
  "pump_next f = (case fd_pump f of
      PumpSinks [] \<Rightarrow> f\<lparr>fd_pump := PumpIdle\<rparr>
    | PumpSinks (c # cs) \<Rightarrow>
        if c \<notin> set (fd_open f) then (forget c f)\<lparr>fd_pump := PumpSinks cs\<rparr>
        else f\<lparr>fd_pump := PumpSpaces c (spacesFor (fd_registry f) c) cs\<rparr>
    | PumpSpaces c [] cs \<Rightarrow> f\<lparr>fd_pump := PumpSinks cs\<rparr>
    | PumpSpaces c (s # ss) cs \<Rightarrow>
        (let f1 = cursorsFor c f in case cursor_at f1 c s of
            None \<Rightarrow> f1\<lparr>fd_pump := PumpSpaces c ss cs\<rparr>
          | Some since \<Rightarrow> f1\<lparr>fd_pump := PumpAsked c (the (map_at f1 c)) s since ss cs\<rparr>)
    | _ \<Rightarrow> f)"

text \<open>The log answers; or claims, log or mapper throw, and the error is reported and passed over.\<close>

definition pump_reads :: "feed_env \<Rightarrow> feed \<Rightarrow> feed" where
  "pump_reads e f = (case fd_pump f of
      PumpAsked c g s since ss cs \<Rightarrow>
        f\<lparr>fd_pump := PumpAnswered c g s since (page_since (fe_view e (fd_reads f) c) (fd_log f) s since (fe_batch e) None) ss cs, fd_reads := fd_reads f + 1\<rparr>
    | _ \<Rightarrow> f)"

definition pump_fails :: "feed \<Rightarrow> feed" where
  "pump_fails f = (case fd_pump f of PumpAsked c g s since ss cs \<Rightarrow> f\<lparr>fd_pump := PumpSpaces c ss cs\<rparr> | _ \<Rightarrow> f)"

definition pump_lands :: "nat option \<Rightarrow> feed \<Rightarrow> feed" where
  "pump_lands kill f = (case fd_pump f of
      PumpAnswered c g s since page ss cs \<Rightarrow>
        (case send_all c s (pg_items page) kill f of
          (_, f1) \<Rightarrow> (let f2 = (if since < pg_nextCursor page then set_captured c g s (pg_nextCursor page) f1 else f1)
                      in f2\<lparr>fd_pump := PumpSpaces c ss cs\<rparr>))
    | _ \<Rightarrow> f)"

subsection \<open>The whole\<close>

text \<open>The trigger that captures an event gives it the next number of its space.\<close>

definition appends :: "string \<Rightarrow> string \<Rightarrow> jsobj \<Rightarrow> feed \<Rightarrow> feed" where
  "appends s t payload f = f\<lparr>fd_log := fd_log f @
     [\<lparr>ev_space = s, ev_seq = (case latest (fd_log f) s of None \<Rightarrow> 1 | Some k \<Rightarrow> k + 1), ev_type = t, ev_payload = payload\<rparr>]\<rparr>"

text \<open>Frames come from connections that were made.\<close>

datatype feed_event =
    Appends string string jsobj
  | Connects string
  | Shuts string
  | Closes string
  | Receives string "control_frame option"
  | TaskRuns nat db_answer "nat option" int
  | StartsPump
  | StopsPump
  | TimerFires
  | PumpNext
  | PumpReads
  | PumpFails
  | PumpLands "nat option"

fun feed_step :: "feed_env \<Rightarrow> feed \<Rightarrow> feed_event \<Rightarrow> feed" where
  "feed_step e f (Appends s t payload) = appends s t payload f"
| "feed_step e f (Connects c) = connects c f"
| "feed_step e f (Shuts c) = shuts c f"
| "feed_step e f (Closes c) = closes c f"
| "feed_step e f (Receives c frame) = (if c \<in> set (fd_known f) then receives c frame f else f)"
| "feed_step e f (TaskRuns i a kill now) = task_runs e i a kill now f"
| "feed_step e f StartsPump = f\<lparr>fd_timer := True\<rparr>"
| "feed_step e f StopsPump = f\<lparr>fd_timer := False\<rparr>"
| "feed_step e f TimerFires = (if fd_timer f then tick f else f)"
| "feed_step e f PumpNext = pump_next f"
| "feed_step e f PumpReads = pump_reads e f"
| "feed_step e f PumpFails = pump_fails f"
| "feed_step e f (PumpLands kill) = pump_lands kill f"

subsection \<open>What a step leaves alone\<close>

named_theorems feed_simps \<open>the operations of the event feed\<close>

lemma cursor_cursorsFor [simp]: "cursor_at (cursorsFor c f) d t = cursor_at f d t"
  by (auto simp: cursor_at_def cursorsFor_def split: option.splits)

lemma map_cursorsFor [simp]: "map_at (cursorsFor c f) d = (if d = c \<and> map_at f c = None then Some (fd_maps f) else map_at f d)"
  by (auto simp: map_at_def cursorsFor_def split: option.splits)

lemma cursor_map: "cursor_at f c s = Some k \<Longrightarrow> \<exists>g. map_at f c = Some g"
  by (auto simp: cursor_at_def map_at_def split: option.splits)

lemma cursor_seed [simp]: "cursor_at (seed c s k f) d t = (if d = c \<and> t = s then Some k else cursor_at f d t)"
proof -
  have "map_of (fd_cursors (cursorsFor c f)) c \<noteq> None" by (auto simp: cursorsFor_def split: option.splits)
  then obtain g m where m: "map_of (fd_cursors (cursorsFor c f)) c = Some (g, m)" by (cases "map_of (fd_cursors (cursorsFor c f)) c") auto
  have "cursor_at f d t = cursor_at (cursorsFor c f) d t" by simp
  with m show ?thesis by (auto simp: seed_def Let_def cursor_at_def update_conv')
qed

lemma map_seed [simp]: "map_at (seed c s k f) d = (if d = c \<and> map_at f c = None then Some (fd_maps f) else map_at f d)"
proof -
  have "map_at (seed c s k f) d = map_at (cursorsFor c f) d"
    by (auto simp: seed_def map_at_def update_conv' Let_def split: option.splits)
  then show ?thesis by simp
qed

lemma cursor_captured:
  "cursor_at (set_captured c g s k f) d t = (if d = c \<and> t = s \<and> map_at f c = Some g then Some k else cursor_at f d t)"
  "map_at (set_captured c g s k f) d = map_at f d"
  by (auto simp: cursor_at_def map_at_def set_captured_def update_conv' split: option.splits)

lemma cursor_forget: "cursor_at (forget c f) d t = (if d = c then None else cursor_at f d t)" "map_at (forget c f) d = (if d = c then None else map_at f d)"
  by (auto simp: cursor_at_def map_at_def forget_def)

text \<open>A step that touches neither log, pump nor tasks.\<close>

definition rest_same :: "feed \<Rightarrow> feed \<Rightarrow> bool" where
  "rest_same f f' \<longleftrightarrow> fd_log f' = fd_log f \<and> fd_pump f' = fd_pump f \<and> fd_tasks f' = fd_tasks f \<and> fd_reads f' = fd_reads f
     \<and> fd_known f' = fd_known f"

lemma rest_same_refl [simp]: "rest_same f f"
  by (simp add: rest_same_def)

lemma rest_same_trans: "rest_same f g \<Longrightarrow> rest_same g h \<Longrightarrow> rest_same f h"
  by (simp add: rest_same_def)

lemma rest_same_ops [simp]:
  "rest_same f (cursorsFor c f)" "rest_same f (seed c s k f)" "rest_same f (set_captured c g s k f)" "rest_same f (forget c f)"
  "rest_same f (shuts c f)" "rest_same f (closes c f)" "rest_same f (mark m f)"
proof -
  show c: "rest_same f (cursorsFor c f)" for f
    by (auto simp: rest_same_def cursorsFor_def split: option.splits)
  show "rest_same f (seed c s k f)"
    using c [of f] by (auto simp: rest_same_def seed_def Let_def split: option.splits)
qed (auto simp: rest_same_def set_captured_def forget_def shuts_def closes_def mark_def split: option.splits)

lemma keep_ops [simp]:
  "fd_log (cursorsFor c f) = fd_log f" "fd_pump (cursorsFor c f) = fd_pump f" "fd_tasks (cursorsFor c f) = fd_tasks f" "fd_known (cursorsFor c f) = fd_known f"
  "fd_log (seed c s k f) = fd_log f" "fd_pump (seed c s k f) = fd_pump f" "fd_tasks (seed c s k f) = fd_tasks f" "fd_known (seed c s k f) = fd_known f"
  "fd_log (set_captured c g s k f) = fd_log f" "fd_pump (set_captured c g s k f) = fd_pump f" "fd_tasks (set_captured c g s k f) = fd_tasks f" "fd_known (set_captured c g s k f) = fd_known f"
  "fd_log (forget c f) = fd_log f" "fd_pump (forget c f) = fd_pump f" "fd_tasks (forget c f) = fd_tasks f" "fd_known (forget c f) = fd_known f"
  "fd_log (shuts c f) = fd_log f" "fd_pump (shuts c f) = fd_pump f" "fd_tasks (shuts c f) = fd_tasks f" "fd_known (shuts c f) = fd_known f"
  "fd_log (closes c f) = fd_log f" "fd_pump (closes c f) = fd_pump f" "fd_tasks (closes c f) = fd_tasks f" "fd_known (closes c f) = fd_known f"
  "fd_log (mark m f) = fd_log f" "fd_pump (mark m f) = fd_pump f" "fd_tasks (mark m f) = fd_tasks f" "fd_known (mark m f) = fd_known f"
  using rest_same_ops [of f] unfolding rest_same_def by blast+

lemma open_ops [simp]:
  "fd_open (cursorsFor c f) = fd_open f" "fd_open (seed c s k f) = fd_open f" "fd_open (set_captured c g s k f) = fd_open f"
  "fd_open (forget c f) = fd_open f" "fd_open (mark m f) = fd_open f" "set (fd_open (shuts c f)) = set (fd_open f) - {c}"
  "set (fd_open (closes c f)) = set (fd_open f) - {c}"
  by (auto simp: cursorsFor_def seed_def set_captured_def forget_def shuts_def closes_def mark_def Let_def split: option.splits)

lemma trace_ops [simp]:
  "fd_trace (cursorsFor c f) = fd_trace f" "fd_trace (seed c s k f) = fd_trace f" "fd_trace (set_captured c g s k f) = fd_trace f"
  "fd_trace (forget c f) = fd_trace f" "fd_trace (shuts c f) = fd_trace f" "fd_trace (closes c f) = fd_trace f"
  "fd_trace (mark m f) = fd_trace f @ [m]"
  by (auto simp: cursorsFor_def seed_def set_captured_def forget_def shuts_def closes_def mark_def Let_def split: option.splits)

lemma cursor_mark [simp]: "cursor_at (mark m f) = cursor_at f" "map_at (mark m f) = map_at f"
  by (auto simp: cursor_at_def map_at_def mark_def fun_eq_iff)

lemma cursor_closes: "d \<noteq> c \<Longrightarrow> cursor_at (closes c f) d = cursor_at f d" "d \<noteq> c \<Longrightarrow> map_at (closes c f) d = map_at f d"
  by (auto simp: cursor_at_def map_at_def closes_def shuts_def forget_def fun_eq_iff)

subsection \<open>What was sent since delivery started\<close>

fun since_mark :: "string \<Rightarrow> string \<Rightarrow> (nat \<times> nat list) option \<Rightarrow> feed_mark \<Rightarrow> (nat \<times> nat list) option" where
  "since_mark c s acc (Started d t k) = (if d = c \<and> t = s then Some (k, []) else acc)"
| "since_mark c s acc (Sent d t q) = (if d = c \<and> t = s then map_option (\<lambda>(k, qs). (k, qs @ [q])) acc else acc)"
| "since_mark c s acc _ = acc"

definition since_start :: "string \<Rightarrow> string \<Rightarrow> feed_mark list \<Rightarrow> (nat \<times> nat list) option" where
  "since_start c s tr = foldl (since_mark c s) None tr"

lemma since_start_snoc [simp]: "since_start c s (tr @ [m]) = since_mark c s (since_start c s tr) m"
  by (simp add: since_start_def)

lemma send_all_others:
  assumes "send_all c s rs kill f = (fin, f')" "d \<noteq> c"
  shows "cursor_at f' d = cursor_at f d \<and> map_at f' d = map_at f d \<and> since_start d t (fd_trace f') = since_start d t (fd_trace f)"
  using assms
proof (induction c s rs kill f arbitrary: fin f' rule: send_all.induct)
  case (2 c s r rs kill f)
  then show ?case by (auto simp: Let_def cursor_closes split: if_splits option.splits nat.splits)
qed simp

definition fewer_open :: "feed \<Rightarrow> feed \<Rightarrow> bool" where
  "fewer_open f f' \<longleftrightarrow> rest_same f f' \<and> set (fd_open f') \<subseteq> set (fd_open f) \<and> fd_maps f' = fd_maps f"

lemma fewer_open_trans: "fewer_open f g \<Longrightarrow> fewer_open g h \<Longrightarrow> fewer_open f h"
  unfolding fewer_open_def using rest_same_trans by auto

lemma fewer_open_ops: "fewer_open f (mark m f)" "fewer_open f (closes c f)"
  by (auto simp: fewer_open_def mark_def closes_def shuts_def forget_def rest_same_def)

lemma send_all_rest: "send_all c s rs kill f = (fin, f') \<Longrightarrow> fewer_open f f'"
proof (induction c s rs kill f arbitrary: fin f' rule: send_all.induct)
  case (1 c s kill f)
  then show ?case by (simp add: fewer_open_def)
next
  case (2 c s r rs kill f)
  note m = fewer_open_trans [OF fewer_open_ops(1)] and mc = fewer_open_trans [OF fewer_open_ops(1) fewer_open_trans [OF fewer_open_ops(2)]]
  show ?case
  proof (cases "c \<in> set (fd_open f)")
    case False
    with 2(4) show ?thesis by (simp add: fewer_open_def)
  next
    case True
    then show ?thesis
    proof (cases kill)
      case None
      with 2(1) [OF _ refl None] 2(4) True show ?thesis by (auto simp: Let_def intro: m)
    next
      case (Some n)
      show ?thesis
      proof (cases n)
        case 0
        with 2(2) [OF _ refl Some 0] 2(4) True Some show ?thesis by (auto simp: Let_def intro: mc)
      next
        case (Suc n')
        from 2(4) True Some Suc have "send_all c s rs (Some n') (mark (Sent c s (ev_seq r)) f) = (fin, f')" by (simp add: Let_def)
        from 2(3) [OF _ refl Some Suc this] True show ?thesis by (auto intro: m)
      qed
    qed
  qed
qed

lemma send_all_open:
  assumes "send_all c s rs kill f = (fin, f')" "c \<in> set (fd_open f')"
  shows "fin \<and> cursor_at f' c = cursor_at f c \<and> map_at f' c = map_at f c
     \<and> (\<forall>t. since_start c t (fd_trace f') = (if t = s then map_option (\<lambda>(k, qs). (k, qs @ map ev_seq rs)) (since_start c s (fd_trace f))
          else since_start c t (fd_trace f)))"
  using assms
proof (induction c s rs kill f arbitrary: fin f' rule: send_all.induct)
  case (1 c s kill f)
  then show ?case by (auto simp: option.map_ident_strong split_beta)
next
  case (2 c s r rs kill f)
  have gone: "send_all c s rs None (closes c f1) = (fin, f') \<Longrightarrow> False" for f1
    using send_all_rest [of c s rs None "closes c f1" fin f'] 2(5) by (auto simp: fewer_open_def)
  have step: "since_start c t (fd_trace (mark (Sent c s (ev_seq r)) f)) = (if t = s
      then map_option (\<lambda>(k, qs). (k, qs @ [ev_seq r])) (since_start c s (fd_trace f)) else since_start c t (fd_trace f))" for t
    by auto
  show ?case
  proof (cases kill)
    case None
    with 2(1) [OF _ refl None] 2(4,5) step show ?thesis
      by (auto simp: Let_def option.map_comp o_def split_beta split: if_splits)
  next
    case (Some n)
    show ?thesis
    proof (cases n)
      case 0
      with Some 2(4,5) gone show ?thesis by (auto simp: Let_def split: if_splits)
    next
      case (Suc n')
      with Some 2(3) [OF _ refl Some Suc] 2(4,5) step show ?thesis
        by (auto simp: Let_def option.map_comp o_def split_beta split: if_splits)
    qed
  qed
qed

subsection \<open>Only connections that were made\<close>

fun pump_conns :: "pump_phase \<Rightarrow> string list" where
  "pump_conns PumpIdle = []"
| "pump_conns (PumpSinks cs) = cs"
| "pump_conns (PumpSpaces c ss cs) = c # cs"
| "pump_conns (PumpAsked c g s k ss cs) = c # cs"
| "pump_conns (PumpAnswered c g s k page ss cs) = c # cs"

fun task_conn :: "control_task \<Rightarrow> string" where
  "task_conn (SubscribeAsks c s ss) = c"
| "task_conn (SubscribeMark c s ss) = c"
| "task_conn (SubscribeSeeds c s m ss) = c"
| "task_conn (ResumeAsks c s k) = c"
| "task_conn (ResumeReads c s k) = c"
| "task_conn (ResumeReplays c s k page) = c"
| "task_conn (PresenceAsks c s ent v t) = c"
| "task_conn (PresenceSets c s ent v t) = c"

definition made :: "feed \<Rightarrow> string set" where
  "made f = {c. map_at f c \<noteq> None} \<union> {c. has_conn (fd_registry f) c} \<union> set (fd_open f)"

definition knows :: "feed \<Rightarrow> bool" where
  "knows f \<longleftrightarrow> made f \<subseteq> set (fd_known f) \<and> set (pump_conns (fd_pump f)) \<subseteq> set (fd_known f) \<and> task_conn ` set (fd_tasks f) \<subseteq> set (fd_known f)"

lemma registry_ops [simp]:
  "fd_registry (cursorsFor c f) = fd_registry f" "fd_registry (seed c s k f) = fd_registry f" "fd_registry (set_captured c g s k f) = fd_registry f"
  "fd_registry (forget c f) = fd_registry f" "fd_registry (shuts c f) = fd_registry f" "fd_registry (mark m f) = fd_registry f"
  by (auto simp: cursorsFor_def seed_def set_captured_def forget_def shuts_def mark_def Let_def split: option.splits)

lemma conn_registry [simp]:
  "has_conn (subscribe c s r) d \<longleftrightarrow> has_conn r d" "has_conn (unsubscribe c s r) d \<longleftrightarrow> has_conn r d"
  "has_conn (subscribePresence c on r) d \<longleftrightarrow> has_conn r d" "has_conn (remove_conn c r) d \<longleftrightarrow> has_conn r d \<and> d \<noteq> c"
  "has_conn (add_conn c r) d \<longleftrightarrow> has_conn r d \<or> d = c"
proof -
  have f: "conn_at (fold (detach c) ss r) = conn_at r" for ss by (rule fold_detach)
  show "has_conn (remove_conn c r) d \<longleftrightarrow> has_conn r d \<and> d \<noteq> c"
    by (auto simp: has_conn_def remove_conn_def conn_update f Let_def split: option.splits)
qed (auto simp: has_conn_def subscribe_def unsubscribe_def subscribePresence_def add_conn_def conn_update detach_simps
      conn_at_def update_conv' Let_def split: option.splits)

lemma conn_unsubscribes [simp]: "has_conn (fold (unsubscribe c) ss r) d \<longleftrightarrow> has_conn r d"
  by (induction ss arbitrary: r) simp_all

lemma map_shuts [simp]: "map_at (shuts c f) = map_at f"
  by (simp add: map_at_def shuts_def fun_eq_iff)

lemma made_ops:
  "made (cursorsFor c f) = insert c (made f)" "made (seed c s k f) = insert c (made f)" "made (set_captured c g s k f) = made f"
  "made (forget c f) \<subseteq> made f" "made (shuts c f) \<subseteq> made f" "made (closes c f) \<subseteq> made f" "made (mark m f) = made f"
proof -
  have "map_at (f\<lparr>fd_registry := r, fd_presence := p\<rparr>) = map_at f" for r p and f :: feed
    by (simp add: map_at_def fun_eq_iff)
  then show "made (closes c f) \<subseteq> made f"
    by (auto simp: made_def closes_def cursor_forget)
qed (auto simp: made_def cursor_captured cursor_forget)

lemma send_all_made: "send_all c s rs kill f = (fin, f') \<Longrightarrow> made f' \<subseteq> made f"
proof (induction c s rs kill f arbitrary: fin f' rule: send_all.induct)
  case (2 c s r rs kill f)
  have m: "made (closes c (mark m f)) \<subseteq> made f" for m using made_ops(6) [of c "mark m f"] made_ops(7) [of m f] by simp
  show ?case
  proof (cases "c \<in> set (fd_open f)")
    case True
    then show ?thesis
    proof (cases kill)
      case None
      with 2(1) [OF _ refl None] 2(4) True made_ops(7) show ?thesis by (auto simp: Let_def)
    next
      case (Some n)
      show ?thesis
      proof (cases n)
        case 0
        with 2(2) [OF _ refl Some 0] 2(4) True Some m show ?thesis by (auto simp: Let_def dest!: subsetD)
      next
        case (Suc n')
        from 2(4) True Some Suc have "send_all c s rs (Some n') (mark (Sent c s (ev_seq r)) f) = (fin, f')" by (simp add: Let_def)
        from 2(3) [OF _ refl Some Suc this] True made_ops(7) show ?thesis by simp
      qed
    qed
  qed (use 2(4) in simp)
qed simp

lemma made_fields [simp]:
  "made (f\<lparr>fd_reads := n\<rparr>) = made f" "made (f\<lparr>fd_presence := p\<rparr>) = made f" "made (f\<lparr>fd_tasks := ts\<rparr>) = made f"
  "made (f\<lparr>fd_pump := ph\<rparr>) = made f" "made (f\<lparr>fd_log := l\<rparr>) = made f" "made (f\<lparr>fd_timer := b\<rparr>) = made f"
  by (simp_all add: made_def map_at_def)

lemma made_registry: "(\<And>d. has_conn r d \<longleftrightarrow> has_conn (fd_registry f) d) \<Longrightarrow> made (f\<lparr>fd_registry := r\<rparr>) = made f"
  by (simp add: made_def map_at_def)

definition task_keeps :: "feed \<Rightarrow> feed \<Rightarrow> bool" where
  "task_keeps f f' \<longleftrightarrow> fd_log f' = fd_log f \<and> fd_pump f' = fd_pump f \<and> fd_tasks f' = fd_tasks f \<and> fd_known f' = fd_known f"

lemma rest_same_keeps: "rest_same f f' \<Longrightarrow> task_keeps f f'"
  by (simp add: rest_same_def task_keeps_def)

lemma task_keeps_refl [simp]: "task_keeps f f"
  by (simp add: task_keeps_def)

lemma task_keeps_trans: "task_keeps f g \<Longrightarrow> task_keeps g h \<Longrightarrow> task_keeps f h"
  by (simp add: task_keeps_def)

lemma run_task_keeps: "run_task e a kill now t f = (ts, f') \<Longrightarrow> task_keeps f f'"
proof (cases t)
  case (ResumeReplays c s k page)
  assume r: "run_task e a kill now t f = (ts, f')"
  obtain fin f1 where s: "send_all c s (pg_items page) kill (mark (Started c s k) f) = (fin, f1)" by fastforce
  have "task_keeps f f1"
    using send_all_rest [OF s] task_keeps_trans [OF rest_same_keeps [OF rest_same_ops(7)]] by (auto simp: fewer_open_def dest: rest_same_keeps)
  with s r ResumeReplays task_keeps_trans [OF this rest_same_keeps [OF rest_same_ops(2)]] show ?thesis by (auto split: if_splits)
qed (auto simp: task_keeps_def mark_def seed_def cursorsFor_def Let_def split: if_splits db_answer.splits option.splits)

lemma run_task_made:
  assumes "run_task e a kill now t f = (ts, f')"
  shows "made f' \<subseteq> insert (task_conn t) (made f) \<and> task_conn ` set ts \<subseteq> {task_conn t}"
proof (cases t)
  case (ResumeReplays c s k page)
  obtain fin f1 where s: "send_all c s (pg_items page) kill (mark (Started c s k) f) = (fin, f1)" by fastforce
  from send_all_made [OF s] s assms ResumeReplays show ?thesis by (auto simp: made_ops split: if_splits)
qed (use assms in \<open>auto simp: made_ops made_registry subscribe_next_def split: if_splits list.splits db_answer.splits option.splits\<close>)

lemma splice_set: "set (take i xs @ ys @ drop j xs) \<subseteq> set ys \<union> set xs"
  using set_take_subset set_drop_subset by fastforce

lemma knows_step: "knows f \<Longrightarrow> knows (feed_step e f ev)"
proof (cases ev)
  case (TaskRuns i a kill now)
  assume k: "knows f"
  show ?thesis
  proof (cases "i < length (fd_tasks f)")
    case True
    obtain ts f1 where r: "run_task e a kill now (fd_tasks f ! i) f = (ts, f1)" by fastforce
    have "task_conn (fd_tasks f ! i) \<in> set (fd_known f)" using k True by (force simp: knows_def)
    with run_task_made [OF r] run_task_keeps [OF r] k have "made f1 \<subseteq> set (fd_known f)" "task_conn ` set ts \<subseteq> set (fd_known f)"
      by (auto simp: knows_def)
    then have "task_conn ` set (take i (fd_tasks f) @ ts @ drop (Suc i) (fd_tasks f)) \<subseteq> set (fd_known f)"
      using splice_set [of i "fd_tasks f" ts "Suc i"] k unfolding knows_def by blast
    with \<open>made f1 \<subseteq> set (fd_known f)\<close> show ?thesis
      using TaskRuns True r run_task_keeps [OF r] k by (simp add: knows_def task_runs_def task_keeps_def)
  qed (use TaskRuns k in \<open>simp add: task_runs_def\<close>)
next
  case (PumpLands kill)
  assume k: "knows f"
  show ?thesis
  proof (cases "fd_pump f")
    case (PumpAnswered c g s since page ss cs)
    obtain fin f1 where r: "send_all c s (pg_items page) kill f = (fin, f1)" by fastforce
    show ?thesis
      using PumpLands PumpAnswered r send_all_made [OF r] send_all_rest [OF r] k
      by (auto simp: knows_def pump_lands_def fewer_open_def made_ops Let_def split: if_splits)
        (auto simp: rest_same_def set_captured_def split: option.splits)
  qed (use PumpLands k in \<open>simp_all add: pump_lands_def\<close>)
next
  case PumpNext
  assume k: "knows f"
  then show ?thesis
    using PumpNext
    by (auto simp: knows_def pump_next_def made_ops Let_def split: pump_phase.splits list.splits option.splits dest: subsetD [OF made_ops(4)])
next
  case (Receives c frame)
  assume k: "knows f"
  then show ?thesis
    using Receives by (auto simp: knows_def receives_def made_ops made_registry subscribe_next_def split: option.splits control_frame.splits list.splits)
next
  case (Connects c)
  assume k: "knows f"
  have "made (f\<lparr>fd_known := c # fd_known f, fd_open := c # fd_open f, fd_registry := add_conn c (fd_registry f)\<rparr>) \<subseteq> insert c (made f)"
    by (auto simp: made_def map_at_def)
  with Connects k show ?thesis by (auto simp: knows_def connects_def)
next
  case TimerFires
  assume k: "knows f"
  have "set (sinks (fd_registry f)) \<subseteq> made f"
    by (force simp: sinks_def made_def has_conn_def conn_at_def map_of_eq_None_iff)
  with TimerFires k show ?thesis by (auto simp: knows_def tick_def)
qed (auto simp: knows_def appends_def pump_reads_def pump_fails_def split: pump_phase.splits dest: subsetD [OF made_ops(5)] subsetD [OF made_ops(6)])

end
