(* ===== verification/EventDelivery.thy ===== *)
theory EventDelivery
  imports EventFeed
begin

text \<open>
  What a socket is sent by the pump and by a resume is exact, as long as the two do not race: the
  invariant that ties the cursor of a connection to what it was sent since delivery started, that
  every step keeps it, and concrete runs of the races that the code leaves open.
\<close>

subsection \<open>No gap and no duplicate\<close>

definition readable :: "feed_env \<Rightarrow> nat \<Rightarrow> string \<Rightarrow> event_row \<Rightarrow> bool" where
  "readable e n c r \<longleftrightarrow> lv_reads (fe_view e n c) r \<and> lv_maps (fe_view e n c) r"

text \<open>
  The numbers sent from a start to a cursor: rising, each of a row between the two that some read
  let through, and every row between the two that all reads let through.
\<close>

definition exact :: "feed_env \<Rightarrow> event_row list \<Rightarrow> string \<Rightarrow> string \<Rightarrow> nat \<Rightarrow> nat \<Rightarrow> nat list \<Rightarrow> bool" where
  "exact e table c s k0 k qs \<longleftrightarrow> sorted_wrt (<) qs \<and> k0 \<le> k \<and> (k = k0 \<or> (\<exists>r \<in> set table. ev_space r = s \<and> ev_seq r = k))
     \<and> (\<forall>q \<in> set qs. k0 < q \<and> q \<le> k \<and> (\<exists>r \<in> set table. ev_space r = s \<and> ev_seq r = q \<and> (\<exists>n. readable e n c r)))
     \<and> (\<forall>r \<in> set table. ev_space r = s \<and> k0 < ev_seq r \<and> ev_seq r \<le> k \<and> (\<forall>n. readable e n c r) \<longrightarrow> ev_seq r \<in> set qs)"

lemma exact_start: "exact e table c s k k []"
  by (auto simp: exact_def)

lemma exactD:
  assumes "exact e table c s k0 k qs"
  shows "sorted_wrt (<) qs" "k0 \<le> k" "k = k0 \<or> (\<exists>r \<in> set table. ev_space r = s \<and> ev_seq r = k)"
    "q \<in> set qs \<Longrightarrow> k0 < q \<and> q \<le> k \<and> (\<exists>r \<in> set table. ev_space r = s \<and> ev_seq r = q \<and> (\<exists>n. readable e n c r))"
    "r \<in> set table \<Longrightarrow> ev_space r = s \<Longrightarrow> k0 < ev_seq r \<Longrightarrow> ev_seq r \<le> k \<Longrightarrow> \<forall>n. readable e n c r \<Longrightarrow> ev_seq r \<in> set qs"
  using assms by (auto simp: exact_def)

lemma exact_trans:
  assumes a: "exact e table c s k0 k1 qs" and b: "exact e table c s k1 k2 ps"
  shows "exact e table c s k0 k2 (qs @ ps)"
  unfolding exact_def
proof (intro conjI ballI impI)
  show "sorted_wrt (<) (qs @ ps)"
    using exactD(1) [OF a] exactD(1) [OF b] exactD(4) [OF a] exactD(4) [OF b] by (fastforce simp: sorted_wrt_append)
  show "k0 \<le> k2" using exactD(2) [OF a] exactD(2) [OF b] by simp
  show "k2 = k0 \<or> (\<exists>r \<in> set table. ev_space r = s \<and> ev_seq r = k2)"
    using exactD(3) [OF a] exactD(3) [OF b] by auto
next
  fix q assume "q \<in> set (qs @ ps)"
  then show "k0 < q" "q \<le> k2" "\<exists>r \<in> set table. ev_space r = s \<and> ev_seq r = q \<and> (\<exists>n. readable e n c r)"
    using exactD(4) [OF a, of q] exactD(4) [OF b, of q] exactD(2) [OF a] exactD(2) [OF b] by auto
next
  fix r assume r: "r \<in> set table" "ev_space r = s \<and> k0 < ev_seq r \<and> ev_seq r \<le> k2 \<and> (\<forall>n. readable e n c r)"
  then show "ev_seq r \<in> set (qs @ ps)"
    using exactD(5) [OF a r(1)] exactD(5) [OF b r(1)] by (cases "ev_seq r \<le> k1") auto
qed

lemma exact_grows:
  assumes a: "exact e table c s k0 k qs" and new: "\<forall>q \<in> set table. ev_space q = ev_space r \<longrightarrow> ev_seq q < ev_seq r"
  shows "exact e (table @ [r]) c s k0 k qs"
proof -
  have "\<not> (k0 < ev_seq r \<and> ev_seq r \<le> k)" if "ev_space r = s"
    using exactD(3) [OF a] new that by auto
  with exactD [OF a] show ?thesis unfolding exact_def by auto
qed

lemma latest_less: "r \<in> set table \<Longrightarrow> ev_seq r < (case latest table (ev_space r) of None \<Rightarrow> 1 | Some k \<Rightarrow> k + 1)"
proof -
  assume r: "r \<in> set table"
  let ?ks = "map ev_seq (filter (\<lambda>q. ev_space q = ev_space r) table)"
  have m: "ev_seq r \<in> set ?ks" using r by auto
  then have "?ks \<noteq> []" by (metis empty_iff empty_set)
  then have "latest table (ev_space r) = Some (Max (set ?ks))" by (simp add: latest_def Let_def del: map_is_Nil_conv)
  with Max_ge [OF _ m] show ?thesis by simp
qed

lemma sorted_last: "sorted_wrt (<) (map f xs) \<Longrightarrow> x \<in> set xs \<Longrightarrow> (f x :: nat) \<le> f (last xs)"
  by (induction xs) (auto simp: less_imp_le)

lemma exact_page:
  assumes "seqs_ok table"
  shows "exact e table c s k (pg_nextCursor (page_since (fe_view e n c) table s k limit None))
     (map ev_seq (pg_items (page_since (fe_view e n c) table s k limit None)))"
proof -
  define cap where "cap = min (max 1 limit) MAX_POLL_LIMIT"
  define xs where "xs = rows_after (fe_view e n c) table s k"
  define p where "p = page_since (fe_view e n c) table s k limit None"
  have cap: "0 < cap" by (simp add: cap_def MAX_POLL_LIMIT_def)
  have items: "pg_items p = mapRows (fe_view e n c) (take cap xs)" and nx: "pg_nextCursor p = (if take cap xs = [] then k else ev_seq (last (take cap xs)))"
    by (simp_all only: p_def page_since_def Let_def cap_def xs_def event_page.simps) (simp add: about_def)
  have xs_set: "set xs = {r \<in> set table. ev_space r = s \<and> k < ev_seq r \<and> lv_reads (fe_view e n c) r}" by (simp add: xs_def)
  have srt: "sorted_wrt (<) (map ev_seq xs)" using rows_after_sorted [OF assms] by (simp add: xs_def)
  show ?thesis
  proof (cases "take cap xs = []")
    case True
    with items nx have "pg_items p = []" "pg_nextCursor p = k" by (simp_all add: mapRows_def)
    then show ?thesis by (simp add: p_def [symmetric] exact_start)
  next
    case False
    define l where "l = last (take cap xs)"
    have lx: "l \<in> set xs" unfolding l_def by (rule in_set_takeD [OF last_in_set [OF False]])
    have srt': "sorted_wrt (<) (map ev_seq (take cap xs))" using srt by (metis sorted_wrt_take take_map)
    have le: "ev_seq r \<le> ev_seq l" if "r \<in> set (take cap xs)" for r
      unfolding l_def by (rule sorted_last [OF srt' that])
    have up: "r \<in> set (take cap xs)" if "r \<in> set xs" "ev_seq r \<le> ev_seq l" for r
    proof (rule ccontr)
      assume "r \<notin> set (take cap xs)"
      with that(1) have "r \<in> set (drop cap xs)" by (metis Un_iff append_take_drop_id set_append)
      moreover have "drop cap xs = filter (\<lambda>x. ev_seq l < ev_seq x) xs"
        using filter_past_take [OF srt cap] False by (simp add: l_def)
      ultimately show False using that(2) by simp
    qed
    have "sorted_wrt (<) (map ev_seq (pg_items p))" using srt' by (simp add: items mapRows_def sorted_wrt_map sorted_wrt_filter)
    moreover have "pg_nextCursor p = ev_seq l" using nx False by (simp add: l_def)
    moreover have sub: "set (take cap xs) \<subseteq> set xs" by (rule set_take_subset)
    moreover have "k < q \<and> q \<le> ev_seq l \<and> (\<exists>r \<in> set table. ev_space r = s \<and> ev_seq r = q \<and> (\<exists>n. readable e n c r))"
      if "q \<in> set (map ev_seq (pg_items p))" for q
    proof -
      obtain r where r: "r \<in> set (take cap xs)" "lv_maps (fe_view e n c) r" "q = ev_seq r"
        using \<open>q \<in> set (map ev_seq (pg_items p))\<close> by (auto simp: items mapRows_def)
      then have "r \<in> set table" "ev_space r = s" "k < ev_seq r" "readable e n c r"
        using subsetD [OF sub r(1)] by (auto simp: xs_set readable_def)
      with r le show ?thesis by blast
    qed
    moreover have "ev_seq r \<in> set (map ev_seq (pg_items p))"
      if "r \<in> set table" "ev_space r = s" "k < ev_seq r" "ev_seq r \<le> ev_seq l" "\<forall>n. readable e n c r" for r
      using that up by (auto simp: items mapRows_def readable_def xs_set)
    ultimately show ?thesis
      using lx unfolding p_def [symmetric] exact_def xs_set by auto
  qed
qed


text \<open>The page a pump or a resume holds is exact, and the cursor a pump holds is the connection's.\<close>

definition page_ok :: "feed_env \<Rightarrow> feed \<Rightarrow> string \<Rightarrow> string \<Rightarrow> nat \<Rightarrow> event_page \<Rightarrow> bool" where
  "page_ok e f c s k page \<longleftrightarrow> exact e (fd_log f) c s k (pg_nextCursor page) (map ev_seq (pg_items page))"

definition holds :: "feed \<Rightarrow> string \<Rightarrow> nat \<Rightarrow> string \<Rightarrow> nat \<Rightarrow> bool" where
  "holds f c g s k \<longleftrightarrow> (c \<in> set (fd_open f) \<longrightarrow> map_at f c = Some g \<and> cursor_at f c s = Some k)"

fun pump_ok :: "feed_env \<Rightarrow> feed \<Rightarrow> pump_phase \<Rightarrow> bool" where
  "pump_ok e f (PumpAsked c g s k ss cs) = holds f c g s k"
| "pump_ok e f (PumpAnswered c g s k page ss cs) = (holds f c g s k \<and> page_ok e f c s k page)"
| "pump_ok e f _ = True"

fun task_ok :: "feed_env \<Rightarrow> feed \<Rightarrow> control_task \<Rightarrow> bool" where
  "task_ok e f (ResumeReplays c s k page) = page_ok e f c s k page"
| "task_ok e f _ = True"

definition delivered_exactly :: "feed_env \<Rightarrow> feed \<Rightarrow> string \<Rightarrow> string \<Rightarrow> bool" where
  "delivered_exactly e f c s \<longleftrightarrow> (\<forall>k. cursor_at f c s = Some k \<longrightarrow>
     (\<exists>k0 qs. since_start c s (fd_trace f) = Some (k0, qs) \<and> exact e (fd_log f) c s k0 k qs))"

definition feed_inv :: "feed_env \<Rightarrow> feed \<Rightarrow> bool" where
  "feed_inv e f \<longleftrightarrow> knows f \<and> seqs_ok (fd_log f) \<and> (\<forall>c \<in> set (fd_open f). \<forall>s. delivered_exactly e f c s)
     \<and> pump_ok e f (fd_pump f) \<and> (\<forall>t \<in> set (fd_tasks f). task_ok e f t)"

text \<open>
  The hazard: a start of a subscription or the end of a resume that lands while the pump waits for
  the log, or has its page in hand, for the same connection and space.
\<close>

fun pump_busy :: "pump_phase \<Rightarrow> string \<Rightarrow> string \<Rightarrow> bool" where
  "pump_busy (PumpAsked c g s k ss cs) d t = (d = c \<and> t = s)"
| "pump_busy (PumpAnswered c g s k page ss cs) d t = (d = c \<and> t = s)"
| "pump_busy _ d t = False"

fun restarts :: "control_task \<Rightarrow> (string \<times> string) option" where
  "restarts (SubscribeSeeds c s m ss) = (if m = None then None else Some (c, s))"
| "restarts (ResumeReplays c s k page) = Some (c, s)"
| "restarts _ = None"

definition no_hazard :: "feed \<Rightarrow> feed_event \<Rightarrow> bool" where
  "no_hazard f ev = (case ev of
      TaskRuns i a kill now \<Rightarrow>
        i < length (fd_tasks f) \<longrightarrow> (case restarts (fd_tasks f ! i) of None \<Rightarrow> True | Some (c, s) \<Rightarrow> \<not> pump_busy (fd_pump f) c s)
    | _ \<Rightarrow> True)"

text \<open>A change that leaves delivery alone for the connections that stay open, but for some pairs.\<close>

definition calm :: "(string \<times> string) set \<Rightarrow> feed \<Rightarrow> feed \<Rightarrow> bool" where
  "calm X f f' \<longleftrightarrow> fd_log f' = fd_log f \<and> set (fd_open f') \<subseteq> set (fd_open f)
     \<and> (\<forall>c \<in> set (fd_open f'). (\<forall>g. map_at f c = Some g \<longrightarrow> map_at f' c = Some g)
          \<and> (\<forall>s. (c, s) \<notin> X \<longrightarrow> cursor_at f' c s = cursor_at f c s \<and> since_start c s (fd_trace f') = since_start c s (fd_trace f)))"

lemma calm_refl [simp]: "calm X f f"
  by (simp add: calm_def)

lemma calm_trans: "calm X f g \<Longrightarrow> calm X g h \<Longrightarrow> calm X f h"
  by (fastforce simp: calm_def)

lemma calm_keeps:
  assumes "calm X f f'"
  shows "\<lbrakk>\<forall>c \<in> set (fd_open f). \<forall>s. delivered_exactly e f c s; c \<in> set (fd_open f'); (c, s) \<notin> X\<rbrakk> \<Longrightarrow> delivered_exactly e f' c s"
    "pump_ok e f ph \<Longrightarrow> \<forall>(c, s) \<in> X. \<not> pump_busy ph c s \<Longrightarrow> pump_ok e f' ph" "task_ok e f t \<Longrightarrow> task_ok e f' t"
proof -
  show "\<lbrakk>\<forall>c \<in> set (fd_open f). \<forall>s. delivered_exactly e f c s; c \<in> set (fd_open f'); (c, s) \<notin> X\<rbrakk> \<Longrightarrow> delivered_exactly e f' c s"
    using assms unfolding calm_def delivered_exactly_def by (metis subsetD)
  have h: "holds f c g s k \<Longrightarrow> (c, s) \<notin> X \<Longrightarrow> holds f' c g s k" "page_ok e f c s k page = page_ok e f' c s k page" for c g s k page
    using assms by (auto simp: calm_def holds_def page_ok_def)
  show "pump_ok e f ph \<Longrightarrow> \<forall>(c, s) \<in> X. \<not> pump_busy ph c s \<Longrightarrow> pump_ok e f' ph" by (cases ph) (auto simp: h)
  show "task_ok e f t \<Longrightarrow> task_ok e f' t" by (cases t) (auto simp: h)
qed

lemma calm_inv:
  assumes "feed_inv e f" "calm X f f'" "knows f'" "pump_ok e f' (fd_pump f')" "\<forall>(c, s) \<in> X. c \<in> set (fd_open f') \<longrightarrow> delivered_exactly e f' c s"
    "\<forall>t \<in> set (fd_tasks f'). t \<in> set (fd_tasks f) \<or> task_ok e f' t"
  shows "feed_inv e f'"
proof -
  have "delivered_exactly e f' c s" if "c \<in> set (fd_open f')" for c s
    using that assms(1,5) calm_keeps(1) [OF assms(2) _ that] by (cases "(c, s) \<in> X") (auto simp: feed_inv_def)
  moreover have "task_ok e f' t" if "t \<in> set (fd_tasks f')" for t
    using that assms(1,6) calm_keeps(3) [OF assms(2)] by (auto simp: feed_inv_def)
  ultimately show ?thesis using assms(1-4) by (simp add: feed_inv_def calm_def)
qed

text \<open>For the pump that does not move.\<close>

lemma calm_inv_pump:
  assumes "feed_inv e f" "calm X f f'" "knows f'" "fd_pump f' = fd_pump f" "\<forall>(c, s) \<in> X. \<not> pump_busy (fd_pump f) c s"
    "\<forall>(c, s) \<in> X. c \<in> set (fd_open f') \<longrightarrow> delivered_exactly e f' c s" "\<forall>t \<in> set (fd_tasks f'). t \<in> set (fd_tasks f) \<or> task_ok e f' t"
  shows "feed_inv e f'"
proof (rule calm_inv [OF assms(1-3) _ assms(6,7)])
  show "pump_ok e f' (fd_pump f')"
    using calm_keeps(2) [OF assms(2) _ assms(5)] assms(1,4) by (simp add: feed_inv_def)
qed

lemma calm_ops:
  "calm X f (cursorsFor c f)" "calm X f (shuts c f)" "calm X f (closes c f)" "c \<notin> set (fd_open f) \<Longrightarrow> calm X f (forget c f)"
  by (auto simp: calm_def cursor_closes cursor_forget) (auto simp: cursor_at_def shuts_def)

lemma calm_fields:
  "calm X f (f\<lparr>fd_reads := n\<rparr>)" "calm X f (f\<lparr>fd_presence := p\<rparr>)" "calm X f (f\<lparr>fd_tasks := ts\<rparr>)" "calm X f (f\<lparr>fd_pump := ph\<rparr>)"
  "calm X f (f\<lparr>fd_timer := b\<rparr>)" "calm X f (f\<lparr>fd_registry := r\<rparr>)"
  by (auto simp: calm_def cursor_at_def map_at_def)

lemma calm_marks: "calm X f (mark (Allowed c s) f)" "calm X f (mark (Refused c) f)" "calm X f (mark (Asserted c s) f)"
  by (auto simp: calm_def)

lemma page_ok_fields [simp]: "page_ok e (f\<lparr>fd_pump := ph\<rparr>) = page_ok e f" "page_ok e (f\<lparr>fd_reads := n\<rparr>) = page_ok e f" "page_ok e (f\<lparr>fd_tasks := ts\<rparr>) = page_ok e f"
  by (simp_all add: page_ok_def fun_eq_iff)

lemma page_read_ok: "seqs_ok (fd_log f) \<Longrightarrow> page_ok e f c s k (page_since (fe_view e n c) (fd_log f) s k limit None)"
  by (simp add: page_ok_def exact_page)

lemma seed_calm: "calm {(c, s)} f (mark (Started c s k) (seed c s k f))"
  by (auto simp: calm_def)

lemma seeded_exactly: "delivered_exactly e (mark (Started c s k) (seed c s k f)) c s"
  by (simp add: delivered_exactly_def exact_start)

lemma replay_calm:
  assumes r: "send_all c s rs kill (mark (Started c s k) f) = (fin, f1)"
  shows "calm {(c, s)} f (if fin then seed c s k' f1 else f1)"
proof -
  have "d \<in> set (fd_open f1) \<Longrightarrow> (\<forall>g. map_at f d = Some g \<longrightarrow> map_at f1 d = Some g)
      \<and> (\<forall>t. (d, t) \<noteq> (c, s) \<longrightarrow> cursor_at f1 d t = cursor_at f d t \<and> since_start d t (fd_trace f1) = since_start d t (fd_trace f))" for d
    using send_all_others [OF r, of d] send_all_open [OF r] by (cases "d = c") auto
  with send_all_rest [OF r] show ?thesis by (auto simp: calm_def fewer_open_def rest_same_def)
qed

lemma replayed_exactly:
  assumes r: "send_all c s (pg_items page) kill (mark (Started c s k) f) = (fin, f1)" and p: "page_ok e f c s k page"
    and o: "c \<in> set (fd_open f1)"
  shows "delivered_exactly e (if fin then seed c s (pg_nextCursor page) f1 else f1) c s"
  using send_all_open [OF r o] send_all_rest [OF r] p
  by (auto simp: delivered_exactly_def page_ok_def fewer_open_def rest_same_def)

text \<open>What a task does to delivery, by the pair it restarts.\<close>

definition restart_set :: "control_task \<Rightarrow> (string \<times> string) set" where
  "restart_set t = (case restarts t of None \<Rightarrow> {} | Some p \<Rightarrow> {p})"

lemma run_task_calm:
  assumes r: "run_task e a kill now t f = (ts, f1)" and k: "task_ok e f t" and q: "seqs_ok (fd_log f)"
  shows "calm (restart_set t) f f1 \<and> (\<forall>(c, s) \<in> restart_set t. c \<in> set (fd_open f1) \<longrightarrow> delivered_exactly e f1 c s)
     \<and> (\<forall>u \<in> set ts. task_ok e f1 u)"
proof (cases t)
  case (SubscribeSeeds c s m ss)
  then show ?thesis
    using r seed_calm seeded_exactly by (auto simp: restart_set_def subscribe_next_def split: option.splits list.splits)
next
  case (ResumeReplays c s k page)
  obtain fin f2 where s: "send_all c s (pg_items page) kill (mark (Started c s k) f) = (fin, f2)" by fastforce
  have "page_ok e f c s k page" using k ResumeReplays by simp
  then show ?thesis
    using ResumeReplays r s replay_calm [OF s] replayed_exactly [OF s]
    by (cases fin) (auto simp: restart_set_def)
qed (use r q in \<open>auto simp: restart_set_def subscribe_next_def page_read_ok intro: calm_marks calm_fields calm_trans [OF calm_fields(6) calm_marks(1)]
    calm_trans [OF calm_fields(2) calm_marks(3)] split: if_splits db_answer.splits list.splits option.splits\<close>)

lemma task_runs_inv:
  assumes i: "feed_inv e f" and ok: "no_hazard f (TaskRuns n a kill now)"
  shows "feed_inv e (task_runs e n a kill now f)"
proof (cases "n < length (fd_tasks f)")
  case True
  let ?t = "fd_tasks f ! n"
  obtain ts f1 where r: "run_task e a kill now ?t f = (ts, f1)" by fastforce
  define f' where "f' = f1\<lparr>fd_tasks := take n (fd_tasks f) @ ts @ drop (Suc n) (fd_tasks f)\<rparr>"
  have f': "task_runs e n a kill now f = f'" using True r by (simp add: task_runs_def f'_def)
  have "task_ok e f ?t" "seqs_ok (fd_log f)" using i True by (auto simp: feed_inv_def)
  note c = run_task_calm [OF r this]
  have "delivered_exactly e f' = delivered_exactly e f1"
    by (simp add: f'_def delivered_exactly_def cursor_at_def fun_eq_iff)
  moreover have "task_ok e f' = task_ok e f1"
  proof
    fix u show "task_ok e f' u = task_ok e f1 u" by (cases u) (simp_all add: f'_def)
  qed
  moreover have "knows f'" using knows_step [of f e "TaskRuns n a kill now"] i f' by (simp add: feed_inv_def)
  moreover have "fd_pump f' = fd_pump f" using run_task_keeps [OF r] by (simp add: f'_def task_keeps_def)
  moreover have "\<forall>(c, s) \<in> restart_set ?t. \<not> pump_busy (fd_pump f) c s"
    using ok True by (auto simp: no_hazard_def restart_set_def split: option.splits)
  moreover have "calm (restart_set ?t) f f'"
    unfolding f'_def using c calm_trans [OF _ calm_fields(3)] by blast
  moreover have "set (fd_tasks f') \<subseteq> set ts \<union> set (fd_tasks f)"
    using splice_set [of n "fd_tasks f" ts "Suc n"] by (simp add: f'_def)
  ultimately show ?thesis
    unfolding f' using c by (intro calm_inv_pump [OF i]) (auto simp: f'_def)
qed (use i in \<open>simp add: task_runs_def\<close>)

lemma lands_inv:
  assumes i: "feed_inv e f"
  shows "feed_inv e (pump_lands kill f)"
proof (cases "fd_pump f")
  case (PumpAnswered c g s k page ss cs)
  obtain fin f1 where r: "send_all c s (pg_items page) kill f = (fin, f1)" by fastforce
  define f2 where "f2 = (if k < pg_nextCursor page then set_captured c g s (pg_nextCursor page) f1 else f1)"
  define f' where "f' = f2\<lparr>fd_pump := PumpSpaces c ss cs\<rparr>"
  have f': "pump_lands kill f = f'" using PumpAnswered r by (simp add: pump_lands_def f'_def f2_def Let_def)
  have h: "holds f c g s k" and p: "page_ok e f c s k page" using i PumpAnswered by (auto simp: feed_inv_def)
  have rest: "fd_log f1 = fd_log f" "fd_tasks f1 = fd_tasks f" "set (fd_open f1) \<subseteq> set (fd_open f)"
    using send_all_rest [OF r] by (auto simp: fewer_open_def rest_same_def)
  have same: "d \<in> set (fd_open f1) \<Longrightarrow> (\<forall>g. map_at f d = Some g \<longrightarrow> map_at f2 d = Some g)
      \<and> (\<forall>t. (d, t) \<noteq> (c, s) \<longrightarrow> cursor_at f2 d t = cursor_at f d t \<and> since_start d t (fd_trace f2) = since_start d t (fd_trace f))" for d
    using send_all_others [OF r, of d] send_all_open [OF r] by (cases "d = c") (auto simp: f2_def cursor_captured)
  have fields: "fd_open f2 = fd_open f1" "fd_log f2 = fd_log f1" "fd_tasks f2 = fd_tasks f1" "fd_trace f2 = fd_trace f1" by (simp_all add: f2_def)
  have calm: "calm {(c, s)} f f2" using same rest fields by (auto simp: calm_def)
  have "delivered_exactly e f2 c s" if o: "c \<in> set (fd_open f1)"
  proof -
    have m: "map_at f c = Some g" "cursor_at f c s = Some k" using h o rest(3) by (auto simp: holds_def)
    have "delivered_exactly e f c s" using i o rest(3) by (auto simp: feed_inv_def)
    with m(2) obtain k0 qs where q: "since_start c s (fd_trace f) = Some (k0, qs)" "exact e (fd_log f) c s k0 k qs"
      by (auto simp: delivered_exactly_def)
    note s = send_all_open [OF r o]
    have ex: "exact e (fd_log f) c s k0 (pg_nextCursor page) (qs @ map ev_seq (pg_items page))"
      using exact_trans [OF q(2)] p by (simp add: page_ok_def)
    have "k \<le> pg_nextCursor page" using p by (simp add: page_ok_def exactD(2))
    then have "cursor_at f2 c s = Some (pg_nextCursor page)" using s m by (auto simp: f2_def cursor_captured)
    moreover have "since_start c s (fd_trace f2) = Some (k0, qs @ map ev_seq (pg_items page))" using s q fields by simp
    ultimately show ?thesis using ex fields rest by (auto simp: delivered_exactly_def)
  qed
  moreover have "delivered_exactly e f' = delivered_exactly e f2"
    by (simp add: f'_def delivered_exactly_def cursor_at_def fun_eq_iff)
  moreover have "calm {(c, s)} f f'" unfolding f'_def by (rule calm_trans [OF calm calm_fields(4)])
  moreover have "knows f'" using knows_step [of f e "PumpLands kill"] i f' by (simp add: feed_inv_def)
  ultimately show ?thesis
    unfolding f' using fields rest by (intro calm_inv [OF i]) (auto simp: f'_def)
qed (use i in \<open>simp_all add: pump_lands_def\<close>)

lemma pump_fields: "cursor_at (f\<lparr>fd_pump := ph\<rparr>) = cursor_at f" "map_at (f\<lparr>fd_pump := ph\<rparr>) = map_at f"
  by (simp_all add: cursor_at_def map_at_def fun_eq_iff)

lemma next_inv:
  assumes i: "feed_inv e f"
  shows "feed_inv e (pump_next f)"
proof -
  have k: "knows (pump_next f)" using knows_step [of f e PumpNext] i by (simp add: feed_inv_def)
  have ts: "fd_tasks (pump_next f) = fd_tasks f"
    by (auto simp: pump_next_def Let_def split: pump_phase.splits list.splits option.splits)
  have c: "calm {} f (pump_next f)"
    by (auto simp: pump_next_def Let_def intro: calm_fields calm_trans [OF calm_ops(4) calm_fields(4)] calm_trans [OF calm_ops(1) calm_fields(4)]
        split: pump_phase.splits list.splits option.splits)
  have "pump_ok e (pump_next f) (fd_pump (pump_next f))"
  proof (cases "fd_pump f")
    case (PumpSpaces c ss cs)
    show ?thesis
    proof (cases ss)
      case (Cons s ss')
      show ?thesis
      proof (cases "cursor_at f c s")
        case (Some k)
        then obtain g where g: "map_at f c = Some g" using cursor_map by blast
        let ?f = "(cursorsFor c f)\<lparr>fd_pump := PumpAsked c g s k ss' cs\<rparr>"
        have "pump_next f = ?f" using PumpSpaces Cons Some g by (simp add: pump_next_def)
        moreover have "map_at ?f c = Some g" "cursor_at ?f c s = Some k"
          using Some g by (simp_all add: pump_fields)
        ultimately show ?thesis by (simp add: holds_def)
      qed (use PumpSpaces Cons in \<open>simp add: pump_next_def\<close>)
    qed (use PumpSpaces in \<open>simp add: pump_next_def\<close>)
  qed (use calm_keeps(2) [OF c] i in \<open>auto simp: pump_next_def feed_inv_def split: list.splits\<close>)
  with k ts c show ?thesis by (intro calm_inv [OF i c]) auto
qed

lemma reads_inv:
  assumes i: "feed_inv e f"
  shows "feed_inv e (pump_reads e f)"
proof (cases "fd_pump f")
  case (PumpAsked c g s k ss cs)
  have k: "knows (pump_reads e f)" using knows_step [of f e PumpReads] i by (simp add: feed_inv_def)
  have c: "calm {} f (pump_reads e f)"
    using PumpAsked by (auto simp: pump_reads_def calm_def cursor_at_def map_at_def)
  have h: "holds f c g s k" "seqs_ok (fd_log f)" using i PumpAsked by (auto simp: feed_inv_def)
  have "holds (pump_reads e f) c g s k" using h(1) PumpAsked by (simp add: pump_reads_def holds_def cursor_at_def map_at_def)
  moreover have "page_ok e (pump_reads e f) = page_ok e f" using PumpAsked by (simp add: pump_reads_def page_ok_def fun_eq_iff)
  ultimately have "pump_ok e (pump_reads e f) (fd_pump (pump_reads e f))"
    using PumpAsked page_read_ok [OF h(2)] by (simp add: pump_reads_def)
  then show ?thesis using k PumpAsked by (intro calm_inv [OF i c]) (auto simp: pump_reads_def)
qed (use i in \<open>simp_all add: pump_reads_def\<close>)

lemma appends_inv:
  assumes i: "feed_inv e f"
  shows "feed_inv e (appends s t payload f)"
proof -
  let ?f = "appends s t payload f"
  define r where "r = \<lparr>ev_space = s, ev_seq = (case latest (fd_log f) s of None \<Rightarrow> 1 | Some k \<Rightarrow> k + 1), ev_type = t, ev_payload = payload\<rparr>"
  have l: "fd_log ?f = fd_log f @ [r]" by (simp add: appends_def r_def)
  have new: "\<forall>q \<in> set (fd_log f). ev_space q = ev_space r \<longrightarrow> ev_seq q < ev_seq r"
    using latest_less by (auto simp: r_def)
  have "seqs_ok (fd_log ?f)" using i new by (auto simp: feed_inv_def seqs_ok_def l)
  moreover have ex: "exact e (fd_log f) c u k0 k qs \<Longrightarrow> exact e (fd_log ?f) c u k0 k qs" for c u k0 k qs
    unfolding l by (rule exact_grows [OF _ new])
  moreover have "knows ?f" using knows_step [of f e "Appends s t payload"] i by (simp add: feed_inv_def)
  moreover have same: "cursor_at ?f = cursor_at f" "map_at ?f = map_at f" "fd_open ?f = fd_open f" "fd_trace ?f = fd_trace f" "fd_pump ?f = fd_pump f" "fd_tasks ?f = fd_tasks f"
    by (simp_all add: appends_def cursor_at_def map_at_def fun_eq_iff)
  moreover have "pump_ok e f ph \<Longrightarrow> pump_ok e ?f ph" for ph
    using ex by (cases ph) (auto simp: holds_def page_ok_def same)
  moreover have "task_ok e f u \<Longrightarrow> task_ok e ?f u" for u
    using ex by (cases u) (auto simp: page_ok_def)
  ultimately show ?thesis
    using i unfolding feed_inv_def delivered_exactly_def same by blast
qed

lemma connects_inv:
  assumes i: "feed_inv e f"
  shows "feed_inv e (connects c f)"
proof (cases "c \<in> set (fd_known f)")
  case False
  let ?f = "connects c f"
  have k: "knows f" using i by (simp add: feed_inv_def)
  with False have none: "map_at f c = None" "c \<notin> set (pump_conns (fd_pump f))" by (auto simp: knows_def made_def)
  then have cur: "cursor_at f c s = None" for s using cursor_map [of f c s] by (cases "cursor_at f c s") auto
  have same: "cursor_at ?f = cursor_at f" "map_at ?f = map_at f" "set (fd_open ?f) = insert c (set (fd_open f))"
      "fd_trace ?f = fd_trace f" "fd_pump ?f = fd_pump f" "fd_tasks ?f = fd_tasks f" "fd_log ?f = fd_log f"
    using False by (simp_all add: connects_def cursor_at_def map_at_def fun_eq_iff)
  have "pump_ok e f (fd_pump f) \<Longrightarrow> pump_ok e ?f (fd_pump f)"
    using none(2) by (cases "fd_pump f") (auto simp: holds_def page_ok_def same)
  moreover have "task_ok e ?f = task_ok e f"
  proof
    fix u show "task_ok e ?f u = task_ok e f u" by (cases u) (simp_all add: page_ok_def same)
  qed
  moreover have "knows ?f" using knows_step [of f e "Connects c"] k by simp
  moreover have "\<forall>d \<in> set (fd_open ?f). \<forall>s. delivered_exactly e ?f d s"
    using i cur by (auto simp: feed_inv_def delivered_exactly_def same)
  ultimately show ?thesis using i by (simp add: feed_inv_def same)
qed (use i in \<open>simp add: connects_def\<close>)

lemma feed_inv_step:
  assumes i: "feed_inv e f" and ok: "no_hazard f ev"
  shows "feed_inv e (feed_step e f ev)"
proof -
  have k: "knows (feed_step e f ev)" using knows_step i by (simp add: feed_inv_def)
  have quiet: "feed_inv e (feed_step e f ev)"
    if "calm {} f (feed_step e f ev)" "fd_pump (feed_step e f ev) = fd_pump f"
      "\<forall>t \<in> set (fd_tasks (feed_step e f ev)). t \<in> set (fd_tasks f) \<or> task_ok e (feed_step e f ev) t"
    using that by (intro calm_inv_pump [OF i that(1) k]) auto
  show ?thesis
  proof (cases ev)
    case (Receives c frame)
    show ?thesis
      using Receives by (intro quiet) (auto simp: receives_def subscribe_next_def intro: calm_marks calm_fields split: option.splits control_frame.splits list.splits)
  next
    case TimerFires
    then show ?thesis
      using k i by (intro calm_inv [OF i]) (auto simp: tick_def feed_inv_def intro: calm_fields)
  next
    case PumpFails
    have "calm {} f (pump_fails f)" by (auto simp: pump_fails_def intro: calm_fields split: pump_phase.splits)
    from calm_inv [OF i this] PumpFails k show ?thesis
      using i by (cases "fd_pump f") (auto simp: pump_fails_def feed_inv_def)
  qed (use ok i quiet calm_ops calm_fields in \<open>auto simp: appends_inv connects_inv lands_inv next_inv reads_inv task_runs_inv\<close>)
qed

interpretation event_feed: invariant_machine "feed_step e" no_hazard "feed_inv e" for e
  by unfold_locales (rule feed_inv_step)

lemma new_feed_inv: "feed_inv e new_feed"
  by (simp add: feed_inv_def new_feed_def knows_def made_def map_at_def new_registry_def has_conn_def conn_at_def seqs_ok_def)

text \<open>A run in which the hazard does not occur.\<close>

fun without_hazard :: "feed_env \<Rightarrow> feed \<Rightarrow> feed_event list \<Rightarrow> bool" where
  "without_hazard e f [] = True"
| "without_hazard e f (ev # evs) = (no_hazard f ev \<and> without_hazard e (feed_step e f ev) evs)"

lemma run_without_hazard: "without_hazard e f evs \<Longrightarrow> event_feed.run_ok e f evs"
  by (induction evs arbitrary: f) auto

text \<open>
  C20: Live delivery has no gap and no duplicate. Whatever is appended, whoever connects, closes,
  subscribes or resumes, and however the waits of the pump and of the frames interleave, as long as
  no start or resume of a subscription lands while the pump is reading for that same connection and
  space: an open connection whose cursor is k was sent, since delivery started at some k0, rising
  numbers of rows of its space between k0 and k, each let through by some read, and every row between
  them that all its reads let through.
\<close>
theorem live_delivery_is_exact:
  assumes "without_hazard e new_feed evs" "f = foldl (feed_step e) new_feed evs" "c \<in> set (fd_open f)" "cursor_at f c s = Some k"
  shows "\<exists>k0 qs. since_start c s (fd_trace f) = Some (k0, qs) \<and> sorted_wrt (<) qs \<and> k0 \<le> k
     \<and> (\<forall>q \<in> set qs. k0 < q \<and> q \<le> k \<and> (\<exists>r \<in> set (fd_log f). ev_space r = s \<and> ev_seq r = q \<and> (\<exists>n. readable e n c r)))
     \<and> (\<forall>r \<in> set (fd_log f). ev_space r = s \<and> k0 < ev_seq r \<and> ev_seq r \<le> k \<and> (\<forall>n. readable e n c r) \<longrightarrow> ev_seq r \<in> set qs)"
proof -
  have "feed_inv e f"
    unfolding assms(2) by (rule event_feed.run_inv [OF new_feed_inv run_without_hazard [OF assms(1)]])
  then have "delivered_exactly e f c s" using assms(3) by (simp add: feed_inv_def)
  with assms(4) show ?thesis unfolding delivered_exactly_def exact_def by blast
qed

definition plain_env :: feed_env where
  "plain_env = \<lparr>fe_view = (\<lambda>n c. \<lparr>lv_reads = (\<lambda>r. True), lv_maps = (\<lambda>r. True)\<rparr>), fe_identity = (\<lambda>c. \<lparr>ri_bearer = True, ri_sessionSpaceId = [], ri_human = True\<rparr>),
     fe_claims = (\<lambda>c. Some c), fe_enforce = False, fe_batch = DEFAULT_PUMP_BATCH\<rparr>"

text \<open>A connection that subscribes after the first event and is told of the second by the pump.\<close>

definition sample_feed :: "feed_event list" where
  "sample_feed = [Appends ''s'' ''t'' [], Connects ''c'', StartsPump, Receives ''c'' (Some (FSubscribe [''s''])),
     TaskRuns 0 Found None 0, TaskRuns 0 Found None 0, TaskRuns 0 Found None 0, Appends ''s'' ''t'' [], TimerFires, PumpNext, PumpNext, PumpReads]"

lemma sample_trace: "fd_trace (foldl (feed_step plain_env) new_feed (sample_feed @ [PumpLands None])) = [Allowed ''c'' ''s'', Started ''c'' ''s'' 1, Sent ''c'' ''s'' 2]"
  by code_simp

theorem live_delivery_is_exact_witness:
  "\<exists>k0 qs. since_start ''c'' ''s'' (fd_trace (foldl (feed_step plain_env) new_feed (sample_feed @ [PumpLands None]))) = Some (k0, qs)
     \<and> sorted_wrt (<) qs \<and> k0 \<le> 2
     \<and> (\<forall>q \<in> set qs. k0 < q \<and> q \<le> 2 \<and> (\<exists>r \<in> set (fd_log (foldl (feed_step plain_env) new_feed (sample_feed @ [PumpLands None]))).
          ev_space r = ''s'' \<and> ev_seq r = q \<and> (\<exists>n. readable plain_env n ''c'' r)))
     \<and> (\<forall>r \<in> set (fd_log (foldl (feed_step plain_env) new_feed (sample_feed @ [PumpLands None]))).
          ev_space r = ''s'' \<and> k0 < ev_seq r \<and> ev_seq r \<le> 2 \<and> (\<forall>n. readable plain_env n ''c'' r) \<longrightarrow> ev_seq r \<in> set qs)"
proof (rule live_delivery_is_exact [OF _ refl])
  show "without_hazard plain_env new_feed (sample_feed @ [PumpLands None])" by code_simp
  show "''c'' \<in> set (fd_open (foldl (feed_step plain_env) new_feed (sample_feed @ [PumpLands None])))" by code_simp
  show "cursor_at (foldl (feed_step plain_env) new_feed (sample_feed @ [PumpLands None])) ''c'' ''s'' = Some 2" by code_simp
qed

subsection \<open>What the races do\<close>

text \<open>
  The hazard is real: a resume that lands while the pump has its page in hand delivers the page, the
  pump delivers it again, and sets the cursor back behind what the resume has sent.
\<close>

lemma resume_races_pump:
  "fd_trace (foldl (feed_step plain_env) new_feed (sample_feed @ [Appends ''s'' ''t'' [], Receives ''c'' (Some (FResume ''s'' 1)),
     TaskRuns 0 Found None 0, TaskRuns 0 Found None 0, TaskRuns 0 Found None 0, PumpLands None]))
   = [Allowed ''c'' ''s'', Started ''c'' ''s'' 1, Allowed ''c'' ''s'', Started ''c'' ''s'' 1, Sent ''c'' ''s'' 2, Sent ''c'' ''s'' 3, Sent ''c'' ''s'' 2]"
  "cursor_at (foldl (feed_step plain_env) new_feed (sample_feed @ [Appends ''s'' ''t'' [], Receives ''c'' (Some (FResume ''s'' 1)),
     TaskRuns 0 Found None 0, TaskRuns 0 Found None 0, TaskRuns 0 Found None 0, PumpLands None])) ''c'' ''s'' = Some 2"
  by code_simp+

text \<open>An unsubscribe is done at once and overtakes the subscribe before it, which waits for the authorizer.\<close>

lemma unsubscribe_overtakes_subscribe:
  "spacesFor (fd_registry (foldl (feed_step plain_env) new_feed [Connects ''c'', Receives ''c'' (Some (FSubscribe [''s''])),
     Receives ''c'' (Some (FUnsubscribe [''s''])), TaskRuns 0 Found None 0])) ''c'' = [''s'']"
  by code_simp

text \<open>
  A frame that was waiting when its connection closed asserts the presence of the closed connection,
  and a subscription makes a cursor for it that nothing will forget.
\<close>

lemma frames_outlive_connections:
  "pa_viewers (fst (presence_of 5 ''s'' ''x'' (fd_presence (foldl (feed_step plain_env) new_feed [Connects ''c'',
     Receives ''c'' (Some (FPresenceSet ''s'' ''x'' True False)), TaskRuns 0 Found None 0, Closes ''c'', TaskRuns 0 Found None 5])))) = [''c'']"
  "cursor_at (foldl (feed_step plain_env) new_feed [Appends ''s'' ''t'' [], Connects ''c'', Receives ''c'' (Some (FSubscribe [''s''])),
     TaskRuns 0 Found None 0, TaskRuns 0 Found None 0, Closes ''c'', TaskRuns 0 Found None 0]) ''c'' ''s'' = Some 1"
  by code_simp+

text \<open>
  Unsubscribing leaves the cursor: a new subscription is sent the events of the time in between when
  a tick comes before its mark is read, or when the mark cannot be read.
\<close>

lemma resubscribe_replays:
  "fd_trace (foldl (feed_step plain_env) new_feed [Appends ''s'' ''t'' [], Connects ''c'', StartsPump, Receives ''c'' (Some (FSubscribe [''s''])),
     TaskRuns 0 Found None 0, TaskRuns 0 Found None 0, TaskRuns 0 Found None 0, Receives ''c'' (Some (FUnsubscribe [''s''])),
     Appends ''s'' ''t'' [], Receives ''c'' (Some (FSubscribe [''s''])), TaskRuns 0 Found None 0, TaskRuns 0 Nothing None 0, TaskRuns 0 Found None 0,
     TimerFires, PumpNext, PumpNext, PumpReads, PumpLands None])
   = [Allowed ''c'' ''s'', Started ''c'' ''s'' 1, Allowed ''c'' ''s'', Sent ''c'' ''s'' 2]"
  by code_simp

end
