(* ===== verification/EventGuard.thy ===== *)
theory EventGuard
  imports EventFeed
begin

text \<open>
  Whatever the order in which the event loop runs the pump and the frames, nothing is sent, started
  or asserted for a connection and a space before the authorizer has allowed that very pair.
\<close>

subsection \<open>Only what was allowed\<close>

definition granted :: "feed \<Rightarrow> string \<Rightarrow> string \<Rightarrow> bool" where
  "granted f c s \<longleftrightarrow> Allowed c s \<in> set (fd_trace f)"

text \<open>
  A mark that is in order after those before it: an allowance is one the authorizer gives when the
  caller can read the space's row, and nothing is started, sent or asserted without an allowance.
\<close>

fun mark_ok :: "feed_env \<Rightarrow> feed_mark list \<Rightarrow> feed_mark \<Rightarrow> bool" where
  "mark_ok e past (Allowed c s) = authorized e c s Found"
| "mark_ok e past (Started c s k) = (Allowed c s \<in> set past)"
| "mark_ok e past (Sent c s q) = (Allowed c s \<in> set past)"
| "mark_ok e past (Asserted c s) = (Allowed c s \<in> set past)"
| "mark_ok e past (Refused c) = True"

definition lawful :: "feed_env \<Rightarrow> feed \<Rightarrow> feed \<Rightarrow> bool" where
  "lawful e f f' \<longleftrightarrow> (checked (mark_ok e) [] (fd_trace f) \<longrightarrow> checked (mark_ok e) [] (fd_trace f')) \<and> (\<forall>c s. granted f c s \<longrightarrow> granted f' c s)
     \<and> (\<forall>c. \<forall>s \<in> set (spacesFor (fd_registry f') c). s \<in> set (spacesFor (fd_registry f) c) \<or> granted f' c s)"

lemma lawful_refl [simp]: "lawful e f f"
  by (simp add: lawful_def)

lemma lawful_trans: "lawful e f g \<Longrightarrow> lawful e g h \<Longrightarrow> lawful e f h"
  unfolding lawful_def by blast

lemma lawful_mark: "mark_ok e (fd_trace f) m \<Longrightarrow> lawful e f (mark m f)"
  by (auto simp: lawful_def granted_def)

lemma spaces_registry:
  "set (spacesFor (remove_conn c r) d) \<subseteq> set (spacesFor r d)" "set (spacesFor (unsubscribe c s r) d) \<subseteq> set (spacesFor r d)"
  "spacesFor (subscribePresence c on r) d = spacesFor r d" "spacesFor (add_conn c r) d = spacesFor r d"
  "set (spacesFor (subscribe c s r) d) \<subseteq> (if d = c then {s} else {}) \<union> set (spacesFor r d)"
proof -
  have f: "conn_at (fold (detach c) ss r) = conn_at r" for ss by (rule fold_detach)
  show "set (spacesFor (remove_conn c r) d) \<subseteq> set (spacesFor r d)"
    by (auto simp: spacesFor_def remove_conn_def conn_update f Let_def split: option.splits if_splits)
qed (auto simp: spacesFor_def unsubscribe_def subscribePresence_def add_conn_def subscribe_def conn_update detach_simps
      conn_at_def update_conv' Let_def split: option.splits if_splits)

lemma spaces_unsubscribes: "set (spacesFor (fold (unsubscribe c) ss r) d) \<subseteq> set (spacesFor r d)"
  by (induction ss arbitrary: r) (auto dest!: subsetD dest: subsetD [OF spaces_registry(2)])

lemma lawful_closes: "lawful e f (closes c f)"
  using spaces_registry(1) [of c "fd_registry f"] by (auto simp: lawful_def granted_def closes_def)

lemma lawful_ops: "lawful e f (seed c s k f)" "lawful e f (cursorsFor c f)" "lawful e f (set_captured c g s k f)" "lawful e f (forget c f)" "lawful e f (shuts c f)"
  by (simp_all add: lawful_def granted_def)

lemma lawful_fields:
  "lawful e f (f\<lparr>fd_reads := n\<rparr>)" "lawful e f (f\<lparr>fd_presence := p\<rparr>)" "lawful e f (f\<lparr>fd_tasks := ts\<rparr>)" "lawful e f (f\<lparr>fd_pump := ph\<rparr>)"
  "lawful e f (f\<lparr>fd_timer := b\<rparr>)" "lawful e f (f\<lparr>fd_log := l\<rparr>)"
  by (simp_all add: lawful_def granted_def)

lemma lawful_send: "send_all c s rs kill f = (fin, f') \<Longrightarrow> granted f c s \<Longrightarrow> lawful e f f'"
proof (induction c s rs kill f arbitrary: fin f' rule: send_all.induct)
  case (2 c s r rs kill f)
  let ?m = "mark (Sent c s (ev_seq r)) f"
  have m: "lawful e f ?m" using 2(5) by (intro lawful_mark) (simp add: granted_def)
  have g: "granted ?m c s" "granted (closes c ?m) c s" using 2(5) by (simp_all add: granted_def)
  show ?case
  proof (cases "c \<in> set (fd_open f)")
    case True
    then show ?thesis
    proof (cases kill)
      case None
      with 2(1) [OF _ refl None] 2(4) True g show ?thesis by (auto simp: Let_def intro: lawful_trans [OF m])
    next
      case (Some n)
      show ?thesis
      proof (cases n)
        case 0
        with 2(2) [OF _ refl Some 0] 2(4) True Some g show ?thesis
          by (auto simp: Let_def intro: lawful_trans [OF m lawful_trans [OF lawful_closes]])
      next
        case (Suc n')
        from 2(4) True Some Suc have "send_all c s rs (Some n') ?m = (fin, f')" by (simp add: Let_def)
        from 2(3) [OF _ refl Some Suc this g(1)] True show ?thesis by (auto intro: lawful_trans [OF m])
      qed
    qed
  qed (use 2(4) in simp)
qed simp

fun task_pairs :: "control_task \<Rightarrow> (string \<times> string) list" where
  "task_pairs (SubscribeAsks c s ss) = []"
| "task_pairs (SubscribeMark c s ss) = [(c, s)]"
| "task_pairs (SubscribeSeeds c s m ss) = [(c, s)]"
| "task_pairs (ResumeAsks c s k) = []"
| "task_pairs (ResumeReads c s k) = [(c, s)]"
| "task_pairs (ResumeReplays c s k page) = [(c, s)]"
| "task_pairs (PresenceAsks c s ent v t) = []"
| "task_pairs (PresenceSets c s ent v t) = [(c, s)]"

fun pump_pairs :: "pump_phase \<Rightarrow> (string \<times> string) list" where
  "pump_pairs PumpIdle = []"
| "pump_pairs (PumpSinks cs) = []"
| "pump_pairs (PumpSpaces c ss cs) = map (Pair c) ss"
| "pump_pairs (PumpAsked c g s k ss cs) = (c, s) # map (Pair c) ss"
| "pump_pairs (PumpAnswered c g s k page ss cs) = (c, s) # map (Pair c) ss"

definition auth_inv :: "feed_env \<Rightarrow> feed \<Rightarrow> bool" where
  "auth_inv e f \<longleftrightarrow> checked (mark_ok e) [] (fd_trace f) \<and> (\<forall>c. \<forall>s \<in> set (spacesFor (fd_registry f) c). granted f c s)
     \<and> (\<forall>(c, s) \<in> set (pump_pairs (fd_pump f)). granted f c s) \<and> (\<forall>t \<in> set (fd_tasks f). \<forall>(c, s) \<in> set (task_pairs t). granted f c s)"

lemma lawful_inv:
  assumes "auth_inv e f" "lawful e f f'"
    "\<forall>(c, s) \<in> set (pump_pairs (fd_pump f')). (c, s) \<in> set (pump_pairs (fd_pump f)) \<or> granted f' c s"
    "\<forall>t \<in> set (fd_tasks f'). t \<in> set (fd_tasks f) \<or> (\<forall>(c, s) \<in> set (task_pairs t). granted f' c s)"
  shows "auth_inv e f'"
proof -
  have l: "granted f c s \<Longrightarrow> granted f' c s" for c s using assms(2) by (simp add: lawful_def)
  have "checked (mark_ok e) [] (fd_trace f')" using assms(1,2) by (simp add: auth_inv_def lawful_def)
  moreover have "granted f' c s" if "s \<in> set (spacesFor (fd_registry f') c)" for c s
    using that assms(1,2) l unfolding auth_inv_def lawful_def by blast
  moreover have "granted f' c s" if "(c, s) \<in> set (pump_pairs (fd_pump f'))" for c s
    using that assms(1,3) l unfolding auth_inv_def by blast
  moreover have "granted f' c s" if "t \<in> set (fd_tasks f')" "(c, s) \<in> set (task_pairs t)" for t c s
    using that assms(1,4) l unfolding auth_inv_def by blast
  ultimately show ?thesis unfolding auth_inv_def by blast
qed

lemma authorized_found: "authorized e c s a \<Longrightarrow> authorized e c s Found"
  by (auto simp: authorized_def canSubscribe_def split: if_splits)

lemma run_task_lawful:
  assumes r: "run_task e a kill now t f = (ts, f1)" and g: "\<forall>(c, s) \<in> set (task_pairs t). granted f c s"
  shows "lawful e f f1 \<and> (\<forall>u \<in> set ts. \<forall>(c, s) \<in> set (task_pairs u). granted f1 c s)"
proof (cases t)
  case (SubscribeAsks c s ss)
  have "lawful e f (mark (Allowed c s) (f\<lparr>fd_registry := subscribe c s (fd_registry f)\<rparr>))" if "authorized e c s a"
  proof -
    have "t \<in> set (spacesFor (fd_registry f) d)" if "t \<in> set (spacesFor (subscribe c s (fd_registry f)) d)" "(d, t) \<noteq> (c, s)" for d t
      using subsetD [OF spaces_registry(5) that(1)] that(2) by (auto split: if_splits)
    then show ?thesis using authorized_found [OF that] unfolding lawful_def granted_def by (auto simp: mark_def)
  qed
  then show ?thesis
    using SubscribeAsks r by (auto simp: granted_def subscribe_next_def intro: lawful_mark split: if_splits list.splits)
next
  case (SubscribeSeeds c s m ss)
  have "lawful e f (mark (Started c s k) (seed c s k f))" for k
    using SubscribeSeeds g by (intro lawful_trans [OF lawful_ops(1) lawful_mark]) (simp add: granted_def)
  then show ?thesis
    using SubscribeSeeds r g by (auto simp: granted_def subscribe_next_def split: option.splits list.splits)
next
  case (ResumeReplays c s k page)
  obtain fin f2 where s: "send_all c s (pg_items page) kill (mark (Started c s k) f) = (fin, f2)" by fastforce
  have m: "lawful e f (mark (Started c s k) f)" "granted (mark (Started c s k) f) c s"
    using ResumeReplays g by (auto intro!: lawful_mark simp: granted_def)
  note l = lawful_trans [OF m(1) lawful_send [OF s m(2)]]
  then show ?thesis
    using ResumeReplays r s lawful_trans [OF l lawful_ops(1)] by (auto split: if_splits)
next
  case (PresenceSets c s ent v t')
  then show ?thesis
    using r g by (auto simp: granted_def intro!: lawful_trans [OF lawful_fields(2) lawful_mark] split: if_splits)
qed (use r g in \<open>auto simp: granted_def authorized_found intro: lawful_mark lawful_fields split: if_splits db_answer.splits\<close>)

lemma auth_inv_step:
  assumes i: "auth_inv e f"
  shows "auth_inv e (feed_step e f ev)"
proof (cases ev)
  case (TaskRuns n a kill now)
  show ?thesis
  proof (cases "n < length (fd_tasks f)")
    case True
    obtain ts f1 where r: "run_task e a kill now (fd_tasks f ! n) f = (ts, f1)" by fastforce
    have "\<forall>(c, s) \<in> set (task_pairs (fd_tasks f ! n)). granted f c s" using i True nth_mem unfolding auth_inv_def by blast
    note l = run_task_lawful [OF r this]
    let ?f = "f1\<lparr>fd_tasks := take n (fd_tasks f) @ ts @ drop (Suc n) (fd_tasks f)\<rparr>"
    have "lawful e f ?f" using l lawful_trans [OF _ lawful_fields(3)] by blast
    moreover have "fd_pump ?f = fd_pump f" using run_task_keeps [OF r] by (simp add: task_keeps_def)
    moreover have "granted ?f = granted f1" by (simp add: granted_def fun_eq_iff)
    ultimately have "auth_inv e ?f"
      using l splice_set [of n "fd_tasks f" ts "Suc n"] by (intro lawful_inv [OF i]) auto
    then show ?thesis using TaskRuns True r by (simp add: task_runs_def)
  qed (use TaskRuns i in \<open>simp add: task_runs_def\<close>)
next
  case (PumpLands kill)
  show ?thesis
  proof (cases "fd_pump f")
    case (PumpAnswered c g s k page ss cs)
    obtain fin f1 where r: "send_all c s (pg_items page) kill f = (fin, f1)" by fastforce
    have g: "granted f c s" using i PumpAnswered by (auto simp: auth_inv_def)
    have t: "fd_tasks f1 = fd_tasks f" using send_all_rest [OF r] by (simp add: fewer_open_def rest_same_def)
    show ?thesis
      using PumpLands PumpAnswered r t lawful_send [OF r g] lawful_trans [OF lawful_send [OF r g] lawful_ops(3)]
      by (intro lawful_inv [OF i]) (auto simp: pump_lands_def Let_def intro: lawful_trans [OF _ lawful_fields(4)])
  qed (use PumpLands i in \<open>simp_all add: pump_lands_def\<close>)
next
  case PumpNext
  have "lawful e f (pump_next f)"
    by (auto simp: pump_next_def Let_def intro: lawful_fields lawful_trans [OF lawful_ops(4) lawful_fields(4)] lawful_trans [OF lawful_ops(2) lawful_fields(4)]
        split: pump_phase.splits list.splits option.splits)
  moreover have "fd_tasks (pump_next f) = fd_tasks f"
    by (auto simp: pump_next_def Let_def split: pump_phase.splits list.splits option.splits)
  moreover have "\<forall>(c, s) \<in> set (pump_pairs (fd_pump (pump_next f))). (c, s) \<in> set (pump_pairs (fd_pump f)) \<or> granted (pump_next f) c s"
    using i by (auto simp: pump_next_def Let_def auth_inv_def granted_def split: pump_phase.splits list.splits option.splits)
  ultimately show ?thesis using PumpNext by (intro lawful_inv [OF i]) auto
next
  case (Receives c frame)
  have "lawful e f (f\<lparr>fd_registry := fold (unsubscribe c) ss (fd_registry f)\<rparr>)" for ss
    using spaces_unsubscribes [of c ss "fd_registry f"] by (auto simp: lawful_def granted_def)
  moreover have "lawful e f (f\<lparr>fd_registry := subscribePresence c on (fd_registry f)\<rparr>)" for on
    by (simp add: lawful_def granted_def spaces_registry(3))
  ultimately show ?thesis
    using Receives by (intro lawful_inv [OF i]) (auto simp: receives_def subscribe_next_def intro: lawful_mark lawful_fields
        split: option.splits control_frame.splits list.splits)
next
  case (Connects c)
  then show ?thesis
    by (intro lawful_inv [OF i]) (auto simp: connects_def lawful_def granted_def spaces_registry(4))
qed (use i lawful_ops lawful_closes lawful_fields lawful_trans [OF lawful_fields(4) lawful_fields(1)] in \<open>auto intro!: lawful_inv [OF i] simp: appends_def tick_def pump_reads_def pump_fails_def split: pump_phase.splits\<close>)

interpretation feed_guard: invariant_machine "feed_step e" "\<lambda>_ _. True" "auth_inv e" for e
  by unfold_locales (rule auth_inv_step)

text \<open>
  C21: Nothing crosses the socket without the authorizer: in every run of the event loop, whatever
  its order, every event handed to a connection, every start of a subscription and every presence
  asserted comes after an allowance for that connection and space, and an allowance is only given
  for a session that is not pinned to another space, not waiting at the gate, and can read the space.
\<close>
theorem delivery_is_authorized:
  "checked (mark_ok e) [] (fd_trace (foldl (feed_step e) new_feed evs))"
proof -
  have "feed_guard.run_ok e f evs" for f by (induction evs arbitrary: f) auto
  moreover have "auth_inv e new_feed"
    by (simp add: auth_inv_def new_feed_def new_registry_def spacesFor_def conn_at_def)
  ultimately have "auth_inv e (foldl (feed_step e) new_feed evs)" by (rule feed_guard.run_inv [rotated])
  then show ?thesis by (simp add: auth_inv_def)
qed

end
