(* ===== verification/ChangeText.thy ===== *)
theory ChangeText
  imports JsText
begin

text \<open>
  Text as the change feed measures it (\<open>server/src/events/changes.ts\<close>): a JavaScript string is the list of
  its 16-bit code units, since the feed writes an arrow and an ellipsis and counts the bytes of UTF-8.
  The size of a minified JSON document, as \<open>JSON.stringify\<close> writes it, and the cut of a text to a number
  of bytes.
\<close>

subsection \<open>Strings of code units\<close>

type_synonym wide = "nat list"

definition wide :: "string \<Rightarrow> wide" where
  "wide s = map of_char s"

text \<open>A text of characters below 256 as a string of the model.\<close>

definition narrow :: "wide \<Rightarrow> string option" where
  "narrow w = (if list_all (\<lambda>u. u < 256) w then Some (map char_of w) else None)"

lemma narrow_wide [simp]: "narrow (wide s) = Some s"
  by (auto simp: narrow_def wide_def list_all_iff comp_def of_char_of)

definition ELLIPSIS :: wide where "ELLIPSIS = [8230]"
definition ARROW :: wide where "ARROW = [8594]"

definition wide_starts :: "wide \<Rightarrow> wide \<Rightarrow> bool" where
  "wide_starts s p \<longleftrightarrow> take (length p) s = p"

definition wide_space :: "nat \<Rightarrow> bool" where
  "wide_space n \<longleftrightarrow> 9 \<le> n \<and> n \<le> 13 \<or> n \<in> {32, 160, 5760, 8232, 8233, 8239, 8287, 12288, 65279} \<or> 8192 \<le> n \<and> n \<le> 8202"

definition wide_trim :: "wide \<Rightarrow> wide" where
  "wide_trim s = rev (dropWhile wide_space (rev (dropWhile wide_space s)))"

text \<open>\<open>s.split(c)\<close> for one code unit\<close>

fun wide_split :: "nat \<Rightarrow> wide \<Rightarrow> wide list" where
  "wide_split c [] = [[]]"
| "wide_split c (u # s) = (if u = c then [] # wide_split c s
     else (case wide_split c s of [] \<Rightarrow> [[u]] | w # ws \<Rightarrow> (u # w) # ws))"

definition wide_index :: "nat \<Rightarrow> wide \<Rightarrow> nat option" where
  "wide_index c s = index_of s c"

fun wide_join :: "wide \<Rightarrow> wide list \<Rightarrow> wide" where
  "wide_join sep [] = []"
| "wide_join sep [w] = w"
| "wide_join sep (w # v # ws) = w @ sep @ wide_join sep (v # ws)"

text \<open>The characters that iterating a string gives: a surrogate pair is one.\<close>

definition is_high :: "nat \<Rightarrow> bool" where "is_high u \<longleftrightarrow> 0xD800 \<le> u \<and> u \<le> 0xDBFF"
definition is_low :: "nat \<Rightarrow> bool" where "is_low u \<longleftrightarrow> 0xDC00 \<le> u \<and> u \<le> 0xDFFF"

fun code_points :: "wide \<Rightarrow> wide list" where
  "code_points [] = []"
| "code_points [u] = [[u]]"
| "code_points (u # v # s) = (if is_high u \<and> is_low v then [u, v] # code_points s else [u] # code_points (v # s))"

subsection \<open>Bytes\<close>

text \<open>UTF-8; a lone surrogate is written as the replacement character.\<close>

definition point_bytes :: "wide \<Rightarrow> nat" where
  "point_bytes p = (case p of [u] \<Rightarrow> if u < 0x80 then 1 else if u < 0x800 then 2 else 3 | _ \<Rightarrow> 4)"

definition utf8_bytes :: "wide \<Rightarrow> nat" where
  "utf8_bytes s = sum_list (map point_bytes (code_points s))"

text \<open>A character inside a JSON string: escaped when it must be, lone surrogates too.\<close>

definition json_point_bytes :: "wide \<Rightarrow> nat" where
  "json_point_bytes p = (case p of
      [u] \<Rightarrow> if u \<in> {34, 92, 8, 9, 10, 12, 13} then 2 else if u < 32 \<or> is_high u \<or> is_low u then 6 else point_bytes p
    | _ \<Rightarrow> point_bytes p)"

definition json_string_bytes :: "wide \<Rightarrow> nat" where
  "json_string_bytes s = 2 + sum_list (map json_point_bytes (code_points s))"

datatype doc = DNull | DBool bool | DNat nat | DStr wide | DArr "doc list" | DObj "(string \<times> doc) list"

text \<open>The separators between \<open>n\<close> members.\<close>

definition commas :: "nat \<Rightarrow> nat" where "commas n = n - 1"

primrec doc_bytes :: "doc \<Rightarrow> nat" where
  "doc_bytes DNull = 4"
| "doc_bytes (DBool b) = (if b then 4 else 5)"
| "doc_bytes (DNat n) = length (show_nat n)"
| "doc_bytes (DStr s) = json_string_bytes s"
| "doc_bytes (DArr xs) = 2 + commas (length xs) + sum_list (map doc_bytes xs)"
| "doc_bytes (DObj kvs) = 2 + commas (length kvs) + sum_list (map (\<lambda>(k, n). json_string_bytes (wide k) + 1 + n) (map (map_prod id doc_bytes) kvs))"

subsection \<open>Cutting text\<close>

text \<open>By code units, and by bytes on the boundary of a character.\<close>

definition cut_units :: "wide \<Rightarrow> nat \<Rightarrow> wide" where
  "cut_units s n = (if length s \<le> n then s else take (n - 1) s @ ELLIPSIS)"

fun take_points :: "nat \<Rightarrow> nat \<Rightarrow> wide list \<Rightarrow> wide" where
  "take_points room used [] = []"
| "take_points room used (p # ps) = (if room < used + point_bytes p then [] else p @ take_points room (used + point_bytes p) ps)"

definition truncateBytes :: "wide \<Rightarrow> nat \<Rightarrow> wide" where
  "truncateBytes s maxBytes = (if utf8_bytes s \<le> maxBytes then s
     else take_points (maxBytes - utf8_bytes ELLIPSIS) 0 (code_points s) @ ELLIPSIS)"

lemma utf8_Nil [simp]: "utf8_bytes [] = 0"
  by (simp add: utf8_bytes_def)

lemma code_points_ellipsis: "code_points ELLIPSIS = [ELLIPSIS]" "utf8_bytes ELLIPSIS = 3"
  by code_simp+

text \<open>Cutting between two characters does not join their halves into another character.\<close>

lemma code_points_split:
  assumes "code_points s = ps @ qs" "\<not> (is_low (hd (t @ [0])))"
  shows "code_points (concat ps @ t) = ps @ code_points t"
  using assms
proof (induction s arbitrary: ps rule: code_points.induct)
  case (2 u)
  then show ?case by (cases ps; cases t) auto
next
  case (3 u v s)
  show ?case
  proof (cases ps)
    case (Cons p ps')
    show ?thesis
    proof (cases "is_high u \<and> is_low v")
      case True
      with 3 Cons show ?thesis by auto
    next
      case False
      with 3(3) Cons have p: "p = [u]" and rest: "code_points (v # s) = ps' @ qs" by auto
      have ih: "code_points (concat ps' @ t) = ps' @ code_points t" using 3(2) False rest 3(4) by blast
      show ?thesis
      proof (cases "concat ps' @ t")
        case (Cons w ws)
        have "\<not> (is_high u \<and> is_low w)"
        proof (cases ps')
          case Nil
          with Cons 3(4) show ?thesis by simp
        next
          case (Cons p' ps'')
          have "hd p' = v \<and> p' \<noteq> []" using rest Cons by (cases s) (auto split: if_splits)
          with Cons \<open>concat ps' @ t = w # ws\<close> False show ?thesis by (cases p') auto
        qed
        with ih p Cons \<open>ps = p # ps'\<close> show ?thesis by simp
      next
        case Nil
        with ih have "ps' = []" "t = []" by auto
        with p Cons show ?thesis by simp
      qed
    qed
  qed simp
qed simp

lemma take_points_prefix: "\<exists>n. take_points room used ps = concat (take n ps) \<and> used + sum_list (map point_bytes (take n ps)) \<le> max room used"
proof (induction ps arbitrary: used)
  case (Cons p ps)
  show ?case
  proof (cases "room < used + point_bytes p")
    case True
    then show ?thesis by (intro exI [of _ 0]) simp
  next
    case False
    from Cons [of "used + point_bytes p"] obtain n where n: "take_points room (used + point_bytes p) ps = concat (take n ps)"
      "used + point_bytes p + sum_list (map point_bytes (take n ps)) \<le> max room (used + point_bytes p)" by blast
    show ?thesis using n False by (intro exI [of _ "Suc n"]) auto
  qed
qed (auto intro: exI [of _ 0])

text \<open>The cut holds.\<close>

lemma truncated_fits: "3 \<le> maxBytes \<Longrightarrow> utf8_bytes (truncateBytes s maxBytes) \<le> maxBytes"
proof (cases "utf8_bytes s \<le> maxBytes")
  case False
  assume m: "3 \<le> maxBytes"
  obtain n where n: "take_points (maxBytes - 3) 0 (code_points s) = concat (take n (code_points s))"
    "sum_list (map point_bytes (take n (code_points s))) \<le> maxBytes - 3"
    using take_points_prefix [of "maxBytes - 3" 0 "code_points s"] by auto
  have "code_points (concat (take n (code_points s)) @ ELLIPSIS) = take n (code_points s) @ [ELLIPSIS]"
    using code_points_split [of s "take n (code_points s)" "drop n (code_points s)" ELLIPSIS]
    by (simp add: code_points_ellipsis) (simp add: ELLIPSIS_def is_low_def)
  then show ?thesis using n m False by (simp add: truncateBytes_def code_points_ellipsis utf8_bytes_def) (simp add: ELLIPSIS_def point_bytes_def)
qed (simp add: truncateBytes_def)

subsection \<open>Sizes that grow\<close>

lemma show_nat_mono: "m \<le> n \<Longrightarrow> length (show_nat m) \<le> length (show_nat n)"
proof (induction n arbitrary: m rule: show_nat.induct)
  case (1 n)
  show ?case
  proof (cases "n < 10")
    case True
    with 1 show ?thesis by (simp add: show_nat.simps [of m] show_nat.simps [of n])
  next
    case False
    show ?thesis
    proof (cases "m < 10")
      case True
      then show ?thesis by (simp add: show_nat.simps [of m] show_nat.simps [of n])
    next
      case False
      then show ?thesis using 1 \<open>\<not> n < 10\<close> by (simp add: show_nat.simps [of m] show_nat.simps [of n] div_le_mono)
    qed
  qed
qed

end
