(* ===== verification/ChangeFeed.thy ===== *)
theory ChangeFeed
  imports ChangeText EventLog "HOL-Library.AList"
begin

text \<open>
  The scoped change feed (\<open>server/src/events/changes.ts\<close>), first half: the request and how it is read from a
  query, which entities one event of the log is about, and the fold of the events of a window into one
  record per entity, with the classes of change it shows. How the server projects a row for its caller
  is a parameter, as is the reading of a date.
\<close>

subsection \<open>The request\<close>

definition EVENT_CHANGES_MIN_TOTAL_BYTES :: nat where "EVENT_CHANGES_MIN_TOTAL_BYTES = 8192"
definition EVENT_CHANGES_MAX_TOTAL_BYTES :: nat where "EVENT_CHANGES_MAX_TOTAL_BYTES = 32768"
definition EVENT_CHANGES_DEFAULT_TOTAL_BYTES :: nat where "EVENT_CHANGES_DEFAULT_TOTAL_BYTES = 16384"
definition EVENT_CHANGES_MAX_EXAMINED :: nat where "EVENT_CHANGES_MAX_EXAMINED = 2000"
definition EVENT_CHANGES_MAX_ENTITIES :: nat where "EVENT_CHANGES_MAX_ENTITIES = 50"
definition EVENT_CHANGES_MAX_SCOPE_IDS :: nat where "EVENT_CHANGES_MAX_SCOPE_IDS = 1000"
definition EVENT_CHANGES_MESSAGE_CAP :: nat where "EVENT_CHANGES_MESSAGE_CAP = 3"
definition EVENT_CHANGES_CHAT_MESSAGE_CAP :: nat where "EVENT_CHANGES_CHAT_MESSAGE_CAP = 10"
definition EVENT_CHANGES_TITLE_CHARS :: nat where "EVENT_CHANGES_TITLE_CHARS = 80"
definition EVENT_CHANGES_EXCERPT_CHARS :: nat where "EVENT_CHANGES_EXCERPT_CHARS = 120"

record change_request =
  cq_after :: nat
  cq_entity :: "string list"
  cq_anchor :: "string list"
  cq_subtree :: "string list"
  cq_kind :: "wide list"
  cq_change :: "wide list"
  cq_events :: bool
  cq_totalBytes :: nat

definition CHANGE_CLASS_ROOTS :: "string list" where
  "CHANGE_CLASS_ROOTS = [''created'', ''updated'', ''status'', ''deleted'', ''message'',
     ''edge+'', ''edge-'', ''assigned'', ''unassigned'', ''pr'', ''commit'', ''notified'']"

datatype feed_error = FeedBadCursor | FeedBadInput | FeedIndex poll_error | FeedScopeTooLarge | FeedNotFound "string list"
  | FeedGroupTooLarge nat nat nat | FeedEventTooLarge nat

text \<open>A query is its keys and values in order.\<close>

type_synonym url_query = "(string \<times> wide) list"

definition query_get :: "url_query \<Rightarrow> string \<Rightarrow> wide option" where
  "query_get q k = map_of q k"

definition query_all :: "url_query \<Rightarrow> string \<Rightarrow> wide list" where
  "query_all q k = map snd (filter (\<lambda>(k', v). k' = k) q)"

definition listParam :: "url_query \<Rightarrow> string \<Rightarrow> wide list" where
  "listParam q key = uniq (filter (\<lambda>v. v \<noteq> []) (map wide_trim (concat (map (wide_split 44) (query_all q key)))))"

definition idsParam :: "url_query \<Rightarrow> string \<Rightarrow> feed_error + string list" where
  "idsParam q key =
     (let ids = map narrow (listParam q key) in
      if list_all (\<lambda>i. case i of None \<Rightarrow> False | Some s \<Rightarrow> UUID_RE s) ids then Inr (map (toLowerCase \<circ> the) ids) else Inl FeedBadInput)"

definition changeRoot :: "wide \<Rightarrow> wide" where
  "changeRoot v = (case wide_index 58 v of None \<Rightarrow> v | Some i \<Rightarrow> take i v)"

definition changeMatches :: "wide \<Rightarrow> wide \<Rightarrow> bool" where
  "changeMatches cls f \<longleftrightarrow> cls = f \<or> wide_starts cls (f @ wide '':'') \<or> wide_starts cls (f @ ARROW)"

definition digits_of :: "wide \<Rightarrow> nat option" where
  "digits_of w = (case narrow w of None \<Rightarrow> None | Some s \<Rightarrow> if s \<noteq> [] \<and> list_all is_digit s then Some (read_nat s) else None)"

definition parse_after :: "url_query \<Rightarrow> feed_error + nat" where
  "parse_after q = (case (case query_get q ''after'' of None \<Rightarrow> query_get q ''since'' | Some v \<Rightarrow> Some v) of
      None \<Rightarrow> Inr 0
    | Some v \<Rightarrow> if v = [] then Inr 0
        else (case digits_of v of None \<Rightarrow> Inl FeedBadCursor | Some n \<Rightarrow> if MAX_SAFE_INTEGER < n then Inl FeedBadCursor else Inr n))"

definition parse_bytes :: "url_query \<Rightarrow> feed_error + nat" where
  "parse_bytes q = (case query_get q ''totalBytes'' of
      None \<Rightarrow> Inr EVENT_CHANGES_DEFAULT_TOTAL_BYTES
    | Some v \<Rightarrow> if v = [] then Inr EVENT_CHANGES_DEFAULT_TOTAL_BYTES
        else (case digits_of v of None \<Rightarrow> Inl FeedBadInput
          | Some n \<Rightarrow> if n < EVENT_CHANGES_MIN_TOTAL_BYTES \<or> EVENT_CHANGES_MAX_TOTAL_BYTES < n then Inl FeedBadInput else Inr n))"

definition parseChangesQuery :: "url_query \<Rightarrow> feed_error + change_request" where
  "parseChangesQuery q = (case parse_after q of Inl x \<Rightarrow> Inl x | Inr after \<Rightarrow>
     (case parse_bytes q of Inl x \<Rightarrow> Inl x | Inr totalBytes \<Rightarrow>
       (let change = listParam q ''change'' in
        if \<not> list_all (\<lambda>v. changeRoot v \<in> wide ` set CHANGE_CLASS_ROOTS) change then Inl FeedBadInput
        else (case idsParam q ''entity'' of Inl x \<Rightarrow> Inl x | Inr entity \<Rightarrow>
          (case idsParam q ''anchor'' of Inl x \<Rightarrow> Inl x | Inr anchor \<Rightarrow>
            (case idsParam q ''subtree'' of Inl x \<Rightarrow> Inl x | Inr subtree \<Rightarrow>
               Inr \<lparr>cq_after = after, cq_entity = entity, cq_anchor = anchor, cq_subtree = subtree, cq_kind = listParam q ''kind'',
                 cq_change = change, cq_events = (query_get q ''events'' \<in> {Some (wide ''true''), Some (wide ''1'')}), cq_totalBytes = totalBytes\<rparr>))))))"

text \<open>The selectors that were given, and the command that continues the request.\<close>

definition scopeOf :: "change_request \<Rightarrow> (string \<times> wide list) list" where
  "scopeOf r = filter (\<lambda>(k, vs). vs \<noteq> []) [(''entity'', map wide (cq_entity r)), (''anchor'', map wide (cq_anchor r)),
     (''subtree'', map wide (cq_subtree r)), (''kind'', cq_kind r), (''change'', cq_change r)]"

definition next_parts :: "change_request \<Rightarrow> wide list" where
  "next_parts r =
     [wide ''tm8 event changes'']
     @ map (\<lambda>i. wide ''--entity '' @ wide i) (cq_entity r)
     @ map (\<lambda>i. wide ''--anchor '' @ wide i) (cq_anchor r)
     @ map (\<lambda>i. wide ''--subtree '' @ wide i) (cq_subtree r)
     @ map (\<lambda>k. wide ''--kind '' @ k) (cq_kind r)
     @ map (\<lambda>c. wide ''--change '' @ c) (cq_change r)
     @ (if cq_events r then [wide ''--events''] else [])
     @ (if cq_totalBytes r \<noteq> EVENT_CHANGES_DEFAULT_TOTAL_BYTES then [wide ''--total-bytes '' @ wide (show_nat (cq_totalBytes r))] else [])"

definition nextCommand :: "change_request \<Rightarrow> nat \<Rightarrow> wide" where
  "nextCommand r through = wide_join (wide '' '') (next_parts r @ [wide ''--after '' @ wide (show_nat through)])"

subsection \<open>Events as the caller may read them\<close>

text \<open>An actor is its display name, when it has one that is a string.\<close>

record entity_summary =
  es_id :: string
  es_kind :: string
  es_title :: wide
  es_parent :: "string option"
  es_version :: nat
  es_status :: "string option"
  es_endedKind :: "string option"
  es_endedReason :: "wide option"

record edge_view =
  eg_id :: string
  eg_type :: string
  eg_source :: entity_summary
  eg_target :: entity_summary
  eg_createdBy :: "wide option"

record message_view =
  ms_id :: string
  ms_author :: "wide option"
  ms_root :: "string option"
  ms_body :: wide
  ms_mentions :: "string list"

record activity_view =
  av_id :: string
  av_entity :: "string option"
  av_actor :: "wide option"
  av_verb :: string

text \<open>The projection of a row, by its type; the anchor of a message may be missing.\<close>

datatype event_view =
    EntityView entity_summary
  | EdgeView edge_view
  | MessageView "string option" message_view
  | ActivityView activity_view
  | NoteView string "wide option"
  | OtherView

record examined_row =
  xr_seq :: nat
  xr_type :: string
  xr_payload :: jsobj
  xr_at :: string
  xr_event :: "event_view option"

fun str_opt :: "jsval \<Rightarrow> string option" where
  "str_opt (JStr s) = (if s = [] then None else Some s)"
| "str_opt _ = None"

definition num_opt :: "jsval \<Rightarrow> rat option" where
  "num_opt v = (case (case v of JNum x \<Rightarrow> x | JStr s \<Rightarrow> if s = [] then JNaN else js_number s | _ \<Rightarrow> JNaN) of JFin q \<Rightarrow> Some q | _ \<Rightarrow> None)"

definition nonempty :: "'a list option \<Rightarrow> 'a list option" where
  "nonempty o1 = (case o1 of Some [] \<Rightarrow> None | _ \<Rightarrow> o1)"

definition displayName :: "wide option \<Rightarrow> wide option" where
  "displayName actor = nonempty actor"

subsection \<open>What a row is about\<close>

datatype via = SelfVia | EdgeVia | MessageVia | GitVia | NotifiedVia

record attribution =
  at_entityId :: string
  at_via :: via
  at_change :: "wide option"
  at_actor :: "wide option"

definition STATUS_VERBS :: "string list" where
  "STATUS_VERBS = [''work.changed'', ''completed'', ''pulled'', ''unblocked'', ''restored'']"

definition CHAT_KINDS :: "string list" where
  "CHAT_KINDS = [''channel'', ''chat'', ''work_session'']"

record attribution_context =
  cx_trackedBy :: "(string \<times> string list) list"
  cx_callerIds :: "string list"
  cx_time :: "string \<Rightarrow> int option"

definition tracking :: "attribution_context \<Rightarrow> string \<Rightarrow> string list" where
  "tracking ctx f = (case map_of (cx_trackedBy ctx) f of None \<Rightarrow> [] | Some ts \<Rightarrow> ts)"

definition attribute_entity :: "examined_row \<Rightarrow> entity_summary \<Rightarrow> attribution list" where
  "attribute_entity row x =
     (if es_kind x = ''message'' then []
      else if oget (xr_payload row) ''derived'' \<noteq> JUndef then []
      else [\<lparr>at_entityId = es_id x, at_via = SelfVia, at_change = (if xr_type row = ''entity.deleted'' then Some (wide ''deleted'') else None), at_actor = None\<rparr>])"

definition attribute_edge :: "examined_row \<Rightarrow> edge_view \<Rightarrow> attribution list" where
  "attribute_edge row g =
     (let added = (xr_type row = ''edge.upsert''); actor = displayName (eg_createdBy g);
          kind = wide (if added then ''edge+:'' else ''edge-:'') @ wide (eg_type g) in
      if es_kind (eg_source g) = ''message'' \<or> es_kind (eg_target g) = ''message'' then []
      else if eg_type g = ''assigned_to'' then
        [\<lparr>at_entityId = es_id (eg_source g), at_via = EdgeVia,
           at_change = Some (wide (if added then ''assigned:'' else ''unassigned:'') @ es_title (eg_target g)), at_actor = actor\<rparr>,
         \<lparr>at_entityId = es_id (eg_target g), at_via = EdgeVia, at_change = Some kind, at_actor = actor\<rparr>]
      else map (\<lambda>end'. \<lparr>at_entityId = es_id end', at_via = EdgeVia, at_change = Some kind, at_actor = actor\<rparr>) [eg_source g, eg_target g])"

definition attribute_note :: "attribution_context \<Rightarrow> examined_row \<Rightarrow> wide option \<Rightarrow> attribution list" where
  "attribute_note ctx row actor =
     (let p = xr_payload row;
          recipient = (case str_opt (oget p ''recipient_team_member_id'') of None \<Rightarrow> str_opt (oget p ''recipient_member_id'') | Some r \<Rightarrow> Some r) in
      case (recipient, str_opt (oget p ''target_entity_id'')) of
        (Some r, Some target) \<Rightarrow> if r \<in> set (cx_callerIds ctx)
          then [\<lparr>at_entityId = target, at_via = NotifiedVia, at_change = Some (wide ''notified''), at_actor = displayName actor\<rparr>] else []
      | _ \<Rightarrow> [])"

definition attribute_git :: "attribution_context \<Rightarrow> examined_row \<Rightarrow> attribution list" where
  "attribute_git ctx row =
     (let pr = (xr_type row = ''git.pr_state_changed'') in
      case str_opt (oget (xr_payload row) (if pr then ''prEntityId'' else ''commitEntityId'')) of
        None \<Rightarrow> []
      | Some f \<Rightarrow> map (\<lambda>i. \<lparr>at_entityId = i, at_via = GitVia, at_change = Some (wide (if pr then ''pr'' else ''commit'')), at_actor = None\<rparr>)
          (f # tracking ctx f))"

definition attribute :: "attribution_context \<Rightarrow> examined_row \<Rightarrow> attribution list" where
  "attribute ctx row = (case xr_event row of
      None \<Rightarrow> []
    | Some (EntityView x) \<Rightarrow> if xr_type row \<in> {''entity.upsert'', ''entity.deleted''} then attribute_entity row x else []
    | Some (EdgeView g) \<Rightarrow> if xr_type row \<in> {''edge.upsert'', ''edge.deleted''} then attribute_edge row g else []
    | Some (MessageView anchorId m) \<Rightarrow>
        if xr_type row = ''message.created'' then
          (case nonempty anchorId of None \<Rightarrow> []
           | Some a \<Rightarrow> [\<lparr>at_entityId = a, at_via = MessageVia, at_change = Some (wide ''message''), at_actor = displayName (ms_author m)\<rparr>])
        else []
    | Some (ActivityView v) \<Rightarrow>
        if xr_type row = ''activity.created'' then
          (case av_entity v of None \<Rightarrow> []
           | Some i \<Rightarrow> [\<lparr>at_entityId = i, at_via = SelfVia, at_change = (if av_verb v = ''created'' then Some (wide ''created'') else None),
                at_actor = displayName (av_actor v)\<rparr>])
        else []
    | Some (NoteView i actor) \<Rightarrow> if xr_type row = ''notification.created'' then attribute_note ctx row actor else []
    | Some OtherView \<Rightarrow> if xr_type row \<in> {''git.pr_state_changed'', ''git.commit_recorded''} then attribute_git ctx row else [])"

text \<open>A scope of exact ids, and of anchors, whose messages count too; no scope is the whole space.\<close>

record resolved_scope =
  sc_entity :: "string list"
  sc_anchorLike :: "string list"

definition inScope :: "resolved_scope option \<Rightarrow> attribution \<Rightarrow> bool" where
  "inScope scope a = (case scope of None \<Rightarrow> True
     | Some s \<Rightarrow> at_entityId a \<in> set (sc_anchorLike s) \<or> at_entityId a \<in> set (sc_entity s) \<and> at_via a \<noteq> MessageVia)"

subsection \<open>One record per entity\<close>

record spine_row =
  sp_seq :: nat
  sp_at :: string
  sp_version :: "rat option"
  sp_category :: "string option"
  sp_deleted :: bool
  sp_creating :: bool

record message_ref =
  mg_seq :: nat
  mg_id :: string
  mg_author :: "wide option"
  mg_replyTo :: "string option"
  mg_body :: wide
  mg_mentions :: "string list"

record accumulator =
  am_id :: string
  am_kind :: "string option"
  am_firstSeq :: nat
  am_lastSeq :: nat
  am_firstAt :: string
  am_lastAt :: string
  am_changes :: "wide list"
  am_actors :: "wide list"
  am_spine :: "spine_row list"
  am_statusVerb :: bool
  am_created :: bool
  am_messages :: "message_ref list"

definition sameInstant :: "(string \<Rightarrow> int option) \<Rightarrow> jsval \<Rightarrow> string \<Rightarrow> bool" where
  "sameInstant time a b = (case str_opt a of None \<Rightarrow> False | Some s \<Rightarrow> time s \<noteq> None \<and> time s = time b)"

definition pushUnique :: "'a list \<Rightarrow> 'a option \<Rightarrow> 'a list" where
  "pushUnique xs v = (case v of None \<Rightarrow> xs | Some x \<Rightarrow> if x \<in> set xs then xs else xs @ [x])"

definition new_accumulator :: "string \<Rightarrow> examined_row \<Rightarrow> accumulator" where
  "new_accumulator i row = \<lparr>am_id = i, am_kind = None, am_firstSeq = xr_seq row, am_lastSeq = xr_seq row, am_firstAt = xr_at row, am_lastAt = xr_at row,
     am_changes = [], am_actors = [], am_spine = [], am_statusVerb = False, am_created = False, am_messages = []\<rparr>"

definition spine_of :: "attribution_context \<Rightarrow> examined_row \<Rightarrow> spine_row" where
  "spine_of ctx row = \<lparr>sp_seq = xr_seq row, sp_at = xr_at row, sp_version = num_opt (oget (xr_payload row) ''version''),
     sp_category = str_opt (oget (xr_payload row) ''status_category''), sp_deleted = (xr_type row = ''entity.deleted''),
     sp_creating = sameInstant (cx_time ctx) (oget (xr_payload row) ''created_at'') (xr_at row)\<rparr>"

definition message_of :: "examined_row \<Rightarrow> message_view \<Rightarrow> message_ref" where
  "message_of row m = \<lparr>mg_seq = xr_seq row, mg_id = ms_id m, mg_author = displayName (ms_author m), mg_replyTo = ms_root m,
     mg_body = ms_body m, mg_mentions = ms_mentions m\<rparr>"

text \<open>One attribution of a row. An activity only marks its entity; a message is kept for its anchor.\<close>

definition absorb :: "attribution_context \<Rightarrow> examined_row \<Rightarrow> attribution \<Rightarrow> accumulator \<Rightarrow> accumulator" where
  "absorb ctx row a m0 =
     (let m1 = m0\<lparr>am_lastSeq := xr_seq row, am_lastAt := xr_at row, am_actors := pushUnique (am_actors m0) (at_actor a)\<rparr>;
          push = (\<lambda>m. m\<lparr>am_changes := pushUnique (am_changes m) (at_change a)\<rparr>) in
      case xr_event row of
        Some (EntityView x) \<Rightarrow> push (m1\<lparr>am_kind := Some (es_kind x), am_spine := am_spine m1 @ [spine_of ctx row]\<rparr>)
      | Some (ActivityView v) \<Rightarrow> m1\<lparr>am_statusVerb := am_statusVerb m1 \<or> av_verb v \<in> set STATUS_VERBS, am_created := am_created m1 \<or> av_verb v = ''created''\<rparr>
      | Some (MessageView anchorId x) \<Rightarrow> push (m1\<lparr>am_messages := am_messages m1 @ [message_of row x]\<rparr>)
      | _ \<Rightarrow> push m1)"

type_synonym accumulators = "(string \<times> accumulator) list"

definition absorb_in :: "attribution_context \<Rightarrow> resolved_scope option \<Rightarrow> examined_row \<Rightarrow> attribution \<Rightarrow> accumulators \<Rightarrow> accumulators" where
  "absorb_in ctx scope row a acc =
     (if \<not> inScope scope a then acc
      else AList.update (at_entityId a)
        (absorb ctx row a (case map_of acc (at_entityId a) of None \<Rightarrow> new_accumulator (at_entityId a) row | Some m \<Rightarrow> m)) acc)"

definition absorb_row :: "attribution_context \<Rightarrow> resolved_scope option \<Rightarrow> examined_row \<Rightarrow> accumulators \<Rightarrow> accumulators" where
  "absorb_row ctx scope row acc = fold (absorb_in ctx scope row) (attribute ctx row) acc"

subsection \<open>The classes of an entity's own rows\<close>

text \<open>
  The rows that are not deletions, in order: what they say, the bumps of the version that may be edits,
  and the transactions in which the status moved.
\<close>

record spine_scan =
  ss_out :: "wide list"
  ss_statusSeen :: bool
  ss_bumps :: "string list"
  ss_statusTx :: "string list"

definition status_class :: "string option \<Rightarrow> string \<Rightarrow> wide" where
  "status_class from to = (case from of None \<Rightarrow> wide ''status:'' @ wide to | Some f \<Rightarrow> wide ''status:'' @ wide f @ ARROW @ wide to)"

definition status_moved :: "string option \<Rightarrow> string \<Rightarrow> string \<Rightarrow> spine_scan \<Rightarrow> spine_scan" where
  "status_moved from to tx s = s\<lparr>ss_out := ss_out s @ [status_class from to], ss_statusSeen := True, ss_statusTx := tx # ss_statusTx s\<rparr>"

definition bumped_at :: "string \<Rightarrow> spine_scan \<Rightarrow> spine_scan" where
  "bumped_at tx s = s\<lparr>ss_bumps := ss_bumps s @ [tx]\<rparr>"

definition same_tx_bump :: "spine_row \<Rightarrow> spine_row list \<Rightarrow> bool" where
  "same_tx_bump row later = (case later of
      [] \<Rightarrow> False
    | nxt # _ \<Rightarrow> sp_at nxt = sp_at row \<and> (case sp_version row of None \<Rightarrow> False | Some v \<Rightarrow> sp_version nxt = Some (v + 1)))"

definition scan_first :: "bool \<Rightarrow> spine_row \<Rightarrow> spine_row list \<Rightarrow> spine_scan \<Rightarrow> spine_scan" where
  "scan_first statusVerb row later s =
     (if sp_creating row then s
      else (case sp_category row of
          Some c \<Rightarrow> if statusVerb \<or> same_tx_bump row later then status_moved None c (sp_at row) s else bumped_at (sp_at row) s
        | None \<Rightarrow> bumped_at (sp_at row) s))"

fun scan_rest :: "spine_row \<Rightarrow> spine_row list \<Rightarrow> spine_scan \<Rightarrow> spine_scan" where
  "scan_rest prev [] s = s"
| "scan_rest prev (row # rows) s = scan_rest row rows
     (if sp_category prev \<noteq> sp_category row \<and> sp_category row \<noteq> None then status_moved (sp_category prev) (the (sp_category row)) (sp_at row) s
      else if sp_version row \<noteq> sp_version prev \<and> \<not> sp_creating row then bumped_at (sp_at row) s
      else s)"

definition scan_rows :: "bool \<Rightarrow> spine_row list \<Rightarrow> spine_scan \<Rightarrow> spine_scan" where
  "scan_rows statusVerb rows s = (case rows of [] \<Rightarrow> s | row # later \<Rightarrow> scan_rest row later (scan_first statusVerb row later s))"

definition spineChanges :: "accumulator \<Rightarrow> wide list" where
  "spineChanges m =
     (let rows = filter (\<lambda>r. \<not> sp_deleted r) (am_spine m);
          creating = (case rows of [] \<Rightarrow> False | r # _ \<Rightarrow> sp_creating r);
          s = scan_rows (am_statusVerb m) rows \<lparr>ss_out = (if am_created m \<or> creating then [wide ''created''] else []), ss_statusSeen = False, ss_bumps = [], ss_statusTx = []\<rparr>
      in uniq (ss_out s
           @ (if \<not> ss_statusSeen s \<and> am_statusVerb m \<and> rows = [] then [wide ''status''] else [])
           @ (if list_ex (\<lambda>tx. tx \<notin> set (ss_statusTx s)) (ss_bumps s) then [wide ''updated''] else [])))"

text \<open>The classes of the spine lead the line.\<close>

definition with_spine :: "accumulator \<Rightarrow> accumulator" where
  "with_spine m = (let spine = spineChanges m in m\<lparr>am_changes := spine @ filter (\<lambda>c. c \<notin> set spine) (am_changes m)\<rparr>)"

definition accumulate :: "examined_row list \<Rightarrow> attribution_context \<Rightarrow> resolved_scope option \<Rightarrow> accumulators" where
  "accumulate rows ctx scope = map (map_prod id with_spine) (fold (absorb_row ctx scope) rows [])"

subsection \<open>What the records say of the window\<close>

text \<open>The attributions of an entity that are in scope, with their rows, in the order of the log.\<close>

definition touches_of :: "attribution_context \<Rightarrow> resolved_scope option \<Rightarrow> examined_row list \<Rightarrow> string \<Rightarrow> (examined_row \<times> attribution) list" where
  "touches_of ctx scope rows i = concat (map (\<lambda>r. map (Pair r) (filter (\<lambda>a. inScope scope a \<and> at_entityId a = i) (attribute ctx r))) rows)"

definition absorb_all :: "attribution_context \<Rightarrow> (examined_row \<times> attribution) list \<Rightarrow> accumulator \<Rightarrow> accumulator" where
  "absorb_all ctx ts m = fold (\<lambda>(r, a). absorb ctx r a) ts m"

definition record_of :: "attribution_context \<Rightarrow> string \<Rightarrow> (examined_row \<times> attribution) list \<Rightarrow> accumulator option \<Rightarrow> accumulator option" where
  "record_of ctx i ts start = (case start of
      Some m \<Rightarrow> Some (absorb_all ctx ts m)
    | None \<Rightarrow> (case ts of [] \<Rightarrow> None | (r, a) # _ \<Rightarrow> Some (absorb_all ctx ts (new_accumulator i r))))"

lemma absorb_all_simps [simp]: "absorb_all ctx [] m = m" "absorb_all ctx ((r, a) # ts) m = absorb_all ctx ts (absorb ctx r a m)"
  by (simp_all add: absorb_all_def)

lemma absorb_row_at: "map_of (fold (absorb_in ctx scope row) as acc) i
    = record_of ctx i (map (Pair row) (filter (\<lambda>a. inScope scope a \<and> at_entityId a = i) as)) (map_of acc i)"
proof (induction as arbitrary: acc)
  case Nil
  then show ?case by (simp add: record_of_def split: option.splits)
next
  case (Cons a as)
  then show ?case by (cases "inScope scope a \<and> at_entityId a = i") (auto simp: absorb_in_def record_of_def AList.update_conv' split: option.splits)
qed

lemma record_of_append: "record_of ctx i us (record_of ctx i ts m) = record_of ctx i (ts @ us) m"
  by (cases m) (auto simp: record_of_def absorb_all_def split: list.splits)

lemma fold_rows_at: "map_of (fold (absorb_row ctx scope) rows acc) i = record_of ctx i (touches_of ctx scope rows i) (map_of acc i)"
proof (induction rows arbitrary: acc)
  case Nil
  then show ?case by (simp add: touches_of_def record_of_def split: option.splits)
next
  case (Cons r rows)
  then show ?case by (simp add: absorb_row_def absorb_row_at record_of_append touches_of_def)
qed

lemma map_of_map_snd: "map_of (map (map_prod id f) xs) i = map_option f (map_of xs i)"
  by (induction xs) auto

lemma accumulated_at: "map_of (accumulate rows ctx scope) i = map_option with_spine (record_of ctx i (touches_of ctx scope rows i) None)"
  by (simp add: accumulate_def map_of_map_snd fold_rows_at)

end
