(* ===== verification/ChangeDigest.thy ===== *)
theory ChangeDigest
  imports ChangeFeed
begin

text \<open>
  The scoped change feed (\<open>server/src/events/changes.ts\<close>), second half: putting a page together under its
  caps. A digest emits whole groups, the entities that one event first changed, and stops before the
  group that would cross a cap; the thin form stops between events. The size of a page is the size of
  its JSON.
\<close>

subsection \<open>Pages\<close>

record shown_message =
  sh_id :: string
  sh_author :: "wide option"
  sh_replyTo :: "string option"
  sh_toMe :: bool
  sh_excerpt :: wide
  sh_truncated :: bool

text \<open>The count of new messages: exact, or a lower bound when the page stopped early.\<close>

datatype message_total = MessagesTotal nat | MessagesTotalAtLeast nat

record change_entry =
  en_id :: string
  en_kind :: string
  en_title :: "wide option"
  en_parent :: "string option option"
  en_v :: "nat option"
  en_status :: "string option"
  en_lastSeq :: nat
  en_changes :: "wide list"
  en_actors :: "wide list"
  en_messages :: "shown_message list option"
  en_total :: "message_total option"
  en_messagesMore :: bool
  en_messagesNext :: "wide option"

record ready_entry =
  rd_firstSeq :: nat
  rd_entry :: change_entry
  rd_count :: "nat option"

record thin_row =
  tr_seq :: nat
  tr_type :: string
  tr_id :: string
  tr_kind :: "string option"
  tr_v :: "rat option"
  tr_edge :: "string option"
  tr_src :: "string option"
  tr_dst :: "string option"
  tr_anchor :: "string option"
  tr_entity :: "string option"
  tr_verb :: "string option"
  tr_status :: "string option"
  tr_actor :: "wide option option"

datatype page_body = Changed "change_entry list" | ThinEvents "thin_row list"

record changes_page =
  cp_scope :: "(string \<times> wide list) list option"
  cp_since :: nat
  cp_through :: nat
  cp_more :: bool
  cp_gap :: "(nat \<times> nat) option"
  cp_unresolved :: "string list"
  cp_body :: page_body
  cp_next :: "wide option"

record assemble_input =
  as_req :: change_request
  as_since :: nat
  as_gap :: "(nat \<times> nat) option"
  as_unresolved :: "string list"
  as_examinedThrough :: nat
  as_examineCapHit :: bool
  as_maxEntities :: nat

subsection \<open>The JSON of a page\<close>

definition dstr :: "string \<Rightarrow> doc" where
  "dstr s = DStr (wide s)"

definition dnullable :: "('a \<Rightarrow> doc) \<Rightarrow> 'a option \<Rightarrow> doc" where
  "dnullable f v = (case v of None \<Rightarrow> DNull | Some x \<Rightarrow> f x)"

text \<open>A member that is there only when it has a value.\<close>

definition dopt :: "string \<Rightarrow> ('a \<Rightarrow> doc) \<Rightarrow> 'a option \<Rightarrow> (string \<times> doc) list" where
  "dopt k f v = (case v of None \<Rightarrow> [] | Some x \<Rightarrow> [(k, f x)])"

definition message_doc :: "shown_message \<Rightarrow> doc" where
  "message_doc m = DObj [(''id'', dstr (sh_id m)), (''author'', dnullable DStr (sh_author m)), (''replyTo'', dnullable dstr (sh_replyTo m)),
     (''toMe'', DBool (sh_toMe m)), (''excerpt'', DStr (sh_excerpt m)), (''truncated'', DBool (sh_truncated m))]"

definition total_doc :: "message_total \<Rightarrow> string \<times> doc" where
  "total_doc t = (case t of MessagesTotal n \<Rightarrow> (''messagesTotal'', DNat n) | MessagesTotalAtLeast n \<Rightarrow> (''messagesTotalAtLeast'', DNat n))"

definition entry_members :: "change_entry \<Rightarrow> (string \<times> doc) list" where
  "entry_members n = [(''id'', dstr (en_id n)), (''kind'', dstr (en_kind n)), (''title'', dnullable DStr (en_title n))]
     @ dopt ''parentId'' (dnullable dstr) (en_parent n)
     @ [(''v'', dnullable DNat (en_v n))]
     @ dopt ''status'' dstr (en_status n)
     @ [(''lastSeq'', DNat (en_lastSeq n)), (''changes'', DArr (map DStr (en_changes n))), (''actors'', DArr (map DStr (en_actors n)))]
     @ dopt ''messages'' (\<lambda>ms. DArr (map message_doc ms)) (en_messages n)
     @ (if en_messagesMore n then [(''messagesMore'', DBool True)] else [])
     @ dopt ''messagesNext'' DStr (en_messagesNext n)"

definition entry_doc :: "change_entry \<Rightarrow> doc" where
  "entry_doc n = DObj (entry_members n @ (case en_total n of None \<Rightarrow> [] | Some t \<Rightarrow> [total_doc t]))"

text \<open>A version is a whole number that is not negative.\<close>

definition dversion :: "rat \<Rightarrow> doc" where
  "dversion q = DNat (nat \<lfloor>q\<rfloor>)"

definition thin_doc :: "thin_row \<Rightarrow> doc" where
  "thin_doc t = DObj ([(''seq'', DNat (tr_seq t)), (''type'', dstr (tr_type t)), (''id'', dstr (tr_id t))]
     @ dopt ''kind'' dstr (tr_kind t) @ dopt ''v'' dversion (tr_v t) @ dopt ''edge'' dstr (tr_edge t)
     @ dopt ''src'' dstr (tr_src t) @ dopt ''dst'' dstr (tr_dst t) @ dopt ''anchor'' dstr (tr_anchor t)
     @ dopt ''entity'' dstr (tr_entity t) @ dopt ''verb'' dstr (tr_verb t) @ dopt ''status'' dstr (tr_status t)
     @ dopt ''actor'' (dnullable DStr) (tr_actor t))"

definition gap_doc :: "nat \<times> nat \<Rightarrow> doc" where
  "gap_doc g = DObj [(''after'', DNat (fst g)), (''oldestRetained'', DNat (snd g))]"

definition body_doc :: "page_body \<Rightarrow> string \<times> doc" where
  "body_doc b = (case b of Changed ns \<Rightarrow> (''changed'', DArr (map entry_doc ns)) | ThinEvents ts \<Rightarrow> (''events'', DArr (map thin_doc ts)))"

definition page_doc :: "changes_page \<Rightarrow> doc" where
  "page_doc p = DObj (dopt ''scope'' (\<lambda>kvs. DObj (map (map_prod id (\<lambda>vs. DArr (map DStr vs))) kvs)) (cp_scope p)
     @ [(''since'', DNat (cp_since p)), (''through'', DNat (cp_through p)), (''more'', DBool (cp_more p)), (''gap'', dnullable gap_doc (cp_gap p)),
        (''unresolved'', DArr (map dstr (cp_unresolved p))), body_doc (cp_body p)]
     @ dopt ''next'' DStr (cp_next p))"

definition byteLength :: "changes_page \<Rightarrow> nat" where
  "byteLength p = doc_bytes (page_doc p)"

subsection \<open>The digest\<close>

definition finalEntry :: "ready_entry \<Rightarrow> bool \<Rightarrow> change_entry" where
  "finalEntry r early = (case rd_count r of
      None \<Rightarrow> rd_entry r
    | Some n \<Rightarrow> (rd_entry r)\<lparr>en_total := Some (if early then MessagesTotalAtLeast n else MessagesTotal n)\<rparr>)"

text \<open>A quiet page says neither its scope nor how to go on.\<close>

definition page_of :: "assemble_input \<Rightarrow> page_body \<Rightarrow> bool \<Rightarrow> nat \<Rightarrow> bool \<Rightarrow> changes_page" where
  "page_of i body silent through early =
     (let quiet = silent \<and> \<not> early \<and> as_gap i = None in
      \<lparr>cp_scope = (if quiet then None else Some (scopeOf (as_req i))), cp_since = as_since i, cp_through = through, cp_more = early,
       cp_gap = as_gap i, cp_unresolved = as_unresolved i, cp_body = body,
       cp_next = (if quiet then None else Some (nextCommand (as_req i) through))\<rparr>)"

definition digest_view :: "assemble_input \<Rightarrow> ready_entry list \<Rightarrow> nat \<Rightarrow> bool \<Rightarrow> changes_page" where
  "digest_view i emitted through early = page_of i (Changed (map (\<lambda>r. finalEntry r early) emitted)) (emitted = []) through early"

text \<open>Neighbours with the same first event are one group.\<close>

fun change_groups :: "ready_entry list \<Rightarrow> ready_entry list list" where
  "change_groups [] = []"
| "change_groups (r # rs) = (case change_groups rs of
      [] \<Rightarrow> [[r]]
    | g # gs \<Rightarrow> if rd_firstSeq (hd g) = rd_firstSeq r then (r # g) # gs else [r] # g # gs)"

definition COMPACT_STEPS :: "(nat \<times> nat) list" where
  "COMPACT_STEPS = [(EVENT_CHANGES_TITLE_CHARS, EVENT_CHANGES_EXCERPT_CHARS), (EVENT_CHANGES_TITLE_CHARS, 80), (48, 48)]"

definition compact_message :: "nat \<Rightarrow> shown_message \<Rightarrow> shown_message" where
  "compact_message excerptBytes m = (let excerpt = truncateBytes (sh_excerpt m) excerptBytes in
     if excerpt = sh_excerpt m then m else m\<lparr>sh_excerpt := excerpt, sh_truncated := True\<rparr>)"

definition compact_entry :: "nat \<Rightarrow> nat \<Rightarrow> ready_entry \<Rightarrow> ready_entry" where
  "compact_entry titleBytes excerptBytes r = r\<lparr>rd_entry := (rd_entry r)\<lparr>en_title := map_option (\<lambda>t. truncateBytes t titleBytes) (en_title (rd_entry r)),
     en_messages := map_option (map (compact_message excerptBytes)) (en_messages (rd_entry r))\<rparr>\<rparr>"

definition page_fits :: "assemble_input \<Rightarrow> ready_entry list \<Rightarrow> bool" where
  "page_fits i emitted \<longleftrightarrow> byteLength (digest_view i emitted (as_examinedThrough i) True) \<le> cq_totalBytes (as_req i)"

fun compact_by :: "assemble_input \<Rightarrow> ready_entry list \<Rightarrow> (nat \<times> nat) list \<Rightarrow> ready_entry list option" where
  "compact_by i g [] = None"
| "compact_by i g ((t, x) # steps) = (let c = map (compact_entry t x) g in if page_fits i c then Some c else compact_by i g steps)"

definition compactGroup :: "assemble_input \<Rightarrow> ready_entry list \<Rightarrow> ready_entry list option" where
  "compactGroup i g = compact_by i g COMPACT_STEPS"

fun emit_groups :: "assemble_input \<Rightarrow> ready_entry list list \<Rightarrow> ready_entry list \<Rightarrow> feed_error + ready_entry list \<times> nat option" where
  "emit_groups i [] emitted = Inr (emitted, None)"
| "emit_groups i (g # gs) emitted =
     (if length emitted + length g > as_maxEntities i then Inr (emitted, Some (rd_firstSeq (hd g)))
      else if \<not> page_fits i (emitted @ g) then
        (if emitted = [] then
          (case compactGroup i g of
             Some c \<Rightarrow> emit_groups i gs (emitted @ c)
           | None \<Rightarrow> Inl (FeedGroupTooLarge (rd_firstSeq (hd g)) (length g) (byteLength (digest_view i (emitted @ g) (as_examinedThrough i) True))))
         else Inr (emitted, Some (rd_firstSeq (hd g))))
      else emit_groups i gs (emitted @ g))"

definition assembleDigest :: "assemble_input \<Rightarrow> ready_entry list \<Rightarrow> feed_error + changes_page" where
  "assembleDigest i entries = (case emit_groups i (change_groups entries) [] of
      Inl x \<Rightarrow> Inl x
    | Inr (emitted, stopAt) \<Rightarrow>
        (let through = (case stopAt of None \<Rightarrow> as_examinedThrough i | Some s \<Rightarrow> min (s - 1) (as_examinedThrough i));
             early = (as_examineCapHit i \<or> stopAt \<noteq> None)
         in Inr (digest_view i emitted through early)))"

subsection \<open>Thin rows\<close>

definition thin_view :: "assemble_input \<Rightarrow> thin_row list \<Rightarrow> nat \<Rightarrow> bool \<Rightarrow> changes_page" where
  "thin_view i events through early = page_of i (ThinEvents events) (events = []) through early"

fun emit_thin :: "assemble_input \<Rightarrow> (thin_row \<times> string list) list \<Rightarrow> thin_row list \<Rightarrow> string list \<Rightarrow> feed_error + thin_row list \<times> bool" where
  "emit_thin i [] events seen = Inr (events, False)"
| "emit_thin i ((row, entities) # rows) events seen =
     (let fresh = filter (\<lambda>e. e \<notin> set seen) entities in
      if length seen + length fresh > as_maxEntities i
        \<or> byteLength (thin_view i (events @ [row]) (as_examinedThrough i) True) > cq_totalBytes (as_req i) then
        (if events = [] then Inl (FeedEventTooLarge (tr_seq row)) else Inr (events, True))
      else emit_thin i rows (events @ [row]) (seen @ fresh))"

definition assembleThin :: "assemble_input \<Rightarrow> (thin_row \<times> string list) list \<Rightarrow> feed_error + changes_page" where
  "assembleThin i rows = (case emit_thin i rows [] [] of
      Inl x \<Rightarrow> Inl x
    | Inr (events, stopped) \<Rightarrow>
        Inr (thin_view i events (if stopped then tr_seq (last events) else as_examinedThrough i) (as_examineCapHit i \<or> stopped)))"

definition thin_base :: "examined_row \<Rightarrow> string \<Rightarrow> thin_row" where
  "thin_base row i = \<lparr>tr_seq = xr_seq row, tr_type = xr_type row, tr_id = i, tr_kind = None, tr_v = None, tr_edge = None, tr_src = None, tr_dst = None,
     tr_anchor = None, tr_entity = None, tr_verb = None, tr_status = None, tr_actor = None\<rparr>"

text \<open>A row that the caller cannot read has no attribution, so it is never asked for its thin form.\<close>

definition thinRow :: "examined_row \<Rightarrow> attribution list \<Rightarrow> thin_row" where
  "thinRow row ats = (let p = xr_payload row in case xr_event row of
      Some (EntityView x) \<Rightarrow> (thin_base row (es_id x))\<lparr>tr_kind := Some (es_kind x), tr_v := num_opt (oget p ''version''), tr_status := str_opt (oget p ''status_category'')\<rparr>
    | Some (EdgeView g) \<Rightarrow> (thin_base row (eg_id g))\<lparr>tr_edge := Some (eg_type g), tr_src := Some (es_id (eg_source g)), tr_dst := Some (es_id (eg_target g)),
        tr_actor := Some (displayName (eg_createdBy g))\<rparr>
    | Some (MessageView anchorId m) \<Rightarrow> (thin_base row (ms_id m))\<lparr>tr_anchor := anchorId, tr_actor := Some (displayName (ms_author m))\<rparr>
    | Some (ActivityView v) \<Rightarrow> (thin_base row (av_id v))\<lparr>tr_entity := av_entity v, tr_verb := Some (av_verb v), tr_actor := Some (displayName (av_actor v))\<rparr>
    | Some (NoteView n actor) \<Rightarrow> (thin_base row n)\<lparr>tr_entity := str_opt (oget p ''target_entity_id''), tr_actor := Some (displayName actor)\<rparr>
    | _ \<Rightarrow> (thin_base row (case str_opt (oget p ''prEntityId'') of Some i \<Rightarrow> i | None \<Rightarrow>
               (case str_opt (oget p ''commitEntityId'') of Some i \<Rightarrow> i | None \<Rightarrow> (case ats of a # _ \<Rightarrow> at_entityId a | [] \<Rightarrow> []))))
             \<lparr>tr_entity := (case ats of _ # b # _ \<Rightarrow> Some (at_entityId b) | _ \<Rightarrow> None)\<rparr>)"

end
