(* ===== verification/ChangeRead.thy ===== *)
theory ChangeRead
  imports ChangeDigest
begin

text \<open>
  The scoped change feed (\<open>server/src/events/changes.ts\<close>) as it is read: the scope of a request, the window
  of the log, the lines of the entities that changed in it, and the page. What the database answers is
  a parameter: the rows and which of them the caller may read, their projections, the entities as they
  are now, the edges. The excerpt of a body and the cursor into an entity's messages are parameters too.
\<close>

subsection \<open>What the database answers\<close>

record feed_db =
  fd_space :: string
  fd_oldest :: "nat option"
  fd_newest :: "nat option"
  fd_watermark :: jsval
  fd_rows :: "event_row list"
  fd_view :: log_view
  fd_at :: "event_row \<Rightarrow> string"
  fd_project :: "event_row \<Rightarrow> event_view option"
  fd_member :: "string option"
  fd_actor :: "string option"
  fd_visible :: "string \<Rightarrow> bool"
  fd_tree :: "string list \<Rightarrow> string list"
  fd_tracked :: "string list \<Rightarrow> string list"
  fd_trackEdges :: "(string \<times> string) list"
  fd_kind :: "string \<Rightarrow> string option"
  fd_summary :: "string \<Rightarrow> entity_summary option"
  fd_endedAt :: "string \<Rightarrow> int option"
  fd_micros :: "string \<Rightarrow> string option"
  fd_expand :: "string \<Rightarrow> string \<Rightarrow> string \<Rightarrow> wide"
  fd_excerpt :: "wide \<Rightarrow> nat \<Rightarrow> wide"
  fd_time :: "string \<Rightarrow> int option"
  fd_collate :: "string \<Rightarrow> nat"

subsection \<open>The scope\<close>

record scope_resolution =
  rs_scope :: resolved_scope
  rs_queryIds :: "string list"
  rs_named :: "string list"
  rs_unresolved :: "string list"

definition scoped :: "change_request \<Rightarrow> bool" where
  "scoped req \<longleftrightarrow> length (cq_entity req) + length (cq_anchor req) + length (cq_subtree req) > 0"

definition resolveScope :: "feed_db \<Rightarrow> change_request \<Rightarrow> feed_error + scope_resolution" where
  "resolveScope db req =
     (let named = uniq (cq_entity req @ cq_anchor req @ cq_subtree req);
          entity = uniq (filter (fd_visible db) (cq_entity req));
          roots = filter (fd_visible db) (cq_subtree req);
          tree = (if roots = [] then [] else take (EVENT_CHANGES_MAX_SCOPE_IDS + 1) (fd_tree db roots));
          anchorLike = uniq (filter (fd_visible db) (cq_anchor req) @ tree);
          scopeIds = uniq (entity @ anchorLike) in
      if length scopeIds > EVENT_CHANGES_MAX_SCOPE_IDS then Inl FeedScopeTooLarge
      else (let tracked = (if scopeIds = [] then [] else fd_tracked db scopeIds);
                queryIds = uniq (scopeIds @ tracked @ named) in
        if length queryIds > EVENT_CHANGES_MAX_SCOPE_IDS then Inl FeedScopeTooLarge
        else Inr \<lparr>rs_scope = \<lparr>sc_entity = entity, sc_anchorLike = anchorLike\<rparr>, rs_queryIds = queryIds, rs_named = named,
               rs_unresolved = filter (\<lambda>i. \<not> fd_visible db i) named\<rparr>))"

subsection \<open>The window\<close>

definition feed_head :: "feed_db \<Rightarrow> change_request \<Rightarrow> nat" where
  "feed_head db req = (case fd_newest db of None \<Rightarrow> cq_after req | Some n \<Rightarrow> max n (cq_after req))"

definition feed_gap :: "feed_db \<Rightarrow> change_request \<Rightarrow> (nat \<times> nat) option" where
  "feed_gap db req = (case fd_oldest db of None \<Rightarrow> None | Some n \<Rightarrow> if cq_after req < n - 1 then Some (cq_after req, n) else None)"

definition feed_from :: "feed_db \<Rightarrow> change_request \<Rightarrow> nat" where
  "feed_from db req = (case feed_gap db req of None \<Rightarrow> cq_after req | Some g \<Rightarrow> snd g - 1)"

definition window_rows :: "feed_db \<Rightarrow> change_request \<Rightarrow> scope_resolution option \<Rightarrow> event_row list" where
  "window_rows db req res =
     take EVENT_CHANGES_MAX_EXAMINED
       (filter (\<lambda>r. case res of None \<Rightarrow> True | Some s \<Rightarrow> list_ex (\<lambda>i. i \<in> set (rs_queryIds s)) (subjectIdsOf (ev_type r) (ev_payload r)))
         (filter (\<lambda>r. ev_seq r \<le> feed_head db req) (rows_after (fd_view db) (fd_rows db) (fd_space db) (feed_from db req))))"

definition examined_of :: "feed_db \<Rightarrow> event_row \<Rightarrow> examined_row" where
  "examined_of db r = \<lparr>xr_seq = ev_seq r, xr_type = ev_type r, xr_payload = ev_payload r, xr_at = fd_at db r, xr_event = fd_project db r\<rparr>"

definition git_fact :: "examined_row \<Rightarrow> string option" where
  "git_fact r = (if xr_event r \<noteq> None \<and> xr_type r \<in> {''git.pr_state_changed'', ''git.commit_recorded''}
     then (case str_opt (oget (xr_payload r) ''prEntityId'') of None \<Rightarrow> str_opt (oget (xr_payload r) ''commitEntityId'') | Some i \<Rightarrow> Some i)
     else None)"

definition trackedBy :: "feed_db \<Rightarrow> examined_row list \<Rightarrow> (string \<times> string list) list" where
  "trackedBy db rows = map (\<lambda>f. (f, map fst (filter (\<lambda>(src, dst). dst = f) (fd_trackEdges db)))) (uniq (List.map_filter git_fact rows))"

definition context_of :: "feed_db \<Rightarrow> examined_row list \<Rightarrow> attribution_context" where
  "context_of db rows = \<lparr>cx_trackedBy = trackedBy db rows, cx_callerIds = List.map_filter id [fd_member db, fd_actor db], cx_time = fd_time db\<rparr>"

subsection \<open>The lines\<close>

definition after_start :: "wide \<Rightarrow> string \<Rightarrow> bool" where
  "after_start c p = wide_starts c (wide p)"

text \<open>A session that ended between the first and the last row that touched it here is reported as ended.\<close>

definition ended_in_window :: "feed_db \<Rightarrow> accumulator \<Rightarrow> bool" where
  "ended_in_window db m = (case (fd_endedAt db (am_id m), fd_time db (am_firstAt m), fd_time db (am_lastAt m)) of
      (Some e, Some a, Some b) \<Rightarrow> a \<le> e \<and> e \<le> b
    | _ \<Rightarrow> False)"

definition ended_class :: "entity_summary \<Rightarrow> string \<Rightarrow> wide" where
  "ended_class x st = wide ''status:running'' @ ARROW @ wide st @ wide ''('' @ (case es_endedKind x of None \<Rightarrow> wide ''unknown'' | Some k \<Rightarrow> wide k)
     @ (case nonempty (es_endedReason x) of None \<Rightarrow> [] | Some why \<Rightarrow> wide '': '' @ cut_units why EVENT_CHANGES_TITLE_CHARS) @ wide '')''"

definition session_changes :: "feed_db \<Rightarrow> accumulator \<Rightarrow> entity_summary \<Rightarrow> wide list" where
  "session_changes db m x = (case es_status x of
      None \<Rightarrow> am_changes m
    | Some st \<Rightarrow>
        if es_kind x = ''work_session'' \<and> st \<in> {''exited'', ''failed''} \<and> ended_in_window db m
        then ended_class x st # filter (\<lambda>c. c \<noteq> wide ''updated'' \<and> \<not> after_start c ''status'') (am_changes m)
        else am_changes m)"

definition parentField :: "change_request \<Rightarrow> string option \<Rightarrow> string option option" where
  "parentField req p = (if length (cq_subtree req) = 1 \<and> p = Some (hd (cq_subtree req)) then None else Some p)"

definition kind_wanted :: "change_request \<Rightarrow> string \<Rightarrow> bool" where
  "kind_wanted req k \<longleftrightarrow> cq_kind req = [] \<or> wide k \<in> set (cq_kind req)"

definition change_wanted :: "change_request \<Rightarrow> wide list \<Rightarrow> bool" where
  "change_wanted req cs \<longleftrightarrow> cq_change req = [] \<or> list_ex (\<lambda>c. list_ex (changeMatches c) (cq_change req)) cs"

definition status_shown :: "wide list \<Rightarrow> entity_summary \<Rightarrow> string option" where
  "status_shown cs x = (if list_ex (\<lambda>c. c = wide ''created'' \<or> c = wide ''status'' \<or> after_start c ''status:'') cs \<and> es_kind x \<in> {''task'', ''work_session''}
     then es_status x else None)"

definition shown_of :: "feed_db \<Rightarrow> string list \<Rightarrow> message_ref \<Rightarrow> shown_message" where
  "shown_of db callerIds m = (let excerpt = fd_excerpt db (mg_body m) EVENT_CHANGES_EXCERPT_CHARS in
     \<lparr>sh_id = mg_id m, sh_author = mg_author m, sh_replyTo = mg_replyTo m, sh_toMe = list_ex (\<lambda>i. i \<in> set callerIds) (mg_mentions m),
      sh_excerpt = excerpt, sh_truncated = (excerpt \<noteq> fd_excerpt db (mg_body m) MAX_SAFE_INTEGER)\<rparr>)"

definition message_cap :: "entity_summary \<Rightarrow> nat" where
  "message_cap x = (if es_kind x \<in> set CHAT_KINDS then EVENT_CHANGES_CHAT_MESSAGE_CAP else EVENT_CHANGES_MESSAGE_CAP)"

definition newest_first :: "message_ref list \<Rightarrow> message_ref list" where
  "newest_first ms = sort_key (\<lambda>m. - int (mg_seq m)) ms"

definition messages_next :: "feed_db \<Rightarrow> string \<Rightarrow> string \<Rightarrow> wide" where
  "messages_next db i lastShown = (case fd_micros db lastShown of
      None \<Rightarrow> wide ''tm8 entity context '' @ wide i @ wide '' --sections messages''
    | Some c \<Rightarrow> fd_expand db i c lastShown)"

definition with_messages :: "feed_db \<Rightarrow> string list \<Rightarrow> entity_summary \<Rightarrow> message_ref list \<Rightarrow> change_entry \<Rightarrow> change_entry" where
  "with_messages db callerIds x ms n =
     (if ms = [] then n
      else (let newest = newest_first ms; shown = take (message_cap x) newest; rest = (length newest > message_cap x) in
        n\<lparr>en_messages := Some (map (shown_of db callerIds) shown), en_total := Some (MessagesTotal (length ms)), en_messagesMore := rest,
          en_messagesNext := (if rest then Some (messages_next db (en_id n) (mg_id (last shown))) else None)\<rparr>))"

definition ready_entry_of :: "feed_db \<Rightarrow> change_request \<Rightarrow> string list \<Rightarrow> accumulator \<Rightarrow> ready_entry option" where
  "ready_entry_of db req callerIds m =
     (if am_changes m = [] then None
      else (case fd_summary db (am_id m) of
          None \<Rightarrow> None
        | Some x \<Rightarrow>
            if es_kind x = ''message'' then None
            else (let cs = session_changes db m x in
              if \<not> kind_wanted req (es_kind x) then None
              else if \<not> change_wanted req cs then None
              else Some \<lparr>rd_firstSeq = am_firstSeq m,
                rd_entry = with_messages db callerIds x (am_messages m)
                  \<lparr>en_id = es_id x, en_kind = es_kind x, en_title = Some (cut_units (es_title x) EVENT_CHANGES_TITLE_CHARS),
                   en_parent = parentField req (es_parent x), en_v = Some (es_version x), en_status = status_shown cs x,
                   en_lastSeq = am_lastSeq m, en_changes = cs, en_actors = am_actors m, en_messages = None, en_total = None,
                   en_messagesMore = False, en_messagesNext = None\<rparr>,
                rd_count = (if am_messages m = [] then None else Some (length (am_messages m)))\<rparr>)))"

definition ready_entries :: "feed_db \<Rightarrow> change_request \<Rightarrow> string list \<Rightarrow> accumulators \<Rightarrow> ready_entry list" where
  "ready_entries db req callerIds acc = List.map_filter (ready_entry_of db req callerIds) (map snd acc)"

text \<open>An entity that was named and is gone is reported from its captured row, in the order of the first.\<close>

definition deleted_row :: "scope_resolution \<Rightarrow> examined_row \<Rightarrow> string option" where
  "deleted_row res r = (if xr_type r = ''entity.deleted'' \<and> xr_event r = None
     then (case str_opt (oget (xr_payload r) ''id'') of None \<Rightarrow> None | Some i \<Rightarrow> if i \<in> set (rs_unresolved res) then Some i else None)
     else None)"

definition deleted_entry :: "change_request \<Rightarrow> examined_row \<Rightarrow> string \<Rightarrow> nat \<Rightarrow> ready_entry" where
  "deleted_entry req r i firstSeq = \<lparr>rd_firstSeq = firstSeq,
     rd_entry = \<lparr>en_id = i, en_kind = (case str_opt (oget (xr_payload r) ''kind'') of None \<Rightarrow> ''unknown'' | Some k \<Rightarrow> k), en_title = None,
       en_parent = parentField req (str_opt (oget (xr_payload r) ''parent_id'')), en_v = None, en_status = None, en_lastSeq = xr_seq r,
       en_changes = [wide ''deleted''], en_actors = [], en_messages = None, en_total = None, en_messagesMore = False, en_messagesNext = None\<rparr>,
     rd_count = None\<rparr>"

definition note_deleted :: "scope_resolution \<Rightarrow> change_request \<Rightarrow> examined_row \<Rightarrow> (string \<times> ready_entry) list \<Rightarrow> (string \<times> ready_entry) list" where
  "note_deleted res req r out = (case deleted_row res r of
      None \<Rightarrow> out
    | Some i \<Rightarrow> AList.update i (deleted_entry req r i (case map_of out i of None \<Rightarrow> xr_seq r | Some prior \<Rightarrow> rd_firstSeq prior)) out)"

definition hardDeletedNamed :: "examined_row list \<Rightarrow> scope_resolution \<Rightarrow> change_request \<Rightarrow> ready_entry list" where
  "hardDeletedNamed rows res req = map snd (fold (note_deleted res req) rows [])"

subsection \<open>Reading\<close>

definition sorted_entries :: "feed_db \<Rightarrow> ready_entry list \<Rightarrow> ready_entry list" where
  "sorted_entries db es = sort_key rd_firstSeq (sort_key (\<lambda>r. fd_collate db (en_id (rd_entry r))) es)"

definition thin_rows :: "feed_db \<Rightarrow> change_request \<Rightarrow> attribution_context \<Rightarrow> resolved_scope option \<Rightarrow> examined_row list \<Rightarrow> (thin_row \<times> string list) list" where
  "thin_rows db req ctx scope rows = List.map_filter (\<lambda>row.
     (let ats = filter (\<lambda>a. inScope scope a
          \<and> (cq_kind req = [] \<or> (case fd_kind db (at_entityId a) of None \<Rightarrow> [] | Some k \<Rightarrow> wide k) \<in> set (cq_kind req))
          \<and> (cq_change req = [] \<or> (case at_change a of None \<Rightarrow> False | Some c \<Rightarrow> list_ex (changeMatches c) (cq_change req)))) (attribute ctx row)
      in if ats = [] then None else Some (thinRow row ats, uniq (map at_entityId ats)))) rows"

definition digest_entries :: "feed_db \<Rightarrow> change_request \<Rightarrow> scope_resolution option \<Rightarrow> examined_row list \<Rightarrow> ready_entry list" where
  "digest_entries db req res examined =
     (let ctx = context_of db examined;
          gone = (case res of None \<Rightarrow> [] | Some s \<Rightarrow> hardDeletedNamed examined s req)
      in sorted_entries db (ready_entries db req (cx_callerIds ctx) (accumulate examined ctx (map_option rs_scope res))
           @ filter (\<lambda>d. kind_wanted req (en_kind (rd_entry d)) \<and> change_wanted req [wide ''deleted'']) gone))"

definition still_unresolved :: "change_request \<Rightarrow> scope_resolution option \<Rightarrow> examined_row list \<Rightarrow> string list" where
  "still_unresolved req res examined = (case res of None \<Rightarrow> []
     | Some s \<Rightarrow> filter (\<lambda>i. i \<notin> (en_id \<circ> rd_entry) ` set (hardDeletedNamed examined s req)) (rs_unresolved s))"

definition page_input :: "feed_db \<Rightarrow> change_request \<Rightarrow> string list \<Rightarrow> event_row list \<Rightarrow> assemble_input" where
  "page_input db req unresolved rows =
     (let capHit = (length rows = EVENT_CHANGES_MAX_EXAMINED) in
      \<lparr>as_req = req, as_since = cq_after req, as_gap = feed_gap db req, as_unresolved = unresolved,
       as_examinedThrough = (if capHit then ev_seq (last rows) else feed_head db req), as_examineCapHit = capHit, as_maxEntities = EVENT_CHANGES_MAX_ENTITIES\<rparr>)"

definition read_window :: "feed_db \<Rightarrow> change_request \<Rightarrow> scope_resolution option \<Rightarrow> feed_error + changes_page" where
  "read_window db req res =
     (let rows = window_rows db req res; examined = map (examined_of db) rows; ctx = context_of db examined in
      if cq_events req then
        assembleThin (page_input db req (case res of None \<Rightarrow> [] | Some s \<Rightarrow> rs_unresolved s) rows)
          (thin_rows db req ctx (map_option rs_scope res) examined)
      else if (case res of None \<Rightarrow> False | Some s \<Rightarrow> rs_named s \<noteq> [] \<and> length (still_unresolved req res examined) = length (rs_named s))
        then Inl (FeedNotFound (case res of None \<Rightarrow> [] | Some s \<Rightarrow> rs_named s))
      else assembleDigest (page_input db req (still_unresolved req res examined) rows) (digest_entries db req res examined))"

definition read_changes :: "feed_db \<Rightarrow> change_request \<Rightarrow> feed_error + changes_page" where
  "read_changes db req =
     (if \<not> scoped req then read_window db req None
      else (case gateSubjectIndex (fd_watermark db) (feed_from db req) of
          Inl x \<Rightarrow> Inl (FeedIndex x)
        | Inr _ \<Rightarrow> (case resolveScope db req of Inl x \<Rightarrow> Inl x | Inr s \<Rightarrow> read_window db req (Some s))))"

end
