(* ===== verification/ChangePages.thy ===== *)
theory ChangePages
  imports ChangeRead
begin

text \<open>
  What a page of the change feed (\<open>server/src/events/changes.ts\<close>) holds: the groups it emits are a prefix of
  the groups there are, and its size is within the budget it was measured against, but for one byte.
\<close>

subsection \<open>Groups\<close>

definition group_seq :: "ready_entry list \<Rightarrow> nat" where
  "group_seq g = rd_firstSeq (hd g)"

definition groups_ok :: "ready_entry list list \<Rightarrow> bool" where
  "groups_ok gs \<longleftrightarrow> (\<forall>g \<in> set gs. g \<noteq> [] \<and> (\<forall>r \<in> set g. rd_firstSeq r = group_seq g)) \<and> sorted_wrt (\<lambda>g h. group_seq g < group_seq h) gs"

lemma groups_ok_Cons: "groups_ok (g # gs) \<longleftrightarrow> (g \<noteq> [] \<and> (\<forall>r \<in> set g. rd_firstSeq r = group_seq g)) \<and> (\<forall>h \<in> set gs. group_seq g < group_seq h) \<and> groups_ok gs"
  unfolding groups_ok_def by auto

lemma concat_groups [simp]: "concat (change_groups es) = es"
  by (induction es) (auto split: list.splits)

lemma groups_ok_change: "sorted (map rd_firstSeq es) \<Longrightarrow> groups_ok (change_groups es)"
proof (induction es)
  case Nil
  then show ?case by (simp add: groups_ok_def)
next
  case (Cons r rs)
  then have ih: "groups_ok (change_groups rs)" and le: "\<forall>x \<in> set (concat (change_groups rs)). rd_firstSeq r \<le> rd_firstSeq x" by simp_all
  show ?case
  proof (cases "change_groups rs")
    case Nil
    then show ?thesis by (simp add: groups_ok_def group_seq_def)
  next
    case (Cons g gs)
    have g: "g \<noteq> []" "\<forall>x \<in> set g. rd_firstSeq x = group_seq g" "\<forall>h \<in> set gs. group_seq g < group_seq h" "groups_ok gs"
      using ih unfolding Cons groups_ok_Cons by blast+
    have le: "rd_firstSeq r \<le> group_seq g" using le g(1) by (simp add: Cons group_seq_def)
    show ?thesis
    proof (cases "group_seq g = rd_firstSeq r")
      case True
      then have "change_groups (r # rs) = (r # g) # gs" and seq: "group_seq (r # g) = group_seq g" by (simp_all add: Cons group_seq_def)
      moreover have "\<forall>x \<in> set (r # g). rd_firstSeq x = group_seq (r # g)" unfolding seq using g(2) True by (metis set_ConsD)
      ultimately show ?thesis using g(3,4) by (simp only: groups_ok_Cons seq) blast
    next
      case False
      then have "change_groups (r # rs) = [r] # g # gs" and less: "group_seq [r] < group_seq g" using le by (simp_all add: Cons group_seq_def)
      moreover have "\<forall>h \<in> set (g # gs). group_seq [r] < group_seq h" using less g(3) by (metis order.strict_trans set_ConsD)
      moreover have "\<forall>x \<in> set [r]. rd_firstSeq x = group_seq [r]" by (simp add: group_seq_def)
      ultimately show ?thesis using g by (simp only: groups_ok_Cons) blast
    qed
  qed
qed

lemma groups_split:
  assumes "groups_ok (gs1 @ g # gs2)"
  shows "g \<noteq> []" "\<forall>r \<in> set g. rd_firstSeq r = group_seq g" "\<forall>r \<in> set (concat gs1). rd_firstSeq r < group_seq g" "\<forall>r \<in> set (concat gs2). group_seq g < rd_firstSeq r"
proof -
  have each: "\<forall>h \<in> set gs1 \<union> set gs2. \<forall>r \<in> set h. rd_firstSeq r = group_seq h" and ord: "\<forall>h \<in> set gs1. group_seq h < group_seq g" "\<forall>h \<in> set gs2. group_seq g < group_seq h"
    using assms by (simp_all add: groups_ok_def sorted_wrt_append)
  show "g \<noteq> []" "\<forall>r \<in> set g. rd_firstSeq r = group_seq g" using assms by (simp_all add: groups_ok_def)
  show "\<forall>r \<in> set (concat gs1). rd_firstSeq r < group_seq g"
  proof
    fix r assume "r \<in> set (concat gs1)"
    then obtain h where h: "h \<in> set gs1" "r \<in> set h" by auto
    with each have "rd_firstSeq r = group_seq h" by blast
    with ord(1) h(1) show "rd_firstSeq r < group_seq g" by simp
  qed
  show "\<forall>r \<in> set (concat gs2). group_seq g < rd_firstSeq r"
  proof
    fix r assume "r \<in> set (concat gs2)"
    then obtain h where h: "h \<in> set gs2" "r \<in> set h" by auto
    with each have "rd_firstSeq r = group_seq h" by blast
    with ord(2) h(1) show "group_seq g < rd_firstSeq r" by simp
  qed
qed

text \<open>Cutting titles and excerpts leaves what identifies a line.\<close>

definition same_line :: "ready_entry \<Rightarrow> ready_entry \<Rightarrow> bool" where
  "same_line r r' \<longleftrightarrow> rd_firstSeq r' = rd_firstSeq r \<and> rd_count r' = rd_count r \<and> en_id (rd_entry r') = en_id (rd_entry r) \<and> en_kind (rd_entry r') = en_kind (rd_entry r)
     \<and> en_lastSeq (rd_entry r') = en_lastSeq (rd_entry r) \<and> en_changes (rd_entry r') = en_changes (rd_entry r) \<and> en_actors (rd_entry r') = en_actors (rd_entry r)"

lemma same_line_refl [simp]: "same_line r r"
  by (simp add: same_line_def)

lemma same_lines_refl [simp]: "list_all2 same_line rs rs"
  by (simp add: list_all2_same)

lemma compact_by_same: "compact_by i g steps = Some c \<Longrightarrow> list_all2 same_line g c \<and> page_fits i c"
  by (induction steps) (auto simp: Let_def list_all2_conv_all_nth same_line_def compact_entry_def split: if_splits)

text \<open>What the loop over the groups has emitted: a prefix of the groups, that fits.\<close>

definition emits_prefix :: "assemble_input \<Rightarrow> ready_entry list list \<Rightarrow> ready_entry list \<Rightarrow> nat option \<Rightarrow> bool" where
  "emits_prefix i gs emitted stopAt \<longleftrightarrow> (emitted \<noteq> [] \<longrightarrow> page_fits i emitted) \<and> length emitted \<le> as_maxEntities i
     \<and> (case stopAt of
         None \<Rightarrow> list_all2 same_line (concat gs) emitted
       | Some s \<Rightarrow> \<exists>gs1 g gs2. gs = gs1 @ g # gs2 \<and> s = group_seq g \<and> list_all2 same_line (concat gs1) emitted
           \<and> (emitted = [] \<longrightarrow> as_maxEntities i < length g))"

lemma emitted_prefix:
  assumes "emit_groups i gs emitted = Inr (out, stopAt)" "emitted \<noteq> [] \<longrightarrow> page_fits i emitted" "length emitted \<le> as_maxEntities i"
    "list_all2 same_line (concat before) emitted"
  shows "emits_prefix i (before @ gs) out stopAt"
  using assms
proof (induction gs arbitrary: emitted before)
  case Nil
  then show ?case by (auto simp: emits_prefix_def)
next
  case (Cons g gs)
  have stop: "emits_prefix i (before @ g # gs) emitted (Some (rd_firstSeq (hd g)))" if "emitted = [] \<longrightarrow> as_maxEntities i < length g"
    using Cons.prems(2-4) that by (auto simp: emits_prefix_def group_seq_def)
  have goes_on: "emits_prefix i (before @ g # gs) out stopAt"
    if "emit_groups i gs (emitted @ c) = Inr (out, stopAt)" "page_fits i (emitted @ c)" "list_all2 same_line g c"
      "length emitted + length g \<le> as_maxEntities i" for c
    using Cons.IH [of "emitted @ c" "before @ [g]"] that Cons.prems(4) by (simp add: list_all2_appendI list_all2_lengthD [OF that(3), symmetric])
  consider (many) "length emitted + length g > as_maxEntities i" | (big) "length emitted + length g \<le> as_maxEntities i" "\<not> page_fits i (emitted @ g)"
    | (fits) "length emitted + length g \<le> as_maxEntities i" "page_fits i (emitted @ g)" by linarith
  then show ?case
  proof cases
    case many
    then have "out = emitted" "stopAt = Some (rd_firstSeq (hd g))" using Cons.prems(1) by simp_all
    moreover have "emitted = [] \<longrightarrow> as_maxEntities i < length g" using many by auto
    ultimately show ?thesis using stop by simp
  next
    case big
    show ?thesis
    proof (cases "emitted = []")
      case True
      with big Cons.prems(1) obtain c where c: "compactGroup i g = Some c" "emit_groups i gs (emitted @ c) = Inr (out, stopAt)"
        by (auto split: option.splits if_splits)
      with True big show ?thesis using compact_by_same [of i g COMPACT_STEPS c] goes_on [of c] by (simp add: compactGroup_def)
    next
      case False
      with big Cons.prems(1) have "out = emitted" "stopAt = Some (rd_firstSeq (hd g))" by simp_all
      with False show ?thesis using stop by simp
    qed
  next
    case fits
    then show ?thesis using Cons.prems(1) goes_on [of g] by auto
  qed
qed

text \<open>A page of the digest: what was emitted, and where it stops.\<close>

lemma digest_page:
  assumes "assembleDigest i entries = Inr p"
  obtains emitted stopAt where "emits_prefix i (change_groups entries) emitted stopAt"
    "p = digest_view i emitted (case stopAt of None \<Rightarrow> as_examinedThrough i | Some s \<Rightarrow> min (s - 1) (as_examinedThrough i)) (as_examineCapHit i \<or> stopAt \<noteq> None)"
  using assms emitted_prefix [of i "change_groups entries" "[]" _ _ "[]"]
  by (auto simp: assembleDigest_def Let_def split: sum.splits prod.splits)

lemma digest_view_simps [simp]: "cp_through (digest_view i rs t m) = t" "cp_more (digest_view i rs t m) = m"
  "cp_body (digest_view i rs t m) = Changed (map (\<lambda>r. finalEntry r m) rs)"
  by (simp_all add: digest_view_def page_of_def Let_def)

lemma final_fields [simp]: "en_id (finalEntry r m) = en_id (rd_entry r)" "en_lastSeq (finalEntry r m) = en_lastSeq (rd_entry r)"
  "en_changes (finalEntry r m) = en_changes (rd_entry r)" "en_actors (finalEntry r m) = en_actors (rd_entry r)"
  by (simp_all add: finalEntry_def split: option.splits)

text \<open>The lines of a page are just those first changed up to where it says it got.\<close>

definition line_of :: "change_entry \<Rightarrow> string \<times> nat \<times> wide list \<times> wide list" where
  "line_of n = (en_id n, en_lastSeq n, en_changes n, en_actors n)"

lemma same_lines_map: "list_all2 same_line rs rs' \<Longrightarrow> map (\<lambda>r. line_of (finalEntry r m)) rs' = map (line_of \<circ> rd_entry) rs"
  by (induction rule: list_all2_induct) (auto simp: same_line_def line_of_def)

lemma digest_exact:
  assumes "assembleDigest i entries = Inr p" "sorted (map rd_firstSeq entries)" "\<forall>r \<in> set entries. 0 < rd_firstSeq r \<and> rd_firstSeq r \<le> as_examinedThrough i"
  shows "\<exists>ns. cp_body p = Changed ns \<and> map line_of ns = map (line_of \<circ> rd_entry) (filter (\<lambda>r. rd_firstSeq r \<le> cp_through p) entries)
     \<and> cp_through p \<le> as_examinedThrough i \<and> (cp_through p < as_examinedThrough i \<longrightarrow> cp_more p)"
proof -
  obtain emitted stopAt where e: "emits_prefix i (change_groups entries) emitted stopAt"
    and p: "p = digest_view i emitted (case stopAt of None \<Rightarrow> as_examinedThrough i | Some s \<Rightarrow> min (s - 1) (as_examinedThrough i)) (as_examineCapHit i \<or> stopAt \<noteq> None)"
    by (rule digest_page [OF assms(1)])
  show ?thesis
  proof (cases stopAt)
    case None
    with e have "list_all2 same_line entries emitted" by (simp add: emits_prefix_def)
    moreover have "filter (\<lambda>r. rd_firstSeq r \<le> as_examinedThrough i) entries = entries" using assms(3) by (simp add: filter_id_conv)
    ultimately show ?thesis using None by (auto simp: p comp_def dest: same_lines_map [where m = "as_examineCapHit i"])
  next
    case (Some s)
    with e obtain gs1 g gs2 where gs: "change_groups entries = gs1 @ g # gs2" "s = group_seq g" and l: "list_all2 same_line (concat gs1) emitted"
      by (auto simp: emits_prefix_def)
    have ok: "groups_ok (gs1 @ g # gs2)" using groups_ok_change [OF assms(2)] gs(1) by simp
    have entries: "entries = concat gs1 @ g @ concat gs2" using concat_groups [of entries] gs(1) by simp
    note sp = groups_split [OF ok]
    have "hd g \<in> set entries" using sp(1) by (simp add: entries)
    then have s: "0 < s" "s \<le> as_examinedThrough i" using assms(3) gs(2) by (auto simp: group_seq_def)
    have "rd_firstSeq r < s" if "r \<in> set (concat gs1)" for r using sp(3) gs(2) that by blast
    moreover have "s \<le> rd_firstSeq r" if "r \<in> set (g @ concat gs2)" for r using sp(2,4) gs(2) that by (metis UnE less_imp_le order_refl set_append)
    ultimately have "filter (\<lambda>r. rd_firstSeq r \<le> s - 1) (concat gs1) = concat gs1" "filter (\<lambda>r. rd_firstSeq r \<le> s - 1) (g @ concat gs2) = []"
      using s(1) by (fastforce simp: filter_id_conv filter_empty_conv)+
    then have "filter (\<lambda>r. rd_firstSeq r \<le> s - 1) entries = concat gs1" by (simp add: entries)
    with l s show ?thesis by (auto simp: p Some comp_def dest: same_lines_map [where m = True])
  qed
qed

text \<open>Where a page does not get on, one event first changed more entities than a page may hold.\<close>

lemma digest_advances:
  assumes "assembleDigest i entries = Inr p" "sorted (map rd_firstSeq entries)" "\<forall>r \<in> set entries. t < rd_firstSeq r \<and> rd_firstSeq r \<le> as_examinedThrough i"
    and more: "cp_more p" "as_examineCapHit i \<longrightarrow> t < as_examinedThrough i"
  shows "t < cp_through p \<or> (\<exists>s. as_maxEntities i < length (filter (\<lambda>r. rd_firstSeq r = s) entries) \<and> (\<forall>r \<in> set entries. s \<le> rd_firstSeq r) \<and> cp_through p = s - 1)"
proof -
  obtain emitted stopAt where e: "emits_prefix i (change_groups entries) emitted stopAt"
    and p: "p = digest_view i emitted (case stopAt of None \<Rightarrow> as_examinedThrough i | Some s \<Rightarrow> min (s - 1) (as_examinedThrough i)) (as_examineCapHit i \<or> stopAt \<noteq> None)"
    by (rule digest_page [OF assms(1)])
  show ?thesis
  proof (cases stopAt)
    case None
    with more p show ?thesis by simp
  next
    case (Some s)
    with e obtain gs1 g gs2 where gs: "change_groups entries = gs1 @ g # gs2" "s = group_seq g" and l: "list_all2 same_line (concat gs1) emitted"
      and big: "emitted = [] \<longrightarrow> as_maxEntities i < length g" by (auto simp: emits_prefix_def)
    have ok: "groups_ok (gs1 @ g # gs2)" using groups_ok_change [OF assms(2)] gs(1) by simp
    have entries: "entries = concat gs1 @ g @ concat gs2" using concat_groups [of entries] gs(1) by simp
    note sp = groups_split [OF ok]
    have g: "g \<noteq> []" "\<forall>r \<in> set g. rd_firstSeq r = s" using sp(1,2) gs(2) by simp_all
    then have s: "t < s" "s \<le> as_examinedThrough i" using assms(3) by (auto simp: entries neq_Nil_conv)
    then have through: "cp_through p = s - 1" by (simp add: p Some)
    show ?thesis
    proof (cases gs1)
      case Nil
      with l have "as_maxEntities i < length g" using big by simp
      moreover have "length g \<le> length (filter (\<lambda>r. rd_firstSeq r = s) entries)" using g(2) by (simp add: entries filter_id_conv)
      moreover have "\<forall>r \<in> set entries. s \<le> rd_firstSeq r" using sp(2,4) gs(2) by (auto simp: entries Nil order.strict_implies_order)
      ultimately show ?thesis using through by (metis order.strict_trans2)
    next
      case (Cons g1 gs')
      then have "g1 \<noteq> []" using ok by (simp add: groups_ok_def)
      then have "rd_firstSeq (hd g1) < s" using sp(3) gs(2) by (simp add: Cons)
      moreover have "hd g1 \<in> set entries" using \<open>g1 \<noteq> []\<close> by (simp add: entries Cons)
      ultimately show ?thesis using assms(3) through by fastforce
    qed
  qed
qed

end
