(* ===== verification/ChangeSizes.thy ===== *)
theory ChangeSizes
  imports ChangePages
begin

text \<open>
  How large a page of the change feed is (\<open>server/src/events/changes.ts\<close>): a digest is measured as if it
  stopped early at the end of the window, and what is sent is larger by at most the byte that \<open>false\<close>
  has more than \<open>true\<close>.
\<close>

subsection \<open>Numbers at the end of a text\<close>

lemma concat_code_points [simp]: "concat (code_points s) = s"
  by (induction s rule: code_points.induct) auto

lemma code_points_append: "\<not> is_low (hd (t @ [0])) \<Longrightarrow> code_points (s @ t) = code_points s @ code_points t"
  using code_points_split [of s "code_points s" "[]" t] by simp

text \<open>Printable ASCII, but for the quote and the backslash, is one byte each.\<close>

definition plain_unit :: "nat \<Rightarrow> bool" where
  "plain_unit u \<longleftrightarrow> 32 \<le> u \<and> u < 127 \<and> u \<noteq> 34 \<and> u \<noteq> 92"

lemma plain_points: "list_all plain_unit s \<Longrightarrow> code_points s = map (\<lambda>u. [u]) s"
  by (induction s rule: code_points.induct) (auto simp: is_high_def plain_unit_def)

lemma plain_bytes:
  assumes "list_all plain_unit s"
  shows "sum_list (map json_point_bytes (code_points s)) = length s"
proof -
  have "sum_list (map (\<lambda>u. json_point_bytes [u]) s) = length s" using assms
    by (induction s) (auto simp: json_point_bytes_def point_bytes_def is_high_def is_low_def plain_unit_def)
  then show ?thesis by (simp add: plain_points [OF assms] comp_def)
qed

lemma plain_string_bytes: "list_all plain_unit (wide s) \<Longrightarrow> json_string_bytes (wide s) = 2 + length s"
  by (simp add: json_string_bytes_def plain_bytes) (simp add: wide_def)

lemma digits_plain: "list_all plain_unit (wide (show_nat n))"
  using show_nat_digits [of n] by (auto simp: wide_def is_digit_def Let_def plain_unit_def list_all_iff)

lemma number_at_end: "json_string_bytes (s @ wide (show_nat n)) = json_string_bytes s + length (show_nat n)"
proof -
  have "\<not> is_low (hd (wide (show_nat n) @ [0]))" using digits_plain [of n] by (cases "wide (show_nat n)") (auto simp: is_low_def plain_unit_def)
  then show ?thesis using plain_bytes [OF digits_plain, of n] by (simp add: json_string_bytes_def code_points_append) (simp add: wide_def)
qed

lemma join_last: "wide_join sep (ws @ [w]) = (if ws = [] then w else wide_join sep ws @ sep @ w)"
  by (induction sep ws rule: wide_join.induct) auto

lemma next_parts_some: "next_parts r \<noteq> []"
  by (simp add: next_parts_def)

lemma wide_append: "wide (s @ t) = wide s @ wide t"
  by (simp add: wide_def)

lemma next_command_bytes: "json_string_bytes (nextCommand r n) = json_string_bytes (wide_join (wide '' '') (next_parts r) @ wide '' --after '') + length (show_nat n)"
proof -
  have "nextCommand r n = (wide_join (wide '' '') (next_parts r) @ wide '' --after '') @ wide (show_nat n)"
    using next_parts_some [of r] wide_append [of "'' ''" "''--after ''"] by (simp add: nextCommand_def join_last)
  then show ?thesis by (simp only: number_at_end)
qed

subsection \<open>Lines and pages\<close>

lemma entry_members_total [simp]: "entry_members (n\<lparr>en_total := x\<rparr>) = entry_members n"
  by (simp add: entry_members_def)

lemma total_bytes: "json_string_bytes (wide ''messagesTotal'') = 15" "json_string_bytes (wide ''messagesTotalAtLeast'') = 22"
  by (subst plain_string_bytes; simp add: wide_def plain_unit_def)+

lemma final_entry_bytes: "doc_bytes (entry_doc (finalEntry r False)) \<le> doc_bytes (entry_doc (finalEntry r True))"
  by (simp add: finalEntry_def entry_doc_def total_doc_def total_bytes split: option.splits)

lemma final_entries_bytes:
  "sum_list (map (doc_bytes \<circ> entry_doc \<circ> (\<lambda>r. finalEntry r False)) rs) \<le> sum_list (map (doc_bytes \<circ> entry_doc \<circ> (\<lambda>r. finalEntry r True)) rs)"
  by (rule sum_list_mono) (simp add: final_entry_bytes)

lemma doc_obj_bytes: "doc_bytes (DObj kvs) = 2 + commas (length kvs) + sum_list (map (\<lambda>(k, d). json_string_bytes (wide k) + 1 + doc_bytes d) kvs)"
  by (simp add: comp_def case_prod_unfold)

lemma measured_is_worst:
  assumes "rs \<noteq> []" "t \<le> t'"
  shows "byteLength (digest_view i rs t m) \<le> byteLength (digest_view i rs t' True) + (if m then 0 else 1)"
proof -
  have "length (show_nat t) \<le> length (show_nat t')" using assms(2) by (rule show_nat_mono)
  then show ?thesis using assms(1) final_entries_bytes [of rs]
    by (auto simp: byteLength_def page_doc_def digest_view_def page_of_def Let_def dopt_def body_doc_def doc_obj_bytes next_command_bytes comp_def simp del: doc_bytes.simps(6))
qed

end
