(* ===== verification/ChangeTheorems.thy ===== *)
theory ChangeTheorems
  imports ChangeSizes
begin

text \<open>
  What reading the scoped change feed shows (\<open>server/src/events/changes.ts\<close>): the record of an entity covers
  its rows, the window holds every row up to its end, a page has the lines of all it passed, and it gets
  on or says why not.
\<close>

subsection \<open>What a record says of its rows\<close>

lemma absorb_fields [simp]: "am_id (absorb ctx r a m) = am_id m" "am_firstSeq (absorb ctx r a m) = am_firstSeq m" "am_lastSeq (absorb ctx r a m) = xr_seq r"
  by (simp_all add: absorb_def Let_def split: option.split event_view.split)

lemma absorb_all_fields: "am_id (absorb_all ctx ts m) = am_id m" "am_firstSeq (absorb_all ctx ts m) = am_firstSeq m"
  "am_lastSeq (absorb_all ctx ts m) = (if ts = [] then am_lastSeq m else xr_seq (fst (last ts)))"
  by (induction ts arbitrary: m) (auto simp: absorb_all_def)

lemma with_spine_fields [simp]: "am_id (with_spine m) = am_id m" "am_firstSeq (with_spine m) = am_firstSeq m" "am_lastSeq (with_spine m) = am_lastSeq m"
  by (simp_all add: with_spine_def Let_def)

lemma sorted_ends:
  fixes xs :: "nat list"
  assumes "sorted xs" "x \<in> set xs"
  shows "hd xs \<le> x" "x \<le> last xs"
  using assms by (induction xs) (auto dest: last_in_set)

lemma touches_sorted: "sorted (map xr_seq rows) \<Longrightarrow> sorted (map (xr_seq \<circ> fst) (touches_of ctx scope rows i))"
proof (induction rows)
  case (Cons r rows)
  let ?as = "filter (\<lambda>a. inScope scope a \<and> at_entityId a = i) (attribute ctx r)"
  have here: "map (xr_seq \<circ> fst) (map (Pair r) ?as) = replicate (length ?as) (xr_seq r)" by (simp add: comp_def map_replicate_const)
  have later: "\<forall>n \<in> set (map (xr_seq \<circ> fst) (touches_of ctx scope rows i)). xr_seq r \<le> n" using Cons.prems by (auto simp: touches_of_def)
  have "touches_of ctx scope (r # rows) i = map (Pair r) ?as @ touches_of ctx scope rows i" by (simp add: touches_of_def)
  then have "map (xr_seq \<circ> fst) (touches_of ctx scope (r # rows) i) = replicate (length ?as) (xr_seq r) @ map (xr_seq \<circ> fst) (touches_of ctx scope rows i)"
    using here by (simp only: map_append)
  then show ?case using Cons later by (simp only: sorted_append) (simp add: in_set_replicate comp_def)
qed (simp add: touches_of_def)

text \<open>A row that shows a change of the entity, not only who was there.\<close>

definition shows_change :: "examined_row \<Rightarrow> attribution \<Rightarrow> bool" where
  "shows_change r a \<longleftrightarrow> (case xr_event r of
      Some (EntityView x) \<Rightarrow> at_change a \<noteq> None \<or> xr_type r \<noteq> ''entity.deleted''
    | Some (ActivityView v) \<Rightarrow> av_verb v = ''created'' \<or> av_verb v \<in> set STATUS_VERBS
    | _ \<Rightarrow> at_change a \<noteq> None)"

definition has_change :: "accumulator \<Rightarrow> bool" where
  "has_change m \<longleftrightarrow> am_changes m \<noteq> [] \<or> am_created m \<or> am_statusVerb m \<or> (\<exists>s \<in> set (am_spine m). \<not> sp_deleted s)"

lemma pushUnique_Nil [simp]: "pushUnique xs v = [] \<longleftrightarrow> xs = [] \<and> v = None"
  by (auto simp: pushUnique_def split: option.splits)

lemma absorb_has_change: "has_change m \<or> shows_change r a \<Longrightarrow> has_change (absorb ctx r a m)"
  by (auto simp: absorb_def Let_def has_change_def shows_change_def spine_of_def split: option.splits event_view.splits)

lemma absorb_all_has_change: "has_change m \<or> (\<exists>(r, a) \<in> set ts. shows_change r a) \<Longrightarrow> has_change (absorb_all ctx ts m)"
proof (induction ts arbitrary: m)
  case (Cons t ts)
  obtain r a where t: "t = (r, a)" by (cases t)
  have "has_change (absorb ctx r a m) \<or> (\<exists>(r, a) \<in> set ts. shows_change r a)" using Cons.prems absorb_has_change by (auto simp: t)
  then show ?case using Cons.IH by (simp add: t)
qed simp

lemma scan_rest_keeps: "ss_out s \<noteq> [] \<or> ss_bumps s \<noteq> [] \<and> ss_statusTx s = [] \<Longrightarrow>
    ss_out (scan_rest prev rows s) \<noteq> [] \<or> ss_bumps (scan_rest prev rows s) \<noteq> [] \<and> ss_statusTx (scan_rest prev rows s) = []"
  by (induction prev rows s rule: scan_rest.induct) (auto simp: status_moved_def bumped_at_def)

text \<open>A row of the entity that is not its deletion always gives a class.\<close>

lemma spine_says:
  assumes "s \<in> set (am_spine m)" "\<not> sp_deleted s"
  shows "spineChanges m \<noteq> []"
proof -
  obtain r rows where rows: "filter (\<lambda>r. \<not> sp_deleted r) (am_spine m) = r # rows" using assms by (cases "filter (\<lambda>r. \<not> sp_deleted r) (am_spine m)") (auto simp: filter_empty_conv)
  define s0 where "s0 = \<lparr>ss_out = (if am_created m \<or> sp_creating r then [wide ''created''] else []), ss_statusSeen = False, ss_bumps = [], ss_statusTx = []\<rparr>"
  have "ss_out (scan_first (am_statusVerb m) r rows s0) \<noteq> [] \<or> ss_bumps (scan_first (am_statusVerb m) r rows s0) \<noteq> [] \<and> ss_statusTx (scan_first (am_statusVerb m) r rows s0) = []"
    by (auto simp: scan_first_def s0_def status_moved_def bumped_at_def split: option.splits)
  note says = scan_rest_keeps [OF this, of r rows]
  have "uniq (xs @ ys) = [] \<longleftrightarrow> xs = [] \<and> ys = []" for xs ys :: "wide list" by (metis append_is_Nil_conv set_empty set_uniq)
  then show ?thesis using says
    by (auto simp: spineChanges_def Let_def rows scan_rows_def s0_def [symmetric] list_ex_iff neq_Nil_conv)
qed

lemma changes_shown: "has_change m \<Longrightarrow> am_changes (with_spine m) \<noteq> []"
proof -
  assume h: "has_change m"
  show ?thesis
  proof (cases "\<exists>s \<in> set (am_spine m). \<not> sp_deleted s")
    case True
    then show ?thesis using spine_says by (auto simp: with_spine_def Let_def)
  next
    case False
    then have "filter (\<lambda>r. \<not> sp_deleted r) (am_spine m) = []" by (auto simp: filter_empty_conv)
    then have spine: "spineChanges m = (if am_created m then [wide ''created''] else []) @ (if am_statusVerb m then [wide ''status''] else [])"
      by (simp add: spineChanges_def scan_rows_def wide_def)
    show ?thesis
    proof (cases "am_created m \<or> am_statusVerb m")
      case True
      then show ?thesis by (auto simp: with_spine_def spine)
    next
      case none: False
      then show ?thesis using h False by (simp add: with_spine_def spine has_change_def)
    qed
  qed
qed

text \<open>What the record of an entity keeps of the rows that touched it.\<close>

lemma record_covers:
  assumes "map_of (accumulate rows ctx scope) i = Some m" "sorted (map xr_seq rows)"
  shows "am_id m = i" "am_firstSeq m \<in> xr_seq ` set rows"
    "r \<in> set rows \<Longrightarrow> a \<in> set (attribute ctx r) \<Longrightarrow> inScope scope a \<Longrightarrow> at_entityId a = i \<Longrightarrow> am_firstSeq m \<le> xr_seq r \<and> xr_seq r \<le> am_lastSeq m"
    "r \<in> set rows \<Longrightarrow> a \<in> set (attribute ctx r) \<Longrightarrow> inScope scope a \<Longrightarrow> at_entityId a = i \<Longrightarrow> shows_change r a \<Longrightarrow> am_changes m \<noteq> []"
proof -
  let ?ts = "touches_of ctx scope rows i"
  obtain r0 a0 us where ts: "?ts = (r0, a0) # us" and m: "m = with_spine (absorb_all ctx ?ts (new_accumulator i r0))"
    using assms(1) by (auto simp: accumulated_at record_of_def split: list.splits)
  show "am_id m = i" by (simp add: m absorb_all_fields new_accumulator_def)
  have first: "am_firstSeq m = hd (map (xr_seq \<circ> fst) ?ts)" and last: "am_lastSeq m = last (map (xr_seq \<circ> fst) ?ts)"
    by (simp_all add: m absorb_all_fields new_accumulator_def ts last_map)
  have "(r0, a0) \<in> set ?ts" by (simp add: ts)
  then have "r0 \<in> set rows" by (auto simp: touches_of_def)
  then show "am_firstSeq m \<in> xr_seq ` set rows" by (simp add: first ts)
  show "am_firstSeq m \<le> xr_seq r \<and> xr_seq r \<le> am_lastSeq m" if "r \<in> set rows" "a \<in> set (attribute ctx r)" "inScope scope a" "at_entityId a = i"
  proof -
    have "(r, a) \<in> set ?ts" using that by (auto simp: touches_of_def)
    then have "xr_seq r \<in> set (map (xr_seq \<circ> fst) ?ts)" by force
    then show ?thesis using sorted_ends [OF touches_sorted [OF assms(2)]] by (simp add: first last)
  qed
  show "am_changes m \<noteq> []" if "r \<in> set rows" "a \<in> set (attribute ctx r)" "inScope scope a" "at_entityId a = i" "shows_change r a"
  proof -
    have "(r, a) \<in> set ?ts" using that by (auto simp: touches_of_def)
    then have "has_change (absorb_all ctx ?ts (new_accumulator i r0))" using that(5) by (intro absorb_all_has_change) auto
    then show ?thesis by (simp add: m changes_shown)
  qed
qed

lemma record_there:
  assumes "r \<in> set rows" "a \<in> set (attribute ctx r)" "inScope scope a"
  shows "\<exists>m. map_of (accumulate rows ctx scope) (at_entityId a) = Some m"
proof -
  have "(r, a) \<in> set (touches_of ctx scope rows (at_entityId a))" using assms by (auto simp: touches_of_def)
  then show ?thesis by (auto simp: accumulated_at record_of_def split: list.splits)
qed

subsection \<open>The window and the lines of a read\<close>

definition scope_used :: "feed_db \<Rightarrow> change_request \<Rightarrow> scope_resolution option" where
  "scope_used db req = (if \<not> scoped req then None else (case resolveScope db req of Inl x \<Rightarrow> None | Inr s \<Rightarrow> Some s))"

definition window_of :: "feed_db \<Rightarrow> change_request \<Rightarrow> event_row list" where
  "window_of db req = window_rows db req (scope_used db req)"

definition entries_of :: "feed_db \<Rightarrow> change_request \<Rightarrow> ready_entry list" where
  "entries_of db req = digest_entries db req (scope_used db req) (map (examined_of db) (window_of db req))"

definition feed_context :: "feed_db \<Rightarrow> change_request \<Rightarrow> attribution_context" where
  "feed_context db req = context_of db (map (examined_of db) (window_of db req))"

text \<open>The rows that a request asks about: those in the index under one of its ids.\<close>

definition asked_about :: "feed_db \<Rightarrow> change_request \<Rightarrow> event_row \<Rightarrow> bool" where
  "asked_about db req e \<longleftrightarrow> (case scope_used db req of
      None \<Rightarrow> True | Some s \<Rightarrow> list_ex (\<lambda>i. i \<in> set (rs_queryIds s)) (subjectIdsOf (ev_type e) (ev_payload e)))"

lemma digest_read:
  assumes "read_changes db req = Inr p" "\<not> cq_events req"
  obtains u where "assembleDigest (page_input db req u (window_of db req)) (entries_of db req) = Inr p"
proof (cases "scoped req")
  case False
  then show thesis using assms that
    by (auto simp: read_changes_def read_window_def Let_def window_of_def entries_of_def scope_used_def split: if_splits)
next
  case True
  with assms(1) obtain s where "resolveScope db req = Inr s" "read_window db req (Some s) = Inr p"
    by (auto simp: read_changes_def split: sum.splits)
  then show thesis using assms(2) True that
    by (auto simp: read_window_def Let_def window_of_def entries_of_def scope_used_def split: if_splits)
qed

lemma window_form: "window_of db req = take EVENT_CHANGES_MAX_EXAMINED (filter (asked_about db req)
    (filter (\<lambda>r. ev_seq r \<le> feed_head db req) (rows_after (fd_view db) (fd_rows db) (fd_space db) (feed_from db req))))"
  by (simp add: window_of_def window_rows_def asked_about_def [abs_def])

lemma window_sorted: "sorted (map ev_seq (window_of db req))"
proof -
  have "sorted (map ev_seq (filter Q (filter P (sort_key ev_seq rs))))" for P Q and rs :: "event_row list"
    by (intro sorted_filter) simp
  then show ?thesis unfolding window_form rows_after_def by (simp add: sorted_wrt_take take_map [symmetric])
qed

lemma page_input_fields [simp]: "as_req (page_input db req u rows) = req" "as_since (page_input db req u rows) = cq_after req"
  "as_maxEntities (page_input db req u rows) = EVENT_CHANGES_MAX_ENTITIES" "as_gap (page_input db req u rows) = feed_gap db req" "as_unresolved (page_input db req u rows) = u"
  "as_examineCapHit (page_input db req u rows) = (length rows = EVENT_CHANGES_MAX_EXAMINED)"
  "as_examinedThrough (page_input db req u rows) = (if length rows = EVENT_CHANGES_MAX_EXAMINED then ev_seq (last rows) else feed_head db req)"
  by (simp_all add: page_input_def Let_def)

lemma window_row:
  assumes "e \<in> set (window_of db req)"
  shows "feed_from db req < ev_seq e" "ev_seq e \<le> as_examinedThrough (page_input db req u (window_of db req))"
proof -
  have e: "feed_from db req < ev_seq e" "ev_seq e \<le> feed_head db req" using assms unfolding window_form by (auto simp: rows_after_def dest!: in_set_takeD)
  then show "feed_from db req < ev_seq e" by simp
  have "ev_seq e \<le> ev_seq (last (window_of db req))"
    using sorted_ends(2) [OF window_sorted, of "ev_seq e" db req] assms last_map [of "window_of db req" ev_seq] by fastforce
  then show "ev_seq e \<le> as_examinedThrough (page_input db req u (window_of db req))" using e by simp
qed

lemma window_head: "e \<in> set (window_of db req) \<Longrightarrow> ev_seq e \<le> feed_head db req"
  unfolding window_form by (auto dest!: in_set_takeD)

text \<open>Every row that the caller may read, up to where the window ends, is in it.\<close>

lemma taken_up_to:
  assumes "sorted_wrt (<) (map ev_seq rs)" "e \<in> set rs" "take n rs \<noteq> []" "ev_seq e \<le> ev_seq (last (take n rs))"
  shows "e \<in> set (take n rs)"
proof (rule ccontr)
  assume "e \<notin> set (take n rs)"
  then have "e \<in> set (drop n rs)" using assms(2) by (metis Un_iff append_take_drop_id set_append)
  moreover have "last (take n rs) \<in> set (take n rs)" using assms(3) by simp
  moreover have "sorted_wrt (<) (map ev_seq (take n rs) @ map ev_seq (drop n rs))" using assms(1) by (simp only: map_append [symmetric] append_take_drop_id)
  ultimately have "ev_seq (last (take n rs)) < ev_seq e" by (simp add: sorted_wrt_append)
  with assms(4) show False by simp
qed

lemma window_complete:
  assumes "seqs_ok (fd_rows db)" "e \<in> set (fd_rows db)" "ev_space e = fd_space db" "lv_reads (fd_view db) e" "asked_about db req e"
    "feed_from db req < ev_seq e" "ev_seq e \<le> as_examinedThrough (page_input db req u (window_of db req))" "ev_seq e \<le> feed_head db req"
  shows "e \<in> set (window_of db req)"
proof -
  let ?rs = "filter (asked_about db req) (filter (\<lambda>r. ev_seq r \<le> feed_head db req) (rows_after (fd_view db) (fd_rows db) (fd_space db) (feed_from db req)))"
  have e: "e \<in> set ?rs" using assms by (simp add: rows_after_def)
  show ?thesis
  proof (cases "length (window_of db req) = EVENT_CHANGES_MAX_EXAMINED")
    case True
    then have "ev_seq e \<le> ev_seq (last (window_of db req))" "window_of db req \<noteq> []" using assms(7) by (auto simp: EVENT_CHANGES_MAX_EXAMINED_def)
    moreover have "sorted_wrt (<) (map ev_seq ?rs)" using rows_after_sorted [OF assms(1)] by (simp add: sorted_wrt_map sorted_wrt_filter)
    ultimately show ?thesis using e unfolding window_form by (intro taken_up_to)
  next
    case False
    then have "window_of db req = ?rs" unfolding window_form by (simp add: min_def split: if_splits)
    then show ?thesis using e by simp
  qed
qed

lemma map_filter_in: "y \<in> set (List.map_filter f xs) \<longleftrightarrow> (\<exists>x \<in> set xs. f x = Some y)"
  by (induction xs) (auto simp: List.map_filter_simps split: option.splits)

lemma alist_update_members: "set (AList.update k v al) \<subseteq> insert (k, v) (set al)"
  by (induction al) auto

lemma gone_seqs: "x \<in> set (hardDeletedNamed rows res req) \<Longrightarrow> rd_firstSeq x \<in> xr_seq ` set rows"
proof -
  have "(\<forall>(i, x) \<in> set out. rd_firstSeq x \<in> S) \<Longrightarrow> xr_seq ` set rows \<subseteq> S \<Longrightarrow> \<forall>(i, x) \<in> set (fold (note_deleted res req) rows out). rd_firstSeq x \<in> S" for S out
  proof (induction rows arbitrary: out)
    case (Cons r rows)
    have "\<forall>(i, x) \<in> set (note_deleted res req r out). rd_firstSeq x \<in> S"
    proof (cases "deleted_row res r")
      case (Some i)
      have "rd_firstSeq prior \<in> S" if "map_of out i = Some prior" for prior using Cons.prems(1) map_of_SomeD [OF that] by auto
      then show ?thesis using Cons.prems alist_update_members [of i _ out] by (fastforce simp: note_deleted_def Some deleted_entry_def split: option.splits)
    qed (use Cons.prems in \<open>simp add: note_deleted_def\<close>)
    then show ?case using Cons.IH Cons.prems(2) by simp
  qed simp
  from this [of "[]" "xr_seq ` set rows"] show "x \<in> set (hardDeletedNamed rows res req) \<Longrightarrow> rd_firstSeq x \<in> xr_seq ` set rows"
    by (auto simp: hardDeletedNamed_def)
qed

lemma entries_sorted: "sorted (map rd_firstSeq (entries_of db req))"
  by (simp add: entries_of_def digest_entries_def Let_def sorted_entries_def)

lemma examined_seqs: "map xr_seq (map (examined_of db) rows) = map ev_seq rows"
  by (simp add: examined_of_def comp_def)

lemma ready_fields:
  assumes "ready_entry_of db req ids m = Some e" "\<forall>i x. fd_summary db i = Some x \<longrightarrow> es_id x = i"
  shows "rd_firstSeq e = am_firstSeq m" "en_id (rd_entry e) = am_id m" "en_lastSeq (rd_entry e) = am_lastSeq m"
  using assms by (auto simp: ready_entry_of_def with_messages_def Let_def split: if_splits option.splits)

text \<open>Every line was first touched inside the window.\<close>

lemma entry_seqs:
  assumes "r \<in> set (entries_of db req)"
  shows "feed_from db req < rd_firstSeq r \<and> rd_firstSeq r \<le> as_examinedThrough (page_input db req u (window_of db req))"
proof -
  let ?rows = "map (examined_of db) (window_of db req)"
  have "rd_firstSeq r \<in> xr_seq ` set ?rows"
  proof -
    consider (line) i m where "map_of (accumulate ?rows (context_of db ?rows) (map_option rs_scope (scope_used db req))) i = Some m" "rd_firstSeq r = am_firstSeq m"
      | (gone) s where "r \<in> set (hardDeletedNamed ?rows s req)"
    proof -
      let ?acc = "accumulate ?rows (context_of db ?rows) (map_option rs_scope (scope_used db req))"
      have "distinct (map fst ?acc)"
      proof -
        have "distinct (map fst acc) \<Longrightarrow> distinct (map fst (fold (absorb_in ctx scope row) as acc))" for ctx scope row as acc
          by (induction as arbitrary: acc) (auto simp: absorb_in_def distinct_update)
        then have "distinct (map fst acc) \<Longrightarrow> distinct (map fst (fold (absorb_row ctx scope) rows acc))" for ctx scope rows acc
          by (induction rows arbitrary: acc) (auto simp: absorb_row_def)
        then show ?thesis by (simp add: accumulate_def comp_def)
      qed
      moreover have "r \<in> set (ready_entries db req (cx_callerIds (context_of db ?rows)) ?acc) \<or> (\<exists>s. r \<in> set (hardDeletedNamed ?rows s req))"
        using assms by (auto simp: entries_of_def digest_entries_def Let_def sorted_entries_def split: option.splits)
      ultimately show thesis using that
        by (auto simp: ready_entries_def map_filter_in ready_entry_of_def split: if_splits option.splits) (auto simp: Let_def split: if_splits)
    qed
    then show ?thesis
    proof cases
      case line
      then show ?thesis using record_covers(2) [OF line(1)] window_sorted [of db req] by (simp only: examined_seqs)
    next
      case gone
      then show ?thesis by (rule gone_seqs)
    qed
  qed
  then obtain e where "e \<in> set (window_of db req)" "rd_firstSeq r = ev_seq e" by (auto simp: examined_of_def)
  then show ?thesis using window_row(1) [of e db req] window_row(2) [of e db req u] by simp
qed

lemma from_after: "cq_after req \<le> feed_from db req"
  by (auto simp: feed_from_def feed_gap_def split: option.splits)

subsection \<open>No change is skipped\<close>

lemma line_there:
  assumes "e \<in> set (window_of db req)" "a \<in> set (attribute (feed_context db req) (examined_of db e))"
    "inScope (map_option rs_scope (scope_used db req)) a" "shows_change (examined_of db e) a"
    "\<forall>i x. fd_summary db i = Some x \<longrightarrow> es_id x = i" "cq_change req = []"
    "fd_summary db (at_entityId a) = Some x" "es_kind x \<noteq> ''message''" "kind_wanted req (es_kind x)"
  shows "\<exists>r \<in> set (entries_of db req). rd_firstSeq r \<le> ev_seq e \<and> en_id (rd_entry r) = at_entityId a \<and> ev_seq e \<le> en_lastSeq (rd_entry r)"
proof -
  let ?rows = "map (examined_of db) (window_of db req)"
  let ?scope = "map_option rs_scope (scope_used db req)"
  have e: "examined_of db e \<in> set ?rows" and seq: "xr_seq (examined_of db e) = ev_seq e" using assms(1) by (simp_all add: examined_of_def)
  obtain m where m: "map_of (accumulate ?rows (feed_context db req) ?scope) (at_entityId a) = Some m" using record_there [OF e assms(2,3)] by blast
  have sorted: "sorted (map xr_seq ?rows)" using window_sorted by (simp only: examined_seqs)
  note rec = record_covers [OF m sorted]
  have seqs: "am_firstSeq m \<le> ev_seq e" "ev_seq e \<le> am_lastSeq m" using rec(3) [OF e assms(2,3)] by (simp_all add: seq)
  have "am_changes m \<noteq> []" using rec(4) [OF e assms(2,3) refl assms(4)] .
  then obtain r where r: "ready_entry_of db req (cx_callerIds (feed_context db req)) m = Some r"
    using assms(6-9) rec(1) by (simp add: ready_entry_of_def change_wanted_def Let_def)
  then have "r \<in> set (ready_entries db req (cx_callerIds (feed_context db req)) (accumulate ?rows (feed_context db req) ?scope))"
    using map_of_SomeD [OF m] by (force simp: ready_entries_def map_filter_in)
  then have "r \<in> set (entries_of db req)" by (simp add: entries_of_def digest_entries_def Let_def sorted_entries_def feed_context_def)
  then show ?thesis using ready_fields [OF r assms(5)] seqs rec(1) by (intro bexI [of _ r]) simp_all
qed

lemma window_end: "as_examinedThrough (page_input db req u (window_of db req)) \<le> feed_head db req"
  using window_head [of "last (window_of db req)" db req] by (cases "window_of db req = []") (simp_all add: EVENT_CHANGES_MAX_EXAMINED_def)

text \<open>
  Of every event that the caller may read, that the request asks about and that lies up to where the page
  says it got, each change of an entity that is there for the caller has its line on the page, under the
  entity's id and no older than the event.
\<close>

definition reported_on :: "string \<Rightarrow> nat \<Rightarrow> changes_page \<Rightarrow> bool" where
  "reported_on i s p \<longleftrightarrow> (\<exists>ns. cp_body p = Changed ns \<and> (\<exists>n \<in> set ns. en_id n = i \<and> s \<le> en_lastSeq n))"

lemma page_covers:
  assumes read: "read_changes db req = Inr p" "\<not> cq_events req" "cq_change req = []"
    and db: "seqs_ok (fd_rows db)" "\<forall>i x. fd_summary db i = Some x \<longrightarrow> es_id x = i"
    and event: "e \<in> set (fd_rows db)" "ev_space e = fd_space db" "lv_reads (fd_view db) e" "asked_about db req e"
      "feed_from db req < ev_seq e" "ev_seq e \<le> cp_through p"
    and change: "a \<in> set (attribute (feed_context db req) (examined_of db e))" "inScope (map_option rs_scope (scope_used db req)) a" "shows_change (examined_of db e) a"
    and entity: "fd_summary db (at_entityId a) = Some x" "es_kind x \<noteq> ''message''" "kind_wanted req (es_kind x)"
  shows "reported_on (at_entityId a) (ev_seq e) p"
proof -
  obtain u where d: "assembleDigest (page_input db req u (window_of db req)) (entries_of db req) = Inr p" by (rule digest_read [OF read(1,2)])
  let ?i = "page_input db req u (window_of db req)"
  have seqs: "\<forall>r \<in> set (entries_of db req). 0 < rd_firstSeq r \<and> rd_firstSeq r \<le> as_examinedThrough ?i" using entry_seqs [of _ db req u] by fastforce
  obtain ns where ns: "cp_body p = Changed ns" "map line_of ns = map (line_of \<circ> rd_entry) (filter (\<lambda>r. rd_firstSeq r \<le> cp_through p) (entries_of db req))"
    and through: "cp_through p \<le> as_examinedThrough ?i" using digest_exact [OF d entries_sorted seqs] by blast
  have "as_examinedThrough ?i \<le> feed_head db req" by (rule window_end)
  then have "e \<in> set (window_of db req)" using window_complete [OF db(1) event(1-5)] event(6) through by fastforce
  from line_there [OF this change db(2) read(3) entity] obtain r where r: "r \<in> set (entries_of db req)" "rd_firstSeq r \<le> ev_seq e"
    "en_id (rd_entry r) = at_entityId a" "ev_seq e \<le> en_lastSeq (rd_entry r)" by blast
  then have "line_of (rd_entry r) \<in> set (map (line_of \<circ> rd_entry) (filter (\<lambda>r. rd_firstSeq r \<le> cp_through p) (entries_of db req)))" using event(6) by auto
  then have "line_of (rd_entry r) \<in> set (map line_of ns)" by (simp only: ns(2))
  then show ?thesis using ns(1) r(3,4) by (auto simp: line_of_def reported_on_def)
qed

subsection \<open>A page gets on\<close>

text \<open>
  A page that is not the last ends past the window's start, unless the first event after it changed more
  than 50 entities, and then it ends just before that event. The last page ends at the head of the log.
\<close>

lemma page_advances:
  assumes "read_changes db req = Inr p" "\<not> cq_events req" "cp_more p"
  shows "feed_from db req < cp_through p
    \<or> (\<exists>s. 50 < length (filter (\<lambda>r. rd_firstSeq r = s) (entries_of db req)) \<and> (\<forall>r \<in> set (entries_of db req). s \<le> rd_firstSeq r) \<and> cp_through p = s - 1)"
proof -
  obtain u where d: "assembleDigest (page_input db req u (window_of db req)) (entries_of db req) = Inr p" by (rule digest_read [OF assms(1,2)])
  let ?i = "page_input db req u (window_of db req)"
  have "feed_from db req < as_examinedThrough ?i" if "as_examineCapHit ?i"
  proof -
    have "window_of db req \<noteq> []" using that by (auto simp: EVENT_CHANGES_MAX_EXAMINED_def)
    then show ?thesis using window_row(1) [of "last (window_of db req)" db req] that by simp
  qed
  then show ?thesis using digest_advances [OF d entries_sorted, of "feed_from db req"] entry_seqs [of _ db req u] assms(3)
    by (fastforce simp: EVENT_CHANGES_MAX_ENTITIES_def)
qed

lemma page_ends:
  assumes "read_changes db req = Inr p" "\<not> cq_events req"
  shows "cp_through p \<le> feed_head db req" "\<not> cp_more p \<Longrightarrow> cp_through p = feed_head db req"
proof -
  obtain u where d: "assembleDigest (page_input db req u (window_of db req)) (entries_of db req) = Inr p" by (rule digest_read [OF assms])
  obtain emitted stopAt where "p = digest_view (page_input db req u (window_of db req)) emitted
      (case stopAt of None \<Rightarrow> as_examinedThrough (page_input db req u (window_of db req)) | Some s \<Rightarrow> min (s - 1) (as_examinedThrough (page_input db req u (window_of db req))))
      (as_examineCapHit (page_input db req u (window_of db req)) \<or> stopAt \<noteq> None)" by (rule digest_page [OF d])
  then show "cp_through p \<le> feed_head db req" "\<not> cp_more p \<Longrightarrow> cp_through p = feed_head db req"
    using window_end [of db req u] by (auto split: option.splits simp del: page_input_fields) simp
qed

text \<open>
  Such an event stops the feed: its page has no line and says to go on from where it was asked, and so
  does every page after it. One is a change of a pull request that more than 49 tasks track.
\<close>

lemma crowded_event_stalls:
  assumes "change_groups entries = g # gs" "as_maxEntities i < length g" "group_seq g \<le> as_examinedThrough i" "as_since i = group_seq g - 1"
  shows "\<exists>p. assembleDigest i entries = Inr p \<and> cp_body p = Changed [] \<and> cp_more p \<and> cp_through p = as_since i"
proof -
  have "group_seq g - 1 \<le> as_examinedThrough i" using assms(3) by simp
  then show ?thesis using assms(1,2,4) by (simp add: assembleDigest_def group_seq_def Let_def min_absorb1)
qed

lemma tracked_by_all: "str_opt (oget (xr_payload row) ''prEntityId'') = Some f \<Longrightarrow> xr_type row = ''git.pr_state_changed'' \<Longrightarrow> xr_event row = Some OtherView
    \<Longrightarrow> map at_entityId (attribute ctx row) = f # tracking ctx f"
  by (simp add: attribute_def attribute_git_def comp_def)

subsection \<open>A complete page\<close>

text \<open>The byte that a page may be over its budget is used: a complete page without messages that was measured at its budget is over it.\<close>

lemma complete_page_is_longer:
  assumes "rs \<noteq> []" "\<forall>r \<in> set rs. rd_count r = None"
  shows "byteLength (digest_view i rs t False) = byteLength (digest_view i rs t True) + 1"
proof -
  have "map (doc_bytes \<circ> (entry_doc \<circ> (\<lambda>r. finalEntry r False))) rs = map (doc_bytes \<circ> (entry_doc \<circ> (\<lambda>r. finalEntry r True))) rs"
    using assms(2) by (simp add: finalEntry_def)
  then show ?thesis using assms(1)
    by (simp add: byteLength_def page_doc_def digest_view_def page_of_def Let_def dopt_def body_doc_def doc_obj_bytes del: doc_bytes.simps(6) map_eq_conv)
qed

end
