(* ===== verification/ChangeFollow.thy ===== *)
theory ChangeFollow
  imports ChangeTheorems
begin

text \<open>
  Reading the change feed to its end (\<open>server/src/events/changes.ts\<close>): every page names the command that
  continues it, which asks the same from where the page got; a reader that follows it while there is
  more is told of everything.
\<close>

definition from_cursor :: "change_request \<Rightarrow> nat \<Rightarrow> change_request" where
  "from_cursor req k = req\<lparr>cq_after := k\<rparr>"

text \<open>A reader with a number of requests to spend.\<close>

fun follow :: "nat \<Rightarrow> feed_db \<Rightarrow> change_request \<Rightarrow> (feed_error + changes_page list) option" where
  "follow 0 db req = None"
| "follow (Suc n) db req = (case read_changes db req of
      Inl x \<Rightarrow> Some (Inl x)
    | Inr p \<Rightarrow>
        if \<not> cp_more p then Some (Inr [p])
        else (case follow n db (from_cursor req (cp_through p)) of
            Some (Inr ps) \<Rightarrow> Some (Inr (p # ps))
          | r \<Rightarrow> r))"

text \<open>No event first changes more lines than a page may hold, wherever the reading starts.\<close>

definition never_crowded :: "feed_db \<Rightarrow> change_request \<Rightarrow> bool" where
  "never_crowded db req \<longleftrightarrow> (\<forall>k s. length (filter (\<lambda>r. rd_firstSeq r = s) (entries_of db (from_cursor req k))) \<le> 50)"

text \<open>A row that shows a change, in every window that has it, of an entity that is there for the caller.\<close>

definition changes_entity :: "feed_db \<Rightarrow> change_request \<Rightarrow> event_row \<Rightarrow> string \<Rightarrow> bool" where
  "changes_entity db req e i \<longleftrightarrow>
     e \<in> set (fd_rows db) \<and> ev_space e = fd_space db \<and> lv_reads (fd_view db) e \<and> asked_about db req e
     \<and> (\<forall>k. \<exists>a \<in> set (attribute (feed_context db (from_cursor req k)) (examined_of db e)).
          at_entityId a = i \<and> inScope (map_option rs_scope (scope_used db req)) a \<and> shows_change (examined_of db e) a)
     \<and> (case fd_summary db i of None \<Rightarrow> False | Some x \<Rightarrow> es_kind x \<noteq> ''message'' \<and> kind_wanted req (es_kind x))"

lemma from_cursor_simps [simp]: "cq_after (from_cursor req k) = k" "cq_entity (from_cursor req k) = cq_entity req" "cq_anchor (from_cursor req k) = cq_anchor req"
  "cq_subtree (from_cursor req k) = cq_subtree req" "cq_kind (from_cursor req k) = cq_kind req" "cq_change (from_cursor req k) = cq_change req"
  "cq_events (from_cursor req k) = cq_events req" "cq_totalBytes (from_cursor req k) = cq_totalBytes req" "from_cursor (from_cursor req k) l = from_cursor req l"
  "from_cursor req (cq_after req) = req"
  by (simp_all add: from_cursor_def)

lemma scope_from [simp]: "scope_used db (from_cursor req k) = scope_used db req"
  by (simp add: scope_used_def scoped_def resolveScope_def)

lemma asked_from [simp]: "asked_about db (from_cursor req k) e = asked_about db req e"
  by (simp add: asked_about_def)

lemma crowded_from [simp]: "never_crowded db (from_cursor req k) = never_crowded db req"
  by (simp add: never_crowded_def)

lemma kind_from [simp]: "kind_wanted (from_cursor req k) = kind_wanted req"
  by (rule ext) (simp add: kind_wanted_def)

lemma changes_from [simp]: "changes_entity db (from_cursor req k) e i = changes_entity db req e i"
  by (simp add: changes_entity_def cong: option.case_cong)

lemma later_window:
  assumes "feed_from db req \<le> k" "k \<le> feed_head db req"
  shows "feed_from db (from_cursor req k) = k" "feed_head db (from_cursor req k) = feed_head db req"
  using assms by (auto simp: feed_from_def feed_gap_def feed_head_def split: option.splits if_splits)

lemma page_reports:
  assumes "read_changes db req = Inr p" "\<not> cq_events req" "cq_change req = []" "seqs_ok (fd_rows db)" "\<forall>i x. fd_summary db i = Some x \<longrightarrow> es_id x = i"
    "changes_entity db req e i" "feed_from db req < ev_seq e" "ev_seq e \<le> cp_through p"
  shows "reported_on i (ev_seq e) p"
proof -
  from assms(6) obtain x where e: "e \<in> set (fd_rows db)" "ev_space e = fd_space db" "lv_reads (fd_view db) e" "asked_about db req e"
    and x: "fd_summary db i = Some x" "es_kind x \<noteq> ''message''" "kind_wanted req (es_kind x)"
    and all: "\<forall>k. \<exists>a \<in> set (attribute (feed_context db (from_cursor req k)) (examined_of db e)).
          at_entityId a = i \<and> inScope (map_option rs_scope (scope_used db req)) a \<and> shows_change (examined_of db e) a"
    by (auto simp: changes_entity_def split: option.splits)
  from spec [OF all, of "cq_after req"] obtain a where a: "a \<in> set (attribute (feed_context db req) (examined_of db e))" "at_entityId a = i"
      "inScope (map_option rs_scope (scope_used db req)) a" "shows_change (examined_of db e) a" by auto
  show ?thesis using page_covers [OF assms(1-5) e assms(7,8) a(1,3,4)] x a(2) by simp
qed


text \<open>A log of one event, a task that was made.\<close>

definition sample_event :: event_row where
  "sample_event = \<lparr>ev_space = ''s'', ev_seq = 1, ev_type = ''entity.upsert'', ev_payload = [(''id'', JStr ''t''), (''version'', JNum (JFin 1))]\<rparr>"

definition sample_task :: entity_summary where
  "sample_task = \<lparr>es_id = ''t'', es_kind = ''task'', es_title = wide ''T'', es_parent = None, es_version = 1, es_status = Some ''open'', es_endedKind = None, es_endedReason = None\<rparr>"

definition sample_change_feed :: feed_db where
  "sample_change_feed = \<lparr>fd_space = ''s'', fd_oldest = Some 1, fd_newest = Some 1, fd_watermark = JUndef, fd_rows = [sample_event], fd_view = \<lparr>lv_reads = \<lambda>r. True, lv_maps = \<lambda>r. True\<rparr>,
     fd_at = \<lambda>r. ''now'', fd_project = \<lambda>r. Some (EntityView sample_task), fd_member = None, fd_actor = None, fd_visible = \<lambda>i. True, fd_tree = \<lambda>is. is,
     fd_tracked = \<lambda>is. [], fd_trackEdges = [], fd_kind = \<lambda>i. Some ''task'', fd_summary = \<lambda>i. if i = ''t'' then Some sample_task else None, fd_endedAt = \<lambda>i. None,
     fd_micros = \<lambda>i. None, fd_expand = \<lambda>i c m. [], fd_excerpt = \<lambda>b n. b, fd_time = \<lambda>t. Some 0, fd_collate = \<lambda>i. 0\<rparr>"

definition sample_changes :: change_request where
  "sample_changes = \<lparr>cq_after = 0, cq_entity = [], cq_anchor = [], cq_subtree = [], cq_kind = [], cq_change = [], cq_events = False, cq_totalBytes = 16384\<rparr>"

lemma sample_scope: "scope_used sample_change_feed sample_changes = None"
  by (simp add: scope_used_def scoped_def sample_changes_def)

lemma sample_later: "window_of sample_change_feed (from_cursor sample_changes (Suc k)) = []"
  by (simp add: window_form rows_after_def feed_from_def feed_gap_def sample_change_feed_def sample_event_def)

lemma sample_attributed: "attribute (feed_context sample_change_feed q) (examined_of sample_change_feed sample_event)
    = [\<lparr>at_entityId = ''t'', at_via = SelfVia, at_change = None, at_actor = None\<rparr>]"
  by (simp add: attribute_def attribute_entity_def examined_of_def sample_change_feed_def sample_event_def sample_task_def oget_def)

lemma sample_change: "changes_entity sample_change_feed sample_changes sample_event ''t''"
proof -
  have "shows_change (examined_of sample_change_feed sample_event) a" for a
    by (simp add: shows_change_def examined_of_def sample_change_feed_def sample_event_def)
  moreover have "kind_wanted sample_changes k" for k by (simp add: kind_wanted_def sample_changes_def)
  moreover have "sample_event \<in> set (fd_rows sample_change_feed)" "ev_space sample_event = fd_space sample_change_feed" "lv_reads (fd_view sample_change_feed) sample_event"
    "fd_summary sample_change_feed ''t'' = Some sample_task" "es_kind sample_task \<noteq> ''message''"
    by (simp_all add: sample_change_feed_def sample_event_def sample_task_def)
  ultimately show ?thesis by (simp add: changes_entity_def sample_scope asked_about_def inScope_def sample_attributed)
qed

text \<open>The one page of its digest.\<close>

definition sample_line :: ready_entry where
  "sample_line = \<lparr>rd_firstSeq = 1, rd_entry = \<lparr>en_id = ''t'', en_kind = ''task'', en_title = Some (wide ''T''), en_parent = Some None, en_v = Some 1, en_status = None,
     en_lastSeq = 1, en_changes = [wide ''updated''], en_actors = [], en_messages = None, en_total = None, en_messagesMore = False, en_messagesNext = None\<rparr>, rd_count = None\<rparr>"

lemma sample_entries: "entries_of sample_change_feed sample_changes = [sample_line]"
  by code_simp

lemma sample_crowd: "length (entries_of sample_change_feed (from_cursor sample_changes k)) \<le> 50"
proof (cases k)
  case 0
  have "from_cursor sample_changes 0 = sample_changes" by (simp add: from_cursor_def sample_changes_def)
  with 0 show ?thesis by (simp add: sample_entries)
next
  case (Suc l)
  show ?thesis
    by (simp add: Suc entries_of_def sample_later sample_scope digest_entries_def Let_def sorted_entries_def ready_entries_def accumulate_def List.map_filter_simps)
qed

lemma sample_uncrowded: "never_crowded sample_change_feed sample_changes"
  unfolding never_crowded_def by (meson length_filter_le order_trans sample_crowd)

lemma plain_text_bytes: "list_all (\<lambda>c. plain_unit (of_char c)) s \<Longrightarrow> json_string_bytes (wide s) = 2 + length s"
  by (rule plain_string_bytes) (simp add: wide_def list_all_iff)

lemma sample_window: "window_of sample_change_feed sample_changes = [sample_event]"
  by (simp add: window_form rows_after_def asked_about_def sample_scope) (simp add: feed_from_def feed_gap_def feed_head_def sample_change_feed_def sample_event_def sample_changes_def EVENT_CHANGES_MAX_EXAMINED_def)

lemma sample_next: "nextCommand sample_changes n = wide ''tm8 event changes --after '' @ wide (show_nat n)"
  by (simp add: nextCommand_def next_parts_def sample_changes_def EVENT_CHANGES_DEFAULT_TOTAL_BYTES_def) (simp add: wide_def)

lemma one_digit: "length (show_nat 0) = 1" "length (show_nat (Suc 0)) = 1"
  by (simp_all add: show_nat.simps)

lemma sample_fits: "page_fits (page_input sample_change_feed sample_changes [] [sample_event]) [sample_line]"
  by (simp add: page_fits_def byteLength_def page_doc_def digest_view_def page_of_def Let_def dopt_def body_doc_def doc_obj_bytes dnullable_def dstr_def finalEntry_def
      sample_line_def entry_doc_def entry_members_def plain_text_bytes plain_unit_def commas_def sample_next feed_gap_def feed_head_def sample_change_feed_def
      EVENT_CHANGES_MAX_EXAMINED_def one_digit number_at_end del: doc_bytes.simps(6))
    (simp add: sample_changes_def scopeOf_def one_digit)

lemma sample_page: "read_changes sample_change_feed sample_changes = Inr (digest_view (page_input sample_change_feed sample_changes [] [sample_event]) [sample_line] 1 False)"
proof -
  have "read_changes sample_change_feed sample_changes = assembleDigest (page_input sample_change_feed sample_changes [] [sample_event]) [sample_line]"
    using sample_entries sample_window sample_scope by (simp add: read_changes_def read_window_def Let_def entries_of_def window_of_def scoped_def still_unresolved_def)
      (simp add: sample_changes_def)
  moreover have "feed_head sample_change_feed sample_changes = 1" by (simp add: feed_head_def sample_change_feed_def sample_changes_def)
  ultimately show ?thesis using sample_fits by (simp add: assembleDigest_def EVENT_CHANGES_MAX_ENTITIES_def EVENT_CHANGES_MAX_EXAMINED_def)
qed

lemma sample_followed: "\<exists>p. follow 2 sample_change_feed sample_changes = Some (Inr [p])"
  by (simp add: sample_page numeral_2_eq_2)


subsection \<open>A page keeps its budget\<close>

text \<open>
  C23: A page of the digest that has lines has at most 50, and is no larger than the budget of its request;
  the last page may be one byte larger.
\<close>
theorem page_keeps_budget:
  assumes "read_changes db req = Inr p" "cp_body p = Changed (n # ns)"
  shows "byteLength p \<le> cq_totalBytes req + (if cp_more p then 0 else 1) \<and> length (n # ns) \<le> 50"
proof -
  have ev: "\<not> cq_events req"
  proof
    assume "cq_events req"
    then show False using assms
      by (auto simp: read_changes_def read_window_def Let_def assembleThin_def thin_view_def page_of_def split: if_splits sum.splits)
  qed
  obtain u where d: "assembleDigest (page_input db req u (window_of db req)) (entries_of db req) = Inr p" by (rule digest_read [OF assms(1) ev])
  let ?i = "page_input db req u (window_of db req)"
  obtain emitted stopAt where e: "emits_prefix ?i (change_groups (entries_of db req)) emitted stopAt"
    and p: "p = digest_view ?i emitted (case stopAt of None \<Rightarrow> as_examinedThrough ?i | Some s \<Rightarrow> min (s - 1) (as_examinedThrough ?i)) (as_examineCapHit ?i \<or> stopAt \<noteq> None)"
    by (rule digest_page [OF d])
  have ne: "emitted \<noteq> []" and len: "length (n # ns) = length emitted" using assms(2) by (auto simp: p)
  have "(case stopAt of None \<Rightarrow> as_examinedThrough ?i | Some s \<Rightarrow> min (s - 1) (as_examinedThrough ?i)) \<le> as_examinedThrough ?i" by (simp split: option.splits)
  from measured_is_worst [OF ne this, of ?i] have "byteLength p \<le> byteLength (digest_view ?i emitted (as_examinedThrough ?i) True) + (if cp_more p then 0 else 1)"
    by (simp add: p)
  moreover have "byteLength (digest_view ?i emitted (as_examinedThrough ?i) True) \<le> cq_totalBytes req" "length emitted \<le> 50"
    using e ne by (simp_all add: emits_prefix_def page_fits_def EVENT_CHANGES_MAX_ENTITIES_def)
  ultimately show ?thesis using len by linarith
qed

theorem page_keeps_budget_witness:
  "byteLength (digest_view (page_input sample_change_feed sample_changes [] [sample_event]) [sample_line] 1 False) \<le> 16385"
  using page_keeps_budget [OF sample_page, of "finalEntry sample_line False" "[]"] by (simp add: sample_changes_def)

end
