(* ===== verification/Bridge.thy ===== *)
theory Bridge
  imports Simulation
begin

text \<open>
  The workspace remote bridge (\<open>packages/server/src/workspace/bridge.ts\<close>): which windows are live, the
  commands forwarded to them, the answers, and the record of request ids. A promise is a numbered
  outcome that waits or is settled; a caller's wait on it is a call, answered by the outcome or by its
  timer, whichever is first. The clock is read once in a step. The hash of a payload, the schema of a
  window's answer, the reading of a date and what each send does are parameters; the payload that is
  hashed is given in its normal form. Times of a view are milliseconds.
\<close>

subsection \<open>State\<close>

record window_frame =
  wf_spaceId :: string
  wf_instanceId :: string
  wf_windowId :: string
  wf_focused :: bool
  wf_visible :: bool
  wf_view :: string
  wf_mounted :: bool
  wf_revision :: nat
  wf_lastFocusedAt :: "string option"
  wf_caps :: "string list option"
  wf_workspaceId :: "string option option"

record instance_record =
  ir_instanceId :: string
  ir_identityId :: string
  ir_spaceId :: string
  ir_viewerMemberId :: string
  ir_windowId :: string
  ir_conn :: string
  ir_focused :: bool
  ir_visible :: bool
  ir_view :: string
  ir_mounted :: bool
  ir_revision :: nat
  ir_caps :: "string list"
  ir_workspaceId :: "string option"
  ir_connectedAt :: int
  ir_lastSeen :: int
  ir_lastFocusedAt :: "int option"

record instance_view =
  iv_instanceId :: string
  iv_windowId :: string
  iv_spaceId :: string
  iv_viewerMemberId :: string
  iv_focused :: bool
  iv_visible :: bool
  iv_view :: string
  iv_mounted :: bool
  iv_revision :: nat
  iv_workspaceId :: "string option"
  iv_caps :: "string list"
  iv_connectedAt :: int
  iv_lastSeen :: int
  iv_lastFocusedAt :: "int option"

text \<open>An error of the store behind a call carries what it says of delivery, if anything.\<close>

datatype bridge_error =
    NoLiveTarget bool
  | AmbiguousTarget "instance_view list"
  | RequestIdReused
  | NoReply
  | StoreError string "bool option"

datatype bridge_outcome = Waits | Resolved jsobj | Rejected bridge_error

record pending_forward =
  pf_connId :: string
  pf_outcome :: nat
  pf_workspace :: "jsobj option"

record retry_record =
  rt_hash :: string
  rt_at :: int
  rt_outcome :: nat

record bridge_call =
  bc_outcome :: "nat option"
  bc_timeoutMs :: int
  bc_answer :: "(bridge_error + jsobj) option"

datatype actor_class = ActorHuman | ActorAgent

record run_input =
  bi_identityId :: string
  bi_spaceId :: string
  bi_requestId :: "string option"
  bi_instanceId :: "string option"
  bi_command :: string
  bi_args :: jsval
  bi_expectedRevision :: "nat option"
  bi_timeoutMs :: "int option"
  bi_actorClass :: actor_class
  bi_actorName :: "string option"
  bi_workspace :: "jsobj option"

record push_options =
  po_only :: "string option"
  po_capableOnly :: bool
  po_shows :: "string option"

record bridge_opts =
  bo_staleAfterMs :: int
  bo_retryTtlMs :: int
  bo_retryCap :: nat
  bo_instanceCap :: nat

definition DEFAULT_INSTANCE_STALE_MS :: int where "DEFAULT_INSTANCE_STALE_MS = 90000"
definition DEFAULT_RETRY_TTL_MS :: int where "DEFAULT_RETRY_TTL_MS = 10 * 60000"

definition default_bridge_opts :: bridge_opts where
  "default_bridge_opts = \<lparr>bo_staleAfterMs = DEFAULT_INSTANCE_STALE_MS, bo_retryTtlMs = DEFAULT_RETRY_TTL_MS, bo_retryCap = 500, bo_instanceCap = 64\<rparr>"

text \<open>A send is taken, throws, or is taken and closes the connection.\<close>

datatype send_result = Taken | Throws | Drops

record bridge_env =
  be_hash :: "jsval \<Rightarrow> string"
  be_parse :: "jsval \<Rightarrow> jsobj option"
  be_dateParse :: "string \<Rightarrow> int option"
  be_sends :: "nat \<Rightarrow> send_result"

text \<open>
  The trace: a window registered for an identity and space on a connection, a command forwarded to a
  connection for an identity and space under the key of its answer, with its frame, a frame pushed, an answer accepted
  from a connection, and a request id taken up and let go.
\<close>

datatype bridge_mark =
    Registered string string string string
  | Forwarded string string string string jsobj
  | Pushed string string string
  | Answered string string
  | TakenUp string string
  | LetGo string string

record bridge =
  br_instances :: "(string \<times> instance_record) list"
  br_pending :: "(string \<times> pending_forward) list"
  br_retries :: "(string \<times> (string \<times> retry_record) list) list"
  br_outcomes :: "bridge_outcome list"
  br_forwards :: "nat list"
  br_calls :: "bridge_call list"
  br_open :: "string list"
  br_sent :: nat
  br_trace :: "bridge_mark list"

definition new_bridge :: bridge where
  "new_bridge = \<lparr>br_instances = [], br_pending = [], br_retries = [], br_outcomes = [], br_forwards = [], br_calls = [], br_open = [], br_sent = 0, br_trace = []\<rparr>"

definition marked :: "bridge_mark \<Rightarrow> bridge \<Rightarrow> bridge" where
  "marked m b = b\<lparr>br_trace := br_trace b @ [m]\<rparr>"

definition isCapable :: "string list \<Rightarrow> bool" where
  "isCapable caps \<longleftrightarrow> ''multiWorkspace'' \<in> set caps"

definition clampTimeout :: "int option \<Rightarrow> int" where
  "clampTimeout ms = (case ms of None \<Rightarrow> 10000 | Some t \<Rightarrow> min 30000 (max 500 t))"

text \<open>The value whose text is hashed: keys in order, no undefined property, undefined itself as null.\<close>

fun stable :: "jsval \<Rightarrow> jsval" where
  "stable (JArr xs) = JArr (map stable xs)"
| "stable (JObj ob) = JObj (sort_key fst (map (\<lambda>(k, v). (k, stable v)) (filter (\<lambda>(k, v). v \<noteq> JUndef) ob)))"
| "stable (JNum x) = (case x of JFin r \<Rightarrow> JNum x | _ \<Rightarrow> JNull)"
| "stable JUndef = JNull"
| "stable v = v"

definition pendingKey :: "string \<Rightarrow> string \<Rightarrow> string" where
  "pendingKey instanceId requestId = instanceId @ CHR 0x00 # requestId"

subsection \<open>Outcomes\<close>

definition answer_of :: "bridge_outcome \<Rightarrow> (bridge_error + jsobj) option" where
  "answer_of v = (case v of Waits \<Rightarrow> None | Resolved x \<Rightarrow> Some (Inr x) | Rejected x \<Rightarrow> Some (Inl x))"

text \<open>A promise is settled once; the calls that wait on it are answered.\<close>

definition settle_outcome :: "nat \<Rightarrow> bridge_outcome \<Rightarrow> bridge \<Rightarrow> bridge" where
  "settle_outcome i v b =
     (if i < length (br_outcomes b) \<and> br_outcomes b ! i = Waits
      then b\<lparr>br_outcomes := (br_outcomes b)[i := v],
             br_calls := map (\<lambda>c. if bc_outcome c = Some i \<and> bc_answer c = None then c\<lparr>bc_answer := answer_of v\<rparr> else c) (br_calls b)\<rparr>
      else b)"

definition new_outcome :: "bridge_outcome \<Rightarrow> bridge \<Rightarrow> nat \<times> bridge" where
  "new_outcome v b = (length (br_outcomes b), b\<lparr>br_outcomes := br_outcomes b @ [v]\<rparr>)"

definition wait_call :: "nat \<Rightarrow> int \<Rightarrow> bridge \<Rightarrow> bridge" where
  "wait_call i timeoutMs b = b\<lparr>br_calls := br_calls b @ [\<lparr>bc_outcome = Some i, bc_timeoutMs = timeoutMs, bc_answer = answer_of (br_outcomes b ! i)\<rparr>]\<rparr>"

definition rejected_call :: "bridge_error \<Rightarrow> bridge \<Rightarrow> bridge" where
  "rejected_call err b = b\<lparr>br_calls := br_calls b @ [\<lparr>bc_outcome = None, bc_timeoutMs = 0, bc_answer = Some (Inl err)\<rparr>]\<rparr>"

definition times_out :: "nat \<Rightarrow> bridge \<Rightarrow> bridge" where
  "times_out n b = (if n < length (br_calls b) \<and> bc_answer (br_calls b ! n) = None
     then b\<lparr>br_calls := (br_calls b)[n := (br_calls b ! n)\<lparr>bc_answer := Some (Inl NoReply)\<rparr>]\<rparr> else b)"

subsection \<open>The window side\<close>

definition starts_key :: "string \<Rightarrow> string \<Rightarrow> bool" where
  "starts_key instanceId key \<longleftrightarrow> take (length instanceId + 1) key = instanceId @ [CHR 0x00]"

definition failPendingFor :: "string \<Rightarrow> string \<Rightarrow> bridge \<Rightarrow> bridge" where
  "failPendingFor instanceId connId b =
     (let hit = (\<lambda>(k, w). starts_key instanceId k \<and> pf_connId w = connId) in
      fold (\<lambda>(k, w). settle_outcome (pf_outcome w) (Rejected (NoLiveTarget True))) (filter hit (br_pending b))
        (b\<lparr>br_pending := filter (\<lambda>p. \<not> hit p) (br_pending b)\<rparr>))"

definition countFor :: "string \<Rightarrow> bridge \<Rightarrow> nat" where
  "countFor identityId b = length (filter (\<lambda>(k, r). ir_identityId r = identityId) (br_instances b))"

text \<open>The record of a window that registers, over the one it had.\<close>

definition registered_record :: "bridge_env \<Rightarrow> int \<Rightarrow> string \<Rightarrow> string \<Rightarrow> string \<Rightarrow> instance_record option \<Rightarrow> window_frame \<Rightarrow> instance_record" where
  "registered_record e now conn identityId viewerMemberId existing f =
     (let focusedAt = (case wf_lastFocusedAt f of None \<Rightarrow> None | Some t \<Rightarrow> if t = [] then None else be_dateParse e t);
          lastFocusedAt = (if wf_focused f then Some now
            else (case focusedAt of Some t \<Rightarrow> Some (min t now)
              | None \<Rightarrow> (case existing of None \<Rightarrow> None | Some x \<Rightarrow> ir_lastFocusedAt x)))
      in \<lparr>ir_instanceId = wf_instanceId f, ir_identityId = identityId, ir_spaceId = wf_spaceId f, ir_viewerMemberId = viewerMemberId,
          ir_windowId = wf_windowId f, ir_conn = conn, ir_focused = wf_focused f, ir_visible = wf_visible f, ir_view = wf_view f,
          ir_mounted = wf_mounted f, ir_revision = wf_revision f, ir_caps = uniq (case wf_caps f of None \<Rightarrow> [] | Some cs \<Rightarrow> cs),
          ir_workspaceId = (case wf_workspaceId f of Some w \<Rightarrow> w | None \<Rightarrow> (case existing of None \<Rightarrow> None | Some x \<Rightarrow> ir_workspaceId x)),
          ir_connectedAt = (case existing of None \<Rightarrow> now | Some x \<Rightarrow> if ir_conn x = conn then ir_connectedAt x else now),
          ir_lastSeen = now, ir_lastFocusedAt = lastFocusedAt\<rparr>)"

definition register_window :: "bridge_env \<Rightarrow> bridge_opts \<Rightarrow> int \<Rightarrow> string \<Rightarrow> string \<Rightarrow> string \<Rightarrow> window_frame \<Rightarrow> bridge \<Rightarrow> bool \<times> bridge" where
  "register_window e opts now conn identityId viewerMemberId f b =
     (let existing = map_of (br_instances b) (wf_instanceId f) in
      if (case existing of None \<Rightarrow> False | Some x \<Rightarrow> ir_identityId x \<noteq> identityId) then (False, b)
      else if existing = None \<and> countFor identityId b \<ge> bo_instanceCap opts then (False, b)
      else
        (let b1 = (case existing of None \<Rightarrow> b | Some x \<Rightarrow> if ir_conn x \<noteq> conn then failPendingFor (ir_instanceId x) (ir_conn x) b else b)
         in (True, marked (Registered conn identityId (wf_spaceId f) (wf_instanceId f))
               (b1\<lparr>br_instances := AList.update (wf_instanceId f) (registered_record e now conn identityId viewerMemberId existing f) (br_instances b1)\<rparr>))))"

definition unregister_window :: "string \<Rightarrow> string \<Rightarrow> bridge \<Rightarrow> bridge" where
  "unregister_window conn instanceId b = (case map_of (br_instances b) instanceId of
      None \<Rightarrow> b
    | Some r \<Rightarrow> if ir_conn r \<noteq> conn then b
        else failPendingFor instanceId conn (b\<lparr>br_instances := AList.delete instanceId (br_instances b)\<rparr>))"

definition drop_connection :: "string \<Rightarrow> bridge \<Rightarrow> bridge" where
  "drop_connection connId b =
     fold (\<lambda>(k, r) c. if ir_conn r \<noteq> connId then c else failPendingFor k connId (c\<lparr>br_instances := AList.delete k (br_instances c)\<rparr>))
       (br_instances b) b"

definition upd_instance :: "string \<Rightarrow> (instance_record \<Rightarrow> instance_record) \<Rightarrow> bridge \<Rightarrow> bridge" where
  "upd_instance k g b = (case map_of (br_instances b) k of None \<Rightarrow> b | Some r \<Rightarrow> b\<lparr>br_instances := AList.update k (g r) (br_instances b)\<rparr>)"

text \<open>The answer of a window, stamped with its ids and with the workspace of the forward.\<close>

definition window_answer :: "bridge_env \<Rightarrow> instance_record \<Rightarrow> pending_forward \<Rightarrow> string \<Rightarrow> string \<Rightarrow> jsval \<Rightarrow> jsobj" where
  "window_answer e r w instanceId requestId result =
     (let ans = (case be_parse e result of
          Some data \<Rightarrow> spread data [(''requestId'', JStr requestId), (''instanceId'', JStr instanceId)]
        | None \<Rightarrow> [(''requestId'', JStr requestId), (''instanceId'', JStr instanceId), (''status'', JStr ''rejected''),
            (''revision'', JNum (JFin (of_nat (ir_revision r)))), (''reason'', JStr ''malformed_result'')])
      in (case pf_workspace w of None \<Rightarrow> ans | Some ws \<Rightarrow> spread ans [(''workspace'', JObj ws)]))"

definition acceptResult :: "bridge_env \<Rightarrow> int \<Rightarrow> string \<Rightarrow> string \<Rightarrow> string \<Rightarrow> jsval \<Rightarrow> bridge \<Rightarrow> bool \<times> bridge" where
  "acceptResult e now conn instanceId requestId result b = (case map_of (br_instances b) instanceId of
      None \<Rightarrow> (False, b)
    | Some r \<Rightarrow> if ir_conn r \<noteq> conn then (False, b)
        else (let key = pendingKey instanceId requestId in case map_of (br_pending b) key of
            None \<Rightarrow> (False, b)
          | Some w \<Rightarrow> if pf_connId w \<noteq> conn then (False, b)
              else (True, settle_outcome (pf_outcome w) (Resolved (window_answer e r w instanceId requestId result))
                (marked (Answered conn key)
                  (upd_instance instanceId (\<lambda>r. r\<lparr>ir_lastSeen := now\<rparr>) (b\<lparr>br_pending := AList.delete key (br_pending b)\<rparr>))))))"

subsection \<open>The caller side\<close>

definition view_of :: "instance_record \<Rightarrow> instance_view" where
  "view_of r = \<lparr>iv_instanceId = ir_instanceId r, iv_windowId = ir_windowId r, iv_spaceId = ir_spaceId r, iv_viewerMemberId = ir_viewerMemberId r,
     iv_focused = ir_focused r, iv_visible = ir_visible r, iv_view = ir_view r, iv_mounted = ir_mounted r, iv_revision = ir_revision r,
     iv_workspaceId = ir_workspaceId r, iv_caps = ir_caps r, iv_connectedAt = ir_connectedAt r, iv_lastSeen = ir_lastSeen r,
     iv_lastFocusedAt = ir_lastFocusedAt r\<rparr>"

text \<open>
  The live windows of an identity in a space: the last focused first, then the last seen. The sort is
  stable, so ordering by the second key and then by the first is ordering by both.
\<close>

definition bridge_candidates :: "bridge_opts \<Rightarrow> int \<Rightarrow> string \<Rightarrow> string \<Rightarrow> bridge \<Rightarrow> instance_record list" where
  "bridge_candidates opts now identityId spaceId b =
     (let cutoff = now - bo_staleAfterMs opts;
          out = filter (\<lambda>r. ir_identityId r = identityId \<and> ir_spaceId r = spaceId \<and> ir_conn r \<in> set (br_open b) \<and> \<not> ir_lastSeen r < cutoff)
            (map snd (br_instances b))
      in sort_key (\<lambda>r. - (case ir_lastFocusedAt r of None \<Rightarrow> - 1 | Some t \<Rightarrow> t)) (sort_key (\<lambda>r. - ir_lastSeen r) out))"

definition list_windows :: "bridge_opts \<Rightarrow> int \<Rightarrow> string \<Rightarrow> string \<Rightarrow> bridge \<Rightarrow> instance_view list" where
  "list_windows opts now identityId spaceId b = map view_of (bridge_candidates opts now identityId spaceId b)"

definition pick_window :: "bridge_opts \<Rightarrow> int \<Rightarrow> string \<Rightarrow> string \<Rightarrow> string option \<Rightarrow> bridge \<Rightarrow> bridge_error + instance_record" where
  "pick_window opts now identityId spaceId instanceId b =
     (let live = bridge_candidates opts now identityId spaceId b in
      case instanceId of
        Some i \<Rightarrow> (case find (\<lambda>r. ir_instanceId r = i) live of None \<Rightarrow> Inl (NoLiveTarget False) | Some r \<Rightarrow> Inr r)
      | None \<Rightarrow>
          if live = [] then Inl (NoLiveTarget False)
          else if length live = 1 then Inr (hd live)
          else (let focused = filter ir_focused live in
            if length focused = 1 then Inr (hd focused) else Inl (AmbiguousTarget (map view_of live))))"

definition targetOf :: "bridge_opts \<Rightarrow> int \<Rightarrow> string \<Rightarrow> string \<Rightarrow> string option \<Rightarrow> bridge \<Rightarrow> string option" where
  "targetOf opts now identityId spaceId instanceId b =
     (case pick_window opts now identityId spaceId instanceId b of Inl err \<Rightarrow> None | Inr r \<Rightarrow> Some (ir_instanceId r))"

text \<open>Sending to a connection: whether it threw, and the connection dropped when it was closed by it.\<close>

definition send_to :: "bridge_env \<Rightarrow> string \<Rightarrow> bridge_mark \<Rightarrow> bridge \<Rightarrow> bool \<times> bridge" where
  "send_to e conn m b =
     (let b1 = b\<lparr>br_sent := br_sent b + 1\<rparr> in
      case be_sends e (br_sent b) of
        Throws \<Rightarrow> (False, b1)
      | Taken \<Rightarrow> (True, marked m b1)
      | Drops \<Rightarrow> (True, drop_connection conn ((marked m b1)\<lparr>br_open := filter (\<lambda>c. c \<noteq> conn) (br_open b1)\<rparr>)))"

text \<open>The frame of a command.\<close>

definition command_frame :: "run_input \<Rightarrow> string \<Rightarrow> string \<Rightarrow> jsobj" where
  "command_frame i requestId instanceId =
     [(''type'', JStr ''workspace.command''), (''requestId'', JStr requestId), (''instanceId'', JStr instanceId), (''command'', JStr (bi_command i))]
     @ (if bi_args i = JUndef then [] else [(''args'', bi_args i)])
     @ (case bi_expectedRevision i of None \<Rightarrow> [] | Some r \<Rightarrow> [(''expectedRevision'', JNum (JFin (of_nat r)))])
     @ [(''actorClass'', JStr (case bi_actorClass i of ActorHuman \<Rightarrow> ''human'' | ActorAgent \<Rightarrow> ''agent''))]
     @ (case bi_actorName i of None \<Rightarrow> [] | Some n \<Rightarrow> if n = [] then [] else [(''actorName'', JStr n)])
     @ (case bi_workspace i of None \<Rightarrow> [] | Some ws \<Rightarrow> [(''workspaceId'', oget ws ''id'')])"

definition forward :: "bridge_env \<Rightarrow> bridge_opts \<Rightarrow> int \<Rightarrow> run_input \<Rightarrow> string \<Rightarrow> bridge \<Rightarrow> nat \<times> bridge" where
  "forward e opts now i requestId b =
     (case pick_window opts now (bi_identityId i) (bi_spaceId i) (bi_instanceId i) b of
        Inl err \<Rightarrow> new_outcome (Rejected err) b
      | Inr target \<Rightarrow>
          (let key = pendingKey (ir_instanceId target) requestId; conn = ir_conn target in
           if map_of (br_pending b) key \<noteq> None then new_outcome (Rejected RequestIdReused) b
           else (case new_outcome Waits b of (n, b1) \<Rightarrow>
             (let b2 = b1\<lparr>br_pending := AList.update key \<lparr>pf_connId = conn, pf_outcome = n, pf_workspace = bi_workspace i\<rparr> (br_pending b1),
                         br_forwards := br_forwards b1 @ [n]\<rparr>;
                  fail = (\<lambda>c. settle_outcome n (Rejected (NoLiveTarget False)) (c\<lparr>br_pending := AList.delete key (br_pending c)\<rparr>))
              in if conn \<notin> set (br_open b2) then (n, fail b2)
                 else (case send_to e conn (Forwarded conn (bi_identityId i) (bi_spaceId i) key (command_frame i requestId (ir_instanceId target))) b2 of
                     (sent, b3) \<Rightarrow> (n, if sent then b3 else fail b3))))))"

text \<open>The oldest records go first, while they are too old or too many.\<close>

fun evict_records :: "int \<Rightarrow> nat \<Rightarrow> nat \<Rightarrow> (string \<times> retry_record) list \<Rightarrow> string list \<times> (string \<times> retry_record) list" where
  "evict_records cutoff cap n [] = ([], [])"
| "evict_records cutoff cap n ((k, r) # rs) =
     (if rt_at r \<ge> cutoff \<and> n \<le> cap then ([], (k, r) # rs)
      else (case evict_records cutoff cap (n - 1) rs of (gone, rest) \<Rightarrow> (k # gone, rest)))"

definition records_of :: "bridge \<Rightarrow> string \<Rightarrow> (string \<times> retry_record) list" where
  "records_of b identityId = (case map_of (br_retries b) identityId of None \<Rightarrow> [] | Some rs \<Rightarrow> rs)"

definition set_records :: "string \<Rightarrow> (string \<times> retry_record) list \<Rightarrow> bridge \<Rightarrow> bridge" where
  "set_records identityId rs b = b\<lparr>br_retries := AList.update identityId rs (br_retries b)\<rparr>"

text \<open>
  What a recorded call starts: a forward, or work of the store that settles later. The mark of the
  start is made when the record is written, in the same step.
\<close>

datatype call_start = StartForward run_input | StartStore

definition start_call :: "bridge_env \<Rightarrow> bridge_opts \<Rightarrow> int \<Rightarrow> call_start \<Rightarrow> string \<Rightarrow> bridge \<Rightarrow> nat \<times> bridge" where
  "start_call e opts now st requestId b = (case st of StartForward i \<Rightarrow> forward e opts now i requestId b | StartStore \<Rightarrow> new_outcome Waits b)"

definition recorded :: "bridge_env \<Rightarrow> bridge_opts \<Rightarrow> int \<Rightarrow> string \<Rightarrow> string \<Rightarrow> jsval \<Rightarrow> int \<Rightarrow> call_start \<Rightarrow> bridge \<Rightarrow> bridge" where
  "recorded e opts now identityId requestId payload timeoutMs st b =
     (let hash = be_hash e (stable payload); b0 = set_records identityId (records_of b identityId) b in
      case map_of (records_of b identityId) requestId of
        Some prior \<Rightarrow> if rt_hash prior \<noteq> hash then rejected_call RequestIdReused b0 else wait_call (rt_outcome prior) timeoutMs b0
      | None \<Rightarrow> (case start_call e opts now st requestId (marked (TakenUp identityId requestId) b0) of
          (n, b1) \<Rightarrow>
            (let recs = AList.update requestId \<lparr>rt_hash = hash, rt_at = now, rt_outcome = n\<rparr> (records_of b1 identityId);
                 (gone, kept) = evict_records (now - bo_retryTtlMs opts) (bo_retryCap opts) (length recs) recs
             in wait_call n timeoutMs (fold (\<lambda>k. marked (LetGo identityId k)) gone (set_records identityId kept b1)))))"

text \<open>A refusal that reached nothing is not remembered; its handler runs after the step.\<close>

definition undelivered :: "bridge_outcome \<Rightarrow> bool" where
  "undelivered v = (case v of Rejected (NoLiveTarget d) \<Rightarrow> \<not> d | Rejected (StoreError s (Some d)) \<Rightarrow> \<not> d | _ \<Rightarrow> False)"

definition forgets_refusal :: "string \<Rightarrow> string \<Rightarrow> bridge \<Rightarrow> bridge" where
  "forgets_refusal identityId requestId b = (case map_of (records_of b identityId) requestId of
      None \<Rightarrow> b
    | Some r \<Rightarrow> if undelivered (br_outcomes b ! rt_outcome r)
        then marked (LetGo identityId requestId) (set_records identityId (AList.delete requestId (records_of b identityId)) b) else b)"

definition run_payload :: "run_input \<Rightarrow> jsval" where
  "run_payload i = JObj [(''spaceId'', JStr (bi_spaceId i)), (''instanceId'', case bi_instanceId i of None \<Rightarrow> JNull | Some s \<Rightarrow> JStr s),
     (''command'', JStr (bi_command i)), (''args'', if bi_args i = JUndef then JNull else bi_args i),
     (''expectedRevision'', case bi_expectedRevision i of None \<Rightarrow> JNull | Some r \<Rightarrow> JNum (JFin (of_nat r)))]"

definition run_command :: "bridge_env \<Rightarrow> bridge_opts \<Rightarrow> int \<Rightarrow> string \<Rightarrow> run_input \<Rightarrow> bridge \<Rightarrow> bridge" where
  "run_command e opts now fresh i b =
     (let timeoutMs = clampTimeout (bi_timeoutMs i) in
      case bi_requestId i of
        None \<Rightarrow> (case forward e opts now i fresh b of (n, b1) \<Rightarrow> wait_call n timeoutMs b1)
      | Some requestId \<Rightarrow> recorded e opts now (bi_identityId i) requestId (run_payload i) timeoutMs (StartForward i) b)"

definition shows_workspace :: "string \<Rightarrow> string option \<Rightarrow> bridge \<Rightarrow> bridge" where
  "shows_workspace instanceId workspaceId b = upd_instance instanceId (\<lambda>r. r\<lparr>ir_workspaceId := workspaceId\<rparr>) b"

text \<open>One frame to every live window of the identity in the space; how many took it.\<close>

definition push_to :: "bridge_env \<Rightarrow> string \<Rightarrow> string \<Rightarrow> push_options \<Rightarrow> instance_record \<Rightarrow> nat \<times> bridge \<Rightarrow> nat \<times> bridge" where
  "push_to e identityId spaceId po r nc = (case nc of (n, c) \<Rightarrow>
     if (case po_only po of None \<Rightarrow> False | Some i \<Rightarrow> ir_instanceId r \<noteq> i) \<or> (po_capableOnly po \<and> \<not> isCapable (ir_caps r)) then (n, c)
     else (case send_to e (ir_conn r) (Pushed (ir_conn r) identityId spaceId) c of
         (sent, c1) \<Rightarrow> if \<not> sent then (n, c1)
           else (n + 1, case po_shows po of None \<Rightarrow> c1 | Some ws \<Rightarrow> shows_workspace (ir_instanceId r) (Some ws) c1)))"

definition push_frame :: "bridge_env \<Rightarrow> bridge_opts \<Rightarrow> int \<Rightarrow> string \<Rightarrow> string \<Rightarrow> push_options \<Rightarrow> bridge \<Rightarrow> nat \<times> bridge" where
  "push_frame e opts now identityId spaceId po b = fold (push_to e identityId spaceId po) (bridge_candidates opts now identityId spaceId b) (0, b)"

subsection \<open>The whole\<close>

datatype bridge_event =
    BOpens string
  | BShuts string
  | BCloses string
  | BRegisters int string string string window_frame
  | BUnregisters string string
  | BAnswers int string string string jsval
  | BRuns int string run_input
  | BDispatches int run_input string
  | BRecords int string string jsval int
  | BSettles nat "bridge_error + jsobj"
  | BForgets string string
  | BTimesOut nat
  | BPushes int string string push_options
  | BShows string "string option"

text \<open>A connection is open, then it is not, and then it is dropped. The store settles only its own work.\<close>

fun bridge_step :: "bridge_env \<Rightarrow> bridge_opts \<Rightarrow> bridge \<Rightarrow> bridge_event \<Rightarrow> bridge" where
  "bridge_step e opts b (BOpens conn) = b\<lparr>br_open := conn # br_open b\<rparr>"
| "bridge_step e opts b (BShuts conn) = b\<lparr>br_open := filter (\<lambda>c. c \<noteq> conn) (br_open b)\<rparr>"
| "bridge_step e opts b (BCloses conn) = drop_connection conn (b\<lparr>br_open := filter (\<lambda>c. c \<noteq> conn) (br_open b)\<rparr>)"
| "bridge_step e opts b (BRegisters now conn identityId member f) = snd (register_window e opts now conn identityId member f b)"
| "bridge_step e opts b (BUnregisters conn instanceId) = unregister_window conn instanceId b"
| "bridge_step e opts b (BAnswers now conn instanceId requestId result) = snd (acceptResult e now conn instanceId requestId result b)"
| "bridge_step e opts b (BRuns now fresh i) = run_command e opts now fresh i b"
| "bridge_step e opts b (BDispatches now i requestId) = snd (forward e opts now i requestId b)"
| "bridge_step e opts b (BRecords now identityId requestId payload timeoutMs) = recorded e opts now identityId requestId payload timeoutMs StartStore b"
| "bridge_step e opts b (BSettles n v) =
     (if n \<in> set (br_forwards b) then b else settle_outcome n (case v of Inl err \<Rightarrow> Rejected err | Inr x \<Rightarrow> Resolved x) b)"
| "bridge_step e opts b (BForgets identityId requestId) = forgets_refusal identityId requestId b"
| "bridge_step e opts b (BTimesOut n) = times_out n b"
| "bridge_step e opts b (BPushes now identityId spaceId po) = snd (push_frame e opts now identityId spaceId po b)"
| "bridge_step e opts b (BShows instanceId workspaceId) = shows_workspace instanceId workspaceId b"

end
