(* ===== verification/BridgeFlight.thy ===== *)
theory BridgeFlight
  imports Bridge
begin

text \<open>
  Forwards in flight: a forward that still waits is waiting for the very connection that holds its
  window, so a window that goes away, by whatever way, leaves no caller hanging.
\<close>

subsection \<open>Settling\<close>

definition out_ids :: "(string \<times> pending_forward) list \<Rightarrow> nat list" where
  "out_ids ps = map (pf_outcome \<circ> snd) ps"

text \<open>The forwards that wait are those in flight, each under a key of its own.\<close>

definition flight :: "bridge \<Rightarrow> bool" where
  "flight b \<longleftrightarrow> distinct (map fst (br_pending b)) \<and> distinct (out_ids (br_pending b)) \<and> set (out_ids (br_pending b)) \<subseteq> set (br_forwards b)
     \<and> (\<forall>n \<in> set (br_forwards b). n < length (br_outcomes b) \<and> (br_outcomes b ! n = Waits \<longleftrightarrow> n \<in> set (out_ids (br_pending b))))"

text \<open>A pending forward whose window is held by the connection it was sent to.\<close>

definition held :: "bridge \<Rightarrow> string \<Rightarrow> pending_forward \<Rightarrow> bool" where
  "held b k w \<longleftrightarrow> (\<exists>inst req r. k = pendingKey inst req \<and> map_of (br_instances b) inst = Some r \<and> ir_conn r = pf_connId w)"

definition flight_inv :: "bridge \<Rightarrow> bool" where
  "flight_inv b \<longleftrightarrow> flight b \<and> distinct (map fst (br_instances b)) \<and> (\<forall>(k, r) \<in> set (br_instances b). ir_instanceId r = k) \<and> (\<forall>(k, w) \<in> set (br_pending b). held b k w)"

lemma settle_fields [simp]:
  "br_pending (settle_outcome i v b) = br_pending b" "br_forwards (settle_outcome i v b) = br_forwards b"
  "br_instances (settle_outcome i v b) = br_instances b" "br_open (settle_outcome i v b) = br_open b"
  "length (br_outcomes (settle_outcome i v b)) = length (br_outcomes b)" "br_trace (settle_outcome i v b) = br_trace b"
  "br_retries (settle_outcome i v b) = br_retries b" "br_sent (settle_outcome i v b) = br_sent b"
  by (simp_all add: settle_outcome_def)

lemma settle_waits: "v \<noteq> Waits \<Longrightarrow> br_outcomes (settle_outcome i v b) ! n = Waits \<longleftrightarrow> br_outcomes b ! n = Waits \<and> (n \<noteq> i \<or> \<not> i < length (br_outcomes b))"
  by (cases "n = i"; cases "i < length (br_outcomes b)") (auto simp: settle_outcome_def)

lemma fold_settle_fields:
  fixes ws :: "(string \<times> pending_forward) list"
  defines "g \<equiv> \<lambda>(k :: string, w). settle_outcome (pf_outcome w) (Rejected (NoLiveTarget True))"
  shows "br_pending (fold g ws b) = br_pending b" "br_forwards (fold g ws b) = br_forwards b" "br_instances (fold g ws b) = br_instances b"
    "br_open (fold g ws b) = br_open b" "length (br_outcomes (fold g ws b)) = length (br_outcomes b)" "br_trace (fold g ws b) = br_trace b"
    "br_retries (fold g ws b) = br_retries b" "br_sent (fold g ws b) = br_sent b"
  by (induction ws arbitrary: b) (auto simp: g_def)

lemma fold_settle_waits:
  "n < length (br_outcomes b) \<Longrightarrow> br_outcomes (fold (\<lambda>(k :: string, w). settle_outcome (pf_outcome w) (Rejected (NoLiveTarget True))) ws b) ! n = Waits
     \<longleftrightarrow> br_outcomes b ! n = Waits \<and> n \<notin> set (out_ids ws)"
proof (induction ws arbitrary: b)
  case (Cons p ws)
  obtain k w where p: "p = (k, w)" by (cases p)
  show ?case using Cons.prems Cons.IH [of "settle_outcome (pf_outcome w) (Rejected (NoLiveTarget True)) b"]
    by (auto simp: p settle_waits out_ids_def)
qed (simp add: out_ids_def)

lemma fail_fields [simp]:
  "br_pending (failPendingFor i c b) = filter (\<lambda>(k, w). \<not> (starts_key i k \<and> pf_connId w = c)) (br_pending b)"
  "br_forwards (failPendingFor i c b) = br_forwards b" "br_instances (failPendingFor i c b) = br_instances b"
  "br_open (failPendingFor i c b) = br_open b" "length (br_outcomes (failPendingFor i c b)) = length (br_outcomes b)"
  "br_trace (failPendingFor i c b) = br_trace b" "br_retries (failPendingFor i c b) = br_retries b" "br_sent (failPendingFor i c b) = br_sent b"
  by (simp_all add: failPendingFor_def Let_def fold_settle_fields) (rule filter_cong, auto)

lemma distinct_out_ids_filter: "distinct (out_ids ps) \<Longrightarrow> distinct (out_ids (filter P ps))"
  by (auto simp: out_ids_def distinct_map intro: inj_on_subset)

lemma out_ids_filter_not: "distinct (out_ids ps) \<Longrightarrow> set (out_ids (filter (\<lambda>p. \<not> P p) ps)) = set (out_ids ps) - set (out_ids (filter P ps))"
  by (induction ps) (auto simp: out_ids_def)

lemma flight_fail: "flight b \<Longrightarrow> flight (failPendingFor i c b)"
proof -
  assume f: "flight b"
  define hit where "hit = (\<lambda>(k, w :: pending_forward). starts_key i k \<and> pf_connId w = c)"
  have p: "br_pending (failPendingFor i c b) = filter (\<lambda>q. \<not> hit q) (br_pending b)"
    by (simp add: hit_def case_prod_unfold)
  have d: "distinct (out_ids (br_pending b))" using f by (simp add: flight_def)
  have w: "br_outcomes (failPendingFor i c b) ! n = Waits \<longleftrightarrow> br_outcomes b ! n = Waits \<and> n \<notin> set (out_ids (filter hit (br_pending b)))"
    if "n < length (br_outcomes b)" for n
    using that fold_settle_waits [of n "b\<lparr>br_pending := filter (\<lambda>q. \<not> hit q) (br_pending b)\<rparr>" "filter hit (br_pending b)"]
    by (simp add: failPendingFor_def Let_def hit_def)
  have "distinct (map fst (filter (\<lambda>q. \<not> hit q) (br_pending b)))" using f by (simp add: flight_def distinct_map_filter)
  with f w distinct_out_ids_filter [OF d, of "\<lambda>q. \<not> hit q"] out_ids_filter_not [OF d, of hit]
  show ?thesis unfolding flight_def p by (auto simp del: fail_fields(1))
qed

lemma starts_key_self: "starts_key i (pendingKey i r)"
  by (simp add: starts_key_def pendingKey_def)

text \<open>What is left after failing the forwards to a window and connection does not need that window.\<close>

lemma held_without:
  assumes "held b k w" "\<not> (starts_key i k \<and> pf_connId w = c)" "\<forall>r. map_of (br_instances b) i = Some r \<longrightarrow> ir_conn r = c"
    "\<forall>j. j \<noteq> i \<longrightarrow> map_of (br_instances b') j = map_of (br_instances b) j"
  shows "held b' k w"
proof -
  obtain inst req r where h: "k = pendingKey inst req" "map_of (br_instances b) inst = Some r" "ir_conn r = pf_connId w"
    using assms(1) by (auto simp: held_def)
  have "inst \<noteq> i" using h assms(2,3) starts_key_self by auto
  with h assms(4) show ?thesis by (auto simp: held_def)
qed

lemma held_same: "held b k w \<Longrightarrow> br_instances b' = br_instances b \<Longrightarrow> held b' k w"
  by (simp add: held_def)

lemma flight_same: "flight b \<Longrightarrow> br_pending b' = br_pending b \<Longrightarrow> br_forwards b' = br_forwards b \<Longrightarrow> br_outcomes b' = br_outcomes b \<Longrightarrow> flight b'"
  by (simp add: flight_def)

lemma remove_inv:
  assumes "flight_inv b" "map_of (br_instances b) i = Some r" "ir_conn r = c"
  shows "flight_inv (failPendingFor i c (b\<lparr>br_instances := AList.delete i (br_instances b)\<rparr>))"
proof -
  let ?b = "b\<lparr>br_instances := AList.delete i (br_instances b)\<rparr>"
  have "flight ?b" using assms(1) flight_same [of b ?b] by (simp add: flight_inv_def)
  moreover have "distinct (map fst (AList.delete i (br_instances b)))" using assms(1) by (simp add: flight_inv_def distinct_delete)
  moreover have "\<forall>(k, r) \<in> set (AList.delete i (br_instances b)). ir_instanceId r = k" using assms(1) by (auto simp: flight_inv_def AList.delete_eq)
  moreover have "held (failPendingFor i c ?b) k w" if "(k, w) \<in> set (br_pending (failPendingFor i c ?b))" for k w
  proof (rule held_without [of b k w i c])
    show "held b k w" using assms(1) that by (auto simp: flight_inv_def)
    show "\<not> (starts_key i k \<and> pf_connId w = c)" using that by auto
  qed (use assms in \<open>simp_all add: delete_conv'\<close>)
  ultimately show ?thesis
    unfolding flight_inv_def using flight_fail by auto
qed

lemma fail_inv: "flight_inv b \<Longrightarrow> flight_inv (failPendingFor i c b)"
  by (auto simp: flight_inv_def flight_fail intro: held_same [of b])

lemma drop_fold_inv:
  assumes "flight_inv b" "distinct (map fst rs)" "\<forall>(k, r) \<in> set rs. map_of (br_instances b) k = Some r"
  shows "flight_inv (fold (\<lambda>(k, r) c. if ir_conn r \<noteq> conn then c else failPendingFor k conn (c\<lparr>br_instances := AList.delete k (br_instances c)\<rparr>)) rs b)"
  using assms
proof (induction rs arbitrary: b)
  case (Cons p rs)
  obtain k r where p: "p = (k, r)" by (cases p)
  show ?case
  proof (cases "ir_conn r = conn")
    case True
    let ?b = "failPendingFor k conn (b\<lparr>br_instances := AList.delete k (br_instances b)\<rparr>)"
    have "flight_inv ?b" using Cons.prems p True by (intro remove_inv) auto
    moreover have "map_of (br_instances ?b) j = Some q" if "(j, q) \<in> set rs" for j q
    proof -
      have "j \<in> fst ` set rs" using that by force
      then have "j \<noteq> k" using Cons.prems(2) p by auto
      moreover have "map_of (br_instances b) j = Some q" using Cons.prems(3) that by auto
      ultimately show ?thesis by (simp add: delete_conv')
    qed
    ultimately show ?thesis using Cons.IH [of ?b] Cons.prems(2) p True by auto
  qed (use Cons p in auto)
qed simp

lemma flight_inv_open [simp]: "flight_inv (b\<lparr>br_open := os\<rparr>) = flight_inv b" "flight_inv (marked m b) = flight_inv b"
  "flight_inv (b\<lparr>br_sent := n\<rparr>) = flight_inv b" "flight_inv (b\<lparr>br_calls := cs\<rparr>) = flight_inv b" "flight_inv (b\<lparr>br_retries := rs\<rparr>) = flight_inv b"
  by (simp_all add: flight_inv_def flight_def held_def marked_def)

lemma drop_inv: "flight_inv b \<Longrightarrow> flight_inv (drop_connection conn b)"
  unfolding drop_connection_def by (rule drop_fold_inv) (auto simp: flight_inv_def)

subsection \<open>The operations\<close>

lemma alist_update_absent: "map_of al k = None \<Longrightarrow> AList.update k v al = al @ [(k, v)]"
  by (induction al) (auto split: if_splits)

lemma update_set: "set (AList.update k v al) \<subseteq> insert (k, v) (set al)"
  by (induction al) auto

text \<open>Taking one forward out of flight and settling it.\<close>

lemma take_flight:
  assumes f: "flight b" and k: "map_of (br_pending b) key = Some w" and v: "v \<noteq> Waits"
  shows "flight (settle_outcome (pf_outcome w) v (b\<lparr>br_pending := AList.delete key (br_pending b)\<rparr>))"
proof -
  let ?P = "\<lambda>(k, w :: pending_forward). k = key"
  have del: "AList.delete key (br_pending b) = filter (\<lambda>q. \<not> ?P q) (br_pending b)"
    by (simp add: AList.delete_eq case_prod_unfold eq_commute)
  have kw: "(key, w) \<in> set (br_pending b)" using k by (rule map_of_SomeD)
  have d: "distinct (out_ids (br_pending b))" "distinct (map fst (br_pending b))" using f by (simp_all add: flight_def)
  have "set (out_ids (filter ?P (br_pending b))) = {pf_outcome w}"
  proof -
    have "filter ?P (br_pending b) = filter (\<lambda>q. q = (key, w)) (br_pending b)"
      using kw eq_key_imp_eq_value [OF d(2)] by (intro filter_cong) auto
    then have "set (filter ?P (br_pending b)) = {(key, w)}" using kw by auto
    then show ?thesis by (simp add: out_ids_def)
  qed
  with out_ids_filter_not [OF d(1), of ?P] have out: "set (out_ids (AList.delete key (br_pending b))) = set (out_ids (br_pending b)) - {pf_outcome w}"
    unfolding del by simp
  have "pf_outcome w \<in> set (out_ids (br_pending b))" using kw by (force simp: out_ids_def)
  moreover have "distinct (map fst (AList.delete key (br_pending b)))" using d(2) by (rule distinct_delete)
  moreover have "distinct (out_ids (AList.delete key (br_pending b)))" unfolding del using d(1) by (rule distinct_out_ids_filter)
  ultimately show ?thesis
    using f v unfolding flight_def by (auto simp: out settle_waits)
qed

lemma take_inv:
  assumes "flight_inv b" "map_of (br_pending b) key = Some w" "v \<noteq> Waits"
  shows "flight_inv (settle_outcome (pf_outcome w) v (b\<lparr>br_pending := AList.delete key (br_pending b)\<rparr>))"
  using assms take_flight [OF _ assms(2,3)] by (auto simp: flight_inv_def AList.delete_eq intro: held_same)

lemma new_outcome_inv: "flight_inv b \<Longrightarrow> flight_inv (snd (new_outcome v b))"
  by (auto simp: flight_inv_def flight_def new_outcome_def held_def nth_append)

lemma upd_inv: "flight_inv b \<Longrightarrow> (\<And>r. ir_conn (g r) = ir_conn r \<and> ir_instanceId (g r) = ir_instanceId r) \<Longrightarrow> flight_inv (upd_instance k g b)"
proof (cases "map_of (br_instances b) k")
  case (Some r)
  assume i: "flight_inv b" and g: "\<And>r. ir_conn (g r) = ir_conn r \<and> ir_instanceId (g r) = ir_instanceId r"
  let ?b = "b\<lparr>br_instances := AList.update k (g r) (br_instances b)\<rparr>"
  have "flight ?b" using i flight_same [of b ?b] by (simp add: flight_inv_def)
  moreover have "held ?b j w" if before_held: "held b j w" for j w
  proof -
    obtain inst req q where h: "j = pendingKey inst req" "map_of (br_instances b) inst = Some q" "ir_conn q = pf_connId w"
      using before_held by (auto simp: held_def)
    show ?thesis using h Some g [of r] by (cases "inst = k") (auto simp: held_def)
  qed
  moreover have "\<forall>(j, q) \<in> set (AList.update k (g r) (br_instances b)). ir_instanceId q = j"
    using i g [of r] map_of_SomeD [OF Some] subsetD [OF update_set [of k "g r" "br_instances b"]] by (fastforce simp: flight_inv_def)
  ultimately show ?thesis using Some i by (auto simp: upd_instance_def flight_inv_def distinct_update)
qed (simp add: upd_instance_def)

lemma send_inv: "flight_inv b \<Longrightarrow> flight_inv (snd (send_to e conn m b))"
  by (auto simp: send_to_def Let_def intro!: drop_inv split: send_result.split)

lemma candidates_instances: "r \<in> set (bridge_candidates opts now i s b) \<longleftrightarrow>
    (\<exists>k. (k, r) \<in> set (br_instances b)) \<and> ir_identityId r = i \<and> ir_spaceId r = s \<and> ir_conn r \<in> set (br_open b) \<and> \<not> ir_lastSeen r < now - bo_staleAfterMs opts"
  by (force simp: bridge_candidates_def Let_def)

lemma picked_candidate: "pick_window opts now i s inst b = Inr r \<Longrightarrow> r \<in> set (bridge_candidates opts now i s b)"
proof -
  assume p: "pick_window opts now i s inst b = Inr r"
  let ?l = "bridge_candidates opts now i s b"
  have one: "xs \<noteq> [] \<Longrightarrow> set xs \<subseteq> set ?l \<Longrightarrow> hd xs \<in> set ?l" for xs using hd_in_set by blast
  show ?thesis
  proof (cases inst)
    case None
    with p show ?thesis
      by (auto simp: pick_window_def Let_def split: if_splits intro!: one)
  next
    case (Some j)
    with p show ?thesis by (auto simp: pick_window_def Let_def find_Some_iff split: option.splits)
  qed
qed

lemma forward_inv:
  assumes i: "flight_inv b"
  shows "flight_inv (snd (forward e opts now inp req b))"
proof (cases "pick_window opts now (bi_identityId inp) (bi_spaceId inp) (bi_instanceId inp) b")
  case (Inl err)
  with new_outcome_inv [OF i] show ?thesis by (simp add: forward_def)
next
  case (Inr t)
  define key where "key = pendingKey (ir_instanceId t) req"
  define w where "w = \<lparr>pf_connId = ir_conn t, pf_outcome = length (br_outcomes b), pf_workspace = bi_workspace inp\<rparr>"
  define b2 where "b2 = b\<lparr>br_outcomes := br_outcomes b @ [Waits], br_pending := AList.update key w (br_pending b), br_forwards := br_forwards b @ [length (br_outcomes b)]\<rparr>"
  define fail where "fail = (\<lambda>c. settle_outcome (pf_outcome w) (Rejected (NoLiveTarget False)) (c\<lparr>br_pending := AList.delete key (br_pending c)\<rparr>))"
  from picked_candidate [OF Inr] obtain k where "(k, t) \<in> set (br_instances b)" by (auto simp: candidates_instances)
  then have t: "map_of (br_instances b) (ir_instanceId t) = Some t" using i by (auto simp: flight_inv_def)
  show ?thesis
  proof (cases "map_of (br_pending b) key")
    case (Some x)
    with Inr new_outcome_inv [OF i] show ?thesis by (simp add: forward_def key_def Let_def)
  next
    case None
    have new: "length (br_outcomes b) \<notin> set (br_forwards b)" "set (out_ids (br_pending b)) \<subseteq> set (br_forwards b)"
      using i by (auto simp: flight_inv_def flight_def)
    have app: "AList.update key w (br_pending b) = br_pending b @ [(key, w)]" using None by (rule alist_update_absent)
    have "key \<notin> fst ` set (br_pending b)" using None by (simp add: map_of_eq_None_iff)
    moreover have ids: "out_ids (br_pending b @ [(key, w)]) = out_ids (br_pending b) @ [length (br_outcomes b)]" by (simp add: out_ids_def w_def)
    moreover have "n < length (br_outcomes b) \<and> (br_outcomes b ! n = Waits \<longleftrightarrow> n \<in> set (out_ids (br_pending b)))" if "n \<in> set (br_forwards b)" for n
      using that i by (simp add: flight_inv_def flight_def)
    moreover have "distinct (map fst (br_pending b))" "distinct (out_ids (br_pending b))" using i by (simp_all add: flight_inv_def flight_def)
    ultimately have "flight b2"
      using new unfolding flight_def b2_def app by (auto simp: nth_append less_Suc_eq)
    moreover have "held b2 key w" using t by (auto simp: held_def b2_def key_def w_def)
    moreover have "held b2 j x" if "(j, x) \<in> set (br_pending b)" for j x
      by (rule held_same [of b]) (use that i in \<open>auto simp: flight_inv_def b2_def\<close>)
    moreover have "br_instances b2 = br_instances b" "set (br_pending b2) = insert (key, w) (set (br_pending b))" by (simp_all add: b2_def app)
    ultimately have b2: "flight_inv b2" using i by (simp add: flight_inv_def split_beta)
    have mine: "map_of (br_pending b2) key = Some w" by (simp add: b2_def update_conv')
    have fail_inv: "flight_inv (fail c)" if "flight_inv c" "map_of (br_pending c) key = Some w" for c
      unfolding fail_def using take_inv [OF that] by simp
    obtain sent b3 where s: "send_to e (ir_conn t) (Forwarded (ir_conn t) (bi_identityId inp) (bi_spaceId inp) key (command_frame inp req (ir_instanceId t))) b2 = (sent, b3)" by fastforce
    have b3: "flight_inv b3" using send_inv [OF b2, of e "ir_conn t" "Forwarded (ir_conn t) (bi_identityId inp) (bi_spaceId inp) key (command_frame inp req (ir_instanceId t))"] s by simp
    have "\<not> sent \<Longrightarrow> map_of (br_pending b3) key = Some w"
      using s mine by (auto simp: send_to_def Let_def split: send_result.splits)
    moreover have op: "br_open b2 = br_open b" by (simp add: b2_def)
    moreover have "snd (forward e opts now inp req b) = (if ir_conn t \<notin> set (br_open b2) then fail b2 else if sent then b3 else fail b3)"
      using Inr None s unfolding forward_def new_outcome_def Let_def
      by (simp add: key_def [symmetric] w_def [symmetric] b2_def [symmetric] fail_def op) (simp add: w_def)
    ultimately show ?thesis using fail_inv [OF b2 mine] fail_inv [OF b3] b3 by simp
  qed
qed

lemma register_window_inv:
  assumes i: "flight_inv b"
  shows "flight_inv (snd (register_window e opts now conn ident member f b))"
proof -
  let ?k = "wf_instanceId f"
  have main: "flight_inv (c\<lparr>br_instances := AList.update ?k rec (br_instances c)\<rparr>)"
    if c: "flight_inv c" and rec: "ir_instanceId rec = ?k"
      and h: "\<forall>(j, w) \<in> set (br_pending c). held (c\<lparr>br_instances := AList.update ?k rec (br_instances c)\<rparr>) j w" for c rec
  proof -
    let ?c = "c\<lparr>br_instances := AList.update ?k rec (br_instances c)\<rparr>"
    have "flight ?c" using c flight_same [of c ?c] by (simp add: flight_inv_def)
    moreover have "\<forall>(j, q) \<in> set (AList.update ?k rec (br_instances c)). ir_instanceId q = j"
      using c rec subsetD [OF update_set [of ?k rec "br_instances c"]] by (fastforce simp: flight_inv_def)
    ultimately show ?thesis using c h by (simp add: flight_inv_def distinct_update)
  qed
  have other: "held (c\<lparr>br_instances := AList.update ?k rec (br_instances c)\<rparr>) j w"
    if "held c j w" "\<forall>x. map_of (br_instances c) ?k = Some x \<longrightarrow> starts_key ?k j \<and> pf_connId w = ir_conn x \<longrightarrow> ir_conn rec = ir_conn x" for c rec j w
  proof -
    obtain inst req q where h: "j = pendingKey inst req" "map_of (br_instances c) inst = Some q" "ir_conn q = pf_connId w"
      using \<open>held c j w\<close> by (auto simp: held_def)
    show ?thesis
    proof (cases "inst = ?k")
      case True
      with h that(2) starts_key_self [of inst req] have "ir_conn rec = pf_connId w" by auto
      with h True show ?thesis by (auto simp: held_def)
    qed (use h in \<open>auto simp: held_def\<close>)
  qed
  show ?thesis
  proof (cases "map_of (br_instances b) ?k")
    case None
    have "flight_inv (b\<lparr>br_instances := AList.update ?k (registered_record e now conn ident member None f) (br_instances b)\<rparr>)"
      using None i by (intro main) (auto simp: registered_record_def Let_def flight_inv_def intro!: other)
    with None i show ?thesis by (simp add: register_window_def Let_def)
  next
    case (Some x)
    have id: "ir_instanceId x = ?k" using i map_of_SomeD [OF Some] by (auto simp: flight_inv_def)
    let ?r = "registered_record e now conn ident member (Some x) f"
    have r: "ir_instanceId ?r = ?k" "ir_conn ?r = conn" by (simp_all add: registered_record_def Let_def)
    define c where "c = (if ir_conn x \<noteq> conn then failPendingFor ?k (ir_conn x) b else b)"
    have c: "flight_inv c" "br_instances c = br_instances b" using i fail_inv [OF i] by (simp_all add: c_def)
    have "held (c\<lparr>br_instances := AList.update ?k ?r (br_instances c)\<rparr>) j w" if "(j, w) \<in> set (br_pending c)" for j w
    proof (rule other)
      show "held c j w" using c(1) that by (auto simp: flight_inv_def)
      show "\<forall>y. map_of (br_instances c) ?k = Some y \<longrightarrow> starts_key ?k j \<and> pf_connId w = ir_conn y \<longrightarrow> ir_conn ?r = ir_conn y"
        using that Some c(2) r(2) by (auto simp: c_def split: if_splits)
    qed
    then have "flight_inv (c\<lparr>br_instances := AList.update ?k ?r (br_instances c)\<rparr>)" using c(1) r(1) by (intro main) auto
    with i Some id show ?thesis by (auto simp: register_window_def Let_def c_def split: if_splits)
  qed
qed

lemma accept_inv: "flight_inv b \<Longrightarrow> flight_inv (snd (acceptResult e now conn inst req result b))"
proof -
  assume i: "flight_inv b"
  have "flight_inv (settle_outcome (pf_outcome w) (Resolved x) (marked m (upd_instance inst (\<lambda>r. r\<lparr>ir_lastSeen := now\<rparr>) (b\<lparr>br_pending := AList.delete key (br_pending b)\<rparr>))))"
    if k: "map_of (br_pending b) key = Some w" for key w x m
  proof -
    have "settle_outcome (pf_outcome w) (Resolved x) (marked m (upd_instance inst g c)) = marked m (upd_instance inst g (settle_outcome (pf_outcome w) (Resolved x) c))" for g c
      by (cases "map_of (br_instances c) inst") (auto simp: settle_outcome_def marked_def upd_instance_def)
    with upd_inv [OF take_inv [OF i k]] show ?thesis by simp
  qed
  with i show "flight_inv (snd (acceptResult e now conn inst req result b))"
    by (simp add: acceptResult_def Let_def split: option.split)
qed

lemma unregister_inv: "flight_inv b \<Longrightarrow> flight_inv (unregister_window conn inst b)"
  by (auto simp: unregister_window_def intro: remove_inv split: option.splits)

lemma recorded_inv:
  assumes i: "flight_inv b"
  shows "flight_inv (recorded e opts now ident req payload t st b)"
proof -
  have records: "flight_inv c \<Longrightarrow> flight_inv (set_records ident rs c)" "flight_inv c \<Longrightarrow> flight_inv (wait_call n t c)" "flight_inv c \<Longrightarrow> flight_inv (rejected_call err c)" for c rs n err
    by (simp_all add: set_records_def wait_call_def rejected_call_def)
  have marks: "flight_inv c \<Longrightarrow> flight_inv (fold (\<lambda>k. marked (LetGo ident k)) gone c)" for c gone
    by (induction gone arbitrary: c) simp_all
  have start: "flight_inv c \<Longrightarrow> flight_inv (snd (start_call e opts now st req c))" for c
    using forward_inv new_outcome_inv by (cases st) (simp_all add: start_call_def)
  obtain n b1 where s: "start_call e opts now st req (marked (TakenUp ident req) (set_records ident (records_of b ident) b)) = (n, b1)" by fastforce
  have "flight_inv b1" using start [of "marked (TakenUp ident req) (set_records ident (records_of b ident) b)"] records(1) i s by simp
  then show ?thesis
    using i s by (auto simp: recorded_def Let_def intro!: records marks split: option.split prod.splits)
qed

lemma push_to_inv:
  assumes i: "flight_inv c"
  shows "flight_inv (snd (push_to e ident s po r (n, c)))"
proof -
  obtain sent c1 where q: "send_to e (ir_conn r) (Pushed (ir_conn r) ident s) c = (sent, c1)" by fastforce
  have "flight_inv c1" using send_inv [OF i, of e "ir_conn r" "Pushed (ir_conn r) ident s"] q by simp
  with q i show ?thesis by (auto simp: push_to_def shows_workspace_def upd_inv split: option.split)
qed

lemma push_inv:
  assumes i: "flight_inv b"
  shows "flight_inv (snd (push_frame e opts now ident s po b))"
proof -
  have "flight_inv (snd nc) \<Longrightarrow> flight_inv (snd (fold (push_to e ident s po) rs nc))" for rs nc
  proof (induction rs arbitrary: nc)
    case (Cons r rs)
    then show ?case using push_to_inv by (cases nc) simp
  qed simp
  with i show ?thesis by (simp add: push_frame_def)
qed

lemma flight_step: "flight_inv b \<Longrightarrow> flight_inv (bridge_step e opts b ev)"
proof (cases ev)
  case (BRuns now fresh i)
  assume f: "flight_inv b"
  obtain n b1 where s: "forward e opts now i fresh b = (n, b1)" by fastforce
  have "flight_inv b1" using forward_inv [OF f, of e opts now i fresh] s by simp
  with s BRuns recorded_inv [OF f] show ?thesis by (auto simp: run_command_def Let_def wait_call_def split: option.split)
next
  case (BSettles n v)
  assume f: "flight_inv b"
  show ?thesis
  proof (cases "n \<in> set (br_forwards b)")
    case False
    have "flight (settle_outcome n x b)" if "x \<noteq> Waits" for x
      using f False that by (auto simp: flight_inv_def flight_def settle_waits)
    with f False BSettles show ?thesis by (cases v) (auto simp: flight_inv_def held_def)
  qed (use f BSettles in simp)
qed (auto simp: drop_inv register_window_inv unregister_inv accept_inv forward_inv recorded_inv push_inv shows_workspace_def upd_inv times_out_def forgets_refusal_def set_records_def split: option.split)

interpretation bridge_flight: invariant_machine "bridge_step e opts" "\<lambda>_ _. True" flight_inv for e opts
  by unfold_locales (rule flight_step)

lemma bridge_flight_run: "flight_inv (foldl (bridge_step e opts) new_bridge evs)"
proof -
  have "bridge_flight.run_ok e opts b evs" for b by (induction evs arbitrary: b) auto
  moreover have "flight_inv new_bridge" by (simp add: flight_inv_def flight_def new_bridge_def out_ids_def)
  ultimately show ?thesis by (rule bridge_flight.run_inv [rotated])
qed

text \<open>After a connection has closed no window is on it, so no forward sent to it waits.\<close>

lemma fail_instances: "br_instances (failPendingFor k c b) = br_instances b"
  by simp

lemma drop_fold_instances:
  "(j, q) \<in> set (br_instances (fold (\<lambda>(k, r) c. if ir_conn r \<noteq> conn then c else failPendingFor k conn (c\<lparr>br_instances := AList.delete k (br_instances c)\<rparr>)) rs b))
     \<Longrightarrow> (j, q) \<in> set (br_instances b) \<and> \<not> ((j, q) \<in> set rs \<and> ir_conn q = conn)"
proof (induction rs arbitrary: b)
  case (Cons p rs)
  obtain k r where p: "p = (k, r)" by (cases p)
  show ?case
  proof (cases "ir_conn r = conn")
    case True
    with Cons.prems Cons.IH [of "failPendingFor k conn (b\<lparr>br_instances := AList.delete k (br_instances b)\<rparr>)"] p
    show ?thesis by (auto simp: AList.delete_eq)
  qed (use Cons p in auto)
qed simp

lemma closed_connection_holds_nothing:
  "\<forall>(k, r) \<in> set (br_instances (drop_connection conn b)). ir_conn r \<noteq> conn"
  unfolding drop_connection_def using drop_fold_instances [of _ _ conn "br_instances b" b] by blast

lemma closed_connection_leaves_nothing:
  assumes "flight_inv b"
  shows "\<forall>(k, w) \<in> set (br_pending (bridge_step e opts b (BCloses conn))). pf_connId w \<noteq> conn"
proof -
  let ?b = "bridge_step e opts b (BCloses conn)"
  have "pf_connId w \<noteq> conn" if "held ?b k w" for k w
    using that closed_connection_holds_nothing [of conn "b\<lparr>br_open := filter (\<lambda>c. c \<noteq> conn) (br_open b)\<rparr>"] map_of_SomeD
    by (fastforce simp: held_def)
  then show ?thesis using flight_step [OF assms, of e opts "BCloses conn"] unfolding flight_inv_def by blast
qed

end
