(* ===== verification/BridgeGuard.thy ===== *)
theory BridgeGuard
  imports BridgeFlight
begin

text \<open>
  What the bridge sends, and to whom; which callers it answers; and how often it takes up a request.
\<close>

subsection \<open>Operations that only take away\<close>

text \<open>A call without an answer waits on an outcome that still waits.\<close>

definition calls_ok :: "bridge \<Rightarrow> bool" where
  "calls_ok b \<longleftrightarrow> (\<forall>c \<in> set (br_calls b). bc_answer c = None \<longrightarrow>
     (\<exists>n. bc_outcome c = Some n \<and> n < length (br_outcomes b) \<and> br_outcomes b ! n = Waits))"

definition takes_away :: "bridge \<Rightarrow> bridge \<Rightarrow> bool" where
  "takes_away b b' \<longleftrightarrow> br_trace b' = br_trace b \<and> br_retries b' = br_retries b \<and> length (br_outcomes b') = length (br_outcomes b)
     \<and> set (br_instances b') \<subseteq> set (br_instances b) \<and> set (br_pending b') \<subseteq> set (br_pending b)
     \<and> map bc_outcome (br_calls b') = map bc_outcome (br_calls b) \<and> (calls_ok b \<longrightarrow> calls_ok b')"

lemma takes_refl [simp]: "takes_away b b"
  by (simp add: takes_away_def)

lemma takes_trans: "takes_away b c \<Longrightarrow> takes_away c d \<Longrightarrow> takes_away b d"
  by (auto simp: takes_away_def)

lemma answer_of_waits: "answer_of v = None \<longleftrightarrow> v = Waits"
  by (cases v) (simp_all add: answer_of_def)

lemma takes_settle: "takes_away b (settle_outcome n v b)"
  by (cases "v = Waits") (auto simp: takes_away_def calls_ok_def settle_outcome_def nth_list_update answer_of_waits split: if_splits)

lemma takes_shrinks:
  "set is \<subseteq> set (br_instances b) \<Longrightarrow> takes_away b (b\<lparr>br_instances := is\<rparr>)"
  "set ps \<subseteq> set (br_pending b) \<Longrightarrow> takes_away b (b\<lparr>br_pending := ps\<rparr>)"
  "takes_away b (b\<lparr>br_open := os\<rparr>)" "takes_away b (b\<lparr>br_sent := n\<rparr>)"
  by (auto simp: takes_away_def calls_ok_def)

lemma takes_fail: "takes_away b (failPendingFor i c b)"
proof -
  have "takes_away b (fold (\<lambda>(k :: string, w). settle_outcome (pf_outcome w) (Rejected (NoLiveTarget True))) ws b)" for ws b
  proof (induction ws arbitrary: b)
    case (Cons p ws)
    show ?case using takes_trans [OF takes_settle Cons.IH] by (cases p) simp
  qed simp
  then have folded: "takes_away c (fold (\<lambda>(k :: string, w). settle_outcome (pf_outcome w) (Rejected (NoLiveTarget True))) ws b)" if "takes_away c b" for c ws b
    using takes_trans [OF that] by blast
  show ?thesis
    unfolding failPendingFor_def Let_def by (rule folded, rule takes_shrinks(2)) auto
qed

lemma takes_remove: "takes_away b (failPendingFor i c (b\<lparr>br_instances := AList.delete i (br_instances b)\<rparr>))"
  by (rule takes_trans [OF takes_shrinks(1) takes_fail]) (auto simp: AList.delete_eq)

lemma takes_drop: "takes_away b (drop_connection conn b)"
proof -
  have "takes_away b (fold (\<lambda>(k, r) c. if ir_conn r \<noteq> conn then c else failPendingFor k conn (c\<lparr>br_instances := AList.delete k (br_instances c)\<rparr>)) rs b)" for rs b
  proof (induction rs arbitrary: b)
    case (Cons p rs)
    show ?case
      using Cons.IH takes_trans [OF takes_remove Cons.IH] by (cases p) auto
  qed simp
  then show ?thesis by (simp add: drop_connection_def)
qed

lemma takes_unregister: "takes_away b (unregister_window conn i b)"
  by (auto simp: unregister_window_def takes_remove split: option.split)

lemma takes_times_out: "takes_away b (times_out n b)"
  by (auto simp: takes_away_def calls_ok_def times_out_def map_update list_update_same_conv split: if_splits dest!: subsetD [OF set_update_subset_insert])

subsection \<open>Isolation\<close>

text \<open>
  A command names a window which the connection it goes to registered under the caller's identity and
  space; a pushed frame goes to such a connection; and an answer is taken from the connection that its
  command went to.
\<close>

definition names_window :: "jsobj \<Rightarrow> string \<Rightarrow> string \<Rightarrow> bool" where
  "names_window fr inst key \<longleftrightarrow> oget fr ''instanceId'' = JStr inst \<and> (case oget fr ''requestId'' of JStr req \<Rightarrow> key = pendingKey inst req | _ \<Rightarrow> False)"

fun isolated :: "bridge_mark list \<Rightarrow> bridge_mark \<Rightarrow> bool" where
  "isolated past (Forwarded c i s key fr) = list_ex (\<lambda>m. case m of Registered c' i' s' inst \<Rightarrow> c' = c \<and> i' = i \<and> s' = s \<and> names_window fr inst key | _ \<Rightarrow> False) past"
| "isolated past (Pushed c i s) = list_ex (\<lambda>m. case m of Registered c' i' s' inst \<Rightarrow> c' = c \<and> i' = i \<and> s' = s | _ \<Rightarrow> False) past"
| "isolated past (Answered c key) = list_ex (\<lambda>m. case m of Forwarded c' i s key' fr \<Rightarrow> c' = c \<and> key' = key | _ \<Rightarrow> False) past"
| "isolated past m = True"

definition known :: "bridge_mark list \<Rightarrow> string \<Rightarrow> instance_record \<Rightarrow> bool" where
  "known tr k r \<longleftrightarrow> ir_instanceId r = k \<and> Registered (ir_conn r) (ir_identityId r) (ir_spaceId r) k \<in> set tr"

definition sent_out :: "bridge_mark list \<Rightarrow> string \<Rightarrow> pending_forward \<Rightarrow> bool" where
  "sent_out tr k w \<longleftrightarrow> (\<exists>i s fr. Forwarded (pf_connId w) i s k fr \<in> set tr)"

definition iso_inv :: "bridge \<Rightarrow> bool" where
  "iso_inv b \<longleftrightarrow> checked isolated [] (br_trace b) \<and> (\<forall>(k, r) \<in> set (br_instances b). known (br_trace b) k r)
     \<and> (\<forall>(k, w) \<in> set (br_pending b). sent_out (br_trace b) k w)"

lemma known_more [simp]: "known tr k r \<Longrightarrow> known (tr @ ms) k r"
  by (simp add: known_def)

lemma sent_out_more [simp]: "sent_out tr k w \<Longrightarrow> sent_out (tr @ ms) k w"
  by (auto simp: sent_out_def)

lemma iso_takes: "iso_inv b \<Longrightarrow> takes_away b b' \<Longrightarrow> iso_inv b'"
  by (auto simp: iso_inv_def takes_away_def)

lemma iso_mark: "iso_inv b \<Longrightarrow> isolated (br_trace b) m \<Longrightarrow> iso_inv (marked m b)"
  by (auto simp: iso_inv_def marked_def)

lemma iso_upd:
  assumes "iso_inv b" "\<And>r. ir_conn (g r) = ir_conn r \<and> ir_identityId (g r) = ir_identityId r \<and> ir_spaceId (g r) = ir_spaceId r \<and> ir_instanceId (g r) = ir_instanceId r"
  shows "iso_inv (upd_instance k g b)"
proof (cases "map_of (br_instances b) k")
  case (Some r)
  have "known (br_trace b) k (g r)" using assms map_of_SomeD [OF Some] by (auto simp: iso_inv_def known_def)
  then show ?thesis
    using assms(1) Some subsetD [OF update_set [of k "g r" "br_instances b"]] by (fastforce simp: iso_inv_def upd_instance_def)
qed (use assms in \<open>simp add: upd_instance_def\<close>)

lemma upd_trace [simp]: "br_trace (upd_instance k g b) = br_trace b" "br_retries (upd_instance k g b) = br_retries b"
  "br_outcomes (upd_instance k g b) = br_outcomes b" "br_calls (upd_instance k g b) = br_calls b" "br_pending (upd_instance k g b) = br_pending b"
  by (simp_all add: upd_instance_def split: option.split)

lemma iso_candidate:
  assumes "iso_inv b" "r \<in> set (bridge_candidates opts now i s b)"
  shows "Registered (ir_conn r) i s (ir_instanceId r) \<in> set (br_trace b)"
  using assms by (auto simp: candidates_instances iso_inv_def known_def)

lemma iso_send:
  assumes "iso_inv b" "isolated (br_trace b) m"
  shows "iso_inv (snd (send_to e conn m b))"
proof -
  let ?b = "b\<lparr>br_sent := br_sent b + 1\<rparr>"
  have b: "iso_inv ?b" using assms(1) takes_shrinks(4) by (rule iso_takes)
  then have m: "iso_inv (marked m ?b)" using assms(2) by (intro iso_mark) simp_all
  have "iso_inv (drop_connection conn ((marked m ?b)\<lparr>br_open := os\<rparr>))" for os
    using m takes_trans [OF takes_shrinks(3) takes_drop] by (rule iso_takes)
  with b m show ?thesis by (simp add: send_to_def Let_def split: send_result.split)
qed

lemma iso_new: "iso_inv b \<Longrightarrow> iso_inv (snd (new_outcome v b))"
  by (simp add: iso_inv_def new_outcome_def)

lemma iso_forward:
  assumes i: "iso_inv b"
  shows "iso_inv (snd (forward e opts now inp req b))"
proof (cases "pick_window opts now (bi_identityId inp) (bi_spaceId inp) (bi_instanceId inp) b")
  case (Inl err)
  with iso_new [OF i] show ?thesis by (simp add: forward_def)
next
  case (Inr t)
  define key where "key = pendingKey (ir_instanceId t) req"
  define m where "m = Forwarded (ir_conn t) (bi_identityId inp) (bi_spaceId inp) key (command_frame inp req (ir_instanceId t))"
  define w where "w = \<lparr>pf_connId = ir_conn t, pf_outcome = length (br_outcomes b), pf_workspace = bi_workspace inp\<rparr>"
  define b2 where "b2 = b\<lparr>br_outcomes := br_outcomes b @ [Waits], br_pending := AList.update key w (br_pending b), br_forwards := br_forwards b @ [length (br_outcomes b)]\<rparr>"
  define fail where "fail = (\<lambda>c. settle_outcome (pf_outcome w) (Rejected (NoLiveTarget False)) (c\<lparr>br_pending := AList.delete key (br_pending c)\<rparr>))"
  have "Registered (ir_conn t) (bi_identityId inp) (bi_spaceId inp) (ir_instanceId t) \<in> set (br_trace b)"
    using i picked_candidate [OF Inr] by (rule iso_candidate)
  then have lawful: "isolated (br_trace b) m"
    unfolding m_def isolated.simps list_ex_iff by (rule bexI [rotated]) (simp add: key_def names_window_def command_frame_def oget_def)
  have fail_iso: "iso_inv (fail c)" if "br_trace c = br_trace b" "br_instances c = br_instances b" "br_pending c = AList.update key w (br_pending b)"
    "map_of (br_pending b) key = None" for c
  proof -
    have "AList.delete key (AList.update key w (br_pending b)) = br_pending b"
      using that(4) by (simp add: delete_update_same delete_id)
    then have "iso_inv (c\<lparr>br_pending := AList.delete key (br_pending c)\<rparr>)" using i that by (simp add: iso_inv_def)
    then show ?thesis unfolding fail_def using takes_settle by (rule iso_takes)
  qed
  show ?thesis
  proof (cases "map_of (br_pending b) key")
    case (Some x)
    with Inr iso_new [OF i] show ?thesis by (simp add: forward_def key_def Let_def)
  next
    case None
    have marked_iso: "iso_inv (marked m (b2\<lparr>br_sent := n\<rparr>))" for n
      using i lawful subsetD [OF update_set [of key w "br_pending b"]]
      by (fastforce simp: iso_inv_def marked_def b2_def sent_out_def m_def w_def)
    have "iso_inv (drop_connection (ir_conn t) ((marked m (b2\<lparr>br_sent := n\<rparr>))\<lparr>br_open := os\<rparr>))" for n os
      using marked_iso takes_trans [OF takes_shrinks(3) takes_drop] by (rule iso_takes)
    moreover have "iso_inv (fail b2)" "iso_inv (fail (b2\<lparr>br_sent := n\<rparr>))" for n by (rule fail_iso; simp add: b2_def None)+
    moreover have "br_open b2 = br_open b" by (simp add: b2_def)
    ultimately show ?thesis
      using Inr None marked_iso unfolding forward_def new_outcome_def Let_def
      by (auto simp: key_def [symmetric] w_def [symmetric] b2_def [symmetric] m_def [symmetric] fail_def send_to_def Let_def split: send_result.split)
        (simp_all add: w_def)
  qed
qed

lemma registered_fields:
  "ir_instanceId (registered_record e now conn ident member x f) = wf_instanceId f" "ir_conn (registered_record e now conn ident member x f) = conn"
  "ir_identityId (registered_record e now conn ident member x f) = ident" "ir_spaceId (registered_record e now conn ident member x f) = wf_spaceId f"
  by (simp_all add: registered_record_def Let_def)

lemma iso_register:
  assumes i: "iso_inv b"
  shows "iso_inv (snd (register_window e opts now conn ident member f b))"
proof -
  let ?k = "wf_instanceId f"
  have "iso_inv (marked (Registered conn ident (wf_spaceId f) ?k) (c\<lparr>br_instances := AList.update ?k rec (br_instances c)\<rparr>))"
    if c: "iso_inv c" and rec: "ir_instanceId rec = ?k" "ir_conn rec = conn" "ir_identityId rec = ident" "ir_spaceId rec = wf_spaceId f" for c rec
    using c rec subsetD [OF update_set [of ?k rec "br_instances c"]] by (fastforce simp: iso_inv_def marked_def known_def)
  then have "iso_inv c \<Longrightarrow> iso_inv (marked (Registered conn ident (wf_spaceId f) ?k) (c\<lparr>br_instances := AList.update ?k (registered_record e now conn ident member x f) (br_instances c)\<rparr>))" for c x
    by (simp add: registered_fields)
  from this [OF i] this [OF iso_takes [OF i takes_fail]] i show ?thesis
    unfolding register_window_def Let_def by (simp split: option.split)
qed

lemma iso_accept:
  assumes i: "iso_inv b"
  shows "iso_inv (snd (acceptResult e now conn inst req result b))"
proof -
  have "iso_inv (settle_outcome n v (marked (Answered conn key) (upd_instance inst (\<lambda>r. r\<lparr>ir_lastSeen := now\<rparr>) (b\<lparr>br_pending := AList.delete key (br_pending b)\<rparr>))))"
    if k: "map_of (br_pending b) key = Some w" "pf_connId w = conn" for key w n v
  proof -
    let ?b = "b\<lparr>br_pending := AList.delete key (br_pending b)\<rparr>"
    have b: "iso_inv (upd_instance inst (\<lambda>r. r\<lparr>ir_lastSeen := now\<rparr>) ?b)"
      using iso_takes [OF i takes_shrinks(2)] by (intro iso_upd) (auto simp: AList.delete_eq)
    have "sent_out (br_trace b) key w" using i map_of_SomeD [OF k(1)] by (auto simp: iso_inv_def)
    then have "isolated (br_trace b) (Answered conn key)" using k(2) by (force simp: sent_out_def list_ex_iff)
    then show ?thesis using iso_mark [OF b] by (intro iso_takes [OF _ takes_settle]) simp
  qed
  with i show ?thesis by (simp add: acceptResult_def Let_def split: option.split)
qed

lemma iso_trace_only:
  "iso_inv (set_records i rs b) = iso_inv b" "iso_inv (wait_call n t b) = iso_inv b" "iso_inv (rejected_call err b) = iso_inv b"
  "iso_inv b \<Longrightarrow> iso_inv (marked (TakenUp i r) b)" "iso_inv b \<Longrightarrow> iso_inv (marked (LetGo i r) b)"
  by (auto simp: iso_inv_def set_records_def wait_call_def rejected_call_def marked_def)

lemma iso_recorded:
  assumes i: "iso_inv b"
  shows "iso_inv (recorded e opts now ident req payload t st b)"
proof -
  have marks: "iso_inv c \<Longrightarrow> iso_inv (fold (\<lambda>k. marked (LetGo ident k)) gone c)" for c gone
    by (induction gone arbitrary: c) (simp_all add: iso_trace_only)
  have start: "iso_inv c \<Longrightarrow> iso_inv (snd (start_call e opts now st req c))" for c
    using iso_forward iso_new by (cases st) (simp_all add: start_call_def)
  obtain n b1 where s: "start_call e opts now st req (marked (TakenUp ident req) (set_records ident (records_of b ident) b)) = (n, b1)" by fastforce
  have "iso_inv b1" using start [of "marked (TakenUp ident req) (set_records ident (records_of b ident) b)"] iso_trace_only(1,4) i s by simp
  then show ?thesis
    using i s by (simp add: recorded_def Let_def iso_trace_only marks split: option.split prod.split)
qed

lemma iso_push_to:
  assumes i: "iso_inv c" and r: "Registered (ir_conn r) ident s k \<in> set (br_trace c)"
  shows "iso_inv (snd (push_to e ident s po r (n, c))) \<and> set (br_trace c) \<subseteq> set (br_trace (snd (push_to e ident s po r (n, c))))"
proof -
  let ?m = "Pushed (ir_conn r) ident s"
  obtain sent c1 where q: "send_to e (ir_conn r) ?m c = (sent, c1)" by fastforce
  have "isolated (br_trace c) ?m" unfolding isolated.simps list_ex_iff by (rule bexI [OF _ r]) simp
  with iso_send [OF i this, of e "ir_conn r"] q have c1: "iso_inv c1" by simp
  moreover have "set (br_trace c) \<subseteq> set (br_trace c1)"
    using q takes_drop [of _ "ir_conn r"] by (force simp: send_to_def Let_def marked_def takes_away_def split: send_result.splits)
  ultimately show ?thesis using q i by (auto simp: push_to_def shows_workspace_def iso_upd split: option.split)
qed

lemma iso_push:
  assumes i: "iso_inv b"
  shows "iso_inv (snd (push_frame e opts now ident s po b))"
proof -
  have "iso_inv (snd nc) \<Longrightarrow> \<forall>r \<in> set rs. Registered (ir_conn r) ident s (ir_instanceId r) \<in> set (br_trace (snd nc))
      \<Longrightarrow> iso_inv (snd (fold (push_to e ident s po) rs nc))" for rs nc
  proof (induction rs arbitrary: nc)
    case (Cons r rs)
    obtain n c where nc: "nc = (n, c)" by (cases nc)
    have "Registered (ir_conn r) ident s (ir_instanceId r) \<in> set (br_trace c)" "iso_inv c" using Cons.prems nc by auto
    with iso_push_to [of c r ident s "ir_instanceId r" e po n] Cons.prems(2) nc show ?case by (auto intro!: Cons.IH)
  qed simp
  from this [of "(0, b)" "bridge_candidates opts now ident s b"] i iso_candidate [OF i] show ?thesis by (simp add: push_frame_def)
qed

lemma iso_step: "iso_inv b \<Longrightarrow> iso_inv (bridge_step e opts b ev)"
proof (cases ev)
  case (BRuns now fresh i)
  assume f: "iso_inv b"
  obtain n b1 where s: "forward e opts now i fresh b = (n, b1)" by fastforce
  have "iso_inv b1" using iso_forward [OF f, of e opts now i fresh] s by simp
  with s BRuns iso_recorded [OF f] show ?thesis by (simp add: run_command_def Let_def iso_trace_only split: option.split)
next
  case (BForgets i r)
  assume "iso_inv b"
  with BForgets show ?thesis by (simp add: forgets_refusal_def iso_trace_only split: option.split)
qed (simp_all add: iso_takes [OF _ takes_shrinks(3)] iso_takes [OF _ takes_trans [OF takes_shrinks(3) takes_drop]] iso_takes [OF _ takes_unregister]
      iso_takes [OF _ takes_settle] iso_takes [OF _ takes_times_out] iso_register iso_accept iso_forward iso_recorded iso_push shows_workspace_def iso_upd)

interpretation bridge_guard: invariant_machine "bridge_step e opts" "\<lambda>_ _. True" iso_inv for e opts
  by unfold_locales (rule iso_step)

lemma bridge_run_ok: "bridge_guard.run_ok e opts b evs"
  by (induction evs arbitrary: b) auto

text \<open>
  C31: A window is reached only by its own identity: in every run of the bridge, every command sent to
  a connection names a window which that connection registered under the identity and space of the
  caller, and is answered under the key of that window and request, every pushed frame to a connection that registered one, and every answer is taken from the
  connection that its command was sent to.
\<close>
theorem windows_are_isolated:
  "checked isolated [] (br_trace (foldl (bridge_step e opts) new_bridge evs))"
proof -
  have "iso_inv new_bridge" by (simp add: iso_inv_def new_bridge_def)
  then have "iso_inv (foldl (bridge_step e opts) new_bridge evs)" by (rule bridge_guard.run_inv [OF _ bridge_run_ok])
  then show ?thesis by (simp add: iso_inv_def)
qed

subsection \<open>Requests and callers\<close>

text \<open>Whether a request id is held, going by the marks.\<close>

definition taken :: "string \<Rightarrow> string \<Rightarrow> bridge_mark list \<Rightarrow> bool" where
  "taken i r tr = fold (\<lambda>m t. case m of TakenUp i' r' \<Rightarrow> t \<or> (i' = i \<and> r' = r) | LetGo i' r' \<Rightarrow> t \<and> \<not> (i' = i \<and> r' = r) | _ \<Rightarrow> t) tr False"

text \<open>A request id is taken up only when it is not held, and let go only when it is.\<close>

fun once_each :: "bridge_mark list \<Rightarrow> bridge_mark \<Rightarrow> bool" where
  "once_each past (TakenUp i r) = (\<not> taken i r past)"
| "once_each past (LetGo i r) = taken i r past"
| "once_each past m = True"

fun request_mark :: "bridge_mark \<Rightarrow> bool" where
  "request_mark (TakenUp i r) = True"
| "request_mark (LetGo i r) = True"
| "request_mark m = False"

definition rec_inv :: "bridge \<Rightarrow> bool" where
  "rec_inv b \<longleftrightarrow> checked once_each [] (br_trace b) \<and> calls_ok b
     \<and> (\<forall>i r. taken i r (br_trace b) \<longleftrightarrow> map_of (records_of b i) r \<noteq> None) \<and> (\<forall>i. distinct (map fst (records_of b i)))
     \<and> (\<forall>i. \<forall>(r, x) \<in> set (records_of b i). rt_outcome x < length (br_outcomes b))"

text \<open>A step that leaves the records alone.\<close>

definition plain :: "bridge \<Rightarrow> bridge \<Rightarrow> bool" where
  "plain b b' \<longleftrightarrow> (\<exists>ms. br_trace b' = br_trace b @ ms \<and> (\<forall>m \<in> set ms. \<not> request_mark m)) \<and> br_retries b' = br_retries b
     \<and> length (br_outcomes b) \<le> length (br_outcomes b') \<and> (calls_ok b \<longrightarrow> calls_ok b')"

lemma plain_refl [simp]: "plain b b"
  by (auto simp: plain_def)

lemma plain_trans: "plain b c \<Longrightarrow> plain c d \<Longrightarrow> plain b d"
  unfolding plain_def by (elim conjE exE, intro conjI) (rule exI [of _ "_ @ _"], auto)

lemma plain_takes: "takes_away b b' \<Longrightarrow> plain b b'"
  by (simp add: takes_away_def plain_def)

lemma plain_mark: "\<not> request_mark m \<Longrightarrow> plain b (marked m b)"
  by (simp add: plain_def marked_def calls_ok_def)

lemma plain_upd: "plain b (upd_instance k g b)"
  by (simp add: plain_def calls_ok_def)

lemma plain_instances: "plain b (b\<lparr>br_instances := is\<rparr>)"
  by (simp add: plain_def calls_ok_def)

lemma plain_outcome: "plain b (b\<lparr>br_outcomes := br_outcomes b @ [v], br_pending := ps, br_forwards := ns\<rparr>)" "plain b (snd (new_outcome v b))"
  by (auto simp: plain_def calls_ok_def new_outcome_def nth_append)

lemma taken_plain: "\<forall>m \<in> set ms. \<not> request_mark m \<Longrightarrow> taken i r (tr @ ms) = taken i r tr"
proof -
  have "\<forall>m \<in> set ms. \<not> request_mark m \<Longrightarrow> fold (\<lambda>m t. case m of TakenUp i' r' \<Rightarrow> t \<or> (i' = i \<and> r' = r) | LetGo i' r' \<Rightarrow> t \<and> \<not> (i' = i \<and> r' = r) | _ \<Rightarrow> t) ms t = t" for t
    by (induction ms arbitrary: t) (auto split: bridge_mark.split)
  then show "\<forall>m \<in> set ms. \<not> request_mark m \<Longrightarrow> taken i r (tr @ ms) = taken i r tr" by (simp add: taken_def)
qed

lemma once_plain: "\<forall>m \<in> set ms. \<not> request_mark m \<Longrightarrow> checked once_each past ms"
proof (induction ms arbitrary: past)
  case (Cons m ms)
  then show ?case by (cases m) auto
qed simp

lemma plain_rec: "rec_inv b \<Longrightarrow> plain b b' \<Longrightarrow> rec_inv b'"
  unfolding rec_inv_def plain_def by (fastforce simp: taken_plain once_plain records_of_def)

lemma plain_send: "\<not> request_mark m \<Longrightarrow> plain b (snd (send_to e conn m b))"
proof -
  assume m: "\<not> request_mark m"
  let ?b = "b\<lparr>br_sent := br_sent b + 1\<rparr>"
  have b: "plain b ?b" by (rule plain_takes [OF takes_shrinks(4)])
  note sent = plain_trans [OF b plain_mark [OF m]]
  have "plain b (drop_connection conn ((marked m ?b)\<lparr>br_open := os\<rparr>))" for os
    by (rule plain_trans [OF sent plain_takes [OF takes_trans [OF takes_shrinks(3) takes_drop]]])
  with b sent show ?thesis by (simp add: send_to_def Let_def split: send_result.split)
qed

lemma plain_forward:
  "plain b (snd (forward e opts now inp req b)) \<and> fst (forward e opts now inp req b) < length (br_outcomes (snd (forward e opts now inp req b)))"
proof (cases "pick_window opts now (bi_identityId inp) (bi_spaceId inp) (bi_instanceId inp) b")
  case (Inl err)
  then show ?thesis using plain_outcome(2) by (simp add: forward_def new_outcome_def)
next
  case (Inr t)
  define key where "key = pendingKey (ir_instanceId t) req"
  define m where "m = Forwarded (ir_conn t) (bi_identityId inp) (bi_spaceId inp) key (command_frame inp req (ir_instanceId t))"
  define b2 where "b2 = b\<lparr>br_outcomes := br_outcomes b @ [Waits], br_pending := AList.update key \<lparr>pf_connId = ir_conn t, pf_outcome = length (br_outcomes b), pf_workspace = bi_workspace inp\<rparr> (br_pending b),
    br_forwards := br_forwards b @ [length (br_outcomes b)]\<rparr>"
  define fail where "fail = (\<lambda>c. settle_outcome (length (br_outcomes b)) (Rejected (NoLiveTarget False)) (c\<lparr>br_pending := AList.delete key (br_pending c)\<rparr>))"
  have b2: "plain b b2" "length (br_outcomes b) < length (br_outcomes b2)" using plain_outcome(1) by (simp_all add: b2_def)
  have fails: "plain b (fail c) \<and> length (br_outcomes b) < length (br_outcomes (fail c))" if "plain b2 c" for c
  proof -
    have "takes_away c (fail c)" unfolding fail_def
      by (rule takes_trans [OF takes_shrinks(2) takes_settle]) (auto simp: AList.delete_eq)
    from plain_trans [OF b2(1) plain_trans [OF that plain_takes [OF this]]] b2(2) that show ?thesis by (simp add: fail_def plain_def)
  qed
  obtain sent b3 where s: "send_to e (ir_conn t) m b2 = (sent, b3)" by fastforce
  have b3: "plain b2 b3" using plain_send [of m b2 e "ir_conn t"] s by (simp add: m_def)
  have "forward e opts now inp req b = (if map_of (br_pending b) key \<noteq> None then new_outcome (Rejected RequestIdReused) b
      else (length (br_outcomes b), if ir_conn t \<notin> set (br_open b2) then fail b2 else if sent then b3 else fail b3))"
    using Inr s by (simp add: forward_def new_outcome_def Let_def fail_def key_def m_def b2_def)
  moreover have "length (br_outcomes b) < length (br_outcomes b3)" using b2(2) b3 by (simp add: plain_def)
  ultimately show ?thesis
    using fails [OF plain_refl] fails [OF b3] plain_trans [OF b2(1) b3] plain_outcome(2) by (auto simp: new_outcome_def)
qed

lemma plain_start:
  "plain b (snd (start_call e opts now st req b)) \<and> fst (start_call e opts now st req b) < length (br_outcomes (snd (start_call e opts now st req b)))"
  using plain_forward plain_outcome(2) by (cases st) (auto simp: start_call_def new_outcome_def)

lemma evicts_prefix: "evict_records cutoff cap n rs = (gone, kept) \<Longrightarrow> \<exists>ds. rs = ds @ kept \<and> gone = map fst ds"
proof (induction cutoff cap n rs arbitrary: gone kept rule: evict_records.induct)
  case (2 cutoff cap n k r rs)
  show ?case
  proof (cases "rt_at r \<ge> cutoff \<and> n \<le> cap")
    case False
    obtain g q where q: "evict_records cutoff cap (n - 1) rs = (g, q)" by fastforce
    from 2(1) [OF False q] obtain ds where "rs = ds @ q" "g = map fst ds" by blast
    with 2(2) False q show ?thesis by (intro exI [of _ "(k, r) # ds"]) auto
  qed (use 2 in simp)
qed simp

lemma taken_marks [simp]:
  "taken i r (tr @ [TakenUp i' r']) \<longleftrightarrow> taken i r tr \<or> (i' = i \<and> r' = r)" "taken i r (tr @ [LetGo i' r']) \<longleftrightarrow> taken i r tr \<and> \<not> (i' = i \<and> r' = r)"
  by (simp_all add: taken_def)

lemma rec_lets_go:
  assumes "checked once_each [] tr" "distinct gone" "\<forall>k \<in> set gone. taken i k tr"
  shows "checked once_each [] (tr @ map (LetGo i) gone)" "taken j r (tr @ map (LetGo i) gone) \<longleftrightarrow> taken j r tr \<and> \<not> (j = i \<and> r \<in> set gone)"
proof -
  have "checked once_each [] (tr @ map (LetGo i) gone) \<and> (\<forall>j r. taken j r (tr @ map (LetGo i) gone) \<longleftrightarrow> taken j r tr \<and> \<not> (j = i \<and> r \<in> set gone))"
    using assms
  proof (induction gone rule: rev_induct)
    case (snoc k gone)
    then have i: "checked once_each [] (tr @ map (LetGo i) gone)" "\<And>j r. taken j r (tr @ map (LetGo i) gone) \<longleftrightarrow> taken j r tr \<and> \<not> (j = i \<and> r \<in> set gone)" by auto
    have "taken i k (tr @ map (LetGo i) gone)" using snoc.prems i(2) by auto
    then have "checked once_each [] ((tr @ map (LetGo i) gone) @ [LetGo i k])" using i(1) by simp
    moreover have "taken j r ((tr @ map (LetGo i) gone) @ [LetGo i k]) \<longleftrightarrow> taken j r tr \<and> \<not> (j = i \<and> r \<in> set (gone @ [k]))" for j r
      unfolding taken_marks i(2) by auto
    ultimately show ?case by simp
  qed simp
  then show "checked once_each [] (tr @ map (LetGo i) gone)" "taken j r (tr @ map (LetGo i) gone) \<longleftrightarrow> taken j r tr \<and> \<not> (j = i \<and> r \<in> set gone)" by blast+
qed

lemma records_set [simp]: "records_of (set_records i rs b) j = (if j = i then rs else records_of b j)"
  by (simp add: records_of_def set_records_def Prelude.map_of_update)

lemma records_trace [simp]: "records_of (b\<lparr>br_trace := tr\<rparr>) j = records_of b j" "records_of (marked m b) j = records_of b j"
  by (simp_all add: records_of_def marked_def)

lemma set_records_rest [simp]: "br_trace (set_records i rs b) = br_trace b" "br_outcomes (set_records i rs b) = br_outcomes b" "br_calls (set_records i rs b) = br_calls b"
  by (simp_all add: set_records_def)

lemma fold_marks: "fold (\<lambda>k. marked (LetGo i k)) gone b = b\<lparr>br_trace := br_trace b @ map (LetGo i) gone\<rparr>"
  by (induction gone arbitrary: b) (simp_all add: marked_def)

lemma calls_wait: "calls_ok b \<Longrightarrow> n < length (br_outcomes b) \<Longrightarrow> calls_ok (wait_call n t b)"
  by (auto simp: calls_ok_def wait_call_def answer_of_waits)

lemma calls_rejected: "calls_ok b \<Longrightarrow> calls_ok (rejected_call err b)"
  by (auto simp: calls_ok_def rejected_call_def)

lemma calls_same [simp]: "calls_ok (set_records i rs b) = calls_ok b" "calls_ok (b\<lparr>br_trace := tr\<rparr>) = calls_ok b" "calls_ok (marked m b) = calls_ok b"
  by (simp_all add: calls_ok_def marked_def)

lemma rec_of_call:
  "rec_inv b \<Longrightarrow> n < length (br_outcomes b) \<Longrightarrow> rec_inv (wait_call n t b)" "rec_inv b \<Longrightarrow> rec_inv (rejected_call err b)"
  using calls_wait [of b n t] calls_rejected [of b err] by (auto simp: rec_inv_def wait_call_def rejected_call_def records_of_def)

lemma rec_set_same: "rec_inv b \<Longrightarrow> rec_inv (set_records i (records_of b i) b)"
  by (simp add: rec_inv_def)

text \<open>Writing a record: the id is taken up, and whatever is evicted is let go.\<close>

lemma rec_written:
  assumes i: "rec_inv b" and fresh: "map_of (records_of b ident) req = None" and p: "plain (marked (TakenUp ident req) b) b1"
    and n: "rt_outcome x < length (br_outcomes b1)" and ds: "AList.update req x (records_of b1 ident) = ds @ kept"
  shows "rec_inv (fold (\<lambda>k. marked (LetGo ident k)) (map fst ds) (set_records ident kept b1))"
proof -
  obtain ms where ms: "br_trace b1 = (br_trace b @ [TakenUp ident req]) @ ms" "\<forall>m \<in> set ms. \<not> request_mark m"
    using p by (auto simp: plain_def marked_def)
  have same: "records_of b1 j = records_of b j" for j using p by (simp add: plain_def records_of_def marked_def)
  have recs: "records_of b ident @ [(req, x)] = ds @ kept" using ds fresh by (simp add: same alist_update_absent)
  have dist: "distinct (map fst (ds @ kept))" unfolding recs [symmetric] using i fresh by (auto simp: rec_inv_def map_of_eq_None_iff)
  have held: "taken j r (br_trace b) \<longleftrightarrow> r \<in> fst ` set (records_of b j)" for j r
    using i by (simp add: rec_inv_def map_of_eq_None_iff)
  have now: "taken j r (br_trace b1) \<longleftrightarrow> r \<in> fst ` set (records_of b j) \<or> (j = ident \<and> r = req)" for j r
    unfolding ms(1) taken_plain [OF ms(2)] taken_marks held by auto
  have keys: "fst ` set (ds @ kept) = insert req (fst ` set (records_of b ident))" unfolding recs [symmetric] by auto
  have "checked once_each [] (br_trace b @ [TakenUp ident req])" using i fresh held [of ident req] by (auto simp: rec_inv_def map_of_eq_None_iff)
  then have "checked once_each [] (br_trace b1)" unfolding ms(1) using once_plain [OF ms(2)] by simp
  moreover have "distinct (map fst ds)" using dist by simp
  moreover have "\<forall>k \<in> set (map fst ds). taken ident k (br_trace b1)" using keys by (auto simp: now)
  ultimately have lets: "checked once_each [] (br_trace b1 @ map (LetGo ident) (map fst ds))"
      "taken j r (br_trace b1 @ map (LetGo ident) (map fst ds)) \<longleftrightarrow> taken j r (br_trace b1) \<and> \<not> (j = ident \<and> r \<in> set (map fst ds))" for j r
    using rec_lets_go by blast+
  have "map_of kept r \<noteq> None \<longleftrightarrow> (r \<in> fst ` set (records_of b ident) \<or> r = req) \<and> r \<notin> set (map fst ds)" for r
  proof -
    have "map_of kept r \<noteq> None \<longleftrightarrow> r \<in> fst ` set (ds @ kept) \<and> r \<notin> set (map fst ds)"
      using dist by (auto simp: map_of_eq_None_iff)
    then show ?thesis unfolding keys by auto
  qed
  moreover have "calls_ok b1" using i p by (simp add: plain_def rec_inv_def)
  moreover have "rt_outcome y < length (br_outcomes b1)" if "(r, y) \<in> set (records_of b j)" for j r y
    using that i p by (fastforce simp: rec_inv_def plain_def marked_def)
  moreover have "set kept \<subseteq> insert (req, x) (set (records_of b ident))"
    using arg_cong [OF recs, of set] by auto
  ultimately show ?thesis
    using i dist lets n unfolding rec_inv_def fold_marks
    by (auto simp: now same map_of_eq_None_iff)
qed

lemma rec_recorded:
  assumes i: "rec_inv b"
  shows "rec_inv (recorded e opts now ident req payload t st b)"
proof (cases "map_of (records_of b ident) req")
  case (Some prior)
  have "rt_outcome prior < length (br_outcomes b)" using i map_of_SomeD [OF Some] by (fastforce simp: rec_inv_def)
  with Some i show ?thesis by (simp add: recorded_def Let_def rec_of_call rec_set_same)
next
  case None
  let ?b = "set_records ident (records_of b ident) b"
  obtain n b1 where s: "start_call e opts now st req (marked (TakenUp ident req) ?b) = (n, b1)" by fastforce
  define x where "x = \<lparr>rt_hash = be_hash e (stable payload), rt_at = now, rt_outcome = n\<rparr>"
  obtain gone kept where ev: "evict_records (now - bo_retryTtlMs opts) (bo_retryCap opts) (length (AList.update req x (records_of b1 ident))) (AList.update req x (records_of b1 ident)) = (gone, kept)"
    by fastforce
  from evicts_prefix [OF ev] obtain ds where ds: "AList.update req x (records_of b1 ident) = ds @ kept" "gone = map fst ds" by blast
  have p: "plain (marked (TakenUp ident req) ?b) b1" "n < length (br_outcomes b1)" using plain_start [of "marked (TakenUp ident req) ?b" e opts now st req] s by simp_all
  have "rec_inv (fold (\<lambda>k. marked (LetGo ident k)) (map fst ds) (set_records ident kept b1))"
    by (rule rec_written [OF rec_set_same [OF i] _ p(1) _ ds(1)]) (use None p(2) in \<open>simp_all add: x_def\<close>)
  moreover have "n < length (br_outcomes (fold (\<lambda>k. marked (LetGo ident k)) (map fst ds) (set_records ident kept b1)))"
    using p(2) by (simp add: fold_marks)
  ultimately show ?thesis using None s ev ds(2) by (simp add: recorded_def Let_def x_def [symmetric] rec_of_call)
qed

lemma rec_forgets:
  assumes i: "rec_inv b"
  shows "rec_inv (forgets_refusal ident req b)"
proof -
  have "rec_inv (marked (LetGo ident req) (set_records ident (AList.delete req (records_of b ident)) b))" if "map_of (records_of b ident) req \<noteq> None"
    using i that distinct_delete [of "records_of b ident" req] unfolding rec_inv_def
    by (auto simp: marked_def delete_conv' AList.delete_eq map_of_eq_None_iff)
  with i show ?thesis by (simp add: forgets_refusal_def split: option.split)
qed

lemma plain_push: "plain b (snd (push_frame e opts now ident s po b))"
proof -
  have one: "plain c (snd (push_to e ident s po r (n, c)))" for r n c
  proof -
    obtain sent c1 where q: "send_to e (ir_conn r) (Pushed (ir_conn r) ident s) c = (sent, c1)" by fastforce
    have "plain c c1" using plain_send [of "Pushed (ir_conn r) ident s" c e "ir_conn r"] q by simp
    with q plain_trans [OF this plain_upd] show ?thesis by (simp add: push_to_def shows_workspace_def split: option.split)
  qed
  have "plain (snd nc) (snd (fold (push_to e ident s po) rs nc))" for rs nc
  proof (induction rs arbitrary: nc)
    case (Cons r rs)
    show ?case using plain_trans [OF one Cons.IH] by (cases nc) simp
  qed simp
  from this [of "(0, b)"] show ?thesis by (simp add: push_frame_def)
qed

lemma plain_register: "plain b (snd (register_window e opts now conn ident member f b))"
proof -
  have "plain c (marked (Registered conn ident s k) (c\<lparr>br_instances := is\<rparr>))" for c s k "is"
    by (rule plain_trans [OF plain_instances plain_mark]) simp
  from this plain_trans [OF plain_takes [OF takes_fail] this] show ?thesis
    unfolding register_window_def Let_def by (simp split: option.split)
qed

lemma plain_accept: "plain b (snd (acceptResult e now conn inst req result b))"
proof -
  have "plain b (settle_outcome n v (marked (Answered conn key) (upd_instance inst g (b\<lparr>br_pending := AList.delete key (br_pending b)\<rparr>))))" for n v key g
  proof -
    have "plain b (b\<lparr>br_pending := AList.delete key (br_pending b)\<rparr>)" by (intro plain_takes takes_shrinks(2)) (auto simp: AList.delete_eq)
    then show ?thesis by (rule plain_trans [OF plain_trans [OF plain_trans [OF _ plain_upd] plain_mark] plain_takes [OF takes_settle]]) simp
  qed
  then show ?thesis by (simp add: acceptResult_def Let_def split: option.split)
qed

lemma rec_step: "rec_inv b \<Longrightarrow> rec_inv (bridge_step e opts b ev)"
proof (cases ev)
  case (BRuns now fresh i)
  assume f: "rec_inv b"
  obtain n b1 where s: "forward e opts now i fresh b = (n, b1)" by fastforce
  have "rec_inv b1 \<and> n < length (br_outcomes b1)" using plain_rec [OF f conjunct1 [OF plain_forward]] plain_forward [of b e opts now i fresh] s by (metis fst_conv snd_conv)
  with s BRuns rec_recorded [OF f] show ?thesis by (simp add: run_command_def Let_def rec_of_call split: option.split)
qed (simp_all add: plain_rec [OF _ plain_takes [OF takes_shrinks(3)]] plain_rec [OF _ plain_takes [OF takes_trans [OF takes_shrinks(3) takes_drop]]]
      plain_rec [OF _ plain_takes [OF takes_unregister]] plain_rec [OF _ plain_takes [OF takes_settle]] plain_rec [OF _ plain_takes [OF takes_times_out]]
      plain_rec [OF _ plain_register] plain_rec [OF _ plain_accept] plain_rec [OF _ conjunct1 [OF plain_forward]] plain_rec [OF _ plain_push]
      plain_rec [OF _ plain_upd] rec_recorded rec_forgets shows_workspace_def)

interpretation bridge_requests: invariant_machine "bridge_step e opts" "\<lambda>_ _. True" rec_inv for e opts
  by unfold_locales (rule rec_step)

lemma bridge_rec_run: "rec_inv (foldl (bridge_step e opts) new_bridge evs)"
proof -
  have "rec_inv new_bridge" by (simp add: rec_inv_def new_bridge_def calls_ok_def taken_def records_of_def)
  then show ?thesis by (rule bridge_requests.run_inv [OF _ bridge_run_ok])
qed


lemma settled_call_is_answered:
  assumes "calls_ok b'" "bc_outcome (br_calls b' ! k) = Some n" "k < length (br_calls b')" "br_outcomes b' ! n \<noteq> Waits"
  shows "bc_answer (br_calls b' ! k) \<noteq> None"
  using assms nth_mem [OF assms(3)] by (fastforce simp: calls_ok_def)

lemma call_outcomes:
  assumes "map bc_outcome (br_calls b') = map bc_outcome (br_calls b)" "k < length (br_calls b)"
  shows "k < length (br_calls b') \<and> bc_outcome (br_calls b' ! k) = bc_outcome (br_calls b ! k)"
  using assms map_eq_imp_length_eq [OF assms(1)] by (metis nth_map)

lemma answer_takes:
  "map bc_outcome (br_calls (snd (acceptResult e now conn inst req result b))) = map bc_outcome (br_calls b)"
  using takes_settle by (auto simp: acceptResult_def Let_def takes_away_def marked_def split: option.split)

lemma answer_pending:
  assumes "map_of (br_instances b) inst = Some r" "ir_conn r = pf_connId w" "map_of (br_pending b) (pendingKey inst req) = Some w"
  shows "br_pending (snd (acceptResult e now (pf_connId w) inst req result b)) = AList.delete (pendingKey inst req) (br_pending b)"
    "br_forwards (snd (acceptResult e now (pf_connId w) inst req result b)) = br_forwards b"
  using assms by (simp_all add: acceptResult_def Let_def marked_def upd_instance_def)

lemma same_outcome_same_forward:
  "flight b \<Longrightarrow> (k, w) \<in> set (br_pending b) \<Longrightarrow> (k', w') \<in> set (br_pending b) \<Longrightarrow> pf_outcome w' = pf_outcome w \<Longrightarrow> (k', w') = (k, w)"
  by (auto simp: flight_def out_ids_def distinct_map dest: inj_onD [of _ _ "(k', w')" "(k, w)"])

lemma drop_forwards: "br_forwards (drop_connection conn b) = br_forwards b"
proof -
  have "br_forwards (fold (\<lambda>(k, r) c. if ir_conn r \<noteq> conn then c else failPendingFor k conn (c\<lparr>br_instances := AList.delete k (br_instances c)\<rparr>)) rs b) = br_forwards b" for rs b
    by (induction rs arbitrary: b) auto
  then show ?thesis by (simp add: drop_connection_def)
qed

lemma waiting_forward:
  assumes f: "flight_inv b" and n: "n \<in> set (br_forwards b)" "br_outcomes b ! n = Waits"
  obtains inst req r w where "map_of (br_pending b) (pendingKey inst req) = Some w" "pf_outcome w = n"
    "map_of (br_instances b) inst = Some r" "ir_conn r = pf_connId w"
proof -
  have fl: "flight b" using f by (simp add: flight_inv_def)
  then have "n \<in> set (out_ids (br_pending b))" using n by (simp add: flight_def)
  then obtain key w where w: "(key, w) \<in> set (br_pending b)" "pf_outcome w = n" by (auto simp: out_ids_def)
  then have "held b key w" using f by (auto simp: flight_inv_def)
  then obtain inst req r where h: "key = pendingKey inst req" "map_of (br_instances b) inst = Some r" "ir_conn r = pf_connId w" by (auto simp: held_def)
  have "map_of (br_pending b) (pendingKey inst req) = Some w" using w(1) fl h(1) by (simp add: flight_def)
  from this w(2) h(2,3) show ?thesis by (rule that)
qed

text \<open>A step that takes a forward out of flight answers every caller that waited for it.\<close>

lemma out_of_flight_answers:
  assumes "flight b" "flight b'" "calls_ok b'" "br_forwards b' = br_forwards b" "map bc_outcome (br_calls b') = map bc_outcome (br_calls b)"
    and w: "map_of (br_pending b) key = Some w" "pf_outcome w \<in> set (br_forwards b)"
    and gone: "\<forall>(k', w') \<in> set (br_pending b'). (k', w') \<in> set (br_pending b) \<and> (k', w') \<noteq> (key, w)"
    and k: "k < length (br_calls b)" "bc_outcome (br_calls b ! k) = Some (pf_outcome w)"
  shows "bc_answer (br_calls b' ! k) \<noteq> None"
proof (rule settled_call_is_answered)
  have "pf_outcome w \<notin> set (out_ids (br_pending b'))"
    using gone same_outcome_same_forward [OF assms(1) map_of_SomeD [OF w(1)]] by (fastforce simp: out_ids_def)
  then show "br_outcomes b' ! pf_outcome w \<noteq> Waits" using assms(2,4) w(2) by (simp add: flight_def)
qed (use assms(3) call_outcomes [OF assms(5) k(1)] k(2) in simp_all)

text \<open>
  C32: No caller is left hanging: in every reachable state a caller that waits for a forwarded command
  waits for a window which the very connection that the command was sent to still holds; the next
  answer of that window, whatever it says, answers the caller, and so does the end of the connection.
\<close>
theorem waiting_callers_are_answered:
  assumes "b = foldl (bridge_step e opts) new_bridge evs" "k < length (br_calls b)" "bc_answer (br_calls b ! k) = None"
    "bc_outcome (br_calls b ! k) = Some n" "n \<in> set (br_forwards b)"
  shows "\<exists>inst req conn. (\<exists>r. map_of (br_instances b) inst = Some r \<and> ir_conn r = conn)
     \<and> (\<forall>now result. bc_answer (br_calls (bridge_step e opts b (BAnswers now conn inst req result)) ! k) \<noteq> None)
     \<and> bc_answer (br_calls (bridge_step e opts b (BCloses conn)) ! k) \<noteq> None"
proof -
  have f: "flight_inv b" and c: "calls_ok b" using bridge_flight_run bridge_rec_run assms(1) by (simp_all add: rec_inv_def)
  then have "flight b" by (simp add: flight_inv_def)
  have waits: "br_outcomes b ! n = Waits" using c nth_mem [OF assms(2)] assms(3,4) by (fastforce simp: calls_ok_def)
  obtain inst req r w where w: "map_of (br_pending b) (pendingKey inst req) = Some w" "pf_outcome w = n"
      and h: "map_of (br_instances b) inst = Some r" "ir_conn r = pf_connId w"
    by (rule waiting_forward [OF f assms(5) waits])
  have answers: "bc_answer (br_calls b' ! k) \<noteq> None"
    if "b' = bridge_step e opts b ev" "calls_ok b'" "br_forwards b' = br_forwards b" "map bc_outcome (br_calls b') = map bc_outcome (br_calls b)"
      "\<forall>(k', w') \<in> set (br_pending b'). (k', w') \<in> set (br_pending b) \<and> (k', w') \<noteq> (pendingKey inst req, w)" for b' ev
    using that flight_step [OF f, of e opts ev] assms(2,4,5) w
    by (intro out_of_flight_answers [OF \<open>flight b\<close> _ that(2,3,4) w(1) _ that(5)]) (simp_all add: flight_inv_def)
  have "bc_answer (br_calls (bridge_step e opts b (BAnswers now (pf_connId w) inst req result)) ! k) \<noteq> None" for now result
    by (rule answers [OF refl]) (use c plain_accept answer_takes answer_pending [OF h w(1)] in \<open>auto simp: plain_def AList.delete_eq\<close>)
  moreover have t: "takes_away b (bridge_step e opts b (BCloses (pf_connId w)))" by (simp add: takes_trans [OF takes_shrinks(3) takes_drop])
  have "bc_answer (br_calls (bridge_step e opts b (BCloses (pf_connId w))) ! k) \<noteq> None"
    by (rule answers [OF refl]) (use c t closed_connection_leaves_nothing [OF f, of e opts "pf_connId w"] in \<open>fastforce simp: takes_away_def drop_forwards\<close>)+
  ultimately show ?thesis using h by blast
qed

definition shown_window :: window_frame where
  "shown_window = \<lparr>wf_spaceId = ''s'', wf_instanceId = ''w'', wf_windowId = ''w'', wf_focused = True, wf_visible = True, wf_view = ''split'', wf_mounted = True,
     wf_revision = 1, wf_lastFocusedAt = None, wf_caps = None, wf_workspaceId = None\<rparr>"

definition open_files :: run_input where
  "open_files = \<lparr>bi_identityId = ''i'', bi_spaceId = ''s'', bi_requestId = Some ''r'', bi_instanceId = None, bi_command = ''open'', bi_args = JUndef,
     bi_expectedRevision = None, bi_timeoutMs = None, bi_actorClass = ActorAgent, bi_actorName = None, bi_workspace = None\<rparr>"

definition plain_env :: bridge_env where
  "plain_env = \<lparr>be_hash = (\<lambda>v. []), be_parse = (\<lambda>v. None), be_dateParse = (\<lambda>t. None), be_sends = (\<lambda>n. Taken)\<rparr>"

definition asked_bridge :: bridge where
  "asked_bridge = foldl (bridge_step plain_env default_bridge_opts) new_bridge
     [BOpens ''c'', BRegisters 0 ''c'' ''i'' ''m'' shown_window, BRuns 5 ''f'' open_files]"

lemma asked_bridge_waits:
  "length (br_calls asked_bridge) = 1" "bc_answer (br_calls asked_bridge ! 0) = None" "bc_outcome (br_calls asked_bridge ! 0) = Some 0" "br_forwards asked_bridge = [0]"
  by code_simp+

theorem waiting_callers_are_answered_witness:
  "\<exists>inst req conn. (\<exists>r. map_of (br_instances asked_bridge) inst = Some r \<and> ir_conn r = conn)
     \<and> (\<forall>now result. bc_answer (br_calls (bridge_step plain_env default_bridge_opts asked_bridge (BAnswers now conn inst req result)) ! 0) \<noteq> None)
     \<and> bc_answer (br_calls (bridge_step plain_env default_bridge_opts asked_bridge (BCloses conn)) ! 0) \<noteq> None"
  by (rule waiting_callers_are_answered [OF asked_bridge_def]) (simp_all add: asked_bridge_waits)

text \<open>
  A window that registers after its connection has closed, say because the registration waited for the
  authorizer, is on the books and counts toward the cap of its identity, though it can never be shown.
\<close>

lemma registers_after_close:
  assumes "map_of (br_instances b) (wf_instanceId f) = None" "countFor ident b < bo_instanceCap opts" "conn \<notin> set (br_open b)"
  shows "\<exists>r. map_of (br_instances (bridge_step e opts b (BRegisters now conn ident member f))) (wf_instanceId f) = Some r \<and> ir_identityId r = ident
     \<and> r \<notin> set (bridge_candidates opts' now' i s (bridge_step e opts b (BRegisters now conn ident member f)))"
  using assms by (auto simp: register_window_def Let_def registered_fields marked_def candidates_instances)

end
