(* ===== verification/HomeRows.thy ===== *)
theory HomeRows
  imports WsStored Bridge JsText "HOL-Library.Product_Lexorder"
begin

text \<open>
  The tables of stored workspaces and the functions that write them (\<open>db/migrations/321_craft_workspaces.sql\<close>,
  with \<open>311\<close>, \<open>312\<close>), for one identity in one space: every function is keyed by them, and the row policies
  show nobody else's rows. A function that raises leaves the tables as they were. The transaction's time,
  the ids it makes and the sizes of its values are given; the lock that orders inserts is the
  transaction's own. A state is kept as the record its JSON was made of. Rows scoped to a craft are
  another feature's, and not here.
\<close>

subsection \<open>The tables\<close>

record ws_row =
  wr_id :: string
  wr_name :: string
  wr_color :: "string option"
  wr_position :: nat
  wr_state :: wstate
  wr_revision :: nat
  wr_createdAt :: int
  wr_createdByActor :: "string option"
  wr_createdByClass :: actor_class
  wr_lastActiveAt :: "int option"
  wr_lastAgentChangeAt :: "int option"
  wr_lastAgentActor :: "string option"

record draft_field =
  df_v :: jsval
  df_r :: nat

record draft_row =
  dr_kind :: string
  dr_fields :: "(string \<times> draft_field) list"
  dr_revision :: nat

record home_store =
  hs_rows :: "ws_row list"
  hs_active :: "(string \<times> nat) option"
  hs_drafts :: "((string \<times> string) \<times> draft_row) list"

definition empty_home :: home_store where
  "empty_home = \<lparr>hs_rows = [], hs_active = None, hs_drafts = []\<rparr>"

datatype sql_error = SqlState string

text \<open>What a transaction is given: whether the caller is a member, who acts, its time, its ids, the sizes.\<close>

record sql_env =
  qe_member :: bool
  qe_actor :: "string option"
  qe_now :: int
  qe_fresh :: "nat \<Rightarrow> string"
  qe_stateSize :: "wstate \<Rightarrow> nat"
  qe_fieldsSize :: "(string \<times> draft_field) list \<Rightarrow> nat"

definition WORKSPACES_PER_IDENTITY_CAP :: nat where "WORKSPACES_PER_IDENTITY_CAP = 20"
definition WORKSPACE_DEFAULT_NAME :: string where "WORKSPACE_DEFAULT_NAME = ''Main''"

definition WORKSPACE_COLORS :: "string list" where
  "WORKSPACE_COLORS = [''gray'', ''red'', ''orange'', ''yellow'', ''green'', ''teal'', ''blue'', ''purple'', ''pink'']"

definition color_ok :: "string option \<Rightarrow> bool" where
  "color_ok c = (case c of None \<Rightarrow> True | Some x \<Rightarrow> x \<in> set WORKSPACE_COLORS)"

definition lower :: "string \<Rightarrow> string" where
  "lower s = map lower_char s"

subsection \<open>Reading\<close>

text \<open>\<open>order by position, created_at, workspace_id\<close>\<close>

definition list_order :: "home_store \<Rightarrow> ws_row list" where
  "list_order s = sort_key (\<lambda>r. (wr_position r, wr_createdAt r, wr_id r)) (hs_rows s)"

definition row_at :: "home_store \<Rightarrow> string \<Rightarrow> ws_row option" where
  "row_at s i = find (\<lambda>r. wr_id r = i) (hs_rows s)"

definition ordered_ids :: "home_store \<Rightarrow> string list" where
  "ordered_ids s = map wr_id (list_order s)"

definition name_used :: "home_store \<Rightarrow> string \<Rightarrow> bool" where
  "name_used s n \<longleftrightarrow> n \<in> set (map (lower \<circ> wr_name) (hs_rows s))"

subsection \<open>Shared steps\<close>

text \<open>A lost pointer goes to the first workspace in list order.\<close>

definition repair_pointer :: "home_store \<Rightarrow> home_store" where
  "repair_pointer s = (case hs_active s of Some p \<Rightarrow> s
     | None \<Rightarrow> (case list_order s of [] \<Rightarrow> s | r # rs \<Rightarrow> s\<lparr>hs_active := Some (wr_id r, 1)\<rparr>))"

definition workspaces_list_bump :: "home_store \<Rightarrow> home_store" where
  "workspaces_list_bump s = (let s1 = repair_pointer s in s1\<lparr>hs_active := map_option (\<lambda>(i, n). (i, Suc n)) (hs_active s1)\<rparr>)"

definition placed_ids :: "string list \<Rightarrow> string option \<Rightarrow> string option \<Rightarrow> string list" where
  "placed_ids ids moving before_id = (case moving of None \<Rightarrow> ids
     | Some m \<Rightarrow> (case before_id of None \<Rightarrow> ids @ [m]
         | Some b \<Rightarrow> (case index_of ids b of None \<Rightarrow> ids @ [m] | Some i \<Rightarrow> take i ids @ [m] @ drop i ids)))"

definition set_positions :: "string list \<Rightarrow> ws_row list \<Rightarrow> ws_row list" where
  "set_positions ids = map (\<lambda>r. case index_of ids (wr_id r) of None \<Rightarrow> r | Some i \<Rightarrow> r\<lparr>wr_position := i\<rparr>)"

definition workspaces_place :: "string option \<Rightarrow> string option \<Rightarrow> home_store \<Rightarrow> home_store" where
  "workspaces_place moving before_id s =
     (let ids = filter (\<lambda>i. Some i \<noteq> moving) (ordered_ids s)
      in s\<lparr>hs_rows := set_positions (placed_ids ids moving before_id) (hs_rows s)\<rparr>)"

text \<open>Trimmed, 1 to 64 characters, no control character.\<close>

definition workspace_name_ok :: "string \<Rightarrow> bool" where
  "workspace_name_ok n \<longleftrightarrow> n \<noteq> [] \<and> length n \<le> 64 \<and> hd n \<noteq> CHR '' '' \<and> List.last n \<noteq> CHR '' ''
     \<and> list_all (\<lambda>c. of_char c \<ge> (32 :: nat) \<and> of_char c \<noteq> (127 :: nat)) n"

definition upd_rows :: "(string \<Rightarrow> bool) \<Rightarrow> (ws_row \<Rightarrow> ws_row) \<Rightarrow> home_store \<Rightarrow> home_store" where
  "upd_rows P g s = s\<lparr>hs_rows := map (\<lambda>r. if P (wr_id r) then g r else r) (hs_rows s)\<rparr>"

definition workspace_owned :: "sql_env \<Rightarrow> string \<Rightarrow> home_store \<Rightarrow> bool" where
  "workspace_owned q i s \<longleftrightarrow> qe_member q \<and> row_at s i \<noteq> None"

subsection \<open>Writing a state and a draft\<close>

definition first_row :: "sql_env \<Rightarrow> wstate \<Rightarrow> nat \<Rightarrow> string option \<Rightarrow> ws_row" where
  "first_row q st n agent = \<lparr>wr_id = qe_fresh q 0, wr_name = WORKSPACE_DEFAULT_NAME, wr_color = None, wr_position = 0, wr_state = st, wr_revision = n,
     wr_createdAt = qe_now q, wr_createdByActor = (case agent of None \<Rightarrow> qe_actor q | Some a \<Rightarrow> Some a),
     wr_createdByClass = (case agent of None \<Rightarrow> ActorHuman | Some a \<Rightarrow> ActorAgent), wr_lastActiveAt = Some (qe_now q),
     wr_lastAgentChangeAt = (case agent of None \<Rightarrow> None | Some a \<Rightarrow> Some (qe_now q)), wr_lastAgentActor = agent\<rparr>"

definition saved_row :: "sql_env \<Rightarrow> wstate \<Rightarrow> nat \<Rightarrow> string option \<Rightarrow> ws_row \<Rightarrow> ws_row" where
  "saved_row q st n agent r = r\<lparr>wr_state := st, wr_revision := n,
     wr_lastAgentChangeAt := (case agent of None \<Rightarrow> wr_lastAgentChangeAt r | Some a \<Rightarrow> Some (qe_now q)),
     wr_lastAgentActor := (case agent of None \<Rightarrow> wr_lastAgentActor r | Some a \<Rightarrow> Some a)\<rparr>"

definition workspace_save :: "sql_env \<Rightarrow> string option \<Rightarrow> nat \<Rightarrow> nat \<Rightarrow> wstate \<Rightarrow> string option \<Rightarrow> home_store \<Rightarrow> sql_error + string \<times> home_store" where
  "workspace_save q i expected nxt st agent s =
     (if \<not> qe_member q then Inl (SqlState ''42501'')
      else if qe_stateSize q st > 131072 then Inl (SqlState ''54000'')
      else if nxt \<le> expected then Inl (SqlState ''22023'')
      else (case i of
          None \<Rightarrow>
            if expected \<noteq> 0 then Inl (SqlState ''22023'')
            else if hs_rows s \<noteq> [] then Inl (SqlState ''40001'')
            else if hs_active s \<noteq> None then Inl (SqlState ''23505'')
            else Inr (qe_fresh q 0, s\<lparr>hs_rows := [first_row q st nxt agent], hs_active := Some (qe_fresh q 0, 1)\<rparr>)
        | Some w \<Rightarrow> (case row_at s w of
            None \<Rightarrow> Inl (SqlState ''40001'')
          | Some r \<Rightarrow> if wr_revision r \<noteq> expected then Inl (SqlState ''40001'')
              else Inr (w, repair_pointer (upd_rows (\<lambda>k. k = w) (saved_row q st nxt agent) s)))))"

definition workspace_draft_write :: "sql_env \<Rightarrow> string \<Rightarrow> string \<Rightarrow> string \<Rightarrow> nat \<Rightarrow> (string \<times> draft_field) list option \<Rightarrow> home_store \<Rightarrow> sql_error + nat \<times> home_store" where
  "workspace_draft_write q w d kind expected given s =
     (if \<not> workspace_owned q w s then Inl (SqlState ''P0002'')
      else
        (let s1 = repair_pointer s in
         case given of
           None \<Rightarrow> Inr (0, s1\<lparr>hs_drafts := AList.delete (w, d) (hs_drafts s1)\<rparr>)
         | Some fs \<Rightarrow>
             if qe_fieldsSize q fs > 32768 then Inl (SqlState ''54000'')
             else if expected = 0 then
               (if length (filter (\<lambda>(k, x). fst k = w) (hs_drafts s1)) \<ge> 30 then Inl (SqlState ''53400'')
                else if map_of (hs_drafts s1) (w, d) \<noteq> None then Inl (SqlState ''40001'')
                else Inr (1, s1\<lparr>hs_drafts := AList.update (w, d) \<lparr>dr_kind = kind, dr_fields = fs, dr_revision = 1\<rparr> (hs_drafts s1)\<rparr>))
             else (case map_of (hs_drafts s1) (w, d) of
                 None \<Rightarrow> Inl (SqlState ''40001'')
               | Some x \<Rightarrow> if dr_revision x \<noteq> expected then Inl (SqlState ''40001'')
                   else Inr (Suc expected, s1\<lparr>hs_drafts := AList.update (w, d) (x\<lparr>dr_fields := fs, dr_revision := Suc expected\<rparr>) (hs_drafts s1)\<rparr>))))"

subsection \<open>Managing the list\<close>

definition numbered_name :: "nat \<Rightarrow> string" where
  "numbered_name n = ''Workspace '' @ show_nat n"

text \<open>The loop for a free name: it ends, since each round meets another name that is taken.\<close>

fun free_name :: "home_store \<Rightarrow> nat \<Rightarrow> nat \<Rightarrow> nat" where
  "free_name s 0 n = n"
| "free_name s (Suc rounds) n = (if name_used s (lower (numbered_name n)) then free_name s rounds (Suc n) else n)"

definition workspace_create :: "sql_env \<Rightarrow> string option \<Rightarrow> string option \<Rightarrow> string option \<Rightarrow> wstate \<Rightarrow> bool \<Rightarrow> home_store \<Rightarrow> sql_error + string \<times> home_store" where
  "workspace_create q name color before_id st agent s =
     (if \<not> qe_member q then Inl (SqlState ''42501'')
      else if hs_rows s = [] then Inl (SqlState ''55000'')
      else if (case before_id of None \<Rightarrow> False | Some b \<Rightarrow> row_at s b = None) then Inl (SqlState ''P0002'')
      else if qe_stateSize q st > 131072 then Inl (SqlState ''54000'')
      else
        (let chosen = (case name of Some n \<Rightarrow> n | None \<Rightarrow> numbered_name (free_name s (length (hs_rows s)) 2)) in
         if \<not> workspace_name_ok chosen then Inl (SqlState ''22023'')
         else if length (hs_rows s) \<ge> WORKSPACES_PER_IDENTITY_CAP then Inl (SqlState ''53400'')
         else if \<not> color_ok color then Inl (SqlState ''23514'')
         else if name_used s (lower chosen) then Inl (SqlState ''23505'')
         else
           (let i = qe_fresh q 1;
                row = \<lparr>wr_id = i, wr_name = chosen, wr_color = color, wr_position = 2147483647, wr_state = st, wr_revision = 1,
                  wr_createdAt = qe_now q, wr_createdByActor = qe_actor q, wr_createdByClass = (if agent then ActorAgent else ActorHuman),
                  wr_lastActiveAt = None, wr_lastAgentChangeAt = (if agent then Some (qe_now q) else None),
                  wr_lastAgentActor = (if agent then qe_actor q else None)\<rparr>
            in Inr (i, workspaces_list_bump (workspaces_place (Some i) before_id (s\<lparr>hs_rows := hs_rows s @ [row]\<rparr>))))))"

text \<open>\<open>Some c\<close> sets the color to \<open>c\<close>.\<close>

definition workspace_update :: "sql_env \<Rightarrow> string \<Rightarrow> string option \<Rightarrow> string option option \<Rightarrow> home_store \<Rightarrow> sql_error + bool \<times> home_store" where
  "workspace_update q i name color s = (case row_at s i of
      None \<Rightarrow> Inl (SqlState ''P0002'')
    | Some r \<Rightarrow>
        if \<not> qe_member q then Inl (SqlState ''P0002'')
        else if (case name of None \<Rightarrow> False | Some n \<Rightarrow> \<not> workspace_name_ok n) then Inl (SqlState ''22023'')
        else
          (let r' = r\<lparr>wr_name := (case name of None \<Rightarrow> wr_name r | Some n \<Rightarrow> n), wr_color := (case color of None \<Rightarrow> wr_color r | Some c \<Rightarrow> c)\<rparr> in
           if r' = r then Inr (False, s)
           else if \<not> color_ok (wr_color r') then Inl (SqlState ''23514'')
           else if lower (wr_name r') \<in> set (map (lower \<circ> wr_name) (filter (\<lambda>x. wr_id x \<noteq> i) (hs_rows s))) then Inl (SqlState ''23505'')
           else Inr (True, workspaces_list_bump (upd_rows (\<lambda>k. k = i) (\<lambda>x. r') s))))"

definition workspace_reorder :: "sql_env \<Rightarrow> string \<Rightarrow> string option \<Rightarrow> home_store \<Rightarrow> sql_error + bool \<times> home_store" where
  "workspace_reorder q i before_id s =
     (if \<not> workspace_owned q i s then Inl (SqlState ''P0002'')
      else if (case before_id of None \<Rightarrow> False | Some b \<Rightarrow> row_at s b = None) then Inl (SqlState ''P0002'')
      else if before_id = Some i then Inr (False, s)
      else
        (let s1 = workspaces_place (Some i) before_id s in
         if ordered_ids s1 = ordered_ids s then Inr (False, s1) else Inr (True, workspaces_list_bump s1)))"

definition active_or_first :: "home_store \<Rightarrow> string option" where
  "active_or_first s = (case hs_active s of Some (i, n) \<Rightarrow> Some i | None \<Rightarrow> head_opt (ordered_ids s))"

definition workspace_switch :: "sql_env \<Rightarrow> string \<Rightarrow> home_store \<Rightarrow> sql_error + string option \<times> home_store" where
  "workspace_switch q i s =
     (if \<not> workspace_owned q i s then Inl (SqlState ''P0002'')
      else
        (let previous = active_or_first s in
         if previous = Some i then Inr (previous, s)
         else
           (let s1 = workspaces_list_bump s;
                s2 = s1\<lparr>hs_active := map_option (\<lambda>(k, n). (i, n)) (hs_active s1)\<rparr>
            in Inr (previous, upd_rows (\<lambda>k. Some k = previous \<or> k = i) (\<lambda>r. r\<lparr>wr_lastActiveAt := Some (qe_now q)\<rparr>) s2))))"

text \<open>The next in list order, else the one before it.\<close>

definition successor_of :: "string list \<Rightarrow> string \<Rightarrow> string option" where
  "successor_of ids i = (case index_of ids i of None \<Rightarrow> None
     | Some k \<Rightarrow> if Suc k < length ids then Some (ids ! Suc k) else if 0 < k then Some (ids ! (k - 1)) else None)"

definition workspace_delete :: "sql_env \<Rightarrow> string \<Rightarrow> home_store \<Rightarrow> sql_error + string option \<times> home_store" where
  "workspace_delete q i s =
     (if \<not> workspace_owned q i s then Inl (SqlState ''P0002'')
      else if length (ordered_ids s) \<le> 1 then Inl (SqlState ''55000'')
      else
        (let s1 = workspaces_list_bump s;
             active = map_option fst (hs_active s1);
             succ = successor_of (ordered_ids s) i;
             s2 = (if active = Some i
               then upd_rows (\<lambda>k. k = i \<or> Some k = succ) (\<lambda>r. r\<lparr>wr_lastActiveAt := Some (qe_now q)\<rparr>)
                 (s1\<lparr>hs_active := (case (succ, hs_active s1) of (Some k, Some (j, n)) \<Rightarrow> Some (k, n) | _ \<Rightarrow> None)\<rparr>)
               else s1);
             s3 = s2\<lparr>hs_rows := filter (\<lambda>r. wr_id r \<noteq> i) (hs_rows s2), hs_drafts := filter (\<lambda>(k, x). fst k \<noteq> i) (hs_drafts s2),
                 hs_active := (case hs_active s2 of Some (j, n) \<Rightarrow> if j = i then None else Some (j, n) | None \<Rightarrow> None)\<rparr>
         in if hs_active s3 = None then Inl (SqlState ''XX000'')
            else Inr (map_option fst (hs_active s3), workspaces_place None None s3)))"

end
