(* ===== verification/HomeTarget.thy ===== *)
theory HomeTarget
  imports HomeRows
begin

text \<open>
  Which of an identity's workspaces a command applies to (\<open>server/src/workspace/resolve.ts\<close>): the list as
  it is read, the target of a request, and the summaries that lists show.
\<close>

subsection \<open>The list\<close>

record home_row =
  hw_id :: string
  hw_name :: string
  hw_color :: "string option"
  hw_position :: nat
  hw_revision :: nat
  hw_pointed :: bool
  hw_hasTab :: bool
  hw_hasDraft :: bool
  hw_createdAt :: int
  hw_createdByActorId :: "string option"
  hw_createdByClass :: "actor_class option"
  hw_lastActiveAt :: "int option"
  hw_lastAgentChangeAt :: "int option"
  hw_tabCount :: nat
  hw_draftCount :: nat
  hw_dirtyDraftCount :: nat

record workspaces =
  wl_rows :: "home_row list"
  wl_activeId :: "string option"
  wl_listRevision :: nat

definition draft_tabs :: "wstate \<Rightarrow> draft_tab list" where
  "draft_tabs st = concat (map (\<lambda>(i, t). case t of DraftTab d \<Rightarrow> [d] | _ \<Rightarrow> []) (tabs st))"

text \<open>One row as the query computes it, with the tab or draft that is looked for.\<close>

definition loaded_row :: "string option \<Rightarrow> string option \<Rightarrow> home_store \<Rightarrow> ws_row \<Rightarrow> home_row" where
  "loaded_row tabId draftId s r =
     (let ds = draft_tabs (wr_state r) in
      \<lparr>hw_id = wr_id r, hw_name = wr_name r, hw_color = wr_color r, hw_position = wr_position r, hw_revision = wr_revision r,
       hw_pointed = (map_option fst (hs_active s) = Some (wr_id r)),
       hw_hasTab = (case tabId of None \<Rightarrow> False | Some t \<Rightarrow> tab_at (wr_state r) t \<noteq> None),
       hw_hasDraft = (case draftId of None \<Rightarrow> False
         | Some d \<Rightarrow> map_of (hs_drafts s) (wr_id r, d) \<noteq> None \<or> d \<in> set (map dt_draftId ds)),
       hw_createdAt = wr_createdAt r, hw_createdByActorId = wr_createdByActor r, hw_createdByClass = Some (wr_createdByClass r),
       hw_lastActiveAt = wr_lastActiveAt r, hw_lastAgentChangeAt = wr_lastAgentChangeAt r,
       hw_tabCount = length (tabs (wr_state r)), hw_draftCount = length ds, hw_dirtyDraftCount = length (filter dt_dirty ds)\<rparr>)"

definition loadWorkspaces :: "string option \<Rightarrow> string option \<Rightarrow> home_store \<Rightarrow> workspaces" where
  "loadWorkspaces tabId draftId s =
     (let out = map (loaded_row tabId draftId s) (list_order s); pointed = find hw_pointed out
      in \<lparr>wl_rows = out,
          wl_activeId = (case pointed of Some r \<Rightarrow> Some (hw_id r) | None \<Rightarrow> map_option hw_id (head_opt out)),
          wl_listRevision = (case pointed of Some r \<Rightarrow> (case hs_active s of Some (i, n) \<Rightarrow> n | None \<Rightarrow> 0) | None \<Rightarrow> if out = [] then 0 else 1)\<rparr>)"

subsection \<open>The target\<close>

datatype resolved_by = ByActive | ByExplicit | ByOwner | ByWindow

record ws_ref =
  rf_id :: "string option"
  rf_name :: string
  rf_color :: "string option"
  rf_resolvedBy :: resolved_by
  rf_active :: bool

record resolution =
  rs_workspaceId :: "string option"
  rs_ref :: ws_ref
  rs_revision :: nat

text \<open>A window's frame may name a workspace, name none (\<open>null\<close>), or be one that cannot (an old window).\<close>

datatype frame_target = FrameNames string | FrameNull | FrameSilent

record target_request =
  tq_workspaceId :: "string option"
  tq_frame :: "frame_target option"
  tq_tabId :: "string option"
  tq_draftId :: "string option"
  tq_expected :: "string option"

definition no_target :: target_request where
  "no_target = \<lparr>tq_workspaceId = None, tq_frame = None, tq_tabId = None, tq_draftId = None, tq_expected = None\<rparr>"

datatype refused_status = RefusedRejected | RefusedConflict

text \<open>A target that refuses, and a workspace that does not exist.\<close>

datatype target_error =
    TargetRefused refused_status reason "ws_ref option" "(string \<times> string option) option"
  | NoWorkspace string

definition refOf :: "home_row option \<Rightarrow> resolved_by \<Rightarrow> string option \<Rightarrow> ws_ref" where
  "refOf row by_what activeId =
     \<lparr>rf_id = map_option hw_id row, rf_name = (case row of None \<Rightarrow> WORKSPACE_DEFAULT_NAME | Some r \<Rightarrow> hw_name r),
      rf_color = (case row of None \<Rightarrow> None | Some r \<Rightarrow> hw_color r), rf_resolvedBy = by_what,
      rf_active = (case row of None \<Rightarrow> True | Some r \<Rightarrow> Some (hw_id r) = activeId)\<rparr>"

definition by_id :: "workspaces \<Rightarrow> string option \<Rightarrow> home_row option" where
  "by_id ws i = find (\<lambda>r. Some (hw_id r) = i) (wl_rows ws)"

definition pick_row :: "workspaces \<Rightarrow> home_row option \<Rightarrow> resolved_by \<Rightarrow> resolution" where
  "pick_row ws row by_what = \<lparr>rs_workspaceId = map_option hw_id row, rs_ref = refOf row by_what (wl_activeId ws),
     rs_revision = (case row of None \<Rightarrow> 0 | Some r \<Rightarrow> hw_revision r)\<rparr>"

definition owner_row :: "workspaces \<Rightarrow> target_request \<Rightarrow> home_row option" where
  "owner_row ws req = (case (if tq_draftId req \<noteq> None then find hw_hasDraft (wl_rows ws) else None) of
      Some r \<Rightarrow> Some r
    | None \<Rightarrow> if tq_tabId req \<noteq> None then find hw_hasTab (wl_rows ws) else None)"

definition pick_active :: "workspaces \<Rightarrow> resolution" where
  "pick_active ws = pick_row ws (by_id ws (wl_activeId ws)) ByActive"

definition pickTarget :: "workspaces \<Rightarrow> target_request \<Rightarrow> target_error + resolution" where
  "pickTarget ws req = (case tq_frame req of
      Some (FrameNames i) \<Rightarrow> (case by_id ws (Some i) of
          None \<Rightarrow> Inl (TargetRefused RefusedRejected WorkspaceNotFound None None)
        | Some r \<Rightarrow> Inr (pick_row ws (Some r) ByWindow))
    | Some FrameNull \<Rightarrow>
        if length (wl_rows ws) \<le> 1 then Inr (pick_row ws (head_opt (wl_rows ws)) ByWindow)
        else Inl (TargetRefused RefusedRejected WorkspaceSwitched None None)
    | Some FrameSilent \<Rightarrow> (case (if tq_draftId req \<noteq> None then find hw_hasDraft (wl_rows ws) else None) of
          Some r \<Rightarrow> Inr (pick_row ws (Some r) ByOwner)
        | None \<Rightarrow> Inr (pick_active ws))
    | None \<Rightarrow> (case tq_workspaceId req of
          Some i \<Rightarrow> (case by_id ws (Some i) of
              None \<Rightarrow> Inl (NoWorkspace i)
            | Some r \<Rightarrow> (case owner_row ws req of
                  Some h \<Rightarrow> if hw_id h \<noteq> hw_id r then Inl (TargetRefused RefusedConflict WorkspaceMismatch (Some (refOf (Some r) ByExplicit (wl_activeId ws))) None)
                    else Inr (pick_row ws (Some r) ByExplicit)
                | None \<Rightarrow> Inr (pick_row ws (Some r) ByExplicit)))
        | None \<Rightarrow> (case owner_row ws req of
              Some h \<Rightarrow> Inr (pick_row ws (Some h) ByOwner)
            | None \<Rightarrow> Inr (pick_active ws))))"

definition resolveTarget :: "workspaces \<Rightarrow> target_request \<Rightarrow> target_error + resolution" where
  "resolveTarget ws req = (case pickTarget ws req of
      Inl err \<Rightarrow> Inl err
    | Inr resolved \<Rightarrow> (case tq_expected req of
          None \<Rightarrow> Inr resolved
        | Some expected \<Rightarrow>
            if tq_frame req \<noteq> None \<or> rs_workspaceId resolved = Some expected then Inr resolved
            else Inl (TargetRefused RefusedConflict (if rf_resolvedBy (rs_ref resolved) = ByActive then WorkspaceSwitched else WorkspaceMismatch)
              (Some (rs_ref resolved)) (Some (expected, wl_activeId ws)))))"

subsection \<open>Summaries\<close>

record ws_summary =
  sm_id :: "string option"
  sm_name :: string
  sm_color :: "string option"
  sm_position :: nat
  sm_active :: bool
  sm_revision :: nat
  sm_tabCount :: nat
  sm_draftCount :: nat
  sm_dirtyDraftCount :: nat
  sm_createdAt :: "int option"
  sm_createdBy :: "(string option \<times> actor_class) option"
  sm_agentChanged :: bool
  sm_lastAgentChange :: "int option"

definition summary_of :: "workspaces \<Rightarrow> home_row \<Rightarrow> ws_summary" where
  "summary_of ws r =
     \<lparr>sm_id = Some (hw_id r), sm_name = hw_name r, sm_color = hw_color r, sm_position = hw_position r, sm_active = (Some (hw_id r) = wl_activeId ws),
      sm_revision = hw_revision r, sm_tabCount = hw_tabCount r, sm_draftCount = hw_draftCount r, sm_dirtyDraftCount = hw_dirtyDraftCount r,
      sm_createdAt = Some (hw_createdAt r), sm_createdBy = map_option (Pair (hw_createdByActorId r)) (hw_createdByClass r),
      sm_agentChanged = (Some (hw_id r) \<noteq> wl_activeId ws \<and> (case hw_lastAgentChangeAt r of None \<Rightarrow> False
        | Some t \<Rightarrow> (case hw_lastActiveAt r of None \<Rightarrow> True | Some a \<Rightarrow> t > a))),
      sm_lastAgentChange = hw_lastAgentChangeAt r\<rparr>"

definition summaries :: "workspaces \<Rightarrow> ws_summary list" where
  "summaries ws = (if wl_rows ws = [] then
     [\<lparr>sm_id = None, sm_name = WORKSPACE_DEFAULT_NAME, sm_color = None, sm_position = 0, sm_active = True, sm_revision = 0, sm_tabCount = 0,
       sm_draftCount = 0, sm_dirtyDraftCount = 0, sm_createdAt = None, sm_createdBy = None, sm_agentChanged = False, sm_lastAgentChange = None\<rparr>]
     else map (summary_of ws) (wl_rows ws))"

end
