(* ===== verification/HomeState.thy ===== *)
theory HomeState
  imports HomeTarget
begin

text \<open>
  A state as its row keeps it: the JSON of a state, and the state that is read back, cleaned again as
  if it were untrusted (\<open>sanitizeStored\<close> of \<open>server/src/workspace/service.ts\<close>). The values a state holds came
  in as JSON, so they are their own JSON.
\<close>

subsection \<open>The JSON of a state\<close>

definition jnat :: "nat \<Rightarrow> jsval" where
  "jnat n = JNum (JFin (of_nat n))"

definition jint :: "int \<Rightarrow> jsval" where
  "jint n = JNum (JFin (of_int n))"

definition jstrs :: "string list \<Rightarrow> jsval" where
  "jstrs xs = JArr (map JStr xs)"

definition tab_json :: "tab \<Rightarrow> jsval" where
  "tab_json t = (case t of
      EntityTab e \<Rightarrow> JObj [(''id'', JStr (et_id e)), (''type'', JStr ''entity''), (''kind'', JStr (et_kind e)), (''entityId'', JStr (et_entityId e)), (''ui'', JObj (et_ui e))]
    | DraftTab d \<Rightarrow> JObj [(''id'', JStr (dt_id d)), (''type'', JStr ''draft''), (''kind'', JStr (dt_kind d)), (''draftId'', JStr (dt_draftId d)),
        (''dirty'', JBool (dt_dirty d)), (''submitting'', JBool (dt_submitting d)), (''ordinal'', jnat (dt_ordinal d))]
    | ChooserTab c \<Rightarrow> JObj [(''id'', JStr (ct_id c)), (''type'', JStr ''chooser''), (''query'', JStr (ct_query c))]
    | FileTab f \<Rightarrow> JObj [(''id'', JStr (ft_id f)), (''type'', JStr ''file''), (''projectId'', JStr (ft_projectId f)), (''path'', JStr (ft_path f)), (''preview'', JBool (ft_preview f))])"

definition scope_json :: "tab_scope \<Rightarrow> jsval" where
  "scope_json sc = (case sc of
      Mixed ids \<Rightarrow> JObj [(''mode'', JStr ''mixed''), (''lastByTypeIds'', jstrs ids)]
    | ByType ids \<Rightarrow> JObj [(''mode'', JStr ''byType''), (''selectedTypeIds'', jstrs ids)])"

definition presentation_json :: "presentation \<Rightarrow> jsval" where
  "presentation_json p = (case p of Start \<Rightarrow> JObj [(''surface'', JStr ''start'')] | ShowTab i \<Rightarrow> JObj [(''surface'', JStr ''tab''), (''tabId'', JStr i)])"

definition layout_json :: "layout_state \<Rightarrow> jsval" where
  "layout_json l = JObj [(''expanded'', JBool (l_expanded l)), (''browserWidth'', jint (l_browserWidth l)), (''chatWidth'', jint (l_chatWidth l))]"

definition kind_json :: "browser_kind_state \<Rightarrow> jsval" where
  "kind_json b = JObj [(''query'', JStr (bk_query b)), (''filters'', bk_filters b), (''scrollTop'', JNum (bk_scrollTop b))]"

definition browser_json :: "browser_state \<Rightarrow> jsval" where
  "browser_json b = JObj [(''kind'', JStr (bs_kind b)), (''perKind'', JObj (map (\<lambda>(k, x). (k, kind_json x)) (bs_perKind b)))]"

definition rail_json :: "rail_prefs \<Rightarrow> jsval" where
  "rail_json r = JObj ([(''pins'', jstrs (r_pins r)), (''open'', JObj (map (\<lambda>(k, b). (k, JBool b)) (r_open r))), (''expanded'', JBool (r_expanded r))]
     @ (case r_lifted r of None \<Rightarrow> [] | Some xs \<Rightarrow> [(''lifted'', jstrs xs)]))"

text \<open>The pending interaction is read back as it is, and so is not given here.\<close>

definition state_json :: "wstate \<Rightarrow> jsval" where
  "state_json s = JObj ([(''revision'', jnat (revision s)), (''spaceId'', JStr (spaceId s)), (''viewerId'', JStr (viewerId s)), (''windowId'', JStr (windowId s)),
      (''orderedTabIds'', jstrs (orderedTabIds s)), (''tabs'', JObj (map (\<lambda>(i, t). (i, tab_json t)) (tabs s))),
      (''presentation'', presentation_json (presentation s)), (''scope'', scope_json (scope s)), (''recency'', jstrs (recency s)),
      (''rememberedActive'', JObj (map (\<lambda>(k, i). (k, JStr i)) (rememberedActive s))), (''layout'', layout_json (layout s)),
      (''browsers'', JObj [(''main'', browser_json (browserMain s))])]
     @ (case rail s of None \<Rightarrow> [] | Some r \<Rightarrow> [(''rail'', rail_json r)]))"

definition sanitizeStored :: "wstate \<Rightarrow> string \<Rightarrow> wstate option" where
  "sanitizeStored st sid = (case sanitizeWorkspaceState (state_json st) sid of
      None \<Rightarrow> None
    | Some clean \<Rightarrow> Some (case pending st of None \<Rightarrow> clean | Some p \<Rightarrow> clean\<lparr>pending := Some p\<rparr>))"

subsection \<open>A sanitized state reads back\<close>

lemma oget_simps: "oget [] k = JUndef" "oget ((k', v) # ob) k = (if k = k' then v else oget ob k)"
  by (simp_all add: oget_def)

lemma jget_obj: "jget (JObj ob) k = oget ob k"
  by simp

lemma oget_map_value: "oget (map (\<lambda>(i, t). (i, g t)) al) k = (case map_of al k of None \<Rightarrow> JUndef | Some t \<Rightarrow> g t)"
  by (induction al) (auto simp: oget_simps)

lemma str_in_JStr: "str_in m v \<Longrightarrow> v = JStr (str_of v)"
  by (cases v) auto

lemma kind_JStr: "isWorkspaceKind v \<Longrightarrow> v = JStr (str_of v)"
  by (cases v) (auto simp: isWorkspaceKind_def)

lemma project_JStr: "isFileTabProjectId v \<Longrightarrow> v = JStr (str_of v)" "isFileTabPath v \<Longrightarrow> v = JStr (str_of v)"
  by (cases v; simp add: isFileTabProjectId_def isFileTabPath_def)+

lemma again_JStr:
  "str_in m v \<Longrightarrow> str_in m (JStr (str_of v))" "isWorkspaceKind v \<Longrightarrow> isWorkspaceKind (JStr (str_of v))"
  "isFileTabProjectId v \<Longrightarrow> isFileTabProjectId (JStr (str_of v))" "isFileTabPath v \<Longrightarrow> isFileTabPath (JStr (str_of v))"
  using str_in_JStr [of m v] kind_JStr [of v] project_JStr [of v] by metis+

lemma str_in_length: "str_in m v \<Longrightarrow> str_of v \<noteq> [] \<and> length (str_of v) \<le> m"
  by (cases v) auto

lemma str_in_parts: "str_in m v \<Longrightarrow> str_of v \<noteq> []" "str_in m v \<Longrightarrow> [] \<noteq> str_of v" "str_in m v \<Longrightarrow> length (str_of v) \<le> m"
  by (cases v; auto)+

lemma str_of_JStr [simp]: "str_of \<circ> JStr = id"
  by (simp add: fun_eq_iff)

lemma crumb_again:
  assumes "isRecord c \<and> str_in 200 (jget c ''entityId'') \<and> isWorkspaceKind (jget c ''kind'')"
  shows "isRecord (clean_crumb c) \<and> str_in 200 (jget (clean_crumb c) ''entityId'') \<and> isWorkspaceKind (jget (clean_crumb c) ''kind'')"
    "clean_crumb (clean_crumb c) = clean_crumb c"
  using assms by (simp_all add: clean_crumb_def oget_simps)

lemma chat_again: "clean_chat (JObj (clean_chat v)) = clean_chat v"
  by (auto simp: clean_chat_def oget_simps isSection_def)

lemma ui_again: "clean_ui (JObj (clean_ui v)) = clean_ui v"
proof -
  let ?ok = "\<lambda>c. isRecord c \<and> str_in 200 (jget c ''entityId'') \<and> isWorkspaceKind (jget c ''kind'')"
  have "take 20 (map clean_crumb (filter ?ok (take 20 (map clean_crumb (filter ?ok cs))))) = take 20 (map clean_crumb (filter ?ok cs))" for cs
  proof -
    have all: "\<forall>c \<in> set (take 20 (map clean_crumb (filter ?ok cs))). ?ok c \<and> clean_crumb c = c"
      using crumb_again by (auto dest!: in_set_takeD)
    then have "filter ?ok (take 20 (map clean_crumb (filter ?ok cs))) = take 20 (map clean_crumb (filter ?ok cs))" by (intro filter_True) blast
    moreover have "map clean_crumb (take 20 (map clean_crumb (filter ?ok cs))) = take 20 (map clean_crumb (filter ?ok cs))"
      using all by (intro map_idI) blast
    ultimately show ?thesis by simp
  qed
  then show ?thesis
    by (auto simp: clean_ui_def oget_simps chat_again isSubview_def split: jsval.splits) (auto simp: clean_chat_def oget_simps)
qed

lemma floor_again: "lo \<le> dflt \<Longrightarrow> floor_or lo dflt (jnat (floor_or lo dflt v)) = floor_or lo dflt v"
proof -
  assume "lo \<le> dflt"
  then have "lo \<le> floor_or lo dflt v" by (auto simp: floor_or_def le_nat_iff le_floor_iff)
  then show ?thesis by (auto simp: floor_or_def jnat_def)
qed

lemma tab_again: "cleanTab i v = Some t \<Longrightarrow> cleanTab i (tab_json t) = Some t"
proof -
  assume c: "cleanTab i v = Some t"
  note keep = again_JStr ui_again floor_again
  show ?thesis
  proof (cases t)
    case (EntityTab e)
    with c show ?thesis by (auto simp: cleanTab_def tab_json_def oget_simps keep dest: str_in_length split: if_splits)
  next
    case (DraftTab d)
    with c show ?thesis by (auto simp: cleanTab_def tab_json_def oget_simps keep dest: str_in_length split: if_splits)
  next
    case (ChooserTab q)
    with c show ?thesis by (auto simp: cleanTab_def tab_json_def oget_simps split: if_splits)
  next
    case (FileTab f)
    with c show ?thesis by (auto simp: cleanTab_def tab_json_def oget_simps keep split: if_splits)
  qed
qed

definition clean_kept :: "(string \<times> tab) list \<Rightarrow> bool" where
  "clean_kept kept \<longleftrightarrow> distinct (map fst kept) \<and> length kept \<le> WORKSPACE_TAB_HARD_CAP
     \<and> (\<forall>(i, t) \<in> set kept. str_in 64 (JStr i) \<and> cleanTab i (tab_json t) = Some t)"

lemma clean_step_kept:
  assumes "clean_kept kept"
  shows "clean_kept (clean_step raw kept v)"
proof (cases "\<not> str_in 64 v \<or> map_of kept (str_of v) \<noteq> None \<or> length kept \<ge> WORKSPACE_TAB_HARD_CAP")
  case False
  then have v: "str_in 64 (JStr (str_of v))" "str_of v \<notin> fst ` set kept" using str_in_JStr by (metis, simp add: map_of_eq_None_iff)
  show ?thesis
  proof (cases "cleanTab (str_of v) (jget raw (str_of v))")
    case (Some t)
    with False v assms tab_again [OF Some] show ?thesis by (auto simp: clean_step_def clean_kept_def)
  qed (use False assms in \<open>simp add: clean_step_def\<close>)
qed (use assms in \<open>auto simp: clean_step_def\<close>)

lemma clean_tabs_kept: "clean_kept (clean_tabs raw order)"
proof -
  have "clean_kept kept \<Longrightarrow> clean_kept (foldl (clean_step raw) kept vs)" for kept vs
    by (induction vs arbitrary: kept) (simp_all add: clean_step_kept)
  moreover have "clean_kept []" by (simp add: clean_kept_def)
  ultimately show ?thesis by (simp add: clean_tabs_def)
qed

lemma clean_tabs_again:
  assumes c: "clean_kept kept"
  shows "clean_tabs (JObj (map (\<lambda>(i, t). (i, tab_json t)) kept)) (jstrs (map fst kept)) = kept"
proof -
  have "foldl (clean_step (JObj (map (\<lambda>(i, t). (i, tab_json t)) kept))) kepts (map (JStr \<circ> fst) rest) = kepts @ rest" if "kept = kepts @ rest" for kepts rest
    using that
  proof (induction rest arbitrary: kepts)
    case (Cons p rest)
    obtain i t where p: "p = (i, t)" by (cases p)
    have d: "distinct (map fst kept)" "(i, t) \<in> set kept" using c Cons.prems p by (simp_all add: clean_kept_def)
    then have "map_of kept i = Some t" by simp
    moreover have "map_of kepts i = None" "length kepts < WORKSPACE_TAB_HARD_CAP" using c Cons.prems p by (auto simp: clean_kept_def map_of_eq_None_iff)
    moreover have "str_in 64 (JStr i)" "cleanTab i (tab_json t) = Some t" using c d(2) by (auto simp: clean_kept_def)
    ultimately have "clean_step (JObj (map (\<lambda>(i, t). (i, tab_json t)) kept)) kepts (JStr i) = kepts @ [p]"
      by (simp add: clean_step_def oget_map_value p)
    with Cons p show ?case by simp
  qed simp
  from this [of "[]" kept] show ?thesis by (simp add: clean_tabs_def jstrs_def)
qed

subsection \<open>The other parts\<close>

lemma jstrs_arr [simp]: "arr_of (jstrs xs) = map JStr xs" "isArray (jstrs xs)"
  by (simp_all add: jstrs_def)

lemma uniq_distinct_id: "distinct xs \<Longrightarrow> uniq xs = xs"
  by (rule uniq_distinct)

lemma kinds_again: "clean_kinds (jstrs (clean_kinds v)) = clean_kinds v"
proof -
  have all: "filter isWorkspaceKind (map JStr (clean_kinds v)) = map JStr (clean_kinds v)"
    by (rule filter_True) (auto simp: clean_kinds_def again_JStr)
  have "map (str_of \<circ> JStr) (clean_kinds v) = clean_kinds v" by simp
  moreover have "distinct (clean_kinds v)" "sorted (clean_kinds v)" by (simp_all add: clean_kinds_def)
  ultimately show ?thesis unfolding clean_kinds_def [of "jstrs (clean_kinds v)"] using all by (simp add: uniq_distinct_id sorted_sort_id)
qed

lemma kinds_undef: "clean_kinds JUndef = []"
  by (simp add: clean_kinds_def)

lemma scope_again: "cleanScope (scope_json (cleanScope v)) = cleanScope v"
  by (auto simp: cleanScope_def scope_json_def oget_simps kinds_again kinds_undef)

lemma known_strs: "\<forall>x \<in> set xs. map_of kept x \<noteq> None \<Longrightarrow> filter (known_id kept) (map JStr xs) = map JStr xs"
  by (rule filter_True) (auto simp: known_id_def)

lemma recency_again:
  "uniq (map str_of (filter (known_id kept) (map JStr (uniq (map str_of (filter (known_id kept) vs)))))) = uniq (map str_of (filter (known_id kept) vs))"
proof -
  have "\<forall>x \<in> set (uniq (map str_of (filter (known_id kept) vs))). map_of kept x \<noteq> None" by (auto simp: known_id_def)
  from known_strs [OF this] show ?thesis by (simp add: uniq_distinct_id)
qed

lemma remembered_again:
  "clean_remembered kept (JObj (map (\<lambda>(k, i). (k, JStr i)) (clean_remembered kept v))) = clean_remembered kept v"
proof -
  have "map (\<lambda>(k, i). (k, str_of i)) (filter (\<lambda>(k, i). length k \<le> 300 \<and> known_id kept i) (map (\<lambda>(k, i). (k, JStr i)) ps)) = ps"
    if "\<forall>(k, i) \<in> set ps. length k \<le> 300 \<and> map_of kept i \<noteq> None" for ps
    using that by (induction ps) (auto simp: known_id_def)
  moreover have "\<forall>(k, i) \<in> set (clean_remembered kept v). length k \<le> 300 \<and> map_of kept i \<noteq> None"
    by (auto simp: clean_remembered_def known_id_def)
  ultimately show ?thesis unfolding clean_remembered_def [of kept "JObj _"] by simp
qed

lemma width_again: "b_min b \<le> b_max b \<Longrightarrow> b_min b \<le> b_initial b \<and> b_initial b \<le> b_max b \<Longrightarrow> clean_width b (jint (clean_width b v)) = clean_width b v"
  using clamp_round_bounds [of "b_min b" "b_max b" "rat_of v"]
  by (auto simp: clean_width_def jint_def clamp_round_def math_round_of_int)

lemma per_kind_again:
  "clean_per_kind (JObj (map (\<lambda>(k, x). (k, kind_json x)) (clean_per_kind v))) = clean_per_kind v"
proof -
  have "clean_per_kind (JObj (map (\<lambda>(k, x). (k, kind_json x)) ps)) = ps"
    if "\<forall>(k, x) \<in> set ps. isKindName k \<and> length (bk_query x) \<le> 500 \<and> bk_filters x \<noteq> JUndef \<and> (\<exists>q \<ge> 0. bk_scrollTop x = JFin q)" for ps
    using that
  proof (induction ps)
    case (Cons p ps)
    obtain k x where p: "p = (k, x)" by (cases p)
    obtain q where "isKindName k" "length (bk_query x) \<le> 500" "bk_filters x \<noteq> JUndef" "0 \<le> q" "bk_scrollTop x = JFin q" using Cons.prems p by auto
    then have "clean_per_kind (JObj [(k, kind_json x)]) = [(k, x)]"
      by (cases x) (simp add: clean_per_kind_def kind_json_def oget_simps)
    moreover have "clean_per_kind (JObj (map (\<lambda>(k, x). (k, kind_json x)) ps)) = ps" using Cons by simp
    moreover have "clean_per_kind (JObj ((k, kind_json x) # qs)) = clean_per_kind (JObj [(k, kind_json x)]) @ clean_per_kind (JObj qs)" if "qs = map (\<lambda>(k, x). (k, kind_json x)) ps" for qs
      by (simp add: clean_per_kind_def split: prod.split)
    ultimately show ?case by (metis (no_types, lifting) append_Cons append_Nil case_prod_conv list.map(2) p)
  qed (simp add: clean_per_kind_def)
  moreover have "\<forall>(k, x) \<in> set (clean_per_kind v). isKindName k \<and> length (bk_query x) \<le> 500 \<and> bk_filters x \<noteq> JUndef \<and> (\<exists>q \<ge> 0. bk_scrollTop x = JFin q)"
    by (auto simp: clean_per_kind_def)
  ultimately show ?thesis by blast
qed

lemma browser_again: "clean_browser (browser_json (clean_browser v)) = clean_browser v"
proof -
  have kind: "isWorkspaceKind (JStr DEFAULT_BROWSER_KIND)" by (simp add: DEFAULT_BROWSER_KIND_def isWorkspaceKind_def isKindName_def WORKSPACE_KINDS_def)
  have start: "clean_per_kind (JObj [(DEFAULT_BROWSER_KIND, kind_json EMPTY_BROWSER_KIND_STATE)]) = [(DEFAULT_BROWSER_KIND, EMPTY_BROWSER_KIND_STATE)]"
    using kind by (simp add: clean_per_kind_def kind_json_def oget_simps EMPTY_BROWSER_KIND_STATE_def isWorkspaceKind_def)
  show ?thesis
  proof (cases "clean_per_kind (jget v ''perKind'') = []")
    case True
    with kind start show ?thesis by (simp add: clean_browser_def browser_json_def oget_simps again_JStr)
  next
    case False
    with kind per_kind_again [of "jget v ''perKind''"] show ?thesis by (simp add: clean_browser_def browser_json_def oget_simps again_JStr)
  qed
qed

lemma short_again:
  assumes "\<forall>x \<in> set xs. str_in m (JStr x)" "length xs \<le> n"
  shows "take n (map str_of (filter (str_in m) (map JStr xs))) = xs"
proof -
  have "filter (str_in m) (map JStr xs) = map JStr xs" using assms(1) by (intro filter_True) auto
  with assms(2) show ?thesis by simp
qed

lemma rail_record [simp]: "isRecord (rail_json r)"
  by (simp add: rail_json_def)

lemma rail_again: "clean_rail (rail_json (clean_rail v)) = clean_rail v"
proof -
  define c where "c = clean_rail v"
  have pins: "\<forall>x \<in> set (r_pins c). str_in 64 (JStr x)" "length (r_pins c) \<le> 32"
    by (auto simp: c_def clean_rail_def DEFAULT_RAIL_def str_in_parts dest!: in_set_takeD)
  have lifted: "\<forall>xs. r_lifted c = Some xs \<longrightarrow> (\<forall>x \<in> set xs. str_in 64 (JStr x)) \<and> length xs \<le> 32 \<and> distinct xs"
    by (auto simp: c_def clean_rail_def str_in_parts dest!: in_set_takeD)
  have opened: "take 64 (map (\<lambda>(k, v). (k, v = JBool True)) (filter (\<lambda>(k, v). isBool v) (map (\<lambda>(k, b). (k, JBool b)) (r_open c)))) = r_open c"
  proof -
    have "map (\<lambda>(k, v). (k, v = JBool True)) (filter (\<lambda>(k, v). isBool v) (map (\<lambda>(k, b). (k, JBool b)) ps)) = ps" for ps :: "(string \<times> bool) list"
      by (induction ps) auto
    moreover have "length (r_open c) \<le> 64" by (simp add: c_def clean_rail_def)
    ultimately show ?thesis by (simp only: take_all)
  qed
  have "clean_rail (rail_json c) = c"
  proof (cases "r_lifted c")
    case None
    with pins opened show ?thesis by (cases c) (simp add: clean_rail_def rail_json_def oget_simps short_again)
  next
    case (Some xs)
    then have "take 32 (uniq (map str_of (filter (str_in 64) (map JStr xs)))) = xs"
    proof -
      have "filter (str_in 64) (map JStr xs) = map JStr xs" using lifted Some by (intro filter_True) auto
      with lifted Some show ?thesis by simp
    qed
    with Some pins opened show ?thesis by (cases c) (simp add: clean_rail_def rail_json_def oget_simps short_again)
  qed
  then show ?thesis by (simp add: c_def)
qed

text \<open>
  C30: What was read once is read again unchanged: a state that a row or an import was cleaned to has a
  JSON that is cleaned to just that state, so storing it and reading it back loses nothing.
\<close>
theorem sanitized_reads_back:
  assumes "sanitizeWorkspaceState raw sid = Some s"
  shows "sanitizeWorkspaceState (state_json s) sid = Some s"
proof -
  define kept where "kept = clean_tabs (jget raw ''tabs'') (jget raw ''orderedTabIds'')"
  have kept: "clean_tabs (JObj (map (\<lambda>(i, t). (i, tab_json t)) kept)) (jstrs (map fst kept)) = kept"
    unfolding kept_def by (rule clean_tabs_again [OF clean_tabs_kept])
  have rec: "isRecord raw" using assms by (auto simp: sanitizeWorkspaceState_def split: if_splits)
  then have s: "s = (defaultWorkspaceState sid [] [])
             \<lparr>revision := floor_or 0 0 (jget raw ''revision''), orderedTabIds := map fst kept, tabs := kept,
              presentation := (if jget (jget raw ''presentation'') ''surface'' = JStr ''tab'' \<and> known_id kept (jget (jget raw ''presentation'') ''tabId'')
                               then ShowTab (str_of (jget (jget raw ''presentation'') ''tabId'')) else Start),
              scope := cleanScope (jget raw ''scope''),
              recency := uniq (map str_of (filter (known_id kept) (arr_of (jget raw ''recency'')))),
              rememberedActive := clean_remembered kept (jget raw ''rememberedActive''),
              layout := \<lparr>l_expanded = (jget (jget raw ''layout'') ''expanded'' = JBool True),
                         l_browserWidth = clean_width BROWSER_BOUNDS (jget (jget raw ''layout'') ''browserWidth''),
                         l_chatWidth = clean_width CHAT_BOUNDS (jget (jget raw ''layout'') ''chatWidth'')\<rparr>,
              browserMain := clean_browser (jget (jget raw ''browsers'') ''main''),
              rail := (if isRecord (jget raw ''rail'') then Some (clean_rail (jget raw ''rail'')) else None)\<rparr>"
    using assms by (simp add: sanitizeWorkspaceState_def Let_def kept_def)
  have widths: "clean_width BROWSER_BOUNDS (jint (clean_width BROWSER_BOUNDS w)) = clean_width BROWSER_BOUNDS w"
    "clean_width CHAT_BOUNDS (jint (clean_width CHAT_BOUNDS w)) = clean_width CHAT_BOUNDS w" for w
    by (rule width_again; simp add: BROWSER_BOUNDS_def CHAT_BOUNDS_def)+
  show ?thesis
    unfolding s by (simp add: sanitizeWorkspaceState_def Let_def state_json_def oget_simps defaultWorkspaceState_def kept floor_again
        presentation_json_def layout_json_def widths scope_again recency_again remembered_again browser_again rail_again known_id_def)
qed

theorem sanitized_reads_back_witness:
  "sanitizeWorkspaceState (state_json (defaultWorkspaceState ''s'' [] [])) ''s'' = Some (defaultWorkspaceState ''s'' [] [])"
proof -
  have "sanitizeWorkspaceState (JObj []) ''s'' = Some (defaultWorkspaceState ''s'' [] [])" by code_simp
  then show ?thesis by (rule sanitized_reads_back)
qed

end
