(* ===== verification/HomePrompts.thy ===== *)
theory HomePrompts
  imports Simulation
begin

text \<open>
  The prompts that an agent raises and its human answers (\<open>server/src/workspace/prompts.ts\<close>), for one
  identity in one space; the store keeps one such list per key. Every change of a prompt is reported,
  and the reports are part of the state. An operation reads the clock once; the timer of a prompt is a
  flag. The ids come from the caller.
\<close>

subsection \<open>The store\<close>

datatype prompt_kind = SwitchPrompt | DeletePrompt

datatype prompt_status = PromptOpen | PromptAccepted | PromptDeclined | PromptExpired | PromptSuperseded

record prompt =
  pm_id :: string
  pm_kind :: prompt_kind
  pm_workspaceId :: string
  pm_workspaceName :: string
  pm_actorName :: "string option"
  pm_state :: prompt_status
  pm_createdAt :: int
  pm_resolvedAt :: "int option"

record held_prompt =
  hp_prompt :: prompt
  hp_until :: int
  hp_timer :: bool

record prompt_store =
  ps_held :: "held_prompt list"
  ps_reports :: "prompt list"

definition new_prompts :: prompt_store where
  "new_prompts = \<lparr>ps_held = [], ps_reports = []\<rparr>"

record prompt_opts =
  pp_ttlMs :: int
  pp_cap :: nat

definition WORKSPACE_PROMPT_TTL_MS :: int where "WORKSPACE_PROMPT_TTL_MS = 10 * 60000"
definition WORKSPACE_PROMPTS_CAP :: nat where "WORKSPACE_PROMPTS_CAP = 8"

definition default_prompt_opts :: prompt_opts where
  "default_prompt_opts = \<lparr>pp_ttlMs = WORKSPACE_PROMPT_TTL_MS, pp_cap = WORKSPACE_PROMPTS_CAP\<rparr>"

definition is_open :: "held_prompt \<Rightarrow> bool" where
  "is_open h \<longleftrightarrow> pm_state (hp_prompt h) = PromptOpen"

subsection \<open>Closing\<close>

definition closed_prompt :: "prompt_opts \<Rightarrow> int \<Rightarrow> prompt_status \<Rightarrow> held_prompt \<Rightarrow> held_prompt" where
  "closed_prompt opts now st h =
     \<lparr>hp_prompt = (hp_prompt h)\<lparr>pm_state := st, pm_resolvedAt := Some now\<rparr>, hp_until = now + pp_ttlMs opts, hp_timer = False\<rparr>"

text \<open>Every open prompt that matches is closed and reported, in the order of the list.\<close>

definition closes_where :: "prompt_opts \<Rightarrow> int \<Rightarrow> (held_prompt \<Rightarrow> bool) \<Rightarrow> prompt_status \<Rightarrow> prompt_store \<Rightarrow> prompt_store" where
  "closes_where opts now match st s =
     s\<lparr>ps_held := map (\<lambda>h. if is_open h \<and> match h then closed_prompt opts now st h else h) (ps_held s),
       ps_reports := ps_reports s @ map (\<lambda>h. hp_prompt (closed_prompt opts now st h)) (filter (\<lambda>h. is_open h \<and> match h) (ps_held s))\<rparr>"

definition sweep_prompts :: "prompt_opts \<Rightarrow> int \<Rightarrow> prompt_store \<Rightarrow> prompt_store" where
  "sweep_prompts opts now s =
     (let s1 = closes_where opts now (\<lambda>h. hp_until h \<le> now) PromptExpired s
      in s1\<lparr>ps_held := filter (\<lambda>h. is_open h \<or> hp_until h > now) (ps_held s1)\<rparr>)"

subsection \<open>The operations\<close>

definition list_prompts :: "prompt_opts \<Rightarrow> int \<Rightarrow> prompt_store \<Rightarrow> prompt list \<times> prompt_store" where
  "list_prompts opts now s = (let s1 = sweep_prompts opts now s in (map hp_prompt (ps_held s1), s1))"

definition get_prompt :: "prompt_opts \<Rightarrow> int \<Rightarrow> string \<Rightarrow> prompt_store \<Rightarrow> prompt option \<times> prompt_store" where
  "get_prompt opts now i s = (let s1 = sweep_prompts opts now s in (find (\<lambda>p. pm_id p = i) (map hp_prompt (ps_held s1)), s1))"

definition oldest_open :: "held_prompt list \<Rightarrow> held_prompt option" where
  "oldest_open opened = (case find (\<lambda>h. pm_kind (hp_prompt h) = DeletePrompt) opened of
      Some h \<Rightarrow> Some h
    | None \<Rightarrow> (case opened of [] \<Rightarrow> None | h # hs \<Rightarrow> Some h))"

definition open_prompt :: "prompt_opts \<Rightarrow> int \<Rightarrow> string \<Rightarrow> prompt_kind \<Rightarrow> string \<Rightarrow> string \<Rightarrow> string option \<Rightarrow> prompt_store \<Rightarrow> prompt \<times> prompt_store" where
  "open_prompt opts now fresh kind workspaceId workspaceName actorName s =
     (let s1 = sweep_prompts opts now s;
          s2 = (if kind = SwitchPrompt then closes_where opts now (\<lambda>h. pm_kind (hp_prompt h) = SwitchPrompt) PromptSuperseded s1 else s1);
          opened = filter is_open (ps_held s2);
          s3 = (if length opened \<ge> pp_cap opts
            then (case oldest_open opened of
                None \<Rightarrow> s2
              | Some old \<Rightarrow> closes_where opts now (\<lambda>h. pm_id (hp_prompt h) = pm_id (hp_prompt old)) PromptExpired s2)
            else s2);
          p = \<lparr>pm_id = fresh, pm_kind = kind, pm_workspaceId = workspaceId, pm_workspaceName = workspaceName,
               pm_actorName = (case actorName of None \<Rightarrow> None | Some n \<Rightarrow> if n = [] then None else Some n),
               pm_state = PromptOpen, pm_createdAt = now, pm_resolvedAt = None\<rparr>
      in (p, s3\<lparr>ps_held := ps_held s3 @ [\<lparr>hp_prompt = p, hp_until = now + pp_ttlMs opts, hp_timer = True\<rparr>], ps_reports := ps_reports s3 @ [p]\<rparr>))"

definition resolve_prompt :: "prompt_opts \<Rightarrow> int \<Rightarrow> string \<Rightarrow> prompt_status \<Rightarrow> prompt_store \<Rightarrow> prompt_store" where
  "resolve_prompt opts now i st s = closes_where opts now (\<lambda>h. pm_id (hp_prompt h) = i) st (sweep_prompts opts now s)"

definition supersedeSwitches :: "prompt_opts \<Rightarrow> int \<Rightarrow> prompt_store \<Rightarrow> prompt_store" where
  "supersedeSwitches opts now s = closes_where opts now (\<lambda>h. pm_kind (hp_prompt h) = SwitchPrompt) PromptSuperseded (sweep_prompts opts now s)"

definition expireFor :: "prompt_opts \<Rightarrow> int \<Rightarrow> string \<Rightarrow> prompt_store \<Rightarrow> prompt_store" where
  "expireFor opts now workspaceId s = closes_where opts now (\<lambda>h. pm_workspaceId (hp_prompt h) = workspaceId) PromptExpired (sweep_prompts opts now s)"

subsection \<open>Runs\<close>

datatype prompt_op =
    PromptsList int
  | PromptGets int string
  | PromptOpens int prompt_kind string string "string option"
  | PromptResolves int string prompt_status
  | PromptSupersedes int
  | PromptExpires int string
  | PromptTimer int

definition opened_so_far :: "prompt_store \<Rightarrow> nat" where
  "opened_so_far s = length (filter (\<lambda>p. pm_state p = PromptOpen) (ps_reports s))"

text \<open>The ids are a supply, taken one by one. A prompt is never resolved to open.\<close>

fun prompt_step :: "prompt_opts \<Rightarrow> (nat \<Rightarrow> string) \<Rightarrow> prompt_store \<Rightarrow> prompt_op \<Rightarrow> prompt_store" where
  "prompt_step opts ids s (PromptsList now) = snd (list_prompts opts now s)"
| "prompt_step opts ids s (PromptGets now i) = snd (get_prompt opts now i s)"
| "prompt_step opts ids s (PromptOpens now kind ws name actor) = snd (open_prompt opts now (ids (opened_so_far s)) kind ws name actor s)"
| "prompt_step opts ids s (PromptResolves now i st) = (if st = PromptOpen then s else resolve_prompt opts now i st s)"
| "prompt_step opts ids s (PromptSupersedes now) = supersedeSwitches opts now s"
| "prompt_step opts ids s (PromptExpires now ws) = expireFor opts now ws s"
| "prompt_step opts ids s (PromptTimer now) = sweep_prompts opts now s"

text \<open>
  A report in order: a prompt is reported open once, and closed at most once, after it was opened, with
  nothing else about it changed.
\<close>

definition report_ok :: "prompt list \<Rightarrow> prompt \<Rightarrow> bool" where
  "report_ok past p = (if pm_state p = PromptOpen then list_all (\<lambda>q. pm_id q \<noteq> pm_id p) past
     else list_ex (\<lambda>q. q = p\<lparr>pm_state := PromptOpen, pm_resolvedAt := None\<rparr>) past \<and> list_all (\<lambda>q. pm_id q = pm_id p \<longrightarrow> pm_state q = PromptOpen) past)"

definition pids :: "prompt_store \<Rightarrow> string list" where
  "pids s = map (pm_id \<circ> hp_prompt) (ps_held s)"

text \<open>A prompt that is open in the list was reported open, and was not reported closed.\<close>

definition open_reported :: "prompt list \<Rightarrow> held_prompt \<Rightarrow> bool" where
  "open_reported rs h \<longleftrightarrow> hp_prompt h \<in> set rs \<and> pm_resolvedAt (hp_prompt h) = None \<and> (\<forall>q \<in> set rs. pm_id q = pm_id (hp_prompt h) \<longrightarrow> pm_state q = PromptOpen)"

definition prompts_inv :: "(nat \<Rightarrow> string) \<Rightarrow> prompt_store \<Rightarrow> bool" where
  "prompts_inv ids s \<longleftrightarrow> checked report_ok [] (ps_reports s) \<and> distinct (pids s) \<and> (\<forall>h \<in> set (ps_held s). is_open h \<longrightarrow> open_reported (ps_reports s) h)
     \<and> (\<forall>p \<in> set (ps_reports s). \<exists>k < opened_so_far s. pm_id p = ids k) \<and> (\<forall>h \<in> set (ps_held s). \<exists>p \<in> set (ps_reports s). pm_id p = pm_id (hp_prompt h))"

lemma closed_fields [simp]:
  "pm_id (hp_prompt (closed_prompt opts now st h)) = pm_id (hp_prompt h)" "pm_kind (hp_prompt (closed_prompt opts now st h)) = pm_kind (hp_prompt h)"
  "pm_state (hp_prompt (closed_prompt opts now st h)) = st" "is_open (closed_prompt opts now st h) \<longleftrightarrow> st = PromptOpen"
  by (simp_all add: closed_prompt_def is_open_def)

text \<open>Closing prompts that are open and distinct reports each in order.\<close>

lemma closing_reports:
  assumes "distinct (map (pm_id \<circ> hp_prompt) hs)" "\<forall>h \<in> set hs. is_open h \<and> open_reported past h" "st \<noteq> PromptOpen"
  shows "checked report_ok past (map (\<lambda>h. hp_prompt (closed_prompt opts now st h)) hs)"
  using assms
proof (induction hs arbitrary: past)
  case (Cons h hs)
  have h: "hp_prompt h \<in> set past" "pm_state (hp_prompt h) = PromptOpen" "pm_resolvedAt (hp_prompt h) = None"
    "\<forall>q \<in> set past. pm_id q = pm_id (hp_prompt h) \<longrightarrow> pm_state q = PromptOpen"
    using Cons.prems(2) by (auto simp: open_reported_def is_open_def)
  have "(hp_prompt (closed_prompt opts now st h))\<lparr>pm_state := PromptOpen, pm_resolvedAt := None\<rparr> = hp_prompt h"
    using h(2,3) by (simp add: closed_prompt_def)
  then have "report_ok past (hp_prompt (closed_prompt opts now st h))"
    using h(1,4) Cons.prems(3) by (auto simp: report_ok_def list_ex_iff list_all_iff)
  moreover have "\<forall>g \<in> set hs. is_open g \<and> open_reported (past @ [hp_prompt (closed_prompt opts now st h)]) g"
    using Cons.prems(1,2) by (force simp: open_reported_def)
  ultimately show ?case using Cons by simp
qed simp

lemma closes_inv:
  assumes i: "prompts_inv ids s" and st: "st \<noteq> PromptOpen"
  shows "prompts_inv ids (closes_where opts now match st s)"
proof -
  let ?c = "closes_where opts now match st s"
  let ?hs = "filter (\<lambda>h. is_open h \<and> match h) (ps_held s)"
  have d: "distinct (pids s)" using i by (simp add: prompts_inv_def)
  have ids: "pids ?c = pids s" by (simp add: pids_def closes_where_def)
  have "distinct (map (pm_id \<circ> hp_prompt) ?hs)" using d by (simp add: pids_def distinct_map_filter)
  then have "checked report_ok (ps_reports s) (map (\<lambda>h. hp_prompt (closed_prompt opts now st h)) ?hs)"
    using i st by (intro closing_reports) (auto simp: prompts_inv_def)
  then have "checked report_ok [] (ps_reports ?c)" using i by (simp add: closes_where_def prompts_inv_def)
  moreover have "opened_so_far ?c = opened_so_far s" using st by (simp add: opened_so_far_def closes_where_def filter_empty_conv)
  moreover have "open_reported (ps_reports ?c) h" if "h \<in> set (ps_held ?c)" "is_open h" for h
  proof -
    have h: "h \<in> set (ps_held s)" "\<not> match h" using that st by (auto simp: closes_where_def)
    then have r: "open_reported (ps_reports s) h" using i that(2) by (simp add: prompts_inv_def)
    have "pm_id (hp_prompt g) \<noteq> pm_id (hp_prompt h)" if "g \<in> set ?hs" for g
      using that h d by (auto simp: pids_def distinct_map inj_on_def)
    with r show ?thesis by (auto simp: open_reported_def closes_where_def)
  qed
  moreover have "\<forall>p \<in> set (ps_reports ?c). \<exists>k < opened_so_far s. pm_id p = ids k"
    using i by (fastforce simp: prompts_inv_def closes_where_def)
  moreover have "\<forall>h \<in> set (ps_held ?c). \<exists>p \<in> set (ps_reports ?c). pm_id p = pm_id (hp_prompt h)"
    using i by (fastforce simp: prompts_inv_def closes_where_def)
  ultimately show ?thesis using d ids by (simp add: prompts_inv_def)
qed

lemma keeps_inv: "prompts_inv ids s \<Longrightarrow> prompts_inv ids (s\<lparr>ps_held := filter P (ps_held s)\<rparr>)"
  by (auto simp: prompts_inv_def pids_def opened_so_far_def distinct_map_filter)

lemma sweep_inv: "prompts_inv ids s \<Longrightarrow> prompts_inv ids (sweep_prompts opts now s)"
  by (simp add: sweep_prompts_def Let_def keeps_inv closes_inv)

subsection \<open>How many are open\<close>

definition opens :: "prompt_store \<Rightarrow> held_prompt list" where
  "opens s = filter is_open (ps_held s)"

definition is_switch :: "held_prompt \<Rightarrow> bool" where
  "is_switch h \<longleftrightarrow> pm_kind (hp_prompt h) = SwitchPrompt"

definition counts_ok :: "prompt_opts \<Rightarrow> prompt_store \<Rightarrow> bool" where
  "counts_ok opts s \<longleftrightarrow> length (filter is_switch (opens s)) \<le> 1 \<and> length (opens s) \<le> pp_cap opts"

lemma opens_closes: "st \<noteq> PromptOpen \<Longrightarrow> opens (closes_where opts now match st s) = filter (\<lambda>h. \<not> match h) (opens s)"
proof -
  assume st: "st \<noteq> PromptOpen"
  have "filter is_open (map (\<lambda>h. if is_open h \<and> match h then closed_prompt opts now st h else h) hs) = filter (\<lambda>h. \<not> match h) (filter is_open hs)" for hs
    using st by (induction hs) auto
  then show ?thesis by (simp add: opens_def closes_where_def)
qed

lemma opens_sweep: "opens (sweep_prompts opts now s) = filter (\<lambda>h. \<not> hp_until h \<le> now) (opens s)"
proof -
  have "filter is_open (filter (\<lambda>h. is_open h \<or> P h) hs) = filter is_open hs" for P hs
    by (induction hs) auto
  then show ?thesis using opens_closes [of PromptExpired opts now "\<lambda>h. hp_until h \<le> now" s] by (simp add: sweep_prompts_def Let_def opens_def)
qed

lemma counts_filter: "counts_ok opts s \<Longrightarrow> opens s' = filter P (opens s) \<Longrightarrow> counts_ok opts s'"
proof -
  assume c: "counts_ok opts s" and o: "opens s' = filter P (opens s)"
  have "filter is_switch (filter P hs) = filter P (filter is_switch hs)" for hs by (induction hs) auto
  then have "length (filter is_switch (opens s')) \<le> length (filter is_switch (opens s))" "length (opens s') \<le> length (opens s)"
    unfolding o by (metis length_filter_le)+
  then show ?thesis using c unfolding counts_ok_def by linarith
qed

lemma oldest_open_in: "hs \<noteq> [] \<Longrightarrow> \<exists>h. oldest_open hs = Some h \<and> h \<in> set hs"
proof (cases "find (\<lambda>h. pm_kind (hp_prompt h) = DeletePrompt) hs")
  case (Some h)
  then have "h \<in> set hs" by (auto simp: find_Some_iff)
  with Some show ?thesis by (simp add: oldest_open_def)
next
  case None
  assume "hs \<noteq> []"
  with None show ?thesis by (cases hs) (simp_all add: oldest_open_def)
qed

lemma counts_open:
  assumes c: "counts_ok opts s" and cap: "0 < pp_cap opts"
  shows "counts_ok opts (snd (open_prompt opts now fresh kind ws name actor s))"
proof -
  define s1 where "s1 = sweep_prompts opts now s"
  define s2 where "s2 = (if kind = SwitchPrompt then closes_where opts now (\<lambda>h. pm_kind (hp_prompt h) = SwitchPrompt) PromptSuperseded s1 else s1)"
  define s3 where "s3 = (if length (filter is_open (ps_held s2)) \<ge> pp_cap opts
            then (case oldest_open (filter is_open (ps_held s2)) of
                None \<Rightarrow> s2
              | Some old \<Rightarrow> closes_where opts now (\<lambda>h. pm_id (hp_prompt h) = pm_id (hp_prompt old)) PromptExpired s2)
            else s2)"
  have c1: "counts_ok opts s1" unfolding s1_def by (rule counts_filter [OF c opens_sweep])
  have c2: "counts_ok opts s2" "kind = SwitchPrompt \<Longrightarrow> filter is_switch (opens s2) = []"
    using c1 counts_filter [OF c1 opens_closes] by (auto simp: s2_def opens_closes filter_empty_conv is_switch_def)
  have c3: "opens s3 = filter P (opens s2) \<and> length (opens s3) < pp_cap opts" if "P = (if length (opens s2) \<ge> pp_cap opts
      then (\<lambda>h. pm_id (hp_prompt h) \<noteq> pm_id (hp_prompt (the (oldest_open (opens s2))))) else (\<lambda>h. True))" for P
  proof (cases "length (opens s2) \<ge> pp_cap opts")
    case True
    with cap have "opens s2 \<noteq> []" by auto
    from oldest_open_in [OF this] obtain old where old: "oldest_open (opens s2) = Some old" "old \<in> set (opens s2)" by blast
    have "length (filter (\<lambda>h. pm_id (hp_prompt h) \<noteq> pm_id (hp_prompt old)) (opens s2)) < length (opens s2)"
      by (rule length_filter_less [OF old(2)]) simp
    with True that old(1) c2(1) show ?thesis by (simp add: s3_def opens_def [symmetric] opens_closes counts_ok_def)
  qed (use that in \<open>simp add: s3_def opens_def [symmetric]\<close>)
  then obtain P where P: "opens s3 = filter P (opens s2)" "length (opens s3) < pp_cap opts" by blast
  have "counts_ok opts s3" by (rule counts_filter [OF c2(1) P(1)])
  moreover have "filter is_switch (opens s3) = []" if "kind = SwitchPrompt"
    using c2(2) [OF that] P(1) by (auto simp: filter_empty_conv)
  ultimately show ?thesis
    using P(2) unfolding open_prompt_def Let_def s1_def [symmetric] s2_def [symmetric] s3_def [symmetric]
    by (auto simp: counts_ok_def opens_def is_open_def is_switch_def)
qed

lemma counts_step:
  assumes "counts_ok opts s" "0 < pp_cap opts"
  shows "counts_ok opts (prompt_step opts ids s ev)"
proof -
  note w = counts_filter [OF assms(1) opens_sweep]
  have "counts_ok opts (closes_where opts now match st (sweep_prompts opts now' s))" if "st \<noteq> PromptOpen" for now match st now'
    by (rule counts_filter [OF w opens_closes [OF that]])
  with assms w counts_open show ?thesis
    by (cases ev) (simp_all add: list_prompts_def get_prompt_def Let_def resolve_prompt_def supersedeSwitches_def expireFor_def)
qed

lemma opened_append: "opened_so_far (s\<lparr>ps_held := hs, ps_reports := ps_reports s @ rs\<rparr>) = opened_so_far s + length (filter (\<lambda>p. pm_state p = PromptOpen) rs)"
  by (simp add: opened_so_far_def)

lemma opened_closes: "st \<noteq> PromptOpen \<Longrightarrow> opened_so_far (closes_where opts now match st s) = opened_so_far s"
  by (simp add: opened_so_far_def closes_where_def filter_empty_conv)

lemma opened_sweep: "opened_so_far (sweep_prompts opts now s) = opened_so_far s"
  using opened_closes [of PromptExpired opts now "\<lambda>h. hp_until h \<le> now" s] by (simp add: sweep_prompts_def Let_def opened_so_far_def)

lemma open_inv:
  assumes i: "prompts_inv ids s" and inj: "inj ids"
  shows "prompts_inv ids (snd (open_prompt opts now (ids (opened_so_far s)) kind ws name actor s))"
proof -
  have new: "prompts_inv ids (c\<lparr>ps_held := ps_held c @ [\<lparr>hp_prompt = p, hp_until = u, hp_timer = t\<rparr>], ps_reports := ps_reports c @ [p]\<rparr>)"
    if c: "prompts_inv ids c" "pm_id p = ids (opened_so_far c)" "pm_state p = PromptOpen" "pm_resolvedAt p = None" for c p u t
  proof -
    have fresh: "pm_id q \<noteq> pm_id p" if "q \<in> set (ps_reports c)" for q
    proof -
      have "\<exists>k < opened_so_far c. pm_id q = ids k" using c(1) that by (simp add: prompts_inv_def)
      then obtain k where "k < opened_so_far c" "pm_id q = ids k" by blast
      then show ?thesis using c(2) injD [OF inj, of k "opened_so_far c"] by auto
    qed
    then have held: "pm_id (hp_prompt h) \<noteq> pm_id p" if "h \<in> set (ps_held c)" for h
      using c(1) that unfolding prompts_inv_def by metis
    let ?h = "\<lparr>hp_prompt = p, hp_until = u, hp_timer = t\<rparr>"
    let ?c = "c\<lparr>ps_held := ps_held c @ [?h], ps_reports := ps_reports c @ [p]\<rparr>"
    have n: "opened_so_far ?c = Suc (opened_so_far c)" using c(3) by (simp add: opened_so_far_def)
    have "checked report_ok [] (ps_reports ?c)" using c(1,3) fresh by (simp add: prompts_inv_def report_ok_def list_all_iff)
    moreover have "pm_id p \<notin> set (pids c)" unfolding pids_def set_map by (metis (no_types, lifting) comp_apply held imageE)
    then have "distinct (pids ?c)" using c(1) by (simp add: prompts_inv_def pids_def)
    moreover have "open_reported (ps_reports ?c) h" if "h \<in> set (ps_held ?c)" "is_open h" for h
    proof (cases "h \<in> set (ps_held c)")
      case True
      then have "open_reported (ps_reports c) h" using c(1) that(2) by (simp add: prompts_inv_def)
      with held [OF True] show ?thesis by (auto simp: open_reported_def)
    next
      case False
      with that(1) have "h = ?h" by simp
      with c(3,4) fresh show ?thesis by (auto simp: open_reported_def)
    qed
    moreover have "\<exists>k < opened_so_far ?c. pm_id q = ids k" if "q \<in> set (ps_reports ?c)" for q
    proof (cases "q = p")
      case True
      then show ?thesis using c(2) unfolding n by (intro exI [of _ "opened_so_far c"]) simp
    next
      case False
      then have "\<exists>k < opened_so_far c. pm_id q = ids k" using c(1) that by (simp add: prompts_inv_def)
      then show ?thesis unfolding n using less_SucI by blast
    qed
    moreover have "\<exists>q \<in> set (ps_reports ?c). pm_id q = pm_id (hp_prompt h)" if "h \<in> set (ps_held ?c)" for h
    proof (cases "h \<in> set (ps_held c)")
      case True
      then have "\<exists>q \<in> set (ps_reports c). pm_id q = pm_id (hp_prompt h)" using c(1) by (simp add: prompts_inv_def)
      then show ?thesis by auto
    qed (use that in simp)
    ultimately show ?thesis unfolding prompts_inv_def by blast
  qed
  show ?thesis
    unfolding open_prompt_def Let_def snd_conv
    by (rule new) (auto simp: opened_closes opened_sweep sweep_inv [OF i] closes_inv split: option.split)
qed

lemma inv_step:
  assumes "prompts_inv ids s" "inj ids"
  shows "prompts_inv ids (prompt_step opts ids s ev)"
  using assms sweep_inv [OF assms(1)] closes_inv [OF sweep_inv [OF assms(1)]] open_inv
  by (cases ev) (simp_all add: list_prompts_def get_prompt_def Let_def resolve_prompt_def supersedeSwitches_def expireFor_def)

interpretation prompt_machine: invariant_machine "prompt_step opts ids" "\<lambda>_ _. inj ids \<and> 0 < pp_cap opts" "\<lambda>s. prompts_inv ids s \<and> counts_ok opts s" for opts ids
  by unfold_locales (use inv_step counts_step in blast)

text \<open>
  C29: Prompts keep their discipline: in every run there is at most one open request to switch and at
  most the cap of open prompts in all, and every prompt is reported open once and closed at most once,
  after that, with its closing changing nothing else.
\<close>
theorem prompts_keep_discipline:
  assumes "inj ids" "0 < pp_cap opts"
  shows "length (filter (\<lambda>h. is_open h \<and> pm_kind (hp_prompt h) = SwitchPrompt) (ps_held (foldl (prompt_step opts ids) new_prompts ops))) \<le> 1
     \<and> length (filter is_open (ps_held (foldl (prompt_step opts ids) new_prompts ops))) \<le> pp_cap opts
     \<and> checked report_ok [] (ps_reports (foldl (prompt_step opts ids) new_prompts ops))"
proof -
  have ok: "prompt_machine.run_ok opts ids s ops" for s
  proof (induction ops arbitrary: s)
    case (Cons ev ops)
    with assms show ?case unfolding prompt_machine.run_ok.simps by blast
  qed (simp only: prompt_machine.run_ok.simps)
  have "prompts_inv ids new_prompts \<and> counts_ok opts new_prompts" by (simp add: prompts_inv_def counts_ok_def new_prompts_def pids_def opens_def)
  from prompt_machine.run_inv [OF this ok] show ?thesis
    by (simp add: prompts_inv_def counts_ok_def opens_def is_switch_def conj_commute)
qed

definition numbered :: "nat \<Rightarrow> string" where
  "numbered n = replicate n CHR ''p''"

theorem prompts_keep_discipline_witness:
  "length (filter is_open (ps_held (foldl (prompt_step default_prompt_opts numbered) new_prompts
     [PromptOpens 0 SwitchPrompt ''a'' ''A'' None, PromptOpens 5 SwitchPrompt ''b'' ''B'' None, PromptResolves 6 ''p'' PromptAccepted]))) \<le> 8"
proof -
  have "inj numbered" by (rule injI) (metis numbered_def length_replicate)
  from prompts_keep_discipline [OF this, of default_prompt_opts "[PromptOpens 0 SwitchPrompt ''a'' ''A'' None, PromptOpens 5 SwitchPrompt ''b'' ''B'' None, PromptResolves 6 ''p'' PromptAccepted]"]
  show ?thesis by (simp add: default_prompt_opts_def WORKSPACE_PROMPTS_CAP_def)
qed

end
