(* ===== verification/Effects.thy ===== *)
theory Effects
  imports Prelude
begin

text \<open>
  Code that calls services which may throw, change a world the code does not see, or take time: an
  action runs over a world that consists of the services' own state and the trace of calls made so
  far with their answers. The services are functions of that state, given as parameters.
\<close>

record ('w, 'e) act_world =
  wo_state :: 'w
  wo_trace :: "'e list"

text \<open>How an action ends; \<open>Unfinished\<close> is a loop that has used up the steps it was given.\<close>

datatype ('x, 'a) act_outcome = Returned 'a | Threw 'x | Unfinished

type_synonym ('w, 'e, 'x, 'a) act = "('w, 'e) act_world \<Rightarrow> ('x, 'a) act_outcome \<times> ('w, 'e) act_world"

definition act_return :: "'a \<Rightarrow> ('w, 'e, 'x, 'a) act" where
  "act_return x s = (Returned x, s)"

definition act_throw :: "'x \<Rightarrow> ('w, 'e, 'x, 'a) act" where
  "act_throw e s = (Threw e, s)"

definition act_unfinished :: "('w, 'e, 'x, 'a) act" where
  "act_unfinished s = (Unfinished, s)"

definition act_bind :: "('w, 'e, 'x, 'a) act \<Rightarrow> ('a \<Rightarrow> ('w, 'e, 'x, 'b) act) \<Rightarrow> ('w, 'e, 'x, 'b) act" where
  "act_bind m f s = (case m s of
     (Returned x, s') \<Rightarrow> f x s'
   | (Threw e, s') \<Rightarrow> (Threw e, s')
   | (Unfinished, s') \<Rightarrow> (Unfinished, s'))"

text \<open>\<open>try { m } catch (e) { h }\<close>\<close>

definition act_catch :: "('w, 'e, 'x, 'a) act \<Rightarrow> ('x \<Rightarrow> ('w, 'e, 'x, 'a) act) \<Rightarrow> ('w, 'e, 'x, 'a) act" where
  "act_catch m h s = (case m s of
     (Returned x, s') \<Rightarrow> (Returned x, s')
   | (Threw e, s') \<Rightarrow> h e s'
   | (Unfinished, s') \<Rightarrow> (Unfinished, s'))"

text \<open>A guarded step whose handler only keeps the error.\<close>

definition attempt :: "('w, 'e, 'x, 'a) act \<Rightarrow> ('w, 'e, 'x, 'x + 'a) act" where
  "attempt m = act_catch (act_bind m (\<lambda>x. act_return (Inr x))) (\<lambda>e. act_return (Inl e))"

text \<open>One call of a service: its answer, or what it threw, becomes an event of the trace.\<close>

definition perform :: "('r \<Rightarrow> 'e) \<Rightarrow> ('x \<Rightarrow> 'e) \<Rightarrow> ('w \<Rightarrow> ('x + 'r) \<times> 'w) \<Rightarrow> ('w, 'e, 'x, 'r) act" where
  "perform ok bad f s = (case f (wo_state s) of
     (Inl e, w) \<Rightarrow> (Threw e, \<lparr>wo_state = w, wo_trace = wo_trace s @ [bad e]\<rparr>)
   | (Inr r, w) \<Rightarrow> (Returned r, \<lparr>wo_state = w, wo_trace = wo_trace s @ [ok r]\<rparr>))"

subsection \<open>What an action may do to the trace\<close>

text \<open>The events an action adds; that they all satisfy a predicate composes along the code.\<close>

definition emits :: "('e \<Rightarrow> bool) \<Rightarrow> ('w, 'e, 'x, 'a) act \<Rightarrow> bool" where
  "emits P m \<longleftrightarrow> (\<forall>s. \<exists>ts. wo_trace (snd (m s)) = wo_trace s @ ts \<and> list_all P ts)"

definition settles :: "('w, 'e, 'x, 'a) act \<Rightarrow> bool" where
  "settles m \<longleftrightarrow> (\<forall>s. fst (m s) \<noteq> Unfinished)"

definition never_throws :: "('w, 'e, 'x, 'a) act \<Rightarrow> bool" where
  "never_throws m \<longleftrightarrow> (\<forall>s. \<exists>x. fst (m s) = Returned x)"

named_theorems effect_intros \<open>rules for the events and the ending of an action, along its text\<close>

lemma emits_return [effect_intros, simp]: "emits P (act_return x)"
  by (simp add: emits_def act_return_def)

lemma emits_throw [effect_intros, simp]: "emits P (act_throw e)"
  by (simp add: emits_def act_throw_def)

lemma emits_unfinished [effect_intros, simp]: "emits P act_unfinished"
  by (simp add: emits_def act_unfinished_def)

lemma emits_perform [effect_intros]:
  "(\<And>r. P (ok r)) \<Longrightarrow> (\<And>e. P (bad e)) \<Longrightarrow> emits P (perform ok bad f)"
  by (auto simp: emits_def perform_def split: prod.splits sum.splits)

lemma emits_bind [effect_intros]:
  assumes "emits P m" "\<And>x. emits P (f x)"
  shows "emits P (act_bind m f)"
  unfolding emits_def
proof
  fix s
  obtain r s' where m: "m s = (r, s')" by (cases "m s")
  obtain ts where ts: "wo_trace s' = wo_trace s @ ts" "list_all P ts"
    using assms(1) m by (metis emits_def snd_conv)
  show "\<exists>ts. wo_trace (snd (act_bind m f s)) = wo_trace s @ ts \<and> list_all P ts"
  proof (cases r)
    case (Returned x)
    obtain us where "wo_trace (snd (f x s')) = wo_trace s' @ us" "list_all P us"
      using assms(2) by (meson emits_def)
    with m ts Returned show ?thesis by (intro exI [of _ "ts @ us"]) (simp add: act_bind_def)
  qed (use m ts in \<open>auto simp: act_bind_def\<close>)
qed

lemma emits_catch [effect_intros]:
  assumes "emits P m" "\<And>e. emits P (h e)"
  shows "emits P (act_catch m h)"
  unfolding emits_def
proof
  fix s
  obtain r s' where m: "m s = (r, s')" by (cases "m s")
  obtain ts where ts: "wo_trace s' = wo_trace s @ ts" "list_all P ts"
    using assms(1) m by (metis emits_def snd_conv)
  show "\<exists>ts. wo_trace (snd (act_catch m h s)) = wo_trace s @ ts \<and> list_all P ts"
  proof (cases r)
    case (Threw e)
    obtain us where "wo_trace (snd (h e s')) = wo_trace s' @ us" "list_all P us"
      using assms(2) by (meson emits_def)
    with m ts Threw show ?thesis by (intro exI [of _ "ts @ us"]) (simp add: act_catch_def)
  qed (use m ts in \<open>auto simp: act_catch_def\<close>)
qed

lemma emits_attempt [effect_intros]: "emits P m \<Longrightarrow> emits P (attempt m)"
  unfolding attempt_def by (intro effect_intros)

lemma emits_mono: "emits P m \<Longrightarrow> (\<And>e. P e \<Longrightarrow> Q e) \<Longrightarrow> emits Q m"
  unfolding emits_def by (metis list.pred_mono_strong)

lemma emitsD: "emits P m \<Longrightarrow> m s = (r, s') \<Longrightarrow> \<exists>ts. wo_trace s' = wo_trace s @ ts \<and> list_all P ts"
  by (metis emits_def snd_conv)

lemma settles_return [effect_intros, simp]: "settles (act_return x)"
  by (simp add: settles_def act_return_def)

lemma settles_throw [effect_intros, simp]: "settles (act_throw x)"
  by (simp add: settles_def act_throw_def)

lemma settles_perform [effect_intros, simp]: "settles (perform ok bad f)"
  by (auto simp: settles_def perform_def split: prod.splits sum.splits)

lemma settles_bind [effect_intros]: "settles m \<Longrightarrow> (\<And>x. settles (f x)) \<Longrightarrow> settles (act_bind m f)"
  by (auto simp: settles_def act_bind_def split: prod.splits act_outcome.splits) (metis fst_conv)

lemma settles_catch [effect_intros]: "settles m \<Longrightarrow> (\<And>x. settles (h x)) \<Longrightarrow> settles (act_catch m h)"
  by (auto simp: settles_def act_catch_def split: prod.splits act_outcome.splits) (metis fst_conv)

lemma attempt_never_throws [effect_intros]: "settles m \<Longrightarrow> never_throws (attempt m)"
  by (auto simp: settles_def never_throws_def attempt_def act_bind_def act_catch_def act_return_def split: prod.splits act_outcome.splits)
    (metis fst_conv)

lemma never_throws_return [effect_intros, simp]: "never_throws (act_return x)"
  by (simp add: never_throws_def act_return_def)

lemma never_throws_bind [effect_intros]:
  "never_throws m \<Longrightarrow> (\<And>x. never_throws (f x)) \<Longrightarrow> never_throws (act_bind m f)"
  by (auto simp: never_throws_def act_bind_def split: prod.splits act_outcome.splits) (metis fst_conv act_outcome.distinct)+

lemma never_throws_settles: "never_throws m \<Longrightarrow> settles m"
  by (auto simp: never_throws_def settles_def) (metis act_outcome.distinct(3))

subsection \<open>Running actions\<close>

text \<open>What an action returned, for actions that were found to return.\<close>

lemma bind_returned:
  "act_bind m f s = (r, s') \<Longrightarrow> never_throws m \<Longrightarrow> \<exists>x t. m s = (Returned x, t) \<and> f x t = (r, s')"
  by (auto simp: never_throws_def act_bind_def split: prod.splits act_outcome.splits) (metis fst_conv act_outcome.distinct)+

lemma bind_cases:
  assumes "act_bind m f s = (r, s')"
  obtains (ret) x t where "m s = (Returned x, t)" "f x t = (r, s')"
    | (threw) e where "m s = (Threw e, s')" "r = Threw e"
    | (unfinished) "m s = (Unfinished, s')" "r = Unfinished"
  using assms by (auto simp: act_bind_def split: prod.splits act_outcome.splits)

lemma perform_cases:
  assumes "perform ok bad f s = (r, s')"
  obtains (ok) x where "r = Returned x" "wo_trace s' = wo_trace s @ [ok x]"
    | (bad) e where "r = Threw e" "wo_trace s' = wo_trace s @ [bad e]"
  using assms by (auto simp: perform_def split: prod.splits sum.splits)

lemma attempt_cases:
  assumes "attempt m s = (r, s')" "settles m"
  obtains (ok) x where "m s = (Returned x, s')" "r = Returned (Inr x)"
    | (bad) e where "m s = (Threw e, s')" "r = Returned (Inl e)"
  using assms by (auto simp: attempt_def act_bind_def act_catch_def act_return_def settles_def split: prod.splits act_outcome.splits)
    (metis fst_conv)

lemmas act_defs = act_return_def act_throw_def act_bind_def act_catch_def attempt_def act_unfinished_def

end
