(* ===== verification/HomeService.thy ===== *)
theory HomeService
  imports HomeState HomePrompts Effects
begin

text \<open>
  The service of stored workspaces (\<open>server/src/workspace/service.ts\<close>), reading and applying: for one
  identity in one space. An operation is an action over the tables, the prompts and the number of
  transactions so far, and its trace is what it pushes to the identity's windows. A transaction may
  fail, by what it does or by the database. The writes of one identity and space are queued, so their
  actions run one at a time and whole.
\<close>

subsection \<open>The world\<close>

record home =
  hm_store :: home_store
  hm_prompts :: prompt_store
  hm_txs :: nat

datatype home_code = CodeNotFound | CodeConflict | CodeInvalid

text \<open>An error with its reason, a target that refuses, or an error of the database.\<close>

datatype home_error =
    HomeFault home_code string
  | HomeRefused refused_status reason "ws_ref option" "(string \<times> string option) option"
  | HomeSql sql_error

record manage_actor =
  ma_class :: actor_class
  ma_name :: "string option"
  ma_id :: "string option"

datatype summary_cause = CauseCreated | CauseRenamed | CauseRecolored | CauseReordered | CauseDeleted | CauseSwitched | CauseAgentChange

record applied =
  ap_result :: result
  ap_workspace :: "ws_ref option"
  ap_tabIds :: "string list option"
  ap_outcomes :: "outcome list option"
  ap_unavailable :: "string list option"
  ap_pin :: "(string \<times> string option) option"

definition plain_applied :: "result \<Rightarrow> ws_ref option \<Rightarrow> applied" where
  "plain_applied r w = \<lparr>ap_result = r, ap_workspace = w, ap_tabIds = None, ap_outcomes = None, ap_unavailable = None, ap_pin = None\<rparr>"

record state_cause =
  sc_instanceId :: "string option"
  sc_requestId :: string
  sc_result :: applied
  sc_actor :: "(actor_class \<times> string option) option"

datatype home_frame =
    FrameState string bool nat wstate "state_cause option"
  | FrameDraft string string string nat "(string \<times> draft_field) list" "string option"
  | FrameDraftGone string string
  | FrameSummary nat "string option" "ws_summary list" "(summary_cause \<times> string \<times> actor_class \<times> string option) option"
  | FrameSwitched string "string option" nat
  | FramePrompt prompt
  | FrameApplied "string option" string applied

text \<open>A frame pushed to every live window of the identity in the space that the options let through.\<close>

datatype home_event = HomePush push_options home_frame

type_synonym 'a home_act = "(home, home_event, home_error, 'a) act"

record home_env =
  he_spaceId :: string
  he_member :: bool
  he_actorId :: "string option"
  he_down :: "nat \<Rightarrow> sql_error option"
  he_now :: "nat \<Rightarrow> int"
  he_fresh :: "nat \<Rightarrow> nat \<Rightarrow> string"
  he_stateSize :: "wstate \<Rightarrow> nat"
  he_fieldsSize :: "(string \<times> draft_field) list \<Rightarrow> nat"
  he_readable :: "nat \<Rightarrow> string \<Rightarrow> bool"
  he_newId :: "nat \<Rightarrow> string"
  he_windows :: "instance_view list"
  he_clock :: "home \<Rightarrow> int"
  he_promptOpts :: prompt_opts
  he_promptIds :: "nat \<Rightarrow> string"

definition to_all :: push_options where
  "to_all = \<lparr>po_only = None, po_capableOnly = False, po_shows = None\<rparr>"

definition to_capable :: push_options where
  "to_capable = to_all\<lparr>po_capableOnly := True\<rparr>"

definition push_home :: "push_options \<Rightarrow> home_frame \<Rightarrow> unit home_act" where
  "push_home po f s = (Returned (), s\<lparr>wo_trace := wo_trace s @ [HomePush po f]\<rparr>)"

definition sql_env_of :: "home_env \<Rightarrow> nat \<Rightarrow> sql_env" where
  "sql_env_of e n = \<lparr>qe_member = he_member e, qe_actor = he_actorId e, qe_now = he_now e n, qe_fresh = he_fresh e n,
     qe_stateSize = he_stateSize e, qe_fieldsSize = he_fieldsSize e\<rparr>"

text \<open>One transaction: its writes count only when it does not fail.\<close>

definition home_tx :: "home_env \<Rightarrow> (sql_env \<Rightarrow> home_store \<Rightarrow> home_error + 'a \<times> home_store) \<Rightarrow> 'a home_act" where
  "home_tx e f s =
     (let n = hm_txs (wo_state s); w = (wo_state s)\<lparr>hm_txs := Suc n\<rparr> in
      case he_down e n of
        Some x \<Rightarrow> (Threw (HomeSql x), s\<lparr>wo_state := w\<rparr>)
      | None \<Rightarrow> (case f (sql_env_of e n) (hm_store w) of
            Inl x \<Rightarrow> (Threw x, s\<lparr>wo_state := w\<rparr>)
          | Inr (a, st) \<Rightarrow> (Returned a, s\<lparr>wo_state := w\<lparr>hm_store := st\<rparr>\<rparr>)))"

definition sql_ok :: "sql_error + 'a \<times> home_store \<Rightarrow> home_error + 'a \<times> home_store" where
  "sql_ok r = (case r of Inl x \<Rightarrow> Inl (HomeSql x) | Inr y \<Rightarrow> Inr y)"

text \<open>Prompts change in memory; each change is pushed to the windows that can show it.\<close>

definition on_prompts :: "home_env \<Rightarrow> (int \<Rightarrow> prompt_store \<Rightarrow> 'a \<times> prompt_store) \<Rightarrow> 'a home_act" where
  "on_prompts e f s =
     (case f (he_clock e (wo_state s)) (hm_prompts (wo_state s)) of (a, p) \<Rightarrow>
        (Returned a, \<lparr>wo_state = (wo_state s)\<lparr>hm_prompts := p\<rparr>,
           wo_trace = wo_trace s @ map (\<lambda>r. HomePush to_capable (FramePrompt r)) (drop (length (ps_reports (hm_prompts (wo_state s)))) (ps_reports p))\<rparr>))"

subsection \<open>Loading and saving\<close>

record loaded =
  ld_workspaceId :: "string option"
  ld_revision :: nat
  ld_state :: wstate
  ld_exists :: bool
  ld_drafts :: "(string \<times> draft_row) list"

definition loaded_of :: "home_env \<Rightarrow> ws_row option \<Rightarrow> home_store \<Rightarrow> loaded" where
  "loaded_of e row s = (case row of
      None \<Rightarrow> \<lparr>ld_workspaceId = None, ld_revision = 0, ld_state = defaultWorkspaceState (he_spaceId e) [] [], ld_exists = False, ld_drafts = []\<rparr>
    | Some r \<Rightarrow>
        (let st = (case sanitizeStored (wr_state r) (he_spaceId e) of None \<Rightarrow> defaultWorkspaceState (he_spaceId e) [] [] | Some st \<Rightarrow> st)
         in \<lparr>ld_workspaceId = Some (wr_id r), ld_revision = wr_revision r, ld_state = st\<lparr>revision := wr_revision r\<rparr>, ld_exists = True,
             ld_drafts = map (\<lambda>((w, d), x). (d, x)) (filter (\<lambda>((w, d), x). w = wr_id r) (hs_drafts s))\<rparr>))"

definition no_workspace :: home_error where
  "no_workspace = HomeFault CodeNotFound ''workspace_not_found''"

definition load_workspace :: "home_env \<Rightarrow> string option \<Rightarrow> loaded home_act" where
  "load_workspace e i = home_tx e (\<lambda>q s. case i of
      None \<Rightarrow> Inr (loaded_of e None s, s)
    | Some w \<Rightarrow> (case (if qe_member q then row_at s w else None) of
          None \<Rightarrow> Inl no_workspace
        | Some r \<Rightarrow> Inr (loaded_of e (Some r) s, s)))"

definition save_state :: "home_env \<Rightarrow> string option \<Rightarrow> nat \<Rightarrow> nat \<Rightarrow> wstate \<Rightarrow> string option \<Rightarrow> string home_act" where
  "save_state e i expected nxt st agent = home_tx e (\<lambda>q s. sql_ok (workspace_save q i expected nxt st agent s))"

definition saveDraft :: "home_env \<Rightarrow> string \<Rightarrow> string \<Rightarrow> string \<Rightarrow> nat \<Rightarrow> (string \<times> draft_field) list option \<Rightarrow> nat home_act" where
  "saveDraft e w d kind expected fs = home_tx e (\<lambda>q s. sql_ok (workspace_draft_write q w d kind expected fs s))"

definition no_space :: home_error where
  "no_space = HomeFault CodeNotFound []"

definition in_space :: "sql_env \<Rightarrow> 'a \<times> home_store \<Rightarrow> home_error + 'a \<times> home_store" where
  "in_space q r = (if qe_member q then Inr r else Inl no_space)"

record resolved_target =
  rt_resolution :: resolution
  rt_activeId :: "string option"
  rt_count :: nat

definition target_of :: "home_env \<Rightarrow> target_request \<Rightarrow> resolved_target home_act" where
  "target_of e req = home_tx e (\<lambda>q s.
     if \<not> qe_member q then Inl no_space
     else (let ws = loadWorkspaces (tq_tabId req) (tq_draftId req) s in
       case resolveTarget ws req of
         Inl (NoWorkspace i) \<Rightarrow> Inl no_workspace
       | Inl (TargetRefused st why ref pin) \<Rightarrow> Inl (HomeRefused st why ref pin)
       | Inr r \<Rightarrow> Inr (\<lparr>rt_resolution = r, rt_activeId = wl_activeId ws, rt_count = length (wl_rows ws)\<rparr>, s)))"

definition load_list :: "home_env \<Rightarrow> workspaces home_act" where
  "load_list e = home_tx e (\<lambda>q s. in_space q (loadWorkspaces None None s, s))"

text \<open>A read resolves and then loads; a pin that does not hold is a conflict.\<close>

definition read_workspace :: "home_env \<Rightarrow> target_request \<Rightarrow> (workspaces \<times> resolution \<times> loaded) home_act" where
  "read_workspace e req = act_bind (load_list e) (\<lambda>ws. case resolveTarget ws req of
      Inl (NoWorkspace i) \<Rightarrow> act_throw no_workspace
    | Inl (TargetRefused st why ref pin) \<Rightarrow> act_throw (HomeFault CodeConflict [])
    | Inr target \<Rightarrow> act_bind (load_workspace e (rs_workspaceId target)) (\<lambda>l. act_return (ws, target, l)))"

definition is_uuid :: "string \<Rightarrow> bool" where
  "is_uuid s \<longleftrightarrow> length s = 36 \<and> list_all (\<lambda>i. if i \<in> {8, 13, 18, 23} then s ! i = CHR ''-''
     else (let n = of_char (s ! i) :: nat in (48 \<le> n \<and> n \<le> 57) \<or> (65 \<le> n \<and> n \<le> 70) \<or> (97 \<le> n \<and> n \<le> 102))) [0..<36]"

definition readable_ids :: "home_env \<Rightarrow> string list \<Rightarrow> string list home_act" where
  "readable_ids e ids = (if ids = [] then act_return []
     else (\<lambda>s. let n = hm_txs (wo_state s) in home_tx e (\<lambda>q st. Inr (filter (he_readable e n) ids, st)) s))"

subsection \<open>Reads\<close>

record get_result =
  gr_revision :: nat
  gr_state :: wstate
  gr_unavailable :: "string list"
  gr_drafts :: "(string \<times> draft_row) list"
  gr_windows :: nat
  gr_workspace :: ws_ref
  gr_activeId :: "string option"
  gr_workspaces :: "ws_summary list"

definition entity_ids :: "wstate \<Rightarrow> string list" where
  "entity_ids st = concat (map (\<lambda>(i, t). case t of EntityTab x \<Rightarrow> [et_entityId x] | _ \<Rightarrow> []) (tabs st))"

text \<open>The tabs whose entity cannot be read are named; the JSON marks them unavailable.\<close>

definition get_workspace :: "home_env \<Rightarrow> target_request \<Rightarrow> get_result home_act" where
  "get_workspace e req = act_bind (read_workspace e req) (\<lambda>(ws, target, l).
     act_bind (readable_ids e (filter is_uuid (entity_ids (ld_state l)))) (\<lambda>readable.
     act_return \<lparr>gr_revision = ld_revision l, gr_state = toStoredState (ld_state l),
       gr_unavailable = concat (map (\<lambda>(i, t). case t of EntityTab x \<Rightarrow> if et_entityId x \<in> set readable then [] else [i] | _ \<Rightarrow> []) (tabs (ld_state l))),
       gr_drafts = ld_drafts l, gr_windows = length (he_windows e), gr_workspace = rs_ref target, gr_activeId = wl_activeId ws,
       gr_workspaces = summaries ws\<rparr>))"

record list_result =
  lr_items :: "ws_summary list"
  lr_activeId :: "string option"
  lr_listRevision :: nat
  lr_cap :: nat
  lr_prompts :: "prompt list"

definition list_workspaces :: "home_env \<Rightarrow> list_result home_act" where
  "list_workspaces e = act_bind (load_list e) (\<lambda>ws. act_bind (on_prompts e (list_prompts (he_promptOpts e))) (\<lambda>ps.
     act_return \<lparr>lr_items = summaries ws, lr_activeId = wl_activeId ws, lr_listRevision = wl_listRevision ws, lr_cap = WORKSPACES_PER_IDENTITY_CAP, lr_prompts = ps\<rparr>))"

definition inspect_stored :: "home_env \<Rightarrow> target_request \<Rightarrow> (nat \<times> ws_ref \<times> inspection) home_act" where
  "inspect_stored e req = act_bind (read_workspace e req) (\<lambda>(ws, target, l). act_return (ld_revision l, rs_ref target, inspect (ld_state l)))"

text \<open>What a window gets when it registers, in order; it goes to that window alone.\<close>

datatype snapshot_frame =
    SnapSummary nat "string option" "ws_summary list"
  | SnapState "string option" nat "wstate option"
  | SnapDraft "string option" string draft_row
  | SnapPrompt prompt

definition snapshot :: "home_env \<Rightarrow> bool \<Rightarrow> (snapshot_frame list \<times> string option) home_act" where
  "snapshot e capable = act_bind (read_workspace e no_target) (\<lambda>(ws, target, l).
     act_bind (if capable then on_prompts e (list_prompts (he_promptOpts e)) else act_return []) (\<lambda>ps.
     act_return ((if capable then [SnapSummary (wl_listRevision ws) (wl_activeId ws) (summaries ws)] else [])
       @ [SnapState (ld_workspaceId l) (ld_revision l) (if ld_exists l then Some (toStoredState (ld_state l)) else None)]
       @ map (\<lambda>(d, x). SnapDraft (ld_workspaceId l) d x) (ld_drafts l)
       @ map SnapPrompt (filter (\<lambda>p. pm_state p = PromptOpen) ps), ld_workspaceId l)))"

end
