(* ===== verification/HomeApply.thy ===== *)
theory HomeApply
  imports HomeService
begin

text \<open>
  The writes of the stored-workspace service (\<open>server/src/workspace/service.ts\<close>): applying a command, the
  one-time import of a browser's state, and writing a draft.
\<close>

subsection \<open>Inputs\<close>

datatype origin = OriginWindow "string option" | OriginHttp "string option"

fun origin_instance :: "origin \<Rightarrow> string option" where
  "origin_instance (OriginWindow i) = i"
| "origin_instance (OriginHttp i) = i"

fun is_http :: "origin \<Rightarrow> bool" where
  "is_http (OriginHttp i) = True"
| "is_http (OriginWindow i) = False"

record apply_input =
  ai_env :: envelope
  ai_ids :: "string list"
  ai_requestId :: string
  ai_origin :: origin
  ai_target :: target_request
  ai_actor :: "manage_actor option"

text \<open>The actor as frames name it.\<close>

definition who :: "manage_actor \<Rightarrow> actor_class \<times> string option" where
  "who a = (ma_class a, case ma_name a of None \<Rightarrow> None | Some n \<Rightarrow> if n = [] then None else Some n)"

definition by_agent :: "apply_input \<Rightarrow> bool" where
  "by_agent i \<longleftrightarrow> is_http (ai_origin i) \<and> (case ai_actor i of None \<Rightarrow> False | Some a \<Rightarrow> ma_class a = ActorAgent)"

subsection \<open>Pushes\<close>

definition pushState :: "string \<Rightarrow> bool \<Rightarrow> nat \<Rightarrow> wstate \<Rightarrow> state_cause option \<Rightarrow> unit home_act" where
  "pushState w active n st cause = push_home (if active then to_all\<lparr>po_shows := Some w\<rparr> else to_capable) (FrameState w active n st cause)"

definition pushSummary :: "workspaces \<Rightarrow> summary_cause \<Rightarrow> string \<Rightarrow> manage_actor \<Rightarrow> unit home_act" where
  "pushSummary ws cause w a = push_home to_capable
     (FrameSummary (wl_listRevision ws) (wl_activeId ws) (summaries ws) (Some (cause, w, fst (who a), snd (who a))))"

text \<open>A command that did not commit: only the window that sent it is answered.\<close>

definition answer_window :: "apply_input \<Rightarrow> string option \<Rightarrow> applied \<Rightarrow> applied home_act" where
  "answer_window i w r = (case ai_origin i of
      OriginWindow (Some inst) \<Rightarrow>
        act_bind (push_home (to_all\<lparr>po_only := Some inst\<rparr>)
          (FrameApplied (case ap_workspace r of Some ref \<Rightarrow> (case rf_id ref of Some k \<Rightarrow> Some k | None \<Rightarrow> w) | None \<Rightarrow> w) (ai_requestId i) r)) (\<lambda>u. act_return r)
    | _ \<Rightarrow> act_return r)"

subsection \<open>Batches\<close>

datatype batch = NoBatch | BadBatch | Batch "(string \<times> string) list"

definition batch_entity :: "jsval \<Rightarrow> bool" where
  "batch_entity v \<longleftrightarrow> isRecord v \<and> isString (jget v ''kind'') \<and> isString (jget v ''entityId'')
     \<and> list_all (\<lambda>k. k = ''kind'' \<or> k = ''entityId'') (map fst (obj_of v))"

definition batchOf :: "jsval \<Rightarrow> batch" where
  "batchOf a = (case a of
      JObj ob \<Rightarrow>
        if ''entities'' \<notin> set (map fst ob) then NoBatch
        else if oget ob ''kind'' \<noteq> JUndef \<or> oget ob ''entityId'' \<noteq> JUndef \<or> \<not> isArray (oget ob ''entities'') then BadBatch
        else (let es = arr_of (oget ob ''entities'') in
          if length es < 1 \<or> length es > WORKSPACE_TAB_HARD_CAP then BadBatch
          else if list_all batch_entity es then Batch (map (\<lambda>v. (str_of (jget v ''kind''), str_of (jget v ''entityId''))) es) else BadBatch)
    | _ \<Rightarrow> NoBatch)"

definition stepOf :: "envelope \<Rightarrow> string \<times> string \<Rightarrow> nat \<Rightarrow> envelope" where
  "stepOf env entity index = env\<lparr>
     args := JObj (spread (AList.delete ''expectedRevision'' (AList.delete ''entities'' (obj_of (args env))))
       ([(''kind'', JStr (fst entity)), (''entityId'', JStr (snd entity))] @ (if index > 0 then [(''activate'', JBool False)] else []))),
     expectedRevision := (if index = 0 then expectedRevision env else None)\<rparr>"

definition batchResult :: "result list \<Rightarrow> bool \<Rightarrow> applied" where
  "batchResult rs is_batch = (let final = List.last rs; first = hd rs in
     if \<not> is_batch then plain_applied final None
     else (plain_applied (first\<lparr>res_status := (if list_ex (\<lambda>r. res_status r = Applied) rs then Applied else NoOp), res_revision := res_revision final\<rparr>) None)
       \<lparr>ap_tabIds := Some (map (\<lambda>r. case res_tabId r of None \<Rightarrow> [] | Some t \<Rightarrow> t) rs),
        ap_outcomes := Some (map (\<lambda>r. case res_outcome r of None \<Rightarrow> Reused | Some x \<Rightarrow> x) rs)\<rparr>)"

subsection \<open>Reducing\<close>

definition view_unavailable :: result where
  "view_unavailable = (plain_result status.Rejected 0)\<lparr>res_reason := Some ViewUnavailable\<rparr>"

text \<open>On the node the stored workspace is always mounted, and nobody types.\<close>

definition node_hooks :: "home_env \<Rightarrow> string list \<Rightarrow> (string \<times> draft_row) list \<Rightarrow> hooks" where
  "node_hooks e ids drafts =
     \<lparr>draftRevision = (\<lambda>d. case map_of drafts d of None \<Rightarrow> 0 | Some x \<Rightarrow> dr_revision x), captureUi = (\<lambda>i. None),
      canCreate = (\<lambda>k. isWorkspaceKind (JStr k)), newId = (\<lambda>k. if k < length ids then ids ! k else he_newId e (k - length ids)),
      openDialogHook = (\<lambda>d. view_unavailable), closeDialogHook = (\<lambda>d. view_unavailable), showWorkspaceHook = view_unavailable,
      viewMounted = True, userTyping = False\<rparr>"

definition deleted_drafts :: "reduction \<Rightarrow> string list" where
  "deleted_drafts r = concat (map (\<lambda>c. concat (map (\<lambda>x. case x of DeleteDraft d \<Rightarrow> [d] | _ \<Rightarrow> []) (wc_after c))) (rd_commits r))"

record reduced =
  rx_state :: wstate
  rx_results :: "result list"
  rx_significant :: bool
  rx_deleted :: "string list"

text \<open>Each step in order on one state; a step of a batch that would not apply ends it.\<close>

fun run_steps :: "hooks \<Rightarrow> bool \<Rightarrow> envelope list \<Rightarrow> nat \<Rightarrow> reduced \<Rightarrow> result + reduced" where
  "run_steps h is_batch [] n x = Inr x"
| "run_steps h is_batch (env # envs) n x =
     (case reduce (rx_state x) env h False n of (r, n') \<Rightarrow>
        if is_batch \<and> res_status (rd_result r) \<noteq> Applied \<and> res_status (rd_result r) \<noteq> NoOp then Inl (rd_result r)
        else run_steps h is_batch envs n' \<lparr>rx_state = rd_state r, rx_results = rx_results x @ [rd_result r],
          rx_significant = (rx_significant x \<or> list_ex wc_significant (rd_commits r)), rx_deleted = rx_deleted x @ deleted_drafts r\<rparr>)"

definition is_batch :: "batch \<Rightarrow> bool" where
  "is_batch b = (case b of Batch es \<Rightarrow> True | _ \<Rightarrow> False)"

definition steps_of :: "envelope \<Rightarrow> batch \<Rightarrow> envelope list" where
  "steps_of env b = (case b of Batch es \<Rightarrow> map (\<lambda>(k, x). stepOf env x k) (enumerate 0 es) | _ \<Rightarrow> [env])"

text \<open>One commit is one revision, however many entities it opened.\<close>

definition reduce_stored :: "home_env \<Rightarrow> apply_input \<Rightarrow> batch \<Rightarrow> loaded \<Rightarrow> result + (reduced \<times> applied)" where
  "reduce_stored e i b l =
     (case run_steps (node_hooks e (ai_ids i) (ld_drafts l)) (is_batch b) (steps_of (ai_env i) b) 0
         \<lparr>rx_state = (ld_state l)\<lparr>revision := ld_revision l\<rparr>, rx_results = [], rx_significant = False, rx_deleted = []\<rparr> of
        Inl r \<Rightarrow> Inl r
      | Inr x0 \<Rightarrow>
          (let x = (if is_batch b \<and> rx_significant x0 then x0\<lparr>rx_state := (rx_state x0)\<lparr>revision := Suc (ld_revision l)\<rparr>\<rparr> else x0);
               r0 = batchResult (rx_results x) (is_batch b);
               r = (if is_batch b then r0\<lparr>ap_result := (ap_result r0)\<lparr>res_revision := revision (rx_state x)\<rparr>\<rparr> else r0)
           in Inr (x, r)))"

subsection \<open>Applying\<close>

definition rejected_at :: "nat \<Rightarrow> reason \<Rightarrow> ws_ref \<Rightarrow> applied" where
  "rejected_at n why w = plain_applied ((plain_result status.Rejected n)\<lparr>res_reason := Some why\<rparr>) (Some w)"

definition at_revision :: "nat \<Rightarrow> ws_ref \<Rightarrow> applied \<Rightarrow> applied" where
  "at_revision n w r = r\<lparr>ap_result := (ap_result r)\<lparr>res_revision := n\<rparr>, ap_workspace := Some w\<rparr>"

text \<open>What an agent may not open because it cannot read it.\<close>

definition wanted_ids :: "envelope \<Rightarrow> batch \<Rightarrow> jsval list" where
  "wanted_ids env b = (case b of Batch es \<Rightarrow> map (JStr \<circ> snd) es | _ \<Rightarrow> [jget (args env) ''entityId''])"

definition unreadable :: "home_env \<Rightarrow> apply_input \<Rightarrow> batch \<Rightarrow> jsval list home_act" where
  "unreadable e i b = (if is_http (ai_origin i) \<and> command (ai_env i) = CTabsOpen
     then act_bind (readable_ids e (filter is_uuid (map str_of (filter isString (wanted_ids (ai_env i) b))))) (\<lambda>ok.
       act_return (uniq (filter (\<lambda>v. \<not> (isString v \<and> str_of v \<in> set ok)) (wanted_ids (ai_env i) b))))
     else act_return [])"

fun drop_drafts :: "home_env \<Rightarrow> string \<Rightarrow> bool \<Rightarrow> string list \<Rightarrow> unit home_act" where
  "drop_drafts e w active [] = act_return ()"
| "drop_drafts e w active (d # ds) =
     act_bind (attempt (saveDraft e w d ''task'' 0 None)) (\<lambda>r.
     act_bind (push_home (if active then to_all else to_capable) (FrameDraftGone w d)) (\<lambda>u. drop_drafts e w active ds))"

definition agent_mark :: "home_env \<Rightarrow> apply_input \<Rightarrow> string option" where
  "agent_mark e i = (if by_agent i then he_actorId e else None)"

text \<open>The write of a significant reduction, and what it pushes.\<close>

definition commit_stored :: "home_env \<Rightarrow> apply_input \<Rightarrow> resolution \<Rightarrow> loaded \<Rightarrow> reduced \<Rightarrow> applied \<Rightarrow> applied home_act" where
  "commit_stored e i target l x r =
     (let ref = rs_ref target; nxt = toStoredState (rx_state x); agent = agent_mark e i in
      act_bind (save_state e (ld_workspaceId l) (if ld_exists l then ld_revision l else 0) (revision (rx_state x)) nxt agent) (\<lambda>w.
      act_bind (drop_drafts e w (rf_active ref) (rx_deleted x)) (\<lambda>u.
      (let res = r\<lparr>ap_workspace := Some (if rf_id ref = None then ref\<lparr>rf_id := Some w\<rparr> else ref)\<rparr>;
           cause = (if (case origin_instance (ai_origin i) of None \<Rightarrow> False | Some k \<Rightarrow> k \<noteq> []) \<or> ai_actor i \<noteq> None
             then Some \<lparr>sc_instanceId = origin_instance (ai_origin i), sc_requestId = ai_requestId i, sc_result = res,
               sc_actor = (if is_http (ai_origin i) then map_option who (ai_actor i) else None)\<rparr> else None)
       in act_bind (pushState w (rf_active ref) (revision (rx_state x)) nxt cause) (\<lambda>u.
          if agent \<noteq> None \<and> \<not> rf_active ref
          then act_bind (home_tx e (\<lambda>q s. Inr (loadWorkspaces None None s, s))) (\<lambda>ws.
               act_bind (pushSummary ws CauseAgentChange w (the (ai_actor i))) (\<lambda>u. act_return res))
          else act_return res)))))"

definition applyNow :: "home_env \<Rightarrow> apply_input \<Rightarrow> resolution \<Rightarrow> applied home_act" where
  "applyNow e i target = act_bind (load_workspace e (rs_workspaceId target)) (\<lambda>l.
     (let ref = rs_ref target; n = ld_revision l; answer = answer_window i (ld_workspaceId l);
          b = (if command (ai_env i) = CTabsOpen then batchOf (args (ai_env i)) else NoBatch)
      in if b = BadBatch \<or> (is_batch b \<and> \<not> is_http (ai_origin i)) then answer (rejected_at n InvalidArguments ref)
         else act_bind (unreadable e i b) (\<lambda>bad.
           if bad \<noteq> [] then answer ((rejected_at n EntityUnavailable ref)\<lparr>ap_unavailable := (if is_batch b then Some (map str_of bad) else None)\<rparr>)
           else (case reduce_stored e i b l of
               Inl r \<Rightarrow> answer (at_revision n ref (plain_applied r None))
             | Inr (x, r) \<Rightarrow>
                 if \<not> rx_significant x then answer (at_revision n ref r)
                 else if length (orderedTabIds (rx_state x)) > WORKSPACE_TAB_HARD_CAP
                   \<and> length (orderedTabIds (rx_state x)) > length (orderedTabIds (ld_state l)) then answer (rejected_at n TabLimit ref)
                 else commit_stored e i target l x r))))"

definition refused_answer :: "refused_status \<Rightarrow> reason \<Rightarrow> ws_ref option \<Rightarrow> (string \<times> string option) option \<Rightarrow> applied" where
  "refused_answer st why ref pin = (plain_applied ((plain_result (case st of RefusedRejected \<Rightarrow> status.Rejected | RefusedConflict \<Rightarrow> Conflict) 0)\<lparr>res_reason := Some why\<rparr>) ref)\<lparr>ap_pin := pin\<rparr>"

definition home_apply :: "home_env \<Rightarrow> apply_input \<Rightarrow> applied home_act" where
  "home_apply e i = act_bind (attempt (target_of e (ai_target i))) (\<lambda>t. case t of
      Inl (HomeRefused st why ref pin) \<Rightarrow> answer_window i None (refused_answer st why ref pin)
    | Inl x \<Rightarrow> act_throw x
    | Inr target \<Rightarrow>
        if command (ai_env i) = CTabsCloseVisible \<and> by_agent i \<and> tq_expected (ai_target i) = None \<and> rt_count target \<ge> 2
        then act_return (rejected_at (rs_revision (rt_resolution target)) WorkspacePinRequired (rs_ref (rt_resolution target)))
        else applyNow e i (rt_resolution target))"

subsection \<open>The import of a browser's state\<close>

record imported_draft =
  id_draftId :: string
  id_kind :: string
  id_values :: "(string \<times> jsval) list"

fun import_drafts :: "home_env \<Rightarrow> string \<Rightarrow> (string \<times> string) list \<Rightarrow> imported_draft list \<Rightarrow> unit home_act" where
  "import_drafts e w kept [] = act_return ()"
| "import_drafts e w kept (d # ds) = (case map_of (rev kept) (id_draftId d) of
      None \<Rightarrow> import_drafts e w kept ds
    | Some kind \<Rightarrow>
        (let fs = map (\<lambda>(k, v). (k, \<lparr>df_v = v, df_r = 1\<rparr>)) (id_values d) in
         act_bind (attempt (saveDraft e w (id_draftId d) kind 0 (Some fs))) (\<lambda>r.
         act_bind (case r of Inr n \<Rightarrow> if n > 0 then push_home to_all (FrameDraft w (id_draftId d) kind n fs None) else act_return () | Inl x \<Rightarrow> act_return ()) (\<lambda>u.
         import_drafts e w kept ds))))"

definition importLegacy :: "home_env \<Rightarrow> jsval \<Rightarrow> imported_draft list \<Rightarrow> bool home_act" where
  "importLegacy e raw drafts = act_bind (read_workspace e no_target) (\<lambda>(ws, target, l).
     if wl_rows ws \<noteq> [] then act_return False
     else (let stored = (toStoredState (case sanitizeWorkspaceState raw (he_spaceId e) of None \<Rightarrow> defaultWorkspaceState (he_spaceId e) [] [] | Some s \<Rightarrow> s))\<lparr>revision := 1\<rparr>
       in act_bind (save_state e None 0 1 stored None) (\<lambda>w.
          act_bind (pushState w True 1 stored None) (\<lambda>u.
          act_bind (import_drafts e w (map (\<lambda>d. (dt_draftId d, dt_kind d)) (draft_tabs stored)) (take 30 drafts)) (\<lambda>u. act_return True)))))"

subsection \<open>Writing a draft\<close>

record field_change =
  fc_v :: jsval
  fc_base :: "nat option"

text \<open>Field by field, the last writer wins; what it overwrote unseen is reported.\<close>

fun patch_fields :: "(string \<times> field_change) list \<Rightarrow> (string \<times> draft_field) list \<Rightarrow> string list \<Rightarrow> ((string \<times> draft_field) list \<times> string list) option" where
  "patch_fields [] fs over = Some (fs, over)"
| "patch_fields ((name, c) # cs) fs over =
     (if name = [] \<or> length name > 100 then None
      else (let r = (case map_of fs name of None \<Rightarrow> 0 | Some x \<Rightarrow> df_r x) in
        patch_fields cs (AList.update name \<lparr>df_v = (if fc_v c = JUndef then JNull else fc_v c), df_r = Suc r\<rparr> fs)
          (if (case fc_base c of None \<Rightarrow> False | Some base \<Rightarrow> base < r) then over @ [name] else over)))"

record patched =
  pd_draftId :: string
  pd_revision :: nat
  pd_fields :: "(string \<times> draft_field) list"
  pd_overwrote :: "string list"
  pd_workspace :: ws_ref

definition mark_dirty :: "string \<Rightarrow> origin \<Rightarrow> string \<Rightarrow> apply_input" where
  "mark_dirty tabId orig requestId =
     \<lparr>ai_env = \<lparr>command = CDraftsMarkDirty, args = JObj [(''tabId'', JStr tabId), (''dirty'', JBool True)], source = System, expectedRevision = None\<rparr>,
      ai_ids = [], ai_requestId = requestId, ai_origin = orig, ai_target = no_target, ai_actor = None\<rparr>"

definition patchDraft :: "home_env \<Rightarrow> string \<Rightarrow> (string \<times> field_change) list \<Rightarrow> origin \<Rightarrow> target_request \<Rightarrow> string \<Rightarrow> patched home_act" where
  "patchDraft e draftId patch orig req requestId =
     act_bind (attempt (target_of e (req\<lparr>tq_draftId := Some draftId\<rparr>))) (\<lambda>t. case t of
       Inl (HomeRefused st why ref pin) \<Rightarrow> act_throw (HomeFault (case st of RefusedConflict \<Rightarrow> CodeConflict | RefusedRejected \<Rightarrow> CodeNotFound) [])
     | Inl x \<Rightarrow> act_throw x
     | Inr target \<Rightarrow>
         (let res = rt_resolution target in
          act_bind (load_workspace e (rs_workspaceId res)) (\<lambda>l.
          case find (\<lambda>d. dt_draftId d = draftId) (draft_tabs (ld_state l)) of
            None \<Rightarrow> act_throw (HomeFault CodeNotFound [])
          | Some tab \<Rightarrow>
              (let row = map_of (ld_drafts l) draftId in
               case patch_fields patch (case row of None \<Rightarrow> [] | Some x \<Rightarrow> dr_fields x) [] of
                 None \<Rightarrow> act_throw (HomeFault CodeInvalid [])
               | Some (fs, over) \<Rightarrow>
                   (let w = the (ld_workspaceId l) in
                    act_bind (saveDraft e w draftId (dt_kind tab) (case row of None \<Rightarrow> 0 | Some x \<Rightarrow> dr_revision x) (Some fs)) (\<lambda>n.
                    act_bind (push_home (if rf_active (rs_ref res) then to_all else to_capable)
                      (FrameDraft w draftId (dt_kind tab) n fs (case origin_instance orig of None \<Rightarrow> None | Some k \<Rightarrow> if k = [] then None else Some k))) (\<lambda>u.
                    act_bind (if is_http orig \<and> \<not> dt_dirty tab \<and> patch \<noteq> []
                      then act_bind (applyNow e (mark_dirty (dt_id tab) orig requestId) res) (\<lambda>a. act_return ()) else act_return ()) (\<lambda>u.
                    act_return \<lparr>pd_draftId = draftId, pd_revision = n, pd_fields = fs, pd_overwrote = over, pd_workspace = rs_ref res\<rparr>))))))))"

end
