(* ===== verification/HomeManage.thy ===== *)
theory HomeManage
  imports HomeApply
begin

text \<open>
  Managing the list of workspaces (\<open>server/src/workspace/service.ts\<close>): create, update, reorder, switch,
  delete, and the answer to a prompt. Each is one transaction that reads the list, refuses or writes,
  and reads the list again; then the frames. The whole of the service's operations are put together
  at the end.
\<close>

subsection \<open>Results\<close>

datatype manage_reason = ReasonSwitched | ReasonUnsaved | ReasonAgentSwitch | ReasonAgentDelete

datatype prompt_choice = ChooseSwitch | ChooseStay | ChooseDelete | ChooseKeep

record manage_result =
  mr_requestId :: string
  mr_status :: status
  mr_workspace :: "ws_summary option"
  mr_activeId :: "string option"
  mr_listRevision :: nat
  mr_reason :: "manage_reason option"
  mr_expected :: "string option"
  mr_dirtyDraftIds :: "string list"
  mr_prompt :: "prompt option"
  mr_choices :: "prompt_choice list"
  mr_delivered :: "nat option"

definition summary_in :: "workspaces \<Rightarrow> string \<Rightarrow> ws_summary option" where
  "summary_in ws w = find (\<lambda>x. sm_id x = Some w) (summaries ws)"

text \<open>The result names the workspace as it is in the list.\<close>

definition manageResult :: "string \<Rightarrow> status \<Rightarrow> workspaces \<Rightarrow> string \<Rightarrow> manage_result" where
  "manageResult requestId st ws w = \<lparr>mr_requestId = requestId, mr_status = st, mr_workspace = summary_in ws w, mr_activeId = wl_activeId ws,
     mr_listRevision = wl_listRevision ws, mr_reason = None, mr_expected = None, mr_dirtyDraftIds = [], mr_prompt = None, mr_choices = [], mr_delivered = None\<rparr>"

definition nameTaken :: "workspaces \<Rightarrow> string \<Rightarrow> string option \<Rightarrow> bool" where
  "nameTaken ws name except \<longleftrightarrow> list_ex (\<lambda>r. Some (hw_id r) \<noteq> except \<and> lower (hw_name r) = lower name) (wl_rows ws)"

definition name_taken :: home_error where
  "name_taken = HomeFault CodeConflict ''workspace_name_taken''"

text \<open>What the database refuses keeps the reason the node would have given.\<close>

definition manageFailure :: "home_error \<Rightarrow> home_error" where
  "manageFailure x = (case x of
      HomeSql (SqlState c) \<Rightarrow>
        if c = ''23505'' then name_taken
        else if c = ''53400'' then HomeFault CodeConflict ''workspace_cap''
        else if c = ''55000'' then HomeFault CodeConflict ''last_workspace''
        else if c = ''P0002'' then no_workspace
        else if c = ''22023'' then HomeFault CodeInvalid ''invalid_name''
        else x
    | _ \<Rightarrow> x)"

type_synonym 'a manage_run = "sql_env \<Rightarrow> workspaces \<Rightarrow> home_store \<Rightarrow> home_error + 'a \<times> home_store"

definition has_row :: "workspaces \<Rightarrow> string \<Rightarrow> bool" where
  "has_row ws i \<longleftrightarrow> list_ex (\<lambda>r. hw_id r = i) (wl_rows ws)"

definition manageTx :: "home_env \<Rightarrow> 'a manage_run \<Rightarrow> ('a \<times> workspaces) home_act" where
  "manageTx e run = act_catch
     (home_tx e (\<lambda>q s. if \<not> qe_member q then Inl no_space
        else (case run q (loadWorkspaces None None s) s of
            Inl x \<Rightarrow> Inl x
          | Inr (a, s') \<Rightarrow> Inr ((a, loadWorkspaces None None s'), s'))))
     (\<lambda>x. act_throw (manageFailure x))"

subsection \<open>Create, update, reorder\<close>

record home_create =
  ci_requestId :: string
  ci_name :: "string option"
  ci_color :: "string option"
  ci_before :: "string option"
  ci_actor :: manage_actor

definition create_run :: "home_env \<Rightarrow> home_create \<Rightarrow> string manage_run" where
  "create_run e i q ws s =
     (let st = toStoredState (defaultWorkspaceState (he_spaceId e) [] []) in
      if length (wl_rows ws) \<ge> WORKSPACES_PER_IDENTITY_CAP then Inl (HomeFault CodeConflict ''workspace_cap'')
      else if (case ci_name i of None \<Rightarrow> False | Some n \<Rightarrow> nameTaken ws n None) then Inl name_taken
      else if (case ci_before i of None \<Rightarrow> False | Some b \<Rightarrow> \<not> has_row ws b) then Inl no_workspace
      else (case (if wl_rows ws = [] then sql_ok (workspace_save q None 0 1 st None s) else Inr ([], s)) of
          Inl x \<Rightarrow> Inl x
        | Inr (m, s1) \<Rightarrow> sql_ok (workspace_create q (ci_name i) (ci_color i) (ci_before i) st (ma_class (ci_actor i) = ActorAgent) s1)))"

definition create_home :: "home_env \<Rightarrow> home_create \<Rightarrow> manage_result home_act" where
  "create_home e i = act_bind (manageTx e (create_run e i)) (\<lambda>(w, ws).
     act_bind (pushSummary ws CauseCreated w (ci_actor i)) (\<lambda>u. act_return (manageResult (ci_requestId i) Applied ws w)))"

text \<open>\<open>Some c\<close> sets the color to \<open>c\<close>.\<close>

record update_input =
  ui_requestId :: string
  ui_name :: "string option"
  ui_color :: "string option option"
  ui_actor :: manage_actor

definition update_run :: "string \<Rightarrow> update_input \<Rightarrow> (bool \<times> bool) manage_run" where
  "update_run w i q ws s = (case find (\<lambda>r. hw_id r = w) (wl_rows ws) of
      None \<Rightarrow> Inl no_workspace
    | Some r \<Rightarrow>
        if (case ui_name i of None \<Rightarrow> False | Some n \<Rightarrow> nameTaken ws n (Some w)) then Inl name_taken
        else (case sql_ok (workspace_update q w (ui_name i) (ui_color i) s) of
            Inl x \<Rightarrow> Inl x
          | Inr (changed, s') \<Rightarrow> Inr ((changed, ui_name i \<noteq> None \<and> ui_name i \<noteq> Some (hw_name r)), s')))"

definition update_home :: "home_env \<Rightarrow> string \<Rightarrow> update_input \<Rightarrow> manage_result home_act" where
  "update_home e w i = act_bind (manageTx e (update_run w i)) (\<lambda>((changed, renamed), ws).
     if \<not> changed then act_return (manageResult (ui_requestId i) NoOp ws w)
     else act_bind (pushSummary ws (if renamed then CauseRenamed else CauseRecolored) w (ui_actor i)) (\<lambda>u.
       act_return (manageResult (ui_requestId i) Applied ws w)))"

definition reorder_run :: "string \<Rightarrow> string option \<Rightarrow> bool manage_run" where
  "reorder_run w before_id q ws s =
     (if \<not> has_row ws w \<or> (case before_id of None \<Rightarrow> False | Some b \<Rightarrow> \<not> has_row ws b) then Inl no_workspace
      else sql_ok (workspace_reorder q w before_id s))"

definition reorder_home :: "home_env \<Rightarrow> string \<Rightarrow> string \<Rightarrow> string option \<Rightarrow> manage_actor \<Rightarrow> manage_result home_act" where
  "reorder_home e w requestId before_id a = act_bind (manageTx e (reorder_run w before_id)) (\<lambda>(changed, ws).
     if \<not> changed then act_return (manageResult requestId NoOp ws w)
     else act_bind (pushSummary ws CauseReordered w a) (\<lambda>u. act_return (manageResult requestId Applied ws w)))"

subsection \<open>Asking the human\<close>

definition ask_human :: "home_env \<Rightarrow> workspaces \<Rightarrow> string \<Rightarrow> prompt_kind \<Rightarrow> string \<Rightarrow> manage_actor \<Rightarrow> manage_result home_act" where
  "ask_human e ws w kind requestId a =
     act_bind (on_prompts e (\<lambda>now p. open_prompt (he_promptOpts e) now (he_promptIds e (opened_so_far p)) kind w
       (case find (\<lambda>r. hw_id r = w) (wl_rows ws) of None \<Rightarrow> [] | Some r \<Rightarrow> hw_name r) (ma_name a) p)) (\<lambda>pr.
     act_return ((manageResult requestId RequiresUserChoice ws w)
       \<lparr>mr_reason := Some (if kind = SwitchPrompt then ReasonAgentSwitch else ReasonAgentDelete), mr_prompt := Some pr,
        mr_choices := (if kind = SwitchPrompt then [ChooseSwitch, ChooseStay] else [ChooseDelete, ChooseKeep]),
        mr_delivered := Some (length (filter (isCapable \<circ> iv_caps) (he_windows e)))\<rparr>))"

definition accept_prompt :: "home_env \<Rightarrow> string option \<Rightarrow> unit home_act" where
  "accept_prompt e accepting = (case accepting of None \<Rightarrow> act_return ()
     | Some i \<Rightarrow> on_prompts e (\<lambda>now p. ((), resolve_prompt (he_promptOpts e) now i PromptAccepted p)))"

subsection \<open>Switching\<close>

fun push_drafts :: "string \<Rightarrow> (string \<times> draft_row) list \<Rightarrow> unit home_act" where
  "push_drafts w [] = act_return ()"
| "push_drafts w ((d, x) # ds) = act_bind (push_home to_all (FrameDraft w d (dr_kind x) (dr_revision x) (dr_fields x) None)) (\<lambda>u. push_drafts w ds)"

text \<open>The new active workspace to every window, the switch and the list to those that can show them.\<close>

definition pushSwitch :: "home_env \<Rightarrow> workspaces \<Rightarrow> string option \<Rightarrow> summary_cause \<Rightarrow> string \<Rightarrow> manage_actor \<Rightarrow> unit home_act" where
  "pushSwitch e ws previous cause w a = (case wl_activeId ws of
      None \<Rightarrow> act_return ()
    | Some now_active \<Rightarrow>
        act_bind (load_workspace e (Some now_active)) (\<lambda>l.
        act_bind (push_home to_capable (FrameSwitched now_active previous (wl_listRevision ws))) (\<lambda>u.
        act_bind (pushState now_active True (ld_revision l) (toStoredState (ld_state l)) None) (\<lambda>u.
        act_bind (push_drafts now_active (ld_drafts l)) (\<lambda>u.
        pushSummary ws cause w a)))))"

datatype switch_outcome = SwitchRefused manage_result | SwitchFrom "string option"

definition switch_run :: "string \<Rightarrow> string \<Rightarrow> string option \<Rightarrow> manage_actor \<Rightarrow> switch_outcome manage_run" where
  "switch_run w requestId expected a q ws s =
     (if \<not> has_row ws w then Inl no_workspace
      else if expected \<noteq> None \<and> expected \<noteq> wl_activeId ws then
        Inr (SwitchRefused ((manageResult requestId Conflict ws w)\<lparr>mr_reason := Some ReasonSwitched, mr_expected := expected\<rparr>), s)
      else if ma_class a = ActorAgent then Inr (SwitchFrom (wl_activeId ws), s)
      else (case sql_ok (workspace_switch q w s) of Inl x \<Rightarrow> Inl x | Inr (p, s') \<Rightarrow> Inr (SwitchFrom p, s')))"

definition switchNow :: "home_env \<Rightarrow> string \<Rightarrow> string \<Rightarrow> string option \<Rightarrow> manage_actor \<Rightarrow> string option \<Rightarrow> manage_result home_act" where
  "switchNow e w requestId expected a accepting = act_bind (manageTx e (switch_run w requestId expected a)) (\<lambda>(r, ws). case r of
      SwitchRefused m \<Rightarrow> act_return m
    | SwitchFrom previous \<Rightarrow>
        if previous = Some w then act_bind (accept_prompt e accepting) (\<lambda>u. act_return (manageResult requestId NoOp ws w))
        else if ma_class a = ActorAgent then ask_human e ws w SwitchPrompt requestId a
        else act_bind (accept_prompt e accepting) (\<lambda>u.
          act_bind (on_prompts e (\<lambda>now p. ((), supersedeSwitches (he_promptOpts e) now p))) (\<lambda>u.
          act_bind (pushSwitch e ws previous CauseSwitched w a) (\<lambda>u. act_return (manageResult requestId Applied ws w)))))"

subsection \<open>Deleting\<close>

definition dirty_drafts :: "wstate \<Rightarrow> string list" where
  "dirty_drafts st = map dt_draftId (filter dt_dirty (draft_tabs st))"

datatype remove_outcome = RemoveAsks | RemoveRefused manage_result | Removed "string option" "ws_summary option" bool

text \<open>An agent deletes only its own workspace, off screen and clean.\<close>

definition agent_may :: "home_row \<Rightarrow> manage_actor \<Rightarrow> bool \<Rightarrow> string list \<Rightarrow> bool" where
  "agent_may r a was_active dirty \<longleftrightarrow> hw_createdByActorId r \<noteq> None \<and> hw_createdByActorId r = ma_id a \<and> \<not> was_active \<and> dirty = []"

definition remove_run :: "string \<Rightarrow> string \<Rightarrow> bool \<Rightarrow> manage_actor \<Rightarrow> loaded \<Rightarrow> remove_outcome manage_run" where
  "remove_run w requestId discard a l q ws s = (case find (\<lambda>r. hw_id r = w) (wl_rows ws) of
      None \<Rightarrow> Inl no_workspace
    | Some r \<Rightarrow>
        if length (wl_rows ws) \<le> 1 then Inl (HomeFault CodeConflict ''last_workspace'')
        else
          (let was_active = (wl_activeId ws = Some w); dirty = dirty_drafts (ld_state l); agent = (ma_class a = ActorAgent) in
           if agent \<and> \<not> agent_may r a was_active dirty then Inr (RemoveAsks, s)
           else if dirty \<noteq> [] \<and> \<not> (discard \<and> \<not> agent) then
             Inr (RemoveRefused ((manageResult requestId status.Rejected ws w)\<lparr>mr_reason := Some ReasonUnsaved, mr_dirtyDraftIds := dirty\<rparr>), s)
           else (case sql_ok (workspace_delete q w s) of
               Inl x \<Rightarrow> Inl x
             | Inr (active, s') \<Rightarrow> Inr (Removed active (summary_in ws w) was_active, s'))))"

definition removeNow :: "home_env \<Rightarrow> string \<Rightarrow> string \<Rightarrow> bool \<Rightarrow> manage_actor \<Rightarrow> string option \<Rightarrow> manage_result home_act" where
  "removeNow e w requestId discard a accepting =
     act_bind (act_catch (load_workspace e (Some w)) (\<lambda>x. act_throw (case x of HomeFault CodeNotFound why \<Rightarrow> no_workspace | _ \<Rightarrow> x))) (\<lambda>l.
     act_bind (manageTx e (remove_run w requestId discard a l)) (\<lambda>(r, ws). case r of
       RemoveAsks \<Rightarrow> ask_human e ws w DeletePrompt requestId a
     | RemoveRefused m \<Rightarrow> act_return m
     | Removed active was was_active \<Rightarrow>
         act_bind (accept_prompt e accepting) (\<lambda>u.
         act_bind (on_prompts e (\<lambda>now p. ((), expireFor (he_promptOpts e) now w p))) (\<lambda>u.
         act_bind (if was_active then pushSwitch e ws (Some w) CauseDeleted w a else pushSummary ws CauseDeleted w a) (\<lambda>u.
         act_return ((manageResult requestId Applied ws w)\<lparr>mr_workspace := map_option (\<lambda>x. x\<lparr>sm_active := False\<rparr>) was, mr_activeId := active\<rparr>))))))"

subsection \<open>Answering a prompt\<close>

record answer_input =
  ri_requestId :: string
  ri_accept :: bool
  ri_discard :: bool
  ri_actor :: manage_actor

definition current_prompt :: "home_env \<Rightarrow> string \<Rightarrow> prompt option home_act" where
  "current_prompt e i = on_prompts e (\<lambda>now p. get_prompt (he_promptOpts e) now i p)"

definition end_prompt :: "home_env \<Rightarrow> string \<Rightarrow> prompt_status \<Rightarrow> unit home_act" where
  "end_prompt e i st = on_prompts e (\<lambda>now p. ((), resolve_prompt (he_promptOpts e) now i st p))"

definition answered :: "home_env \<Rightarrow> string \<Rightarrow> prompt \<Rightarrow> manage_result \<Rightarrow> manage_result home_act" where
  "answered e i p m = act_bind (current_prompt e i) (\<lambda>now_p. act_return (m\<lparr>mr_prompt := Some (case now_p of None \<Rightarrow> p | Some x \<Rightarrow> x)\<rparr>))"

definition resolvePrompt :: "home_env \<Rightarrow> string \<Rightarrow> answer_input \<Rightarrow> manage_result home_act" where
  "resolvePrompt e i inp = act_bind (current_prompt e i) (\<lambda>found. case found of
      None \<Rightarrow> act_throw (HomeFault CodeNotFound ''prompt_not_found'')
    | Some p \<Rightarrow>
        if pm_state p \<noteq> PromptOpen then act_throw (HomeFault CodeConflict ''prompt_resolved'')
        else act_bind (load_list e) (\<lambda>ws.
          let w = pm_workspaceId p; human = (ri_actor inp)\<lparr>ma_class := ActorHuman\<rparr> in
          if \<not> has_row ws w then act_bind (end_prompt e i PromptExpired) (\<lambda>u. act_throw no_workspace)
          else if \<not> ri_accept inp then act_bind (end_prompt e i PromptDeclined) (\<lambda>u. answered e i p (manageResult (ri_requestId inp) Applied ws w))
          else act_bind (if pm_kind p = SwitchPrompt then switchNow e w (ri_requestId inp) None human (Some i)
            else removeNow e w (ri_requestId inp) (ri_discard inp) human (Some i)) (answered e i p)))"

subsection \<open>All operations\<close>

datatype home_op =
    OpGet target_request
  | OpList
  | OpInspect target_request
  | OpSnapshot bool
  | OpResolve target_request
  | OpApply apply_input
  | OpImport jsval "imported_draft list"
  | OpPatch string "(string \<times> field_change) list" origin target_request string
  | OpCreate home_create
  | OpUpdate string update_input
  | OpReorder string string "string option" manage_actor
  | OpSwitch string string "string option" manage_actor
  | OpRemove string string bool manage_actor
  | OpAnswer string answer_input

definition only_effect :: "'a home_act \<Rightarrow> unit home_act" where
  "only_effect m = act_bind m (\<lambda>x. act_return ())"

fun home_act_of :: "home_env \<Rightarrow> home_op \<Rightarrow> unit home_act" where
  "home_act_of e (OpGet req) = only_effect (get_workspace e req)"
| "home_act_of e OpList = only_effect (list_workspaces e)"
| "home_act_of e (OpInspect req) = only_effect (inspect_stored e req)"
| "home_act_of e (OpSnapshot capable) = only_effect (snapshot e capable)"
| "home_act_of e (OpResolve req) = only_effect (target_of e req)"
| "home_act_of e (OpApply i) = only_effect (home_apply e i)"
| "home_act_of e (OpImport raw ds) = only_effect (importLegacy e raw ds)"
| "home_act_of e (OpPatch d p orig req rid) = only_effect (patchDraft e d p orig req rid)"
| "home_act_of e (OpCreate i) = only_effect (create_home e i)"
| "home_act_of e (OpUpdate w i) = only_effect (update_home e w i)"
| "home_act_of e (OpReorder w rid b a) = only_effect (reorder_home e w rid b a)"
| "home_act_of e (OpSwitch w rid x a) = only_effect (switchNow e w rid x a None)"
| "home_act_of e (OpRemove w rid d a) = only_effect (removeNow e w rid d a None)"
| "home_act_of e (OpAnswer i inp) = only_effect (resolvePrompt e i inp)"

text \<open>Who asks: a member or not, the actor, and the windows that are live then.\<close>

record caller =
  cl_member :: bool
  cl_actorId :: "string option"
  cl_windows :: "instance_view list"

definition as_caller :: "home_env \<Rightarrow> caller \<Rightarrow> home_env" where
  "as_caller e c = e\<lparr>he_member := cl_member c, he_actorId := cl_actorId c, he_windows := cl_windows c\<rparr>"

text \<open>An operation that throws has done what it did.\<close>

definition home_step :: "home_env \<Rightarrow> (home, home_event) act_world \<Rightarrow> caller \<times> home_op \<Rightarrow> (home, home_event) act_world" where
  "home_step e s op = snd (home_act_of (as_caller e (fst op)) (snd op) s)"

definition new_home :: "(home, home_event) act_world" where
  "new_home = \<lparr>wo_state = \<lparr>hm_store = empty_home, hm_prompts = new_prompts, hm_txs = 0\<rparr>, wo_trace = []\<rparr>"

end
