(* ===== verification/HomeTables.thy ===== *)
theory HomeTables
  imports HomeManage "HOL-Library.Multiset"
begin

text \<open>
  The tables of stored workspaces keep their shape: what every function of the database keeps of the
  rows, their order, the pointer to the active one and the drafts, and that a name is always found.
\<close>

subsection \<open>Order\<close>

text \<open>The positions are 0 to n - 1, each once.\<close>

definition positions_ok :: "ws_row list \<Rightarrow> bool" where
  "positions_ok rs \<longleftrightarrow> distinct (map wr_position rs) \<and> set (map wr_position rs) = {0..<length rs}"

lemma list_order_mset [simp]: "mset (list_order s) = mset (hs_rows s)"
  by (simp add: list_order_def)

lemma list_order_set [simp]: "set (list_order s) = set (hs_rows s)"
  by (simp add: list_order_def)

lemma list_order_length [simp]: "length (list_order s) = length (hs_rows s)"
  by (simp add: list_order_def)

lemma sorted_positions: "sorted (map wr_position (list_order s))"
proof -
  have "sorted (map (\<lambda>r. (wr_position r, wr_createdAt r, wr_id r)) (list_order s))"
    unfolding list_order_def by (rule sorted_sort_key)
  then have "sorted (map fst (map (\<lambda>r. (wr_position r, wr_createdAt r, wr_id r)) (list_order s)))"
    by (auto simp: sorted_iff_nth_mono_less less_eq_prod_def order_le_less)
  then show ?thesis by (simp add: comp_def)
qed

lemma positions_in_order:
  assumes "positions_ok (hs_rows s)"
  shows "map wr_position (list_order s) = [0..<length (hs_rows s)]"
proof (rule sorted_distinct_set_unique)
  show "sorted (map wr_position (list_order s))" by (rule sorted_positions)
  have "mset (map wr_position (list_order s)) = mset (map wr_position (hs_rows s))" by simp
  then show "distinct (map wr_position (list_order s))"
    using assms unfolding positions_ok_def by (metis mset_eq_imp_distinct_iff)
  show "set (map wr_position (list_order s)) = set [0..<length (hs_rows s)]"
    using assms by (simp add: positions_ok_def)
qed simp_all

lemma set_positions_ids [simp]: "map wr_id (set_positions ids rs) = map wr_id rs"
  by (auto simp: set_positions_def split: option.splits)

lemma set_positions_id_set [simp]: "wr_id ` set (set_positions ids rs) = wr_id ` set rs"
  using set_positions_ids [of ids rs] by (metis set_map)

lemma set_positions_names [simp]: "map (lower \<circ> wr_name) (set_positions ids rs) = map (lower \<circ> wr_name) rs"
  by (auto simp: set_positions_def split: option.splits)

lemma set_positions_length [simp]: "length (set_positions ids rs) = length rs"
  by (simp add: set_positions_def)

lemma position_of_id: "r \<in> set (set_positions ids rs) \<Longrightarrow> wr_id r \<in> set ids \<Longrightarrow> wr_position r < length ids \<and> ids ! wr_position r = wr_id r"
  by (auto simp: set_positions_def dest: index_of_Some_nth split: option.splits)

text \<open>A renumbering by a list of all the ids puts the rows in the order of that list.\<close>

lemma set_positions_ok:
  assumes ids: "distinct ids" "set ids = set (map wr_id rs)" "distinct (map wr_id rs)"
  shows "positions_ok (set_positions ids rs)"
proof -
  let ?rs = "set_positions ids rs"
  have n: "length ids = length rs" using ids by (metis distinct_card length_map)
  have pos: "wr_position r < length ids \<and> ids ! wr_position r = wr_id r" if "r \<in> set ?rs" for r
    using position_of_id [OF that] ids(2) that by (metis imageI set_map set_positions_id_set)
  have "map (\<lambda>r. ids ! wr_position r) ?rs = map wr_id ?rs" using pos by (intro map_cong) simp_all
  then have "distinct (map (\<lambda>r. ids ! wr_position r) ?rs)" using ids(3) by (simp only: set_positions_ids)
  then have d: "distinct (map wr_position ?rs)" by (auto simp: distinct_map inj_on_def)
  moreover have "set (map wr_position ?rs) = {0..<length ?rs}"
  proof (rule card_subset_eq)
    show "set (map wr_position ?rs) \<subseteq> {0..<length ?rs}" using pos n by auto
    show "card (set (map wr_position ?rs)) = card {0..<length ?rs}" using distinct_card [OF d] by simp
  qed simp
  ultimately show ?thesis by (simp add: positions_ok_def)
qed

lemma ordered_ids_placed:
  assumes ids: "distinct ids" "set ids = set (map wr_id (hs_rows s))" "distinct (map wr_id (hs_rows s))"
  shows "ordered_ids (s\<lparr>hs_rows := set_positions ids (hs_rows s)\<rparr>) = ids"
proof -
  let ?s = "s\<lparr>hs_rows := set_positions ids (hs_rows s)\<rparr>"
  have n: "length ids = length (hs_rows s)" using ids by (metis distinct_card length_map)
  have "positions_ok (hs_rows ?s)" using set_positions_ok [OF assms] by simp
  from positions_in_order [OF this] have p: "map wr_position (list_order ?s) = [0..<length ids]" using n by simp
  show ?thesis unfolding ordered_ids_def
  proof (rule nth_equalityI)
    show "length (map wr_id (list_order ?s)) = length ids" using n by simp
    fix k assume k: "k < length (map wr_id (list_order ?s))"
    let ?r = "list_order ?s ! k"
    have "?r \<in> set (list_order ?s)" using k by (intro nth_mem) simp
    then have r: "?r \<in> set (set_positions ids (hs_rows s))" by simp
    then have "wr_id ?r \<in> set ids" using ids(2) by (metis imageI set_map set_positions_id_set)
    moreover have "wr_position ?r = map wr_position (list_order ?s) ! k" using k by simp
    then have "wr_position ?r = k" unfolding p using k n by simp
    ultimately show "map wr_id (list_order ?s) ! k = ids ! k" using position_of_id [OF r] k by simp
  qed
qed

lemma ordered_ids_set [simp]: "set (ordered_ids s) = set (map wr_id (hs_rows s))"
  by (simp add: ordered_ids_def)

lemma ordered_ids_distinct [simp]: "distinct (ordered_ids s) \<longleftrightarrow> distinct (map wr_id (hs_rows s))"
proof -
  have "mset (ordered_ids s) = mset (map wr_id (hs_rows s))" unfolding ordered_ids_def by (simp only: mset_map list_order_mset)
  then show ?thesis by (metis mset_eq_imp_distinct_iff)
qed

lemma placed_ids_ok:
  assumes "distinct ids" "m \<notin> set ids"
  shows "distinct (placed_ids ids (Some m) b) \<and> set (placed_ids ids (Some m) b) = insert m (set ids)"
proof -
  have "distinct (take i ids @ [m] @ drop i ids)" "set (take i ids @ [m] @ drop i ids) = insert m (set ids)" for i
  proof -
    have "mset (take i ids @ [m] @ drop i ids) = mset (m # ids)"
      by (metis append_take_drop_id mset_append union_commute mset.simps(2) add_mset_add_single append_Cons append_Nil union_mset_add_mset_left union_mset_add_mset_right)
    then show "distinct (take i ids @ [m] @ drop i ids)" "set (take i ids @ [m] @ drop i ids) = insert m (set ids)"
      using assms by (metis mset_eq_imp_distinct_iff distinct.simps(2), metis mset_eq_setD list.simps(15))
  qed
  then show ?thesis using assms by (simp add: placed_ids_def split: option.splits)
qed

subsection \<open>A free name\<close>

lemma numbered_inj: "lower (numbered_name m) = lower (numbered_name n) \<longleftrightarrow> m = n"
proof
  have l: "lower (show_nat k) = show_nat k" for k
  proof -
    have "lower_char c = c" if "c \<in> set (show_nat k)" for c
    proof -
      have "is_digit c" using show_nat_digits that by blast
      then show ?thesis by (auto simp: is_digit_def lower_char_def Let_def)
    qed
    then show ?thesis by (simp add: lower_def map_idI)
  qed
  assume "lower (numbered_name m) = lower (numbered_name n)"
  then have "lower (show_nat m) = lower (show_nat n)" by (simp add: numbered_name_def lower_def)
  then have "show_nat m = show_nat n" by (simp only: l)
  then show "m = n" by (metis read_show_nat)
qed simp

lemma free_name_cases:
  "\<not> name_used s (lower (numbered_name (free_name s k n)))
     \<or> (\<forall>j < k. name_used s (lower (numbered_name (n + j)))) \<and> free_name s k n = n + k"
proof (induction k arbitrary: n)
  case (Suc k)
  show ?case
  proof (cases "name_used s (lower (numbered_name n))")
    case True
    have "name_used s (lower (numbered_name (n + j)))" if "j < Suc k" "\<forall>j < k. name_used s (lower (numbered_name (Suc n + j)))" for j
      using True that by (cases j) simp_all
    with True Suc [of "Suc n"] show ?thesis by auto
  qed simp
qed simp

text \<open>As many rounds as there are rows are enough: each meets another row's name.\<close>

lemma free_name_free: "\<not> name_used s (lower (numbered_name (free_name s (length (hs_rows s)) n)))"
proof
  let ?k = "length (hs_rows s)"
  let ?used = "set (map (lower \<circ> wr_name) (hs_rows s))"
  assume u: "name_used s (lower (numbered_name (free_name s ?k n)))"
  have "name_used s (lower (numbered_name (n + j)))" if "j < Suc ?k" for j
    using free_name_cases [of s ?k n] u that by (cases "j = ?k") auto
  then have "(\<lambda>j. lower (numbered_name (n + j))) ` {..<Suc ?k} \<subseteq> ?used" by (auto simp: name_used_def)
  then have "card ((\<lambda>j. lower (numbered_name (n + j))) ` {..<Suc ?k}) \<le> card ?used" by (intro card_mono) simp_all
  moreover have "inj_on (\<lambda>j. lower (numbered_name (n + j))) {..<Suc ?k}" by (simp add: inj_on_def numbered_inj)
  moreover have "card ?used \<le> ?k" by (metis card_length length_map)
  ultimately show False by (simp add: card_image)
qed

subsection \<open>What the tables keep\<close>

definition row_ok :: "(wstate \<Rightarrow> nat) \<Rightarrow> ws_row \<Rightarrow> bool" where
  "row_ok size_of r \<longleftrightarrow> workspace_name_ok (wr_name r) \<and> color_ok (wr_color r) \<and> 0 < wr_revision r \<and> size_of (wr_state r) \<le> 131072"

definition rows_ok :: "(wstate \<Rightarrow> nat) \<Rightarrow> ws_row list \<Rightarrow> bool" where
  "rows_ok size_of rs \<longleftrightarrow> distinct (map wr_id rs) \<and> distinct (map (lower \<circ> wr_name) rs) \<and> length rs \<le> WORKSPACES_PER_IDENTITY_CAP
     \<and> positions_ok rs \<and> (\<forall>r \<in> set rs. row_ok size_of r)"

text \<open>There is a pointer just when there is a workspace, and it points at one.\<close>

definition pointer_ok :: "(string \<times> nat) option \<Rightarrow> string set \<Rightarrow> bool" where
  "pointer_ok p ids \<longleftrightarrow> (case p of None \<Rightarrow> ids = {} | Some (i, n) \<Rightarrow> i \<in> ids \<and> 0 < n)"

definition drafts_of :: "string \<Rightarrow> ((string \<times> string) \<times> draft_row) list \<Rightarrow> ((string \<times> string) \<times> draft_row) list" where
  "drafts_of w = filter (\<lambda>(k, x). fst k = w)"

definition drafts_ok :: "((string \<times> draft_field) list \<Rightarrow> nat) \<Rightarrow> ((string \<times> string) \<times> draft_row) list \<Rightarrow> string set \<Rightarrow> bool" where
  "drafts_ok size_of ds ids \<longleftrightarrow> distinct (map fst ds) \<and> (\<forall>(k, x) \<in> set ds. fst k \<in> ids \<and> 0 < dr_revision x \<and> size_of (dr_fields x) \<le> 32768)
     \<and> (\<forall>w. length (drafts_of w ds) \<le> 30)"

definition home_ids :: "home_store \<Rightarrow> string set" where
  "home_ids s = wr_id ` set (hs_rows s)"

definition store_ok :: "sql_env \<Rightarrow> home_store \<Rightarrow> bool" where
  "store_ok q s \<longleftrightarrow> rows_ok (qe_stateSize q) (hs_rows s) \<and> pointer_ok (hs_active s) (home_ids s) \<and> drafts_ok (qe_fieldsSize q) (hs_drafts s) (home_ids s)"

lemma home_ids_simps [simp]: "home_ids (s\<lparr>hs_active := p\<rparr>) = home_ids s" "home_ids (s\<lparr>hs_drafts := ds\<rparr>) = home_ids s"
  by (simp_all add: home_ids_def)

lemma repair_id: "store_ok q s \<Longrightarrow> repair_pointer s = s"
proof -
  assume ok: "store_ok q s"
  have "hs_active s = None \<Longrightarrow> list_order s = []"
    using ok by (simp add: store_ok_def pointer_ok_def home_ids_def list_order_def)
  then show ?thesis by (simp add: repair_pointer_def split: option.splits)
qed

definition bumped :: "(string \<times> nat) option \<Rightarrow> (string \<times> nat) option" where
  "bumped p = map_option (\<lambda>(i, n). (i, Suc n)) p"

lemma pointer_bumped [simp]: "pointer_ok p ids \<Longrightarrow> pointer_ok (bumped p) ids"
  by (auto simp: pointer_ok_def bumped_def split: option.splits)

lemma bump_id: "store_ok q s \<Longrightarrow> workspaces_list_bump s = s\<lparr>hs_active := bumped (hs_active s)\<rparr>"
  by (simp add: workspaces_list_bump_def repair_id bumped_def)

lemma store_ok_active: "store_ok q s \<Longrightarrow> pointer_ok p (home_ids s) \<Longrightarrow> store_ok q (s\<lparr>hs_active := p\<rparr>)"
  by (simp add: store_ok_def)

lemma store_ok_bump: "store_ok q s \<Longrightarrow> store_ok q (workspaces_list_bump s)"
  by (simp add: bump_id) (simp add: store_ok_def)

lemma placed_ids_none [simp]: "placed_ids ids None b = ids"
  by (simp add: placed_ids_def)

lemma row_ok_position [simp]: "row_ok f (r\<lparr>wr_position := i\<rparr>) = row_ok f r"
  by (simp add: row_ok_def)

lemma set_positions_row_ok: "\<forall>r \<in> set rs. row_ok f r \<Longrightarrow> r \<in> set (set_positions ids rs) \<Longrightarrow> row_ok f r"
  by (auto simp: set_positions_def split: option.splits)

text \<open>A renumbering needs no positions before it.\<close>

lemma rows_ok_placed:
  assumes "distinct (map wr_id rs)" "distinct (map (lower \<circ> wr_name) rs)" "length rs \<le> WORKSPACES_PER_IDENTITY_CAP"
    "\<forall>r \<in> set rs. row_ok f r" "distinct ids" "set ids = set (map wr_id rs)"
  shows "rows_ok f (set_positions ids rs)"
  unfolding rows_ok_def using assms set_positions_row_ok set_positions_ok [OF assms(5,6,1)] by simp

lemma positions_ok_map: "(\<And>r. wr_position (g r) = wr_position r) \<Longrightarrow> positions_ok (map g rs) = positions_ok rs"
  by (simp add: positions_ok_def comp_def image_image)

lemma rows_ok_map:
  assumes "rows_ok f rs" "\<And>r. wr_id (g r) = wr_id r" "\<And>r. wr_name (g r) = wr_name r" "\<And>r. wr_position (g r) = wr_position r"
    "\<And>r. r \<in> set rs \<Longrightarrow> row_ok f (g r)"
  shows "rows_ok f (map g rs)"
  using assms positions_ok_map [of g rs] by (simp add: rows_ok_def comp_def)

lemma upd_rows_ids [simp]: "(\<And>r. wr_id (g r) = wr_id r) \<Longrightarrow> home_ids (upd_rows P g s) = home_ids s"
proof -
  assume g: "\<And>r. wr_id (g r) = wr_id r"
  have "map wr_id (hs_rows (upd_rows P g s)) = map wr_id (hs_rows s)" using g by (simp add: upd_rows_def)
  then show ?thesis unfolding home_ids_def by (metis set_map)
qed

lemma upd_rows_active [simp]: "hs_active (upd_rows P g s) = hs_active s" "hs_drafts (upd_rows P g s) = hs_drafts s"
  by (simp_all add: upd_rows_def)

lemma store_ok_upd:
  assumes "store_ok q s" "\<And>r. wr_id (g r) = wr_id r" "\<And>r. wr_name (g r) = wr_name r" "\<And>r. wr_position (g r) = wr_position r"
    "\<And>r. r \<in> set (hs_rows s) \<Longrightarrow> P (wr_id r) \<Longrightarrow> row_ok (qe_stateSize q) (g r)"
  shows "store_ok q (upd_rows P g s)"
proof -
  have "rows_ok (qe_stateSize q) (map (\<lambda>r. if P (wr_id r) then g r else r) (hs_rows s))"
    using assms by (intro rows_ok_map) (auto simp: store_ok_def rows_ok_def)
  with assms show ?thesis by (simp add: store_ok_def) (simp add: upd_rows_def)
qed

subsection \<open>The drafts\<close>

lemma drafts_of_keys: "length (drafts_of w ds) = length (filter (\<lambda>k. fst k = w) (map fst ds))"
  by (induction ds) (auto simp: drafts_of_def)

lemma alist_update_set: "set (AList.update k v al) \<subseteq> insert (k, v) (set al)"
  by (induction al) auto

lemma drafts_ok_filter:
  assumes "drafts_ok f ds ids" "\<And>k x. (k, x) \<in> set ds \<Longrightarrow> P (k, x) \<Longrightarrow> fst k \<in> ids'"
  shows "drafts_ok f (filter P ds) ids'"
proof -
  have "length (drafts_of w (filter P ds)) \<le> length (drafts_of w ds)" for w
  proof -
    have "drafts_of w (filter P ds) = filter P (drafts_of w ds)" by (simp add: drafts_of_def conj_commute)
    then show ?thesis by (metis length_filter_le)
  qed
  moreover have "length (drafts_of w ds) \<le> 30" for w using assms(1) by (simp add: drafts_ok_def)
  ultimately have "\<forall>w. length (drafts_of w (filter P ds)) \<le> 30" by (meson le_trans)
  then show ?thesis using assms by (auto simp: drafts_ok_def distinct_map_filter)
qed

lemma drafts_ok_delete: "drafts_ok f ds ids \<Longrightarrow> drafts_ok f (AList.delete k ds) ids"
  unfolding AList.delete_eq by (rule drafts_ok_filter) (auto simp: drafts_ok_def)

lemma drafts_ok_update:
  assumes "drafts_ok f ds ids" "fst k \<in> ids" "0 < dr_revision x" "f (dr_fields x) \<le> 32768"
    "map_of ds k = None \<Longrightarrow> length (drafts_of (fst k) ds) < 30"
  shows "drafts_ok f (AList.update k x ds) ids"
proof -
  have "distinct (map fst (AList.update k x ds))" using assms(1) by (simp add: drafts_ok_def distinct_update)
  moreover have "length (drafts_of w (AList.update k x ds)) \<le> 30" for w
  proof -
    have "length (drafts_of w ds) \<le> 30" using assms(1) by (simp add: drafts_ok_def)
    then show ?thesis using assms(5) unfolding drafts_of_keys update_keys by (auto simp: map_of_eq_None_iff)
  qed
  moreover have "\<forall>(k', y) \<in> set (AList.update k x ds). fst k' \<in> ids \<and> 0 < dr_revision y \<and> f (dr_fields y) \<le> 32768"
    using assms alist_update_set [of k x ds] unfolding drafts_ok_def by fastforce
  ultimately show ?thesis by (simp add: drafts_ok_def)
qed

subsection \<open>Every function of the database keeps the tables\<close>

lemma row_at_None: "row_at s i = None \<longleftrightarrow> i \<notin> home_ids s"
  by (auto simp: row_at_def find_None_iff home_ids_def)

lemma row_at_Some: "row_at s i = Some r \<Longrightarrow> r \<in> set (hs_rows s) \<and> wr_id r = i"
  by (auto simp: row_at_def find_Some_iff)

lemma main_ok: "workspace_name_ok WORKSPACE_DEFAULT_NAME" "color_ok None"
  by (simp_all add: workspace_name_ok_def WORKSPACE_DEFAULT_NAME_def color_ok_def)

lemma save_ok:
  assumes ok: "store_ok q s" and r: "workspace_save q i expected nxt st agent s = Inr (w, s')"
  shows "store_ok q s'"
proof (cases i)
  case None
  with r have s: "hs_rows s = []" "w = qe_fresh q 0" "s' = s\<lparr>hs_rows := [first_row q st nxt agent], hs_active := Some (w, 1)\<rparr>"
    and n: "0 < nxt" "qe_stateSize q st \<le> 131072"
    by (auto simp: workspace_save_def split: if_splits)
  have "hs_drafts s = []" using ok s(1) by (cases "hs_drafts s") (auto simp: store_ok_def drafts_ok_def home_ids_def)
  then show ?thesis using s n main_ok
    by (simp add: store_ok_def rows_ok_def positions_ok_def pointer_ok_def drafts_ok_def drafts_of_def home_ids_def first_row_def row_ok_def WORKSPACES_PER_IDENTITY_CAP_def)
next
  case (Some w')
  with r obtain row where row: "s' = repair_pointer (upd_rows (\<lambda>k. k = w') (saved_row q st nxt agent) s)" "qe_stateSize q st \<le> 131072" "0 < nxt"
    by (auto simp: workspace_save_def split: if_splits option.splits)
  have "store_ok q (upd_rows (\<lambda>k. k = w') (saved_row q st nxt agent) s)"
  proof (rule store_ok_upd [OF ok])
    fix r assume "r \<in> set (hs_rows s)"
    then have "row_ok (qe_stateSize q) r" using ok by (simp add: store_ok_def rows_ok_def)
    then show "row_ok (qe_stateSize q) (saved_row q st nxt agent r)" using row by (simp add: row_ok_def saved_row_def)
  qed (simp_all add: saved_row_def)
  then show ?thesis using row(1) repair_id by simp
qed

lemma draft_write_ok:
  assumes ok: "store_ok q s" and r: "workspace_draft_write q w d kind expected given s = Inr (n, s')"
  shows "store_ok q s'"
proof -
  have w: "w \<in> home_ids s" using r row_at_None [of s w] by (auto simp: workspace_draft_write_def workspace_owned_def split: if_splits)
  have ds: "drafts_ok (qe_fieldsSize q) (hs_drafts s) (home_ids s)" using ok by (simp add: store_ok_def)
  have "\<exists>ds'. s' = s\<lparr>hs_drafts := ds'\<rparr> \<and> drafts_ok (qe_fieldsSize q) ds' (home_ids s)"
  proof (cases given)
    case None
    then show ?thesis using r ds by (auto simp: workspace_draft_write_def repair_id [OF ok] drafts_ok_delete split: if_splits)
  next
    case (Some fs)
    then show ?thesis using r ds w
      by (fastforce simp: workspace_draft_write_def repair_id [OF ok] drafts_of_def Let_def intro!: drafts_ok_update split: if_splits option.splits)
  qed
  then show ?thesis using ok by (auto simp: store_ok_def)
qed

lemma placed_rows_ok:
  assumes "distinct (map wr_id (hs_rows s))" "distinct (map (lower \<circ> wr_name) (hs_rows s))" "length (hs_rows s) \<le> WORKSPACES_PER_IDENTITY_CAP"
    "\<forall>r \<in> set (hs_rows s). row_ok f r" "moving = None \<or> the moving \<in> home_ids s"
  shows "rows_ok f (hs_rows (workspaces_place moving before_id s))" "home_ids (workspaces_place moving before_id s) = home_ids s"
proof -
  let ?ids = "filter (\<lambda>i. Some i \<noteq> moving) (ordered_ids s)"
  have ids: "distinct (placed_ids ?ids moving before_id) \<and> set (placed_ids ?ids moving before_id) = set (map wr_id (hs_rows s))"
  proof (cases moving)
    case None
    then show ?thesis using assms(1) by simp
  next
    case (Some m)
    then have m: "m \<in> wr_id ` set (hs_rows s)" using assms(5) by (simp add: home_ids_def)
    have "distinct ?ids" "m \<notin> set ?ids" "insert m (set ?ids) = set (map wr_id (hs_rows s))" using assms(1) Some m by auto
    then show ?thesis using placed_ids_ok [of ?ids m before_id] Some by simp
  qed
  show "rows_ok f (hs_rows (workspaces_place moving before_id s))"
    unfolding workspaces_place_def Let_def using rows_ok_placed [OF assms(1-4)] ids by simp
  show "home_ids (workspaces_place moving before_id s) = home_ids s"
    unfolding workspaces_place_def Let_def home_ids_def by simp
qed

lemma place_parts [simp]: "hs_active (workspaces_place m b s) = hs_active s" "hs_drafts (workspaces_place m b s) = hs_drafts s"
  by (simp_all add: workspaces_place_def Let_def)

lemma drafts_ok_mono: "drafts_ok f ds ids \<Longrightarrow> ids \<subseteq> ids' \<Longrightarrow> drafts_ok f ds ids'"
  by (fastforce simp: drafts_ok_def)

lemma pointer_ok_mono: "pointer_ok (Some p) ids \<Longrightarrow> ids \<subseteq> ids' \<Longrightarrow> pointer_ok (Some p) ids'"
  by (auto simp: pointer_ok_def)

lemma create_ok:
  assumes ok: "store_ok q s" and r: "workspace_create q name color before_id st agent s = Inr (i, s')" and fresh: "qe_fresh q 1 \<notin> home_ids s"
  shows "store_ok q s' \<and> i = qe_fresh q 1 \<and> home_ids s' = insert i (home_ids s)"
proof -
  let ?n = "case name of Some n \<Rightarrow> n | None \<Rightarrow> numbered_name (free_name s (length (hs_rows s)) 2)"
  define row where "row = \<lparr>wr_id = i, wr_name = ?n, wr_color = color, wr_position = 2147483647, wr_state = st, wr_revision = 1,
                  wr_createdAt = qe_now q, wr_createdByActor = qe_actor q, wr_createdByClass = (if agent then ActorAgent else ActorHuman),
                  wr_lastActiveAt = None, wr_lastAgentChangeAt = (if agent then Some (qe_now q) else None),
                  wr_lastAgentActor = (if agent then qe_actor q else None)\<rparr>"
  define s1 where "s1 = s\<lparr>hs_rows := hs_rows s @ [row]\<rparr>"
  have f: "hs_rows s \<noteq> []" "qe_stateSize q st \<le> 131072" "workspace_name_ok ?n" "length (hs_rows s) < WORKSPACES_PER_IDENTITY_CAP" "color_ok color"
    "\<not> name_used s (lower ?n)" "i = qe_fresh q 1" and s': "s' = workspaces_list_bump (workspaces_place (Some i) before_id s1)"
    using r by (auto simp: workspace_create_def Let_def s1_def row_def split: if_splits)
  have rs: "rows_ok (qe_stateSize q) (hs_rows s)" using ok by (simp add: store_ok_def)
  have ids1: "home_ids s1 = insert i (home_ids s)" by (simp add: s1_def home_ids_def row_def)
  have new: "row_ok (qe_stateSize q) row" using f by (simp add: row_ok_def row_def)
  have p: "distinct (map wr_id (hs_rows s1))" "distinct (map (lower \<circ> wr_name) (hs_rows s1))" "length (hs_rows s1) \<le> WORKSPACES_PER_IDENTITY_CAP"
    "\<forall>r \<in> set (hs_rows s1). row_ok (qe_stateSize q) r" "Some i = None \<or> the (Some i) \<in> home_ids s1"
    using rs fresh f(4,6,7) new ids1 by (simp_all add: s1_def row_def rows_ok_def home_ids_def name_used_def)
  note placed = placed_rows_ok [OF p, of before_id]
  have "\<exists>p. hs_active s = Some p" using ok f(1) by (cases "hs_active s") (simp_all add: store_ok_def pointer_ok_def home_ids_def)
  then have "pointer_ok (hs_active s) (home_ids s1)" using ok pointer_ok_mono ids1 by (metis store_ok_def subset_insertI)
  moreover have "drafts_ok (qe_fieldsSize q) (hs_drafts s) (home_ids s1)" using ok drafts_ok_mono ids1 by (metis store_ok_def subset_insertI)
  moreover have "hs_active s1 = hs_active s" "hs_drafts s1 = hs_drafts s" by (simp_all add: s1_def)
  ultimately have "store_ok q (workspaces_place (Some i) before_id s1)" using placed by (simp add: store_ok_def)
  then have "store_ok q s' \<and> home_ids s' = home_ids (workspaces_place (Some i) before_id s1)"
    unfolding s' using store_ok_bump by (simp only: bump_id home_ids_simps simp_thms)
  with f(7) ids1 placed(2) show ?thesis by simp
qed

lemma distinct_replaced:
  assumes "distinct (map f rs)" "distinct (map g rs)" "y \<notin> set (map g (filter (\<lambda>x. f x \<noteq> i) rs))"
  shows "distinct (map (\<lambda>x. if f x = i then y else g x) rs)"
proof -
  have inj: "inj_on f (set rs)" "inj_on g (set rs)" "distinct rs" using assms by (simp_all add: distinct_map)
  have y: "g x \<noteq> y" if "x \<in> set rs" "f x \<noteq> i" for x using assms(3) that by auto
  have "inj_on (\<lambda>x. if f x = i then y else g x) (set rs)"
  proof (rule inj_onI)
    fix a b assume ab: "a \<in> set rs" "b \<in> set rs" "(if f a = i then y else g a) = (if f b = i then y else g b)"
    then show "a = b" using y [OF ab(1)] y [OF ab(2)] inj_onD [OF inj(1), of a b] inj_onD [OF inj(2), of a b] by (auto split: if_splits)
  qed
  then show ?thesis using inj(3) by (simp add: distinct_map)
qed

lemma update_ok:
  assumes ok: "store_ok q s" and r: "workspace_update q i name color s = Inr (changed, s')"
  shows "store_ok q s'"
proof (cases changed)
  case False
  with r ok show ?thesis by (auto simp: workspace_update_def Let_def split: option.splits if_splits)
next
  case True
  with r obtain row where row: "row_at s i = Some row" by (auto simp: workspace_update_def split: option.splits)
  define r' where "r' = row\<lparr>wr_name := (case name of None \<Rightarrow> wr_name row | Some n \<Rightarrow> n), wr_color := (case color of None \<Rightarrow> wr_color row | Some c \<Rightarrow> c)\<rparr>"
  have f: "\<not> (case name of None \<Rightarrow> False | Some n \<Rightarrow> \<not> workspace_name_ok n)" "color_ok (wr_color r')"
    "lower (wr_name r') \<notin> set (map (lower \<circ> wr_name) (filter (\<lambda>x. wr_id x \<noteq> i) (hs_rows s)))"
    "s' = workspaces_list_bump (upd_rows (\<lambda>k. k = i) (\<lambda>x. r') s)"
    using r row True by (auto simp: workspace_update_def r'_def [symmetric] Let_def split: if_splits)
  have rs: "rows_ok (qe_stateSize q) (hs_rows s)" using ok by (simp add: store_ok_def)
  have in_rows: "row \<in> set (hs_rows s)" "wr_id row = i" using row_at_Some [OF row] by auto
  let ?g = "\<lambda>r. if wr_id r = i then r' else r"
  have same: "?g r = r \<or> r = row" if "r \<in> set (hs_rows s)" for r
    using rs in_rows that by (auto simp: rows_ok_def distinct_map inj_on_def)
  have g: "wr_id (?g r) = wr_id r" "wr_position (?g r) = wr_position r" if "r \<in> set (hs_rows s)" for r
    using same [OF that] in_rows by (auto simp: r'_def)
  have maps: "map wr_id (map ?g (hs_rows s)) = map wr_id (hs_rows s)" "map wr_position (map ?g (hs_rows s)) = map wr_position (hs_rows s)"
    using g by auto
  have ids: "home_ids (upd_rows (\<lambda>k. k = i) (\<lambda>x. r') s) = home_ids s"
    unfolding home_ids_def upd_rows_def using maps(1) by (metis (no_types, lifting) home_store.select_convs(1) home_store.surjective home_store.update_convs(1) set_map)
  have names: "map (lower \<circ> wr_name) (map ?g (hs_rows s)) = map (\<lambda>x. if wr_id x = i then lower (wr_name r') else (lower \<circ> wr_name) x) (hs_rows s)"
    by simp
  have "distinct (map (lower \<circ> wr_name) (map ?g (hs_rows s)))"
    unfolding names by (rule distinct_replaced) (use rs f(3) in \<open>simp_all add: rows_ok_def comp_def\<close>)
  moreover have "row_ok (qe_stateSize q) row" using rs in_rows by (simp add: rows_ok_def)
  then have "row_ok (qe_stateSize q) r'" using f(1,2) by (auto simp: row_ok_def r'_def split: option.splits)
  moreover have "positions_ok (map ?g (hs_rows s))" using rs unfolding rows_ok_def positions_ok_def maps length_map by blast
  ultimately have "rows_ok (qe_stateSize q) (map ?g (hs_rows s))" using rs unfolding rows_ok_def maps length_map by auto
  then have "store_ok q (upd_rows (\<lambda>k. k = i) (\<lambda>x. r') s)"
    using ok unfolding store_ok_def ids upd_rows_active by (simp add: upd_rows_def)
  then show ?thesis using f(4) store_ok_bump by simp
qed

lemma placed_store_ok:
  assumes "store_ok q s" "moving = None \<or> the moving \<in> home_ids s"
  shows "store_ok q (workspaces_place moving before_id s)"
proof -
  have p: "distinct (map wr_id (hs_rows s))" "distinct (map (lower \<circ> wr_name) (hs_rows s))" "length (hs_rows s) \<le> WORKSPACES_PER_IDENTITY_CAP"
    "\<forall>r \<in> set (hs_rows s). row_ok (qe_stateSize q) r"
    using assms(1) by (simp_all add: store_ok_def rows_ok_def)
  from placed_rows_ok [OF p assms(2)] assms(1) show ?thesis by (simp add: store_ok_def)
qed

lemma reorder_ok:
  assumes ok: "store_ok q s" and r: "workspace_reorder q i before_id s = Inr (changed, s')"
  shows "store_ok q s'"
proof -
  have "i \<in> home_ids s" using r row_at_None [of s i] by (auto simp: workspace_reorder_def workspace_owned_def split: if_splits)
  then have "store_ok q (workspaces_place (Some i) before_id s)" using placed_store_ok [OF ok, of "Some i"] by simp
  then show ?thesis using r ok store_ok_bump by (auto simp: workspace_reorder_def Let_def split: if_splits)
qed

lemma active_stamped_ok:
  assumes "store_ok q s"
  shows "store_ok q (upd_rows P (\<lambda>r. r\<lparr>wr_lastActiveAt := t\<rparr>) s)"
  by (rule store_ok_upd [OF assms]) (use assms in \<open>auto simp: store_ok_def rows_ok_def row_ok_def\<close>)

lemma switch_ok:
  assumes ok: "store_ok q s" and r: "workspace_switch q i s = Inr (previous, s')"
  shows "store_ok q s'"
proof (cases "previous = Some i")
  case True
  with r ok show ?thesis by (auto simp: workspace_switch_def Let_def split: if_splits)
next
  case False
  have i: "i \<in> home_ids s" using r row_at_None [of s i] by (auto simp: workspace_switch_def workspace_owned_def split: if_splits)
  let ?s2 = "(workspaces_list_bump s)\<lparr>hs_active := map_option (\<lambda>(k, n). (i, n)) (hs_active (workspaces_list_bump s))\<rparr>"
  have b: "store_ok q (workspaces_list_bump s)" "home_ids (workspaces_list_bump s) = home_ids s" using store_ok_bump [OF ok] bump_id [OF ok] by simp_all
  have "store_ok q ?s2"
  proof (rule store_ok_active [OF b(1)])
    show "pointer_ok (map_option (\<lambda>(k, n). (i, n)) (hs_active (workspaces_list_bump s))) (home_ids (workspaces_list_bump s))"
      using b i by (auto simp: store_ok_def pointer_ok_def split: option.splits)
  qed
  then show ?thesis using r False active_stamped_ok by (auto simp: workspace_switch_def Let_def split: if_splits)
qed

lemma filtered_store:
  assumes ok: "store_ok q s" and p: "pointer_ok p (home_ids s - {i})"
  shows "store_ok q (workspaces_place None None (s\<lparr>hs_rows := filter (\<lambda>r. wr_id r \<noteq> i) (hs_rows s), hs_drafts := filter (\<lambda>(k, x). fst k \<noteq> i) (hs_drafts s), hs_active := p\<rparr>))"
proof -
  let ?s = "s\<lparr>hs_rows := filter (\<lambda>r. wr_id r \<noteq> i) (hs_rows s), hs_drafts := filter (\<lambda>(k, x). fst k \<noteq> i) (hs_drafts s), hs_active := p\<rparr>"
  have ids: "home_ids ?s = home_ids s - {i}" by (auto simp: home_ids_def)
  have rs: "rows_ok (qe_stateSize q) (hs_rows s)" "drafts_ok (qe_fieldsSize q) (hs_drafts s) (home_ids s)" using ok by (simp_all add: store_ok_def)
  have "length (filter (\<lambda>r. wr_id r \<noteq> i) (hs_rows s)) \<le> WORKSPACES_PER_IDENTITY_CAP"
    using rs(1) length_filter_le [of "\<lambda>r. wr_id r \<noteq> i" "hs_rows s"] unfolding rows_ok_def by linarith
  then have r: "distinct (map wr_id (hs_rows ?s))" "distinct (map (lower \<circ> wr_name) (hs_rows ?s))" "length (hs_rows ?s) \<le> WORKSPACES_PER_IDENTITY_CAP"
    "\<forall>r \<in> set (hs_rows ?s). row_ok (qe_stateSize q) r"
    using rs(1) by (simp_all add: rows_ok_def distinct_map_filter)
  note placed = placed_rows_ok [OF r, of None None]
  have "drafts_ok (qe_fieldsSize q) (hs_drafts ?s) (home_ids ?s)"
    unfolding ids using drafts_ok_filter [OF rs(2), of "\<lambda>(k, x). fst k \<noteq> i" "home_ids s - {i}"] rs(2) by (fastforce simp: drafts_ok_def)
  with p ids placed show ?thesis by (simp add: store_ok_def)
qed

lemma successor_ok: "successor_of ids i = Some k \<Longrightarrow> distinct ids \<Longrightarrow> k \<in> set ids \<and> k \<noteq> i"
proof -
  assume s: "successor_of ids i = Some k" and d: "distinct ids"
  from s obtain n where n: "index_of ids i = Some n" by (auto simp: successor_of_def split: option.splits)
  note n' = index_of_Some_nth [OF n]
  have "\<exists>m < length ids. m \<noteq> n \<and> k = ids ! m"
  proof (cases "Suc n < length ids")
    case True
    with s n show ?thesis by (intro exI [of _ "Suc n"]) (simp add: successor_of_def)
  next
    case False
    with s n n' show ?thesis by (intro exI [of _ "n - 1"]) (auto simp: successor_of_def split: if_splits)
  qed
  with n' d show ?thesis by (auto simp: nth_eq_iff_index_eq)
qed

text \<open>A delete in two steps: the pointer moves off the workspace, then the workspace goes.\<close>

definition moved_off :: "sql_env \<Rightarrow> string \<Rightarrow> home_store \<Rightarrow> home_store" where
  "moved_off q i s = (let s1 = workspaces_list_bump s; succ = successor_of (ordered_ids s) i in
     if map_option fst (hs_active s1) = Some i
     then upd_rows (\<lambda>k. k = i \<or> Some k = succ) (\<lambda>r. r\<lparr>wr_lastActiveAt := Some (qe_now q)\<rparr>)
       (s1\<lparr>hs_active := (case (succ, hs_active s1) of (Some k, Some (j, n)) \<Rightarrow> Some (k, n) | _ \<Rightarrow> None)\<rparr>)
     else s1)"

definition pointer_off :: "string \<Rightarrow> (string \<times> nat) option \<Rightarrow> (string \<times> nat) option" where
  "pointer_off i p = (case p of Some (j, n) \<Rightarrow> if j = i then None else Some (j, n) | None \<Rightarrow> None)"

lemma delete_form:
  assumes "workspace_delete q i s = Inr (active, s')"
  defines "s2 \<equiv> moved_off q i s"
  shows "pointer_off i (hs_active s2) \<noteq> None
     \<and> s' = workspaces_place None None (s2\<lparr>hs_rows := filter (\<lambda>r. wr_id r \<noteq> i) (hs_rows s2), hs_drafts := filter (\<lambda>(k, x). fst k \<noteq> i) (hs_drafts s2),
         hs_active := pointer_off i (hs_active s2)\<rparr>)"
proof -
  define p where "p = pointer_off i (hs_active s2)"
  have "workspace_delete q i s = (if \<not> workspace_owned q i s then Inl (SqlState ''P0002'') else if length (ordered_ids s) \<le> 1 then Inl (SqlState ''55000'')
     else if p = None then Inl (SqlState ''XX000'') else Inr (map_option fst p, workspaces_place None None (s2\<lparr>hs_rows := filter (\<lambda>r. wr_id r \<noteq> i) (hs_rows s2),
       hs_drafts := filter (\<lambda>(k, x). fst k \<noteq> i) (hs_drafts s2), hs_active := p\<rparr>)))"
    unfolding workspace_delete_def Let_def p_def pointer_off_def s2_def moved_off_def by simp
  with assms(1) show ?thesis unfolding p_def by (auto split: if_splits)
qed

lemma delete_ok:
  assumes ok: "store_ok q s" and r: "workspace_delete q i s = Inr (active, s')"
  shows "store_ok q s'"
proof -
  let ?succ = "successor_of (ordered_ids s) i"
  let ?s1 = "workspaces_list_bump s"
  let ?moved = "case (?succ, hs_active ?s1) of (Some k, Some (j, n)) \<Rightarrow> Some (k, n) | _ \<Rightarrow> None"
  define moves where "moves \<longleftrightarrow> map_option fst (hs_active ?s1) = Some i"
  define s2 where m: "s2 = moved_off q i s"
  define p where "p = pointer_off i (hs_active s2)"
  have s2_def: "s2 = (if moves then upd_rows (\<lambda>k. k = i \<or> Some k = ?succ) (\<lambda>r. r\<lparr>wr_lastActiveAt := Some (qe_now q)\<rparr>) (?s1\<lparr>hs_active := ?moved\<rparr>) else ?s1)"
    by (simp only: m moved_off_def Let_def moves_def)
  have s': "p \<noteq> None" "s' = workspaces_place None None (s2\<lparr>hs_rows := filter (\<lambda>r. wr_id r \<noteq> i) (hs_rows s2), hs_drafts := filter (\<lambda>(k, x). fst k \<noteq> i) (hs_drafts s2), hs_active := p\<rparr>)"
    unfolding p_def m using delete_form [OF r] by blast+
  have b: "store_ok q ?s1" "home_ids ?s1 = home_ids s" using store_ok_bump [OF ok] bump_id [OF ok] by simp_all
  have succ: "k \<in> home_ids s \<and> k \<noteq> i" if "?succ = Some k" for k
    using successor_ok [OF that] ok by (simp add: store_ok_def rows_ok_def home_ids_def)
  have s2: "store_ok q s2 \<and> home_ids s2 = home_ids s"
  proof (cases "moves \<and> ?moved \<noteq> None")
    case True
    then have "pointer_ok ?moved (home_ids ?s1)" using succ b by (auto simp: store_ok_def pointer_ok_def split: option.splits)
    then have "store_ok q (?s1\<lparr>hs_active := ?moved\<rparr>)" by (rule store_ok_active [OF b(1)])
    from active_stamped_ok [OF this] True b(2) show ?thesis by (simp add: s2_def)
  next
    case False
    have "\<not> moves"
    proof
      assume "moves"
      with False have "?moved = None" by blast
      moreover have "hs_active s2 = ?moved" using \<open>moves\<close> by (simp add: s2_def)
      ultimately have "hs_active s2 = None" by simp
      then have "p = None" by (simp add: p_def pointer_off_def)
      with s'(1) show False by simp
    qed
    then show ?thesis using b by (simp add: s2_def)
  qed
  have "pointer_ok p (home_ids s2 - {i})"
    using s2 s'(1) by (auto simp: p_def pointer_off_def store_ok_def pointer_ok_def split: option.splits if_splits)
  with filtered_store [of q s2 p i] s2 show ?thesis unfolding s'(2) by blast
qed

end
