(* ===== verification/HomeShape.thy ===== *)
theory HomeShape
  imports HomeTables
begin

text \<open>
  What the functions over the tables of stored workspaces do to the set of workspaces, to the pointer
  to the active one, and to the workspaces they are not about.
\<close>

subsection \<open>What the functions do to the ids and the pointer\<close>

text \<open>The same workspace stays active; the count of list changes may rise.\<close>

definition active_kept :: "home_store \<Rightarrow> home_store \<Rightarrow> bool" where
  "active_kept s s' \<longleftrightarrow> (\<forall>i n. hs_active s = Some (i, n) \<longrightarrow> (\<exists>m \<ge> n. hs_active s' = Some (i, m)))"

lemma active_kept_same: "hs_active s' = hs_active s \<Longrightarrow> active_kept s s'"
  by (auto simp: active_kept_def)

lemma active_kept_bump: "store_ok q s \<Longrightarrow> active_kept s0 s \<Longrightarrow> active_kept s0 (workspaces_list_bump s)"
  by (fastforce simp: active_kept_def bump_id bumped_def)

lemma active_kept_trans: "active_kept s s' \<Longrightarrow> active_kept s' s'' \<Longrightarrow> active_kept s s''"
  unfolding active_kept_def by (meson le_trans)

lemma pointer_there: "store_ok q s \<Longrightarrow> hs_rows s \<noteq> [] \<Longrightarrow> \<exists>p. hs_active s = Some p"
  by (cases "hs_active s") (simp_all add: store_ok_def pointer_ok_def home_ids_def)

lemma save_shape:
  assumes ok: "store_ok q s" and r: "workspace_save q i expected nxt st agent s = Inr (w, s')"
  shows "home_ids s' \<subseteq> insert (qe_fresh q 0) (home_ids s) \<and> active_kept s s'"
proof (cases i)
  case None
  with r show ?thesis by (auto simp: workspace_save_def home_ids_def first_row_def active_kept_def split: if_splits)
next
  case (Some w')
  have "store_ok q s'" by (rule save_ok [OF ok r])
  moreover from r Some have "s' = repair_pointer (upd_rows (\<lambda>k. k = w') (saved_row q st nxt agent) s)"
    by (auto simp: workspace_save_def split: if_splits option.splits)
  moreover have "home_ids (upd_rows (\<lambda>k. k = w') (saved_row q st nxt agent) s) = home_ids s" by (simp add: saved_row_def)
  ultimately show ?thesis
    by (auto simp: repair_pointer_def active_kept_def split: option.splits list.splits)
qed

lemma draft_write_shape:
  assumes ok: "store_ok q s" and r: "workspace_draft_write q w d kind expected given s = Inr (n, s')"
  shows "home_ids s' = home_ids s \<and> active_kept s s' \<and> hs_active s' = hs_active s \<and> hs_rows s' = hs_rows s \<and> filter (\<lambda>(k, x). fst k \<noteq> w) (hs_drafts s') = filter (\<lambda>(k, x). fst k \<noteq> w) (hs_drafts s)"
proof -
  have upd: "filter (\<lambda>(k, x). fst k \<noteq> w) (AList.update (w, d) x ds) = filter (\<lambda>(k, x). fst k \<noteq> w) ds" for x ds
    by (induction ds) auto
  have del: "filter (\<lambda>(k, x). fst k \<noteq> w) (AList.delete (w, d) ds) = filter (\<lambda>(k, x). fst k \<noteq> w) ds" for ds
    by (induction ds) auto
  show ?thesis using r
    by (auto simp: workspace_draft_write_def repair_id [OF ok] Let_def active_kept_same upd del split: option.splits if_splits)
qed

lemma place_ids: "home_ids (workspaces_place m b s) = home_ids s"
  by (simp add: workspaces_place_def Let_def home_ids_def)

lemma bump_ids: "store_ok q s \<Longrightarrow> home_ids (workspaces_list_bump s) = home_ids s"
  by (simp add: bump_id)

lemma create_active:
  assumes ok: "store_ok q s" and r: "workspace_create q name color before_id st agent s = Inr (i, s')"
  shows "active_kept s s'"
proof -
  have "hs_rows s \<noteq> []" using r by (auto simp: workspace_create_def split: if_splits)
  then obtain p where "hs_active s = Some p" using pointer_there [OF ok] by blast
  with r show ?thesis
    by (fastforce simp: workspace_create_def Let_def active_kept_def workspaces_list_bump_def repair_pointer_def split: if_splits option.splits)
qed

lemma update_shape:
  assumes ok: "store_ok q s" and r: "workspace_update q i name color s = Inr (changed, s')"
  shows "home_ids s' = home_ids s \<and> active_kept s s'"
proof (cases changed)
  case False
  with r show ?thesis by (auto simp: workspace_update_def Let_def active_kept_same split: option.splits if_splits)
next
  case True
  with r obtain row where row1: "row_at s i = Some row" by (auto simp: workspace_update_def split: option.splits)
  define r' where "r' = row\<lparr>wr_name := (case name of None \<Rightarrow> wr_name row | Some n \<Rightarrow> n), wr_color := (case color of None \<Rightarrow> wr_color row | Some c \<Rightarrow> c)\<rparr>"
  have s': "s' = workspaces_list_bump (upd_rows (\<lambda>k. k = i) (\<lambda>x. r') s)"
    using r row1 True by (auto simp: workspace_update_def r'_def [symmetric] Let_def split: if_splits)
  have row: "row_at s i = Some row" "wr_id r' = wr_id row" using row1 by (simp_all add: r'_def)
  have "hs_rows s \<noteq> []" using row_at_Some [OF row1] by auto
  then obtain p where p: "hs_active s = Some p" using pointer_there [OF ok] by blast
  have "map wr_id (hs_rows (upd_rows (\<lambda>k. k = i) (\<lambda>x. r') s)) = map wr_id (hs_rows s)"
    using row row_at_Some [OF row(1)] by (simp add: upd_rows_def)
  then have "home_ids (upd_rows (\<lambda>k. k = i) (\<lambda>x. r') s) = home_ids s" unfolding home_ids_def by (metis set_map)
  with p show ?thesis unfolding s' workspaces_list_bump_def by (auto simp: repair_pointer_def Let_def active_kept_def)
qed

lemma reorder_shape:
  assumes ok: "store_ok q s" and r: "workspace_reorder q i before_id s = Inr (changed, s')"
  shows "home_ids s' = home_ids s \<and> active_kept s s'"
proof -
  have i: "i \<in> home_ids s" using r row_at_None [of s i] by (auto simp: workspace_reorder_def workspace_owned_def split: if_splits)
  have p: "store_ok q (workspaces_place (Some i) before_id s)" using placed_store_ok [OF ok, of "Some i"] i by simp
  let ?p = "workspaces_place (Some i) before_id s"
  have "s' = s \<or> s' = ?p \<or> s' = workspaces_list_bump ?p" using r by (auto simp: workspace_reorder_def Let_def split: if_splits)
  moreover have "active_kept s ?p" by (rule active_kept_same) simp
  moreover note active_kept_bump [OF p this] bump_ids [OF p] place_ids [of "Some i" before_id s]
  ultimately show ?thesis using active_kept_same [of s s] by metis
qed

lemma switch_ids:
  assumes ok: "store_ok q s" and r: "workspace_switch q i s = Inr (previous, s')"
  shows "home_ids s' = home_ids s"
proof (cases "active_or_first s = Some i")
  case True
  with r show ?thesis by (auto simp: workspace_switch_def Let_def split: if_splits)
next
  case False
  with r have "s' = upd_rows (\<lambda>k. Some k = active_or_first s \<or> k = i) (\<lambda>r. r\<lparr>wr_lastActiveAt := Some (qe_now q)\<rparr>)
      ((workspaces_list_bump s)\<lparr>hs_active := map_option (\<lambda>(k, n). (i, n)) (hs_active (workspaces_list_bump s))\<rparr>)"
    by (auto simp: workspace_switch_def Let_def split: if_splits)
  with bump_ids [OF ok] show ?thesis by simp
qed

text \<open>A delete takes the one workspace away, and moves the pointer only when it was at that one.\<close>

lemma delete_shape:
  assumes ok: "store_ok q s" and r: "workspace_delete q i s = Inr (active, s')"
  shows "home_ids s' = home_ids s - {i} \<and> (map_option fst (hs_active s) \<noteq> Some i \<longrightarrow> active_kept s s')"
proof -
  let ?s2 = "moved_off q i s"
  have s': "s' = workspaces_place None None (?s2\<lparr>hs_rows := filter (\<lambda>r. wr_id r \<noteq> i) (hs_rows ?s2), hs_drafts := filter (\<lambda>(k, x). fst k \<noteq> i) (hs_drafts ?s2),
      hs_active := pointer_off i (hs_active ?s2)\<rparr>)"
    using delete_form [OF r] by blast
  have m: "home_ids ?s2 = home_ids s" using bump_ids [OF ok] by (simp add: moved_off_def Let_def)
  have "home_ids s' = home_ids ?s2 - {i}" unfolding s' place_ids by (auto simp: home_ids_def)
  moreover have "active_kept s s'" if "map_option fst (hs_active s) \<noteq> Some i"
  proof (cases "hs_active s")
    case (Some jn)
    with that obtain j n where p: "hs_active s = Some (j, n)" "j \<noteq> i" by (cases jn) auto
    then have b: "hs_active (workspaces_list_bump s) = Some (j, Suc n)" by (simp add: bump_id [OF ok] bumped_def)
    then have "hs_active ?s2 = Some (j, Suc n)" using p(2) by (simp add: moved_off_def Let_def)
    then have "hs_active s' = Some (j, Suc n)" unfolding s' using p(2) by (simp add: pointer_off_def)
    with p show ?thesis by (simp add: active_kept_def)
  qed (simp add: active_kept_def)
  ultimately show ?thesis using m by simp
qed

end
