(* ===== verification/HomeMoves.thy ===== *)
theory HomeMoves
  imports HomeShape
begin

text \<open>
  How the actions of the stored-workspace service (\<open>server/src/workspace/service.ts\<close>) move its world: for a
  relation between worlds that the single transactions respect, every operation respects it.
\<close>

subsection \<open>How an action moves the world\<close>

text \<open>An action moves along a relation when whatever it does leaves the world related to what it was.\<close>

definition moves :: "('w \<Rightarrow> 'w \<Rightarrow> bool) \<Rightarrow> ('w, 'e, 'x, 'a) act \<Rightarrow> bool" where
  "moves R m \<longleftrightarrow> (\<forall>s. R (wo_state s) (wo_state (snd (m s))))"

named_theorems move_intros \<open>rules for how an action moves the world, along its text\<close>

locale world_order =
  fixes R :: "'w \<Rightarrow> 'w \<Rightarrow> bool"
  assumes R_refl: "R w w"
    and R_trans: "R u v \<Longrightarrow> R v w \<Longrightarrow> R u w"
begin

lemma moves_return: "moves R (act_return x)"
  by (simp add: moves_def act_return_def R_refl)

lemma moves_throw: "moves R (act_throw x)"
  by (simp add: moves_def act_throw_def R_refl)

lemma moves_bind: "moves R m \<Longrightarrow> (\<And>x. moves R (f x)) \<Longrightarrow> moves R (act_bind m f)"
  by (auto simp: moves_def act_bind_def split: prod.splits act_outcome.splits) (metis R_trans snd_conv)+

lemma moves_catch: "moves R m \<Longrightarrow> (\<And>x. moves R (h x)) \<Longrightarrow> moves R (act_catch m h)"
  by (auto simp: moves_def act_catch_def split: prod.splits act_outcome.splits) (metis R_trans snd_conv)+

lemma moves_attempt: "moves R m \<Longrightarrow> moves R (attempt m)"
  unfolding attempt_def by (intro moves_catch moves_bind moves_return)

lemmas moves_rules = moves_return moves_throw moves_bind moves_catch moves_attempt

end

text \<open>A transaction that succeeds leaves the world related, whatever it read.\<close>

definition tx_ok :: "(home \<Rightarrow> home \<Rightarrow> bool) \<Rightarrow> home_env \<Rightarrow> (sql_env \<Rightarrow> home_store \<Rightarrow> home_error + 'a \<times> home_store) \<Rightarrow> bool" where
  "tx_ok R e f \<longleftrightarrow> (\<forall>w a st. f (sql_env_of e (hm_txs w)) (hm_store w) = Inr (a, st) \<longrightarrow> R w (w\<lparr>hm_txs := Suc (hm_txs w), hm_store := st\<rparr>))"

text \<open>What an action returns, whatever the world.\<close>

definition yields :: "('a \<Rightarrow> bool) \<Rightarrow> ('w, 'e, 'x, 'a) act \<Rightarrow> bool" where
  "yields P m \<longleftrightarrow> (\<forall>s x. fst (m s) = Returned x \<longrightarrow> P x)"

lemma yieldsD: "yields P m \<Longrightarrow> m s = (Returned x, s') \<Longrightarrow> P x"
  by (metis yields_def fst_conv)

locale home_order = world_order R for R :: "home \<Rightarrow> home \<Rightarrow> bool" +
  fixes e :: home_env
  assumes R_prompts: "R w (w\<lparr>hm_prompts := p\<rparr>)"
    and R_txs: "R w (w\<lparr>hm_txs := Suc (hm_txs w)\<rparr>)"
begin

lemma moves_bind_yields: "moves R m \<Longrightarrow> yields P m \<Longrightarrow> (\<And>x. P x \<Longrightarrow> moves R (f x)) \<Longrightarrow> moves R (act_bind m f)"
  by (auto simp: moves_def act_bind_def split: prod.splits act_outcome.splits) (metis R_trans snd_conv yieldsD)+

lemma moves_push: "moves R (push_home po f)"
  by (simp add: moves_def push_home_def R_refl)

lemma moves_prompts: "moves R (on_prompts e f)"
  by (auto simp: moves_def on_prompts_def R_prompts split: prod.splits)

lemma moves_tx: "tx_ok R e f \<Longrightarrow> moves R (home_tx e f)"
  by (auto simp: moves_def home_tx_def tx_ok_def Let_def R_txs split: option.splits sum.splits)

lemma moves_read: "(\<And>q s a st. f q s = Inr (a, st) \<Longrightarrow> st = s) \<Longrightarrow> moves R (home_tx e f)"
proof (rule moves_tx)
  assume "\<And>q s a st. f q s = Inr (a, st) \<Longrightarrow> st = s"
  then show "tx_ok R e f" unfolding tx_ok_def
  proof (intro allI impI)
    fix w :: home and a st assume "f (sql_env_of e (hm_txs w)) (hm_store w) = Inr (a, st)" and r: "\<And>q s a st. f q s = Inr (a, st) \<Longrightarrow> st = s"
    then have "st = hm_store w" by blast
    then show "R w (w\<lparr>hm_txs := Suc (hm_txs w), hm_store := st\<rparr>)" using R_txs [of w] by simp
  qed
qed

lemma moves_load: "moves R (load_workspace e i)"
  unfolding load_workspace_def by (rule moves_read) (auto split: option.splits if_splits)

lemma moves_list: "moves R (load_list e)"
  unfolding load_list_def by (rule moves_read) (auto simp: in_space_def split: if_splits)

lemma moves_target: "moves R (target_of e req)"
  unfolding target_of_def by (rule moves_read) (auto simp: Let_def split: if_splits sum.splits target_error.splits)

lemma moves_readable: "moves R (readable_ids e ids)"
proof -
  have "moves R (home_tx e (\<lambda>q st. Inr (filter (he_readable e n) ids, st)))" for n by (rule moves_read) auto
  then have "moves R (\<lambda>s. home_tx e (\<lambda>q st. Inr (filter (he_readable e (hm_txs (wo_state s))) ids, st)) s)" by (simp add: moves_def)
  then show ?thesis by (simp add: readable_ids_def Let_def moves_return)
qed

lemma moves_read_workspace: "moves R (read_workspace e req)"
  unfolding read_workspace_def
  by (intro moves_bind moves_list) (auto intro!: moves_rules moves_load split: sum.splits target_error.splits)

lemma moves_push_state: "moves R (pushState w active n st c)"
  by (simp add: pushState_def moves_push)

lemma moves_push_summary: "moves R (pushSummary ws c w a)"
  by (simp add: pushSummary_def moves_push)

lemma moves_push_drafts: "moves R (push_drafts w ds)"
proof (induction ds)
  case (Cons d ds)
  then show ?case by (cases d) (auto intro!: moves_bind moves_push)
qed (simp add: moves_return)

lemma moves_push_switch: "moves R (pushSwitch e ws previous c w a)"
  by (auto simp: pushSwitch_def intro!: moves_rules moves_load moves_push moves_push_state moves_push_drafts moves_push_summary split: option.splits)

lemma moves_answer: "moves R (answer_window i w r)"
  by (auto simp: answer_window_def intro!: moves_rules moves_push split: origin.splits option.splits)

lemma moves_ask: "moves R (ask_human e ws w kind rid a)"
  unfolding ask_human_def by (intro moves_bind moves_return moves_prompts)

lemma moves_accept: "moves R (accept_prompt e accepting)"
  by (auto simp: accept_prompt_def intro!: moves_return moves_prompts split: option.splits)

lemma moves_unreadable: "moves R (unreadable e i b)"
  by (auto simp: unreadable_def intro!: moves_rules moves_readable)

lemmas moves_steps = moves_rules moves_push moves_prompts moves_load moves_list moves_target moves_readable moves_read_workspace moves_push_state
  moves_push_summary moves_push_drafts moves_push_switch moves_answer moves_ask moves_accept moves_unreadable

text \<open>The reads.\<close>

lemma moves_get: "moves R (get_workspace e req)"
  unfolding get_workspace_def by (auto intro!: moves_steps)

lemma moves_list_workspaces: "moves R (list_workspaces e)"
  unfolding list_workspaces_def by (auto intro!: moves_steps)

lemma moves_inspect: "moves R (inspect_stored e req)"
  unfolding inspect_stored_def by (auto intro!: moves_steps)

lemma moves_snapshot: "moves R (snapshot e capable)"
  unfolding snapshot_def by (auto intro!: moves_steps)

text \<open>A management transaction moves along the relation when its run does.\<close>

lemma moves_manage:
  assumes "\<And>w a st. run (sql_env_of e (hm_txs w)) (loadWorkspaces None None (hm_store w)) (hm_store w) = Inr (a, st) \<Longrightarrow> R w (w\<lparr>hm_txs := Suc (hm_txs w), hm_store := st\<rparr>)"
  shows "moves R (manageTx e run)"
  unfolding manageTx_def
proof (intro moves_catch moves_tx moves_throw)
  show "tx_ok R e (\<lambda>q s. if \<not> qe_member q then Inl no_space else (case run q (loadWorkspaces None None s) s of
      Inl x \<Rightarrow> Inl x | Inr (a, s') \<Rightarrow> Inr ((a, loadWorkspaces None None s'), s')))"
    unfolding tx_ok_def using assms by (auto split: if_splits sum.splits)
qed

end

lemma yields_attempt: "yields P m \<Longrightarrow> yields (case_sum (\<lambda>x. True) P) (attempt m)"
  by (auto simp: yields_def attempt_def act_bind_def act_catch_def act_return_def split: prod.splits act_outcome.splits) (metis fst_conv)

lemma yields_tx: "(\<And>q s a st. f q s = Inr (a, st) \<Longrightarrow> P a) \<Longrightarrow> yields P (home_tx e f)"
  by (auto simp: yields_def home_tx_def Let_def split: option.splits sum.splits)

lemma yields_load: "yields (\<lambda>l. ld_workspaceId l = i) (load_workspace e i)"
  unfolding load_workspace_def by (rule yields_tx) (auto simp: loaded_of_def Let_def dest!: row_at_Some split: option.splits if_splits)

lemma yields_save: "yields (\<lambda>w'. w' = w) (save_state e (Some w) x n st a)"
  unfolding save_state_def
  by (rule yields_tx) (auto simp: sql_ok_def workspace_save_def split: option.splits if_splits sum.splits)

subsection \<open>Services that write\<close>

definition target_may :: "(string \<Rightarrow> bool) \<Rightarrow> bool \<Rightarrow> string option \<Rightarrow> bool" where
  "target_may may first i \<longleftrightarrow> (case i of None \<Rightarrow> first | Some w \<Rightarrow> may w)"

text \<open>The workspaces that may be written, and whether the first one may be made.\<close>

locale home_writer = home_order R e for R :: "home \<Rightarrow> home \<Rightarrow> bool" and e :: home_env +
  fixes may :: "string \<Rightarrow> bool" and first :: bool
  assumes save: "may w \<Longrightarrow> tx_ok R e (\<lambda>q s. sql_ok (workspace_save q (Some w) expected nxt st agent s))"
    and save_first: "first \<Longrightarrow> tx_ok R e (\<lambda>q s. sql_ok (workspace_save q None expected nxt st agent s))"
    and draft: "may w \<Longrightarrow> tx_ok R e (\<lambda>q s. sql_ok (workspace_draft_write q w d kind rv fs s))"
    and first_all: "first \<Longrightarrow> may w"
begin

lemma all_may: "first \<Longrightarrow> target_may may first i"
  by (simp add: target_may_def first_all split: option.splits)

lemma moves_save: "target_may may first i \<Longrightarrow> moves R (save_state e i expected nxt st agent)"
  unfolding save_state_def by (rule moves_tx) (auto simp: target_may_def save save_first split: option.splits)

lemma yields_save_may: "target_may may first i \<Longrightarrow> yields may (save_state e i expected nxt st agent)"
proof (cases i)
  case (Some w)
  assume "target_may may first i"
  with Some have "may w" by (simp add: target_may_def)
  with yields_save [of w e expected nxt st agent] Some show ?thesis by (auto simp: yields_def)
qed (simp add: target_may_def first_all yields_def)

lemma moves_save_draft: "may w \<Longrightarrow> moves R (saveDraft e w d kind rv fs)"
  unfolding saveDraft_def by (rule moves_tx) (rule draft)

lemma moves_drop: "may w \<Longrightarrow> moves R (drop_drafts e w active ds)"
  by (induction ds) (auto intro!: moves_steps moves_save_draft)

lemma moves_commit:
  assumes "target_may may first (ld_workspaceId l)"
  shows "moves R (commit_stored e i target l x r)"
  unfolding commit_stored_def Let_def
proof (rule moves_bind_yields [OF moves_save [OF assms] yields_save_may [OF assms]], goal_cases)
  case (1 w)
  have "moves R (home_tx e (\<lambda>q s. Inr (loadWorkspaces None None s, s)))" by (rule moves_read) auto
  with 1 show ?case by (auto intro!: moves_bind moves_drop moves_push_state moves_push_summary moves_return)
qed

lemma moves_apply_now:
  assumes "target_may may first (rs_workspaceId target)"
  shows "moves R (applyNow e i target)"
  unfolding applyNow_def Let_def
proof (rule moves_bind_yields [OF moves_load yields_load], goal_cases)
  case (1 l)
  then have l: "target_may may first (ld_workspaceId l)" using assms by simp
  show ?case by (auto intro!: moves_answer moves_bind moves_unreadable moves_commit [OF l] split: sum.splits)
qed

lemma moves_home_apply:
  assumes first
  shows "moves R (home_apply e i)"
  unfolding home_apply_def
  by (auto intro!: moves_bind moves_attempt moves_target moves_answer moves_throw moves_return moves_apply_now all_may [OF assms] split: sum.splits home_error.splits)

lemma moves_import_drafts: "may w \<Longrightarrow> moves R (import_drafts e w kept ds)"
proof (induction ds)
  case (Cons d ds)
  then show ?case
    by (auto simp: Let_def intro!: moves_bind moves_attempt moves_save_draft moves_push moves_return split: option.splits sum.splits)
qed (simp add: moves_return)

lemma moves_import: "first \<Longrightarrow> moves R (importLegacy e raw ds)"
proof -
  assume f: first
  then have "target_may may first None" "may w" for w using all_may [OF f] first_all [OF f] by blast+
  then show ?thesis unfolding importLegacy_def Let_def
    by (auto intro!: moves_bind moves_read_workspace moves_return moves_save moves_push_state moves_import_drafts)
qed

lemma moves_patch: "first \<Longrightarrow> moves R (patchDraft e d p orig req rid)"
proof -
  assume f: first
  then have m: "target_may may first i" "may w" for i w using all_may [OF f] first_all [OF f] by blast+
  show ?thesis unfolding patchDraft_def Let_def
    by (auto intro!: moves_bind moves_attempt moves_target moves_throw moves_load moves_save_draft moves_push moves_apply_now m moves_return
        split: sum.splits home_error.splits option.splits)
qed

end

text \<open>With the list.\<close>

locale home_manager = home_writer R e "\<lambda>w. True" True for R :: "home \<Rightarrow> home \<Rightarrow> bool" and e :: home_env +
  assumes create: "create_run e i (sql_env_of e (hm_txs w)) (loadWorkspaces None None (hm_store w)) (hm_store w) = Inr (a, st)
      \<Longrightarrow> R w (w\<lparr>hm_txs := Suc (hm_txs w), hm_store := st\<rparr>)"
    and update: "workspace_update (sql_env_of e (hm_txs w)) k name color (hm_store w) = Inr (changed, st)
      \<Longrightarrow> R w (w\<lparr>hm_txs := Suc (hm_txs w), hm_store := st\<rparr>)"
    and reorder: "workspace_reorder (sql_env_of e (hm_txs w)) k before_id (hm_store w) = Inr (changed, st)
      \<Longrightarrow> R w (w\<lparr>hm_txs := Suc (hm_txs w), hm_store := st\<rparr>)"
begin

lemma moves_create: "moves R (create_home e i)"
  unfolding create_home_def by (auto intro!: moves_bind moves_manage create moves_push_summary moves_return)

lemma moves_update: "moves R (update_home e k i)"
proof -
  have "moves R (manageTx e (update_run k i))"
    by (rule moves_manage) (auto simp: update_run_def sql_ok_def intro: update split: option.splits if_splits sum.splits)
  then show ?thesis unfolding update_home_def by (auto intro!: moves_bind moves_push_summary moves_return)
qed

lemma moves_reorder: "moves R (reorder_home e k rid before_id a)"
proof -
  have "moves R (manageTx e (reorder_run k before_id))"
    by (rule moves_manage) (auto simp: reorder_run_def sql_ok_def intro: reorder split: if_splits sum.splits)
  then show ?thesis unfolding reorder_home_def by (auto intro!: moves_bind moves_push_summary moves_return)
qed

end

end
