(* ===== verification/HomeGuard.thy ===== *)
theory HomeGuard
  imports HomeMoves
begin

text \<open>
  The guarantees of the stored-workspace service (\<open>server/src/workspace/service.ts\<close>): what every operation
  keeps of the tables, what an agent may do, which workspaces a command writes, and whom the frames
  are for.
\<close>

subsection \<open>The tables stay in order\<close>

text \<open>No two transactions get the same ids.\<close>

definition fresh_ids :: "home_env \<Rightarrow> bool" where
  "fresh_ids e \<longleftrightarrow> (\<forall>m j n k. he_fresh e m j = he_fresh e n k \<longrightarrow> m = n \<and> j = k)"

definition known_ids :: "home_env \<Rightarrow> nat \<Rightarrow> string set \<Rightarrow> bool" where
  "known_ids e n ids \<longleftrightarrow> (\<forall>i \<in> ids. \<exists>m < n. \<exists>j. i = he_fresh e m j)"

definition home_inv :: "home_env \<Rightarrow> home \<Rightarrow> bool" where
  "home_inv e h \<longleftrightarrow> fresh_ids e \<and> store_ok (sql_env_of e 0) (hm_store h) \<and> known_ids e (hm_txs h) (home_ids (hm_store h))"

lemma store_ok_env: "store_ok (sql_env_of e n) s = store_ok (sql_env_of e 0) s"
  by (simp add: store_ok_def sql_env_of_def)

lemma home_inv_caller [simp]: "home_inv (as_caller e c) = home_inv e" "fresh_ids (as_caller e c) = fresh_ids e"
  by (simp_all add: fun_eq_iff home_inv_def store_ok_def sql_env_of_def known_ids_def fresh_ids_def as_caller_def)

lemma known_not_fresh: "fresh_ids e \<Longrightarrow> known_ids e n ids \<Longrightarrow> he_fresh e n k \<notin> ids"
  unfolding fresh_ids_def known_ids_def by (metis less_irrefl)

lemma known_after:
  "known_ids e n ids \<Longrightarrow> ids' \<subseteq> insert (he_fresh e n 0) (insert (he_fresh e n 1) ids) \<Longrightarrow> known_ids e (Suc n) ids'"
  unfolding known_ids_def by (metis insert_iff less_Suc_eq subsetD)

text \<open>What the service may do: keep the tables in order and the same workspace active.\<close>

definition keeps_order :: "home_env \<Rightarrow> home \<Rightarrow> home \<Rightarrow> bool" where
  "keeps_order e h h' \<longleftrightarrow> (home_inv e h \<longrightarrow> home_inv e h')"

definition keeps_active :: "home_env \<Rightarrow> home \<Rightarrow> home \<Rightarrow> bool" where
  "keeps_active e h h' \<longleftrightarrow> (home_inv e h \<longrightarrow> home_inv e h' \<and> active_kept (hm_store h) (hm_store h'))"

lemma keeps_activeI:
  assumes "fresh_ids e \<Longrightarrow> store_ok (sql_env_of e (hm_txs w)) (hm_store w) \<Longrightarrow> known_ids e (hm_txs w) (home_ids (hm_store w))
      \<Longrightarrow> store_ok (sql_env_of e (hm_txs w)) st
        \<and> home_ids st \<subseteq> insert (he_fresh e (hm_txs w) 0) (insert (he_fresh e (hm_txs w) 1) (home_ids (hm_store w))) \<and> active_kept (hm_store w) st"
  shows "keeps_active e w (w\<lparr>hm_txs := Suc (hm_txs w), hm_store := st\<rparr>)"
  unfolding keeps_active_def
proof (intro impI)
  assume inv: "home_inv e w"
  let ?w = "w\<lparr>hm_txs := Suc (hm_txs w), hm_store := st\<rparr>"
  from inv have "fresh_ids e" "store_ok (sql_env_of e (hm_txs w)) (hm_store w)" "known_ids e (hm_txs w) (home_ids (hm_store w))"
    using store_ok_env [of e "hm_txs w" "hm_store w"] by (simp_all add: home_inv_def)
  note st = assms [OF this] and known = this(3) and f = this(1)
  have "known_ids e (Suc (hm_txs w)) (home_ids st)" using known_after [OF known] st by blast
  then have "home_inv e ?w" using st f store_ok_env [of e "hm_txs w" st] by (simp add: home_inv_def)
  then show "home_inv e ?w \<and> active_kept (hm_store w) (hm_store ?w)" using st by simp
qed

lemma keeps_orderI:
  assumes "fresh_ids e \<Longrightarrow> store_ok (sql_env_of e (hm_txs w)) (hm_store w)
      \<Longrightarrow> store_ok (sql_env_of e (hm_txs w)) st \<and> home_ids st \<subseteq> home_ids (hm_store w)"
  shows "keeps_order e w (w\<lparr>hm_txs := Suc (hm_txs w), hm_store := st\<rparr>)"
  unfolding keeps_order_def
proof (intro impI)
  assume inv: "home_inv e w"
  then have "store_ok (sql_env_of e (hm_txs w)) (hm_store w)" "known_ids e (hm_txs w) (home_ids (hm_store w))" "fresh_ids e"
    using store_ok_env [of e "hm_txs w" "hm_store w"] by (simp_all add: home_inv_def)
  note st = assms [OF this(3,1)] and known = this(2) and f = this(3)
  have "known_ids e (Suc (hm_txs w)) (home_ids st)" by (rule known_after [OF known]) (use st in blast)
  then show "home_inv e (w\<lparr>hm_txs := Suc (hm_txs w), hm_store := st\<rparr>)" using st f store_ok_env [of e "hm_txs w" st] by (simp add: home_inv_def)
qed

lemma fresh_of [simp]: "qe_fresh (sql_env_of e n) = he_fresh e n"
  by (simp add: sql_env_of_def)

text \<open>A creation may make the first workspace and another one in a single transaction.\<close>

lemma create_run_ok:
  assumes f: "fresh_ids e" and ok: "store_ok (sql_env_of e n) s" and known: "known_ids e n (home_ids s)"
    and r: "create_run e i (sql_env_of e n) ws s = Inr (w, s')"
  shows "store_ok (sql_env_of e n) s' \<and> home_ids s' \<subseteq> insert (he_fresh e n 0) (insert (he_fresh e n 1) (home_ids s)) \<and> active_kept s s'"
proof -
  let ?q = "sql_env_of e n"
  let ?st = "toStoredState (defaultWorkspaceState (he_spaceId e) [] [])"
  obtain m s1 where s1: "(if wl_rows ws = [] then sql_ok (workspace_save ?q None 0 1 ?st None s) else Inr ([], s)) = Inr (m, s1)"
    and c: "workspace_create ?q (ci_name i) (ci_color i) (ci_before i) ?st (ma_class (ci_actor i) = ActorAgent) s1 = Inr (w, s')"
    using r by (auto simp: create_run_def Let_def sql_ok_def split: if_splits sum.splits)
  have "store_ok ?q s1 \<and> home_ids s1 \<subseteq> insert (he_fresh e n 0) (home_ids s) \<and> active_kept s s1"
  proof (cases "wl_rows ws = []")
    case True
    with s1 have "workspace_save ?q None 0 1 ?st None s = Inr (m, s1)" by (auto simp: sql_ok_def split: sum.splits)
    from save_ok [OF ok this] save_shape [OF ok this] show ?thesis by simp
  next
    case False
    with s1 have "s1 = s" by simp
    with ok show ?thesis using active_kept_same [of s s] by auto
  qed
  then have k: "store_ok ?q s1" "home_ids s1 \<subseteq> insert (he_fresh e n 0) (home_ids s)" "active_kept s s1" by blast+
  have "he_fresh e n 1 \<noteq> he_fresh e n 0" using f unfolding fresh_ids_def by (metis zero_neq_one)
  then have "qe_fresh ?q 1 \<notin> home_ids s1" using k(2) known_not_fresh [OF f known, of 1] by auto
  from create_ok [OF k(1) c this] create_active [OF k(1) c] k show ?thesis
    using active_kept_trans by auto
qed


interpretation keeping: home_manager "keeps_active e" e for e
proof
  show "keeps_active e w w" for w by (simp add: keeps_active_def active_kept_same)
  show "keeps_active e u v \<Longrightarrow> keeps_active e v w \<Longrightarrow> keeps_active e u w" for u v w
    unfolding keeps_active_def using active_kept_trans by blast
  show "keeps_active e w (w\<lparr>hm_prompts := p\<rparr>)" for w p by (simp add: keeps_active_def home_inv_def active_kept_same)
  show "keeps_active e w (w\<lparr>hm_txs := Suc (hm_txs w)\<rparr>)" for w
    using known_after [of e "hm_txs w" "home_ids (hm_store w)" "home_ids (hm_store w)"] by (auto simp: keeps_active_def home_inv_def active_kept_same)
  have save: "tx_ok (keeps_active e) e (\<lambda>q s. sql_ok (workspace_save q i expected nxt st agent s))" for i expected nxt st agent
    unfolding tx_ok_def
  proof (intro allI impI)
    fix w :: home and a s' assume "sql_ok (workspace_save (sql_env_of e (hm_txs w)) i expected nxt st agent (hm_store w)) = Inr (a, s')"
    then have r: "workspace_save (sql_env_of e (hm_txs w)) i expected nxt st agent (hm_store w) = Inr (a, s')" by (auto simp: sql_ok_def split: sum.splits)
    show "keeps_active e w (w\<lparr>hm_txs := Suc (hm_txs w), hm_store := s'\<rparr>)"
      by (rule keeps_activeI) (use save_ok [OF _ r] save_shape [OF _ r] in auto)
  qed
  show "tx_ok (keeps_active e) e (\<lambda>q s. sql_ok (workspace_save q (Some w) expected nxt st agent s))" for w expected nxt st agent by (rule save)
  show "tx_ok (keeps_active e) e (\<lambda>q s. sql_ok (workspace_save q None expected nxt st agent s))" for expected nxt st agent by (rule save)
  show "tx_ok (keeps_active e) e (\<lambda>q s. sql_ok (workspace_draft_write q w d kind rv fs s))" for w d kind rv fs
    unfolding tx_ok_def
    by (auto simp: sql_ok_def split: sum.splits intro!: keeps_activeI dest: draft_write_ok draft_write_shape)
  show "create_run e i (sql_env_of e (hm_txs w)) (loadWorkspaces None None (hm_store w)) (hm_store w) = Inr (a, st)
      \<Longrightarrow> keeps_active e w (w\<lparr>hm_txs := Suc (hm_txs w), hm_store := st\<rparr>)" for i w a st
    by (rule keeps_activeI) (rule create_run_ok)
  show "workspace_update (sql_env_of e (hm_txs w)) k name color (hm_store w) = Inr (changed, st)
      \<Longrightarrow> keeps_active e w (w\<lparr>hm_txs := Suc (hm_txs w), hm_store := st\<rparr>)" for w k name color changed st
    by (rule keeps_activeI) (auto dest: update_ok update_shape)
  show "workspace_reorder (sql_env_of e (hm_txs w)) k before_id (hm_store w) = Inr (changed, st)
      \<Longrightarrow> keeps_active e w (w\<lparr>hm_txs := Suc (hm_txs w), hm_store := st\<rparr>)" for w k before_id changed st
    by (rule keeps_activeI) (auto dest: reorder_ok reorder_shape)
qed simp_all

lemma tx_ok_mono: "tx_ok R e f \<Longrightarrow> (\<And>u v. R u v \<Longrightarrow> S u v) \<Longrightarrow> tx_ok S e f"
  unfolding tx_ok_def by blast

lemma keeps_weaker: "keeps_active e u v \<Longrightarrow> keeps_order e u v"
  by (simp add: keeps_active_def keeps_order_def)

interpretation ordering: home_manager "keeps_order e" e for e
proof
  show "keeps_order e w w" for w by (simp add: keeps_order_def)
  show "keeps_order e u v \<Longrightarrow> keeps_order e v w \<Longrightarrow> keeps_order e u w" for u v w by (simp add: keeps_order_def)
  show "keeps_order e w (w\<lparr>hm_prompts := p\<rparr>)" for w p by (rule keeps_weaker) (rule keeping.R_prompts)
  show "keeps_order e w (w\<lparr>hm_txs := Suc (hm_txs w)\<rparr>)" for w by (rule keeps_weaker) (rule keeping.R_txs)
  show "tx_ok (keeps_order e) e (\<lambda>q s. sql_ok (workspace_save q (Some w) expected nxt st agent s))" for w expected nxt st agent
    by (rule tx_ok_mono [OF keeping.save keeps_weaker]) simp
  show "tx_ok (keeps_order e) e (\<lambda>q s. sql_ok (workspace_save q None expected nxt st agent s))" for expected nxt st agent
    by (rule tx_ok_mono [OF keeping.save_first keeps_weaker]) simp
  show "tx_ok (keeps_order e) e (\<lambda>q s. sql_ok (workspace_draft_write q w d kind rv fs s))" for w d kind rv fs
    by (rule tx_ok_mono [OF keeping.draft keeps_weaker]) simp
  show "create_run e i (sql_env_of e (hm_txs w)) (loadWorkspaces None None (hm_store w)) (hm_store w) = Inr (a, st)
      \<Longrightarrow> keeps_order e w (w\<lparr>hm_txs := Suc (hm_txs w), hm_store := st\<rparr>)" for i w a st
    by (rule keeps_weaker) (rule keeping.create)
  show "workspace_update (sql_env_of e (hm_txs w)) k name color (hm_store w) = Inr (changed, st)
      \<Longrightarrow> keeps_order e w (w\<lparr>hm_txs := Suc (hm_txs w), hm_store := st\<rparr>)" for w k name color changed st
    by (rule keeps_weaker) (rule keeping.update)
  show "workspace_reorder (sql_env_of e (hm_txs w)) k before_id (hm_store w) = Inr (changed, st)
      \<Longrightarrow> keeps_order e w (w\<lparr>hm_txs := Suc (hm_txs w), hm_store := st\<rparr>)" for w k before_id changed st
    by (rule keeps_weaker) (rule keeping.reorder)
qed simp_all

subsection \<open>Switching and deleting\<close>

context home_order
begin

lemma moves_switch_now:
  assumes "\<And>w a st. switch_run k rid x actor (sql_env_of e (hm_txs w)) (loadWorkspaces None None (hm_store w)) (hm_store w) = Inr (a, st)
      \<Longrightarrow> R w (w\<lparr>hm_txs := Suc (hm_txs w), hm_store := st\<rparr>)"
  shows "moves R (switchNow e k rid x actor accepting)"
proof -
  have "moves R (manageTx e (switch_run k rid x actor))" by (rule moves_manage) (rule assms)
  then show ?thesis unfolding switchNow_def
    by (auto intro!: moves_bind moves_return moves_accept moves_ask moves_prompts moves_push_switch split: switch_outcome.splits)
qed

lemma moves_remove_now:
  assumes "\<And>l w a st. remove_run k rid discard actor l (sql_env_of e (hm_txs w)) (loadWorkspaces None None (hm_store w)) (hm_store w) = Inr (a, st)
      \<Longrightarrow> R w (w\<lparr>hm_txs := Suc (hm_txs w), hm_store := st\<rparr>)"
  shows "moves R (removeNow e k rid discard actor accepting)"
proof -
  have "moves R (manageTx e (remove_run k rid discard actor l))" for l by (rule moves_manage) (rule assms)
  then show ?thesis unfolding removeNow_def
    by (auto intro!: moves_bind moves_catch moves_throw moves_load moves_return moves_accept moves_ask moves_prompts moves_push_switch moves_push_summary
        split: remove_outcome.splits)
qed

lemma moves_resolve:
  assumes "\<And>w a. ma_class a = ActorHuman \<Longrightarrow> moves R (switchNow e w (ri_requestId inp) None a (Some i))"
    "\<And>w a. ma_class a = ActorHuman \<Longrightarrow> moves R (removeNow e w (ri_requestId inp) (ri_discard inp) a (Some i))"
  shows "moves R (resolvePrompt e i inp)"
  unfolding resolvePrompt_def current_prompt_def end_prompt_def answered_def Let_def
  by (auto intro!: moves_bind moves_prompts moves_throw moves_return moves_list assms split: option.splits)

end

lemma switch_run_cases:
  assumes "switch_run k rid x actor q ws s = Inr (a, st)"
  obtains (same) "st = s" | (switched) p where "ma_class actor \<noteq> ActorAgent" "workspace_switch q k s = Inr (p, st)"
  using assms by (auto simp: switch_run_def sql_ok_def split: if_splits sum.splits)

lemma remove_run_cases:
  assumes "remove_run k rid discard actor l q ws s = Inr (a, st)"
  obtains (same) "st = s"
    | (deleted) p r where "workspace_delete q k s = Inr (p, st)" "find (\<lambda>r. hw_id r = k) (wl_rows ws) = Some r"
        "ma_class actor = ActorAgent \<longrightarrow> agent_may r actor (wl_activeId ws = Some k) (dirty_drafts (ld_state l))"
        "dirty_drafts (ld_state l) = [] \<or> discard \<and> ma_class actor \<noteq> ActorAgent"
  using assms by (auto simp: remove_run_def sql_ok_def Let_def split: if_splits sum.splits option.splits)

lemma switch_keeps_order: "moves (keeps_order e) (switchNow e w rid x a accepting)"
proof (rule ordering.moves_switch_now)
  fix h :: home and r st assume "switch_run w rid x a (sql_env_of e (hm_txs h)) (loadWorkspaces None None (hm_store h)) (hm_store h) = Inr (r, st)"
  then show "keeps_order e h (h\<lparr>hm_txs := Suc (hm_txs h), hm_store := st\<rparr>)"
  proof (cases rule: switch_run_cases)
    case (switched p)
    then show ?thesis by (intro keeps_orderI) (auto dest: switch_ok switch_ids)
  qed (intro keeps_orderI, simp)
qed

lemma remove_keeps_order: "moves (keeps_order e) (removeNow e w rid d a accepting)"
proof (rule ordering.moves_remove_now)
  fix l and h :: home and r st assume "remove_run w rid d a l (sql_env_of e (hm_txs h)) (loadWorkspaces None None (hm_store h)) (hm_store h) = Inr (r, st)"
  then show "keeps_order e h (h\<lparr>hm_txs := Suc (hm_txs h), hm_store := st\<rparr>)"
  proof (cases rule: remove_run_cases)
    case (deleted p r)
    then show ?thesis by (intro keeps_orderI) (auto dest: delete_ok delete_shape)
  qed (intro keeps_orderI, simp)
qed

lemma op_keeps_order: "moves (keeps_order e) (home_act_of e op)"
proof -
  note reads = ordering.moves_get ordering.moves_list_workspaces ordering.moves_inspect ordering.moves_snapshot ordering.moves_target
  note writes = ordering.moves_home_apply ordering.moves_import ordering.moves_patch ordering.moves_create ordering.moves_update ordering.moves_reorder
  show ?thesis
    by (cases op) (auto simp: only_effect_def intro!: ordering.moves_bind ordering.moves_return reads writes switch_keeps_order remove_keeps_order ordering.moves_resolve)
qed

text \<open>The service after some operations, each by its caller.\<close>

definition home_after :: "home_env \<Rightarrow> (caller \<times> home_op) list \<Rightarrow> (home, home_event) act_world" where
  "home_after e ops = foldl (home_step e) new_home ops"

lemma run_in_order:
  assumes "fresh_ids e"
  shows "home_inv e (wo_state (home_after e ops))"
proof -
  have start: "home_inv e (wo_state new_home)"
    using assms by (simp add: home_inv_def new_home_def empty_home_def store_ok_def rows_ok_def positions_ok_def pointer_ok_def drafts_ok_def drafts_of_def
        home_ids_def known_ids_def)
  have step: "home_inv e (wo_state s) \<Longrightarrow> home_inv e (wo_state (home_step e s op))" for s op
    using op_keeps_order [of "as_caller e (fst op)" "snd op"] unfolding moves_def keeps_order_def home_step_def home_inv_caller by blast
  have "home_inv e (wo_state s) \<Longrightarrow> home_inv e (wo_state (foldl (home_step e) s ops))" for s
    by (induction ops arbitrary: s) (simp_all add: step)
  with start show ?thesis unfolding home_after_def by blast
qed

subsection \<open>An example\<close>

text \<open>An agent makes a second workspace where there was none, and deletes it again.\<close>

definition sample_home :: home_env where
  "sample_home = \<lparr>he_spaceId = ''s'', he_member = True, he_actorId = Some ''me'', he_down = (\<lambda>n. None), he_now = int,
     he_fresh = (\<lambda>n k. replicate n CHR ''w'' @ CHR ''-'' # replicate k CHR ''w''), he_stateSize = (\<lambda>st. 2), he_fieldsSize = length,
     he_readable = (\<lambda>n i. True), he_newId = (\<lambda>n. replicate n CHR ''t''), he_windows = [], he_clock = (\<lambda>h. int (hm_txs h)),
     he_promptOpts = default_prompt_opts, he_promptIds = (\<lambda>n. replicate n CHR ''p'')\<rparr>"

definition sample_agent :: manage_actor where "sample_agent = \<lparr>ma_class = ActorAgent, ma_name = Some ''Bot'', ma_id = Some ''bot''\<rparr>"

definition sample_caller :: caller where "sample_caller = \<lparr>cl_member = True, cl_actorId = Some ''bot'', cl_windows = []\<rparr>"

definition sample_create :: "caller \<times> home_op" where
  "sample_create = (sample_caller, OpCreate \<lparr>ci_requestId = ''r1'', ci_name = Some ''Notes'', ci_color = None, ci_before = None, ci_actor = sample_agent\<rparr>)"

lemma sample_ids: "replicate m CHR ''w'' @ CHR ''-'' # replicate j CHR ''w'' = replicate n CHR ''w'' @ CHR ''-'' # replicate k CHR ''w'' \<longleftrightarrow> m = n \<and> j = k"
proof (induction m arbitrary: n)
  case 0
  show ?case by (cases n) simp_all
next
  case (Suc m)
  show ?case by (cases n) (simp_all add: Suc.IH)
qed

lemma sample_fresh: "fresh_ids sample_home"
  by (simp add: fresh_ids_def sample_home_def sample_ids)

definition sample_state :: wstate where
  "sample_state = toStoredState (defaultWorkspaceState ''s'' [] [])"

definition sample_rows :: "ws_row list" where
  "sample_rows =
     [\<lparr>wr_id = ''-'', wr_name = ''Main'', wr_color = None, wr_position = 0, wr_state = sample_state, wr_revision = 1, wr_createdAt = 0, wr_createdByActor = Some ''bot'',
        wr_createdByClass = ActorHuman, wr_lastActiveAt = Some 0, wr_lastAgentChangeAt = None, wr_lastAgentActor = None\<rparr>,
      \<lparr>wr_id = ''-w'', wr_name = ''Notes'', wr_color = None, wr_position = 1, wr_state = sample_state, wr_revision = 1, wr_createdAt = 0, wr_createdByActor = Some ''bot'',
        wr_createdByClass = ActorAgent, wr_lastActiveAt = None, wr_lastAgentChangeAt = Some 0, wr_lastAgentActor = Some ''bot''\<rparr>]"

lemmas sample_defs = sample_home_def sample_caller_def sample_agent_def as_caller_def sql_env_of_def

lemma sample_list: "loadWorkspaces None None empty_home = \<lparr>wl_rows = [], wl_activeId = None, wl_listRevision = 0\<rparr>"
  by (simp add: loadWorkspaces_def empty_home_def list_order_def)

lemma sample_run: "create_run (as_caller sample_home sample_caller) \<lparr>ci_requestId = ''r1'', ci_name = Some ''Notes'', ci_color = None, ci_before = None, ci_actor = sample_agent\<rparr>
    (sql_env_of (as_caller sample_home sample_caller) 0) (loadWorkspaces None None empty_home) empty_home
   = Inr (''-w'', \<lparr>hs_rows = sample_rows, hs_active = Some (''-'', 2), hs_drafts = []\<rparr>)"
proof -
  let ?q = "sql_env_of (as_caller sample_home sample_caller) 0"
  let ?s1 = "\<lparr>hs_rows = [hd sample_rows], hs_active = Some (''-'', 1), hs_drafts = []\<rparr>"
  have save: "workspace_save ?q None 0 1 sample_state None empty_home = Inr (''-'', ?s1)"
    by (simp add: workspace_save_def sample_defs empty_home_def first_row_def sample_rows_def WORKSPACE_DEFAULT_NAME_def)
  have create: "workspace_create ?q (Some ''Notes'') None None sample_state True ?s1 = Inr (''-w'', \<lparr>hs_rows = sample_rows, hs_active = Some (''-'', 2), hs_drafts = []\<rparr>)"
    by (simp add: workspace_create_def sample_defs Let_def workspace_name_ok_def color_ok_def name_used_def lower_def lower_char_def sample_rows_def
        WORKSPACES_PER_IDENTITY_CAP_def workspaces_list_bump_def repair_pointer_def workspaces_place_def placed_ids_def set_positions_def ordered_ids_def list_order_def)
  have space: "he_spaceId (as_caller sample_home sample_caller) = ''s''" by (simp add: sample_defs)
  show ?thesis
    using save create unfolding create_run_def Let_def sample_list space sample_state_def [symmetric]
    by (simp add: sql_ok_def WORKSPACES_PER_IDENTITY_CAP_def nameTaken_def sample_agent_def)
qed

lemma sample_made: "hm_store (wo_state (home_after sample_home [sample_create])) = \<lparr>hs_rows = sample_rows, hs_active = Some (''-'', 2), hs_drafts = []\<rparr>"
proof -
  have "he_down (as_caller sample_home sample_caller) 0 = None" "qe_member (sql_env_of (as_caller sample_home sample_caller) 0)" by (simp_all add: sample_defs)
  then show ?thesis
    using sample_run
    by (simp add: home_after_def home_step_def sample_create_def new_home_def create_home_def only_effect_def manageTx_def home_tx_def act_defs push_home_def pushSummary_def Let_def)
qed

lemma sample_clean: "map_option draft_tabs (sanitizeStored sample_state ''s'') = Some []"
  by code_simp

subsection \<open>The list stays in order\<close>

text \<open>
  C24: The list of workspaces stays in order: after any operations by anyone, whatever transactions fail,
  ids and names (whatever their case) are unique, there are at most 20 workspaces and their positions are
  0 to n - 1; there is an active one just when there is any, and it exists; every workspace has a valid
  name, a positive revision and a state within its size; and every draft belongs to a workspace, which
  holds at most 30.
\<close>
theorem workspaces_stay_in_order:
  assumes "fresh_ids e"
    and s: "s = hm_store (wo_state (home_after e ops))"
  shows "distinct (map wr_id (hs_rows s)) \<and> distinct (map (lower \<circ> wr_name) (hs_rows s)) \<and> length (hs_rows s) \<le> 20
     \<and> map wr_position (list_order s) = [0..<length (hs_rows s)]
     \<and> (case hs_active s of None \<Rightarrow> hs_rows s = [] | Some (i, n) \<Rightarrow> i \<in> set (map wr_id (hs_rows s)) \<and> 0 < n)
     \<and> (\<forall>r \<in> set (hs_rows s). workspace_name_ok (wr_name r) \<and> color_ok (wr_color r) \<and> 0 < wr_revision r \<and> he_stateSize e (wr_state r) \<le> 131072)
     \<and> (\<forall>(k, x) \<in> set (hs_drafts s). fst k \<in> set (map wr_id (hs_rows s)) \<and> 0 < dr_revision x \<and> he_fieldsSize e (dr_fields x) \<le> 32768)
     \<and> (\<forall>w. length (filter (\<lambda>(k, x). fst k = w) (hs_drafts s)) \<le> 30)"
proof -
  have "store_ok (sql_env_of e 0) s" using run_in_order [OF assms(1)] by (simp add: home_inv_def s)
  then have rs: "rows_ok (he_stateSize e) (hs_rows s)" and p: "pointer_ok (hs_active s) (home_ids s)" and ds: "drafts_ok (he_fieldsSize e) (hs_drafts s) (home_ids s)"
    by (simp_all add: store_ok_def sql_env_of_def)
  have "map wr_position (list_order s) = [0..<length (hs_rows s)]" using rs positions_in_order by (simp add: rows_ok_def)
  moreover have "case hs_active s of None \<Rightarrow> hs_rows s = [] | Some (i, n) \<Rightarrow> i \<in> set (map wr_id (hs_rows s)) \<and> 0 < n"
    using p by (auto simp: pointer_ok_def home_ids_def split: option.splits)
  ultimately show ?thesis using rs ds by (simp add: rows_ok_def row_ok_def drafts_ok_def drafts_of_def home_ids_def WORKSPACES_PER_IDENTITY_CAP_def)
qed

theorem workspaces_stay_in_order_witness:
  "length (hs_rows (hm_store (wo_state (home_after sample_home [sample_create])))) \<le> 20
     \<and> map wr_position (list_order (hm_store (wo_state (home_after sample_home [sample_create])))) = [0, 1]"
proof -
  note w = workspaces_stay_in_order [OF sample_fresh refl, of "[sample_create]"]
  have "length (hs_rows (hm_store (wo_state (home_after sample_home [sample_create])))) = 2" unfolding sample_made by (simp add: sample_rows_def)
  with w show ?thesis by (simp add: upt_rec)
qed

subsection \<open>What an agent may do\<close>

lemma active_id:
  assumes "store_ok q s"
  shows "wl_activeId (loadWorkspaces t d s) = map_option fst (hs_active s)"
proof -
  let ?out = "map (loaded_row t d s) (list_order s)"
  have ids: "hw_id (loaded_row t d s r) = wr_id r" for r by (simp add: loaded_row_def Let_def)
  have pt: "hw_pointed (loaded_row t d s r) \<longleftrightarrow> map_option fst (hs_active s) = Some (wr_id r)" for r by (simp add: loaded_row_def Let_def)
  show ?thesis
  proof (cases "hs_active s")
    case None
    with assms have "hs_rows s = []" by (simp add: store_ok_def pointer_ok_def home_ids_def)
    then have "?out = []" by (simp add: list_order_def)
    with None show ?thesis by (simp add: loadWorkspaces_def Let_def)
  next
    case (Some p)
    then have "fst p \<in> home_ids s" using assms by (simp add: store_ok_def pointer_ok_def split: prod.splits)
    then obtain r where "r \<in> set (list_order s)" "wr_id r = fst p" by (auto simp: home_ids_def)
    then have "\<exists>x \<in> set ?out. hw_pointed x" using pt Some by force
    then have "find hw_pointed ?out \<noteq> None" by (auto simp: find_None_iff)
    then obtain x where x: "find hw_pointed ?out = Some x" by blast
    then have "x \<in> set ?out" "hw_pointed x" using find_Some_iff [of hw_pointed ?out x] nth_mem by metis+
    then have "hw_id x = fst p" using pt ids Some by auto
    with x Some show ?thesis by (simp add: loadWorkspaces_def Let_def)
  qed
qed

text \<open>The operations that move the screen: a human's switch, delete or answer to a prompt.\<close>

fun human_moves :: "home_op \<Rightarrow> bool" where
  "human_moves (OpSwitch w rid x a) \<longleftrightarrow> ma_class a = ActorHuman"
| "human_moves (OpRemove w rid d a) \<longleftrightarrow> ma_class a = ActorHuman"
| "human_moves (OpAnswer i inp) \<longleftrightarrow> True"
| "human_moves op \<longleftrightarrow> False"

lemma agent_switch_keeps: "ma_class a = ActorAgent \<Longrightarrow> moves (keeps_active e) (switchNow e w rid x a accepting)"
proof (rule keeping.moves_switch_now)
  fix h :: home and r st
  assume "ma_class a = ActorAgent" "switch_run w rid x a (sql_env_of e (hm_txs h)) (loadWorkspaces None None (hm_store h)) (hm_store h) = Inr (r, st)"
  then have "st = hm_store h" by (elim switch_run_cases) simp_all
  then show "keeps_active e h (h\<lparr>hm_txs := Suc (hm_txs h), hm_store := st\<rparr>)" using keeping.R_txs [of e h] by simp
qed

lemma agent_remove_keeps: "ma_class a = ActorAgent \<Longrightarrow> moves (keeps_active e) (removeNow e w rid d a accepting)"
proof (rule keeping.moves_remove_now)
  fix l and h :: home and r st
  assume a: "ma_class a = ActorAgent" and run: "remove_run w rid d a l (sql_env_of e (hm_txs h)) (loadWorkspaces None None (hm_store h)) (hm_store h) = Inr (r, st)"
  from run show "keeps_active e h (h\<lparr>hm_txs := Suc (hm_txs h), hm_store := st\<rparr>)"
  proof (cases rule: remove_run_cases)
    case same
    then show ?thesis using keeping.R_txs [of e h] by simp
  next
    case (deleted p r)
    show ?thesis
    proof (rule keeps_activeI)
      assume ok: "store_ok (sql_env_of e (hm_txs h)) (hm_store h)"
      have "map_option fst (hs_active (hm_store h)) \<noteq> Some w" using deleted(3) a active_id [OF ok, of None None] by (simp add: agent_may_def)
      then show "store_ok (sql_env_of e (hm_txs h)) st
        \<and> home_ids st \<subseteq> insert (he_fresh e (hm_txs h) 0) (insert (he_fresh e (hm_txs h) 1) (home_ids (hm_store h))) \<and> active_kept (hm_store h) st"
        using delete_ok [OF ok deleted(1)] delete_shape [OF ok deleted(1)] by blast
    qed
  qed
qed

lemma op_keeps_active: "\<not> human_moves op \<Longrightarrow> moves (keeps_active e) (home_act_of e op)"
proof -
  assume op: "\<not> human_moves op"
  have agent: "ma_class a \<noteq> ActorHuman \<Longrightarrow> ma_class a = ActorAgent" for a :: manage_actor by (cases "ma_class a") simp_all
  note reads = keeping.moves_get keeping.moves_list_workspaces keeping.moves_inspect keeping.moves_snapshot keeping.moves_target
  note writes = keeping.moves_home_apply keeping.moves_import keeping.moves_patch keeping.moves_create keeping.moves_update keeping.moves_reorder
  from op show ?thesis
    by (cases op) (auto simp: only_effect_def agent intro!: keeping.moves_bind keeping.moves_return reads writes agent_switch_keeps agent_remove_keeps)
qed



subsection \<open>What an agent may delete\<close>

lemma home_tx_cases:
  assumes "home_tx e f s = (r, s')"
  obtains (failed) "hm_store (wo_state s') = hm_store (wo_state s)" "\<not> (\<exists>a. r = Returned a)"
    | (ok) a where "f (sql_env_of e (hm_txs (wo_state s))) (hm_store (wo_state s)) = Inr (a, hm_store (wo_state s'))" "r = Returned a"
proof (cases "he_down e (hm_txs (wo_state s))")
  case (Some x)
  with assms show ?thesis by (intro failed) (auto simp: home_tx_def)
next
  case None
  note n = None
  show ?thesis
  proof (cases "f (sql_env_of e (hm_txs (wo_state s))) (hm_store (wo_state s))")
    case (Inl x)
    with n assms show ?thesis by (intro failed) (auto simp: home_tx_def)
  next
    case (Inr y)
    obtain a st where "y = (a, st)" by (cases y)
    with n Inr assms show ?thesis by (intro ok [of a]) (auto simp: home_tx_def)
  qed
qed

text \<open>Actions that leave the tables alone.\<close>

definition same_store :: "home \<Rightarrow> home \<Rightarrow> bool" where
  "same_store h h' \<longleftrightarrow> hm_store h' = hm_store h"

interpretation still: home_order same_store e for e
  by unfold_locales (simp_all add: same_store_def)

lemma same_storeD: "moves same_store m \<Longrightarrow> m s = (r, s') \<Longrightarrow> hm_store (wo_state s') = hm_store (wo_state s)"
  unfolding moves_def same_store_def by (metis snd_conv)

lemma load_returned:
  assumes "load_workspace e (Some w) s = (Returned l, s')"
  shows "\<exists>r. row_at (hm_store (wo_state s)) w = Some r \<and> l = loaded_of e (Some r) (hm_store (wo_state s))"
  using assms unfolding load_workspace_def
  by (cases rule: home_tx_cases) (auto split: option.splits if_splits)

lemma manage_cases:
  assumes "manageTx e run s = (r, s')"
  obtains (failed) "hm_store (wo_state s') = hm_store (wo_state s)" "\<not> (\<exists>a. r = Returned a)"
    | (ok) a where "run (sql_env_of e (hm_txs (wo_state s))) (loadWorkspaces None None (hm_store (wo_state s))) (hm_store (wo_state s)) = Inr (a, hm_store (wo_state s'))"
        "r = Returned (a, loadWorkspaces None None (hm_store (wo_state s')))"
proof -
  let ?f = "\<lambda>q s. if \<not> qe_member q then Inl no_space else (case run q (loadWorkspaces None None s) s of
      Inl x \<Rightarrow> Inl x | Inr (a, s') \<Rightarrow> Inr ((a, loadWorkspaces None None s'), s'))"
  obtain r1 s1 where tx: "home_tx e ?f s = (r1, s1)" by (cases "home_tx e ?f s")
  then have "s1 = s'" "r = r1 \<or> \<not> (\<exists>a. r = Returned a) \<and> \<not> (\<exists>a. r1 = Returned a)"
    using assms by (auto simp: manageTx_def act_catch_def act_throw_def split: act_outcome.splits)
  with tx show ?thesis
    by (cases rule: home_tx_cases) (auto intro: failed ok split: if_splits sum.splits)
qed

text \<open>A delete that takes something away took away the workspace asked for, by the rules.\<close>

lemma remove_deletes:
  assumes "hm_store (wo_state (snd (removeNow e w rid discard a accepting s))) \<noteq> hm_store (wo_state s)"
  shows "\<exists>n p r l. workspace_delete (sql_env_of e n) w (hm_store (wo_state s)) = Inr (p, hm_store (wo_state (snd (removeNow e w rid discard a accepting s))))
     \<and> find (\<lambda>r. hw_id r = w) (wl_rows (loadWorkspaces None None (hm_store (wo_state s)))) = Some r
     \<and> (\<exists>x. row_at (hm_store (wo_state s)) w = Some x \<and> l = loaded_of e (Some x) (hm_store (wo_state s)))
     \<and> (ma_class a = ActorAgent \<longrightarrow> agent_may r a (wl_activeId (loadWorkspaces None None (hm_store (wo_state s))) = Some w) (dirty_drafts (ld_state l)))
     \<and> (dirty_drafts (ld_state l) = [] \<or> discard \<and> ma_class a \<noteq> ActorAgent)"
proof -
  let ?st = "hm_store (wo_state s)"
  let ?load = "act_catch (load_workspace e (Some w)) (\<lambda>x. act_throw (case x of HomeFault CodeNotFound why \<Rightarrow> no_workspace | _ \<Rightarrow> x))"
  obtain o1 s1 where load: "?load s = (o1, s1)" by (cases "?load s")
  have "moves same_store ?load" by (intro still.moves_catch still.moves_load still.moves_throw)
  then have st1: "hm_store (wo_state s1) = ?st" using load by (rule same_storeD)
  show ?thesis
  proof (cases o1)
    case (Returned l)
    then have l: "load_workspace e (Some w) s = (Returned l, s1)"
      using load by (auto simp: act_catch_def act_throw_def split: prod.splits act_outcome.splits)
    obtain o2 s2 where tx: "manageTx e (remove_run w rid discard a l) s1 = (o2, s2)" by (cases "manageTx e (remove_run w rid discard a l) s1")
    have rest: "hm_store (wo_state (snd (removeNow e w rid discard a accepting s))) = hm_store (wo_state s2)"
    proof (cases o2)
      case (Returned p)
      let ?k = "\<lambda>(r, ws). case r of RemoveAsks \<Rightarrow> ask_human e ws w DeletePrompt rid a
         | RemoveRefused m \<Rightarrow> act_return m
         | Removed active was was_active \<Rightarrow>
           act_bind (accept_prompt e accepting) (\<lambda>u. act_bind (on_prompts e (\<lambda>now p. ((), expireFor (he_promptOpts e) now w p))) (\<lambda>u.
           act_bind (if was_active then pushSwitch e ws (Some w) CauseDeleted w a else pushSummary ws CauseDeleted w a) (\<lambda>u.
           act_return ((manageResult rid Applied ws w)\<lparr>mr_workspace := map_option (\<lambda>x. x\<lparr>sm_active := False\<rparr>) was, mr_activeId := active\<rparr>))))"
      have "moves same_store (?k p)"
        by (cases p) (auto intro!: still.moves_steps split: remove_outcome.splits)
      then have "hm_store (wo_state (snd (?k p s2))) = hm_store (wo_state s2)" by (simp add: moves_def same_store_def)
      moreover have "snd (removeNow e w rid discard a accepting s) = snd (?k p s2)"
        using load tx \<open>o1 = Returned l\<close> Returned by (simp add: removeNow_def act_bind_def)
      ultimately show ?thesis by simp
    qed (use load tx Returned in \<open>simp_all add: removeNow_def act_bind_def\<close>)
    from tx show ?thesis
    proof (cases rule: manage_cases)
      case failed
      then show ?thesis using rest st1 assms by simp
    next
      case (ok x)
      then show ?thesis
      proof (cases rule: remove_run_cases)
        case same
        then show ?thesis using rest st1 assms by simp
      next
        case (deleted p r)
        then show ?thesis using rest st1 load_returned [OF l] by metis
      qed
    qed
  qed (use load st1 assms in \<open>simp_all add: removeNow_def act_bind_def\<close>)
qed

lemma loaded_of_caller [simp]: "loaded_of (as_caller e c) = loaded_of e"
  by (simp add: fun_eq_iff loaded_of_def as_caller_def split: option.splits)

lemma listed_row:
  assumes "find (\<lambda>r. hw_id r = w) (wl_rows (loadWorkspaces t d s)) = Some r"
  shows "\<exists>x \<in> set (hs_rows s). r = loaded_row t d s x \<and> wr_id x = w"
proof -
  have "r \<in> set (wl_rows (loadWorkspaces t d s))" "hw_id r = w"
    using assms find_Some_iff [of "\<lambda>r. hw_id r = w" "wl_rows (loadWorkspaces t d s)" r] nth_mem by metis+
  then show ?thesis by (auto simp: loadWorkspaces_def loaded_row_def Let_def)
qed

lemma only_effect_state [simp]: "snd (only_effect m s) = snd (m s)"
  by (auto simp: only_effect_def act_bind_def act_return_def split: prod.splits act_outcome.splits)

text \<open>
  C26: Deleting follows the rules: a request to delete a workspace takes away at most that one, never the
  last one, and unsaved drafts only when a human says so; and an agent's request takes it away only when
  the agent made it, it is not on screen and has no unsaved draft.
\<close>
theorem deletes_follow_the_rules:
  assumes "fresh_ids e" and st: "st = hm_store (wo_state (home_after e ops))"
    and st': "st' = hm_store (wo_state (home_after e (ops @ [(c, OpRemove w rid discard a)])))"
    and r: "r \<in> set (hs_rows st)" "wr_id r \<notin> home_ids st'"
  shows "wr_id r = w \<and> home_ids st' = home_ids st - {w} \<and> 1 < length (hs_rows st)
     \<and> (dirty_drafts (ld_state (loaded_of e (Some r) st)) = [] \<or> discard \<and> ma_class a = ActorHuman)
     \<and> (ma_class a = ActorAgent \<longrightarrow> wr_createdByActor r \<noteq> None \<and> wr_createdByActor r = ma_id a \<and> map_option fst (hs_active st) \<noteq> Some w)"
proof -
  have ok: "store_ok (sql_env_of e n) st" for n using run_in_order [OF assms(1), of ops] store_ok_env [of e n st] by (simp add: home_inv_def st)
  have okq: "store_ok (sql_env_of (as_caller e c) n) st" for n using ok [of n] by (simp add: store_ok_def sql_env_of_def as_caller_def)
  have st'2: "st' = hm_store (wo_state (snd (removeNow (as_caller e c) w rid discard a None (home_after e ops))))"
    by (simp add: st' home_after_def home_step_def)
  have ids: "distinct (map wr_id (hs_rows st))" using ok by (simp add: store_ok_def rows_ok_def)
  have "st' \<noteq> st" using r by (auto simp: home_ids_def)
  then obtain n p hr x where del: "workspace_delete (sql_env_of (as_caller e c) n) w st = Inr (p, st')"
    and hr: "find (\<lambda>r. hw_id r = w) (wl_rows (loadWorkspaces None None st)) = Some hr"
    and x: "row_at st w = Some x"
    and agent: "ma_class a = ActorAgent \<longrightarrow> agent_may hr a (wl_activeId (loadWorkspaces None None st) = Some w) (dirty_drafts (ld_state (loaded_of e (Some x) st)))"
    and dirty: "dirty_drafts (ld_state (loaded_of e (Some x) st)) = [] \<or> discard \<and> ma_class a \<noteq> ActorAgent"
    using remove_deletes [of "as_caller e c" w rid discard a None "home_after e ops"] unfolding st [symmetric] st'2 [symmetric] loaded_of_caller by metis
  have shape: "home_ids st' = home_ids st - {w}" using delete_shape [OF okq del] by blast
  then have rw: "wr_id r = w" using r by (auto simp: home_ids_def)
  have "x \<in> set (hs_rows st)" "wr_id x = w" using row_at_Some [OF x] by auto
  then have xr: "x = r" using ids r(1) rw by (auto simp: distinct_map inj_on_def)
  have "hw_createdByActorId hr = wr_createdByActor r"
  proof -
    from listed_row [OF hr] obtain y where y: "y \<in> set (hs_rows st)" "hr = loaded_row None None st y" "wr_id y = w" by blast
    then have "y = r" using ids r(1) rw by (auto simp: distinct_map inj_on_def)
    with y show ?thesis by (simp add: loaded_row_def Let_def)
  qed
  moreover have "1 < length (hs_rows st)" using del by (auto simp: workspace_delete_def ordered_ids_def split: if_splits)
  moreover have "ma_class a \<noteq> ActorAgent \<Longrightarrow> ma_class a = ActorHuman" by (cases "ma_class a") simp_all
  ultimately show ?thesis using rw shape agent dirty xr active_id [OF ok, of None None] by (auto simp: agent_may_def)
qed

text \<open>The agent deletes the workspace it made.\<close>

definition sample_remove :: "caller \<times> home_op" where
  "sample_remove = (sample_caller, OpRemove ''-w'' ''r2'' False sample_agent)"

lemma sample_removed: "''-w'' \<notin> home_ids (hm_store (wo_state (home_after sample_home ([sample_create] @ [sample_remove]))))"
proof -
  let ?e = "as_caller sample_home sample_caller"
  define s where "s = home_after sample_home [sample_create]"
  define st where "st = \<lparr>hs_rows = sample_rows, hs_active = Some (''-'', 2), hs_drafts = []\<rparr>"
  have s: "hm_store (wo_state s) = st" unfolding s_def st_def by (rule sample_made)
  have env: "he_down ?e k = None" "qe_member (sql_env_of ?e k)" for k by (simp_all add: sample_defs)
  define l where "l = loaded_of ?e (Some (sample_rows ! 1)) st"
  have row: "row_at st ''-w'' = Some (sample_rows ! 1)" by (simp add: st_def row_at_def sample_rows_def)
  have load: "load_workspace ?e (Some ''-w'') s = (Returned l, s\<lparr>wo_state := (wo_state s)\<lparr>hm_txs := Suc (hm_txs (wo_state s))\<rparr>\<rparr>)"
    using row by (simp add: load_workspace_def home_tx_def Let_def env s l_def)
  have "draft_tabs (ld_state l) = []"
  proof -
    obtain x where x: "sanitizeStored sample_state ''s'' = Some x" "draft_tabs x = []" using sample_clean by (cases "sanitizeStored sample_state ''s''") auto
    have sp: "he_spaceId ?e = ''s''" "wr_state (sample_rows ! 1) = sample_state" by (simp_all add: sample_defs sample_rows_def)
    show ?thesis unfolding l_def loaded_of_def option.case Let_def sp x(1) using x(2) by (simp add: draft_tabs_def)
  qed
  then have clean: "dirty_drafts (ld_state l) = []" by (simp add: dirty_drafts_def)
  have del: "\<exists>st'. workspace_delete (sql_env_of ?e k) ''-w'' st = Inr (Some ''-'', st') \<and> ''-w'' \<notin> home_ids st'" for k
    by (simp add: st_def workspace_delete_def workspace_owned_def env row_at_def sample_rows_def ordered_ids_def list_order_def workspaces_list_bump_def repair_pointer_def Let_def
        workspaces_place_def home_ids_def set_positions_def)
  have run: "\<exists>was st'. remove_run ''-w'' ''r2'' False sample_agent l (sql_env_of ?e k) (loadWorkspaces None None st) st = Inr (Removed (Some ''-'') was False, st') \<and> ''-w'' \<notin> home_ids st'" for k
  proof -
    obtain st' where st': "workspace_delete (sql_env_of ?e k) ''-w'' st = Inr (Some ''-'', st')" "''-w'' \<notin> home_ids st'" using del by blast
    let ?ws = "loadWorkspaces None None st"
    have rows: "wl_rows ?ws = map (loaded_row None None st) sample_rows" "wl_activeId ?ws = Some ''-''"
      by (simp_all add: loadWorkspaces_def list_order_def st_def sample_rows_def loaded_row_def Let_def)
    have "find (\<lambda>r. hw_id r = ''-w'') (wl_rows ?ws) = Some (loaded_row None None st (sample_rows ! 1))" "length (wl_rows ?ws) = 2"
      unfolding rows by (simp_all add: sample_rows_def loaded_row_def Let_def)
    moreover have "agent_may (loaded_row None None st (sample_rows ! 1)) sample_agent False []"
      by (simp add: agent_may_def loaded_row_def sample_rows_def Let_def sample_agent_def)
    ultimately show ?thesis using st' rows(2) clean by (simp add: remove_run_def Let_def sql_ok_def)
  qed
  obtain was st' where r: "remove_run ''-w'' ''r2'' False sample_agent l (sql_env_of ?e (Suc (hm_txs (wo_state s)))) (loadWorkspaces None None st) st = Inr (Removed (Some ''-'') was False, st')"
    and gone: "''-w'' \<notin> home_ids st'" using run by blast
  have "hm_store (wo_state (snd (removeNow ?e ''-w'' ''r2'' False sample_agent None s))) = st'"
    using load r env s
    by (simp add: removeNow_def manageTx_def home_tx_def act_defs Let_def accept_prompt_def on_prompts_def pushSummary_def push_home_def split: prod.splits)
  then show ?thesis using gone by (simp add: home_after_def home_step_def sample_remove_def s_def)
qed

theorem deletes_follow_the_rules_witness:
  "home_ids (hm_store (wo_state (home_after sample_home ([sample_create] @ [sample_remove])))) = {''-''} \<and> wr_createdByActor (sample_rows ! 1) = ma_id sample_agent"
proof -
  have r: "sample_rows ! 1 \<in> set (hs_rows (hm_store (wo_state (home_after sample_home [sample_create]))))" unfolding sample_made by (simp add: sample_rows_def)
  have i: "wr_id (sample_rows ! 1) = ''-w''" by (simp add: sample_rows_def)
  have "home_ids (hm_store (wo_state (home_after sample_home [sample_create]))) - {''-w''} = {''-''}" unfolding sample_made by (auto simp: home_ids_def sample_rows_def)
  moreover have "wr_id (sample_rows ! 1) \<notin> home_ids (hm_store (wo_state (home_after sample_home ([sample_create] @ [(sample_caller, OpRemove ''-w'' ''r2'' False sample_agent)]))))"
    unfolding i by (rule sample_removed [unfolded sample_remove_def])
  note deletes_follow_the_rules [OF sample_fresh refl refl r this]
  moreover have "ma_class sample_agent = ActorAgent" by (simp add: sample_agent_def)
  ultimately show ?thesis unfolding sample_remove_def by blast
qed

end
