(* ===== verification/HomeWrites.thy ===== *)
theory HomeWrites
  imports HomeGuard
begin

text \<open>
  What the commands of the stored-workspace service write and push (\<open>server/src/workspace/service.ts\<close>): the
  one workspace a command resolved to, a batch as a whole, and each kind of frame only to the windows
  it is for.
\<close>

subsection \<open>A command writes its target\<close>

text \<open>A row that was written: another state at a later revision, and nothing of the list changed.\<close>

definition row_written :: "ws_row \<Rightarrow> ws_row \<Rightarrow> bool" where
  "row_written r r' \<longleftrightarrow> r' = r \<or> wr_revision r < wr_revision r' \<and> wr_id r' = wr_id r \<and> wr_name r' = wr_name r \<and> wr_color r' = wr_color r
     \<and> wr_position r' = wr_position r \<and> wr_createdAt r' = wr_createdAt r \<and> wr_createdByActor r' = wr_createdByActor r
     \<and> wr_createdByClass r' = wr_createdByClass r \<and> wr_lastActiveAt r' = wr_lastActiveAt r"

lemma row_written_trans: "row_written r r' \<Longrightarrow> row_written r' r'' \<Longrightarrow> row_written r r''"
  by (auto simp: row_written_def)

text \<open>At most the row and the drafts of one workspace are different.\<close>

definition only_writes :: "string \<Rightarrow> home_store \<Rightarrow> home_store \<Rightarrow> bool" where
  "only_writes w s s' \<longleftrightarrow> hs_active s' = hs_active s \<and> list_all2 (\<lambda>r r'. row_written r r' \<and> (wr_id r \<noteq> w \<longrightarrow> r' = r)) (hs_rows s) (hs_rows s')
     \<and> filter (\<lambda>(k, x). fst k \<noteq> w) (hs_drafts s') = filter (\<lambda>(k, x). fst k \<noteq> w) (hs_drafts s)"

lemma row_written_id: "row_written r r' \<Longrightarrow> wr_id r' = wr_id r"
  by (auto simp: row_written_def)

lemma only_writes_refl: "only_writes w s s"
  by (simp add: only_writes_def row_written_def list_all2_same)

lemma only_writes_trans:
  assumes "only_writes w s s'" "only_writes w s' s''"
  shows "only_writes w s s''"
proof -
  have "list_all2 (\<lambda>r r'. row_written r r' \<and> (wr_id r \<noteq> w \<longrightarrow> r' = r)) (hs_rows s) (hs_rows s'')"
    by (rule list_all2_trans [of "\<lambda>r r'. row_written r r' \<and> (wr_id r \<noteq> w \<longrightarrow> r' = r)" "\<lambda>r r'. row_written r r' \<and> (wr_id r \<noteq> w \<longrightarrow> r' = r)" _ "hs_rows s" "hs_rows s'"])
      (use assms row_written_trans in \<open>auto simp: only_writes_def dest: row_written_id\<close>)
  with assms show ?thesis by (simp add: only_writes_def)
qed

lemma save_only_writes:
  assumes ok: "store_ok q s" and r: "workspace_save q (Some w) expected nxt st agent s = Inr (k, s')"
  shows "only_writes w s s'"
proof -
  obtain row where row: "row_at s w = Some row" "wr_revision row = expected" "expected < nxt"
    and s': "s' = repair_pointer (upd_rows (\<lambda>k. k = w) (saved_row q st nxt agent) s)"
    using r by (auto simp: workspace_save_def split: if_splits option.splits)
  have "store_ok q s'" by (rule save_ok [OF ok r])
  have rows: "hs_rows s \<noteq> []" using row_at_Some [OF row(1)] by auto
  then have p: "\<exists>p. hs_active s = Some p" by (rule pointer_there [OF ok])
  then have s'2: "s' = upd_rows (\<lambda>k. k = w) (saved_row q st nxt agent) s" unfolding s' by (auto simp: repair_pointer_def)
  have "wr_revision r < nxt" if "r \<in> set (hs_rows s)" "wr_id r = w" for r
  proof -
    have "r = row" using ok row_at_Some [OF row(1)] that by (auto simp: store_ok_def rows_ok_def distinct_map inj_on_def)
    with row show ?thesis by simp
  qed
  then show ?thesis unfolding s'2 only_writes_def
    by (auto simp: upd_rows_def list_all2_map2 list.rel_refl_strong row_written_def saved_row_def intro!: list.rel_refl_strong)
qed

definition touches :: "string \<Rightarrow> home_env \<Rightarrow> home \<Rightarrow> home \<Rightarrow> bool" where
  "touches w e h h' \<longleftrightarrow> (home_inv e h \<longrightarrow> home_inv e h' \<and> only_writes w (hm_store h) (hm_store h'))"

lemma touches_tx:
  assumes order: "tx_ok (keeps_order e) e f"
    and f: "\<And>n s a st. store_ok (sql_env_of e n) s \<Longrightarrow> f (sql_env_of e n) s = Inr (a, st) \<Longrightarrow> only_writes w s st"
  shows "tx_ok (touches w e) e f"
  unfolding tx_ok_def touches_def
proof (intro allI impI conjI)
  fix h :: home and a st assume r: "f (sql_env_of e (hm_txs h)) (hm_store h) = Inr (a, st)" and i: "home_inv e h"
  show "home_inv e (h\<lparr>hm_txs := Suc (hm_txs h), hm_store := st\<rparr>)" using order r i unfolding tx_ok_def keeps_order_def by blast
  have "store_ok (sql_env_of e (hm_txs h)) (hm_store h)" using i store_ok_env [of e "hm_txs h" "hm_store h"] by (simp add: home_inv_def)
  from f [OF this r] show "only_writes w (hm_store h) (hm_store (h\<lparr>hm_txs := Suc (hm_txs h), hm_store := st\<rparr>))" by simp
qed

interpretation writing: home_writer "touches w e" e "\<lambda>k. k = w" False for w e
proof
  show "touches w e h h" for h by (simp add: touches_def only_writes_refl)
  show "touches w e u v \<Longrightarrow> touches w e v h \<Longrightarrow> touches w e u h" for u v h unfolding touches_def using only_writes_trans by blast
  show "touches w e h (h\<lparr>hm_prompts := p\<rparr>)" for h p using ordering.R_prompts [of e h p] by (simp add: touches_def keeps_order_def only_writes_refl)
  show "touches w e h (h\<lparr>hm_txs := Suc (hm_txs h)\<rparr>)" for h using ordering.R_txs [of e h] by (simp add: touches_def keeps_order_def only_writes_refl)
  show "k = w \<Longrightarrow> tx_ok (touches w e) e (\<lambda>q s. sql_ok (workspace_save q (Some k) expected nxt st agent s))" for k expected nxt st agent
    by (rule touches_tx [OF ordering.save]) (auto simp: sql_ok_def split: sum.splits dest: save_only_writes)
  show "k = w \<Longrightarrow> tx_ok (touches w e) e (\<lambda>q s. sql_ok (workspace_draft_write q k d kind rv fs s))" for k d kind rv fs
  proof (rule touches_tx [OF ordering.draft])
    fix n s a st assume ok: "store_ok (sql_env_of e n) s" and k: "k = w" and r: "sql_ok (workspace_draft_write (sql_env_of e n) k d kind rv fs s) = Inr (a, st)"
    from r have "workspace_draft_write (sql_env_of e n) k d kind rv fs s = Inr (a, st)" by (auto simp: sql_ok_def split: sum.splits)
    from draft_write_shape [OF ok this] k r show "only_writes w s st"
      by (auto simp: only_writes_def row_written_def list_all2_same)
  qed simp_all
qed simp_all

lemma resolution_none:
  assumes "resolveTarget ws req = Inr res" "rs_workspaceId res = None" "wl_activeId ws \<noteq> None \<longleftrightarrow> wl_rows ws \<noteq> []"
    "\<And>i. wl_activeId ws = Some i \<Longrightarrow> by_id ws (Some i) \<noteq> None"
  shows "wl_rows ws = []"
proof (rule ccontr)
  assume rows: "wl_rows ws \<noteq> []"
  then obtain i where "wl_activeId ws = Some i" using assms(3) by blast
  with assms(4) have "by_id ws (wl_activeId ws) \<noteq> None" by simp
  moreover have "head_opt (wl_rows ws) \<noteq> None" using rows by simp
  moreover have "pickTarget ws req = Inr res" using assms(1) by (auto simp: resolveTarget_def split: sum.splits option.splits if_splits)
  ultimately show False using assms(2)
    by (auto simp: pickTarget_def pick_active_def pick_row_def owner_row_def split: option.splits frame_target.splits if_splits)
qed

lemma listed_active:
  assumes ok: "store_ok q s"
  shows "wl_activeId (loadWorkspaces t d s) \<noteq> None \<longleftrightarrow> wl_rows (loadWorkspaces t d s) \<noteq> []"
    "wl_activeId (loadWorkspaces t d s) = Some i \<Longrightarrow> by_id (loadWorkspaces t d s) (Some i) \<noteq> None"
    "wl_rows (loadWorkspaces t d s) = [] \<longleftrightarrow> hs_rows s = []"
proof -
  have ids: "map hw_id (wl_rows (loadWorkspaces t d s)) = ordered_ids s"
    by (simp add: loadWorkspaces_def loaded_row_def Let_def ordered_ids_def)
  show r: "wl_rows (loadWorkspaces t d s) = [] \<longleftrightarrow> hs_rows s = []"
    using ids list_order_length [of s] by (metis length_0_conv length_map list_order_length ordered_ids_def)
  show "wl_activeId (loadWorkspaces t d s) \<noteq> None \<longleftrightarrow> wl_rows (loadWorkspaces t d s) \<noteq> []"
    unfolding r active_id [OF ok] using ok by (auto simp: store_ok_def pointer_ok_def home_ids_def split: option.splits)
  assume "wl_activeId (loadWorkspaces t d s) = Some i"
  then have "i \<in> home_ids s" using ok unfolding active_id [OF ok] by (auto simp: store_ok_def pointer_ok_def split: option.splits)
  then have "i \<in> set (map hw_id (wl_rows (loadWorkspaces t d s)))" unfolding ids by (simp add: home_ids_def)
  then show "by_id (loadWorkspaces t d s) (Some i) \<noteq> None" by (auto simp: by_id_def find_None_iff)
qed

lemma target_returned:
  assumes "target_of e req s = (r, s')"
  shows "hm_store (wo_state s') = hm_store (wo_state s)
     \<and> (\<forall>t. r = Returned t \<longrightarrow> resolveTarget (loadWorkspaces (tq_tabId req) (tq_draftId req) (hm_store (wo_state s))) req = Inr (rt_resolution t))"
proof -
  have "hm_store (wo_state s') = hm_store (wo_state s)" using still.moves_target assms by (rule same_storeD)
  moreover have "resolveTarget (loadWorkspaces (tq_tabId req) (tq_draftId req) (hm_store (wo_state s))) req = Inr (rt_resolution t)" if "r = Returned t" for t
    using assms unfolding target_of_def
    by (cases rule: home_tx_cases) (use that in \<open>auto simp: Let_def split: if_splits sum.splits target_error.splits\<close>)
  ultimately show ?thesis by blast
qed

text \<open>Either nothing is written, or the command is applied to the target that the tables give.\<close>

lemma apply_cases:
  obtains (unchanged) "hm_store (wo_state (snd (home_apply e i s))) = hm_store (wo_state s)"
    | (applied) t s1 where "resolveTarget (loadWorkspaces (tq_tabId (ai_target i)) (tq_draftId (ai_target i)) (hm_store (wo_state s))) (ai_target i) = Inr (rt_resolution t)"
        "hm_store (wo_state s1) = hm_store (wo_state s)" "target_of e (ai_target i) s = (Returned t, s1)" "home_apply e i s = applyNow e i (rt_resolution t) s1"
proof -
  obtain o1 s1 where t: "target_of e (ai_target i) s = (o1, s1)" by (cases "target_of e (ai_target i) s")
  note tr = target_returned [OF t]
  show ?thesis
  proof (cases "\<exists>t. o1 = Returned t \<and> home_apply e i s = applyNow e i (rt_resolution t) s1")
    case True
    then obtain t' where "o1 = Returned t'" "home_apply e i s = applyNow e i (rt_resolution t') s1" by blast
    with tr t show ?thesis by (intro applied [of t' s1]) simp_all
  next
    case False
    have "moves same_store (answer_window i None r)" for r by (rule still.moves_answer)
    then have ans: "hm_store (wo_state (snd (answer_window i None r s1))) = hm_store (wo_state s1)" for r by (simp add: moves_def same_store_def)
    have "hm_store (wo_state (snd (home_apply e i s))) = hm_store (wo_state s1)"
    proof (cases o1)
      case (Returned t')
      with False t show ?thesis
        by (auto simp: home_apply_def attempt_def act_bind_def act_catch_def act_return_def split: if_splits)
    next
      case (Threw x)
      with t show ?thesis
        by (cases x) (simp_all add: home_apply_def attempt_def act_bind_def act_catch_def act_return_def act_throw_def ans)
    next
      case Unfinished
      with t show ?thesis by (simp add: home_apply_def attempt_def act_bind_def act_catch_def)
    qed
    with tr show ?thesis by (intro unchanged) simp
  qed
qed

lemma pinned:
  assumes "resolveTarget ws req = Inr res" "tq_frame req = None" "tq_expected req = Some p"
  shows "rs_workspaceId res = Some p"
  using assms by (auto simp: resolveTarget_def split: sum.splits if_splits)

text \<open>A command of the agent, pinned to the first workspace.\<close>

definition sample_pinned :: apply_input where
  "sample_pinned = \<lparr>ai_env = \<lparr>command = CTabsCloseVisible, args = JObj [], source = Remote, expectedRevision = None\<rparr>, ai_ids = [], ai_requestId = ''r4'',
     ai_origin = OriginHttp None, ai_target = no_target\<lparr>tq_expected := Some ''-''\<rparr>, ai_actor = Some sample_agent\<rparr>"

text \<open>
  C27: A command writes its target and nothing else: whatever it is, and however it ends, at most the row
  and the drafts of the workspace it resolved to are different afterwards, that row only at a later
  revision, and never the list, its order or the active workspace; a refused target writes nothing, and
  a command pinned to a workspace resolves to that one. Only where there is no workspace yet is one made.
\<close>
theorem commands_write_their_target:
  assumes "fresh_ids e" and st: "st = hm_store (wo_state (home_after e ops))"
    and st': "st' = hm_store (wo_state (home_after e (ops @ [(c, OpApply i)])))"
  shows "case resolveTarget (loadWorkspaces (tq_tabId (ai_target i)) (tq_draftId (ai_target i)) st) (ai_target i) of
      Inl x \<Rightarrow> st' = st
    | Inr res \<Rightarrow> (case rs_workspaceId res of
          None \<Rightarrow> hs_rows st = []
        | Some w \<Rightarrow> only_writes w st st' \<and> (\<forall>p. tq_frame (ai_target i) = None \<and> tq_expected (ai_target i) = Some p \<longrightarrow> w = p))"
proof -
  let ?s = "home_after e ops"
  let ?e = "as_caller e c"
  have inv: "home_inv e (wo_state ?s)" by (rule run_in_order [OF assms(1)])
  then have ok: "store_ok (sql_env_of e 0) st" by (simp add: home_inv_def st)
  have st'2: "st' = hm_store (wo_state (snd (home_apply ?e i ?s)))" by (simp add: st' home_after_def home_step_def)
  show ?thesis
  proof (cases "resolveTarget (loadWorkspaces (tq_tabId (ai_target i)) (tq_draftId (ai_target i)) st) (ai_target i)")
    case (Inl x)
    then have "st' = st" using apply_cases [of ?e i ?s] unfolding st'2 st by (metis Inl_Inr_False)
    with Inl show ?thesis by simp
  next
    case (Inr res)
    show ?thesis
    proof (cases "rs_workspaceId res")
      case None
      then have "hs_rows st = []" using resolution_none [OF Inr None] listed_active [OF ok] by metis
      with Inr None show ?thesis by simp
    next
      case (Some w)
      have "only_writes w st st'"
      proof (cases rule: apply_cases [of ?e i ?s, case_names same applied])
        case same
        then have "st' = st" unfolding st st'2 .
        then show ?thesis by (simp add: only_writes_refl)
      next
        case (applied t s1)
        then have t: "rt_resolution t = res" using Inr by (simp add: st)
        have "home_inv ?e (wo_state s1)" using inv applied(3) ordering.moves_target [of ?e "ai_target i"] unfolding moves_def keeps_order_def home_inv_caller
          by (metis snd_conv)
        moreover have "moves (touches w ?e) (applyNow ?e i res)" by (rule writing.moves_apply_now) (simp add: target_may_def Some)
        ultimately have "only_writes w (hm_store (wo_state s1)) (hm_store (wo_state (snd (applyNow ?e i res s1))))"
          unfolding moves_def touches_def by blast
        then show ?thesis using applied(2,4) t by (simp add: st st'2)
      qed
      with Inr Some pinned [OF Inr] show ?thesis by simp
    qed
  qed
qed

theorem commands_write_their_target_witness:
  "only_writes ''-'' (hm_store (wo_state (home_after sample_home [sample_create])))
     (hm_store (wo_state (home_after sample_home ([sample_create] @ [(sample_caller, OpApply sample_pinned)]))))"
proof -
  let ?st = "hm_store (wo_state (home_after sample_home [sample_create]))"
  have rows: "hs_rows ?st = sample_rows" "hs_active ?st = Some (''-'', 2)" "hs_drafts ?st = []" unfolding sample_made by simp_all
  have "wl_rows (loadWorkspaces None None ?st) = map (loaded_row None None ?st) sample_rows" "wl_activeId (loadWorkspaces None None ?st) = Some ''-''"
    by (simp_all add: loadWorkspaces_def list_order_def rows sample_rows_def loaded_row_def Let_def)
  then have "\<exists>res. resolveTarget (loadWorkspaces None None ?st) (ai_target sample_pinned) = Inr res \<and> rs_workspaceId res = Some ''-''"
    by (simp add: sample_pinned_def no_target_def resolveTarget_def pickTarget_def owner_row_def pick_active_def pick_row_def by_id_def sample_rows_def loaded_row_def Let_def)
  moreover have "tq_tabId (ai_target sample_pinned) = None" "tq_draftId (ai_target sample_pinned) = None" by (simp_all add: sample_pinned_def no_target_def)
  moreover note commands_write_their_target [OF sample_fresh refl refl, of "[sample_create]" sample_caller sample_pinned]
  ultimately show ?thesis by auto
qed

subsection \<open>A batch is whole\<close>

lemma run_steps_results:
  "run_steps h True envs n x = Inr y \<Longrightarrow> length (rx_results y) = length (rx_results x) + length envs"
proof (induction envs arbitrary: n x)
  case (Cons env envs)
  obtain r n' where r: "reduce (rx_state x) env h False n = (r, n')" by (cases "reduce (rx_state x) env h False n")
  with Cons.prems have "run_steps h True envs n' \<lparr>rx_state = rd_state r, rx_results = rx_results x @ [rd_result r],
      rx_significant = (rx_significant x \<or> list_ex wc_significant (rd_commits r)), rx_deleted = rx_deleted x @ deleted_drafts r\<rparr> = Inr y"
    by (auto split: if_splits)
  from Cons.IH [OF this] show ?case by simp
qed simp

lemma reduced_batch:
  assumes "reduce_stored e i (Batch es) l = Inr (x, r)" "rx_significant x"
  shows "revision (rx_state x) = Suc (ld_revision l) \<and> res_revision (ap_result r) = Suc (ld_revision l)
     \<and> res_status (ap_result r) \<in> {Applied, NoOp} \<and> (\<exists>ids os. ap_tabIds r = Some ids \<and> ap_outcomes r = Some os \<and> length ids = length es \<and> length os = length es)"
proof -
  obtain x0 where x0: "run_steps (node_hooks e (ai_ids i) (ld_drafts l)) True (steps_of (ai_env i) (Batch es)) 0
       \<lparr>rx_state = (ld_state l)\<lparr>revision := ld_revision l\<rparr>, rx_results = [], rx_significant = False, rx_deleted = []\<rparr> = Inr x0"
    and x: "x = (if rx_significant x0 then x0\<lparr>rx_state := (rx_state x0)\<lparr>revision := Suc (ld_revision l)\<rparr>\<rparr> else x0)"
    and r: "r = (batchResult (rx_results x) True)\<lparr>ap_result := (ap_result (batchResult (rx_results x) True))\<lparr>res_revision := revision (rx_state x)\<rparr>\<rparr>"
    using assms(1) by (auto simp: reduce_stored_def is_batch_def Let_def split: sum.splits)
  have sig: "rx_significant x0" using assms(2) x by (auto split: if_splits)
  have n: "length (rx_results x) = length es" using run_steps_results [OF x0] x by (simp add: steps_of_def)
  show ?thesis unfolding r using x sig n by (auto simp: batchResult_def Let_def plain_applied_def)
qed

definition batch_done :: "(string \<times> string) list \<Rightarrow> nat \<Rightarrow> applied \<Rightarrow> bool" where
  "batch_done es n r \<longleftrightarrow> res_status (ap_result r) \<in> {Applied, NoOp} \<and> res_revision (ap_result r) = Suc n
     \<and> (\<exists>ids os. ap_tabIds r = Some ids \<and> ap_outcomes r = Some os \<and> length ids = length es \<and> length os = length es)"

lemma commit_returns:
  assumes "commit_stored e i target l x r s = (Returned v, s')"
  shows "\<exists>w. v = r\<lparr>ap_workspace := w\<rparr>"
  using assms unfolding commit_stored_def Let_def
  by (auto simp: act_bind_def act_return_def split: prod.splits act_outcome.splits if_splits)

lemma answer_same: "answer_window i w r s = (v, s') \<Longrightarrow> hm_store (wo_state s') = hm_store (wo_state s)"
  by (rule same_storeD [OF still.moves_answer])

lemma apply_now_batch:
  assumes "command (ai_env i) = CTabsOpen" "batchOf (args (ai_env i)) = Batch es" "applyNow e i target s = (Returned v, s')"
  shows "hm_store (wo_state s') = hm_store (wo_state s) \<or> (\<exists>l s1. load_workspace e (rs_workspaceId target) s = (Returned l, s1) \<and> batch_done es (ld_revision l) v)"
  using assms(3) unfolding applyNow_def
proof (cases rule: bind_cases)
  case (ret l s1)
  have st1: "hm_store (wo_state s1) = hm_store (wo_state s)" by (rule same_storeD [OF still.moves_load ret(1)])
  have batch: "is_batch (Batch es) \<equiv> True" by (simp add: is_batch_def)
  note rest = ret(2) [unfolded Let_def assms(1,2) simp_thms(6) if_True batch]
  show ?thesis
  proof (cases "is_http (ai_origin i)")
    case False
    with rest answer_same st1 show ?thesis by auto
  next
    case True
    from rest True have "act_bind (unreadable e i (Batch es)) (\<lambda>bad.
           if bad \<noteq> [] then answer_window i (ld_workspaceId l) ((rejected_at (ld_revision l) EntityUnavailable (rs_ref target))\<lparr>ap_unavailable := Some (map str_of bad)\<rparr>)
           else (case reduce_stored e i (Batch es) l of
               Inl r \<Rightarrow> answer_window i (ld_workspaceId l) (at_revision (ld_revision l) (rs_ref target) (plain_applied r None))
             | Inr (x, r) \<Rightarrow>
                 if \<not> rx_significant x then answer_window i (ld_workspaceId l) (at_revision (ld_revision l) (rs_ref target) r)
                 else if length (orderedTabIds (rx_state x)) > WORKSPACE_TAB_HARD_CAP
                   \<and> length (orderedTabIds (rx_state x)) > length (orderedTabIds (ld_state l)) then answer_window i (ld_workspaceId l) (rejected_at (ld_revision l) TabLimit (rs_ref target))
                 else commit_stored e i target l x r)) s1 = (Returned v, s')" by simp
    then show ?thesis
    proof (cases rule: bind_cases)
      case (ret bad s2)
      have st2: "hm_store (wo_state s2) = hm_store (wo_state s)" using same_storeD [OF still.moves_unreadable ret(1)] st1 by simp
      show ?thesis
      proof (cases "\<exists>x r. bad = [] \<and> reduce_stored e i (Batch es) l = Inr (x, r) \<and> rx_significant x \<and> commit_stored e i target l x r s2 = (Returned v, s')")
        case True
        then obtain x r where xr: "reduce_stored e i (Batch es) l = Inr (x, r)" "rx_significant x" "commit_stored e i target l x r s2 = (Returned v, s')" by blast
        from commit_returns [OF xr(3)] obtain w where v: "v = r\<lparr>ap_workspace := w\<rparr>" by blast
        from reduced_batch [OF xr(1,2)] have "batch_done es (ld_revision l) v" by (auto simp: v batch_done_def)
        with \<open>load_workspace e (rs_workspaceId target) s = (Returned l, s1)\<close> show ?thesis by blast
      next
        case False
        with ret(2) have "hm_store (wo_state s') = hm_store (wo_state s2)"
          by (auto split: if_splits sum.splits dest: answer_same)
        with st2 show ?thesis by simp
      qed
    qed simp_all
  qed
qed simp_all


text \<open>A batch of two, in a space with no workspace yet.\<close>

definition sample_batch :: apply_input where
  "sample_batch = \<lparr>ai_env = \<lparr>command = CTabsOpen, args = JObj [(''entities'', JArr [JObj [(''kind'', JStr ''task''), (''entityId'', JStr ''00000000-0000-0000-0000-000000000001'')],
       JObj [(''kind'', JStr ''doc''), (''entityId'', JStr ''00000000-0000-0000-0000-000000000002'')]])], source = Remote, expectedRevision = None\<rparr>,
     ai_ids = [], ai_requestId = ''r3'', ai_origin = OriginHttp None, ai_target = no_target, ai_actor = Some sample_agent\<rparr>"

definition sample_entities :: "(string \<times> string) list" where
  "sample_entities = [(''task'', ''00000000-0000-0000-0000-000000000001''), (''doc'', ''00000000-0000-0000-0000-000000000002'')]"

lemma sample_is_batch: "command (ai_env sample_batch) = CTabsOpen" "batchOf (args (ai_env sample_batch)) = Batch sample_entities"
  by code_simp+

lemma sample_wanted: "wanted_ids (ai_env sample_batch) (Batch sample_entities) = map (JStr \<circ> snd) sample_entities"
  "filter is_uuid (map str_of (filter isString (map (JStr \<circ> snd) sample_entities))) = map snd sample_entities"
  by code_simp+

lemma sample_reduced: "\<exists>x r. reduce_stored sample_home sample_batch (Batch sample_entities) (loaded_of sample_home None empty_home) = Inr (x, r)
    \<and> rx_significant x \<and> rx_deleted x = [] \<and> length (orderedTabIds (rx_state x)) = 2"
proof -
  have "case reduce_stored sample_home sample_batch (Batch sample_entities) (loaded_of sample_home None empty_home) of
      Inr (x, r) \<Rightarrow> rx_significant x \<and> rx_deleted x = [] \<and> length (orderedTabIds (rx_state x)) = 2 | _ \<Rightarrow> False"
    by code_simp
  then show ?thesis by (auto split: sum.splits)
qed

lemma sample_target: "target_of sample_home no_target new_home = (Returned \<lparr>rt_resolution = \<lparr>rs_workspaceId = None,
      rs_ref = \<lparr>rf_id = None, rf_name = ''Main'', rf_color = None, rf_resolvedBy = ByActive, rf_active = True\<rparr>, rs_revision = 0\<rparr>, rt_activeId = None, rt_count = 0\<rparr>,
    \<lparr>wo_state = \<lparr>hm_store = empty_home, hm_prompts = new_prompts, hm_txs = 1\<rparr>, wo_trace = []\<rparr>)"
proof -
  have "he_down sample_home 0 = None" "qe_member (sql_env_of sample_home 0)" by (simp_all add: sample_defs)
  then show ?thesis
    by (simp add: target_of_def home_tx_def new_home_def Let_def no_target_def sample_list resolveTarget_def pickTarget_def owner_row_def pick_active_def pick_row_def
        by_id_def refOf_def WORKSPACE_DEFAULT_NAME_def)
qed

lemma sample_applies: "\<exists>v s'. home_apply sample_home sample_batch new_home = (Returned v, s') \<and> hm_store (wo_state s') \<noteq> empty_home"
proof -
  obtain x r where red: "reduce_stored sample_home sample_batch (Batch sample_entities) (loaded_of sample_home None empty_home) = Inr (x, r)"
    and x: "rx_significant x" "rx_deleted x = []" "length (orderedTabIds (rx_state x)) = 2" using sample_reduced by blast
  have n: "revision (rx_state x) = 1" using reduced_batch [OF red x(1)] by (simp add: loaded_of_def)
  have env: "he_down sample_home k = None" "he_readable sample_home k i" "ai_target sample_batch = no_target" "is_http (ai_origin sample_batch)" for k i
    by (simp_all add: sample_defs sample_batch_def)
  have save: "workspace_save (sql_env_of sample_home k) None 0 1 st a empty_home = Inr (he_fresh sample_home k 0, \<lparr>hs_rows = [first_row (sql_env_of sample_home k) st 1 a],
      hs_active = Some (he_fresh sample_home k 0, 1), hs_drafts = []\<rparr>)" for k st a
    by (simp add: workspace_save_def sample_defs empty_home_def)
  have b: "(if command (ai_env sample_batch) = CTabsOpen then batchOf (args (ai_env sample_batch)) else NoBatch) = Batch sample_entities" by (simp add: sample_is_batch)
  have un: "unreadable sample_home sample_batch (Batch sample_entities) s = (Returned [], s\<lparr>wo_state := (wo_state s)\<lparr>hm_txs := Suc (hm_txs (wo_state s))\<rparr>\<rparr>)" for s
    unfolding unreadable_def sample_wanted
    by (auto simp: sample_is_batch env act_defs readable_ids_def home_tx_def Let_def sample_entities_def)
  have l: "ld_workspaceId (loaded_of sample_home None empty_home) = None" "ld_revision (loaded_of sample_home None empty_home) = 0" "\<not> ld_exists (loaded_of sample_home None empty_home)"
    by (simp_all add: loaded_of_def)
  define s1 :: "(home, home_event) act_world" where "s1 = \<lparr>wo_state = \<lparr>hm_store = empty_home, hm_prompts = new_prompts, hm_txs = 1\<rparr>, wo_trace = []\<rparr>"
  define res where "res = \<lparr>rs_workspaceId = None, rs_ref = \<lparr>rf_id = None, rf_name = ''Main'', rf_color = None, rf_resolvedBy = ByActive, rf_active = True\<rparr>, rs_revision = 0\<rparr>"
  have target: "target_of sample_home no_target new_home = (Returned \<lparr>rt_resolution = res, rt_activeId = None, rt_count = 0\<rparr>, s1)"
    unfolding res_def s1_def by (rule sample_target)
  have a: "home_apply sample_home sample_batch new_home = applyNow sample_home sample_batch res s1"
    unfolding home_apply_def env attempt_def act_bind_def act_catch_def act_return_def target by (simp add: sample_is_batch)
  have load: "load_workspace sample_home (rs_workspaceId res) s1 = (Returned (loaded_of sample_home None empty_home), s1\<lparr>wo_state := (wo_state s1)\<lparr>hm_txs := 2\<rparr>\<rparr>)"
    by (simp add: load_workspace_def home_tx_def Let_def env res_def s1_def)
  have caps: "\<not> length (orderedTabIds (rx_state x)) > WORKSPACE_TAB_HARD_CAP" using x(3) by (simp add: WORKSPACE_TAB_HARD_CAP_def)
  have batch: "is_batch (Batch sample_entities)" by (simp add: is_batch_def)
  have ap: "applyNow sample_home sample_batch res s1 = commit_stored sample_home sample_batch res (loaded_of sample_home None empty_home) x r
      (s1\<lparr>wo_state := (wo_state s1)\<lparr>hm_txs := 3\<rparr>\<rparr>)"
    unfolding applyNow_def Let_def b act_bind_def load using env(4) red x(1) caps batch by (simp add: un)
  have ne: "\<lparr>hs_rows = [row], hs_active = p, hs_drafts = ds\<rparr> \<noteq> empty_home" for row p ds by (simp add: empty_home_def)
  have "\<exists>v s'. commit_stored sample_home sample_batch res (loaded_of sample_home None empty_home) x r (s1\<lparr>wo_state := (wo_state s1)\<lparr>hm_txs := 3\<rparr>\<rparr>) = (Returned v, s')
      \<and> hm_store (wo_state s') \<noteq> empty_home"
    using save x(2) n
    by (simp add: commit_stored_def Let_def act_bind_def act_return_def save_state_def home_tx_def env l sql_ok_def s1_def res_def pushState_def push_home_def ne)
  then show ?thesis unfolding a ap .
qed


subsection \<open>Frames and the windows they are for\<close>

text \<open>
  A window that knows only one workspace is shown states of the active one, and only if it shows that one;
  lists, switches, prompts and the states of other workspaces are for the windows that can show them,
  and an answer is for one window.
\<close>

fun for_its_windows :: "home_event \<Rightarrow> bool" where
  "for_its_windows (HomePush po f) = (case f of
      FrameState w active n st cause \<Rightarrow> if active then po_shows po = Some w \<and> po_only po = None else po_capableOnly po
    | FrameSummary n w items cause \<Rightarrow> po_capableOnly po
    | FrameSwitched w previous n \<Rightarrow> po_capableOnly po
    | FramePrompt p \<Rightarrow> po_capableOnly po
    | FrameApplied w rid r \<Rightarrow> po_only po \<noteq> None
    | _ \<Rightarrow> po_only po = None)"

named_theorems frame_rules \<open>rules for the frames of an action, along its text\<close>

lemma emits_tx [frame_rules]: "emits P (home_tx e f)"
  by (auto simp: emits_def home_tx_def Let_def split: option.splits sum.splits)

lemma emits_push [frame_rules]: "for_its_windows (HomePush po f) \<Longrightarrow> emits for_its_windows (push_home po f)"
  by (auto simp: emits_def push_home_def)

lemma emits_prompts [frame_rules]: "emits for_its_windows (on_prompts e f)"
  by (auto simp: emits_def on_prompts_def to_capable_def list_all_iff split: prod.splits)

lemma emits_readable [frame_rules]: "emits P (readable_ids e ids)"
proof -
  have "emits P (home_tx e (\<lambda>q st. Inr (filter (he_readable e n) ids, st)))" for n by (rule emits_tx)
  then have "emits P (\<lambda>s. home_tx e (\<lambda>q st. Inr (filter (he_readable e (hm_txs (wo_state s))) ids, st)) s)" by (simp add: emits_def)
  then show ?thesis by (simp add: readable_ids_def Let_def)
qed

lemma emits_reads [frame_rules]:
  "emits P (load_workspace e i)" "emits P (load_list e)" "emits P (target_of e req)" "emits P (save_state e i x n st a)" "emits P (saveDraft e w d k v fs)"
  by (simp_all add: load_workspace_def load_list_def target_of_def save_state_def saveDraft_def emits_tx)

lemmas emits_seq = emits_return emits_throw emits_bind emits_catch emits_attempt

lemma emits_manage [frame_rules]: "emits P (manageTx e run)"
  unfolding manageTx_def by (intro emits_seq emits_tx)

lemma emits_read_workspace [frame_rules]: "emits P (read_workspace e req)"
  unfolding read_workspace_def by (auto intro!: emits_seq frame_rules split: sum.splits target_error.splits)

lemma emits_push_state [frame_rules]: "emits for_its_windows (pushState w active n st c)"
  unfolding pushState_def by (rule emits_push) (simp add: to_all_def to_capable_def)

lemma emits_push_summary [frame_rules]: "emits for_its_windows (pushSummary ws c w a)"
  unfolding pushSummary_def by (rule emits_push) (simp add: to_capable_def)

lemma emits_push_drafts [frame_rules]: "emits for_its_windows (push_drafts w ds)"
proof (induction ds)
  case (Cons d ds)
  then show ?case by (cases d) (auto simp: to_all_def intro!: emits_bind emits_push)
qed simp

lemma emits_push_switch [frame_rules]: "emits for_its_windows (pushSwitch e ws previous c w a)"
  by (auto simp: pushSwitch_def to_capable_def intro!: emits_seq frame_rules split: option.splits)

lemma emits_answer [frame_rules]: "emits for_its_windows (answer_window i w r)"
  by (auto simp: answer_window_def intro!: emits_seq frame_rules split: origin.splits option.splits)

lemma emits_ask_human [frame_rules]: "emits for_its_windows (ask_human e ws w kind rid a)"
  unfolding ask_human_def by (intro emits_seq frame_rules)

lemma emits_accept [frame_rules]: "emits for_its_windows (accept_prompt e accepting)"
  by (auto simp: accept_prompt_def intro!: emits_seq frame_rules split: option.splits)

lemma emits_unreadable [frame_rules]: "emits P (unreadable e i b)"
  by (auto simp: unreadable_def intro!: emits_seq frame_rules)

lemma emits_drop [frame_rules]: "emits for_its_windows (drop_drafts e w active ds)"
  by (induction ds) (auto simp: to_all_def to_capable_def intro!: emits_seq frame_rules)

lemma emits_commit [frame_rules]: "emits for_its_windows (commit_stored e i target l x r)"
  unfolding commit_stored_def Let_def by (auto intro!: emits_seq frame_rules)

lemma emits_apply_now [frame_rules]: "emits for_its_windows (applyNow e i target)"
  unfolding applyNow_def Let_def by (auto intro!: emits_seq frame_rules split: sum.splits)

lemma emits_home_apply [frame_rules]: "emits for_its_windows (home_apply e i)"
  unfolding home_apply_def by (auto intro!: emits_seq frame_rules split: sum.splits home_error.splits)

lemma emits_import_drafts [frame_rules]: "emits for_its_windows (import_drafts e w kept ds)"
  by (induction ds) (auto simp: Let_def to_all_def intro!: emits_seq frame_rules split: option.splits sum.splits)

lemma emits_import [frame_rules]: "emits for_its_windows (importLegacy e raw ds)"
  unfolding importLegacy_def Let_def by (auto intro!: emits_seq frame_rules)

lemma emits_patch [frame_rules]: "emits for_its_windows (patchDraft e d p orig req rid)"
  unfolding patchDraft_def Let_def
  by (auto simp: to_all_def to_capable_def intro!: emits_seq frame_rules split: sum.splits home_error.splits option.splits)

lemma emits_switch [frame_rules]: "emits for_its_windows (switchNow e w rid x a accepting)"
  unfolding switchNow_def by (auto intro!: emits_seq frame_rules split: switch_outcome.splits)

lemma emits_remove [frame_rules]: "emits for_its_windows (removeNow e w rid d a accepting)"
  unfolding removeNow_def by (auto intro!: emits_seq frame_rules split: remove_outcome.splits)

lemma emits_resolve [frame_rules]: "emits for_its_windows (resolvePrompt e i inp)"
  unfolding resolvePrompt_def current_prompt_def end_prompt_def answered_def Let_def
  by (auto intro!: emits_seq frame_rules split: option.splits)

lemma emits_op: "emits for_its_windows (home_act_of e op)"
  by (cases op) (auto simp: only_effect_def get_workspace_def list_workspaces_def inspect_stored_def snapshot_def create_home_def update_home_def reorder_home_def
      intro!: emits_seq frame_rules)

text \<open>
  Every frame goes only to the windows it is for: over any operations, the state of a workspace that
  is not the active one, the list, a switch and a prompt are pushed to capable windows only, the state of
  the active one only to windows that show it, and the answer to a command to one window.
\<close>
theorem frames_reach_their_windows:
  "list_all for_its_windows (wo_trace (home_after e ops))"
proof -
  have step: "list_all for_its_windows (wo_trace (home_step e s op))" if "list_all for_its_windows (wo_trace s)" for s op
  proof -
    obtain ts where "wo_trace (home_step e s op) = wo_trace s @ ts" "list_all for_its_windows ts"
      using emits_op [of "as_caller e (fst op)" "snd op"] unfolding emits_def home_step_def by blast
    with that show ?thesis by simp
  qed
  have "list_all for_its_windows (wo_trace s) \<Longrightarrow> list_all for_its_windows (wo_trace (foldl (home_step e) s ops))" for s
    by (induction ops arbitrary: s) (simp_all add: step)
  then show ?thesis by (simp add: home_after_def new_home_def)
qed

end
