(* ===== verification/ContainerPolicy.thy ===== *)
theory ContainerPolicy
  imports Prelude
begin

text \<open>
  Containers (\<open>packages/execution/src/containers\<close>), the part without effects: the types of the contract,
  the error codes (\<open>errors.ts\<close>), the isolation policy (\<open>policy.ts\<close>) and the registry of providers
  (\<open>ProviderRegistry.ts\<close>). Of an error its code and the kind of its message are modelled; the detail
  object only repeats the inputs. A provider's optional methods are flags.
\<close>

datatype profile = Shell | Desktop | Browser | Android | Ios | Dind | Custom

datatype isolation = Process | Container | Gvisor | Microvm | Vm

datatype surface = Terminal | Screen | BrowserSurface | Adb | Docker | Http

datatype network = Open | Balanced | Locked

datatype trust = Trusted | Untrusted

datatype container_status = Requested | Provisioning | Running | Paused | Stopping | Stopped | Destroying | Destroyed | FailedStatus

fun CONTAINER_ISOLATION_RANK :: "isolation \<Rightarrow> nat" where
  "CONTAINER_ISOLATION_RANK Process = 0"
| "CONTAINER_ISOLATION_RANK Container = 1"
| "CONTAINER_ISOLATION_RANK Gvisor = 2"
| "CONTAINER_ISOLATION_RANK Microvm = 3"
| "CONTAINER_ISOLATION_RANK Vm = 4"

subsection \<open>Errors\<close>

datatype container_code =
  InvalidSpec | NotFound | Forbidden | PolicyCode | StateCode | Budget | NoProvider | RuntimeCode | Timeout

datatype taxonomy =
  T_invalid_input | T_not_found | T_forbidden | T_invariant_violation | T_limit_exceeded | T_not_implemented | T_upstream_unavailable

fun CONTAINER_ERROR_TAXONOMY :: "container_code \<Rightarrow> taxonomy" where
  "CONTAINER_ERROR_TAXONOMY InvalidSpec = T_invalid_input"
| "CONTAINER_ERROR_TAXONOMY NotFound = T_not_found"
| "CONTAINER_ERROR_TAXONOMY Forbidden = T_forbidden"
| "CONTAINER_ERROR_TAXONOMY PolicyCode = T_forbidden"
| "CONTAINER_ERROR_TAXONOMY StateCode = T_invariant_violation"
| "CONTAINER_ERROR_TAXONOMY Budget = T_limit_exceeded"
| "CONTAINER_ERROR_TAXONOMY NoProvider = T_not_implemented"
| "CONTAINER_ERROR_TAXONOMY RuntimeCode = T_upstream_unavailable"
| "CONTAINER_ERROR_TAXONOMY Timeout = T_upstream_unavailable"

text \<open>The messages of the errors the component raises itself, with what they interpolate.\<close>

datatype container_refusal =
    NotEnabled string
  | CannotServe string profile
  | BelowFloor string isolation isolation "string list"
  | NoneStrongEnough profile isolation
  | NoneServes profile
  | UntrustedProject
  | RecordMissing
  | NodeLacksProvider string
  | NoRuntimeYet
  | WrongStatus string container_status
  | CannotPause string
  | CannotResume string
  | Disappeared
  | NotReady int string nat
  | Said string

text \<open>What a call can throw: an error of this family, or anything else with its message.\<close>

datatype thrown = ContainerError container_code container_refusal | PlainError string

subsection \<open>The isolation policy\<close>

record policy_input =
  po_profile :: profile
  po_network :: network
  po_projectTrust :: "trust option"
  po_bypassPermissions :: bool
  po_hostVmBoundary :: bool

datatype policy_reason =
    BypassReason | NestedDaemon | HostVm profile | OpenWeb profile | CustomLocked | CustomEgress
  | UntrustedMounted | OpenEgress | ExistingTrust

definition requiredIsolation :: "policy_input \<Rightarrow> isolation \<times> policy_reason" where
  "requiredIsolation i =
     (if po_bypassPermissions i then (Gvisor, BypassReason)
      else if po_profile i = Dind then (Microvm, NestedDaemon)
      else if po_profile i = Browser \<or> po_profile i = Desktop then
        (if po_hostVmBoundary i then (Container, HostVm (po_profile i)) else (Gvisor, OpenWeb (po_profile i)))
      else if po_profile i = Custom then
        (if po_network i = Locked then (Container, CustomLocked) else (Gvisor, CustomEgress))
      else if po_network i = Open \<or> po_projectTrust i = Some Untrusted then
        (Gvisor, if po_projectTrust i = Some Untrusted then UntrustedMounted else OpenEgress)
      else (Container, ExistingTrust))"

subsection \<open>The registry\<close>

record probe_result =
  pb_ok :: bool
  pb_detail :: string
  pb_measuredAt :: int

record provider_features =
  ft_pause :: bool
  ft_snapshot :: bool
  ft_fork :: bool
  ft_expose :: bool
  ft_nested :: bool
  ft_gpu :: bool

record provider_limits =
  lm_maxContainers :: nat
  lm_maxCpus :: nat
  lm_maxMemMiB :: nat

record descriptor =
  de_id :: string
  de_isolation :: isolation
  de_profiles :: "profile list"
  de_surfaces :: "surface list"
  de_features :: provider_features
  de_limits :: provider_limits
  de_probe :: probe_result

record provider =
  pv_descriptor :: descriptor
  pv_synthetic :: bool
  pv_canPause :: bool
  pv_canResume :: bool
  pv_canProbe :: bool

type_synonym provider_registry = "(string \<times> provider) list"

definition register_provider :: "provider \<Rightarrow> provider_registry \<Rightarrow> provider_registry" where
  "register_provider p reg = AList.update (de_id (pv_descriptor p)) p reg"

definition new_provider_registry :: "provider list \<Rightarrow> provider_registry" where
  "new_provider_registry ps = foldl (\<lambda>reg p. register_provider p reg) [] ps"

definition get_provider :: "provider_registry \<Rightarrow> string \<Rightarrow> provider option" where
  "get_provider reg k = map_of reg k"

definition list_providers :: "provider_registry \<Rightarrow> provider list" where
  "list_providers reg = map snd reg"

definition descriptors :: "provider_registry \<Rightarrow> descriptor list" where
  "descriptors reg = map pv_descriptor (list_providers reg)"

definition serves :: "provider \<Rightarrow> profile \<Rightarrow> bool" where
  "serves p prof \<longleftrightarrow> prof \<in> set (de_profiles (pv_descriptor p))"

definition satisfying :: "provider_registry \<Rightarrow> profile \<Rightarrow> nat \<Rightarrow> provider list" where
  "satisfying reg prof floor_rank = filter (\<lambda>p. serves p prof
     \<and> (pv_synthetic p \<or> floor_rank \<le> CONTAINER_ISOLATION_RANK (de_isolation (pv_descriptor p)))) (list_providers reg)"

definition syntheticProviderIds :: "provider_registry \<Rightarrow> string list" where
  "syntheticProviderIds reg = map (\<lambda>p. de_id (pv_descriptor p)) (filter pv_synthetic (list_providers reg))"

text \<open>An empty requested id counts as none, being falsy.\<close>

definition select_requested :: "provider_registry \<Rightarrow> profile \<Rightarrow> string \<Rightarrow> isolation option \<Rightarrow> nat \<Rightarrow> thrown + provider" where
  "select_requested reg prof k minimum floor_rank = (case get_provider reg k of
     None \<Rightarrow> Inl (ContainerError NoProvider (NotEnabled k))
   | Some p \<Rightarrow>
       if \<not> serves p prof then Inl (ContainerError NoProvider (CannotServe k prof))
       else if \<not> pv_synthetic p \<and> CONTAINER_ISOLATION_RANK (de_isolation (pv_descriptor p)) < floor_rank then
         Inl (ContainerError PolicyCode (BelowFloor k (de_isolation (pv_descriptor p)) (the minimum)
            (map (\<lambda>q. de_id (pv_descriptor q)) (satisfying reg prof floor_rank))))
       else Inr p)"

definition select_preferred :: "provider_registry \<Rightarrow> profile \<Rightarrow> isolation option \<Rightarrow> nat \<Rightarrow> thrown + provider" where
  "select_preferred reg prof minimum floor_rank = (case satisfying reg prof floor_rank of
     p # _ \<Rightarrow> Inr p
   | [] \<Rightarrow> (case minimum of
       Some m \<Rightarrow> if filter (\<lambda>p. serves p prof) (list_providers reg) \<noteq> []
                 then Inl (ContainerError PolicyCode (NoneStrongEnough prof m))
                 else Inl (ContainerError NoProvider (NoneServes prof))
     | None \<Rightarrow> Inl (ContainerError NoProvider (NoneServes prof))))"

definition select_provider :: "provider_registry \<Rightarrow> profile \<Rightarrow> string option \<Rightarrow> isolation option \<Rightarrow> thrown + provider" where
  "select_provider reg prof requested minimum =
     (let floor_rank = (case minimum of Some m \<Rightarrow> CONTAINER_ISOLATION_RANK m | None \<Rightarrow> 0) in
      case requested of
        Some k \<Rightarrow> if k \<noteq> [] then select_requested reg prof k minimum floor_rank else select_preferred reg prof minimum floor_rank
      | None \<Rightarrow> select_preferred reg prof minimum floor_rank)"

subsection \<open>What a selection guarantees\<close>

definition strong_enough :: "isolation \<Rightarrow> provider \<Rightarrow> bool" where
  "strong_enough m p \<longleftrightarrow> pv_synthetic p \<or> CONTAINER_ISOLATION_RANK m \<le> CONTAINER_ISOLATION_RANK (de_isolation (pv_descriptor p))"

definition providers_ok :: "provider_registry \<Rightarrow> bool" where
  "providers_ok reg \<longleftrightarrow> distinct (map fst reg) \<and> (\<forall>(k, p) \<in> set reg. de_id (pv_descriptor p) = k)"

lemma providers_ok_Nil [simp]: "providers_ok []"
  by (simp add: providers_ok_def)

lemma set_update_sub: "set (AList.update k v al) \<subseteq> insert (k, v) (set al)"
  by (induction al) auto

lemma providers_ok_register: "providers_ok reg \<Longrightarrow> providers_ok (register_provider p reg)"
  using set_update_sub [of "de_id (pv_descriptor p)" p reg]
  by (auto simp: providers_ok_def register_provider_def distinct_update)

lemma providers_ok_new: "providers_ok (new_provider_registry ps)"
proof -
  have "providers_ok reg \<Longrightarrow> providers_ok (foldl (\<lambda>reg p. register_provider p reg) reg ps)" for reg
    by (induction ps arbitrary: reg) (simp_all add: providers_ok_register)
  then show ?thesis by (simp add: new_provider_registry_def)
qed

lemma listed_is_got: "providers_ok reg \<Longrightarrow> p \<in> set (list_providers reg) \<Longrightarrow> get_provider reg (de_id (pv_descriptor p)) = Some p"
  by (force simp: providers_ok_def list_providers_def get_provider_def)

lemma got_is_listed: "providers_ok reg \<Longrightarrow> get_provider reg k = Some p \<Longrightarrow> p \<in> set (list_providers reg) \<and> de_id (pv_descriptor p) = k"
  by (force simp: providers_ok_def list_providers_def get_provider_def dest: map_of_SomeD)

lemma satisfying_iff:
  "p \<in> set (satisfying reg prof (CONTAINER_ISOLATION_RANK m)) \<longleftrightarrow>
     p \<in> set (list_providers reg) \<and> serves p prof \<and> strong_enough m p"
  by (auto simp: satisfying_def strong_enough_def)

lemma selected_is_fit:
  assumes "select_provider reg prof requested (Some m) = Inr p" "providers_ok reg"
  shows "p \<in> set (list_providers reg) \<and> serves p prof \<and> strong_enough m p"
proof -
  have pref: "select_preferred reg prof (Some m) (CONTAINER_ISOLATION_RANK m) = Inr p \<Longrightarrow> ?thesis"
    using satisfying_iff [of p reg prof m]
    by (auto simp: select_preferred_def split: list.splits if_splits)
  show ?thesis
  proof (cases "requested = None \<or> requested = Some []")
    case True
    then have "select_preferred reg prof (Some m) (CONTAINER_ISOLATION_RANK m) = Inr p"
      using assms(1) by (auto simp: select_provider_def)
    then show ?thesis by (rule pref)
  next
    case False
    then obtain k where k: "requested = Some k" "k \<noteq> []" by auto
    then have "select_requested reg prof k (Some m) (CONTAINER_ISOLATION_RANK m) = Inr p"
      using assms(1) by (simp add: select_provider_def)
    then show ?thesis
      using got_is_listed [OF assms(2), of k p]
      by (auto simp: select_requested_def strong_enough_def split: option.splits if_splits)
  qed
qed

text \<open>
  The policy asks for less when a session bypasses permissions: a nested daemon needs a microvm,
  but with the bypass it is content with gvisor.
\<close>

lemma bypass_lowers_the_floor:
  "fst (requiredIsolation \<lparr>po_profile = Dind, po_network = Locked, po_projectTrust = None, po_bypassPermissions = False, po_hostVmBoundary = False\<rparr>) = Microvm"
  "fst (requiredIsolation \<lparr>po_profile = Dind, po_network = Locked, po_projectTrust = None, po_bypassPermissions = True, po_hostVmBoundary = False\<rparr>) = Gvisor"
  by (simp_all add: requiredIsolation_def)

end
