(* ===== verification/ContainerSaga.thy ===== *)
theory ContainerSaga
  imports ContainerPolicy Effects
begin

text \<open>
  The provisioning of a container (\<open>saga.ts\<close>) and the port types it runs over (\<open>provider.ts\<close>,
  \<open>types.ts\<close>). The database and the providers are the fields of an environment; every call and its
  answer is an event. A status write's optional fields are options: \<open>null\<close> and a missing field are
  the same to the status door. The caller's claims are handed through unread and left out, and so
  are log lines.
\<close>

subsection \<open>Port types\<close>

datatype runtime_status = R_created | R_running | R_paused | R_stopped | R_gone

record surface_spec =
  su_enabled :: bool
  su_port :: "rat option"

record container_spec =
  sp_profile :: profile
  sp_image :: "string option"
  sp_cpus :: rat
  sp_memMiB :: rat
  sp_diskMiB :: "rat option"
  sp_mounts :: "(string \<times> bool) list"
  sp_env :: "(string \<times> string) list"
  sp_ports :: "rat list"
  sp_network :: "network \<times> string list"
  sp_surfaces :: "(surface \<times> surface_spec) list"
  sp_labels :: "(string \<times> string) list"

record lifecycle =
  lc_ephemeral :: bool
  lc_ttlSeconds :: "rat option"
  lc_idleHibernateSeconds :: "rat option"
  lc_graceSeconds :: rat
  lc_snapshotOnStop :: bool

datatype share_mode = ShareNone | ShareExplicit | ShareSpace

record runtime_handle =
  ha_runtimeRef :: string
  ha_providerState :: jsobj

record provider_ctx =
  cx_containerId :: string
  cx_spaceId :: string
  cx_nodeId :: string
  cx_dataDir :: string

datatype transport = Tcp | Unix | Pty | WsTransport | Https

record surface_endpoint =
  se_kind :: surface
  se_transport :: transport
  se_target :: string
  se_meta :: "jsobj option"

record container_usage =
  us_cpuPct :: rat
  us_memMiB :: rat
  us_diskMiB :: rat

record runtime_inspection =
  in_status :: runtime_status
  in_surfaces :: "surface_endpoint list"
  in_usage :: "container_usage option"

record listing =
  li_runtimeRef :: string
  li_labels :: "(string \<times> string) list"
  li_status :: runtime_status

record create_input =
  ci_spaceId :: string
  ci_title :: string
  ci_actorId :: "string option"
  ci_profile :: profile
  ci_provider :: string
  ci_isolation :: isolation
  ci_nodeId :: string
  ci_image :: string
  ci_spec :: container_spec
  ci_lifecycle :: lifecycle
  ci_shareMode :: share_mode
  ci_parentId :: "string option"
  ci_projectId :: "string option"
  ci_templateId :: "string option"
  ci_spawnedBy :: "string option"
  ci_cap :: int
  ci_clientMutationId :: string

record reserved =
  rv_containerId :: string
  rv_version :: int
  rv_status :: container_status
  rv_runtimeRef :: "string option"
  rv_replayed :: bool
  rv_raw :: jsval

datatype status_note = MessageOf thrown | RuntimeGoneNote | StuckNote

record set_status =
  ss_containerId :: string
  ss_status :: container_status
  ss_runtimeRef :: "string option"
  ss_surfaces :: "surface list option"
  ss_error :: "status_note option"
  ss_actorId :: "string option"
  ss_operation :: "string option"
  ss_expectedVersion :: "int option"
  ss_clientMutationId :: "string option"

record container_record =
  cr_containerId :: string
  cr_spaceId :: string
  cr_nodeId :: string
  cr_status :: container_status
  cr_profile :: profile
  cr_provider :: string
  cr_runtimeRef :: "string option"
  cr_spec :: container_spec
  cr_lifecycle :: lifecycle
  cr_version :: int
  cr_providerState :: "jsobj option"

record node_row =
  nr_containerEntityId :: string
  nr_nodeId :: string
  nr_status :: container_status
  nr_profile :: profile
  nr_provider :: string
  nr_runtimeRef :: "string option"
  nr_spec :: container_spec
  nr_lifecycle :: lifecycle
  nr_expiresAt :: "string option"
  nr_statusChangedAt :: "string option"
  nr_entityExists :: bool
  nr_deleted :: bool
  nr_lastSeenAt :: "string option"
  nr_attempts :: int
  nr_failureCode :: "string option"

datatype sweep_action = SweepStop | SweepDestroy | SweepPause

datatype sweep_reason = ByTtl | ByIdle | ByGrace

record sweep_row =
  sw_containerEntityId :: string
  sw_action :: sweep_action
  sw_reason :: sweep_reason

subsection \<open>Calls and answers\<close>

datatype call =
    CreateEntity create_input
  | SetStatus set_status
  | LoadContainer string
  | NodeContainers string
  | SweepContainers string int
  | LockNode string
  | UnlockNode string
  | PCreate string container_spec provider_ctx
  | PStart string runtime_handle
  | PStop string runtime_handle int
  | PPause string runtime_handle
  | PResume string runtime_handle
  | PDestroy string runtime_handle
  | PInspect string runtime_handle
  | PList string
  | PProbe string
  | Now
  | Sleep int

datatype answer =
    ADone
  | AReserved reserved
  | ARecord "container_record option"
  | ARows "node_row list"
  | ASweep "sweep_row list"
  | AHandle runtime_handle
  | AInspection runtime_inspection
  | AListings "listing list"
  | AProbe "bool \<times> string"
  | ATime int
  | AFailed thrown

type_synonym event = "call \<times> answer"

type_synonym ('w, 'r) service = "'w \<Rightarrow> (thrown + 'r) \<times> 'w"

record 'w env =
  en_createEntity :: "create_input \<Rightarrow> ('w, reserved) service"
  en_setStatus :: "set_status \<Rightarrow> ('w, unit) service"
  en_loadContainer :: "string \<Rightarrow> ('w, container_record option) service"
  en_nodeContainers :: "string \<Rightarrow> ('w, node_row list) service"
  en_sweepContainers :: "string \<Rightarrow> int \<Rightarrow> ('w, sweep_row list) service"
  en_lock :: "string \<Rightarrow> ('w, unit) service"
  en_unlock :: "string \<Rightarrow> ('w, unit) service"
  en_create :: "string \<Rightarrow> container_spec \<Rightarrow> provider_ctx \<Rightarrow> ('w, runtime_handle) service"
  en_start :: "string \<Rightarrow> runtime_handle \<Rightarrow> ('w, unit) service"
  en_stop :: "string \<Rightarrow> runtime_handle \<Rightarrow> int \<Rightarrow> ('w, unit) service"
  en_pause :: "string \<Rightarrow> runtime_handle \<Rightarrow> ('w, unit) service"
  en_resume :: "string \<Rightarrow> runtime_handle \<Rightarrow> ('w, unit) service"
  en_destroy :: "string \<Rightarrow> runtime_handle \<Rightarrow> ('w, unit) service"
  en_inspect :: "string \<Rightarrow> runtime_handle \<Rightarrow> ('w, runtime_inspection) service"
  en_list :: "string \<Rightarrow> ('w, listing list) service"
  en_probe :: "string \<Rightarrow> ('w, bool \<times> string) service"
  en_now :: "'w \<Rightarrow> int \<times> 'w"
  en_sleep :: "int \<Rightarrow> 'w \<Rightarrow> 'w"

type_synonym ('w, 'a) caction = "('w, event, thrown, 'a) act"

definition ask :: "call \<Rightarrow> ('r \<Rightarrow> answer) \<Rightarrow> ('w, 'r) service \<Rightarrow> ('w, 'r) caction" where
  "ask c wrap f = perform (\<lambda>r. (c, wrap r)) (\<lambda>e. (c, AFailed e)) f"

definition clock :: "'w env \<Rightarrow> ('w, int) caction" where
  "clock env = ask Now ATime (\<lambda>w. case en_now env w of (t, w') \<Rightarrow> (Inr t, w'))"

definition pause_ms :: "'w env \<Rightarrow> int \<Rightarrow> ('w, unit) caction" where
  "pause_ms env ms = ask (Sleep ms) (\<lambda>_. ADone) (\<lambda>w. (Inr (), en_sleep env ms w))"

definition write_status :: "'w env \<Rightarrow> set_status \<Rightarrow> ('w, unit) caction" where
  "write_status env w = ask (SetStatus w) (\<lambda>_. ADone) (en_setStatus env w)"

definition destroy_runtime :: "'w env \<Rightarrow> string \<Rightarrow> runtime_handle \<Rightarrow> ('w, unit) caction" where
  "destroy_runtime env pid h = ask (PDestroy pid h) (\<lambda>_. ADone) (en_destroy env pid h)"

text \<open>A node-internal transition: no command, no version.\<close>

definition internal_status :: "string \<Rightarrow> container_status \<Rightarrow> set_status" where
  "internal_status cid st = \<lparr>ss_containerId = cid, ss_status = st, ss_runtimeRef = None, ss_surfaces = None,
     ss_error = None, ss_actorId = None, ss_operation = None, ss_expectedVersion = None, ss_clientMutationId = None\<rparr>"

subsection \<open>Waiting for the surfaces\<close>

fun runtime_name :: "runtime_status \<Rightarrow> string" where
  "runtime_name R_created = ''created''"
| "runtime_name R_running = ''running''"
| "runtime_name R_paused = ''paused''"
| "runtime_name R_stopped = ''stopped''"
| "runtime_name R_gone = ''gone''"

text \<open>
  The loop with the number of rounds it may take; lemma \<open>wait_returns\<close> says how many are enough.
\<close>

fun wait_poll :: "'w env \<Rightarrow> string \<Rightarrow> runtime_handle \<Rightarrow> int \<Rightarrow> int \<Rightarrow> nat \<Rightarrow> ('w, surface list) caction" where
  "wait_poll env pid h budget deadline 0 = act_unfinished"
| "wait_poll env pid h budget deadline (Suc n) =
     act_bind (ask (PInspect pid h) AInspection (en_inspect env pid h)) (\<lambda>i.
       if in_status i = R_running \<and> in_surfaces i \<noteq> [] then act_return (map se_kind (in_surfaces i))
       else if in_status i = R_gone then act_throw (ContainerError RuntimeCode Disappeared)
       else act_bind (clock env) (\<lambda>t.
         if deadline \<le> t then act_throw (ContainerError Timeout (NotReady budget (runtime_name (in_status i)) (length (in_surfaces i))))
         else act_bind (pause_ms env 100) (\<lambda>_. wait_poll env pid h budget deadline n)))"

definition waitForSurfaces :: "'w env \<Rightarrow> string \<Rightarrow> runtime_handle \<Rightarrow> int \<Rightarrow> nat \<Rightarrow> ('w, surface list) caction" where
  "waitForSurfaces env pid h startTimeoutMs n =
     act_bind (clock env) (\<lambda>t. wait_poll env pid h startTimeoutMs (t + startTimeoutMs) n)"

subsection \<open>The saga\<close>

record provision_input =
  pi_provider :: string
  pi_create :: create_input
  pi_startTimeoutMs :: int
  pi_start :: bool
  pi_dataDir :: string
  pi_keepFailed :: bool

record provision_result =
  pr_containerId :: string
  pr_status :: container_status
  pr_version :: int
  pr_runtimeRef :: "string option"
  pr_surfaces :: "surface list"
  pr_replayed :: bool
  pr_raw :: jsval

definition result_of :: "reserved \<Rightarrow> container_status \<Rightarrow> string option \<Rightarrow> surface list \<Rightarrow> bool \<Rightarrow> provision_result" where
  "result_of rv st ref surfaces replayed = \<lparr>pr_containerId = rv_containerId rv, pr_status = st, pr_version = rv_version rv,
     pr_runtimeRef = ref, pr_surfaces = surfaces, pr_replayed = replayed, pr_raw = rv_raw rv\<rparr>"

definition already_ran :: "reserved \<Rightarrow> bool" where
  "already_ran rv \<longleftrightarrow> rv_replayed rv \<or> rv_status rv \<noteq> Requested \<or> rv_runtimeRef rv \<noteq> None"

text \<open>The lock is held across the creation only, and given back whether it threw or not.\<close>

definition with_node_lock :: "'w env \<Rightarrow> string \<Rightarrow> ('w, 'a) caction \<Rightarrow> ('w, 'a) caction" where
  "with_node_lock env nodeId m =
     act_bind (ask (LockNode nodeId) (\<lambda>_. ADone) (en_lock env nodeId)) (\<lambda>_.
     act_bind (act_catch m (\<lambda>e. act_bind (attempt (ask (UnlockNode nodeId) (\<lambda>_. ADone) (en_unlock env nodeId))) (\<lambda>_. act_throw e))) (\<lambda>x.
     act_bind (ask (UnlockNode nodeId) (\<lambda>_. ADone) (en_unlock env nodeId)) (\<lambda>_. act_return x)))"

definition create_runtime :: "'w env \<Rightarrow> provision_input \<Rightarrow> string \<Rightarrow> ('w, runtime_handle) caction" where
  "create_runtime env i cid =
     (let c = pi_create i; ctx = \<lparr>cx_containerId = cid, cx_spaceId = ci_spaceId c, cx_nodeId = ci_nodeId c, cx_dataDir = pi_dataDir i\<rparr> in
      with_node_lock env (ci_nodeId c)
        (ask (PCreate (pi_provider i) (ci_spec c) ctx) AHandle (en_create env (pi_provider i) (ci_spec c) ctx)))"

text \<open>What follows the creation, with the handle already assigned.\<close>

definition bring_up :: "'w env \<Rightarrow> provision_input \<Rightarrow> reserved \<Rightarrow> runtime_handle \<Rightarrow> nat \<Rightarrow> ('w, provision_result) caction" where
  "bring_up env i rv h n =
     act_bind (write_status env ((internal_status (rv_containerId rv) Provisioning) \<lparr>ss_runtimeRef := Some (ha_runtimeRef h)\<rparr>)) (\<lambda>_.
     if \<not> pi_start i then act_return (result_of rv Provisioning (Some (ha_runtimeRef h)) [] False)
     else act_bind (ask (PStart (pi_provider i) h) (\<lambda>_. ADone) (en_start env (pi_provider i) h)) (\<lambda>_.
       act_bind (waitForSurfaces env (pi_provider i) h (pi_startTimeoutMs i) n) (\<lambda>surfaces.
       act_bind (write_status env ((internal_status (rv_containerId rv) Running)
           \<lparr>ss_runtimeRef := Some (ha_runtimeRef h), ss_surfaces := Some surfaces\<rparr>)) (\<lambda>_.
       act_return (result_of rv Running (Some (ha_runtimeRef h)) surfaces False)))))"

fun surfaced :: "thrown \<Rightarrow> thrown" where
  "surfaced (ContainerError c m) = ContainerError c m"
| "surfaced (PlainError m) = ContainerError RuntimeCode (Said m)"

text \<open>Compensation: neither of its steps can hide the failure it answers.\<close>

definition compensate :: "'w env \<Rightarrow> provision_input \<Rightarrow> reserved \<Rightarrow> runtime_handle option \<Rightarrow> thrown \<Rightarrow> ('w, 'a) caction" where
  "compensate env i rv handle e =
     act_bind (attempt (write_status env ((internal_status (rv_containerId rv) FailedStatus)
         \<lparr>ss_error := Some (MessageOf e), ss_runtimeRef := map_option ha_runtimeRef handle\<rparr>))) (\<lambda>_.
     act_bind (case handle of
         Some h \<Rightarrow> if pi_keepFailed i then act_return (Inr ()) else attempt (destroy_runtime env (pi_provider i) h)
       | None \<Rightarrow> act_return (Inr ())) (\<lambda>_.
     act_throw (surfaced e)))"

definition provisionContainer :: "'w env \<Rightarrow> provision_input \<Rightarrow> nat \<Rightarrow> ('w, provision_result) caction" where
  "provisionContainer env i n =
     act_bind (ask (CreateEntity (pi_create i)) AReserved (en_createEntity env (pi_create i))) (\<lambda>rv.
     if already_ran rv then act_return (result_of rv (rv_status rv) (rv_runtimeRef rv) [] True)
     else act_bind (attempt (create_runtime env i (rv_containerId rv))) (\<lambda>created.
       case created of
         Inl e \<Rightarrow> compensate env i rv None e
       | Inr h \<Rightarrow> act_catch (bring_up env i rv h n) (\<lambda>e. compensate env i rv (Some h) e)))"

subsection \<open>What a run did\<close>

definition statuses :: "event list \<Rightarrow> container_status list" where
  "statuses ts = map ss_status (List.map_filter (\<lambda>(c, a). case c of SetStatus w \<Rightarrow> Some w | _ \<Rightarrow> None) ts)"

definition accepted :: "event list \<Rightarrow> container_status list" where
  "accepted ts = statuses (filter (\<lambda>(c, a). a = ADone) ts)"

definition handles_made :: "event list \<Rightarrow> runtime_handle list" where
  "handles_made ts = List.map_filter (\<lambda>(c, a). case a of AHandle h \<Rightarrow> Some h | _ \<Rightarrow> None) ts"

definition handles_destroyed :: "event list \<Rightarrow> runtime_handle list" where
  "handles_destroyed ts = List.map_filter (\<lambda>(c, a). case c of PDestroy pid h \<Rightarrow> Some h | _ \<Rightarrow> None) ts"

definition failure_notes :: "event list \<Rightarrow> status_note option list" where
  "failure_notes ts = List.map_filter (\<lambda>(c, a). case c of SetStatus w \<Rightarrow> if ss_status w = FailedStatus then Some (ss_error w) else None | _ \<Rightarrow> None) ts"

definition lock_lost :: "event list \<Rightarrow> bool" where
  "lock_lost ts = list_ex (\<lambda>(c, a). case (c, a) of (UnlockNode _, AFailed _) \<Rightarrow> True | _ \<Rightarrow> False) ts"

named_theorems deeds \<open>reading off what a list of events did\<close>

lemma map_filter_append [deeds]: "List.map_filter f (xs @ ys) = List.map_filter f xs @ List.map_filter f ys"
  by (simp add: List.map_filter_def)

lemma deeds_append [deeds]:
  "statuses (xs @ ys) = statuses xs @ statuses ys"
  "accepted (xs @ ys) = accepted xs @ accepted ys"
  "handles_made (xs @ ys) = handles_made xs @ handles_made ys"
  "handles_destroyed (xs @ ys) = handles_destroyed xs @ handles_destroyed ys"
  "failure_notes (xs @ ys) = failure_notes xs @ failure_notes ys"
  "lock_lost (xs @ ys) \<longleftrightarrow> lock_lost xs \<or> lock_lost ys"
  by (simp_all add: statuses_def accepted_def handles_made_def handles_destroyed_def failure_notes_def lock_lost_def map_filter_append)

lemma deeds_Cons:
  "statuses ((c, a) # ts) = (case c of SetStatus w \<Rightarrow> [ss_status w] | _ \<Rightarrow> []) @ statuses ts"
  "accepted ((c, a) # ts) = (case c of SetStatus w \<Rightarrow> if a = ADone then [ss_status w] else [] | _ \<Rightarrow> []) @ accepted ts"
  "handles_made ((c, a) # ts) = (case a of AHandle h \<Rightarrow> [h] | _ \<Rightarrow> []) @ handles_made ts"
  "handles_destroyed ((c, a) # ts) = (case c of PDestroy pid h \<Rightarrow> [h] | _ \<Rightarrow> []) @ handles_destroyed ts"
  "failure_notes ((c, a) # ts) = (case c of SetStatus w \<Rightarrow> if ss_status w = FailedStatus then [ss_error w] else [] | _ \<Rightarrow> []) @ failure_notes ts"
  "lock_lost ((c, a) # ts) \<longleftrightarrow> (\<exists>n e. c = UnlockNode n \<and> a = AFailed e) \<or> lock_lost ts"
  by (auto simp: statuses_def accepted_def handles_made_def handles_destroyed_def failure_notes_def lock_lost_def
      List.map_filter_def split: call.splits answer.splits)

lemma deeds_Nil [deeds]:
  "statuses [] = []" "accepted [] = []" "handles_made [] = []" "handles_destroyed [] = []" "failure_notes [] = []" "\<not> lock_lost []"
  by (simp_all add: statuses_def accepted_def handles_made_def handles_destroyed_def failure_notes_def lock_lost_def List.map_filter_def)

lemmas deeds_simps = deeds deeds_Cons

text \<open>Events that neither write a status nor make or destroy a runtime nor lose the lock.\<close>

fun plain_event :: "event \<Rightarrow> bool" where
  "plain_event (c, a) \<longleftrightarrow> (case c of SetStatus _ \<Rightarrow> False | PDestroy _ _ \<Rightarrow> False | UnlockNode _ \<Rightarrow> False | PCreate _ _ _ \<Rightarrow> False | _ \<Rightarrow> True)
     \<and> (case a of AHandle _ \<Rightarrow> False | _ \<Rightarrow> True)"

lemma plain_events:
  "list_all plain_event ts \<Longrightarrow> statuses ts = [] \<and> accepted ts = [] \<and> handles_made ts = [] \<and> handles_destroyed ts = []
     \<and> failure_notes ts = [] \<and> \<not> lock_lost ts"
proof (induction ts)
  case (Cons e ts)
  obtain c a where e: "e = (c, a)" by (cases e)
  from Cons e show ?case by (auto simp: deeds_Cons split: call.splits answer.splits)
qed (simp add: deeds)


subsection \<open>The steps of the saga\<close>

definition adds :: "('w, event) act_world \<Rightarrow> ('w, event) act_world \<Rightarrow> (event list \<Rightarrow> bool) \<Rightarrow> bool" where
  "adds s s' Q \<longleftrightarrow> (\<exists>ts. wo_trace s' = wo_trace s @ ts \<and> Q ts)"

lemma adds_trans: "adds s s' P \<Longrightarrow> adds s' s'' Q \<Longrightarrow> (\<And>ts us. P ts \<Longrightarrow> Q us \<Longrightarrow> R (ts @ us)) \<Longrightarrow> adds s s'' R"
  unfolding adds_def by (metis append.assoc)

lemma addsE: "adds s s' Q \<Longrightarrow> (\<And>ts. wo_trace s' = wo_trace s @ ts \<Longrightarrow> Q ts \<Longrightarrow> thesis) \<Longrightarrow> thesis"
  unfolding adds_def by blast

lemma addsI: "wo_trace s' = wo_trace s @ ts \<Longrightarrow> Q ts \<Longrightarrow> adds s s' Q"
  unfolding adds_def by blast

lemma adds_mono: "adds s s' P \<Longrightarrow> (\<And>ts. P ts \<Longrightarrow> Q ts) \<Longrightarrow> adds s s' Q"
  unfolding adds_def by blast

lemma ask_cases:
  assumes "ask c wrap f s = (r, s')"
  obtains (ok) x where "r = Returned x" "wo_trace s' = wo_trace s @ [(c, wrap x)]"
    | (bad) e where "r = Threw e" "wo_trace s' = wo_trace s @ [(c, AFailed e)]"
  using assms unfolding ask_def by (rule perform_cases) auto

lemma ask_settles [effect_intros, simp]: "settles (ask c wrap f)"
  by (simp add: ask_def)

lemma emits_ask [effect_intros]: "(\<And>r. P (c, wrap r)) \<Longrightarrow> (\<And>e. P (c, AFailed e)) \<Longrightarrow> emits P (ask c wrap f)"
  unfolding ask_def by (rule emits_perform)

lemma emits_if [effect_intros]: "(b \<Longrightarrow> emits P m) \<Longrightarrow> (\<not> b \<Longrightarrow> emits P m') \<Longrightarrow> emits P (if b then m else m')"
  by simp

lemma wait_poll_plain: "emits plain_event (wait_poll env pid h budget deadline n)"
proof (induction n)
  case (Suc n)
  show ?case
    by (auto intro!: effect_intros Suc simp: clock_def pause_ms_def)
qed simp

lemma wait_plain: "emits plain_event (waitForSurfaces env pid h budget n)"
  unfolding waitForSurfaces_def clock_def by (auto intro!: effect_intros wait_poll_plain)

lemma wait_poll_result: "wait_poll env pid h budget deadline n s = (Returned su, s') \<Longrightarrow> su \<noteq> []"
proof (induction n arbitrary: s)
  case (Suc n)
  then show ?case
    by (auto simp: act_throw_def act_return_def elim!: bind_cases split: if_splits)
qed (simp add: act_unfinished_def)

lemma wait_result: "waitForSurfaces env pid h budget n s = (Returned su, s') \<Longrightarrow> su \<noteq> []"
  unfolding waitForSurfaces_def by (auto elim!: bind_cases dest: wait_poll_result)

lemma create_runtime_deeds:
  assumes "create_runtime env i cid s = (r, s')"
  shows "r \<noteq> Unfinished \<and> adds s s' (\<lambda>ts. statuses ts = [] \<and> accepted ts = [] \<and> handles_destroyed ts = [] \<and> failure_notes ts = [] \<and>
     (case r of Returned h \<Rightarrow> handles_made ts = [h] \<and> \<not> lock_lost ts | _ \<Rightarrow> handles_made ts = [] \<or> lock_lost ts))"
  using assms unfolding create_runtime_def with_node_lock_def Let_def
  by (auto simp: adds_def act_catch_def act_return_def act_throw_def attempt_def act_bind_def deeds_simps
      split: prod.splits act_outcome.splits elim!: ask_cases)

definition plain :: "event list \<Rightarrow> bool" where
  "plain ts \<longleftrightarrow> list_all plain_event ts"

lemma plain_deeds [simp]:
  assumes "plain ts"
  shows "statuses ts = []" "accepted ts = []" "handles_made ts = []" "handles_destroyed ts = []" "failure_notes ts = []" "\<not> lock_lost ts"
  using plain_events [OF assms [unfolded plain_def]] by auto

lemma wait_cases:
  assumes "waitForSurfaces env pid h budget n s = (r, s')"
  obtains (ready) su ts where "r = Returned su" "su \<noteq> []" "wo_trace s' = wo_trace s @ ts" "plain ts"
    | (failed) e ts where "r = Threw e" "wo_trace s' = wo_trace s @ ts" "plain ts"
    | (unfinished) ts where "r = Unfinished" "wo_trace s' = wo_trace s @ ts" "plain ts"
  using wait_result [of env pid h budget n s] emitsD [OF wait_plain assms] assms
  unfolding plain_def by (cases r) blast+

lemma bring_up_deeds:
  assumes "bring_up env i rv h n s = (r, s')"
  shows "adds s s' (\<lambda>ts. handles_made ts = [] \<and> handles_destroyed ts = [] \<and> failure_notes ts = [] \<and> \<not> lock_lost ts \<and>
     (case r of
        Returned res \<Rightarrow> accepted ts = (if pi_start i then [Provisioning, Running] else [Provisioning])
          \<and> pr_status res = last (accepted ts) \<and> pr_containerId res = rv_containerId rv
          \<and> pr_runtimeRef res = Some (ha_runtimeRef h) \<and> \<not> pr_replayed res \<and> (pi_start i \<longrightarrow> pr_surfaces res \<noteq> [])
          \<and> statuses ts = accepted ts
      | _ \<Rightarrow> (accepted ts = [] \<or> accepted ts = [Provisioning]) \<and> (statuses ts = [Provisioning] \<or> statuses ts = [Provisioning, Running])))"
  using assms unfolding bring_up_def write_status_def
  by (auto simp: adds_def act_return_def act_throw_def deeds_simps result_of_def internal_status_def
      elim!: bind_cases ask_cases wait_cases split: if_splits)

lemma compensate_deeds:
  assumes "compensate env i rv handle e s = (r, s')"
  shows "r = Threw (surfaced e) \<and> adds s s' (\<lambda>ts. handles_made ts = [] \<and> \<not> lock_lost ts \<and> statuses ts = [FailedStatus]
     \<and> failure_notes ts = [Some (MessageOf e)] \<and> (accepted ts = [] \<or> accepted ts = [FailedStatus])
     \<and> handles_destroyed ts = (if pi_keepFailed i then [] else case handle of Some h \<Rightarrow> [h] | None \<Rightarrow> []))"
  using assms unfolding compensate_def write_status_def destroy_runtime_def
  by (auto simp: adds_def act_return_def act_throw_def deeds_simps internal_status_def
      elim!: bind_cases ask_cases attempt_cases split: if_splits option.splits)

text \<open>A thrown error of the family is passed on, any other becomes a runtime error.\<close>

lemma surfaced_code: "\<exists>c m. surfaced e = ContainerError c m"
  by (cases e) auto

definition replay_anchor :: "event list \<Rightarrow> provision_input \<Rightarrow> provision_result \<Rightarrow> bool" where
  "replay_anchor ts i res \<longleftrightarrow> (\<exists>rv. ts = [(CreateEntity (pi_create i), AReserved rv)] \<and> already_ran rv
     \<and> res = result_of rv (rv_status rv) (rv_runtimeRef rv) [] True)"

definition brought_up :: "event list \<Rightarrow> provision_input \<Rightarrow> provision_result \<Rightarrow> bool" where
  "brought_up ts i res \<longleftrightarrow> (\<exists>h. handles_made ts = [h] \<and> pr_runtimeRef res = Some (ha_runtimeRef h)) \<and> handles_destroyed ts = []
     \<and> failure_notes ts = [] \<and> \<not> pr_replayed res
     \<and> accepted ts = (if pi_start i then [Provisioning, Running] else [Provisioning]) \<and> statuses ts = accepted ts
     \<and> pr_status res = last (accepted ts) \<and> (pi_start i \<longrightarrow> pr_surfaces res \<noteq> [])"

definition undone :: "event list \<Rightarrow> provision_input \<Rightarrow> thrown \<Rightarrow> bool" where
  "undone ts i e \<longleftrightarrow> (\<exists>e0. e = surfaced e0 \<and> failure_notes ts = [Some (MessageOf e0)])
     \<and> statuses ts \<in> {[FailedStatus], [Provisioning, FailedStatus], [Provisioning, Running, FailedStatus]}
     \<and> accepted ts \<in> {[], [Provisioning], [FailedStatus], [Provisioning, FailedStatus]}
     \<and> (lock_lost ts \<or> handles_destroyed ts = (if pi_keepFailed i then [] else handles_made ts))"

text \<open>From the creation on: what was made is recorded, or undone.\<close>

lemma created_account:
  assumes run: "act_catch (bring_up env i rv h n) (\<lambda>e. compensate env i rv (Some h) e) u = (r, s')"
    and us: "accepted us = []" "statuses us = []" "handles_destroyed us = []" "failure_notes us = []" "handles_made us = [h]"
  shows "adds u s' (\<lambda>vs. case r of
      Returned res \<Rightarrow> brought_up (us @ vs) i res
    | Threw e \<Rightarrow> undone (us @ vs) i e
    | Unfinished \<Rightarrow> handles_destroyed (us @ vs) = [] \<and> (statuses (us @ vs) = [Provisioning] \<or> statuses (us @ vs) = [Provisioning, Running]))"
proof -
  obtain q v where b: "bring_up env i rv h n u = (q, v)" by (cases "bring_up env i rv h n u")
  obtain vs where vs: "wo_trace v = wo_trace u @ vs" "handles_made vs = []" "handles_destroyed vs = []" "failure_notes vs = []" "\<not> lock_lost vs"
      and q: "case q of
        Returned res \<Rightarrow> accepted vs = (if pi_start i then [Provisioning, Running] else [Provisioning])
          \<and> pr_status res = last (accepted vs) \<and> pr_containerId res = rv_containerId rv
          \<and> pr_runtimeRef res = Some (ha_runtimeRef h) \<and> \<not> pr_replayed res \<and> (pi_start i \<longrightarrow> pr_surfaces res \<noteq> [])
          \<and> statuses vs = accepted vs
      | _ \<Rightarrow> (accepted vs = [] \<or> accepted vs = [Provisioning]) \<and> (statuses vs = [Provisioning] \<or> statuses vs = [Provisioning, Running])"
    using bring_up_deeds [OF b] by (rule addsE) auto
  show ?thesis
  proof (cases q)
    case (Threw e)
    with run b have w: "compensate env i rv (Some h) e v = (r, s')" by (simp add: act_catch_def)
    obtain ws where ws: "r = Threw (surfaced e)" "wo_trace s' = wo_trace v @ ws" "handles_made ws = []" "statuses ws = [FailedStatus]"
        "failure_notes ws = [Some (MessageOf e)]" "accepted ws = [] \<or> accepted ws = [FailedStatus]"
        "handles_destroyed ws = (if pi_keepFailed i then [] else [h])"
      using compensate_deeds [OF w] by (auto elim: addsE)
    have "accepted vs = [] \<or> accepted vs = [Provisioning]" "statuses vs = [Provisioning] \<or> statuses vs = [Provisioning, Running]"
      using q Threw by simp_all
    then have "undone (us @ vs @ ws) i (surfaced e)"
      unfolding undone_def using us vs ws by (auto simp: deeds_simps)
    with us vs ws show ?thesis by (auto intro: addsI [of _ _ "vs @ ws"])
  next
    case (Returned res)
    with run b have e: "r = q" "v = s'" by (simp_all add: act_catch_def)
    have "brought_up (us @ vs) i res"
      using q Returned us vs by (auto simp: brought_up_def deeds_simps)
    with e us vs Returned show ?thesis by (auto intro: addsI)
  next
    case Unfinished
    with run b have e: "r = q" "v = s'" by (simp_all add: act_catch_def)
    with q us vs Unfinished show ?thesis by (auto simp: deeds_simps intro: addsI)
  qed
qed

lemma provision_account:
  assumes "provisionContainer env i n s = (r, s')"
  shows "adds s s' (\<lambda>ts. case r of
      Returned res \<Rightarrow> replay_anchor ts i res \<or> brought_up ts i res
    | Threw e \<Rightarrow> ts = [(CreateEntity (pi_create i), AFailed e)] \<or> undone ts i e
    | Unfinished \<Rightarrow> handles_destroyed ts = [] \<and> (statuses ts = [Provisioning] \<or> statuses ts = [Provisioning, Running]))"
  using assms unfolding provisionContainer_def
proof (rule bind_cases)
  fix e
  assume "ask (CreateEntity (pi_create i)) AReserved (en_createEntity env (pi_create i)) s = (Threw e, s')" "r = Threw e"
  then show ?thesis by (auto simp: adds_def elim: ask_cases)
next
  assume "ask (CreateEntity (pi_create i)) AReserved (en_createEntity env (pi_create i)) s = (Unfinished, s')"
  then show ?thesis by (auto elim: ask_cases)
next
  fix rv t
  assume a: "ask (CreateEntity (pi_create i)) AReserved (en_createEntity env (pi_create i)) s = (Returned rv, t)"
  then obtain ts where ts: "wo_trace t = wo_trace s @ ts" "ts = [(CreateEntity (pi_create i), AReserved rv)]"
    by (auto elim: ask_cases)
  assume run: "(if already_ran rv then act_return (result_of rv (rv_status rv) (rv_runtimeRef rv) [] True)
     else act_bind (attempt (create_runtime env i (rv_containerId rv))) (\<lambda>created. case created of
         Inl e \<Rightarrow> compensate env i rv None e
       | Inr h \<Rightarrow> act_catch (bring_up env i rv h n) (\<lambda>e. compensate env i rv (Some h) e))) t = (r, s')"
  show ?thesis
  proof (cases "already_ran rv")
    case True
    with run ts show ?thesis by (auto simp: act_return_def replay_anchor_def intro: addsI [of _ _ ts])
  next
    case False
    have st: "settles (create_runtime env i cid)" for cid
      using create_runtime_deeds [of env i cid] by (metis settles_def prod.collapse)
    from False run obtain c u where c: "attempt (create_runtime env i (rv_containerId rv)) t = (Returned c, u)"
        and k: "(case c of Inl e \<Rightarrow> compensate env i rv None e
          | Inr h \<Rightarrow> act_catch (bring_up env i rv h n) (\<lambda>e. compensate env i rv (Some h) e)) u = (r, s')"
      by (auto dest!: bind_returned [OF _ attempt_never_throws [OF st]])
    from c st show ?thesis
    proof (rule attempt_cases)
      fix e assume "create_runtime env i (rv_containerId rv) t = (Threw e, u)" "Returned c = Returned (Inl e)"
      with k have d: "create_runtime env i (rv_containerId rv) t = (Threw e, u)" "compensate env i rv None e u = (r, s')" by auto
      obtain us where us: "wo_trace u = wo_trace t @ us" "accepted us = []" "statuses us = []" "handles_destroyed us = []"
          "failure_notes us = []" "handles_made us = [] \<or> lock_lost us"
        using create_runtime_deeds [OF d(1), THEN conjunct2] by (rule addsE) auto
      obtain vs where vs: "r = Threw (surfaced e)" "wo_trace s' = wo_trace u @ vs" "handles_made vs = []" "statuses vs = [FailedStatus]"
          "failure_notes vs = [Some (MessageOf e)]" "accepted vs = [] \<or> accepted vs = [FailedStatus]" "handles_destroyed vs = []"
        using compensate_deeds [OF d(2)] by (auto elim: addsE)
      have "undone (ts @ us @ vs) i (surfaced e)"
        using us vs ts(2) by (auto simp: undone_def deeds_simps)
      with us vs ts(1) show ?thesis by (auto intro: addsI [of _ _ "ts @ us @ vs"])
    next
      fix h assume "create_runtime env i (rv_containerId rv) t = (Returned h, u)" "Returned c = Returned (Inr h)"
      with k have d: "create_runtime env i (rv_containerId rv) t = (Returned h, u)"
          "act_catch (bring_up env i rv h n) (\<lambda>e. compensate env i rv (Some h) e) u = (r, s')" by auto
      obtain us where us: "wo_trace u = wo_trace t @ us" "accepted us = []" "statuses us = []" "handles_destroyed us = []"
          "failure_notes us = []" "handles_made us = [h]"
        using create_runtime_deeds [OF d(1), THEN conjunct2] by (rule addsE) auto
      have us': "accepted (ts @ us) = []" "statuses (ts @ us) = []" "handles_destroyed (ts @ us) = []"
          "failure_notes (ts @ us) = []" "handles_made (ts @ us) = [h]"
        using us ts(2) by (simp_all add: deeds_simps)
      obtain vs where "wo_trace s' = wo_trace u @ vs" "case r of
          Returned res \<Rightarrow> brought_up ((ts @ us) @ vs) i res
        | Threw e \<Rightarrow> undone ((ts @ us) @ vs) i e
        | Unfinished \<Rightarrow> handles_destroyed ((ts @ us) @ vs) = [] \<and> (statuses ((ts @ us) @ vs) = [Provisioning] \<or> statuses ((ts @ us) @ vs) = [Provisioning, Running])"
        using created_account [OF d(2) us'] by (rule addsE)
      with us ts(1) show ?thesis by (intro addsI [of _ _ "(ts @ us) @ vs"]) (auto split: act_outcome.splits)
    qed
  qed
qed

subsection \<open>It returns\<close>

text \<open>
  A clock that the calls never set back and a sleep moves on by its length: then a start budget of
  \<open>b\<close> milliseconds is used up after \<open>b / 100 + 1\<close> rounds.
\<close>

definition clock_advances :: "'w env \<Rightarrow> ('w \<Rightarrow> int) \<Rightarrow> bool" where
  "clock_advances env time_of \<longleftrightarrow> (\<forall>w. fst (en_now env w) = time_of w \<and> time_of w \<le> time_of (snd (en_now env w)))
     \<and> (\<forall>ms w. time_of w + ms \<le> time_of (en_sleep env ms w))
     \<and> (\<forall>pid h w. time_of w \<le> time_of (snd (en_inspect env pid h w)))"

lemma clock_run:
  assumes "clock_advances env time_of" "clock env s = (r, s')"
  shows "r = Returned (time_of (wo_state s)) \<and> time_of (wo_state s) \<le> time_of (wo_state s')"
proof -
  obtain x w where "en_now env (wo_state s) = (x, w)" by (cases "en_now env (wo_state s)")
  moreover from this have "x = time_of (wo_state s)" "time_of (wo_state s) \<le> time_of w"
    using assms(1) unfolding clock_advances_def by (metis fst_conv, metis snd_conv)
  ultimately show ?thesis using assms(2) by (auto simp: clock_def ask_def perform_def)
qed

lemma inspect_run:
  assumes "clock_advances env time_of" "ask (PInspect pid h) AInspection (en_inspect env pid h) s = (r, s')"
  shows "time_of (wo_state s) \<le> time_of (wo_state s')"
proof -
  obtain x w where x: "en_inspect env pid h (wo_state s) = (x, w)" by (cases "en_inspect env pid h (wo_state s)")
  then have "time_of (wo_state s) \<le> time_of w"
    using assms(1) unfolding clock_advances_def by (metis snd_conv)
  with x assms(2) show ?thesis by (auto simp: ask_def perform_def split: sum.splits)
qed

lemma sleep_run:
  assumes "clock_advances env time_of" "pause_ms env ms s = (r, s')"
  shows "r = Returned () \<and> time_of (wo_state s) + ms \<le> time_of (wo_state s')"
  using assms by (auto simp: pause_ms_def ask_def perform_def clock_advances_def)

lemma wait_poll_round:
  assumes "wait_poll env pid h budget deadline (Suc n) s = (Unfinished, s')"
  shows "\<exists>i t1 v t2 t3. ask (PInspect pid h) AInspection (en_inspect env pid h) s = (Returned i, t1) \<and> clock env t1 = (Returned v, t2)
     \<and> \<not> deadline \<le> v \<and> pause_ms env 100 t2 = (Returned (), t3) \<and> wait_poll env pid h budget deadline n t3 = (Unfinished, s')"
  using assms unfolding wait_poll.simps
proof (rule bind_cases)
  assume "ask (PInspect pid h) AInspection (en_inspect env pid h) s = (Unfinished, s')"
  then show ?thesis by (auto elim: ask_cases)
next
  fix i t1
  assume i: "ask (PInspect pid h) AInspection (en_inspect env pid h) s = (Returned i, t1)"
  assume k: "(if in_status i = R_running \<and> in_surfaces i \<noteq> [] then act_return (map se_kind (in_surfaces i))
       else if in_status i = R_gone then act_throw (ContainerError RuntimeCode Disappeared)
       else act_bind (clock env) (\<lambda>t. if deadline \<le> t then act_throw (ContainerError Timeout (NotReady budget (runtime_name (in_status i)) (length (in_surfaces i))))
         else act_bind (pause_ms env 100) (\<lambda>_. wait_poll env pid h budget deadline n))) t1 = (Unfinished, s')"
  then have "act_bind (clock env) (\<lambda>t. if deadline \<le> t then act_throw (ContainerError Timeout (NotReady budget (runtime_name (in_status i)) (length (in_surfaces i))))
         else act_bind (pause_ms env 100) (\<lambda>_. wait_poll env pid h budget deadline n)) t1 = (Unfinished, s')"
    by (auto simp: act_return_def act_throw_def split: if_splits)
  then obtain v t2 where v: "clock env t1 = (Returned v, t2)" "\<not> deadline \<le> v"
      "act_bind (pause_ms env 100) (\<lambda>_. wait_poll env pid h budget deadline n) t2 = (Unfinished, s')"
    by (auto simp: act_throw_def clock_def elim!: bind_cases elim: ask_cases split: if_splits)
  from v(3) obtain t3 where "pause_ms env 100 t2 = (Returned (), t3)" "wait_poll env pid h budget deadline n t3 = (Unfinished, s')"
    by (auto simp: pause_ms_def elim!: bind_cases elim: ask_cases)
  with i v show ?thesis by blast
qed simp

lemma wait_poll_ends:
  assumes c: "clock_advances env time_of"
  shows "deadline \<le> time_of (wo_state s) + 100 * int n \<Longrightarrow> wait_poll env pid h budget deadline (Suc n) s \<noteq> (Unfinished, s')"
proof (induction n arbitrary: s)
  case 0
  show ?case
  proof
    assume "wait_poll env pid h budget deadline (Suc 0) s = (Unfinished, s')"
    from wait_poll_round [OF this] obtain i t1 v t2 where "ask (PInspect pid h) AInspection (en_inspect env pid h) s = (Returned i, t1)"
        "clock env t1 = (Returned v, t2)" "\<not> deadline \<le> v" by blast
    with inspect_run [OF c this(1)] clock_run [OF c this(2)] 0 show False by simp
  qed
next
  case (Suc n)
  show ?case
  proof
    assume "wait_poll env pid h budget deadline (Suc (Suc n)) s = (Unfinished, s')"
    from wait_poll_round [OF this] obtain i t1 t2 t3 v where i: "ask (PInspect pid h) AInspection (en_inspect env pid h) s = (Returned i, t1)"
        and t: "clock env t1 = (Returned v, t2)" and p: "pause_ms env 100 t2 = (Returned (), t3)"
        and w: "wait_poll env pid h budget deadline (Suc n) t3 = (Unfinished, s')" by blast
    have "time_of (wo_state s) + 100 \<le> time_of (wo_state t3)"
      using inspect_run [OF c i] clock_run [OF c t] sleep_run [OF c p] by linarith
    with Suc.prems have "deadline \<le> time_of (wo_state t3) + 100 * int n" by simp
    from Suc.IH [OF this] w show False by blast
  qed
qed

lemma wait_returns:
  assumes c: "clock_advances env time_of" and b: "budget \<le> 100 * int n"
  shows "settles (waitForSurfaces env pid h budget (Suc n))"
  unfolding settles_def
proof
  fix s
  obtain r t where k: "clock env s = (r, t)" by (cases "clock env s")
  have r: "r = Returned (time_of (wo_state s))" "time_of (wo_state s) \<le> time_of (wo_state t)"
    using clock_run [OF c k] by auto
  then have "time_of (wo_state s) + budget \<le> time_of (wo_state t) + 100 * int n" using b by linarith
  from wait_poll_ends [OF c this, of pid h budget] have "fst (wait_poll env pid h budget (time_of (wo_state s) + budget) (Suc n) t) \<noteq> Unfinished"
    by (metis prod.collapse)
  with k r show "fst (waitForSurfaces env pid h budget (Suc n) s) \<noteq> Unfinished"
    by (simp add: waitForSurfaces_def act_bind_def del: wait_poll.simps)
qed

lemma settles_if [effect_intros]: "(b \<Longrightarrow> settles m) \<Longrightarrow> (\<not> b \<Longrightarrow> settles m') \<Longrightarrow> settles (if b then m else m')"
  by simp

lemma settles_sum [effect_intros]: "(\<And>x. settles (f x)) \<Longrightarrow> (\<And>x. settles (g x)) \<Longrightarrow> settles (case q of Inl x \<Rightarrow> f x | Inr x \<Rightarrow> g x)"
  by (cases q) auto

lemma settles_attempt [effect_intros]: "settles m \<Longrightarrow> settles (attempt m)"
  by (rule never_throws_settles [OF attempt_never_throws])

lemma settles_option [effect_intros]: "settles f \<Longrightarrow> (\<And>x. settles (g x)) \<Longrightarrow> settles (case q of None \<Rightarrow> f | Some x \<Rightarrow> g x)"
  by (cases q) auto

lemma provision_settles:
  assumes "clock_advances env time_of" "pi_startTimeoutMs i \<le> 100 * int n"
  shows "settles (provisionContainer env i (Suc n))"
  unfolding provisionContainer_def create_runtime_def with_node_lock_def bring_up_def compensate_def write_status_def destroy_runtime_def Let_def
  by (intro effect_intros wait_returns [OF assms])

end
