(* ===== verification/ContainerService.thy ===== *)
theory ContainerService
  imports ContainerSaga
begin

text \<open>
  The service over the providers (\<open>ContainerService.ts\<close>): creating a container, its lifecycle verbs,
  the reconciliation of records and runtimes, and the sweep. An optional field of a request is an
  option. \<open>Date.parse\<close> is a field of the configuration, its result \<open>None\<close> for NaN.
\<close>

subsection \<open>Requests and defaults\<close>

fun PROFILE_DEFAULTS :: "profile \<Rightarrow> rat \<times> rat \<times> surface list" where
  "PROFILE_DEFAULTS Shell = (1, 1024, [Terminal])"
| "PROFILE_DEFAULTS Desktop = (2, 4096, [Terminal, Screen])"
| "PROFILE_DEFAULTS Browser = (2, 4096, [Terminal, Screen, BrowserSurface])"
| "PROFILE_DEFAULTS Android = (4, 6144, [Terminal, Screen, Adb])"
| "PROFILE_DEFAULTS Ios = (4, 6144, [Terminal, Screen])"
| "PROFILE_DEFAULTS Dind = (2, 4096, [Terminal, Docker])"
| "PROFILE_DEFAULTS Custom = (1, 1024, [Terminal])"

definition DEFAULT_LIFECYCLE :: lifecycle where
  "DEFAULT_LIFECYCLE = \<lparr>lc_ephemeral = True, lc_ttlSeconds = None, lc_idleHibernateSeconds = None,
     lc_graceSeconds = 600, lc_snapshotOnStop = False\<rparr>"

record lifecycle_input =
  lp_ephemeral :: "bool option"
  lp_ttlSeconds :: "rat option option"
  lp_idleHibernateSeconds :: "rat option option"
  lp_graceSeconds :: "rat option"
  lp_snapshotOnStop :: "bool option"

record mount_input =
  mi_host :: string
  mi_guest :: string
  mi_ro :: bool

record spec_input =
  si_image :: "string option"
  si_cpus :: "rat option"
  si_memMiB :: "rat option"
  si_diskMiB :: "rat option"
  si_mounts :: "mount_input list option"
  si_env :: "(string \<times> string) list option"
  si_ports :: "rat list option"
  si_network :: "(network \<times> string list) option"
  si_surfaces :: "(surface \<times> surface_spec) list"
  si_labels :: "(string \<times> string) list option"

definition no_spec :: spec_input where
  "no_spec = \<lparr>si_image = None, si_cpus = None, si_memMiB = None, si_diskMiB = None, si_mounts = None, si_env = None,
     si_ports = None, si_network = None, si_surfaces = [], si_labels = None\<rparr>"

record service_config =
  sc_nodeId :: string
  sc_cap :: int
  sc_dataDir :: string
  sc_startTimeoutMs :: "int option"
  sc_keepFailed :: bool
  sc_hostVmBoundary :: bool
  sc_parseDate :: "string \<Rightarrow> int option"

record create_request =
  rq_spaceId :: string
  rq_clientMutationId :: string
  rq_profile :: profile
  rq_title :: "string option"
  rq_provider :: "string option"
  rq_nodeId :: "string option"
  rq_image :: "string option"
  rq_spec :: "spec_input option"
  rq_lifecycle :: "lifecycle_input option"
  rq_shareMode :: "share_mode option"
  rq_parentId :: "string option"
  rq_templateId :: "string option"
  rq_projectId :: "string option"
  rq_projectTrust :: "trust option"
  rq_confirmUntrusted :: bool
  rq_bypassPermissions :: bool
  rq_start :: "bool option"
  rq_actorId :: "string option"
  rq_spawnedBy :: "string option"

record lifecycle_request =
  lr_containerId :: string
  lr_clientMutationId :: string
  lr_expectedVersion :: int
  lr_timeoutMs :: "int option"
  lr_actorId :: "string option"

text \<open>\<open>a ?? b\<close>\<close>

definition or_else :: "'a option \<Rightarrow> 'a \<Rightarrow> 'a" where
  "or_else a b = (case a of Some x \<Rightarrow> x | None \<Rightarrow> b)"

fun profile_name :: "profile \<Rightarrow> string" where
  "profile_name Shell = ''shell''"
| "profile_name Desktop = ''desktop''"
| "profile_name Browser = ''browser''"
| "profile_name Android = ''android''"
| "profile_name Ios = ''ios''"
| "profile_name Dind = ''dind''"
| "profile_name Custom = ''custom''"

definition defaultTitle :: "profile \<Rightarrow> string" where
  "defaultTitle p = profile_name p @ '' container''"

text \<open>A spread over the default lifecycle; a \<open>null\<close> that was sent overrides.\<close>

definition resolved_lifecycle :: "lifecycle_input option \<Rightarrow> lifecycle" where
  "resolved_lifecycle li = (case li of None \<Rightarrow> DEFAULT_LIFECYCLE | Some p \<Rightarrow>
     \<lparr>lc_ephemeral = or_else (lp_ephemeral p) (lc_ephemeral DEFAULT_LIFECYCLE),
      lc_ttlSeconds = or_else (lp_ttlSeconds p) (lc_ttlSeconds DEFAULT_LIFECYCLE),
      lc_idleHibernateSeconds = or_else (lp_idleHibernateSeconds p) (lc_idleHibernateSeconds DEFAULT_LIFECYCLE),
      lc_graceSeconds = or_else (lp_graceSeconds p) (lc_graceSeconds DEFAULT_LIFECYCLE),
      lc_snapshotOnStop = or_else (lp_snapshotOnStop p) (lc_snapshotOnStop DEFAULT_LIFECYCLE)\<rparr>)"

definition resolveSpec :: "create_request \<Rightarrow> container_spec" where
  "resolveSpec req =
     (case PROFILE_DEFAULTS (rq_profile req) of (cpus, mem, surfaces) \<Rightarrow>
      let input = or_else (rq_spec req) no_spec in
      \<lparr>sp_profile = rq_profile req,
       sp_image = (case rq_image req of Some im \<Rightarrow> Some im | None \<Rightarrow> si_image input),
       sp_cpus = or_else (si_cpus input) cpus,
       sp_memMiB = or_else (si_memMiB input) mem,
       sp_diskMiB = si_diskMiB input,
       sp_mounts = map (\<lambda>m. (mi_guest m, mi_ro m)) (or_else (si_mounts input) []),
       sp_env = or_else (si_env input) [],
       sp_ports = or_else (si_ports input) [],
       sp_network = or_else (si_network input) (Balanced, []),
       sp_surfaces = foldl (\<lambda>al (k, v). AList.update k v al)
          (map (\<lambda>k. (k, \<lparr>su_enabled = True, su_port = None\<rparr>)) surfaces) (si_surfaces input),
       sp_labels = or_else (si_labels input) []\<rparr>)"

definition startBudgetFor :: "service_config \<Rightarrow> profile \<Rightarrow> int" where
  "startBudgetFor cfg p = (if sc_startTimeoutMs cfg \<noteq> None \<and> sc_startTimeoutMs cfg \<noteq> Some 0 then the (sc_startTimeoutMs cfg)
     else if p = Android \<or> p = Ios then 300000 else 120000)"

subsection \<open>Creating\<close>

definition policy_of :: "service_config \<Rightarrow> create_request \<Rightarrow> isolation" where
  "policy_of cfg req = fst (requiredIsolation \<lparr>po_profile = rq_profile req, po_network = fst (sp_network (resolveSpec req)),
     po_projectTrust = rq_projectTrust req, po_bypassPermissions = rq_bypassPermissions req, po_hostVmBoundary = sc_hostVmBoundary cfg\<rparr>)"

definition create_input_for :: "service_config \<Rightarrow> create_request \<Rightarrow> provider \<Rightarrow> create_input" where
  "create_input_for cfg req p =
     \<lparr>ci_spaceId = rq_spaceId req,
      ci_title = or_else (rq_title req) (defaultTitle (rq_profile req)),
      ci_actorId = rq_actorId req,
      ci_profile = rq_profile req,
      ci_provider = de_id (pv_descriptor p),
      ci_isolation = de_isolation (pv_descriptor p),
      ci_nodeId = or_else (rq_nodeId req) (sc_nodeId cfg),
      ci_image = or_else (rq_image req) (or_else (sp_image (resolveSpec req)) []),
      ci_spec = resolveSpec req,
      ci_lifecycle = resolved_lifecycle (rq_lifecycle req),
      ci_shareMode = or_else (rq_shareMode req) ShareNone,
      ci_parentId = rq_parentId req,
      ci_projectId = rq_projectId req,
      ci_templateId = rq_templateId req,
      ci_spawnedBy = rq_spawnedBy req,
      ci_cap = sc_cap cfg,
      ci_clientMutationId = rq_clientMutationId req\<rparr>"

definition provision_request :: "service_config \<Rightarrow> provider_registry \<Rightarrow> create_request \<Rightarrow> thrown + provision_input" where
  "provision_request cfg reg req =
     (if rq_projectTrust req = Some Untrusted \<and> \<not> rq_confirmUntrusted req then Inl (ContainerError Forbidden UntrustedProject)
      else case select_provider reg (rq_profile req) (rq_provider req) (Some (policy_of cfg req)) of
        Inl e \<Rightarrow> Inl e
      | Inr p \<Rightarrow> Inr \<lparr>pi_provider = de_id (pv_descriptor p), pi_create = create_input_for cfg req p,
          pi_startTimeoutMs = startBudgetFor cfg (rq_profile req), pi_start = or_else (rq_start req) True,
          pi_dataDir = sc_dataDir cfg, pi_keepFailed = sc_keepFailed cfg\<rparr>)"

definition create_container :: "'w env \<Rightarrow> service_config \<Rightarrow> provider_registry \<Rightarrow> create_request \<Rightarrow> nat \<Rightarrow> ('w, provision_result) caction" where
  "create_container env cfg reg req n = (case provision_request cfg reg req of
     Inl e \<Rightarrow> act_throw e
   | Inr i \<Rightarrow> provisionContainer env i n)"

subsection \<open>The lifecycle verbs\<close>

definition falsy_ref :: "string option \<Rightarrow> bool" where
  "falsy_ref r \<longleftrightarrow> r = None \<or> r = Some []"

definition resolveRuntime :: "'w env \<Rightarrow> provider_registry \<Rightarrow> string \<Rightarrow> bool \<Rightarrow> ('w, container_record \<times> provider \<times> runtime_handle) caction" where
  "resolveRuntime env reg cid allowMissing =
     act_bind (ask (LoadContainer cid) ARecord (en_loadContainer env cid)) (\<lambda>found. case found of
       None \<Rightarrow> act_throw (ContainerError NotFound RecordMissing)
     | Some record' \<Rightarrow> (case get_provider reg (cr_provider record') of
         None \<Rightarrow> act_throw (ContainerError NoProvider (NodeLacksProvider (cr_provider record')))
       | Some p \<Rightarrow>
           if falsy_ref (cr_runtimeRef record') \<and> \<not> allowMissing then act_throw (ContainerError StateCode NoRuntimeYet)
           else act_return (record', p, \<lparr>ha_runtimeRef = or_else (cr_runtimeRef record') [], ha_providerState = or_else (cr_providerState record') []\<rparr>)))"

definition assertStatus :: "container_record \<Rightarrow> container_status list \<Rightarrow> string \<Rightarrow> ('w, unit) caction" where
  "assertStatus record' allowed verb =
     (if cr_status record' \<in> set allowed then act_return () else act_throw (ContainerError StateCode (WrongStatus verb (cr_status record'))))"

definition command_status :: "lifecycle_request \<Rightarrow> container_status \<Rightarrow> string \<Rightarrow> set_status" where
  "command_status req st op = (internal_status (lr_containerId req) st)
     \<lparr>ss_actorId := lr_actorId req, ss_operation := Some op, ss_expectedVersion := Some (lr_expectedVersion req),
      ss_clientMutationId := Some (lr_clientMutationId req)\<rparr>"

definition start_container :: "'w env \<Rightarrow> provider_registry \<Rightarrow> lifecycle_request \<Rightarrow> ('w, unit) caction" where
  "start_container env reg req =
     act_bind (resolveRuntime env reg (lr_containerId req) False) (\<lambda>(record', p, h).
     act_bind (assertStatus record' [Stopped] ''start'') (\<lambda>_.
     act_bind (ask (PStart (de_id (pv_descriptor p)) h) (\<lambda>_. ADone) (en_start env (de_id (pv_descriptor p)) h)) (\<lambda>_.
     write_status env ((command_status req Running ''containers.start'') \<lparr>ss_runtimeRef := cr_runtimeRef record'\<rparr>))))"

definition stop_container :: "'w env \<Rightarrow> provider_registry \<Rightarrow> lifecycle_request \<Rightarrow> ('w, unit) caction" where
  "stop_container env reg req =
     act_bind (resolveRuntime env reg (lr_containerId req) False) (\<lambda>(record', p, h).
     act_bind (assertStatus record' [Running, Paused] ''stop'') (\<lambda>_.
     act_bind (write_status env (command_status req Stopping ''containers.stop'')) (\<lambda>_.
     act_bind (ask (PStop (de_id (pv_descriptor p)) h (or_else (lr_timeoutMs req) 30000)) (\<lambda>_. ADone)
        (en_stop env (de_id (pv_descriptor p)) h (or_else (lr_timeoutMs req) 30000))) (\<lambda>_.
     write_status env (internal_status (lr_containerId req) Stopped)))))"

definition pause_container :: "'w env \<Rightarrow> provider_registry \<Rightarrow> lifecycle_request \<Rightarrow> ('w, unit) caction" where
  "pause_container env reg req =
     act_bind (resolveRuntime env reg (lr_containerId req) False) (\<lambda>(record', p, h).
     act_bind (assertStatus record' [Running] ''pause'') (\<lambda>_.
     if \<not> pv_canPause p then act_throw (ContainerError NoProvider (CannotPause (cr_provider record')))
     else act_bind (ask (PPause (de_id (pv_descriptor p)) h) (\<lambda>_. ADone) (en_pause env (de_id (pv_descriptor p)) h)) (\<lambda>_.
       write_status env (command_status req Paused ''containers.pause''))))"

definition resume_container :: "'w env \<Rightarrow> provider_registry \<Rightarrow> lifecycle_request \<Rightarrow> ('w, unit) caction" where
  "resume_container env reg req =
     act_bind (resolveRuntime env reg (lr_containerId req) False) (\<lambda>(record', p, h).
     act_bind (assertStatus record' [Paused] ''resume'') (\<lambda>_.
     if \<not> pv_canResume p then act_throw (ContainerError NoProvider (CannotResume (cr_provider record')))
     else act_bind (ask (PResume (de_id (pv_descriptor p)) h) (\<lambda>_. ADone) (en_resume env (de_id (pv_descriptor p)) h)) (\<lambda>_.
       write_status env (command_status req Running ''containers.resume''))))"

text \<open>The handle is an object, so the guard on it always holds.\<close>

definition destroy_container :: "'w env \<Rightarrow> provider_registry \<Rightarrow> lifecycle_request \<Rightarrow> ('w, unit) caction" where
  "destroy_container env reg req =
     act_bind (resolveRuntime env reg (lr_containerId req) True) (\<lambda>(record', p, h).
     if cr_status record' = Destroyed then act_return ()
     else act_bind (write_status env (command_status req Destroying ''containers.destroy'')) (\<lambda>_.
       act_bind (destroy_runtime env (de_id (pv_descriptor p)) h) (\<lambda>_.
       write_status env (internal_status (lr_containerId req) Destroyed))))"

text \<open>A probe that throws is a probe that failed; the descriptor is reported with what was measured.\<close>

fun probe_each :: "'w env \<Rightarrow> int \<Rightarrow> provider list \<Rightarrow> (thrown \<Rightarrow> string) \<Rightarrow> ('w, descriptor list) caction" where
  "probe_each env t [] describe = act_return []"
| "probe_each env t (p # ps) describe =
     (let d = pv_descriptor p in
      act_bind (if pv_canProbe p then act_bind (attempt (ask (PProbe (de_id d)) AProbe (en_probe env (de_id d)))) (\<lambda>q. act_return (case q of
          Inr (good, detail) \<Rightarrow> d\<lparr>de_probe := \<lparr>pb_ok = good, pb_detail = detail, pb_measuredAt = t\<rparr>\<rparr>
        | Inl e \<Rightarrow> d\<lparr>de_probe := \<lparr>pb_ok = False, pb_detail = describe e, pb_measuredAt = t\<rparr>\<rparr>))
      else act_return d) (\<lambda>d'.
      act_bind (probe_each env t ps describe) (\<lambda>ds. act_return (d' # ds))))"

definition probeAll :: "'w env \<Rightarrow> provider_registry \<Rightarrow> (thrown \<Rightarrow> string) \<Rightarrow> ('w, descriptor list) caction" where
  "probeAll env reg describe = act_bind (clock env) (\<lambda>t. probe_each env t (list_providers reg) describe)"

end
