(* ===== verification/ContainerReconcile.thy ===== *)
theory ContainerReconcile
  imports ContainerService
begin

text \<open>
  Reconciliation of the records with what the providers report, and the sweep of containers that are
  due (\<open>ContainerService.ts\<close>). The report is what the code pushes onto it, in order.
\<close>

definition PROVISIONING_GRACE_MS :: int where "PROVISIONING_GRACE_MS = 15 * 60 * 1000"

definition TM8_CONTAINER_LABEL :: string where "TM8_CONTAINER_LABEL = ''tm8.container''"

datatype repair_kind =
    DestroyedRuntime
  | FailedLost
  | FailedStuck
  | AdoptedOrphan
  | DestroyedOrphan
  | Swept sweep_reason sweep_action

type_synonym repair = "string \<times> repair_kind"

record reconcile_failure =
  rf_containerId :: "string option"
  rf_providerId :: "string option"
  rf_error :: thrown

record reconcile_report =
  rr_nodeId :: string
  rr_repairs :: "repair list"
  rr_orphans :: "string list"
  rr_quarantined :: "string list"
  rr_failures :: "reconcile_failure list"

definition empty_report :: "string \<Rightarrow> reconcile_report" where
  "empty_report nodeId = \<lparr>rr_nodeId = nodeId, rr_repairs = [], rr_orphans = [], rr_quarantined = [], rr_failures = []\<rparr>"

definition push_repair :: "repair \<Rightarrow> reconcile_report \<Rightarrow> reconcile_report" where
  "push_repair r rep = rep\<lparr>rr_repairs := rr_repairs rep @ [r]\<rparr>"

definition push_failure :: "string option \<Rightarrow> string option \<Rightarrow> thrown \<Rightarrow> reconcile_report \<Rightarrow> reconcile_report" where
  "push_failure cid pid e rep = rep\<lparr>rr_failures := rr_failures rep @ [\<lparr>rf_containerId = cid, rf_providerId = pid, rf_error = e\<rparr>]\<rparr>"

definition push_orphan :: "string \<Rightarrow> reconcile_report \<Rightarrow> reconcile_report" where
  "push_orphan ref rep = rep\<lparr>rr_orphans := rr_orphans rep @ [ref]\<rparr>"

definition push_quarantined :: "string \<Rightarrow> reconcile_report \<Rightarrow> reconcile_report" where
  "push_quarantined ref rep = rep\<lparr>rr_quarantined := rr_quarantined rep @ [ref]\<rparr>"

text \<open>The runtimes by their reference, each with the provider that listed it.\<close>

type_synonym live_runtimes = "(string \<times> (listing \<times> string)) list"

definition byRuntimeRef :: "node_row list \<Rightarrow> string list" where
  "byRuntimeRef rows = List.map_filter (\<lambda>row. if falsy_ref (nr_runtimeRef row) then None else nr_runtimeRef row) rows"

definition add_listings :: "string \<Rightarrow> listing list \<Rightarrow> live_runtimes \<Rightarrow> live_runtimes" where
  "add_listings pid ls live = foldl (\<lambda>lv l. AList.update (li_runtimeRef l) (l, pid) lv) live ls"

fun list_runtimes :: "'w env \<Rightarrow> provider list \<Rightarrow> live_runtimes \<Rightarrow> reconcile_report \<Rightarrow> ('w, live_runtimes \<times> reconcile_report) caction" where
  "list_runtimes env [] live rep = act_return (live, rep)"
| "list_runtimes env (p # ps) live rep =
     (let pid = de_id (pv_descriptor p) in
      act_bind (attempt (ask (PList pid) AListings (en_list env pid))) (\<lambda>got. case got of
        Inl e \<Rightarrow> list_runtimes env ps live (push_failure None (Some pid) e rep)
      | Inr ls \<Rightarrow> list_runtimes env ps (add_listings pid ls live) rep))"

definition olderThanGrace :: "'w env \<Rightarrow> service_config \<Rightarrow> string option \<Rightarrow> ('w, bool) caction" where
  "olderThanGrace env cfg changedAt =
     (if falsy_ref changedAt then act_return False
      else case sc_parseDate cfg (the changedAt) of
        None \<Rightarrow> act_return False
      | Some changed \<Rightarrow> act_bind (clock env) (\<lambda>t. act_return (t - changed > PROVISIONING_GRACE_MS)))"

definition bare_handle :: "string \<Rightarrow> runtime_handle" where
  "bare_handle ref = \<lparr>ha_runtimeRef = ref, ha_providerState = []\<rparr>"

definition runtime_of :: "live_runtimes \<Rightarrow> node_row \<Rightarrow> (listing \<times> string) option" where
  "runtime_of live row = (if falsy_ref (nr_runtimeRef row) then None else map_of live (the (nr_runtimeRef row)))"

definition fail_row :: "'w env \<Rightarrow> node_row \<Rightarrow> status_note \<Rightarrow> ('w, unit) caction" where
  "fail_row env row note = write_status env ((internal_status (nr_containerEntityId row) FailedStatus) \<lparr>ss_error := Some note\<rparr>)"

text \<open>One record against its runtime.\<close>

definition repair_row :: "'w env \<Rightarrow> service_config \<Rightarrow> live_runtimes \<Rightarrow> node_row \<Rightarrow> ('w, repair_kind option) caction" where
  "repair_row env cfg live row =
     (case runtime_of live row of
        Some (l, pid) \<Rightarrow>
          if nr_deleted row \<or> nr_status row = Destroyed then
            act_bind (destroy_runtime env pid (bare_handle (the (nr_runtimeRef row)))) (\<lambda>_. act_return (Some DestroyedRuntime))
          else if nr_status row = Provisioning then
            act_bind (olderThanGrace env cfg (nr_statusChangedAt row)) (\<lambda>old.
              if old then act_bind (fail_row env row StuckNote) (\<lambda>_.
                act_bind (destroy_runtime env pid (bare_handle (the (nr_runtimeRef row)))) (\<lambda>_. act_return (Some FailedStuck)))
              else act_return None)
          else act_return None
      | None \<Rightarrow>
          if nr_status row = Running \<or> nr_status row = Paused then
            act_bind (fail_row env row RuntimeGoneNote) (\<lambda>_. act_return (Some FailedLost))
          else if nr_status row = Provisioning then
            act_bind (olderThanGrace env cfg (nr_statusChangedAt row)) (\<lambda>old.
              if old then act_bind (fail_row env row StuckNote) (\<lambda>_. act_return (Some FailedStuck)) else act_return None)
          else act_return None)"

fun repair_rows :: "'w env \<Rightarrow> service_config \<Rightarrow> live_runtimes \<Rightarrow> node_row list \<Rightarrow> reconcile_report \<Rightarrow> ('w, reconcile_report) caction" where
  "repair_rows env cfg live [] rep = act_return rep"
| "repair_rows env cfg live (row # rows) rep =
     act_bind (attempt (repair_row env cfg live row)) (\<lambda>done'. repair_rows env cfg live rows (case done' of
         Inl e \<Rightarrow> push_failure (Some (nr_containerEntityId row)) None e rep
       | Inr None \<Rightarrow> rep
       | Inr (Some k) \<Rightarrow> push_repair (nr_containerEntityId row, k) rep))"

definition adopt_row :: "'w env \<Rightarrow> node_row \<Rightarrow> string \<Rightarrow> ('w, unit) caction" where
  "adopt_row env row ref = write_status env ((internal_status (nr_containerEntityId row) Provisioning) \<lparr>ss_runtimeRef := Some ref\<rparr>)"

text \<open>One runtime no record names: not ours, a record's own, or an orphan.\<close>

definition place_runtime :: "'w env \<Rightarrow> node_row list \<Rightarrow> string \<Rightarrow> listing \<Rightarrow> string \<Rightarrow> reconcile_report \<Rightarrow> ('w, reconcile_report) caction" where
  "place_runtime env rows ref l pid rep =
     (case map_of (li_labels l) TM8_CONTAINER_LABEL of
        None \<Rightarrow> act_return (push_quarantined ref rep)
      | Some cid \<Rightarrow>
          if cid = [] then act_return (push_quarantined ref rep)
          else case find (\<lambda>row. nr_containerEntityId row = cid) rows of
            Some row \<Rightarrow> act_bind (attempt (adopt_row env row ref)) (\<lambda>q. act_return (case q of
                Inr _ \<Rightarrow> push_repair (nr_containerEntityId row, AdoptedOrphan) (push_orphan ref rep)
              | Inl e \<Rightarrow> push_failure (Some (nr_containerEntityId row)) None e rep))
          | None \<Rightarrow> act_bind (attempt (destroy_runtime env pid (bare_handle ref))) (\<lambda>q. act_return (case q of
                Inr _ \<Rightarrow> push_repair (cid, DestroyedOrphan) (push_orphan ref rep)
              | Inl e \<Rightarrow> push_failure (Some cid) None e rep)))"

fun place_runtimes :: "'w env \<Rightarrow> node_row list \<Rightarrow> live_runtimes \<Rightarrow> reconcile_report \<Rightarrow> ('w, reconcile_report) caction" where
  "place_runtimes env rows [] rep = act_return rep"
| "place_runtimes env rows ((ref, l, pid) # live) rep =
     (if ref \<in> set (byRuntimeRef rows) then place_runtimes env rows live rep
      else act_bind (place_runtime env rows ref l pid rep) (\<lambda>rep'. place_runtimes env rows live rep'))"

definition reconcile :: "'w env \<Rightarrow> service_config \<Rightarrow> provider_registry \<Rightarrow> ('w, reconcile_report) caction" where
  "reconcile env cfg reg =
     act_bind (attempt (ask (NodeContainers (sc_nodeId cfg)) ARows (en_nodeContainers env (sc_nodeId cfg)))) (\<lambda>got. case got of
       Inl e \<Rightarrow> act_return (push_failure None None e (empty_report (sc_nodeId cfg)))
     | Inr rows \<Rightarrow>
         act_bind (list_runtimes env (list_providers reg) [] (empty_report (sc_nodeId cfg))) (\<lambda>(live, rep).
         act_bind (repair_rows env cfg live rows rep) (\<lambda>rep'.
         place_runtimes env rows live rep')))"

subsection \<open>The sweep\<close>

definition sweep_row_action :: "'w env \<Rightarrow> provider_registry \<Rightarrow> sweep_row \<Rightarrow> ('w, bool) caction" where
  "sweep_row_action env reg row =
     (let cid = sw_containerEntityId row in
      act_bind (resolveRuntime env reg cid False) (\<lambda>(record', p, h).
      let pid = de_id (pv_descriptor p) in
      case sw_action row of
        SweepStop \<Rightarrow>
          act_bind (write_status env (internal_status cid Stopping)) (\<lambda>_.
          act_bind (ask (PStop pid h 30000) (\<lambda>_. ADone) (en_stop env pid h 30000)) (\<lambda>_.
          act_bind (write_status env (internal_status cid Stopped)) (\<lambda>_. act_return True)))
      | SweepDestroy \<Rightarrow>
          act_bind (write_status env (internal_status cid Destroying)) (\<lambda>_.
          act_bind (destroy_runtime env pid h) (\<lambda>_.
          act_bind (write_status env (internal_status cid Destroyed)) (\<lambda>_. act_return True)))
      | SweepPause \<Rightarrow>
          if pv_canPause p then
            act_bind (ask (PPause pid h) (\<lambda>_. ADone) (en_pause env pid h)) (\<lambda>_.
            act_bind (write_status env (internal_status cid Paused)) (\<lambda>_. act_return True))
          else act_return False))"

fun sweep_rows :: "'w env \<Rightarrow> provider_registry \<Rightarrow> sweep_row list \<Rightarrow> repair list \<Rightarrow> ('w, repair list) caction" where
  "sweep_rows env reg [] acc = act_return acc"
| "sweep_rows env reg (row # rows) acc =
     act_bind (attempt (sweep_row_action env reg row)) (\<lambda>q. sweep_rows env reg rows (case q of
         Inr True \<Rightarrow> acc @ [(sw_containerEntityId row, Swept (sw_reason row) (sw_action row))]
       | _ \<Rightarrow> acc))"

definition sweep :: "'w env \<Rightarrow> service_config \<Rightarrow> provider_registry \<Rightarrow> ('w, repair list) caction" where
  "sweep env cfg reg =
     act_bind (attempt (act_bind (clock env) (\<lambda>t. ask (SweepContainers (sc_nodeId cfg) t) ASweep (en_sweepContainers env (sc_nodeId cfg) t)))) (\<lambda>got. case got of
       Inl e \<Rightarrow> act_return []
     | Inr due \<Rightarrow> sweep_rows env reg due [])"

subsection \<open>What reconciliation does\<close>

lemma list_runtimes_run:
  assumes "list_runtimes env ps live rep s = (r, s')"
  shows "\<exists>live' rep' ts. r = Returned (live', rep') \<and> wo_trace s' = wo_trace s @ ts
     \<and> list_all (\<lambda>(c, a). case c of PList _ \<Rightarrow> True | _ \<Rightarrow> False) ts \<and> rr_quarantined rep' = rr_quarantined rep
     \<and> (distinct (map fst live) \<longrightarrow> distinct (map fst live'))
     \<and> (\<forall>ref l pid. (ref, l, pid) \<in> set live' \<longrightarrow> (ref, l, pid) \<in> set live
          \<or> (\<exists>ls. (PList pid, AListings ls) \<in> set ts \<and> l \<in> set ls \<and> li_runtimeRef l = ref))"
  using assms
proof (induction ps arbitrary: live rep s)
  case Nil
  then show ?case by (auto simp: act_return_def)
next
  case (Cons p ps)
  let ?pid = "de_id (pv_descriptor p)"
  let ?m = "ask (PList ?pid) AListings (en_list env ?pid)"
  obtain x t where x: "attempt ?m s = (Returned x, t)"
      "(case x of Inl e \<Rightarrow> list_runtimes env ps live (push_failure None (Some ?pid) e rep)
         | Inr ls \<Rightarrow> list_runtimes env ps (add_listings ?pid ls live) rep) t = (r, s')"
    using Cons.prems by (auto simp: Let_def dest!: bind_returned [OF _ attempt_never_throws [OF ask_settles]])
  from x(1) ask_settles show ?case
  proof (rule attempt_cases)
    fix e assume "?m s = (Threw e, t)" "Returned x = Returned (Inl e)"
    then have k: "list_runtimes env ps live (push_failure None (Some ?pid) e rep) t = (r, s')"
        "wo_trace t = wo_trace s @ [(PList ?pid, AFailed e)]" using x(2) by (auto elim: ask_cases)
    from Cons.IH [OF k(1)] k(2) show ?thesis
      by (auto simp: push_failure_def)
  next
    fix ls assume "?m s = (Returned ls, t)" "Returned x = Returned (Inr ls)"
    then have k: "list_runtimes env ps (add_listings ?pid ls live) rep t = (r, s')"
        "wo_trace t = wo_trace s @ [(PList ?pid, AListings ls)]" using x(2) by (auto elim: ask_cases)
    have added: "distinct (map fst lv) \<longrightarrow> distinct (map fst (add_listings ?pid ls' lv))"
        "(ref, l, pid) \<in> set (add_listings ?pid ls' lv) \<Longrightarrow> (ref, l, pid) \<in> set lv \<or> (l \<in> set ls' \<and> li_runtimeRef l = ref \<and> pid = ?pid)"
      for lv ls' ref l pid
      unfolding add_listings_def
      by (induction ls' arbitrary: lv) (auto simp: distinct_update dest!: set_mp [OF set_update_sub])
    from Cons.IH [OF k(1)] obtain live' rep' ts where ih: "r = Returned (live', rep')" "wo_trace s' = wo_trace t @ ts"
        "list_all (\<lambda>(c, a). case c of PList _ \<Rightarrow> True | _ \<Rightarrow> False) ts" "rr_quarantined rep' = rr_quarantined rep"
        "distinct (map fst (add_listings ?pid ls live)) \<longrightarrow> distinct (map fst live')"
        "\<forall>ref l pid. (ref, l, pid) \<in> set live' \<longrightarrow> (ref, l, pid) \<in> set (add_listings ?pid ls live)
          \<or> (\<exists>ls. (PList pid, AListings ls) \<in> set ts \<and> l \<in> set ls \<and> li_runtimeRef l = ref)" by blast
    show ?thesis
      by (rule exI [of _ live'], rule exI [of _ rep'], rule exI [of _ "(PList ?pid, AListings ls) # ts"])
        (use ih k(2) added in \<open>auto; blast\<close>)
  qed
qed

text \<open>What repairing the records may call.\<close>

fun row_event :: "node_row list \<Rightarrow> live_runtimes \<Rightarrow> event \<Rightarrow> bool" where
  "row_event rows live (c, a) = (case c of
     PDestroy pid h \<Rightarrow> (\<exists>row \<in> set rows. \<exists>l. runtime_of live row = Some (l, pid) \<and> h = bare_handle (the (nr_runtimeRef row))
       \<and> (nr_deleted row \<or> nr_status row \<in> {Destroyed, Provisioning}))
   | SetStatus w \<Rightarrow> ss_status w = FailedStatus \<and> ss_runtimeRef w = None
       \<and> (\<exists>row \<in> set rows. ss_containerId w = nr_containerEntityId row \<and> nr_status row \<in> {Running, Paused, Provisioning})
   | Now \<Rightarrow> True
   | _ \<Rightarrow> False)"

lemma emits_option [effect_intros]:
  "(q = None \<Longrightarrow> emits P f) \<Longrightarrow> (\<And>x. q = Some x \<Longrightarrow> emits P (g x)) \<Longrightarrow> emits P (case q of None \<Rightarrow> f | Some x \<Rightarrow> g x)"
  by (cases q) auto

lemma emits_sum [effect_intros]:
  "(\<And>x. q = Inl x \<Longrightarrow> emits P (f x)) \<Longrightarrow> (\<And>x. q = Inr x \<Longrightarrow> emits P (g x)) \<Longrightarrow> emits P (case q of Inl x \<Rightarrow> f x | Inr x \<Rightarrow> g x)"
  by (cases q) auto

lemma emits_pair [effect_intros]: "(\<And>x y. q = (x, y) \<Longrightarrow> emits P (f x y)) \<Longrightarrow> emits P (case q of (x, y) \<Rightarrow> f x y)"
  by (cases q) auto

lemma old_emits: "emits (row_event rows live) (olderThanGrace env cfg changedAt)"
  unfolding olderThanGrace_def clock_def by (intro effect_intros) simp_all

lemma repair_row_emits: "row \<in> set rows \<Longrightarrow> emits (row_event rows live) (repair_row env cfg live row)"
  unfolding repair_row_def fail_row_def write_status_def destroy_runtime_def
  by (intro effect_intros old_emits) (auto simp: internal_status_def)

lemma repair_rows_emits: "set rs \<subseteq> set rows \<Longrightarrow> emits (row_event rows live) (repair_rows env cfg live rs rep)"
  by (induction rs arbitrary: rep) (auto intro!: effect_intros repair_row_emits)

lemma settles_pair [effect_intros]: "(\<And>x y. settles (f x y)) \<Longrightarrow> settles (case q of (x, y) \<Rightarrow> f x y)"
  by (cases q) auto

lemma repair_row_settles: "settles (repair_row env cfg live row)"
  unfolding repair_row_def fail_row_def write_status_def destroy_runtime_def olderThanGrace_def clock_def
  by (intro effect_intros)

lemma repair_rows_run:
  "\<exists>rep'. fst (repair_rows env cfg live rows rep s) = Returned rep' \<and> rr_quarantined rep' = rr_quarantined rep"
proof (induction rows arbitrary: rep s)
  case Nil
  then show ?case by (simp add: act_return_def)
next
  case (Cons row rows)
  obtain q t where q: "attempt (repair_row env cfg live row) s = (Returned q, t)"
    using attempt_never_throws [OF repair_row_settles] unfolding never_throws_def by (metis prod.collapse)
  show ?case
    using q Cons [of "case q of Inl e \<Rightarrow> push_failure (Some (nr_containerEntityId row)) None e rep
        | Inr None \<Rightarrow> rep | Inr (Some k) \<Rightarrow> push_repair (nr_containerEntityId row, k) rep" t]
    by (auto simp: act_bind_def push_failure_def push_repair_def split: sum.splits option.splits)
qed

text \<open>What placing the runtimes may call.\<close>

definition labelled :: "listing \<Rightarrow> string option" where
  "labelled l = (case map_of (li_labels l) TM8_CONTAINER_LABEL of None \<Rightarrow> None | Some cid \<Rightarrow> if cid = [] then None else Some cid)"

fun place_event :: "node_row list \<Rightarrow> live_runtimes \<Rightarrow> event \<Rightarrow> bool" where
  "place_event rows live (c, a) = (case c of
     PDestroy pid h \<Rightarrow> (\<exists>ref l cid. (ref, l, pid) \<in> set live \<and> ref \<notin> set (byRuntimeRef rows) \<and> h = bare_handle ref
       \<and> labelled l = Some cid \<and> (\<forall>row \<in> set rows. nr_containerEntityId row \<noteq> cid))
   | SetStatus w \<Rightarrow> ss_status w = Provisioning \<and> (\<exists>ref l pid cid. (ref, l, pid) \<in> set live \<and> ref \<notin> set (byRuntimeRef rows)
       \<and> labelled l = Some cid \<and> cid \<in> nr_containerEntityId ` set rows \<and> ss_containerId w = cid \<and> ss_runtimeRef w = Some ref)
   | _ \<Rightarrow> False)"

lemma find_row: "find P xs = Some x \<Longrightarrow> x \<in> set xs \<and> P x"
  by (induction xs) (auto split: if_splits)

lemma find_no_row: "find P xs = None \<Longrightarrow> x \<in> set xs \<Longrightarrow> \<not> P x"
  by (induction xs) (auto split: if_splits)

lemma place_runtime_emits:
  assumes "(ref, l, pid) \<in> set live" "ref \<notin> set (byRuntimeRef rows)"
  shows "emits (place_event rows live) (place_runtime env rows ref l pid rep)"
proof (cases "labelled l")
  case None
  then show ?thesis
    by (auto simp: place_runtime_def labelled_def intro!: effect_intros split: option.splits if_splits)
next
  case (Some cid)
  then have l: "map_of (li_labels l) TM8_CONTAINER_LABEL = Some cid" "cid \<noteq> []"
    by (auto simp: labelled_def split: option.splits if_splits)
  have d: "place_event rows live (PDestroy pid (bare_handle ref), a)" if "find (\<lambda>row. nr_containerEntityId row = cid) rows = None" for a
    using assms Some find_no_row [OF that] by auto
  have w: "place_event rows live (SetStatus ((internal_status (nr_containerEntityId row) Provisioning) \<lparr>ss_runtimeRef := Some ref\<rparr>), a)"
    if "find (\<lambda>row. nr_containerEntityId row = cid) rows = Some row" for row a
    using assms Some find_row [OF that] by (force simp: internal_status_def)
  show ?thesis
    unfolding place_runtime_def l option.case adopt_row_def write_status_def destroy_runtime_def
    by (intro effect_intros d w) simp_all
qed

lemma place_runtimes_emits: "set lv \<subseteq> set live \<Longrightarrow> emits (place_event rows live) (place_runtimes env rows lv rep)"
  by (induction lv arbitrary: rep) (auto intro!: effect_intros place_runtime_emits)

definition strangers :: "node_row list \<Rightarrow> live_runtimes \<Rightarrow> string list" where
  "strangers rows live = map fst (filter (\<lambda>(ref, l, pid). ref \<notin> set (byRuntimeRef rows) \<and> labelled l = None) live)"

lemma place_runtime_run:
  "\<exists>rep'. fst (place_runtime env rows ref l pid rep s) = Returned rep'
     \<and> rr_quarantined rep' = rr_quarantined rep @ (if labelled l = None then [ref] else [])"
proof -
  have st: "settles (adopt_row env row ref)" "settles (destroy_runtime env pid h)" for row h
    by (simp_all add: adopt_row_def write_status_def destroy_runtime_def)
  show ?thesis
  proof (cases "labelled l")
    case None
    then show ?thesis
      by (auto simp: place_runtime_def labelled_def act_return_def push_quarantined_def split: option.splits if_splits)
  next
    case (Some cid)
    then have l: "map_of (li_labels l) TM8_CONTAINER_LABEL = Some cid" "cid \<noteq> []"
      by (auto simp: labelled_def split: option.splits if_splits)
    show ?thesis
    proof (cases "find (\<lambda>row. nr_containerEntityId row = cid) rows")
      case None
      obtain q t where "attempt (destroy_runtime env pid (bare_handle ref)) s = (Returned q, t)"
        using attempt_never_throws [OF st(2)] unfolding never_throws_def by (metis prod.collapse)
      then show ?thesis using l None Some
        by (auto simp: place_runtime_def act_bind_def act_return_def push_repair_def push_failure_def push_orphan_def split: sum.splits)
    next
      case row: (Some row)
      obtain q t where "attempt (adopt_row env row ref) s = (Returned q, t)"
        using attempt_never_throws [OF st(1)] unfolding never_throws_def by (metis prod.collapse)
      then show ?thesis using l row Some
        by (auto simp: place_runtime_def act_bind_def act_return_def push_repair_def push_failure_def push_orphan_def split: sum.splits)
    qed
  qed
qed

lemma place_runtimes_run:
  "\<exists>rep'. fst (place_runtimes env rows live rep s) = Returned rep' \<and> rr_quarantined rep' = rr_quarantined rep @ strangers rows live"
proof (induction live arbitrary: rep s)
  case Nil
  then show ?case by (simp add: act_return_def strangers_def)
next
  case (Cons e live)
  obtain ref l pid where e: "e = (ref, l, pid)" by (cases e)
  show ?case
  proof (cases "ref \<in> set (byRuntimeRef rows)")
    case True
    with Cons e show ?thesis by (simp add: strangers_def)
  next
    case False
    obtain rep' t where p: "place_runtime env rows ref l pid rep s = (Returned rep', t)"
        "rr_quarantined rep' = rr_quarantined rep @ (if labelled l = None then [ref] else [])"
      using place_runtime_run [of env rows ref l pid rep s] by (metis prod.collapse)
    with Cons [of rep' t] e False show ?thesis by (auto simp: act_bind_def strangers_def)
  qed
qed

end
