(* ===== verification/ContainerFake.thy ===== *)
theory ContainerFake
  imports ContainerReconcile
begin

text \<open>
  The in-memory provider (\<open>providers/FakeProvider.ts\<close>) and the contract of the provider interface
  (\<open>provider.ts\<close>): runtimes carry the label of their container, and destroying is idempotent. The
  source of fresh ids is a parameter. The options that only serve tests as seeds are the initial
  runtimes.
\<close>

record fake_runtime =
  fr_runtimeRef :: string
  fr_labels :: "(string \<times> string) list"
  fr_status :: runtime_status
  fr_spec :: container_spec

datatype fake_call = FCreate | FStart | FStop | FPause | FResume | FDestroy | FInspect | FExec | FAttach | FList

record fake_provider =
  fp_runtimes :: "(string \<times> fake_runtime) list"
  fp_failOn :: "(fake_call \<times> thrown) list"
  fp_calls :: "fake_call list"

definition TM8_SPACE_LABEL :: string where "TM8_SPACE_LABEL = ''tm8.space''"

definition TM8_NODE_LABEL :: string where "TM8_NODE_LABEL = ''tm8.node''"

definition FAKE_PROVIDER_DESCRIPTOR :: descriptor where
  "FAKE_PROVIDER_DESCRIPTOR = \<lparr>de_id = ''fake'', de_isolation = Process, de_profiles = [Shell, Custom], de_surfaces = [Terminal],
     de_features = \<lparr>ft_pause = True, ft_snapshot = False, ft_fork = False, ft_expose = False, ft_nested = False, ft_gpu = False\<rparr>,
     de_limits = \<lparr>lm_maxContainers = 64, lm_maxCpus = 16, lm_maxMemMiB = 65536\<rparr>,
     de_probe = \<lparr>pb_ok = True, pb_detail = ''in-memory test provider'', pb_measuredAt = 0\<rparr>\<rparr>"

text \<open>A seeded runtime gets a locked shell's spec with its labels.\<close>

definition seeded_runtime :: "listing \<Rightarrow> fake_runtime" where
  "seeded_runtime l = \<lparr>fr_runtimeRef = li_runtimeRef l, fr_labels = li_labels l, fr_status = li_status l,
     fr_spec = \<lparr>sp_profile = Shell, sp_image = None, sp_cpus = 1, sp_memMiB = 512, sp_diskMiB = None, sp_mounts = [], sp_env = [],
       sp_ports = [], sp_network = (Locked, []), sp_surfaces = [], sp_labels = li_labels l\<rparr>\<rparr>"

definition new_fake :: "(fake_call \<times> thrown) list \<Rightarrow> listing list \<Rightarrow> fake_provider" where
  "new_fake failOn seed = \<lparr>fp_runtimes = foldl (\<lambda>al l. AList.update (li_runtimeRef l) (seeded_runtime l) al) [] seed,
     fp_failOn = failOn, fp_calls = []\<rparr>"

definition fake_instance :: "bool option \<Rightarrow> isolation option \<Rightarrow> profile list option \<Rightarrow> int \<Rightarrow> provider" where
  "fake_instance synthetic isolation profiles t =
     \<lparr>pv_descriptor = FAKE_PROVIDER_DESCRIPTOR\<lparr>de_isolation := or_else isolation (de_isolation FAKE_PROVIDER_DESCRIPTOR),
        de_profiles := or_else profiles (de_profiles FAKE_PROVIDER_DESCRIPTOR),
        de_probe := (de_probe FAKE_PROVIDER_DESCRIPTOR)\<lparr>pb_measuredAt := t\<rparr>\<rparr>,
      pv_synthetic = or_else synthetic True, pv_canPause = True, pv_canResume = True, pv_canProbe = True\<rparr>"

type_synonym 'r fake_op = "fake_provider \<Rightarrow> (thrown + 'r) \<times> fake_provider"

text \<open>\<open>this.calls.push(call)\<close>, then \<open>this.guard(call)\<close>.\<close>

definition note_call :: "fake_call \<Rightarrow> fake_provider \<Rightarrow> fake_provider" where
  "note_call c f = f\<lparr>fp_calls := fp_calls f @ [c]\<rparr>"

definition guarded :: "fake_call \<Rightarrow> 'r fake_op \<Rightarrow> 'r fake_op" where
  "guarded c m f = (case map_of (fp_failOn f) c of Some e \<Rightarrow> (Inl e, note_call c f) | None \<Rightarrow> m (note_call c f))"

definition mutate :: "runtime_handle \<Rightarrow> runtime_status \<Rightarrow> unit fake_op" where
  "mutate h st f = (case map_of (fp_runtimes f) (ha_runtimeRef h) of
     None \<Rightarrow> (Inl (ContainerError NotFound (Said ''runtime is gone'')), f)
   | Some r \<Rightarrow> (Inr (), f\<lparr>fp_runtimes := AList.update (ha_runtimeRef h) (r\<lparr>fr_status := st\<rparr>) (fp_runtimes f)\<rparr>))"

definition fake_labels :: "container_spec \<Rightarrow> provider_ctx \<Rightarrow> (string \<times> string) list" where
  "fake_labels spec ctx = AList.update TM8_NODE_LABEL (cx_nodeId ctx) (AList.update TM8_SPACE_LABEL (cx_spaceId ctx)
     (AList.update TM8_CONTAINER_LABEL (cx_containerId ctx) (sp_labels spec)))"

definition fake_create :: "(fake_provider \<Rightarrow> string) \<Rightarrow> container_spec \<Rightarrow> provider_ctx \<Rightarrow> runtime_handle fake_op" where
  "fake_create uuid spec ctx = guarded FCreate (\<lambda>f.
     let ref = ''fake://'' @ uuid f in
     (Inr \<lparr>ha_runtimeRef = ref, ha_providerState = [(''dataDir'', JStr (cx_dataDir ctx))]\<rparr>,
      f\<lparr>fp_runtimes := AList.update ref \<lparr>fr_runtimeRef = ref, fr_labels = fake_labels spec ctx, fr_status = R_created, fr_spec = spec\<rparr> (fp_runtimes f)\<rparr>))"

definition fake_start :: "runtime_handle \<Rightarrow> unit fake_op" where
  "fake_start h = guarded FStart (mutate h R_running)"

definition fake_stop :: "runtime_handle \<Rightarrow> unit fake_op" where
  "fake_stop h = guarded FStop (mutate h R_stopped)"

definition fake_pause :: "runtime_handle \<Rightarrow> unit fake_op" where
  "fake_pause h f = mutate h R_paused (note_call FPause f)"

definition fake_resume :: "runtime_handle \<Rightarrow> unit fake_op" where
  "fake_resume h f = mutate h R_running (note_call FResume f)"

definition fake_destroy :: "runtime_handle \<Rightarrow> unit fake_op" where
  "fake_destroy h = guarded FDestroy (\<lambda>f. (Inr (), f\<lparr>fp_runtimes := AList.delete (ha_runtimeRef h) (fp_runtimes f)\<rparr>))"

definition fake_inspect :: "runtime_handle \<Rightarrow> runtime_inspection fake_op" where
  "fake_inspect h = guarded FInspect (\<lambda>f. case map_of (fp_runtimes f) (ha_runtimeRef h) of
     None \<Rightarrow> (Inr \<lparr>in_status = R_gone, in_surfaces = [], in_usage = None\<rparr>, f)
   | Some r \<Rightarrow> (Inr \<lparr>in_status = fr_status r,
        in_surfaces = (if fr_status r = R_running then [\<lparr>se_kind = Terminal, se_transport = Pty, se_target = ha_runtimeRef h, se_meta = None\<rparr>] else []),
        in_usage = Some \<lparr>us_cpuPct = 0, us_memMiB = 0, us_diskMiB = 0\<rparr>\<rparr>, f))"

text \<open>The argument vector the node runs: \<open>sh -c\<close> of the joined arguments.\<close>

record exec_request =
  ex_argv :: "string list"
  ex_cwd :: "string option"
  ex_env :: "(string \<times> string) list option"
  ex_tty :: bool
  ex_cols :: "nat option"
  ex_rows :: "nat option"
  ex_user :: "string option"

record exec_launch =
  xl_argv :: "string list"
  xl_cwd :: "string option"
  xl_env :: "(string \<times> string) list option"

definition fake_exec :: "runtime_handle \<Rightarrow> exec_request \<Rightarrow> exec_launch fake_op" where
  "fake_exec h req f = (let f' = note_call FExec f in
     case map_of (fp_runtimes f') (ha_runtimeRef h) of
       None \<Rightarrow> (Inl (ContainerError NotFound (Said ''runtime is gone'')), f')
     | Some r \<Rightarrow>
         if fr_status r \<noteq> R_running then
           (Inl (ContainerError StateCode (Said (''cannot exec in a '' @ runtime_name (fr_status r) @ '' container''))), f')
         else (Inr \<lparr>xl_argv = [''sh'', ''-c'', join_with '' '' (ex_argv req)], xl_cwd = ex_cwd req, xl_env = ex_env req\<rparr>, f'))"

fun surface_name :: "surface \<Rightarrow> string" where
  "surface_name Terminal = ''terminal''"
| "surface_name Screen = ''screen''"
| "surface_name BrowserSurface = ''browser''"
| "surface_name Adb = ''adb''"
| "surface_name Docker = ''docker''"
| "surface_name Http = ''http''"

definition fake_attach :: "runtime_handle \<Rightarrow> surface \<Rightarrow> unit fake_op" where
  "fake_attach h k f = (Inl (ContainerError NoProvider (Said (''the fake provider has no '' @ surface_name k @ '' surface''))), note_call FAttach f)"

definition fake_list :: "listing list fake_op" where
  "fake_list f = (let f' = note_call FList f in
     (Inr (map (\<lambda>(_, r). \<lparr>li_runtimeRef = fr_runtimeRef r, li_labels = fr_labels r, li_status = fr_status r\<rparr>) (fp_runtimes f')), f'))"

definition fake_probe :: "(bool \<times> string) fake_op" where
  "fake_probe f = (Inr (True, ''in-memory test provider''), f)"

subsection \<open>The contract of a provider\<close>

text \<open>
  What the service relies on: a creation that returns leaves a runtime that is listed with its
  container's label, a destruction that returns leaves none with that reference, whether or not
  there was one, and neither touches another runtime.
\<close>

locale runtime_provider =
  fixes create :: "container_spec \<Rightarrow> provider_ctx \<Rightarrow> 's \<Rightarrow> (thrown + runtime_handle) \<times> 's"
    and destroy :: "runtime_handle \<Rightarrow> 's \<Rightarrow> (thrown + unit) \<times> 's"
    and label_at :: "'s \<Rightarrow> string \<Rightarrow> string option"
    and usable :: "'s \<Rightarrow> bool"
  assumes create_label: "usable s \<Longrightarrow> create spec ctx s = (Inr h, s') \<Longrightarrow> label_at s' = (label_at s)(ha_runtimeRef h \<mapsto> cx_containerId ctx)"
    and create_usable: "usable s \<Longrightarrow> create spec ctx s = (r, s') \<Longrightarrow> usable s'"
    and create_failed: "create spec ctx s = (Inl e, s') \<Longrightarrow> label_at s' = label_at s"
    and destroy_label: "destroy h s = (Inr (), s') \<Longrightarrow> label_at s' = (label_at s)(ha_runtimeRef h := None)"
    and destroy_failed: "destroy h s = (Inl e, s') \<Longrightarrow> label_at s' = label_at s"
    and destroy_usable: "usable s \<Longrightarrow> destroy h s = (q, s') \<Longrightarrow> usable s'"
begin

lemma destroy_twice:
  "destroy h s = (Inr (), s1) \<Longrightarrow> destroy h s1 = (Inr (), s2) \<Longrightarrow> label_at s2 = label_at s1"
  by (auto dest!: destroy_label)

lemma create_then_destroy:
  assumes "usable s" "create spec ctx s = (Inr h, s1)" "destroy h s1 = (Inr (), s2)"
  shows "label_at s2 = (label_at s)(ha_runtimeRef h := None)"
  using create_label [OF assms(1,2)] destroy_label [OF assms(3)] by simp

lemma found_by_label:
  assumes "usable s" "create spec ctx s = (Inr h, s1)"
  shows "ha_runtimeRef h \<in> {ref. label_at s1 ref = Some (cx_containerId ctx)}"
  using create_label [OF assms] by simp

end

definition fake_ok :: "fake_provider \<Rightarrow> bool" where
  "fake_ok f \<longleftrightarrow> distinct (map fst (fp_runtimes f)) \<and> (\<forall>(k, r) \<in> set (fp_runtimes f). fr_runtimeRef r = k)"

definition fake_label_at :: "fake_provider \<Rightarrow> string \<Rightarrow> string option" where
  "fake_label_at f ref = (case map_of (fp_runtimes f) ref of None \<Rightarrow> None | Some r \<Rightarrow> map_of (fr_labels r) TM8_CONTAINER_LABEL)"

lemma fake_labels_container: "map_of (fake_labels spec ctx) TM8_CONTAINER_LABEL = Some (cx_containerId ctx)"
  by (simp add: fake_labels_def TM8_NODE_LABEL_def TM8_SPACE_LABEL_def TM8_CONTAINER_LABEL_def)

lemma in_updateD: "x \<in> set (AList.update k v al) \<Longrightarrow> x = (k, v) \<or> x \<in> set al"
  using set_update_sub [of k v al] by blast

lemma in_deleteD: "x \<in> set (AList.delete k al) \<Longrightarrow> x \<in> set al"
  by (induction al) (auto split: if_splits)

interpretation fake: runtime_provider "fake_create uuid" fake_destroy fake_label_at fake_ok for uuid
proof
  show "fake_label_at s' = (fake_label_at s)(ha_runtimeRef h \<mapsto> cx_containerId ctx)"
    if "fake_ok s" "fake_create uuid spec ctx s = (Inr h, s')" for s spec ctx h s'
    using that(2) by (auto simp: fake_create_def guarded_def note_call_def Let_def fake_label_at_def fake_labels_container fun_eq_iff split: option.splits)
  show "fake_ok s'" if "fake_ok s" "fake_create uuid spec ctx s = (r, s')" for s spec ctx r s'
    using that by (auto simp: fake_create_def guarded_def note_call_def Let_def fake_ok_def distinct_update dest!: in_updateD split: option.splits)
  show "fake_label_at s' = fake_label_at s" if "fake_create uuid spec ctx s = (Inl e, s')" for s spec ctx e s'
    using that by (auto simp: fake_create_def guarded_def note_call_def Let_def fake_label_at_def fun_eq_iff split: option.splits)
  show "fake_label_at s' = (fake_label_at s)(ha_runtimeRef h := None)" if "fake_destroy h s = (Inr (), s')" for s h s'
    using that by (auto simp: fake_destroy_def guarded_def note_call_def fake_label_at_def fun_eq_iff split: option.splits)
  show "fake_label_at s' = fake_label_at s" if "fake_destroy h s = (Inl e, s')" for s h e s'
    using that by (auto simp: fake_destroy_def guarded_def note_call_def fake_label_at_def fun_eq_iff split: option.splits)
  show "fake_ok s'" if "fake_ok s" "fake_destroy h s = (r, s')" for s h r s'
    using that by (auto simp: fake_destroy_def guarded_def note_call_def fake_ok_def distinct_delete dest!: in_deleteD split: option.splits)
qed

end
