(* ===== verification/ContainerEdges.thy ===== *)
theory ContainerEdges
  imports ContainerReconcile
begin

text \<open>
  The status machine the database guards (\<open>db/migrations/177_container_kind.sql\<close>), and how the status
  writes of the service fit it.
\<close>

definition container_transition_allowed :: "container_status \<Rightarrow> container_status \<Rightarrow> bool" where
  "container_transition_allowed from_st to_st =
     (if from_st = Destroyed then False
      else if to_st = Destroying then True
      else if to_st = FailedStatus \<and> from_st \<noteq> FailedStatus then True
      else (from_st, to_st) \<in> set [(Requested, Provisioning), (Provisioning, Running), (Running, Paused), (Running, Stopping),
        (Paused, Running), (Paused, Stopping), (Stopping, Stopped), (Stopped, Running), (Destroying, Destroyed)])"

text \<open>The guard of the status door: writing the status that is there is no transition.\<close>

definition write_allowed :: "container_status \<Rightarrow> container_status \<Rightarrow> bool" where
  "write_allowed from_st to_st \<longleftrightarrow> from_st = to_st \<or> container_transition_allowed from_st to_st"

fun legal_path :: "container_status \<Rightarrow> container_status list \<Rightarrow> bool" where
  "legal_path st [] = True"
| "legal_path st (x # xs) = (write_allowed st x \<and> legal_path x xs)"

datatype verb = VStart | VStop | VPause | VResume | VDestroy

fun run_verb :: "'w env \<Rightarrow> provider_registry \<Rightarrow> verb \<Rightarrow> lifecycle_request \<Rightarrow> ('w, unit) caction" where
  "run_verb env reg VStart req = start_container env reg req"
| "run_verb env reg VStop req = stop_container env reg req"
| "run_verb env reg VPause req = pause_container env reg req"
| "run_verb env reg VResume req = resume_container env reg req"
| "run_verb env reg VDestroy req = destroy_container env reg req"

lemmas edge_simps = write_allowed_def container_transition_allowed_def

lemma resolve_cases:
  assumes "resolveRuntime env reg cid allow s = (r, s')"
  obtains (found) rec p h where "r = Returned (rec, p, h)" "get_provider reg (cr_provider rec) = Some p"
      "wo_trace s' = wo_trace s @ [(LoadContainer cid, ARecord (Some rec))]"
      "ha_runtimeRef h = or_else (cr_runtimeRef rec) []"
    | (refused) e a where "r = Threw e" "wo_trace s' = wo_trace s @ [(LoadContainer cid, a)]"
  using assms unfolding resolveRuntime_def
  by (auto simp: act_return_def act_throw_def elim!: bind_cases ask_cases split: option.splits if_splits)

lemma assert_cases:
  assumes "assertStatus rec allowed verb s = (r, s')"
  obtains (ok) "r = Returned ()" "s' = s" "cr_status rec \<in> set allowed"
    | (wrong) "r = Threw (ContainerError StateCode (WrongStatus verb (cr_status rec)))" "s' = s"
  using assms by (auto simp: assertStatus_def act_return_def act_throw_def split: if_splits)

text \<open>The events of a verb: the record is loaded first, then statuses are written along the machine.\<close>

definition verb_trace :: "event list \<Rightarrow> bool" where
  "verb_trace ts = (case ts of
     (LoadContainer _, ARecord (Some rec)) # rest \<Rightarrow> legal_path (cr_status rec) (statuses rest)
   | _ \<Rightarrow> statuses ts = [])"

lemma verb_trace_simps [simp]:
  "verb_trace ((LoadContainer c, ARecord (Some rec)) # rest) \<longleftrightarrow> legal_path (cr_status rec) (statuses rest)"
  "verb_trace [(LoadContainer c, a)]"
  by (auto simp: verb_trace_def deeds_simps split: answer.splits option.splits)

lemmas write_defs = write_status_def destroy_runtime_def command_status_def internal_status_def

lemma verb_legal:
  assumes "run_verb env reg v req s = (r, s')"
  shows "adds s s' verb_trace"
proof (cases v)
  case VStart
  with assms have "start_container env reg req s = (r, s')" by simp
  then show ?thesis unfolding start_container_def
    by (auto simp: write_defs adds_def deeds_simps edge_simps elim!: bind_cases resolve_cases assert_cases ask_cases)
next
  case VStop
  with assms have "stop_container env reg req s = (r, s')" by simp
  then show ?thesis unfolding stop_container_def
    by (auto simp: write_defs adds_def deeds_simps edge_simps elim!: bind_cases resolve_cases assert_cases ask_cases)
next
  case VPause
  with assms have "pause_container env reg req s = (r, s')" by simp
  then show ?thesis unfolding pause_container_def
    by (auto simp: write_defs adds_def deeds_simps edge_simps act_throw_def elim!: bind_cases resolve_cases assert_cases ask_cases split: if_splits)
next
  case VResume
  with assms have "resume_container env reg req s = (r, s')" by simp
  then show ?thesis unfolding resume_container_def
    by (auto simp: write_defs adds_def deeds_simps edge_simps act_throw_def elim!: bind_cases resolve_cases assert_cases ask_cases split: if_splits)
next
  case VDestroy
  with assms have "destroy_container env reg req s = (r, s')" by simp
  then show ?thesis unfolding destroy_container_def
    by (auto simp: write_defs adds_def deeds_simps edge_simps act_return_def elim!: bind_cases resolve_cases ask_cases split: if_splits)
qed

end
