(* ===== verification/ContainerTheorems.thy ===== *)
theory ContainerTheorems
  imports ContainerFake ContainerEdges
begin

text \<open>
  The properties of the container service: what a creation may do, that it ends and leaves nothing
  behind, what reconciliation touches, and that the statuses written fit the machine of the database.
\<close>

subsection \<open>Creation and the policy\<close>

fun of_input :: "provision_input \<Rightarrow> event \<Rightarrow> bool" where
  "of_input i (c, a) = (case c of
     PCreate pid spec ctx \<Rightarrow> pid = pi_provider i \<and> spec = ci_spec (pi_create i)
   | PStart pid h \<Rightarrow> pid = pi_provider i
   | CreateEntity ci \<Rightarrow> ci = pi_create i
   | _ \<Rightarrow> True)"

lemma wait_poll_of_input: "emits (of_input i) (wait_poll env pid h budget deadline n)"
  by (induction n) (auto intro!: effect_intros simp: clock_def pause_ms_def)

lemma provision_of_input: "emits (of_input i) (provisionContainer env i n)"
  unfolding provisionContainer_def create_runtime_def with_node_lock_def bring_up_def compensate_def
    write_status_def destroy_runtime_def Let_def waitForSurfaces_def clock_def
  by (intro effect_intros wait_poll_of_input) simp_all

definition fit_for :: "service_config \<Rightarrow> create_request \<Rightarrow> provider \<Rightarrow> bool" where
  "fit_for cfg req p \<longleftrightarrow> serves p (rq_profile req) \<and> strong_enough (policy_of cfg req) p"

fun placed_well :: "service_config \<Rightarrow> create_request \<Rightarrow> provider list \<Rightarrow> event \<Rightarrow> bool" where
  "placed_well cfg req ps (c, a) = (case c of
     PCreate pid spec ctx \<Rightarrow> sp_profile spec = rq_profile req \<and> (\<exists>p \<in> set ps. de_id (pv_descriptor p) = pid \<and> fit_for cfg req p)
   | PStart pid h \<Rightarrow> \<exists>p \<in> set ps. de_id (pv_descriptor p) = pid \<and> fit_for cfg req p
   | CreateEntity ci \<Rightarrow> ci_cap ci = sc_cap cfg \<and> (\<exists>p \<in> set ps. de_id (pv_descriptor p) = ci_provider ci
       \<and> de_isolation (pv_descriptor p) = ci_isolation ci \<and> fit_for cfg req p)
   | _ \<Rightarrow> True)"

lemma listed_in_new: "p \<in> set (list_providers (new_provider_registry ps)) \<Longrightarrow> p \<in> set ps"
proof -
  have "p \<in> snd ` set (foldl (\<lambda>reg p. register_provider p reg) reg ps) \<Longrightarrow> p \<in> set ps \<or> p \<in> snd ` set reg" for reg
  proof (induction ps arbitrary: reg)
    case (Cons q ps)
    from Cons.IH [of "register_provider q reg"] Cons.prems show ?case
      by (fastforce simp: register_provider_def dest!: in_updateD)
  qed simp
  from this [of "[]"] show "p \<in> set (list_providers (new_provider_registry ps)) \<Longrightarrow> p \<in> set ps"
    by (auto simp: list_providers_def new_provider_registry_def)
qed

lemma request_cases:
  assumes "provision_request cfg (new_provider_registry ps) req = Inr i"
  shows "\<exists>p \<in> set ps. pi_provider i = de_id (pv_descriptor p) \<and> pi_create i = create_input_for cfg req p \<and> fit_for cfg req p
     \<and> pi_startTimeoutMs i = startBudgetFor cfg (rq_profile req)"
proof -
  from assms obtain p where p: "select_provider (new_provider_registry ps) (rq_profile req) (rq_provider req) (Some (policy_of cfg req)) = Inr p"
    and i: "pi_provider i = de_id (pv_descriptor p)" "pi_create i = create_input_for cfg req p" "pi_startTimeoutMs i = startBudgetFor cfg (rq_profile req)"
    by (auto simp: provision_request_def split: if_splits sum.splits)
  from selected_is_fit [OF p providers_ok_new] have "p \<in> set ps" "fit_for cfg req p"
    by (auto simp: fit_for_def dest: listed_in_new)
  with i show ?thesis by blast
qed

lemma resolved_profile: "sp_profile (resolveSpec req) = rq_profile req"
  by (cases "PROFILE_DEFAULTS (rq_profile req)") (simp add: resolveSpec_def Let_def)

lemma of_input_placed:
  assumes "provision_request cfg (new_provider_registry ps) req = Inr i" "of_input i e"
  shows "placed_well cfg req ps e"
proof -
  obtain c a where e: "e = (c, a)" by (cases e)
  from request_cases [OF assms(1)] assms(2) show ?thesis
    unfolding e by (auto simp: create_input_for_def resolved_profile split: call.splits)
qed

text \<open>
  C36: Whatever providers a node has and whatever a caller asks, a container is reserved, created and
  started only on a provider that serves its profile and isolates at least as strongly as the policy
  demands (or runs nothing at all, being synthetic), the record names that provider and its
  isolation, and the cap travels with it. For an untrusted project that was not confirmed nothing
  is called at all.
\<close>

theorem create_respects_policy:
  "case create_container env cfg (new_provider_registry ps) req n s of (r, s') \<Rightarrow>
     \<exists>ts. wo_trace s' = wo_trace s @ ts \<and>
       (if rq_projectTrust req = Some Untrusted \<and> \<not> rq_confirmUntrusted req
        then r = Threw (ContainerError Forbidden UntrustedProject) \<and> ts = []
        else list_all (placed_well cfg req ps) ts)"
proof (cases "provision_request cfg (new_provider_registry ps) req")
  case (Inl e)
  then show ?thesis
    by (auto simp: create_container_def act_throw_def provision_request_def)
next
  case (Inr i)
  then have "\<not> (rq_projectTrust req = Some Untrusted \<and> \<not> rq_confirmUntrusted req)"
    by (auto simp: provision_request_def split: if_splits)
  moreover have "emits (placed_well cfg req ps) (provisionContainer env i n)"
    by (rule emits_mono [OF provision_of_input of_input_placed [OF Inr]])
  ultimately show ?thesis
    using Inr by (auto simp: create_container_def split: prod.splits dest: emitsD)
qed


text \<open>
  C38: A creation returns: when the clock goes on and a sleep takes at least its time, the wait for
  the surfaces has given its verdict after as many rounds as the start budget has tenths of a second,
  and one.
\<close>

theorem create_returns:
  assumes "clock_advances env time_of" "startBudgetFor cfg (rq_profile req) \<le> 100 * int n"
  shows "fst (create_container env cfg (new_provider_registry ps) req (Suc n) s) \<noteq> Unfinished"
proof (cases "provision_request cfg (new_provider_registry ps) req")
  case (Inl e)
  then show ?thesis by (simp add: create_container_def act_throw_def)
next
  case (Inr i)
  with request_cases have "pi_startTimeoutMs i \<le> 100 * int n" using assms(2) by metis
  from provision_settles [OF assms(1) this] Inr show ?thesis
    by (simp add: create_container_def settles_def)
qed

text \<open>A world that is its clock, in which no runtime ever becomes ready.\<close>

definition idle_env :: "int env" where
  "idle_env = \<lparr>en_createEntity = (\<lambda>c w. (Inr \<lparr>rv_containerId = ''c1'', rv_version = 1, rv_status = Requested, rv_runtimeRef = None, rv_replayed = False, rv_raw = JNull\<rparr>, w)),
     en_setStatus = (\<lambda>x w. (Inr (), w)), en_loadContainer = (\<lambda>k w. (Inr None, w)), en_nodeContainers = (\<lambda>k w. (Inr [], w)),
     en_sweepContainers = (\<lambda>k t w. (Inr [], w)), en_lock = (\<lambda>k w. (Inr (), w)), en_unlock = (\<lambda>k w. (Inr (), w)),
     en_create = (\<lambda>p x c w. (Inr (bare_handle ''r1''), w)), en_start = (\<lambda>p h w. (Inr (), w)), en_stop = (\<lambda>p h t w. (Inr (), w)),
     en_pause = (\<lambda>p h w. (Inr (), w)), en_resume = (\<lambda>p h w. (Inr (), w)), en_destroy = (\<lambda>p h w. (Inr (), w)),
     en_inspect = (\<lambda>p h w. (Inr \<lparr>in_status = R_created, in_surfaces = [], in_usage = None\<rparr>, w)), en_list = (\<lambda>p w. (Inr [], w)),
     en_probe = (\<lambda>p w. (Inr (True, []), w)), en_now = (\<lambda>w. (w, w)), en_sleep = (\<lambda>ms w. w + ms)\<rparr>"

definition plain_config :: service_config where
  "plain_config = \<lparr>sc_nodeId = ''n1'', sc_cap = 8, sc_dataDir = ''/data'', sc_startTimeoutMs = None, sc_keepFailed = False,
     sc_hostVmBoundary = False, sc_parseDate = (\<lambda>_. None)\<rparr>"

definition shell_request :: create_request where
  "shell_request = \<lparr>rq_spaceId = ''s1'', rq_clientMutationId = ''m1'', rq_profile = Shell, rq_title = None, rq_provider = None,
     rq_nodeId = None, rq_image = None, rq_spec = None, rq_lifecycle = None, rq_shareMode = None, rq_parentId = None, rq_templateId = None,
     rq_projectId = None, rq_projectTrust = None, rq_confirmUntrusted = False, rq_bypassPermissions = False, rq_start = None,
     rq_actorId = None, rq_spawnedBy = None\<rparr>"

lemma idle_clock: "clock_advances idle_env id"
  by (simp add: clock_advances_def idle_env_def)

lemma create_returns_witness:
  "fst (create_container idle_env plain_config (new_provider_registry [fake_instance None None None 0]) shell_request (Suc 1200)
     \<lparr>wo_state = 0, wo_trace = []\<rparr>) \<noteq> Unfinished"
  by (rule create_returns [OF idle_clock]) (simp add: startBudgetFor_def plain_config_def shell_request_def)

subsection \<open>Reconciliation\<close>

text \<open>Why a runtime may be destroyed: its record is gone, going or stuck, or it carries our label with no record.\<close>

definition ours_to_destroy :: "event list \<Rightarrow> node_row list \<Rightarrow> string \<Rightarrow> string \<Rightarrow> bool" where
  "ours_to_destroy ts rows pid ref \<longleftrightarrow> (\<exists>ls. (PList pid, AListings ls) \<in> set ts \<and> (\<exists>l \<in> set ls. li_runtimeRef l = ref \<and>
     ((\<exists>row \<in> set rows. nr_runtimeRef row = Some ref \<and> (nr_deleted row \<or> nr_status row \<in> {Destroyed, Provisioning}))
      \<or> (\<exists>cid. labelled l = Some cid \<and> (\<forall>row \<in> set rows. nr_containerEntityId row \<noteq> cid)))))"

fun justified :: "event list \<Rightarrow> node_row list \<Rightarrow> event \<Rightarrow> bool" where
  "justified ts rows (c, a) = (case c of
     PDestroy pid h \<Rightarrow> ours_to_destroy ts rows pid (ha_runtimeRef h)
   | SetStatus w \<Rightarrow> (\<exists>row \<in> set rows. ss_containerId w = nr_containerEntityId row \<and>
       (ss_status w = FailedStatus \<and> nr_status row \<in> {Running, Paused, Provisioning}
        \<or> ss_status w = Provisioning \<and> (\<exists>pid ls. (PList pid, AListings ls) \<in> set ts \<and> (\<exists>l \<in> set ls.
             labelled l = Some (ss_containerId w) \<and> ss_runtimeRef w = Some (li_runtimeRef l)))))
   | PList pid \<Rightarrow> True
   | NodeContainers nodeId \<Rightarrow> True
   | Now \<Rightarrow> True
   | _ \<Rightarrow> False)"

text \<open>No call about a runtime with that reference.\<close>

fun spares :: "string \<Rightarrow> event \<Rightarrow> bool" where
  "spares ref (c, a) = (case c of
     PDestroy pid h \<Rightarrow> ha_runtimeRef h \<noteq> ref
   | SetStatus w \<Rightarrow> ss_runtimeRef w \<noteq> Some ref
   | _ \<Rightarrow> True)"

lemma runtime_of_known: "runtime_of live row = Some (l, pid) \<Longrightarrow> row \<in> set rows \<Longrightarrow>
   nr_runtimeRef row = Some (the (nr_runtimeRef row)) \<and> the (nr_runtimeRef row) \<in> set (byRuntimeRef rows) \<and> (the (nr_runtimeRef row), l, pid) \<in> set live"
  by (auto simp: runtime_of_def falsy_ref_def byRuntimeRef_def List.map_filter_def split: if_splits dest: map_of_SomeD)

lemma row_event_justified:
  assumes "row_event rows live e" and live: "\<forall>ref l pid. (ref, l, pid) \<in> set live \<longrightarrow> (\<exists>ls. (PList pid, AListings ls) \<in> set ts \<and> l \<in> set ls \<and> li_runtimeRef l = ref)"
  shows "justified ts rows e \<and> (ref \<notin> set (byRuntimeRef rows) \<longrightarrow> spares ref e)"
proof -
  obtain c a where e: "e = (c, a)" by (cases e)
  show ?thesis
  proof (cases "\<exists>pid h. c = PDestroy pid h")
    case True
    then obtain pid h where c: "c = PDestroy pid h" by blast
    with assms(1) e obtain row l where r: "row \<in> set rows" "runtime_of live row = Some (l, pid)" "h = bare_handle (the (nr_runtimeRef row))"
        "nr_deleted row \<or> nr_status row \<in> {Destroyed, Provisioning}" by auto
    note k = runtime_of_known [OF r(2,1)]
    with live obtain ls where "(PList pid, AListings ls) \<in> set ts" "l \<in> set ls" "li_runtimeRef l = the (nr_runtimeRef row)" by blast
    with k r e c show ?thesis by (auto simp: ours_to_destroy_def bare_handle_def)
  next
    case False
    with assms(1) e show ?thesis by (auto split: call.splits)
  qed
qed

lemma place_event_justified:
  assumes "place_event rows live e" and live: "\<forall>ref l pid. (ref, l, pid) \<in> set live \<longrightarrow> (\<exists>ls. (PList pid, AListings ls) \<in> set ts \<and> l \<in> set ls \<and> li_runtimeRef l = ref)"
    and d: "distinct (map fst live)"
  shows "justified ts rows e \<and> (ref \<in> set (strangers rows live) \<longrightarrow> spares ref e)"
proof -
  obtain c a where e: "e = (c, a)" by (cases e)
  have stranger: "labelled l = None" if "ref \<in> set (strangers rows live)" "(ref, l, pid) \<in> set live" for l pid
    using that d by (auto simp: strangers_def dest: eq_key_imp_eq_value)
  show ?thesis
  proof (cases "\<exists>pid h. c = PDestroy pid h")
    case True
    then obtain pid h where c: "c = PDestroy pid h" by blast
    with assms(1) e obtain ref' l cid where r: "(ref', l, pid) \<in> set live" "h = bare_handle ref'" "labelled l = Some cid"
        "\<forall>row \<in> set rows. nr_containerEntityId row \<noteq> cid" by auto
    from live r(1) obtain ls where "(PList pid, AListings ls) \<in> set ts" "l \<in> set ls" "li_runtimeRef l = ref'" by blast
    with r e c stranger show ?thesis by (auto simp: ours_to_destroy_def bare_handle_def)
  next
    case False
    show ?thesis
    proof (cases "\<exists>w. c = SetStatus w")
      case True
      then obtain w where c: "c = SetStatus w" by blast
      with assms(1) e obtain ref' l pid cid where r: "(ref', l, pid) \<in> set live" "labelled l = Some cid" "cid \<in> nr_containerEntityId ` set rows"
          "ss_status w = Provisioning" "ss_containerId w = cid" "ss_runtimeRef w = Some ref'" by auto
      from live r(1) obtain ls where "(PList pid, AListings ls) \<in> set ts" "l \<in> set ls" "li_runtimeRef l = ref'" by blast
      with r e c stranger show ?thesis by auto
    qed (use False assms(1) e in \<open>auto split: call.splits\<close>)
  qed
qed

lemma justified_mono: "justified ts rows e \<Longrightarrow> set ts \<subseteq> set us \<Longrightarrow> justified us rows e"
  by (cases e) (auto simp: ours_to_destroy_def split: call.splits; blast)

lemma reconcile_events:
  assumes ts: "list_all (\<lambda>(c, a). case c of PList _ \<Rightarrow> True | _ \<Rightarrow> False) ts" and d: "distinct (map fst live)"
    and live: "\<forall>ref l pid. (ref, l, pid) \<in> set live \<longrightarrow> (\<exists>ls. (PList pid, AListings ls) \<in> set ts \<and> l \<in> set ls \<and> li_runtimeRef l = ref)"
    and us: "list_all (row_event rows live) us" and ws: "list_all (place_event rows live) ws"
  shows "list_all (justified ((NodeContainers n, ARows rows) # ts @ us @ ws) rows) ((NodeContainers n, ARows rows) # ts @ us @ ws)
     \<and> list_all (\<lambda>ref. list_all (spares ref) ((NodeContainers n, ARows rows) # ts @ us @ ws)) (strangers rows live)"
proof -
  let ?ts = "(NodeContainers n, ARows rows) # ts @ us @ ws"
  have listed: "justified ?ts rows e \<and> spares ref e" if "e \<in> set ts" for e ref
    using ts that by (cases e) (auto simp: list_all_iff split: call.splits)
  have known: "ref \<notin> set (byRuntimeRef rows)" if "ref \<in> set (strangers rows live)" for ref
    using that by (auto simp: strangers_def)
  have all: "justified ?ts rows e \<and> (ref \<in> set (strangers rows live) \<longrightarrow> spares ref e)" if "e \<in> set ?ts" for e ref
  proof -
    from that consider "e = (NodeContainers n, ARows rows)" | "e \<in> set ts" | "e \<in> set us" | "e \<in> set ws" by auto
    then show ?thesis
    proof cases
      case 3
      with us have "row_event rows live e" by (simp add: list_all_iff)
      from row_event_justified [OF this live] known justified_mono show ?thesis by (metis Un_upper1 set_append set_subset_Cons subset_trans)
    next
      case 4
      with ws have "place_event rows live e" by (simp add: list_all_iff)
      from place_event_justified [OF this live d] justified_mono show ?thesis by (metis Un_upper1 set_append set_subset_Cons subset_trans)
    qed (use listed in auto)
  qed
  then show ?thesis by (auto simp: list_all_iff simp del: set_append)
qed

text \<open>
  C39: Reconciliation never throws and always ends. When the records cannot be read it does nothing
  further. Otherwise it destroys a runtime only if a provider listed it and its record is deleted,
  destroyed or stuck in provisioning, or it carries our label and no record has that id; it fails
  only records that are running, paused or provisioning; it adopts only a listed runtime, for the
  record its label names; and the runtimes it reports as quarantined
  are never the object of a call: none of them is destroyed or adopted.
\<close>

theorem reconcile_touches_only_ours:
  "case reconcile env cfg reg s of (r, s') \<Rightarrow>
     \<exists>rep ts. r = Returned rep \<and> wo_trace s' = wo_trace s @ ts \<and>
       ((\<exists>e. ts = [(NodeContainers (sc_nodeId cfg), AFailed e)])
        \<or> (\<exists>rows us. ts = (NodeContainers (sc_nodeId cfg), ARows rows) # us \<and> list_all (justified ts rows) ts
             \<and> list_all (\<lambda>ref. list_all (spares ref) ts) (rr_quarantined rep)))"
proof -
  obtain r s' where run: "reconcile env cfg reg s = (r, s')" by (cases "reconcile env cfg reg s")
  let ?m = "ask (NodeContainers (sc_nodeId cfg)) ARows (en_nodeContainers env (sc_nodeId cfg))"
  obtain q t where q: "attempt ?m s = (Returned q, t)" and k: "(case q of
       Inl e \<Rightarrow> act_return (push_failure None None e (empty_report (sc_nodeId cfg)))
     | Inr rows \<Rightarrow> act_bind (list_runtimes env (list_providers reg) [] (empty_report (sc_nodeId cfg))) (\<lambda>(live, rep).
         act_bind (repair_rows env cfg live rows rep) (\<lambda>rep'. place_runtimes env rows live rep'))) t = (r, s')"
    using run unfolding reconcile_def by (auto dest!: bind_returned [OF _ attempt_never_throws [OF ask_settles]])
  from q ask_settles have "\<exists>rep ts. r = Returned rep \<and> wo_trace s' = wo_trace s @ ts \<and>
       ((\<exists>e. ts = [(NodeContainers (sc_nodeId cfg), AFailed e)])
        \<or> (\<exists>rows us. ts = (NodeContainers (sc_nodeId cfg), ARows rows) # us \<and> list_all (justified ts rows) ts
             \<and> list_all (\<lambda>ref. list_all (spares ref) ts) (rr_quarantined rep)))"
  proof (rule attempt_cases)
    fix e assume "?m s = (Threw e, t)" "Returned q = Returned (Inl e)"
    with k show ?thesis by (auto simp: act_return_def elim: ask_cases)
  next
    fix rows assume m: "?m s = (Returned rows, t)" "Returned q = Returned (Inr rows)"
    then have t: "wo_trace t = wo_trace s @ [(NodeContainers (sc_nodeId cfg), ARows rows)]" by (auto elim: ask_cases)
    obtain x u where x: "list_runtimes env (list_providers reg) [] (empty_report (sc_nodeId cfg)) t = (x, u)" by fastforce
    obtain live rep ts where l: "x = Returned (live, rep)" "wo_trace u = wo_trace t @ ts"
        "list_all (\<lambda>(c, a). case c of PList _ \<Rightarrow> True | _ \<Rightarrow> False) ts" "rr_quarantined rep = []" "distinct (map fst live)"
        "\<forall>ref l pid. (ref, l, pid) \<in> set live \<longrightarrow> (\<exists>ls. (PList pid, AListings ls) \<in> set ts \<and> l \<in> set ls \<and> li_runtimeRef l = ref)"
      using list_runtimes_run [OF x] by (auto simp: empty_report_def)
    obtain rep1 v where v: "repair_rows env cfg live rows rep u = (Returned rep1, v)" "rr_quarantined rep1 = []"
      using repair_rows_run [of env cfg live rows rep u] l(4) by (metis prod.collapse)
    obtain rep2 where w: "place_runtimes env rows live rep1 v = (Returned rep2, s')" "r = Returned rep2" "rr_quarantined rep2 = strangers rows live"
      using place_runtimes_run [of env rows live rep1 v] k m(2) x l(1) v by (auto simp: act_bind_def)
    obtain us where us: "wo_trace v = wo_trace u @ us" "list_all (row_event rows live) us"
      using emitsD [OF repair_rows_emits [OF order_refl] v(1)] by blast
    obtain ws where ws: "wo_trace s' = wo_trace v @ ws" "list_all (place_event rows live) ws"
      using emitsD [OF place_runtimes_emits [OF order_refl] w(1)] by blast
    let ?ts = "(NodeContainers (sc_nodeId cfg), ARows rows) # ts @ us @ ws"
    show ?thesis
      by (rule exI [of _ rep2], rule exI [of _ ?ts])
        (use reconcile_events [OF l(3,5,6) us(2) ws(2)] t l(2) us(1) ws(1) w in auto)
  qed
  with run show ?thesis by simp
qed

subsection \<open>The status machine\<close>

lemma provision_statuses_legal: "undone ts i e \<or> brought_up ts i res \<Longrightarrow> legal_path Requested (statuses ts)"
  by (auto simp: undone_def brought_up_def edge_simps split: if_splits)


subsection \<open>Where the parts do not meet\<close>

text \<open>
  A container created with \<open>start: false\<close> is left in provisioning, and the start verb refuses it: it
  can never be started.
\<close>

lemma unstarted_cannot_start:
  assumes "en_loadContainer env (lr_containerId req) (wo_state s) = (Inr (Some rec), w)" "cr_status rec = Provisioning"
    "get_provider reg (cr_provider rec) = Some p" "cr_runtimeRef rec = Some ref" "ref \<noteq> []"
  shows "fst (start_container env reg req s) = Threw (ContainerError StateCode (WrongStatus ''start'' Provisioning))"
  using assms by (simp add: start_container_def resolveRuntime_def act_bind_def ask_def perform_def act_return_def act_throw_def assertStatus_def falsy_ref_def)

text \<open>
  A runtime whose record failed is left alone: compensation that could not destroy it is not made up
  for, since the record names the runtime.
\<close>

lemma failed_runtime_is_kept:
  assumes "nr_status row = FailedStatus" "\<not> nr_deleted row" "nr_runtimeRef row = Some ref" "ref \<noteq> []" "row \<in> set rows"
  shows "repair_row env cfg live row = act_return None" "place_runtimes env rows [(ref, l, pid)] rep = act_return rep"
proof -
  show "repair_row env cfg live row = act_return None"
    using assms by (auto simp: repair_row_def split: option.splits)
  have "ref \<in> set (byRuntimeRef rows)"
    using assms by (force simp: byRuntimeRef_def List.map_filter_def falsy_ref_def)
  then show "place_runtimes env rows [(ref, l, pid)] rep = act_return rep" by simp
qed

text \<open>Adopting a runtime writes a status the machine allows only from two of the nine statuses.\<close>

lemma adoption_legal_iff: "write_allowed st Provisioning \<longleftrightarrow> st = Requested \<or> st = Provisioning"
  by (cases st) (simp_all add: edge_simps)

text \<open>The sweep's stop of a persistent container that is already stopped is an illegal write.\<close>

lemma sweep_stop_of_stopped: "\<not> write_allowed Stopped Stopping"
  by (simp add: edge_simps)

text \<open>The sweep, like reconciliation, never throws.\<close>

lemma sweep_never_throws: "never_throws (sweep env cfg reg)"
proof -
  have row: "settles (sweep_row_action env reg row)" for row
    unfolding sweep_row_action_def resolveRuntime_def write_status_def destroy_runtime_def Let_def
    by (cases "sw_action row") (simp_all, (intro effect_intros)+)
  have rows: "never_throws (sweep_rows env reg rows acc)" for rows acc
    by (induction rows arbitrary: acc) (simp_all, intro effect_intros row)
  show ?thesis
    unfolding sweep_def clock_def
  proof (intro effect_intros)
    fix x :: "thrown + sweep_row list"
    show "never_throws (case x of Inl e \<Rightarrow> act_return [] | Inr due \<Rightarrow> sweep_rows env reg due [])"
      by (cases x) (simp_all add: rows)
  qed
qed

end
